(* ===== verification/Prelude.thy ===== *)
theory Prelude
  imports Main "HOL-Library.Word" "HOL-Library.Monad_Syntax"
begin

text \<open>
  Shared vocabulary of the development: the machine integer types, bounds-checked C arrays,
  pointers as readers, byte-addressed memory with its read-over-write lemmas, counted loops
  and their invariant rule, and the collections of facts (\<open>named_theorems\<close>) the component
  proofs draw on.
\<close>

unbundle bit_operations_syntax

named_theorems c_array "bounds-checked array accesses"
named_theorems mem_simps "reads over writes of byte-addressed memory"
named_theorems frame_simps "what an operation leaves unchanged"
named_theorems inv_intros "preservation of the component invariants"

section \<open>Machine integers\<close>

text \<open>\<^verbatim>\<open>types.h\<close>: \<open>uint8_t\<close>, \<open>uint16_t\<close>, \<open>uint32_t\<close>. A signed \<open>int8_t\<close> is the
  same byte read by \<open>sint\<close>.\<close>

type_synonym u8 = "8 word"
type_synonym u16 = "16 word"
type_synonym u32 = "32 word"

lemma unat_u8_less: "unat (b :: u8) < 256"
  using unsigned_less [of b] by simp

lemma unat_u32_less: "unat (w :: u32) < 4294967296"
  using unsigned_less [of w] by simp

text \<open>The signed reading of a word, and its negation.\<close>

lemma sint_u32: "sint (w :: u32) = (if unat w < 2147483648 then int (unat w) else int (unat w) - 4294967296)"
proof -
  have u: "int (unat w) = sint w mod 4294967296"
    using uint_sint [of w] by (simp add: take_bit_eq_mod)
  have b: "- 2147483648 \<le> sint w" "sint w < 2147483648"
    using sint_ge [of w] sint_lt [of w] by simp_all
  show ?thesis
  proof (cases "0 \<le> sint w")
    case True
    then have "int (unat w) = sint w" using u b by (simp only: mod_pos_pos_trivial)
    moreover from this b have "unat w < 2147483648" by linarith
    ultimately show ?thesis by (simp only: if_True)
  next
    case False
    have "sint w mod 4294967296 = (sint w + 4294967296) mod 4294967296" by simp
    also have "\<dots> = sint w + 4294967296" using False b by (intro mod_pos_pos_trivial) auto
    finally have "int (unat w) = sint w + 4294967296" using u by (simp only:)
    moreover from this b have "\<not> unat w < 2147483648" by linarith
    ultimately show ?thesis by (simp only: if_False)
  qed
qed

lemma unat_uminus_u32: "(w :: u32) \<noteq> 0 \<Longrightarrow> unat (- w) = 4294967296 - unat w"
  using unat_sub_if_size [of 0 w] by (simp add: word_size unat_gt_0 word_le_nat_alt)

lemma unat_pred:
  assumes "Suc n = unat (x :: u32)"
  shows "unat (x - 1) = n" and "x \<noteq> 0"
proof -
  show "x \<noteq> 0" using assms by auto
  then show "unat (x - 1) = n" using assms by (simp add: unat_minus_one)
qed

text \<open>A C string literal as its bytes, without the terminator.\<close>

definition chars :: "string \<Rightarrow> u8 list" where
  "chars cs = map (\<lambda>c. of_nat (of_char c)) cs"

lemma length_chars [simp]: "length (chars cs) = length cs"
  by (simp add: chars_def)

section \<open>C arrays\<close>

text \<open>
  A C array of \<open>n\<close> elements is a list of length \<open>n\<close>. An access outside it has no defined
  result; the model returns \<open>None\<close> there.
\<close>

definition aget :: "'a list \<Rightarrow> nat \<Rightarrow> 'a option" where
  "aget xs i = (if i < length xs then Some (xs ! i) else None)"

definition aput :: "nat \<Rightarrow> 'a \<Rightarrow> 'a list \<Rightarrow> 'a list option" where
  "aput i v xs = (if i < length xs then Some (xs[i := v]) else None)"

lemma aget_in [c_array]: "i < length xs \<Longrightarrow> aget xs i = Some (xs ! i)"
  by (simp add: aget_def)

lemma aput_in [c_array]: "i < length xs \<Longrightarrow> aput i v xs = Some (xs[i := v])"
  by (simp add: aput_def)

lemma aget_Some_iff [c_array]: "aget xs i = Some v \<longleftrightarrow> i < length xs \<and> v = xs ! i"
  by (auto simp: aget_def)

lemma aput_Some_iff [c_array]: "aput i v xs = Some ys \<longleftrightarrow> i < length xs \<and> ys = xs[i := v]"
  by (auto simp: aput_def)

text \<open>A pointer to bytes, as the values \<open>s[0]\<close>, \<open>s[1]\<close>, ... it reads.\<close>

type_synonym cptr = "nat \<Rightarrow> u8 option"

section \<open>Byte-addressed memory\<close>

type_synonym mem = "u32 \<Rightarrow> u8"

definition ptr_mem :: "mem \<Rightarrow> u32 \<Rightarrow> cptr" where
  "ptr_mem m a = (\<lambda>i. Some (m (a + of_nat i)))"

text \<open>The 32-bit little-endian load the processor does for \<open>*(uint32_t *)a\<close>.\<close>

definition load32 :: "mem \<Rightarrow> u32 \<Rightarrow> u32" where
  "load32 m a = of_nat (unat (m a) + 256 * unat (m (a + 1)) +
     65536 * unat (m (a + 2)) + 16777216 * unat (m (a + 3)))"

definition byte_of :: "nat \<Rightarrow> u32 \<Rightarrow> u8" where
  "byte_of k w = ucast (drop_bit (8 * k) w)"

definition store32 :: "u32 \<Rightarrow> u32 \<Rightarrow> mem \<Rightarrow> mem" where
  "store32 a w m = m(a := byte_of 0 w, a + 1 := byte_of 1 w, a + 2 := byte_of 2 w, a + 3 := byte_of 3 w)"

definition bytes_at :: "mem \<Rightarrow> u32 \<Rightarrow> nat \<Rightarrow> u8 list" where
  "bytes_at m a n = map (\<lambda>i. m (a + of_nat i)) [0..<n]"

text \<open>\<open>x\<close> lies in the \<open>n\<close> bytes that start at \<open>a\<close> (wrapping at the end of the address
  space) exactly when its distance from \<open>a\<close> is below \<open>n\<close>.\<close>

definition in_region :: "u32 \<Rightarrow> nat \<Rightarrow> u32 \<Rightarrow> bool" where
  "in_region a n x \<longleftrightarrow> unat (x - a) < n"

definition write_bytes :: "u32 \<Rightarrow> u8 list \<Rightarrow> mem \<Rightarrow> mem" where
  "write_bytes a bs m = (\<lambda>x. if in_region a (length bs) x then bs ! unat (x - a) else m x)"

lemma unat_of_nat32 [simp]: "i < 4294967296 \<Longrightarrow> unat (of_nat i :: u32) = i"
  by (simp add: unat_of_nat take_bit_eq_mod)

lemma of_nat_unat_sub [simp]: "a + of_nat (unat (x - a)) = (x :: u32)"
  by simp

lemma of_nat32_inj: "i < 4294967296 \<Longrightarrow> j < 4294967296 \<Longrightarrow> (of_nat i = (of_nat j :: u32)) \<longleftrightarrow> i = j"
  by (metis unat_of_nat32)

lemma addr_eq_iff: "j < 4294967296 \<Longrightarrow> x = a + of_nat j \<longleftrightarrow> unat (x - a :: u32) = j"
  by (metis add_diff_cancel_left' of_nat_unat_sub unat_of_nat32)

lemma length_bytes_at [simp]: "length (bytes_at m a n) = n"
  by (simp add: bytes_at_def)

lemma nth_bytes_at [mem_simps]: "i < n \<Longrightarrow> bytes_at m a n ! i = m (a + of_nat i)"
  by (simp add: bytes_at_def)

lemma write_bytes_Nil [simp]: "write_bytes a [] m = m"
  by (simp add: write_bytes_def in_region_def)

lemma write_bytes_inside [mem_simps]:
  "i < length bs \<Longrightarrow> i < 4294967296 \<Longrightarrow> write_bytes a bs m (a + of_nat i) = bs ! i"
  by (simp add: write_bytes_def in_region_def)

lemma write_bytes_outside [mem_simps]: "\<not> in_region a (length bs) x \<Longrightarrow> write_bytes a bs m x = m x"
  by (simp add: write_bytes_def)

lemma bytes_at_write_bytes [mem_simps]:
  "length bs \<le> 4294967296 \<Longrightarrow> n = length bs \<Longrightarrow> bytes_at (write_bytes a bs m) a n = bs"
  by (rule nth_equalityI) (simp_all add: mem_simps)

text \<open>A region that does not wrap is an interval of addresses.\<close>

lemma in_region_nowrap:
  "unat a + n \<le> 4294967296 \<Longrightarrow> in_region a n x \<longleftrightarrow> unat a \<le> unat x \<and> unat x < unat a + n"
  using unat_u32_less [of x] unat_u32_less [of a]
  by (auto simp: in_region_def unat_sub_if_size word_size word_le_nat_alt)

text \<open>One more byte at the front of a written region, and at its end.\<close>

lemma write_bytes_Cons:
  assumes "length bs < 4294967296"
  shows "write_bytes a (b # bs) m = (write_bytes (a + 1) bs m)(a := b)"
proof
  fix x
  have "unat (x - (a + 1)) = unat (x - a) - 1" if "x \<noteq> a"
    using that unat_minus_one [of "x - a"] by (simp add: diff_diff_eq)
  moreover have "unat (x - (a + 1)) = 4294967295" if "x = a"
    using that by (simp add: unsigned_minus_1_eq_mask mask_eq_exp_minus_1)
  moreover have "unat (x - a) = 0 \<longleftrightarrow> x = a" by (simp add: unat_eq_0)
  ultimately show "write_bytes a (b # bs) m x = ((write_bytes (a + 1) bs m)(a := b)) x"
    using assms by (cases "x = a") (auto simp: write_bytes_def in_region_def nth_Cons')
qed

lemma write_bytes_snoc:
  assumes "length bs < 4294967296"
  shows "write_bytes a (bs @ [b]) m = (write_bytes a bs m)(a + of_nat (length bs) := b)"
proof
  fix x
  have "x = a + of_nat (length bs) \<longleftrightarrow> unat (x - a) = length bs"
    using assms by (rule addr_eq_iff)
  then show "write_bytes a (bs @ [b]) m x = ((write_bytes a bs m)(a + of_nat (length bs) := b)) x"
    by (auto simp: write_bytes_def in_region_def nth_append)
qed

section \<open>Counted loops\<close>

text \<open>\<open>for (i = a; i < b; i++) body\<close>.\<close>

definition for_loop :: "nat \<Rightarrow> nat \<Rightarrow> (nat \<Rightarrow> 's \<Rightarrow> 's) \<Rightarrow> 's \<Rightarrow> 's" where
  "for_loop a b body s = fold body [a..<b] s"

lemma for_loop_empty [simp]: "b \<le> a \<Longrightarrow> for_loop a b f s = s"
  by (simp add: for_loop_def)

lemma for_loop_Suc: "a \<le> b \<Longrightarrow> for_loop a (Suc b) f s = f b (for_loop a b f s)"
  by (simp add: for_loop_def)

lemma for_loop_inv:
  assumes "a \<le> b" and "P a s" and "\<And>i s. a \<le> i \<Longrightarrow> i < b \<Longrightarrow> P i s \<Longrightarrow> P (Suc i) (f i s)"
  shows "P b (for_loop a b f s)"
  using assms
proof (induction b)
  case 0
  then show ?case by simp
next
  case (Suc b)
  show ?case
  proof (cases "a \<le> b")
    case True
    with Suc show ?thesis by (simp add: for_loop_Suc)
  next
    case False
    with Suc.prems have "a = Suc b" by simp
    with Suc.prems show ?thesis by simp
  qed
qed

text \<open>What every iteration leaves unchanged, the loop leaves unchanged.\<close>

lemma for_loop_frame:
  assumes "\<And>i s. g (f i s) = g s"
  shows "g (for_loop a b f s) = g s"
proof -
  have "g (fold f xs s) = g s" for xs s
    by (induction xs arbitrary: s) (simp_all add: assms)
  then show ?thesis by (simp add: for_loop_def)
qed

end
