(* ===== verification/Machine.thy ===== *)
theory Machine
  imports Prelude
begin

text \<open>
  The machine as the C code sees it: memory, the I/O ports and the interrupt flag, with the
  port macros and \<open>cli\<close>/\<open>sti\<close> of \<^verbatim>\<open>student-distrib/lib.h\<close>. Every component of the kernel
  extends this record with its own globals.

  The ports are the history of the accesses made to them. A device answers an \<open>inb\<close> as it
  likes: it is a parameter, the byte read from a port after a history of accesses.
\<close>

datatype io = Out u16 u8 | In u16

record hw =
  mem :: mem
  ports :: "io list"
  intr :: bool

type_synonym device = "io list \<Rightarrow> u16 \<Rightarrow> u8"

definition outb :: "u32 \<Rightarrow> u16 \<Rightarrow> 'a hw_scheme \<Rightarrow> 'a hw_scheme" where
  "outb data port s = s\<lparr>ports := ports s @ [Out port (ucast data)]\<rparr>"

definition inb :: "device \<Rightarrow> u16 \<Rightarrow> 'a hw_scheme \<Rightarrow> u32 \<times> 'a hw_scheme" where
  "inb dev port s = (ucast (dev (ports s) port), s\<lparr>ports := ports s @ [In port]\<rparr>)"

definition cli :: "'a hw_scheme \<Rightarrow> 'a hw_scheme" where
  "cli s = s\<lparr>intr := False\<rparr>"

definition sti :: "'a hw_scheme \<Rightarrow> 'a hw_scheme" where
  "sti s = s\<lparr>intr := True\<rparr>"

text \<open>\<open>*(uint8_t *)a = v\<close>.\<close>

definition poke :: "u32 \<Rightarrow> u8 \<Rightarrow> 'a hw_scheme \<Rightarrow> 'a hw_scheme" where
  "poke a v s = s\<lparr>mem := (mem s)(a := v)\<rparr>"

lemma outb_simps [simp]:
  "mem (outb d p s) = mem s" "intr (outb d p s) = intr s" "ports (outb d p s) = ports s @ [Out p (ucast d)]"
  "hw.more (outb d p s) = hw.more s"
  by (simp_all add: outb_def)

lemma inb_simps [simp]:
  "fst (inb dev p s) = ucast (dev (ports s) p)"
  "mem (snd (inb dev p s)) = mem s" "intr (snd (inb dev p s)) = intr s"
  "ports (snd (inb dev p s)) = ports s @ [In p]"
  "hw.more (snd (inb dev p s)) = hw.more s"
  by (simp_all add: inb_def)

lemma cli_simps [simp]:
  "mem (cli s) = mem s" "ports (cli s) = ports s" "intr (cli s) = False" "hw.more (cli s) = hw.more s"
  by (simp_all add: cli_def)

lemma sti_simps [simp]:
  "mem (sti s) = mem s" "ports (sti s) = ports s" "intr (sti s) = True" "hw.more (sti s) = hw.more s"
  by (simp_all add: sti_def)

lemma poke_simps [simp]:
  "mem (poke a v s) = (mem s)(a := v)" "ports (poke a v s) = ports s" "intr (poke a v s) = intr s"
  "hw.more (poke a v s) = hw.more s"
  by (simp_all add: poke_def)

section \<open>Waiting for an interrupt\<close>

text \<open>
  \<open>while (!done);\<close> with interrupts enabled: nothing changes the state but the interrupt
  handlers that run meanwhile, given as the sequence in which they arrive. \<open>None\<close>: the flag is
  not set by any of them and the loop goes on spinning.
\<close>

fun spin :: "('s \<Rightarrow> bool) \<Rightarrow> ('s \<Rightarrow> 's) list \<Rightarrow> 's \<Rightarrow> ('s \<times> ('s \<Rightarrow> 's) list) option" where
  "spin done [] s = (if done s then Some (s, []) else None)"
| "spin done (h # hs) s = (if done s then Some (s, h # hs) else spin done hs (h s))"

lemma spin_done: "spin done hs s = Some (s', hs') \<Longrightarrow> done s'"
  by (induction hs arbitrary: s) (auto split: if_splits)

text \<open>It ends as soon as some prefix of the handlers has set the flag.\<close>

lemma spin_append:
  "(\<And>k. k < length hs \<Longrightarrow> \<not> done (fold (\<lambda>h. h) (take k hs) s)) \<Longrightarrow>
    spin done (hs @ hs') s = spin done hs' (fold (\<lambda>h. h) hs s)"
proof (induction hs arbitrary: s)
  case Nil
  then show ?case by simp
next
  case (Cons h hs)
  have "\<not> done s" using Cons.prems [of 0] by simp
  moreover have "\<not> done (fold (\<lambda>h. h) (take k hs) (h s))" if "k < length hs" for k
    using Cons.prems [of "Suc k"] that by simp
  ultimately show ?case using Cons.IH by simp
qed

lemma spin_terminates: "\<exists>k \<le> length hs. done (fold (\<lambda>h. h) (take k hs) s) \<Longrightarrow> spin done hs s \<noteq> None"
proof (induction hs arbitrary: s)
  case Nil
  then show ?case by auto
next
  case (Cons h hs)
  show ?case
  proof (cases "done s")
    case False
    from Cons.prems obtain k where k: "k \<le> length (h # hs)" "done (fold (\<lambda>h. h) (take k (h # hs)) s)" by blast
    with False obtain j where "k = Suc j" by (cases k) auto
    with k have "\<exists>k \<le> length hs. done (fold (\<lambda>h. h) (take k hs) (h s))" by auto
    then show ?thesis using Cons.IH False by simp
  qed simp
qed

end
