(* ===== verification/Lib_String.thy ===== *)
theory Lib_String
  imports Prelude
begin

text \<open>
  The string routines of \<^verbatim>\<open>student-distrib/lib.c\<close>: \<open>strlen\<close>, \<open>strncmp\<close>, \<open>strcpy\<close>,
  \<open>strncpy\<close>, \<open>strrev\<close> and \<open>itoa\<close>.

  A source string is a \<^typ>\<open>cptr\<close>: the value each index reads, \<open>None\<close> outside the object it
  points into. A destination is any store of bytes with an operation \<open>put\<close> (and, where the
  code reads its destination back, \<open>get\<close>): an array of the kernel or a stretch of memory. The
  routines run on both, and the locale \<open>byte_dest\<close> holds what they rely on. \<open>None\<close> is an
  access outside an object, a trap or a loop that does not end.

  Lengths and indices are \<open>nat\<close>: every string lies in a 32-bit address space, so the
  \<open>uint32_t\<close> counters of the code do not wrap before an access fails.
\<close>

section \<open>strlen and strncmp\<close>

partial_function (option) strlen_from :: "cptr \<Rightarrow> nat \<Rightarrow> nat option" where
  "strlen_from s len = Option.bind (s len) (\<lambda>c.
     if c \<noteq> 0 then strlen_from s (Suc len) else Some len)"

definition strlen :: "cptr \<Rightarrow> nat option" where
  "strlen s = strlen_from s 0"

function strncmp_from :: "cptr \<Rightarrow> cptr \<Rightarrow> nat \<Rightarrow> nat \<Rightarrow> int option" where
  "strncmp_from s1 s2 n i =
     (if i < n then
        Option.bind (s1 i) (\<lambda>a. Option.bind (s2 i) (\<lambda>b.
          if a \<noteq> b \<or> a = 0 then Some (sint a - sint b)
          else strncmp_from s1 s2 n (Suc i)))
      else Some 0)"
  by pat_completeness auto
termination
  by (relation "measure (\<lambda>(s1, s2, n, i). n - i)") auto

definition strncmp :: "cptr \<Rightarrow> cptr \<Rightarrow> nat \<Rightarrow> int option" where
  "strncmp s1 s2 n = strncmp_from s1 s2 n 0"

declare strncmp_from.simps [simp del]

text \<open>\<open>xs\<close> is what the pointer reads up to the terminating zero.\<close>

definition c_str :: "cptr \<Rightarrow> u8 list \<Rightarrow> bool" where
  "c_str s xs \<longleftrightarrow> 0 \<notin> set xs \<and> (\<forall>i < length xs. s i = Some (xs ! i)) \<and> s (length xs) = Some 0"

lemma c_str_nth: "c_str s xs \<Longrightarrow> i < length xs \<Longrightarrow> s i = Some (xs ! i)"
  by (simp add: c_str_def)

lemma c_str_end: "c_str s xs \<Longrightarrow> s (length xs) = Some 0"
  by (simp add: c_str_def)

lemma c_str_nonzero: "c_str s xs \<Longrightarrow> i < length xs \<Longrightarrow> xs ! i \<noteq> 0"
  unfolding c_str_def by (metis nth_mem)

lemma c_str_aget: "0 \<notin> set xs \<Longrightarrow> c_str (aget (xs @ 0 # ys)) xs"
  by (simp add: c_str_def c_array nth_append)

lemma strlen_from_c_str:
  assumes "c_str s xs"
  shows "k \<le> length xs \<Longrightarrow> strlen_from s k = Some (length xs)"
proof (induction "length xs - k" arbitrary: k)
  case 0
  then have "k = length xs" by simp
  with assms(1) show ?case by (subst strlen_from.simps) (simp add: c_str_end)
next
  case (Suc n)
  then have k: "k < length xs" by simp
  with Suc have "strlen_from s (Suc k) = Some (length xs)" by simp
  with k assms(1) show ?case by (simp add: strlen_from.simps c_str_nth c_str_nonzero)
qed

lemma strlen_c_str: "c_str s xs \<Longrightarrow> strlen s = Some (length xs)"
  by (simp add: strlen_def strlen_from_c_str)

text \<open>Where it has a result, there is a string.\<close>

definition ends_at :: "cptr \<Rightarrow> nat \<Rightarrow> nat \<Rightarrow> bool" where
  "ends_at s k n \<longleftrightarrow> k \<le> n \<and> s n = Some 0 \<and> (\<forall>i. k \<le> i \<and> i < n \<longrightarrow> (\<exists>c. s i = Some c \<and> c \<noteq> 0))"

lemma strlen_from_Some:
  assumes "strlen_from s k = Some n"
  shows "ends_at s k n"
proof (rule strlen_from.raw_induct [where P = ends_at, OF _ assms])
  fix f s k n
  assume IH: "\<And>s k n. f s k = Some n \<Longrightarrow> ends_at s k n"
    and eq: "Option.bind (s k) (\<lambda>c. if c \<noteq> 0 then f s (Suc k) else Some k) = Some n"
  obtain c where c: "s k = Some c" using eq by (cases "s k") auto
  show "ends_at s k n"
  proof (cases "c = 0")
    case False
    then have "ends_at s (Suc k) n" using eq c by (intro IH) simp
    then show ?thesis
      using c False unfolding ends_at_def by (metis Suc_leI le_eq_less_or_eq Suc_leD)
  qed (use eq c in \<open>auto simp: ends_at_def\<close>)
qed

lemma strlen_Some:
  assumes "strlen s = Some n"
  shows "\<exists>xs. c_str s xs \<and> length xs = n"
proof -
  note f = strlen_from_Some [OF assms [unfolded strlen_def]]
  have "c_str s (map (\<lambda>i. the (s i)) [0..<n])"
    using f by (fastforce simp: c_str_def ends_at_def)
  then show ?thesis by (intro exI [of _ "map (\<lambda>i. the (s i)) [0..<n]"]) simp
qed

text \<open>The comparison as a recursion over the two byte lists.\<close>

fun cmp_bytes :: "u8 list \<Rightarrow> u8 list \<Rightarrow> int" where
  "cmp_bytes (a # as) (b # bs) = (if a \<noteq> b \<or> a = 0 then sint a - sint b else cmp_bytes as bs)"
| "cmp_bytes _ _ = 0"

lemma strncmp_from_lists:
  assumes "\<And>k. k < n \<Longrightarrow> s1 k = Some (xs ! k)" and "\<And>k. k < n \<Longrightarrow> s2 k = Some (ys ! k)"
    and "length xs = n" and "length ys = n"
  shows "strncmp_from s1 s2 n i = Some (cmp_bytes (drop i xs) (drop i ys))"
proof (induction "n - i" arbitrary: i)
  case 0
  with assms show ?case by (simp add: strncmp_from.simps)
next
  case (Suc m)
  then have i: "i < n" by simp
  with Suc have IH: "strncmp_from s1 s2 n (Suc i) = Some (cmp_bytes (drop (Suc i) xs) (drop (Suc i) ys))"
    by simp
  have "drop i xs = xs ! i # drop (Suc i) xs" "drop i ys = ys ! i # drop (Suc i) ys"
    using i assms(3,4) by (simp_all add: Cons_nth_drop_Suc)
  with i IH assms(1,2) show ?case by (simp add: strncmp_from.simps [of s1 s2 n i])
qed

lemma strncmp_lists:
  assumes "\<And>k. k < length xs \<Longrightarrow> s1 k = Some (xs ! k)" and "\<And>k. k < length xs \<Longrightarrow> s2 k = Some (ys ! k)"
    and "length ys = length xs"
  shows "strncmp s1 s2 (length xs) = Some (cmp_bytes xs ys)"
  using strncmp_from_lists [of "length xs" s1 xs s2 ys 0] assms by (simp add: strncmp_def)

lemma sint_u8_inject [simp]: "sint a = sint b \<longleftrightarrow> (a :: u8) = b"
  by (rule word_eq_iff_signed [symmetric])

lemma cmp_bytes_eq_0:
  "length xs = length ys \<Longrightarrow> 0 \<notin> set ys \<Longrightarrow> cmp_bytes xs ys = 0 \<longleftrightarrow> xs = ys"
  by (induction xs ys rule: cmp_bytes.induct) auto

text \<open>Comparing against a terminated string over its own length is a prefix test.\<close>

lemma strncmp_prefix:
  assumes "c_str s2 ys" and "length xs = length ys" and "\<And>k. k < length ys \<Longrightarrow> s1 k = Some (xs ! k)"
  shows "\<exists>d. strncmp s1 s2 (length ys) = Some d \<and> (d = 0 \<longleftrightarrow> xs = ys)"
proof -
  have "strncmp s1 s2 (length xs) = Some (cmp_bytes xs ys)"
    by (rule strncmp_lists) (simp_all add: assms c_str_nth)
  moreover have "0 \<notin> set ys" using assms(1) by (simp add: c_str_def)
  ultimately show ?thesis using assms(2) by (simp add: cmp_bytes_eq_0)
qed

section \<open>strcpy and strncpy\<close>

partial_function (option) strcpy_from ::
    "(nat \<Rightarrow> u8 \<Rightarrow> 'd \<Rightarrow> 'd option) \<Rightarrow> cptr \<Rightarrow> nat \<Rightarrow> 'd \<Rightarrow> 'd option" where
  "strcpy_from put src i d = Option.bind (src i) (\<lambda>c.
     if c \<noteq> 0 then Option.bind (put i c d) (\<lambda>d'. strcpy_from put src (Suc i) d')
     else put i 0 d)"

definition strcpy :: "(nat \<Rightarrow> u8 \<Rightarrow> 'd \<Rightarrow> 'd option) \<Rightarrow> 'd \<Rightarrow> cptr \<Rightarrow> 'd option" where
  "strcpy put d src = strcpy_from put src 0 d"

text \<open>
  \<open>strncpy\<close> has two loops. The first tests \<open>src[i]\<close> before \<open>i < n\<close>, so it also reads
  \<open>src[n]\<close> when the first \<open>n\<close> bytes hold no zero.
\<close>

function strncpy_copy ::
    "(nat \<Rightarrow> u8 \<Rightarrow> 'd \<Rightarrow> 'd option) \<Rightarrow> cptr \<Rightarrow> nat \<Rightarrow> nat \<Rightarrow> 'd \<Rightarrow> (nat \<times> 'd) option" where
  "strncpy_copy put src n i d = Option.bind (src i) (\<lambda>c.
     if c \<noteq> 0 \<and> i < n then Option.bind (put i c d) (\<lambda>d'. strncpy_copy put src n (Suc i) d')
     else Some (i, d))"
  by pat_completeness auto
termination
  by (relation "measure (\<lambda>(put, src, n, i, d). n - i)") auto

function strncpy_pad :: "(nat \<Rightarrow> u8 \<Rightarrow> 'd \<Rightarrow> 'd option) \<Rightarrow> nat \<Rightarrow> nat \<Rightarrow> 'd \<Rightarrow> 'd option" where
  "strncpy_pad put n i d =
     (if i < n then Option.bind (put i 0 d) (\<lambda>d'. strncpy_pad put n (Suc i) d') else Some d)"
  by pat_completeness auto
termination
  by (relation "measure (\<lambda>(put, n, i, d). n - i)") auto

declare strncpy_copy.simps [simp del] strncpy_pad.simps [simp del]

definition strncpy :: "(nat \<Rightarrow> u8 \<Rightarrow> 'd \<Rightarrow> 'd option) \<Rightarrow> 'd \<Rightarrow> cptr \<Rightarrow> nat \<Rightarrow> 'd option" where
  "strncpy put dest src n =
     Option.bind (strncpy_copy put src n 0 dest) (\<lambda>(i, d). strncpy_pad put n i d)"

section \<open>strrev and itoa\<close>

function strrev_loop ::
    "('d \<Rightarrow> nat \<Rightarrow> u8 option) \<Rightarrow> (nat \<Rightarrow> u8 \<Rightarrow> 'd \<Rightarrow> 'd option) \<Rightarrow> nat \<Rightarrow> nat \<Rightarrow> 'd \<Rightarrow> 'd option" where
  "strrev_loop get put b e s =
     (if b < e then
        Option.bind (get s e) (\<lambda>tmp. Option.bind (get s b) (\<lambda>x.
        Option.bind (put e x s) (\<lambda>s'. Option.bind (put b tmp s') (\<lambda>s''.
          strrev_loop get put (Suc b) (e - 1) s''))))
      else Some s)"
  by pat_completeness auto
termination
  by (relation "measure (\<lambda>(get, put, b, e, s). e - b)") auto

declare strrev_loop.simps [simp del]

text \<open>For the empty string the code's \<open>end\<close> is \<open>-1\<close> and the truncated \<open>0\<close> here: the loop
  does not run either way.\<close>

definition strrev ::
    "('d \<Rightarrow> nat \<Rightarrow> u8 option) \<Rightarrow> (nat \<Rightarrow> u8 \<Rightarrow> 'd \<Rightarrow> 'd option) \<Rightarrow> 'd \<Rightarrow> 'd option" where
  "strrev get put s = Option.bind (strlen (get s)) (\<lambda>len. strrev_loop get put 0 (len - 1) s)"

definition itoa_lookup :: "u8 list" where
  "itoa_lookup = chars ''0123456789ABCDEFGHIJKLMNOPQRSTUVWXYZ'' @ [0]"

partial_function (option) itoa_digits ::
    "(nat \<Rightarrow> u8 \<Rightarrow> 'd \<Rightarrow> 'd option) \<Rightarrow> u32 \<Rightarrow> u32 \<Rightarrow> nat \<Rightarrow> 'd \<Rightarrow> (nat \<times> 'd) option" where
  "itoa_digits put newval radix k d =
     (if newval > 0 then
        (if radix = 0 then None
         else Option.bind (aget itoa_lookup (unat (newval mod radix))) (\<lambda>c.
              Option.bind (put k c d) (\<lambda>d'. itoa_digits put (newval div radix) radix (Suc k) d')))
      else Some (k, d))"

definition itoa ::
    "('d \<Rightarrow> nat \<Rightarrow> u8 option) \<Rightarrow> (nat \<Rightarrow> u8 \<Rightarrow> 'd \<Rightarrow> 'd option) \<Rightarrow> u32 \<Rightarrow> 'd \<Rightarrow> u32 \<Rightarrow> 'd option" where
  "itoa get put value buf radix =
     (if value = 0 then Option.bind (put 0 0x30 buf) (\<lambda>b. put 1 0 b)
      else Option.bind (itoa_digits put value radix 0 buf) (\<lambda>(k, b).
           Option.bind (put k 0 b) (\<lambda>b'. strrev get put b')))"

section \<open>Numerals\<close>

text \<open>The digits of a number, least significant first, and the string that prints it.\<close>

function lsd :: "nat \<Rightarrow> nat \<Rightarrow> u8 list" where
  "lsd r v = (if r < 2 \<or> v = 0 then [] else itoa_lookup ! (v mod r) # lsd r (v div r))"
  by pat_completeness auto
termination
  by (relation "measure snd") auto

declare lsd.simps [simp del]

definition num_str :: "nat \<Rightarrow> nat \<Rightarrow> u8 list" where
  "num_str r v = (if v = 0 then [0x30] else rev (lsd r v))"

text \<open>Reading digits back.\<close>

definition digit_val :: "u8 \<Rightarrow> nat" where
  "digit_val c = (if 0x30 \<le> c \<and> c \<le> 0x39 then unat c - 0x30 else unat c - 0x37)"

definition parse_num :: "nat \<Rightarrow> u8 list \<Rightarrow> nat" where
  "parse_num r cs = foldl (\<lambda>n c. r * n + digit_val c) 0 cs"

lemma digit_val_lookup: "i < 36 \<Longrightarrow> digit_val (itoa_lookup ! i) = i \<and> itoa_lookup ! i \<noteq> 0"
proof -
  have "\<forall>i \<in> set [0..<36]. digit_val (itoa_lookup ! i) = i \<and> itoa_lookup ! i \<noteq> 0"
    by code_simp
  then show "i < 36 \<Longrightarrow> ?thesis" by simp
qed

lemma lsd_nonzero: "r \<le> 36 \<Longrightarrow> 0 \<notin> set (lsd r v)"
proof (induction r v rule: lsd.induct)
  case (1 r v)
  show ?case
  proof (cases "r < 2 \<or> v = 0")
    case True
    then show ?thesis by (simp add: lsd.simps)
  next
    case False
    then have "v mod r < 36" using 1(2) by (intro less_le_trans [OF mod_less_divisor]) auto
    then have "itoa_lookup ! (v mod r) \<noteq> 0" using digit_val_lookup by blast
    with False 1 show ?thesis by (auto simp: lsd.simps [of r v])
  qed
qed

lemma parse_num_snoc: "parse_num r (cs @ [c]) = r * parse_num r cs + digit_val c"
  by (simp add: parse_num_def)

lemma parse_lsd:
  assumes "2 \<le> r" and "r \<le> 36"
  shows "parse_num r (rev (lsd r v)) = v"
proof (induction v rule: less_induct)
  case (less v)
  show ?case
  proof (cases "v = 0")
    case True
    then show ?thesis by (simp add: lsd.simps parse_num_def)
  next
    case False
    then have "v div r < v" and "v mod r < 36" using assms by (auto intro: less_le_trans [OF mod_less_divisor])
    with less assms False show ?thesis
      by (simp add: lsd.simps [of r v] parse_num_snoc digit_val_lookup)
  qed
qed

lemma parse_num_str: "2 \<le> r \<Longrightarrow> r \<le> 36 \<Longrightarrow> parse_num r (num_str r v) = v"
  by (cases "v = 0") (simp_all add: num_str_def parse_lsd, simp add: parse_num_def digit_val_def)

text \<open>A number below \<open>r ^ k\<close> has at most \<open>k\<close> digits.\<close>

lemma length_lsd: "2 \<le> r \<Longrightarrow> v < r ^ k \<Longrightarrow> length (lsd r v) \<le> k"
proof (induction k arbitrary: v)
  case 0
  then show ?case by (simp add: lsd.simps)
next
  case (Suc k)
  show ?case
  proof (cases "v = 0")
    case True
    then show ?thesis by (simp add: lsd.simps)
  next
    case False
    have "v div r < r ^ k" using Suc.prems by (simp add: less_mult_imp_div_less mult.commute)
    with Suc False show ?thesis by (simp add: lsd.simps [of r v])
  qed
qed

lemma length_num_str: "2 \<le> r \<Longrightarrow> v < r ^ k \<Longrightarrow> 0 < k \<Longrightarrow> length (num_str r v) \<le> k"
  by (simp add: num_str_def length_lsd)

section \<open>What the routines rely on: a destination of bytes\<close>

text \<open>
  \<open>get\<close> and \<open>put\<close> on a store of \<open>cap\<close> bytes: writing inside the capacity succeeds, keeps
  the capacity, and changes exactly the byte written.
\<close>

locale byte_dest =
  fixes get :: "'d \<Rightarrow> nat \<Rightarrow> u8 option"
    and put :: "nat \<Rightarrow> u8 \<Rightarrow> 'd \<Rightarrow> 'd option"
    and cap :: "'d \<Rightarrow> nat"
  assumes put_total: "i < cap d \<Longrightarrow> put i v d \<noteq> None"
    and put_cap: "put i v d = Some d' \<Longrightarrow> cap d' = cap d"
    and get_put: "put i v d = Some d' \<Longrightarrow> i < cap d \<Longrightarrow> j < cap d \<Longrightarrow>
           get d' j = (if j = i then Some v else get d j)"
begin

lemma put_step:
  assumes "i < cap d"
  shows "\<exists>d'. put i v d = Some d' \<and> cap d' = cap d \<and>
    (\<forall>j < cap d. get d' j = (if j = i then Some v else get d j))"
  using assms put_total [of i d v] put_cap get_put by blast

text \<open>\<open>strncpy\<close> writes the string's first \<open>n\<close> bytes, fills up to \<open>n\<close> with zeros and touches
  nothing else.\<close>

lemma strncpy_copy_c_str:
  assumes "c_str src xs"
  shows "i \<le> min n (length xs) \<Longrightarrow> n \<le> cap d \<Longrightarrow>
    \<exists>d'. strncpy_copy put src n i d = Some (min n (length xs), d') \<and> cap d' = cap d \<and>
      (\<forall>j < cap d. get d' j = (if i \<le> j \<and> j < min n (length xs) then Some (xs ! j) else get d j))"
proof (induction "min n (length xs) - i" arbitrary: i d)
  case 0
  then have i: "i = min n (length xs)" by simp
  have "\<exists>c. src i = Some c \<and> (c = 0 \<or> n \<le> i)"
  proof (cases "length xs \<le> n")
    case True
    with i assms show ?thesis by (simp add: c_str_end)
  next
    case False
    with i assms show ?thesis by (simp add: c_str_nth)
  qed
  then have "strncpy_copy put src n i d = Some (i, d)"
    by (auto simp: strncpy_copy.simps [of put src n i d])
  with i show ?case by auto
next
  case (Suc m)
  then have i: "i < n" "i < length xs" by auto
  then have "i < cap d" using Suc.prems by simp
  then obtain e where e: "put i (xs ! i) d = Some e" "cap e = cap d"
    "\<forall>j < cap d. get e j = (if j = i then Some (xs ! i) else get d j)"
    using put_step [of i d "xs ! i"] by blast
  have "m = min n (length xs) - Suc i" using Suc.hyps(2) by simp
  from Suc.hyps(1) [OF this, of e] i e Suc.prems obtain d' where d':
    "strncpy_copy put src n (Suc i) e = Some (min n (length xs), d')" "cap d' = cap d"
    "\<forall>j < cap d. get d' j = (if Suc i \<le> j \<and> j < min n (length xs) then Some (xs ! j) else get e j)"
    by auto
  have "strncpy_copy put src n i d = Some (min n (length xs), d')"
    using i e d' assms by (simp add: strncpy_copy.simps [of put src n i d] c_str_nth c_str_nonzero)
  then show ?case using d' e i by (auto simp: le_Suc_eq Suc_le_eq)
qed

lemma strncpy_pad_ok:
  "n \<le> cap d \<Longrightarrow> i \<le> n \<Longrightarrow>
    \<exists>d'. strncpy_pad put n i d = Some d' \<and> cap d' = cap d \<and>
      (\<forall>j < cap d. get d' j = (if i \<le> j \<and> j < n then Some 0 else get d j))"
proof (induction "n - i" arbitrary: i d)
  case 0
  then have "\<not> i < n" by simp
  then have "strncpy_pad put n i d = Some d" by (subst strncpy_pad.simps) simp
  with 0 show ?case by auto
next
  case (Suc m)
  then have i: "i < n" "Suc i \<le> n" "i < cap d" by simp_all
  then obtain e where e: "put i 0 d = Some e" "cap e = cap d"
    "\<forall>j < cap d. get e j = (if j = i then Some 0 else get d j)"
    using put_step [of i d 0] by blast
  have "m = n - Suc i" using Suc.hyps(2) by simp
  from Suc.hyps(1) [OF this, of e] e i Suc.prems obtain d' where
    "strncpy_pad put n (Suc i) e = Some d'" "cap d' = cap d"
    "\<forall>j < cap d. get d' j = (if Suc i \<le> j \<and> j < n then Some 0 else get e j)"
    by auto
  then show ?case using e i
    by (auto simp: strncpy_pad.simps [of put n i d] Suc_le_eq le_less)
qed

lemma strncpy_c_str:
  assumes "c_str src xs" and "n \<le> cap d"
  shows "\<exists>d'. strncpy put d src n = Some d' \<and> cap d' = cap d \<and>
    (\<forall>j < cap d. get d' j = (if j < n then Some (if j < length xs then xs ! j else 0) else get d j))"
proof -
  obtain e where e: "strncpy_copy put src n 0 d = Some (min n (length xs), e)" "cap e = cap d"
    "\<forall>j < cap d. get e j = (if j < min n (length xs) then Some (xs ! j) else get d j)"
    using strncpy_copy_c_str [OF assms(1), of 0 n d] assms(2) by auto
  moreover obtain d' where "strncpy_pad put n (min n (length xs)) e = Some d'" "cap d' = cap d"
    "\<forall>j < cap d. get d' j = (if min n (length xs) \<le> j \<and> j < n then Some 0 else get e j)"
    using strncpy_pad_ok [of n e "min n (length xs)"] assms(2) e by auto
  ultimately show ?thesis by (auto simp: strncpy_def)
qed

text \<open>\<open>strcpy\<close> copies the string with its terminator when the destination holds it.\<close>

lemma strcpy_from_c_str:
  assumes "c_str src xs"
  shows "i \<le> length xs \<Longrightarrow> length xs < cap d \<Longrightarrow>
    \<exists>d'. strcpy_from put src i d = Some d' \<and> cap d' = cap d \<and>
      (\<forall>j < cap d. get d' j =
        (if i \<le> j \<and> j < length xs then Some (xs ! j) else if j = length xs then Some 0 else get d j))"
proof (induction "length xs - i" arbitrary: i d)
  case 0
  then have i: "i = length xs" by simp
  with 0 obtain e where "put (length xs) 0 d = Some e" "cap e = cap d"
    "\<forall>j < cap d. get e j = (if j = length xs then Some 0 else get d j)"
    using put_step [of "length xs" d 0] by auto
  moreover from this i assms have "strcpy_from put src i d = Some e"
    by (simp add: strcpy_from.simps [of put src "length xs" d] c_str_end)
  ultimately show ?case using i by auto
next
  case (Suc m)
  then have i: "i < length xs" "i < cap d" by auto
  from i(2) obtain e where e: "put i (xs ! i) d = Some e" "cap e = cap d"
    "\<forall>j < cap d. get e j = (if j = i then Some (xs ! i) else get d j)"
    using put_step [of i d "xs ! i"] by blast
  have "m = length xs - Suc i" using Suc.hyps(2) by simp
  from Suc.hyps(1) [OF this, of e] e i Suc.prems obtain d' where d':
    "strcpy_from put src (Suc i) e = Some d'" "cap d' = cap d"
    "\<forall>j < cap d. get d' j = (if Suc i \<le> j \<and> j < length xs then Some (xs ! j)
       else if j = length xs then Some 0 else get e j)"
    by auto
  then have "strcpy_from put src i d = Some d'"
    using i e assms by (simp add: strcpy_from.simps [of put src i d] c_str_nth c_str_nonzero)
  then show ?case using d' e i by (auto simp: Suc_le_eq le_less)
qed

lemma strcpy_c_str:
  assumes "c_str src xs" and "length xs < cap d"
  shows "\<exists>d'. strcpy put d src = Some d' \<and> cap d' = cap d \<and> c_str (get d') xs \<and>
    (\<forall>j < cap d. length xs < j \<longrightarrow> get d' j = get d j)"
  using strcpy_from_c_str [OF assms(1), of 0 d] assms by (auto simp: strcpy_def c_str_def)

text \<open>\<open>strrev\<close> mirrors the bytes between its two indices.\<close>

lemma strrev_loop_ok:
  "e < cap s \<Longrightarrow> \<forall>j. b \<le> j \<and> j \<le> e \<longrightarrow> get s j \<noteq> None \<Longrightarrow>
    \<exists>s'. strrev_loop get put b e s = Some s' \<and> cap s' = cap s \<and>
      (\<forall>j < cap s. get s' j = (if b \<le> j \<and> j \<le> e then get s (b + e - j) else get s j))"
proof (induction "e - b" arbitrary: b e s rule: less_induct)
  case less
  show ?case
  proof (cases "b < e")
    case False
    then have "strrev_loop get put b e s = Some s" by (simp add: strrev_loop.simps [of get put b e s])
    moreover have "b + e - j = j" if "b \<le> j" "j \<le> e" for j using that False by simp
    ultimately show ?thesis by auto
  next
    case True
    from less.prems(2) True obtain tmp x where tmp: "get s e = Some tmp" and x: "get s b = Some x"
      by (meson le_refl less_imp_le not_Some_eq)
    obtain s1 where s1: "put e x s = Some s1" "cap s1 = cap s"
      "\<forall>j < cap s. get s1 j = (if j = e then Some x else get s j)"
      using put_step [of e s x] less.prems(1) by blast
    obtain s2 where s2: "put b tmp s1 = Some s2" "cap s2 = cap s"
      "\<forall>j < cap s. get s2 j = (if j = b then Some tmp else get s1 j)"
      using put_step [of b s1 tmp] less.prems(1) True s1(2) by auto
    have dec: "e - 1 - Suc b < e - b" and cap: "e - 1 < cap s2" using True less.prems(1) s2 by auto
    have "\<forall>j. Suc b \<le> j \<and> j \<le> e - 1 \<longrightarrow> get s2 j \<noteq> None"
      using less.prems s1 s2 True by auto
    from less.hyps [OF dec cap this] obtain s3 where s3:
      "strrev_loop get put (Suc b) (e - 1) s2 = Some s3" "cap s3 = cap s"
      "\<forall>j < cap s. get s3 j =
         (if Suc b \<le> j \<and> j \<le> e - 1 then get s2 (Suc b + (e - 1) - j) else get s2 j)"
      using s2(2) by auto
    have "strrev_loop get put b e s = Some s3"
      using True tmp x s1 s2 s3 by (simp add: strrev_loop.simps [of get put b e s])
    moreover have "get s3 j = (if b \<le> j \<and> j \<le> e then get s (b + e - j) else get s j)"
      if j: "j < cap s" for j
    proof -
      consider "j = b" | "j = e" | "Suc b \<le> j" "j \<le> e - 1" | "j < b \<or> e < j" by linarith
      then show ?thesis
      proof cases
        case 3
        then have "Suc b + (e - 1) - j = b + e - j" "b + e - j < e" "b < b + e - j" using True by auto
        with 3 s3(3) s2(3) s1(3) j less.prems(1) show ?thesis by auto
      qed (use True s1 s2 s3 tmp x j in auto)
    qed
    ultimately show ?thesis using s3(2) by auto
  qed
qed

lemma strrev_c_str:
  assumes xs: "c_str (get s) xs" and "length xs < cap s"
  shows "\<exists>s'. strrev get put s = Some s' \<and> cap s' = cap s \<and> c_str (get s') (rev xs) \<and>
    (\<forall>j < cap s. length xs < j \<longrightarrow> get s' j = get s j)"
proof (cases "xs = []")
  case True
  with assms show ?thesis
    by (auto simp: strrev_def strlen_c_str strrev_loop.simps [of get put 0 0 s])
next
  case False
  then have len: "length xs - 1 < cap s" "0 < length xs" using assms by auto
  have def: "\<forall>j. 0 \<le> j \<and> j \<le> length xs - 1 \<longrightarrow> get s j \<noteq> None"
  proof (intro allI impI)
    fix j assume "0 \<le> j \<and> j \<le> length xs - 1"
    then have "j < length xs" using len(2) by linarith
    then show "get s j \<noteq> None" using xs by (simp add: c_str_nth)
  qed
  from strrev_loop_ok [OF len(1) def] obtain s' where
    s': "strrev_loop get put 0 (length xs - 1) s = Some s'" "cap s' = cap s"
    "\<forall>j < cap s. get s' j = (if 0 \<le> j \<and> j \<le> length xs - 1 then get s (0 + (length xs - 1) - j) else get s j)"
    by (elim exE conjE)
  have "get s' i = Some (rev xs ! i)" if i: "i < length xs" for i
  proof -
    have "i < cap s" "i \<le> length xs - 1" using i assms(2) by linarith+
    then have "get s' i = get s (length xs - 1 - i)" using s'(3) by simp
    with i xs show ?thesis by (simp add: c_str_nth rev_nth)
  qed
  moreover have "get s' (length xs) = Some 0"
  proof -
    have "\<not> length xs \<le> length xs - 1" using len(2) by linarith
    then show ?thesis using s'(3) assms(2) c_str_end [OF xs] by simp
  qed
  ultimately have "c_str (get s') (rev xs)"
    using xs by (simp add: c_str_def)
  moreover have "\<forall>j < cap s. length xs < j \<longrightarrow> get s' j = get s j"
    using s'(3) by auto
  ultimately show ?thesis using s'(1,2) xs by (simp add: strrev_def strlen_c_str)
qed

text \<open>\<open>itoa\<close> leaves the digits, least significant first, then reverses them.\<close>

lemma itoa_digits_ok:
  assumes r: "2 \<le> radix" "radix \<le> 36"
  shows "k + length (lsd (unat radix) (unat v)) \<le> cap d \<Longrightarrow>
    \<exists>d'. itoa_digits put v radix k d = Some (k + length (lsd (unat radix) (unat v)), d') \<and> cap d' = cap d \<and>
      (\<forall>j < cap d. get d' j = (if k \<le> j \<and> j < k + length (lsd (unat radix) (unat v))
         then Some (lsd (unat radix) (unat v) ! (j - k)) else get d j))"
proof (induction "unat v" arbitrary: v k d rule: less_induct)
  case less
  have ur: "2 \<le> unat radix" "unat radix \<le> 36" using r by (simp_all add: word_le_nat_alt)
  then have rz: "radix \<noteq> 0" by auto
  show ?case
  proof (cases "v = 0")
    case True
    then have "itoa_digits put v radix k d = Some (k, d)" by (simp add: itoa_digits.simps)
    with True show ?thesis by (auto simp: lsd.simps)
  next
    case False
    let ?c = "itoa_lookup ! (unat v mod unat radix)"
    let ?ds = "lsd (unat radix) (unat (v div radix))"
    have v: "0 < unat v" using False by (simp add: unat_gt_0)
    have lsd: "lsd (unat radix) (unat v) = ?c # ?ds"
      using ur v by (simp add: lsd.simps [of "unat radix" "unat v"] unat_div_distrib)
    have dec: "unat (v div radix) < unat v" using ur v by (simp add: unat_div_distrib)
    have lk: "aget itoa_lookup (unat (v mod radix)) = Some ?c"
    proof -
      have "unat v mod unat radix < 36" using ur by (intro less_le_trans [OF mod_less_divisor]) auto
      then show ?thesis by (simp add: c_array unat_mod_distrib itoa_lookup_def)
    qed
    from less.prems lsd have k: "k < cap d" "Suc k + length ?ds \<le> cap d" by auto
    then obtain e where e: "put k ?c d = Some e" "cap e = cap d"
      "\<forall>j < cap d. get e j = (if j = k then Some ?c else get d j)"
      using put_step [of k d ?c] by blast
    from less.hyps [OF dec, of "Suc k" e] k e obtain d' where d':
      "itoa_digits put (v div radix) radix (Suc k) e = Some (Suc k + length ?ds, d')" "cap d' = cap d"
      "\<forall>j < cap d. get d' j = (if Suc k \<le> j \<and> j < Suc k + length ?ds then Some (?ds ! (j - Suc k)) else get e j)"
      by auto
    have "itoa_digits put v radix k d = Some (k + length (lsd (unat radix) (unat v)), d')"
      using False lk e d' lsd rz by (simp add: itoa_digits.simps [of put v radix k d] word_neq_0_conv)
    then show ?thesis using d' e lsd by (auto simp: nth_Cons' Suc_le_eq)
  qed
qed

lemma itoa_c_str:
  assumes r: "2 \<le> radix" "radix \<le> 36" and cap: "length (num_str (unat radix) (unat v)) < cap d"
  shows "\<exists>d'. itoa get put v d radix = Some d' \<and> cap d' = cap d \<and>
    c_str (get d') (num_str (unat radix) (unat v)) \<and>
    (\<forall>j < cap d. length (num_str (unat radix) (unat v)) < j \<longrightarrow> get d' j = get d j)"
proof (cases "v = 0")
  case True
  then have c: "0 < cap d" "1 < cap d" using cap by (auto simp: num_str_def)
  obtain e where e: "put 0 0x30 d = Some e" "cap e = cap d"
    "\<forall>j < cap d. get e j = (if j = 0 then Some 0x30 else get d j)"
    using put_step [of 0 d "0x30"] c by blast
  obtain e' where e': "put 1 0 e = Some e'" "cap e' = cap d"
    "\<forall>j < cap d. get e' j = (if j = 1 then Some 0 else get e j)"
    using put_step [of 1 e 0] c e by auto
  show ?thesis using True c e e' by (auto simp: itoa_def num_str_def c_str_def)
next
  case False
  let ?ds = "lsd (unat radix) (unat v)"
  have v: "unat v \<noteq> 0" using False by (simp add: unat_eq_0)
  have num: "num_str (unat radix) (unat v) = rev ?ds" using v by (simp add: num_str_def)
  with cap have len: "length ?ds < cap d" by simp
  then obtain e where e: "itoa_digits put v radix 0 d = Some (length ?ds, e)" "cap e = cap d"
    "\<forall>j < cap d. get e j = (if j < length ?ds then Some (?ds ! j) else get d j)"
    using itoa_digits_ok [OF r, of 0 v d] by auto
  obtain e' where e': "put (length ?ds) 0 e = Some e'" "cap e' = cap d"
    "\<forall>j < cap d. get e' j = (if j = length ?ds then Some 0 else get e j)"
    using put_step [of "length ?ds" e 0] len e by auto
  have "c_str (get e') ?ds"
    using lsd_nonzero [of "unat radix" "unat v"] r e e' len by (auto simp: c_str_def word_le_nat_alt)
  then obtain d' where "strrev get put e' = Some d'" "cap d' = cap d" "c_str (get d') (rev ?ds)"
    "\<forall>j < cap d. length ?ds < j \<longrightarrow> get d' j = get e' j"
    using strrev_c_str [of e' ?ds] len e' by auto
  then show ?thesis using False e e' num by (auto simp: itoa_def)
qed

end

end
