(* ===== verification/Console.thy ===== *)
theory Console
  imports Machine Lib_String
begin

text \<open>
  The text screen: \<open>clear\<close>, \<open>putc\<close> and \<open>puts\<close> of
  \<^verbatim>\<open>student-distrib/lib.c\<close>, \<open>move_cursor_to\<close>, \<open>clear_screen\<close>'s screen part and
  \<open>scroll_if_needed\<close> of \<^verbatim>\<open>student-distrib/keyboard_driver.c\<close>. The globals \<open>cursor_x\<close>
  and \<open>cursor_y\<close> are the record's fields; the screen is the memory at \<open>0xB8000\<close>, a byte of
  character and a byte of attribute for each of 25 rows of 80 cells.

  The last section is the specification the drivers are proved against: a grid of
  characters with a cursor that wraps at the end of a line and scrolls at the last row.
\<close>

record console = hw +
  cursor_x :: int
  cursor_y :: int

definition VIDEO :: u32 where "VIDEO = 0xB8000"
definition ATTRIB :: u8 where "ATTRIB = 0x2"
definition CONTROL :: u16 where "CONTROL = 0x3D4"
definition DATA :: u16 where "DATA = 0x3D5"

abbreviation NUM_COLS :: int where "NUM_COLS \<equiv> 80"
abbreviation NUM_ROWS :: int where "NUM_ROWS \<equiv> 25"

lemma console_frame [simp]:
  "cursor_x (outb d p s) = cursor_x s" "cursor_y (outb d p s) = cursor_y s"
  "cursor_x (poke a v s) = cursor_x s" "cursor_y (poke a v s) = cursor_y s"
  "cursor_x (cli s) = cursor_x s" "cursor_y (cli s) = cursor_y s"
  "cursor_x (sti s) = cursor_x s" "cursor_y (sti s) = cursor_y s"
  by (simp_all add: outb_def poke_def cli_def sti_def)

text \<open>The address of the cell in row \<open>y\<close> and column \<open>x\<close>:
  \<open>VIDEO + ((NUM_COLS * y + x) << 1)\<close>.\<close>

definition cell_addr :: "int \<Rightarrow> int \<Rightarrow> u32" where
  "cell_addr y x = VIDEO + word_of_int ((NUM_COLS * y + x) * 2)"

text \<open>The two stores every routine does: the character, then the attribute.\<close>

definition put_cell :: "int \<Rightarrow> int \<Rightarrow> u8 \<Rightarrow> 'a hw_scheme \<Rightarrow> 'a hw_scheme" where
  "put_cell y x c s = poke (cell_addr y x + 1) ATTRIB (poke (cell_addr y x) c s)"

text \<open>The \<open>i\<close>-th cell of the screen: \<open>video_mem + (i << 1)\<close>.\<close>

definition scr_at :: "nat \<Rightarrow> u32" where
  "scr_at i = VIDEO + of_nat (2 * i)"

definition clear :: "'a hw_scheme \<Rightarrow> 'a hw_scheme" where
  "clear s = for_loop 0 2000 (\<lambda>i s.
     poke (scr_at i + 1) ATTRIB (poke (scr_at i) 0x20 s)) s"

definition move_cursor_to :: "int \<Rightarrow> int \<Rightarrow> 'a hw_scheme \<Rightarrow> 'a hw_scheme" where
  "move_cursor_to curs_x curs_y s =
     outb (word_of_int (curs_y * NUM_COLS + curs_x)) DATA
       (outb 0xF CONTROL
         (outb (word_of_int ((curs_y * NUM_COLS + curs_x) div 256)) DATA
           (outb 0xE CONTROL s)))"

text \<open>Lines 104 to 111 of \<^verbatim>\<open>keyboard_driver.c\<close> shift the rows up, 114 to 117 blank the last.\<close>

definition scroll_rows :: "'a hw_scheme \<Rightarrow> 'a hw_scheme" where
  "scroll_rows s = for_loop 1 25 (\<lambda>y_val. for_loop 0 80 (\<lambda>x_val s.
     put_cell (int y_val - 1) (int x_val) (mem s (cell_addr (int y_val) (int x_val))) s)) s"

definition blank_last_row :: "'a hw_scheme \<Rightarrow> 'a hw_scheme" where
  "blank_last_row s = for_loop 0 80 (\<lambda>x_val. put_cell (NUM_ROWS - 1) (int x_val) 0x20) s"

definition scroll_if_needed :: "'a console_scheme \<Rightarrow> 'a console_scheme" where
  "scroll_if_needed s =
     (if cursor_y s \<ge> 25 then
        let s1 = blank_last_row (scroll_rows s);
            s2 = s1\<lparr>cursor_x := 0, cursor_y := cursor_y s1 - 1\<rparr>
        in move_cursor_to (cursor_x s2) (cursor_y s2) s2
      else s)"

definition putc :: "u8 \<Rightarrow> 'a console_scheme \<Rightarrow> 'a console_scheme" where
  "putc c s =
     (if c = 0x0A then s\<lparr>cursor_x := 0, cursor_y := cursor_y s + 1\<rparr>
      else let s1 = put_cell (cursor_y s) (cursor_x s) c s;
               s2 = (if cursor_x s1 = 79 then s1\<lparr>cursor_x := 0, cursor_y := cursor_y s1 + 1\<rparr>
                     else s1\<lparr>cursor_x := cursor_x s1 + 1\<rparr>)
           in scroll_if_needed s2)"

partial_function (option) puts_from :: "cptr \<Rightarrow> nat \<Rightarrow> 'a console_scheme \<Rightarrow> (nat \<times> 'a console_scheme) option" where
  "puts_from str index s = Option.bind (str index) (\<lambda>c.
     if c \<noteq> 0 then puts_from str (Suc index) (putc c s) else Some (index, s))"

definition puts :: "cptr \<Rightarrow> 'a console_scheme \<Rightarrow> (nat \<times> 'a console_scheme) option" where
  "puts str s = puts_from str 0 s"

section \<open>What the loops do to the screen\<close>

lemma cell_addr_nat: "cell_addr (int r) (int c) = scr_at (80 * r + c)"
  by (simp add: cell_addr_def scr_at_def algebra_simps)

text \<open>Bytes \<open>2k\<close> and \<open>2k + 1\<close> of the screen.\<close>

lemma screen_addr:
  assumes "k < 100000"
  shows "x = scr_at k \<longleftrightarrow> unat (x - VIDEO) = 2 * k"
    and "x = scr_at k + 1 \<longleftrightarrow> unat (x - VIDEO) = Suc (2 * k)"
proof -
  show "x = scr_at k \<longleftrightarrow> unat (x - VIDEO) = 2 * k"
    unfolding scr_at_def using assms by (intro addr_eq_iff) simp
  have e: "scr_at k + 1 = VIDEO + of_nat (Suc (2 * k))" by (simp add: scr_at_def)
  show "x = scr_at k + 1 \<longleftrightarrow> unat (x - VIDEO) = Suc (2 * k)"
    unfolding e using assms by (intro addr_eq_iff) simp
qed

lemma unat_scr_at [simp]:
  "k < 100000 \<Longrightarrow> unat (scr_at k - VIDEO) = 2 * k"
  "k < 100000 \<Longrightarrow> unat (scr_at k + 1 - VIDEO) = Suc (2 * k)"
  by (metis screen_addr(1)) (metis screen_addr(2))

text \<open>The memory after the first \<open>n\<close> cells have been filled by \<open>f\<close>.\<close>

definition filled :: "(nat \<Rightarrow> u8) \<Rightarrow> nat \<Rightarrow> mem \<Rightarrow> mem" where
  "filled f n m = (\<lambda>x. let b = unat (x - VIDEO) in
     if b < 2 * n then (if even b then f (b div 2) else ATTRIB) else m x)"

lemma filled_0 [simp]: "filled f 0 m = m"
  by (simp add: filled_def)

lemma filled_Suc:
  assumes "n < 100000"
  shows "(filled f n m)(scr_at n := f n, scr_at n + 1 := ATTRIB) = filled f (Suc n) m"
proof
  fix x
  have "b < 2 * Suc n \<longleftrightarrow> b < 2 * n \<or> b = 2 * n \<or> b = Suc (2 * n)" for b by auto
  then show "((filled f n m)(scr_at n := f n, scr_at n + 1 := ATTRIB)) x =
      filled f (Suc n) m x"
    by (simp only: fun_upd_def screen_addr [OF assms]) (auto simp: filled_def Let_def)
qed

lemma filled_at:
  assumes "k < 100000"
  shows "filled f n m (scr_at k) = (if k < n then f k else m (scr_at k))"
    and "filled f n m (scr_at k + 1) = (if k < n then ATTRIB else m (scr_at k + 1))"
  using assms by (auto simp: filled_def Let_def)

lemma clear_mem: "clear s = s\<lparr>mem := filled (\<lambda>_. 0x20) 2000 (mem s)\<rparr>"
proof -
  let ?P = "\<lambda>i t. t = s\<lparr>mem := filled (\<lambda>_. 0x20) i (mem s)\<rparr>"
  have "?P 2000 (clear s)"
    unfolding clear_def
    by (rule for_loop_inv [where P = ?P]) (simp_all add: poke_def filled_Suc [where f = "\<lambda>_. 0x20"])
  then show ?thesis .
qed

text \<open>One pass over a row of the shifted screen, and all the rows.\<close>

definition shifted :: "nat \<Rightarrow> mem \<Rightarrow> mem" where
  "shifted n m = filled (\<lambda>k. m (scr_at (k + 80))) n m"

lemma scroll_cell:
  assumes "k < 1920" and "k = 80 * (y - 1) + x" and "1 \<le> y"
  shows "put_cell (int y - 1) (int x) (shifted k m (scr_at (k + 80))) (s\<lparr>mem := shifted k m\<rparr>) =
    s\<lparr>mem := shifted (Suc k) m\<rparr>"
proof -
  have "cell_addr (int y - 1) (int x) = scr_at k"
    using assms cell_addr_nat [of "y - 1" x] by (simp add: of_nat_diff)
  then show ?thesis
    using assms filled_Suc [of k "\<lambda>k. m (scr_at (k + 80))" m]
    by (simp add: put_cell_def poke_def shifted_def filled_at fun_upd_def)
qed

lemma scroll_rows_mem: "scroll_rows s = s\<lparr>mem := shifted 1920 (mem s)\<rparr>"
proof -
  let ?Q = "\<lambda>y t. t = s\<lparr>mem := shifted (80 * (y - 1)) (mem s)\<rparr>"
  have row: "?Q (Suc y) (for_loop 0 80 (\<lambda>x_val s.
     put_cell (int y - 1) (int x_val) (mem s (cell_addr (int y) (int x_val))) s) t)"
    if y: "1 \<le> y" "y < 25" and t: "?Q y t" for y t
  proof -
    let ?R = "\<lambda>x t. t = s\<lparr>mem := shifted (80 * (y - 1) + x) (mem s)\<rparr>"
    have "?R 80 (for_loop 0 80 (\<lambda>x_val s.
     put_cell (int y - 1) (int x_val) (mem s (cell_addr (int y) (int x_val))) s) t)"
    proof (rule for_loop_inv [where P = ?R])
      fix x t assume x: "x < (80::nat)" and t: "?R x t"
      let ?k = "80 * (y - 1) + x"
      have "cell_addr (int y) (int x) = scr_at (?k + 80)" "?k < 1920"
        using y x cell_addr_nat [of y x] by (auto simp: algebra_simps)
      then show "?R (Suc x) (put_cell (int y - 1) (int x) (mem t (cell_addr (int y) (int x))) t)"
        using t scroll_cell [of ?k y x "mem s" s] y by simp
    qed (use t in simp_all)
    then show ?thesis using y by (cases y) (simp_all add: algebra_simps)
  qed
  have "?Q 25 (scroll_rows s)"
    unfolding scroll_rows_def
    by (rule for_loop_inv [where P = ?Q]) (simp_all add: row, simp add: shifted_def)
  then show ?thesis by simp
qed

text \<open>The screen one row up, with a blank last row.\<close>

definition scrolled :: "mem \<Rightarrow> mem" where
  "scrolled m = filled (\<lambda>k. if k < 1920 then m (scr_at (k + 80)) else 0x20) 2000 m"

lemma filled_cong: "(\<And>k. k < n \<Longrightarrow> f k = g k) \<Longrightarrow> filled f n m = filled g n m"
  by (auto simp: filled_def Let_def fun_eq_iff)

lemma blank_last_row_mem: "blank_last_row (s\<lparr>mem := shifted 1920 m\<rparr>) = s\<lparr>mem := scrolled m\<rparr>"
proof -
  let ?g = "\<lambda>k. if k < 1920 then m (scr_at (k + 80)) else 0x20"
  let ?P = "\<lambda>i t. t = s\<lparr>mem := filled ?g (1920 + i) m\<rparr>"
  have 0: "shifted 1920 m = filled ?g 1920 m"
    unfolding shifted_def by (rule filled_cong) simp
  have "?P 80 (blank_last_row (s\<lparr>mem := shifted 1920 m\<rparr>))"
    unfolding blank_last_row_def
  proof (rule for_loop_inv [where P = ?P])
    fix i t assume i: "i < (80::nat)" and t: "?P i t"
    have "cell_addr (NUM_ROWS - 1) (int i) = scr_at (1920 + i)"
      using cell_addr_nat [of 24 i] by simp
    then show "?P (Suc i) (put_cell (NUM_ROWS - 1) (int i) 0x20 t)"
      using t i filled_Suc [of "1920 + i" ?g m] by (simp add: put_cell_def poke_def)
  qed (simp_all add: 0)
  then show ?thesis by (simp add: scrolled_def)
qed

lemma scroll_if_needed_eq:
  "scroll_if_needed s = (if cursor_y s \<ge> 25
     then move_cursor_to 0 (cursor_y s - 1) (s\<lparr>mem := scrolled (mem s), cursor_x := 0, cursor_y := cursor_y s - 1\<rparr>)
     else s)"
  by (simp add: scroll_if_needed_def scroll_rows_mem blank_last_row_mem Let_def)

lemma move_cursor_frame [simp]:
  "mem (move_cursor_to x y s) = mem s" "cursor_x (move_cursor_to x y s) = cursor_x s"
  "cursor_y (move_cursor_to x y s) = cursor_y s" "intr (move_cursor_to x y s) = intr s"
  "console.more (move_cursor_to x y s) = console.more s"
  by (simp_all add: move_cursor_to_def) (simp add: outb_def)

lemma scroll_if_needed_cursor:
  "cursor_x (scroll_if_needed s) = (if cursor_y s \<ge> 25 then 0 else cursor_x s)"
  "cursor_y (scroll_if_needed s) = (if cursor_y s \<ge> 25 then cursor_y s - 1 else cursor_y s)"
  "mem (scroll_if_needed s) = (if cursor_y s \<ge> 25 then scrolled (mem s) else mem s)"
  "console.more (scroll_if_needed s) = console.more s"
  by (simp_all add: scroll_if_needed_eq)

section \<open>The screen as a grid with a cursor\<close>

record tty =
  grid :: "nat \<Rightarrow> nat \<Rightarrow> u8"
  row :: nat
  col :: nat

text \<open>The cursor on the visible screen.\<close>

definition on_screen :: "'a console_scheme \<Rightarrow> bool" where
  "on_screen s \<longleftrightarrow> 0 \<le> cursor_x s \<and> cursor_x s < 80 \<and> 0 \<le> cursor_y s \<and> cursor_y s < 25"

definition screen :: "mem \<Rightarrow> nat \<Rightarrow> nat \<Rightarrow> u8" where
  "screen m = (\<lambda>r c. if r < 25 \<and> c < 80 then m (scr_at (80 * r + c)) else 0)"

definition tty_of :: "'a console_scheme \<Rightarrow> tty" where
  "tty_of s = \<lparr>grid = screen (mem s),
     row = nat (cursor_y s), col = nat (cursor_x s)\<rparr>"

text \<open>Going to the next row, which scrolls at the bottom.\<close>

definition tty_newline :: "tty \<Rightarrow> tty" where
  "tty_newline t =
     (if row t = 24
      then t\<lparr>grid := (\<lambda>r c. if r < 24 then grid t (Suc r) c else if r = 24 \<and> c < 80 then 0x20 else 0), col := 0\<rparr>
      else t\<lparr>row := Suc (row t), col := 0\<rparr>)"

definition tty_putc :: "u8 \<Rightarrow> tty \<Rightarrow> tty" where
  "tty_putc c t =
     (if c = 0x0A then tty_newline t
      else let t' = t\<lparr>grid := (\<lambda>r' c'. if r' = row t \<and> c' = col t then c else grid t r' c')\<rparr>
           in if col t = 79 then tty_newline t' else t'\<lparr>col := Suc (col t)\<rparr>)"

text \<open>\<open>putc\<close> itself wraps and scrolls after a printed character, but not after a newline:
  the caller has to scroll. With that done after each character, \<open>putc\<close> implements the grid.\<close>

lemma scroll_tty:
  assumes "cursor_y s = 25" and "0 \<le> cursor_x s"
  shows "tty_of (scroll_if_needed s) =
    tty_newline (tty_of (s\<lparr>cursor_y := 24\<rparr>)) \<and> on_screen (scroll_if_needed s)"
  using assms
  by (auto simp: tty_of_def on_screen_def tty_newline_def scroll_if_needed_cursor scrolled_def filled_at
      screen_def fun_eq_iff add_ac)

lemma scr_at_inject:
  assumes "r' < 25" "c' < 80" "r < 25" "c < 80"
  shows "scr_at (80 * r' + c') = scr_at (80 * r + c) \<longleftrightarrow> r' = r \<and> c' = c"
proof
  assume "scr_at (80 * r' + c') = scr_at (80 * r + c)"
  then have "unat (scr_at (80 * r' + c') - VIDEO) = unat (scr_at (80 * r + c) - VIDEO)" by simp
  then have e: "80 * r' + c' = 80 * r + c" using assms by simp
  have "(80 * r' + c') div 80 = r'" "(80 * r + c) div 80 = r" using assms by simp_all
  with e show "r' = r \<and> c' = c" by simp
qed simp

lemma scr_at_parity: "i < 100000 \<Longrightarrow> j < 100000 \<Longrightarrow> scr_at i \<noteq> scr_at j + 1"
  by (metis unat_scr_at double_not_eq_Suc_double)

lemma put_cell_tty:
  assumes "on_screen s"
  shows "tty_of (put_cell (cursor_y s) (cursor_x s) c s) =
    (tty_of s)\<lparr>grid := (\<lambda>r' c'. if r' = row (tty_of s) \<and> c' = col (tty_of s) then c else grid (tty_of s) r' c')\<rparr>"
proof -
  define r where "r = nat (cursor_y s)"
  define k where "k = nat (cursor_x s)"
  have rk: "r < 25" "k < 80" "cursor_y s = int r" "cursor_x s = int k"
    using assms by (auto simp: r_def k_def on_screen_def)
  have same: "scr_at (80 * r' + c') = scr_at (80 * r + k) \<longleftrightarrow> r' = r \<and> c' = k"
    if "r' < 25" "c' < 80" for r' c'
    using scr_at_inject [of r' c' r k] that rk by simp
  have other: "scr_at (80 * r' + c') \<noteq> scr_at (80 * r + k) + 1" if "r' < 25" "c' < 80" for r' c'
    using scr_at_parity that rk by simp
  show ?thesis
    using rk by (auto simp: tty_of_def screen_def put_cell_def cell_addr_nat same other fun_eq_iff)
qed

text \<open>One character, and the scroll its callers do after it.\<close>

definition emit :: "u8 \<Rightarrow> 'a console_scheme \<Rightarrow> 'a console_scheme" where
  "emit c s = scroll_if_needed (putc c s)"

lemma put_cell_cursor [simp]:
  "cursor_x (put_cell y x c s) = cursor_x s" "cursor_y (put_cell y x c s) = cursor_y s"
  "console.more (put_cell y x c s) = console.more s"
  by (simp_all add: put_cell_def poke_def)

lemma tty_of_cursor:
  "tty_of (s\<lparr>cursor_x := x\<rparr>) = (tty_of s)\<lparr>col := nat x\<rparr>"
  "tty_of (s\<lparr>cursor_y := y\<rparr>) = (tty_of s)\<lparr>row := nat y\<rparr>"
  by (simp_all add: tty_of_def)

lemma newline_tty:
  assumes "on_screen s"
  shows "tty_of (scroll_if_needed (s\<lparr>cursor_x := 0, cursor_y := cursor_y s + 1\<rparr>)) = tty_newline (tty_of s)"
    and "on_screen (scroll_if_needed (s\<lparr>cursor_x := 0, cursor_y := cursor_y s + 1\<rparr>))"
proof -
  let ?s = "s\<lparr>cursor_x := 0, cursor_y := cursor_y s + 1\<rparr>"
  have "tty_of (scroll_if_needed ?s) = tty_newline (tty_of s) \<and> on_screen (scroll_if_needed ?s)"
  proof (cases "cursor_y s = 24")
    case True
    then show ?thesis using scroll_tty [of ?s] by (simp add: tty_newline_def tty_of_def cong: if_cong)
  next
    case False
    then have "cursor_y s + 1 < 25" "nat (cursor_y s) \<noteq> 24" using assms by (auto simp: on_screen_def)
    then show ?thesis using assms
      by (auto simp: scroll_if_needed_eq tty_newline_def tty_of_def on_screen_def)
  qed
  then show "tty_of (scroll_if_needed ?s) = tty_newline (tty_of s)" "on_screen (scroll_if_needed ?s)"
    by simp_all
qed

lemma scroll_idle: "on_screen s \<Longrightarrow> scroll_if_needed s = s"
  by (simp add: scroll_if_needed_def on_screen_def)

lemma putc_tty:
  assumes "on_screen s" and "c \<noteq> 0x0A"
  shows "tty_of (putc c s) = tty_putc c (tty_of s)" and "on_screen (putc c s)"
proof -
  let ?s = "put_cell (cursor_y s) (cursor_x s) c s"
  have os: "on_screen ?s" using assms by (simp add: on_screen_def)
  have "tty_of (putc c s) = tty_putc c (tty_of s) \<and> on_screen (putc c s)"
  proof (cases "cursor_x s = 79")
    case True
    have "col (tty_of s) = 79" using True by (simp add: tty_of_def)
    then show ?thesis
      using True assms newline_tty [OF os] put_cell_tty [OF assms(1), of c]
      by (simp add: putc_def tty_putc_def Let_def)
  next
    case False
    then have c: "cursor_x s + 1 < 80" "0 \<le> cursor_x s" "col (tty_of s) \<noteq> 79" "cursor_y s < 25"
      using assms(1) by (auto simp: tty_of_def on_screen_def)
    then have "on_screen (?s\<lparr>cursor_x := cursor_x s + 1\<rparr>)" using os by (simp add: on_screen_def)
    moreover have "nat (cursor_x s + 1) = Suc (col (tty_of s))" using c by (simp add: tty_of_def)
    ultimately show ?thesis
      using False assms c put_cell_tty [OF assms(1), of c]
      by (simp add: putc_def tty_putc_def Let_def scroll_idle tty_of_cursor)
  qed
  then show "tty_of (putc c s) = tty_putc c (tty_of s)" "on_screen (putc c s)" by simp_all
qed

lemma emit_tty:
  assumes "on_screen s"
  shows "tty_of (emit c s) = tty_putc c (tty_of s)" and "on_screen (emit c s)"
  using newline_tty [OF assms] putc_tty [OF assms, of c]
  by (cases "c = 0x0A"; simp add: emit_def putc_def tty_putc_def scroll_idle)+

section \<open>Output of many characters\<close>

text \<open>
  Every routine that prints does so one character at a time. What holds of one character,
  seen through a view of the state, holds of a whole buffer.
\<close>

locale char_sink =
  fixes step :: "u8 \<Rightarrow> 's \<Rightarrow> 's"
    and inv :: "'s \<Rightarrow> bool"
    and view :: "'s \<Rightarrow> 'v"
    and spec :: "u8 \<Rightarrow> 'v \<Rightarrow> 'v"
  assumes step_inv: "inv s \<Longrightarrow> inv (step c s)"
    and step_view: "inv s \<Longrightarrow> view (step c s) = spec c (view s)"
begin

lemma run_inv: "inv s \<Longrightarrow> inv (fold step cs s)"
  by (induction cs arbitrary: s) (simp_all add: step_inv)

lemma run_view: "inv s \<Longrightarrow> view (fold step cs s) = fold spec cs (view s)"
  by (induction cs arbitrary: s) (simp_all add: step_inv step_view)

end

interpretation scr: char_sink emit on_screen tty_of tty_putc
  by unfold_locales (simp_all add: emit_tty)

text \<open>\<open>puts\<close> prints the string and gives its length.\<close>

lemma puts_from_c_str:
  assumes "c_str str xs"
  shows "k \<le> length xs \<Longrightarrow> puts_from str k s = Some (length xs, fold putc (drop k xs) s)"
proof (induction "length xs - k" arbitrary: k s)
  case 0
  then have "k = length xs" by simp
  with assms show ?case by (subst puts_from.simps) (simp add: c_str_end)
next
  case (Suc n)
  then have k: "k < length xs" "n = length xs - Suc k" by simp_all
  then have "drop k xs = xs ! k # drop (Suc k) xs" by (simp add: Cons_nth_drop_Suc)
  with k Suc.hyps(1) [OF k(2), of "putc (xs ! k) s"] assms show ?case
    by (subst puts_from.simps) (simp add: c_str_nth c_str_nonzero)
qed

lemma puts_c_str: "c_str str xs \<Longrightarrow> puts str s = Some (length xs, fold putc xs s)"
  by (simp add: puts_def puts_from_c_str)

text \<open>Printing changes the screen, the cursor and the ports, nothing else.\<close>

lemma putc_more [simp]: "console.more (putc c s) = console.more s"
  by (simp add: putc_def Let_def scroll_if_needed_cursor)

lemma fold_putc_more [simp]: "console.more (fold putc xs s) = console.more s"
  by (induction xs arbitrary: s) simp_all

text \<open>Text without newlines stays on the screen; a newline on the last row does not.\<close>

lemma fold_putc_tty:
  "on_screen s \<Longrightarrow> 0x0A \<notin> set xs \<Longrightarrow>
    tty_of (fold putc xs s) = fold tty_putc xs (tty_of s) \<and> on_screen (fold putc xs s)"
  by (induction xs arbitrary: s) (simp_all add: putc_tty)

lemma putc_newline_last_row:
  "cursor_y s = 24 \<Longrightarrow> cursor_y (putc 0x0A s) = 25 \<and> \<not> on_screen (putc 0x0A s)"
  by (simp add: putc_def on_screen_def)

end
