(* ===== verification/Printf.thy ===== *)
theory Printf
  imports Console
begin

text \<open>
  \<open>printf\<close> of \<^verbatim>\<open>student-distrib/lib.c\<close>: the walk over the format, the conversions into
  the local buffers, and the arguments taken one after the other from the stack. The result
  is the number of format bytes passed and the console, or \<open>None\<close> when the code reads past
  the format or its arguments. The local buffers start out as zeros: \<open>itoa\<close> writes every byte
  that \<open>puts\<close> then reads.
\<close>

text \<open>One argument on the stack: a number, or a pointer to a string.\<close>

datatype varg = Word u32 | Str cptr

text \<open>The array from index \<open>k\<close> on: what \<open>&conv_buf[k]\<close> points to.\<close>

definition get_from :: "nat \<Rightarrow> u8 list \<Rightarrow> nat \<Rightarrow> u8 option" where
  "get_from k xs i = aget xs (k + i)"

definition put_from :: "nat \<Rightarrow> nat \<Rightarrow> u8 \<Rightarrow> u8 list \<Rightarrow> u8 list option" where
  "put_from k i v xs = aput (k + i) v xs"

definition conv_hex :: "u32 \<Rightarrow> 'a console_scheme \<Rightarrow> 'a console_scheme option" where
  "conv_hex w s =
     Option.bind (itoa (get_from 0) (put_from 0) w (replicate 64 0) 16) (\<lambda>conv_buf.
       map_option snd (puts (get_from 0 conv_buf) s))"

function pad_zeros :: "nat \<Rightarrow> u8 list \<Rightarrow> u8 list option" where
  "pad_zeros i conv_buf =
     (if i < 8 then Option.bind (aput i 0x30 conv_buf) (pad_zeros (Suc i)) else Some conv_buf)"
  by pat_completeness auto
termination
  by (relation "measure (\<lambda>(i, b). 8 - i)") auto

declare pad_zeros.simps [simp del]

definition conv_hex8 :: "u32 \<Rightarrow> 'a console_scheme \<Rightarrow> 'a console_scheme option" where
  "conv_hex8 w s =
     Option.bind (itoa (get_from 8) (put_from 8) w (replicate 64 0) 16) (\<lambda>conv_buf.
     Option.bind (strlen (get_from 8 conv_buf)) (\<lambda>starting_index.
     Option.bind (pad_zeros starting_index conv_buf) (\<lambda>conv_buf'.
       map_option snd (puts (get_from starting_index conv_buf') s))))"

definition conv_unsigned :: "u32 \<Rightarrow> 'a console_scheme \<Rightarrow> 'a console_scheme option" where
  "conv_unsigned w s =
     Option.bind (itoa (get_from 0) (put_from 0) w (replicate 36 0) 10) (\<lambda>conv_buf.
       map_option snd (puts (get_from 0 conv_buf) s))"

definition conv_signed :: "u32 \<Rightarrow> 'a console_scheme \<Rightarrow> 'a console_scheme option" where
  "conv_signed w s =
     (if sint w < 0 then
        Option.bind (put_from 0 0 0x2D (replicate 36 0)) (\<lambda>b.
        Option.bind (itoa (get_from 1) (put_from 1) (- w) b 10) (\<lambda>conv_buf.
          map_option snd (puts (get_from 0 conv_buf) s)))
      else conv_unsigned w s)"

text \<open>
  \<open>printf_from\<close> is the outer loop, \<open>printf_conv\<close> the inner switch at \<open>format_char_switch\<close>.
  At the end of the format the inner switch falls to its default and the loop steps over the
  terminator.
\<close>

fun printf_from :: "u8 list \<Rightarrow> varg list \<Rightarrow> nat \<Rightarrow> 'a console_scheme \<Rightarrow> (nat \<times> 'a console_scheme) option"
  and printf_conv :: "bool \<Rightarrow> u8 list \<Rightarrow> varg list \<Rightarrow> nat \<Rightarrow> 'a console_scheme \<Rightarrow> (nat \<times> 'a console_scheme) option"
where
  "printf_from [] esp n s = Some (n, s)"
| "printf_from (c # buf) esp n s =
     (if c = 0x25 then printf_conv False buf esp (Suc n) s
      else printf_from buf esp (Suc n) (putc c s))"
| "printf_conv alternate [] esp n s = None"
| "printf_conv alternate (c # buf) esp n s =
     (if c = 0x25 then printf_from buf esp (Suc n) (putc 0x25 s)
      else if c = 0x23 then printf_conv True buf esp (Suc n) s
      else if c = 0x78 then
        (case esp of Word w # esp' \<Rightarrow>
             (case (if alternate then conv_hex8 w s else conv_hex w s) of
                Some s' \<Rightarrow> printf_from buf esp' (Suc n) s' | None \<Rightarrow> None)
         | _ \<Rightarrow> None)
      else if c = 0x75 then
        (case esp of Word w # esp' \<Rightarrow>
             (case conv_unsigned w s of Some s' \<Rightarrow> printf_from buf esp' (Suc n) s' | None \<Rightarrow> None)
         | _ \<Rightarrow> None)
      else if c = 0x64 then
        (case esp of Word w # esp' \<Rightarrow>
             (case conv_signed w s of Some s' \<Rightarrow> printf_from buf esp' (Suc n) s' | None \<Rightarrow> None)
         | _ \<Rightarrow> None)
      else if c = 0x63 then
        (case esp of Word w # esp' \<Rightarrow> printf_from buf esp' (Suc n) (putc (ucast w) s) | _ \<Rightarrow> None)
      else if c = 0x73 then
        (case esp of Str p # esp' \<Rightarrow>
             (case puts p s of Some (_, s') \<Rightarrow> printf_from buf esp' (Suc n) s' | None \<Rightarrow> None)
         | _ \<Rightarrow> None)
      else printf_from buf esp (Suc n) s)"

definition printf :: "u8 list \<Rightarrow> varg list \<Rightarrow> 'a console_scheme \<Rightarrow> (nat \<times> 'a console_scheme) option" where
  "printf format args s = printf_from format args 0 s"

section \<open>What printf prints\<close>

text \<open>The text of a format and its arguments.\<close>

datatype parg = Num u32 | Txt "u8 list"

fun varg_of :: "parg \<Rightarrow> varg" where
  "varg_of (Num w) = Word w"
| "varg_of (Txt xs) = Str (aget (xs @ [0]))"

fun parg_ok :: "parg \<Rightarrow> bool" where
  "parg_ok (Num w) \<longleftrightarrow> True"
| "parg_ok (Txt xs) \<longleftrightarrow> 0 \<notin> set xs"

definition hex_text :: "u32 \<Rightarrow> u8 list" where
  "hex_text w = num_str 16 (unat w)"

definition hex8_text :: "u32 \<Rightarrow> u8 list" where
  "hex8_text w = replicate (8 - length (hex_text w)) 0x30 @ hex_text w"

definition signed_text :: "u32 \<Rightarrow> u8 list" where
  "signed_text w = (if sint w < 0 then 0x2D # num_str 10 (nat (- sint w)) else num_str 10 (nat (sint w)))"

fun render :: "u8 list \<Rightarrow> parg list \<Rightarrow> u8 list option"
  and render_conv :: "bool \<Rightarrow> u8 list \<Rightarrow> parg list \<Rightarrow> u8 list option"
where
  "render [] as = Some []"
| "render (c # f) as = (if c = 0x25 then render_conv False f as else map_option ((#) c) (render f as))"
| "render_conv alt [] as = None"
| "render_conv alt (c # f) as =
     (if c = 0x25 then map_option ((#) 0x25) (render f as)
      else if c = 0x23 then render_conv True f as
      else if c = 0x78 then
        (case as of Num w # as' \<Rightarrow> map_option ((@) (if alt then hex8_text w else hex_text w)) (render f as')
         | _ \<Rightarrow> None)
      else if c = 0x75 then
        (case as of Num w # as' \<Rightarrow> map_option ((@) (num_str 10 (unat w))) (render f as') | _ \<Rightarrow> None)
      else if c = 0x64 then
        (case as of Num w # as' \<Rightarrow> map_option ((@) (signed_text w)) (render f as') | _ \<Rightarrow> None)
      else if c = 0x63 then
        (case as of Num w # as' \<Rightarrow> map_option ((#) (ucast w)) (render f as') | _ \<Rightarrow> None)
      else if c = 0x73 then
        (case as of Txt xs # as' \<Rightarrow> map_option ((@) xs) (render f as') | _ \<Rightarrow> None)
      else render f as)"

text \<open>The arrays the conversions write to are destinations of bytes.\<close>

interpretation arr0: byte_dest "get_from 0" "put_from 0" length
  by unfold_locales (auto simp: get_from_def put_from_def c_array)

text \<open>\<open>strncpy\<close> on an array as a list operation.\<close>

lemma strncpy_list:
  assumes "c_str src xs" and "n \<le> length d"
  shows "strncpy (put_from 0) d src n = Some (take n (xs @ replicate n 0) @ drop n d)"
proof -
  obtain d' where d': "strncpy (put_from 0) d src n = Some d'" "length d' = length d"
    "\<forall>j < length d. get_from 0 d' j = (if j < n then Some (if j < length xs then xs ! j else 0) else get_from 0 d j)"
    using arr0.strncpy_c_str [OF assms] by blast
  define e where "e = take n (xs @ replicate n 0)"
  have e: "length e = n" "\<And>i. i < n \<Longrightarrow> e ! i = (if i < length xs then xs ! i else 0)"
    by (simp_all add: e_def nth_append)
  have "d' ! i = (e @ drop n d) ! i" if "i < length d'" for i
    using d'(3) [rule_format, of i] that d'(2) assms(2) e
    by (cases "i < n") (simp_all add: get_from_def c_array nth_append)
  then have "d' = e @ drop n d"
    using d'(2) assms(2) e(1) by (intro nth_equalityI) simp_all
  with d'(1) show ?thesis by (simp add: e_def)
qed

interpretation arr8: byte_dest "get_from 8" "put_from 8" "\<lambda>xs. length xs - 8"
  by unfold_locales (auto simp: get_from_def put_from_def c_array)

text \<open>The bytes after a sign: writing them keeps the sign.\<close>

interpretation sgn: byte_dest "get_from 1" "put_from 1"
    "\<lambda>xs. if 0 < length xs \<and> xs ! 0 = 0x2D then length xs - 1 else 0"
  by unfold_locales (auto simp: get_from_def put_from_def c_array split: if_splits)

lemma length_hex_text: "length (hex_text w) \<le> 8"
  using length_num_str [of 16 "unat w" 8] unat_u32_less [of w] by (simp add: hex_text_def)

lemma length_dec_text: "n < 4294967296 \<Longrightarrow> length (num_str 10 n) \<le> 10"
  using length_num_str [of 10 n 10] by simp

lemma conv_hex_prints: "conv_hex w s = Some (fold putc (hex_text w) s)"
proof -
  have "length (num_str (unat (16::u32)) (unat w)) < length (replicate 64 (0::u8))"
    using length_hex_text [of w] by (simp add: hex_text_def)
  from arr0.itoa_c_str [OF _ _ this] obtain b where
    "itoa (get_from 0) (put_from 0) w (replicate 64 0) 16 = Some b" "c_str (get_from 0 b) (hex_text w)"
    by (auto simp: hex_text_def)
  then show ?thesis by (simp add: conv_hex_def puts_c_str)
qed

lemma conv_unsigned_prints: "conv_unsigned w s = Some (fold putc (num_str 10 (unat w)) s)"
proof -
  have "length (num_str (unat (10::u32)) (unat w)) < length (replicate 36 (0::u8))"
    using length_dec_text [OF unat_u32_less, of w] by simp
  from arr0.itoa_c_str [OF _ _ this] obtain b where
    "itoa (get_from 0) (put_from 0) w (replicate 36 0) 10 = Some b" "c_str (get_from 0 b) (num_str 10 (unat w))"
    by auto
  then show ?thesis by (simp add: conv_unsigned_def puts_c_str)
qed

lemma unat_minus_negative: "sint (w :: u32) < 0 \<Longrightarrow> unat (- w) = nat (- sint w)"
proof -
  assume neg: "sint w < 0"
  then have "w \<noteq> 0" by auto
  moreover have "- sint w = int (4294967296 - unat w)"
    using neg sint_u32 [of w] unat_u32_less [of w] by (simp only: of_nat_diff split: if_splits) linarith+
  ultimately show ?thesis by (metis unat_uminus_u32 nat_int)
qed

lemma conv_signed_prints: "conv_signed w s = Some (fold putc (signed_text w) s)"
proof (cases "sint w < 0")
  case False
  then have "unat w = nat (sint w)"
    using unat_u32_less [of w] by (auto simp: sint_u32 split: if_splits)
  with False show ?thesis by (simp add: conv_signed_def signed_text_def conv_unsigned_prints)
next
  case True
  define d where "d = (replicate 36 0)[0 := 0x2D :: u8]"
  have put: "put_from 0 0 0x2D (replicate 36 0) = Some d" by (simp add: put_from_def c_array d_def)
  have "length (num_str (unat (10::u32)) (unat (- w))) <
      (if 0 < length d \<and> d ! 0 = 0x2D then length d - 1 else 0)"
    using length_dec_text [OF unat_u32_less, of "- w"] by (simp add: d_def)
  from sgn.itoa_c_str [OF _ _ this] obtain b where b:
    "itoa (get_from 1) (put_from 1) (- w) d 10 = Some b" "c_str (get_from 1 b) (num_str 10 (unat (- w)))"
    "(if 0 < length b \<and> b ! 0 = 0x2D then length b - 1 else 0) = 35"
    by (auto simp: d_def)
  then have "b ! 0 = 0x2D" "0 < length b" by (auto split: if_splits)
  then have "c_str (get_from 0 b) (0x2D # num_str 10 (unat (- w)))"
    using b(2) by (auto simp: c_str_def get_from_def c_array nth_Cons' split: if_splits)
  then show ?thesis
    using True b(1) put by (simp add: conv_signed_def signed_text_def puts_c_str unat_minus_negative)
qed

text \<open>The eight-digit form: the digits from the ninth byte on, zeros before them.\<close>

lemma pad_zeros_ok:
  "8 \<le> length b \<Longrightarrow> i \<le> 8 \<Longrightarrow>
    \<exists>b'. pad_zeros i b = Some b' \<and> length b' = length b \<and>
      (\<forall>j < length b. b' ! j = (if i \<le> j \<and> j < 8 then 0x30 else b ! j))"
proof (induction "8 - i" arbitrary: i b)
  case 0
  then have "\<not> i < 8" by simp
  then have "pad_zeros i b = Some b" by (subst pad_zeros.simps) simp
  with 0 show ?case by auto
next
  case (Suc n)
  then have i: "i < 8" "Suc i \<le> 8" "n = 8 - Suc i" "i < length b" by simp_all
  let ?b = "b[i := 0x30]"
  have "8 \<le> length ?b" using Suc.prems by simp
  from Suc.hyps(1) [OF i(3) this i(2)] obtain b' where b': "pad_zeros (Suc i) ?b = Some b'"
    "length b' = length b" "\<forall>j < length b. b' ! j = (if Suc i \<le> j \<and> j < 8 then 0x30 else ?b ! j)"
    by auto
  have "pad_zeros i b = Some b'" using i b' by (simp add: pad_zeros.simps [of i b] c_array)
  moreover have "b' ! j = (if i \<le> j \<and> j < 8 then 0x30 else b ! j)" if "j < length b" for j
    using b'(3) that i by (cases "j = i") auto
  ultimately show ?case using b' by blast
qed

lemma conv_hex8_prints: "conv_hex8 w s = Some (fold putc (hex8_text w) s)"
proof -
  let ?n = "length (hex_text w)"
  have n: "?n \<le> 8" by (rule length_hex_text)
  then have "length (num_str (unat (16::u32)) (unat w)) < length (replicate 64 (0::u8)) - 8"
    by (simp add: hex_text_def)
  from arr8.itoa_c_str [OF _ _ this] obtain b where b:
    "itoa (get_from 8) (put_from 8) w (replicate 64 0) 16 = Some b" "c_str (get_from 8 b) (hex_text w)"
    "length b - 8 = 56"
    by (auto simp: hex_text_def)
  then have len: "length b = 64" "8 \<le> length b" by simp_all
  from pad_zeros_ok [OF len(2) n] obtain b' where b': "pad_zeros ?n b = Some b'" "length b' = 64"
    "\<forall>j < 64. b' ! j = (if ?n \<le> j \<and> j < 8 then 0x30 else b ! j)"
    using len(1) by auto
  have digits: "b' ! (8 + i) = hex_text w ! i" if "i < ?n" for i
    using c_str_nth [OF b(2) that] b'(3) that n len by (simp add: get_from_def c_array)
  have "c_str (get_from ?n b') (hex8_text w)"
    unfolding c_str_def
  proof (intro conjI allI impI)
    show "0 \<notin> set (hex8_text w)" using b(2) by (auto simp: hex8_text_def c_str_def)
    have l: "length (hex8_text w) = 8" using n by (simp add: hex8_text_def)
    show "get_from ?n b' (length (hex8_text w)) = Some 0"
      using c_str_end [OF b(2)] b' n len l by (simp add: get_from_def c_array add.commute)
    fix i assume "i < length (hex8_text w)"
    then have i: "i < 8" using l by simp
    show "get_from ?n b' i = Some (hex8_text w ! i)"
    proof (cases "i < 8 - ?n")
      case True
      then have "?n + i < 8" using n by linarith
      then show ?thesis using True b' n i by (simp add: get_from_def c_array hex8_text_def nth_append)
    next
      case False
      define k where "k = i - (8 - ?n)"
      have k: "?n + i = 8 + k" "k < ?n" using False n i by (auto simp: k_def)
      have "get_from ?n b' i = Some (b' ! (8 + k))" using b'(2) k n by (simp add: get_from_def c_array)
      also have "\<dots> = Some (hex8_text w ! i)"
        using False digits [OF k(2)] by (simp add: hex8_text_def nth_append k_def)
      finally show ?thesis .
    qed
  qed
  then show ?thesis using b b' by (simp add: conv_hex8_def strlen_c_str puts_c_str)
qed

lemma puts_txt: "0 \<notin> set xs \<Longrightarrow> puts (aget (xs @ [0])) s = Some (length xs, fold putc xs s)"
  using c_str_aget [of xs "[]"] by (simp add: puts_c_str)

lemmas conv_prints = conv_hex_prints conv_hex8_prints conv_unsigned_prints conv_signed_prints puts_txt

text \<open>Printing a format is printing its text.\<close>

lemma printf_render:
  "list_all parg_ok as \<Longrightarrow>
     printf_from f (map varg_of as) n s = map_option (\<lambda>t. (n + length f, fold putc t s)) (render f as)"
  "list_all parg_ok as \<Longrightarrow>
     printf_conv alt f (map varg_of as) n s = map_option (\<lambda>t. (n + length f, fold putc t s)) (render_conv alt f as)"
proof (induction f as and alt f as arbitrary: n s and n s rule: render_render_conv.induct)
  case (4 alt c f as)
  note IH = 4
  consider "c = 0x25" | "c = 0x23" | "c = 0x78" | "c = 0x75" | "c = 0x64" | "c = 0x63" | "c = 0x73"
    | "c \<notin> {0x25, 0x23, 0x78, 0x75, 0x64, 0x63, 0x73}" by auto
  then show ?case
  proof cases
    case 1
    then show ?thesis using IH(1) IH(9)
      by (simp add: option.map_comp comp_def)
  next
    case 2
    then show ?thesis using IH(2) IH(9)
      by (simp add: option.map_comp comp_def)
  next
    case 3
    then show ?thesis using IH(3) IH(9)
      by (auto split: list.split parg.split simp: conv_prints option.map_comp comp_def)
  next
    case 4
    then show ?thesis using IH(4) IH(9)
      by (auto split: list.split parg.split simp: conv_prints option.map_comp comp_def)
  next
    case 5
    then show ?thesis using IH(5) IH(9)
      by (auto split: list.split parg.split simp: conv_prints option.map_comp comp_def)
  next
    case 6
    then show ?thesis using IH(6) IH(9)
      by (auto split: list.split parg.split simp: conv_prints option.map_comp comp_def)
  next
    case 7
    then show ?thesis using IH(7) IH(9)
      by (auto split: list.split parg.split simp: conv_prints option.map_comp comp_def)
  next
    case 8
    then show ?thesis using IH(8) IH(9)
      by (simp add: option.map_comp comp_def)
  qed
qed (auto simp: option.map_comp comp_def)

text \<open>A format without conversions is its own text.\<close>

lemma printf_from_plain:
  "0x25 \<notin> set f \<Longrightarrow> printf_from f as n s = Some (n + length f, fold putc f s)"
  by (induction f arbitrary: n s) auto

lemma printf_plain: "0x25 \<notin> set f \<Longrightarrow> printf f as s = Some (length f, fold putc f s)"
  by (simp add: printf_def printf_from_plain)

end
