(* ===== verification/Pic.thy ===== *)
theory Pic
  imports Printf
begin

text \<open>
  The interrupt controller driver, \<^verbatim>\<open>student-distrib/i8259.c\<close>: the two mask bytes, the
  initialization sequence, unmasking a line, and the end-of-interrupt command. A set bit of a
  mask disables its line; lines 8 to 15 reach the processor through line 2 of the master.
\<close>

record pic = console +
  master_mask :: u8
  slave_mask :: u8

definition MASTER_8259_PORT :: u16 where "MASTER_8259_PORT = 0x20"
definition SLAVE_8259_PORT :: u16 where "SLAVE_8259_PORT = 0xA0"
definition EOI :: u32 where "EOI = 0x60"
definition SLAVE_IRQ_NUM :: u32 where "SLAVE_IRQ_NUM = 2"

lemmas pic_ports = MASTER_8259_PORT_def SLAVE_8259_PORT_def EOI_def SLAVE_IRQ_NUM_def

definition i8259_init :: "'a pic_scheme \<Rightarrow> 'a pic_scheme option" where
  "i8259_init s =
     (let s1 = outb 0x11 SLAVE_8259_PORT (outb 0x11 MASTER_8259_PORT s);
          s2 = outb 0x28 (SLAVE_8259_PORT + 1) (outb 0x20 (MASTER_8259_PORT + 1) s1);
          s3 = outb 0x02 (SLAVE_8259_PORT + 1) (outb 0x04 (MASTER_8259_PORT + 1) s2);
          s4 = outb 0x01 (SLAVE_8259_PORT + 1) (outb 0x01 (MASTER_8259_PORT + 1) s3);
          s5 = s4\<lparr>master_mask := 0xFF, slave_mask := 0xFF\<rparr>
      in map_option snd (printf (chars ''8259 INITIALIZED'' @ [0x0A]) [] s5))"

function enable_irq :: "u32 \<Rightarrow> 'a pic_scheme \<Rightarrow> 'a pic_scheme" where
  "enable_irq irq_num s =
     (if irq_num > 15 then s
      else let s1 =
          (if irq_num \<le> 7 then
             let temp_master_mask = push_bit (unat irq_num) (1 :: u32)
             in s\<lparr>master_mask := ucast temp_master_mask XOR master_mask s\<rparr>
           else
             let temp_slave_mask = push_bit (unat (irq_num - 8)) (1 :: u32)
             in enable_irq SLAVE_IRQ_NUM (s\<lparr>slave_mask := ucast temp_slave_mask XOR slave_mask s\<rparr>))
        in outb (ucast (slave_mask s1)) (SLAVE_8259_PORT + 1)
             (outb (ucast (master_mask s1)) (MASTER_8259_PORT + 1) s1))"
  by pat_completeness auto
termination
  by (relation "measure (\<lambda>(n, s). if n > 7 then 1 else 0)") (auto simp: SLAVE_IRQ_NUM_def)

declare enable_irq.simps [simp del]

definition disable_irq :: "u32 \<Rightarrow> 'a pic_scheme \<Rightarrow> 'a pic_scheme" where
  "disable_irq irq_num s = s"

definition send_eoi :: "u32 \<Rightarrow> 'a hw_scheme \<Rightarrow> 'a hw_scheme" where
  "send_eoi irq_num s =
     (if irq_num \<ge> 8 then
        outb (EOI OR 0x02) MASTER_8259_PORT (outb (EOI OR (irq_num - 8)) SLAVE_8259_PORT s)
      else outb (EOI OR irq_num) MASTER_8259_PORT s)"

section \<open>What the masks let through\<close>

text \<open>Line \<open>n\<close> reaches the processor.\<close>

definition delivered :: "nat \<Rightarrow> 'a pic_scheme \<Rightarrow> bool" where
  "delivered n s \<longleftrightarrow>
     (if n < 8 then \<not> bit (master_mask s) n
      else n < 16 \<and> \<not> bit (slave_mask s) (n - 8) \<and> \<not> bit (master_mask s) 2)"

lemma pic_frame [simp]:
  "master_mask (outb d p s) = master_mask s" "slave_mask (outb d p s) = slave_mask s"
  by (simp_all add: outb_def)

lemma enable_irq_master:
  assumes "n < 8"
  shows "master_mask (enable_irq (of_nat n) s) = push_bit n 1 XOR master_mask s"
    and "slave_mask (enable_irq (of_nat n) s) = slave_mask s"
proof -
  have u: "unat (of_nat n :: u32) = n" using assms by simp
  have "(ucast (push_bit n (1 :: u32)) :: u8) = push_bit n 1"
    using assms by (intro bit_word_eqI) (auto simp: bit_simps)
  moreover have "\<not> (of_nat n :: u32) > 15" "(of_nat n :: u32) \<le> 7"
    using assms u by (simp_all add: word_le_nat_alt word_less_nat_alt)
  ultimately show "master_mask (enable_irq (of_nat n) s) = push_bit n 1 XOR master_mask s"
    and "slave_mask (enable_irq (of_nat n) s) = slave_mask s"
    using u by (simp_all add: enable_irq.simps [of "of_nat n"] Let_def)
qed

lemma enable_irq_slave:
  assumes "8 \<le> n" "n < 16"
  shows "slave_mask (enable_irq (of_nat n) s) = push_bit (n - 8) 1 XOR slave_mask s"
    and "master_mask (enable_irq (of_nat n) s) = push_bit 2 1 XOR master_mask s"
proof -
  have u: "unat (of_nat n :: u32) = n" using assms by simp
  have m: "(ucast (push_bit (n - 8) (1 :: u32)) :: u8) = push_bit (n - 8) 1"
    using assms by (intro bit_word_eqI) (auto simp: bit_simps)
  have n: "\<not> (of_nat n :: u32) > 15" "\<not> (of_nat n :: u32) \<le> 7"
    using assms u by (simp_all add: word_le_nat_alt word_less_nat_alt)
  have d: "unat ((of_nat n :: u32) - 8) = n - 8"
    using assms u by (subst unat_sub) (simp_all add: word_le_nat_alt)
  have e: "enable_irq SLAVE_IRQ_NUM = (enable_irq (of_nat 2) :: 'a pic_scheme \<Rightarrow> 'a pic_scheme)"
    by (simp add: SLAVE_IRQ_NUM_def)
  show "slave_mask (enable_irq (of_nat n) s) = push_bit (n - 8) 1 XOR slave_mask s"
    and "master_mask (enable_irq (of_nat n) s) = push_bit 2 1 XOR master_mask s"
    using n d m by (simp_all only: enable_irq.simps [of "of_nat n"] Let_def e if_False pic_frame
        enable_irq_master [of 2] pic.simps) simp_all
qed

text \<open>Enabling a masked line of the master delivers it and changes no other line of either
  controller.\<close>

lemma enable_masked_master:
  assumes "n < 8" and "bit (master_mask s) n"
  shows "delivered n (enable_irq (of_nat n) s)"
    and "k < 8 \<Longrightarrow> k \<noteq> n \<Longrightarrow> delivered k (enable_irq (of_nat n) s) = delivered k s"
  using assms by (auto simp: delivered_def enable_irq_master bit_simps)

text \<open>Enabling a masked line of the slave delivers it if line 2 of the master was masked.\<close>

lemma enable_masked_slave:
  assumes "8 \<le> n" and "n < 16" and "bit (slave_mask s) (n - 8)" and "bit (master_mask s) 2"
  shows "delivered n (enable_irq (of_nat n) s)"
  using assms by (auto simp: delivered_def enable_irq_slave bit_simps)

text \<open>Enabling is a toggle: doing it twice masks the line again.\<close>

lemma enable_twice_masks:
  assumes "n < 16"
  shows "master_mask (enable_irq (of_nat n) (enable_irq (of_nat n) s)) = master_mask s"
    and "slave_mask (enable_irq (of_nat n) (enable_irq (of_nat n) s)) = slave_mask s"
  using assms by (cases "n < 8"; simp add: enable_irq_master enable_irq_slave flip: xor.assoc)+

text \<open>So a second line of the slave masks line 2 of the master, and with it the whole slave.\<close>

lemma second_slave_line_masks_all:
  assumes "8 \<le> a" "a < 16" "8 \<le> b" "b < 16" and "bit (master_mask s) 2" and "8 \<le> n"
  shows "\<not> delivered n (enable_irq (of_nat b) (enable_irq (of_nat a) s))"
  using assms by (auto simp: delivered_def enable_irq_slave bit_simps)

end
