(* ===== verification/Rtc.thy ===== *)
theory Rtc
  imports Pic
begin

text \<open>
  The real-time clock driver, \<^verbatim>\<open>student-distrib/rtc.c\<close>, and the body of its interrupt
  handler, \<open>rtc_test\<close> of \<^verbatim>\<open>student-distrib/unit_tests.c\<close>. The frequency argument of
  \<open>rtc_write\<close> is the 32-bit value its pointer reads. A blocking read waits for the handlers
  that arrive meanwhile.
\<close>

record rtc = pic +
  rtc_interrupt_happened :: int

definition rtc_reg_num :: u16 where "rtc_reg_num = 0x70"
definition rtc_data :: u16 where "rtc_data = 0x71"
definition status_reg_A :: u32 where "status_reg_A = 0x8A"
definition status_reg_B :: u32 where "status_reg_B = 0x8B"

lemmas rtc_regs = rtc_reg_num_def rtc_data_def status_reg_A_def status_reg_B_def

text \<open>The rate the chain of comparisons picks (lines 63 to 85).\<close>

definition rtc_rate :: "u32 \<Rightarrow> u8" where
  "rtc_rate hz =
     (if hz = 2 then 15 else if hz = 4 then 14 else if hz = 8 then 13 else if hz = 16 then 12
      else if hz = 32 then 11 else if hz = 64 then 10 else if hz = 128 then 9
      else if hz = 256 then 8 else if hz = 512 then 7 else if hz = 1024 then 6 else 15)"

definition rtc_write :: "device \<Rightarrow> u32 \<Rightarrow> u32 \<Rightarrow> u32 \<Rightarrow> 'a hw_scheme \<Rightarrow> u32 \<times> 'a hw_scheme" where
  "rtc_write dev fd hz nbytes s =
     (let s1 = cli s;
          rate = rtc_rate hz AND 0x0F;
          s2 = outb status_reg_A rtc_reg_num s1;
          (v, s3) = inb dev rtc_data s2;
          prev = (ucast v :: u8);
          s4 = outb status_reg_A rtc_reg_num s3;
          s5 = outb ((scast prev AND 0xF0) OR ucast rate) rtc_data s4
      in (0, sti s5))"

definition rtc_open :: "device \<Rightarrow> 'a hw_scheme \<Rightarrow> u32 \<times> 'a hw_scheme" where
  "rtc_open dev s =
     (let s1 = outb status_reg_B rtc_reg_num (cli s);
          (v, s2) = inb dev rtc_data s1;
          cur_val = (ucast v :: u8);
          s3 = outb status_reg_B rtc_reg_num s2;
          s4 = outb (ucast cur_val OR 0x40) rtc_data s3;
          (_, s5) = rtc_write dev 2 2 0 s4
      in (0, sti s5))"

definition rtc_begin :: "'a rtc_scheme \<Rightarrow> 'a rtc_scheme" where
  "rtc_begin s = (sti s)\<lparr>rtc_interrupt_happened := 0\<rparr>"

definition rtc_read :: "('a rtc_scheme \<Rightarrow> 'a rtc_scheme) list \<Rightarrow> u32 \<Rightarrow> u32 \<Rightarrow> u32 \<Rightarrow> 'a rtc_scheme
    \<Rightarrow> (u32 \<times> 'a rtc_scheme \<times> ('a rtc_scheme \<Rightarrow> 'a rtc_scheme) list) option" where
  "rtc_read hs fd buf nbytes s =
     map_option (\<lambda>(s2, hs'). (0, s2, hs')) (spin (\<lambda>s. rtc_interrupt_happened s \<noteq> 0) hs (rtc_begin s))"

lemmas rtc_read_unfold = rtc_read_def [unfolded rtc_begin_def]

definition rtc_close :: "u32 \<Rightarrow> u32" where
  "rtc_close fd = 0"

definition rtc_test :: "device \<Rightarrow> 'a rtc_scheme \<Rightarrow> 'a rtc_scheme" where
  "rtc_test dev s =
     (let s1 = send_eoi 8 (s\<lparr>rtc_interrupt_happened := 1\<rparr>);
          s2 = outb 0x0C 0x70 s1
      in snd (inb dev 0x71 s2))"

text \<open>\<^verbatim>\<open>lib.c\<close>'s handler for trying the clock out: it increments every character of the
  screen.\<close>

definition test_interrupts :: "device \<Rightarrow> 'a console_scheme \<Rightarrow> 'a console_scheme option" where
  "test_interrupts dev s =
     map_option (\<lambda>(_, s1).
         let s2 = for_loop 0 2000 (\<lambda>i s. poke (scr_at i) (mem s (scr_at i) + 1) s) s1;
             s3 = outb 0x0C 0x70 (send_eoi 8 s2)
         in snd (inb dev 0x71 s3))
       (printf (chars ''Test_interrupts called!'') [] s)"

section \<open>What the driver programs the chip to do\<close>

text \<open>The chip divides a 32768 Hz clock by \<open>2 ^ (rate - 1)\<close>, \<open>rate\<close> the low four bits of
  register A.\<close>

definition rate_hz :: "u8 \<Rightarrow> nat" where
  "rate_hz r = 32768 div 2 ^ (unat (r AND 0x0F) - 1)"

lemma rtc_rate_supported: "hz \<in> {2, 4, 8, 16, 32, 64, 128, 256, 512, 1024} \<Longrightarrow> rate_hz (rtc_rate hz) = unat hz"
  by (auto simp: rtc_rate_def rate_hz_def)

lemma rtc_rate_other: "hz \<notin> {2, 4, 8, 16, 32, 64, 128, 256, 512, 1024} \<Longrightarrow> rate_hz (rtc_rate hz) = 2"
  by (auto simp: rtc_rate_def rate_hz_def)

text \<open>The byte put in register A keeps the high bits that were read from it.\<close>

definition new_rate :: "u8 \<Rightarrow> u32 \<Rightarrow> u8" where
  "new_rate prev hz = (prev AND 0xF0) OR (rtc_rate hz AND 0x0F)"

lemma byte_back:
  "(ucast (ucast (v :: u8) :: u32) :: u8) = v"
  "(ucast (ucast (v :: u8) OR (0x40 :: u32)) :: u8) = v OR 0x40"
proof -
  show e: "(ucast (ucast (v :: u8) :: u32) :: u8) = v" for v :: u8
    by (intro bit_word_eqI) (auto simp: bit_simps)
  have "(ucast (ucast (v :: u8) OR (0x40 :: u32)) :: u8) = ucast (ucast v :: u32) OR ucast (0x40 :: u32)"
    by (rule unsigned_or_eq)
  then show "(ucast (ucast (v :: u8) OR (0x40 :: u32)) :: u8) = v OR 0x40" by (simp add: e)
qed

lemma rate_byte:
  "(ucast ((scast (p :: u8) AND 0xF0) OR ucast (r AND 0x0F :: u8) :: u32) :: u8) = (p AND 0xF0) OR (r AND 0x0F)"
proof -
  have "(0xF0 :: u32) = ucast (0xF0 :: u8)" by simp
  then show ?thesis by (intro bit_word_eqI) (auto simp: bit_simps)
qed

lemma low_nibble: "((p AND 0xF0) OR (r AND 0x0F :: u8)) AND 0x0F = r AND 0x0F"
proof -
  have "((p AND 0xF0) OR (r AND 0x0F :: u8)) AND 0x0F = (p AND (0xF0 AND 0x0F)) OR (r AND (0x0F AND 0x0F))"
    by (simp only: word_ao_dist and.assoc)
  then show ?thesis by simp
qed

lemma high_nibble: "((p AND 0xF0) OR (r AND 0x0F :: u8)) AND 0xF0 = p AND 0xF0"
proof -
  have "((p AND 0xF0) OR (r AND 0x0F :: u8)) AND 0xF0 = (p AND (0xF0 AND 0xF0)) OR (r AND (0x0F AND 0xF0))"
    by (simp only: word_ao_dist and.assoc)
  then show ?thesis by simp
qed

lemma new_rate_hz: "rate_hz (new_rate prev hz) = rate_hz (rtc_rate hz)"
  by (simp add: rate_hz_def new_rate_def low_nibble)

lemma new_rate_high: "new_rate prev hz AND 0xF0 = prev AND 0xF0"
  by (simp add: new_rate_def high_nibble)

text \<open>The value register \<open>r\<close> of the chip was last given in a history of accesses: a write to
  the data port while the last write to the index port selected \<open>r\<close>.\<close>

fun chip_step :: "u8 \<Rightarrow> io \<Rightarrow> u8 option \<times> u8 option \<Rightarrow> u8 option \<times> u8 option" where
  "chip_step r (Out p d) (sel, v) =
     (if p = 0x70 then (Some d, v) else if p = 0x71 \<and> sel = Some r then (sel, Some d) else (sel, v))"
| "chip_step r (In p) (sel, v) = (sel, v)"

definition chip_reg :: "u8 \<Rightarrow> io list \<Rightarrow> u8 option" where
  "chip_reg r es = snd (fold (chip_step r) es (None, None))"

lemma rtc_write_ports:
  "rtc_write dev fd hz nbytes s = (0, s\<lparr>ports := ports s @
     [Out 0x70 0x8A, In 0x71, Out 0x70 0x8A,
      Out 0x71 (new_rate (dev (ports s @ [Out 0x70 0x8A]) 0x71) hz)], intr := True\<rparr>)"
  by (simp add: rtc_write_def rtc_regs inb_def outb_def cli_def sti_def Let_def new_rate_def rate_byte byte_back)

lemma rtc_open_ports:
  "\<exists>prevA. rtc_open dev s = (0, s\<lparr>ports := ports s @
     [Out 0x70 0x8B, In 0x71, Out 0x70 0x8B,
      Out 0x71 (dev (ports s @ [Out 0x70 0x8B]) 0x71 OR 0x40),
      Out 0x70 0x8A, In 0x71, Out 0x70 0x8A, Out 0x71 (new_rate prevA 2)], intr := True\<rparr>)"
  by (rule exI)
    (simp add: rtc_open_def rtc_write_ports rtc_regs inb_def outb_def cli_def sti_def Let_def byte_back)

text \<open>Hence the registers of the chip afterwards.\<close>

lemma rtc_write_regs:
  "chip_reg 0x8A (ports (snd (rtc_write dev fd hz nbytes s))) =
    Some (new_rate (dev (ports s @ [Out 0x70 0x8A]) 0x71) hz)"
  "chip_reg 0x8B (ports (snd (rtc_write dev fd hz nbytes s))) = chip_reg 0x8B (ports s)"
  by (cases "fold (chip_step 0x8A) (ports s) (None, None)",
      simp add: rtc_write_ports chip_reg_def)
    (cases "fold (chip_step 0x8B) (ports s) (None, None)", simp add: rtc_write_ports chip_reg_def)

lemma rtc_open_regs:
  "\<exists>prevA. chip_reg 0x8A (ports (snd (rtc_open dev s))) = Some (new_rate prevA 2)"
  "chip_reg 0x8B (ports (snd (rtc_open dev s))) = Some (dev (ports s @ [Out 0x70 0x8B]) 0x71 OR 0x40)"
proof -
  obtain prevA where p: "rtc_open dev s = (0, s\<lparr>ports := ports s @
     [Out 0x70 0x8B, In 0x71, Out 0x70 0x8B,
      Out 0x71 (dev (ports s @ [Out 0x70 0x8B]) 0x71 OR 0x40),
      Out 0x70 0x8A, In 0x71, Out 0x70 0x8A, Out 0x71 (new_rate prevA 2)], intr := True\<rparr>)"
    using rtc_open_ports [of dev s] by blast
  obtain a b where a: "fold (chip_step 0x8A) (ports s) (None, None) = (a, b)" by fastforce
  obtain c d where c: "fold (chip_step 0x8B) (ports s) (None, None) = (c, d)" by fastforce
  show "\<exists>prevA. chip_reg 0x8A (ports (snd (rtc_open dev s))) = Some (new_rate prevA 2)"
    by (rule exI [of _ prevA]) (simp add: p chip_reg_def a)
  show "chip_reg 0x8B (ports (snd (rtc_open dev s))) = Some (dev (ports s @ [Out 0x70 0x8B]) 0x71 OR 0x40)"
    by (simp add: p chip_reg_def c)
qed

section \<open>The blocking read\<close>

lemma rtc_test_effect:
  "rtc_interrupt_happened (rtc_test dev s) = 1"
  "mem (rtc_test dev s) = mem s"
  "ports (rtc_test dev s) = ports s @ [Out 0xA0 0x60, Out 0x20 0x62, Out 0x70 0x0C, In 0x71]"
  by (simp_all add: rtc_test_def send_eoi_def inb_def outb_def pic_ports)

text \<open>It returns at the first arriving handler that sets the flag, with the state that handler
  leaves; the earlier ones have all run.\<close>

lemma spin_first:
  assumes "\<And>h. h \<in> set hs \<Longrightarrow> \<forall>s. \<not> done s \<longrightarrow> \<not> done (h s)" and "\<not> done s" and "\<And>s. done (h s)"
  shows "spin done (hs @ h # hs') s = Some (h (fold (\<lambda>h. h) hs s), hs')"
  using assms(1,2)
proof (induction hs arbitrary: s)
  case Nil
  then show ?case using assms(3) by (cases hs') simp_all
next
  case (Cons g gs)
  then show ?case by simp
qed

lemma spin_never:
  assumes "\<And>h. h \<in> set hs \<Longrightarrow> \<forall>s. \<not> done s \<longrightarrow> \<not> done (h s)" and "\<not> done s"
  shows "spin done hs s = None"
  using assms by (induction hs arbitrary: s) simp_all

text \<open>A handler that leaves the flag alone.\<close>

definition keeps_flag :: "('a rtc_scheme \<Rightarrow> 'a rtc_scheme) \<Rightarrow> bool" where
  "keeps_flag h \<longleftrightarrow> (\<forall>s. rtc_interrupt_happened (h s) = rtc_interrupt_happened s)"

lemma rtc_read_first:
  assumes "\<forall>h \<in> set hs. keeps_flag h"
  shows "rtc_read (hs @ rtc_test dev # hs') fd buf n s =
    Some (0, rtc_test dev (fold (\<lambda>h. h) hs ((sti s)\<lparr>rtc_interrupt_happened := 0\<rparr>)), hs')"
  using assms unfolding rtc_read_unfold
  by (subst spin_first) (auto simp: keeps_flag_def rtc_test_effect)

lemma rtc_read_never:
  assumes "\<forall>h \<in> set hs. keeps_flag h"
  shows "rtc_read hs fd buf n s = None"
  using assms unfolding rtc_read_unfold
  by (subst spin_never) (auto simp: keeps_flag_def)

end
