(* ===== verification/Paging.thy ===== *)
theory Paging
  imports Rtc
begin

text \<open>
  Paging, \<^verbatim>\<open>student-distrib/paging_handler.c\<close>: the page directories and the two page
  tables, the control registers, and the operations that fill them. The addresses the linker
  gives the tables are a parameter. The last sections give the processor's address
  translation over these tables, in the layouts \<^verbatim>\<open>paging_handler.h\<close> draws, and prove what
  the kernel and each program can reach.
\<close>

record paging = rtc +
  page_directory_set :: "nat \<Rightarrow> nat \<Rightarrow> u32"
  page_table :: "nat \<Rightarrow> u32"
  v_m_page_table :: "nat \<Rightarrow> u32"
  cr0 :: u32
  cr3 :: u32
  cr4 :: u32

record layout =
  dirs_addr :: u32
  pt_addr :: u32
  vm_addr :: u32

abbreviation PROCESSES :: nat where "PROCESSES \<equiv> 8"
abbreviation PAGE_DIRECTORY_SIZE :: nat where "PAGE_DIRECTORY_SIZE \<equiv> 1024"
abbreviation PAGE_TABLE_SIZE :: nat where "PAGE_TABLE_SIZE \<equiv> 1024"

definition FOURKB_PAGE_MASK :: u32 where "FOURKB_PAGE_MASK = 0xFFFFF000"
definition FOURMB_PAGE_MASK :: u32 where "FOURMB_PAGE_MASK = 0xFFC00000"
definition NP_BLANK_VECTOR :: u32 where "NP_BLANK_VECTOR = 0x2"
definition P_BLANK_VECTOR :: u32 where "P_BLANK_VECTOR = 0x3"
definition V_M_BLANK_VECTOR :: u32 where "V_M_BLANK_VECTOR = 0x7"
definition IMAGE_BLANK_VECTOR :: u32 where "IMAGE_BLANK_VECTOR = 0x87"
definition KERNAL_START_VECTOR :: u32 where "KERNAL_START_VECTOR = 0x00400083"
definition EIGHT_MB :: u32 where "EIGHT_MB = 0x800000"
definition FOUR_MB :: u32 where "FOUR_MB = 0x400000"
abbreviation IMAGE_ENTRY_IDX :: nat where "IMAGE_ENTRY_IDX \<equiv> 0x20"
abbreviation V_M_ENTRY_IDX :: nat where "V_M_ENTRY_IDX \<equiv> 0x21"
abbreviation VIDEO_IDX :: nat where "VIDEO_IDX \<equiv> 0xB8"

lemmas vectors = FOURKB_PAGE_MASK_def FOURMB_PAGE_MASK_def NP_BLANK_VECTOR_def P_BLANK_VECTOR_def
  V_M_BLANK_VECTOR_def IMAGE_BLANK_VECTOR_def KERNAL_START_VECTOR_def EIGHT_MB_def FOUR_MB_def

section \<open>The operations\<close>

definition load_registers :: "layout \<Rightarrow> u32 \<Rightarrow> 'a paging_scheme \<Rightarrow> 'a paging_scheme" where
  "load_registers L cr4_bits s =
     s\<lparr>cr3 := dirs_addr L AND 0xFFFFFFE7,
       cr4 := cr4 s OR cr4_bits,
       cr0 := cr0 s OR 0x80000000\<rparr>"

definition set_control_registers :: "layout \<Rightarrow> int \<Rightarrow> 'a paging_scheme \<Rightarrow> 'a paging_scheme" where
  "set_control_registers L init s =
     load_registers L 0x90 (if init = 1 then load_registers L 0x10 s else s)"

definition set_pde :: "nat \<Rightarrow> nat \<Rightarrow> u32 \<Rightarrow> 'a paging_scheme \<Rightarrow> 'a paging_scheme" where
  "set_pde d i v s = s\<lparr>page_directory_set := (page_directory_set s)(d := (page_directory_set s d)(i := v))\<rparr>"

definition set_pte :: "nat \<Rightarrow> u32 \<Rightarrow> 'a paging_scheme \<Rightarrow> 'a paging_scheme" where
  "set_pte i v s = s\<lparr>page_table := (page_table s)(i := v)\<rparr>"

definition enable_paging :: "layout \<Rightarrow> 'a paging_scheme \<Rightarrow> 'a paging_scheme" where
  "enable_paging L s =
     (let s1 = for_loop 0 PROCESSES (\<lambda>ds_i. for_loop 0 PAGE_DIRECTORY_SIZE (\<lambda>pd_i.
                 set_pde ds_i pd_i NP_BLANK_VECTOR)) s;
          s2 = for_loop 0 PAGE_TABLE_SIZE (\<lambda>pt_i.
                 set_pte pt_i (((of_nat pt_i * 4096) AND FOURKB_PAGE_MASK) OR NP_BLANK_VECTOR)) s1;
          s3 = for_loop VIDEO_IDX (VIDEO_IDX + 4) (\<lambda>i s. set_pte i (page_table s i OR P_BLANK_VECTOR) s) s2;
          s4 = set_pde 0 0 ((pt_addr L AND FOURKB_PAGE_MASK) OR P_BLANK_VECTOR) s3;
          s5 = set_pde 0 1 KERNAL_START_VECTOR s4
      in set_control_registers L 1 s5)"

definition load_new_process :: "layout \<Rightarrow> u32 \<Rightarrow> 'a paging_scheme \<Rightarrow> 'a paging_scheme option" where
  "load_new_process L process_num s =
     (if process_num > 7 then map_option snd (printf (chars ''INVALID PROCESS NUMBER'') [] s)
      else let temp_vector = ((EIGHT_MB + process_num * FOUR_MB) AND FOURMB_PAGE_MASK) OR IMAGE_BLANK_VECTOR
           in Some (set_control_registers L 0 (set_pde 0 IMAGE_ENTRY_IDX temp_vector s)))"

definition load_video_mem :: "layout \<Rightarrow> u32 \<Rightarrow> 'a paging_scheme \<Rightarrow> 'a paging_scheme" where
  "load_video_mem L terminal_num s =
     (let s1 = s\<lparr>v_m_page_table := (v_m_page_table s)(0 := VIDEO OR V_M_BLANK_VECTOR)\<rparr>;
          s2 = set_pde 0 (unat (of_nat V_M_ENTRY_IDX + terminal_num))
                 ((vm_addr L AND FOURKB_PAGE_MASK) OR V_M_BLANK_VECTOR) s1
      in set_control_registers L 0 s2)"

definition init_new_vector :: "nat \<Rightarrow> nat \<Rightarrow> u32 \<Rightarrow> 'a paging_scheme \<Rightarrow> 'a paging_scheme option" where
  "init_new_vector pd_num entry_num vec s =
     (if pd_num < PROCESSES \<and> entry_num < PAGE_DIRECTORY_SIZE then Some (set_pde pd_num entry_num vec s) else None)"

section \<open>Address translation\<close>

text \<open>The entries of the table at a physical address.\<close>

definition table_at :: "layout \<Rightarrow> 'a paging_scheme \<Rightarrow> u32 \<Rightarrow> (nat \<Rightarrow> u32) option" where
  "table_at L s base =
     (if base = dirs_addr L then Some (page_directory_set s 0)
      else if base = pt_addr L then Some (page_table s)
      else if base = vm_addr L then Some (v_m_page_table s) else None)"

definition walk_table :: "bool \<Rightarrow> (nat \<Rightarrow> u32) \<Rightarrow> u32 \<Rightarrow> u32 option" where
  "walk_table user tbl va =
     (let pte = tbl (unat (drop_bit 12 va AND 0x3FF))
      in if \<not> bit pte 0 \<or> (user \<and> \<not> bit pte 2) then None
         else Some ((pte AND 0xFFFFF000) OR (va AND 0xFFF)))"

text \<open>The physical address a read at \<open>va\<close> goes to, \<open>None\<close> a page fault.\<close>

definition translate :: "layout \<Rightarrow> 'a paging_scheme \<Rightarrow> bool \<Rightarrow> u32 \<Rightarrow> u32 option" where
  "translate L s user va =
     (if \<not> bit (cr0 s) 31 then Some va
      else Option.bind (table_at L s (cr3 s AND 0xFFFFF000)) (\<lambda>dir.
        let pde = dir (unat (drop_bit 22 va))
        in if \<not> bit pde 0 \<or> (user \<and> \<not> bit pde 2) then None
           else if bit pde 7 \<and> bit (cr4 s) 4 then Some ((pde AND 0xFFC00000) OR (va AND 0x3FFFFF))
           else Option.bind (table_at L s (pde AND 0xFFFFF000)) (\<lambda>tbl. walk_table user tbl va)))"

text \<open>The linker places each table on a page of its own.\<close>

definition layout_ok :: "layout \<Rightarrow> bool" where
  "layout_ok L \<longleftrightarrow>
     dirs_addr L AND 0xFFF = 0 \<and> pt_addr L AND 0xFFF = 0 \<and> vm_addr L AND 0xFFF = 0 \<and>
     dirs_addr L \<noteq> pt_addr L \<and> dirs_addr L \<noteq> vm_addr L \<and> pt_addr L \<noteq> vm_addr L"

section \<open>What the operations leave\<close>

lemma set_pde_simps [simp]:
  "page_directory_set (set_pde d i v s) = (page_directory_set s)(d := (page_directory_set s d)(i := v))"
  "page_table (set_pde d i v s) = page_table s" "v_m_page_table (set_pde d i v s) = v_m_page_table s"
  "cr0 (set_pde d i v s) = cr0 s" "cr3 (set_pde d i v s) = cr3 s" "cr4 (set_pde d i v s) = cr4 s"
  "paging.more (set_pde d i v s) = paging.more s" "mem (set_pde d i v s) = mem s"
  by (simp_all add: set_pde_def)

lemma set_pte_simps [simp]:
  "page_table (set_pte i v s) = (page_table s)(i := v)"
  "page_directory_set (set_pte i v s) = page_directory_set s"
  "v_m_page_table (set_pte i v s) = v_m_page_table s"
  "cr0 (set_pte i v s) = cr0 s" "cr3 (set_pte i v s) = cr3 s" "cr4 (set_pte i v s) = cr4 s"
  by (simp_all add: set_pte_def)

lemma control_simps [simp]:
  "page_directory_set (set_control_registers L i s) = page_directory_set s"
  "page_table (set_control_registers L i s) = page_table s"
  "v_m_page_table (set_control_registers L i s) = v_m_page_table s"
  "cr3 (set_control_registers L i s) = dirs_addr L AND 0xFFFFFFE7"
  "bit (cr0 (set_control_registers L i s)) 31" "bit (cr4 (set_control_registers L i s)) 4"
  "paging.more (set_control_registers L i s) = paging.more s" "mem (set_control_registers L i s) = mem s"
  by (simp_all add: set_control_registers_def load_registers_def bit_simps)

text \<open>A loop that assigns consecutive entries.\<close>

lemma for_loop_frames:
  assumes "\<And>i s. g (f i s) = g s"
  shows "g (for_loop a b f s) = g s"
  using assms by (rule for_loop_frame)

lemma blank_directory:
  "page_directory_set (for_loop 0 n (\<lambda>i. set_pde d i v) s) =
     (page_directory_set s)(d := (\<lambda>i. if i < n then v else page_directory_set s d i))"
proof (induction n)
  case 0
  then show ?case by simp
next
  case (Suc n)
  then show ?case by (auto simp: for_loop_Suc fun_eq_iff less_Suc_eq)
qed

lemma blank_directories:
  "page_directory_set (for_loop 0 k (\<lambda>d. for_loop 0 n (\<lambda>i. set_pde d i v)) s) =
     (\<lambda>d i. if d < k \<and> i < n then v else page_directory_set s d i)"
proof (induction k)
  case 0
  then show ?case by simp
next
  case (Suc k)
  then show ?case by (auto simp: for_loop_Suc blank_directory fun_eq_iff less_Suc_eq)
qed

lemma fill_page_table:
  "page_table (for_loop 0 n (\<lambda>i. set_pte i (f i)) s) = (\<lambda>i. if i < n then f i else page_table s i)"
  by (induction n) (auto simp: for_loop_Suc fun_eq_iff less_Suc_eq)

section \<open>The address space of each program\<close>

text \<open>
  The tables as their users see them: which process image is loaded, if any, and whether the
  screen is mapped for programs.
\<close>

definition kernel_pte :: "nat \<Rightarrow> u32" where
  "kernel_pte i = push_bit 12 (of_nat i) OR (if 0xB8 \<le> i \<and> i < 0xBC then 3 else 2)"

definition kernel_pde :: "layout \<Rightarrow> nat option \<Rightarrow> bool \<Rightarrow> nat \<Rightarrow> u32" where
  "kernel_pde L img video i =
     (if i = 0 then pt_addr L OR 3
      else if i = 1 then 0x00400083
      else if i = 32 then (case img of None \<Rightarrow> 2 | Some p \<Rightarrow> push_bit 22 (of_nat (p + 2)) OR 0x87)
      else if i = 33 \<and> video then vm_addr L OR 7
      else 2)"

definition paging_view :: "layout \<Rightarrow> 'a paging_scheme \<Rightarrow> nat option \<Rightarrow> bool \<Rightarrow> bool" where
  "paging_view L s img video \<longleftrightarrow>
     cr3 s AND 0xFFFFF000 = dirs_addr L \<and> bit (cr0 s) 31 \<and> bit (cr4 s) 4 \<and>
     (\<forall>i < 1024. page_directory_set s 0 i = kernel_pde L img video i) \<and>
     (\<forall>i < 1024. page_table s i = kernel_pte i) \<and>
     (\<forall>i < 1024. i \<noteq> 0 \<longrightarrow> \<not> bit (v_m_page_table s i) 0) \<and>
     (video \<longrightarrow> v_m_page_table s 0 = 0xB8007) \<and>
     (\<forall>p. img = Some p \<longrightarrow> p < 8)"

text \<open>The physical address an access reaches: the kernel its own 4 MB and the four pages of
  video memory, a program its own 4 MB image, and both the mapped screen.\<close>

definition reach :: "nat option \<Rightarrow> bool \<Rightarrow> bool \<Rightarrow> nat \<Rightarrow> nat option" where
  "reach img video user a =
     (if 0xB8000 \<le> a \<and> a < 0xBC000 \<or> 0x400000 \<le> a \<and> a < 0x800000
      then (if user then None else Some a)
      else if 0x8000000 \<le> a \<and> a < 0x8400000
      then map_option (\<lambda>p. 0x800000 + 0x400000 * p + (a - 0x8000000)) img
      else if 0x8400000 \<le> a \<and> a < 0x8401000 \<and> video then Some (0xB8000 + (a - 0x8400000))
      else None)"

lemma page_masks:
  "(0xFFFFF000 :: u32) = NOT (mask 12)" "(0xFFF :: u32) = mask 12"
  "(0xFFC00000 :: u32) = NOT (mask 22)" "(0x3FFFFF :: u32) = mask 22" "(0x3FF :: u32) = mask 10"
  by (simp_all add: mask_eq_exp_minus_1)

lemma push_or_take: "push_bit n q OR take_bit n (va :: u32) = push_bit n q + take_bit n va"
  by (rule disjunctive_add [symmetric]) (auto simp: bit_simps)

lemma aligned_bit: "(x :: u32) AND 0xFFF = 0 \<Longrightarrow> k < 12 \<Longrightarrow> \<not> bit x k"
proof -
  assume "x AND 0xFFF = 0" and k: "k < 12"
  then have "bit (x AND mask 12) k = bit (0 :: u32) k" by (simp only: page_masks)
  then show "\<not> bit x k" using k by (simp add: bit_simps)
qed

lemma flags_bits: 
  "bit (2 :: u32) k \<longleftrightarrow> k = 1" "bit (3 :: u32) k \<longleftrightarrow> k = 0 \<or> k = 1" "bit (7 :: u32) k \<longleftrightarrow> k < 3"
  "bit (0x87 :: u32) k \<longleftrightarrow> k < 3 \<or> k = 7"
proof -
  have e: "(3 :: u32) = mask 2" "(7 :: u32) = mask 3" "(2 :: u32) = push_bit 1 1" "(0x87 :: u32) = push_bit 7 1 OR mask 3"
    by (simp_all add: mask_eq_exp_minus_1)
  have one: "bit (push_bit n 1 :: u32) k \<longleftrightarrow> k = n" if "n < 32" for n
    using that by (auto simp: bit_simps)
  show "bit (2 :: u32) k \<longleftrightarrow> k = 1" unfolding e(3) using one [of 1] by (simp only:)
  show "bit (3 :: u32) k \<longleftrightarrow> k = 0 \<or> k = 1" unfolding e(1) by (auto simp: bit_simps)
  show "bit (7 :: u32) k \<longleftrightarrow> k < 3" unfolding e(2) by (auto simp: bit_simps)
  show "bit (0x87 :: u32) k \<longleftrightarrow> k < 3 \<or> k = 7" unfolding e(4) bit_or_iff using one [of 7] by (auto simp: bit_simps)
qed

lemma frame_of_aligned:
  assumes "x AND 0xFFF = 0" and "\<And>k. bit f k \<Longrightarrow> k < 12"
  shows "(x OR f) AND 0xFFFFF000 = (x :: u32)"
proof (rule bit_word_eqI)
  fix k assume "k < LENGTH(32)"
  then show "bit ((x OR f) AND 0xFFFFF000) k = bit x k"
    unfolding page_masks using assms(2) [of k] aligned_bit [OF assms(1), of k] by (auto simp: bit_simps)
qed

lemma unat_drop_bit22: "unat (drop_bit n (va :: u32)) = unat va div 2 ^ n"
  unfolding unat_drop_bit_eq by (rule drop_bit_eq_div)

lemma unat_take_bit32: "unat (take_bit n (va :: u32)) = unat va mod 2 ^ n"
  unfolding unsigned_take_bit_eq by (rule take_bit_eq_mod)

lemma va_split: "push_bit n (drop_bit n va) OR take_bit n va = (va :: u32)"
  by (rule bit_word_eqI) (auto simp: bit_simps)

text \<open>The directory entry decides which case of the walk applies.\<close>

lemma translate_absent:
  assumes "paging_view L s img video" and "layout_ok L"
    and "unat va div 4194304 = i" and "\<not> bit (kernel_pde L img video i) 0"
  shows "translate L s user va = None"
proof -
  have "i < 1024" using assms(3) unat_u32_less [of va] by auto
  then show ?thesis
    using assms by (auto simp: translate_def paging_view_def table_at_def Let_def unat_drop_bit22)
qed

lemma translate_big:
  assumes "paging_view L s img video" and "layout_ok L"
    and "unat va div 4194304 = i" and "bit (kernel_pde L img video i) 0" and "bit (kernel_pde L img video i) 7"
  shows "translate L s user va = (if user \<and> \<not> bit (kernel_pde L img video i) 2 then None
     else Some ((kernel_pde L img video i AND 0xFFC00000) OR take_bit 22 va))"
proof -
  have "i < 1024" using assms(3) unat_u32_less [of va] by auto
  moreover have "va AND 0x3FFFFF = take_bit 22 va" by (simp add: page_masks take_bit_eq_mask)
  ultimately show ?thesis
    using assms by (auto simp: translate_def paging_view_def table_at_def Let_def unat_drop_bit22)
qed

lemma translate_table:
  assumes "paging_view L s img video" and "layout_ok L"
    and "unat va div 4194304 = i" and "bit (kernel_pde L img video i) 0" and "\<not> bit (kernel_pde L img video i) 7"
    and "table_at L s (kernel_pde L img video i AND 0xFFFFF000) = Some tbl"
  shows "translate L s user va = (if user \<and> \<not> bit (kernel_pde L img video i) 2 then None
     else walk_table user tbl va)"
proof -
  have "i < 1024" using assms(3) unat_u32_less [of va] by auto
  moreover have "table_at L s (dirs_addr L) = Some (page_directory_set s 0)" by (simp add: table_at_def)
  ultimately show ?thesis
    using assms by (auto simp: translate_def paging_view_def Let_def unat_drop_bit22)
qed

lemma walk_table_eq:
  "walk_table user tbl va = (let pte = tbl (unat va div 4096 mod 1024)
      in if \<not> bit pte 0 \<or> (user \<and> \<not> bit pte 2) then None
         else Some ((pte AND 0xFFFFF000) OR take_bit 12 va))"
proof -
  have "unat (drop_bit 12 va AND 0x3FF) = unat va div 4096 mod 1024"
    unfolding page_masks take_bit_eq_mask [symmetric] by (simp add: unat_take_bit32 unat_drop_bit22)
  moreover have "va AND 0xFFF = take_bit 12 va" by (simp add: page_masks take_bit_eq_mask)
  ultimately show ?thesis by (simp only: walk_table_def)
qed

lemma kernel_start_bits:
  "bit (0x400083 :: u32) 0" "bit (0x400083 :: u32) 7" "\<not> bit (0x400083 :: u32) 2"
  "(0x400083 :: u32) AND 0xFFC00000 = push_bit 22 1"
  by simp_all

lemma screen_pte_bits:
  "bit (0xB8007 :: u32) 0" "bit (0xB8007 :: u32) 2" "(0xB8007 :: u32) AND 0xFFFFF000 = push_bit 12 0xB8"
  by simp_all

declare bit_numeral_word_iff [simp del]

lemma kernel_pde_flags:
  assumes "layout_ok L"
  shows "bit (kernel_pde L img video i) 0 \<longleftrightarrow> i = 0 \<or> i = 1 \<or> (i = 32 \<and> img \<noteq> None) \<or> (i = 33 \<and> video)"
    and "bit (kernel_pde L img video i) 7 \<longleftrightarrow> i = 1 \<or> (i = 32 \<and> img \<noteq> None)"
    and "bit (kernel_pde L img video i) 2 \<longleftrightarrow> (i = 32 \<and> img \<noteq> None) \<or> (i = 33 \<and> video)"
  using assms aligned_bit [of "pt_addr L"] aligned_bit [of "vm_addr L"]
  by (auto simp: kernel_pde_def layout_ok_def flags_bits kernel_start_bits bit_simps split: option.splits)

lemma image_frame:
  assumes "p < 8"
  shows "(push_bit 22 (of_nat (p + 2)) OR 0x87) AND 0xFFC00000 = (push_bit 22 (of_nat (p + 2)) :: u32)"
proof (rule bit_word_eqI)
  fix k assume "k < LENGTH(32)"
  then show "bit ((push_bit 22 (of_nat (p + 2)) OR 0x87) AND 0xFFC00000 :: u32) k =
      bit (push_bit 22 (of_nat (p + 2)) :: u32) k"
    unfolding page_masks by (auto simp: bit_simps flags_bits)
qed

lemma unat_frame_offset:
  assumes "unat q * 2 ^ n + 2 ^ n \<le> 4294967296"
  shows "unat (push_bit n q OR take_bit n (va :: u32)) = unat q * 2 ^ n + unat va mod 2 ^ n"
proof -
  have b: "unat va mod 2 ^ n < 2 ^ n" by simp
  have q: "unat (push_bit n q) = unat q * 2 ^ n"
  proof -
    have "unat q * 2 ^ n < 4294967296" using assms by (rule less_le_trans [rotated]) simp
    then have "take_bit 32 (push_bit n (unat q)) = unat q * 2 ^ n"
      by (simp add: push_bit_eq_mult take_bit_nat_eq_self)
    then show ?thesis unfolding unsigned_push_bit_eq by simp
  qed
  have "unat q * 2 ^ n + unat va mod 2 ^ n < 4294967296" using assms b by linarith
  then show ?thesis
    unfolding push_or_take using q
    by (subst unat_add_lem [THEN iffD1]) (simp_all add: unat_take_bit32)
qed

lemma va_cases:
  assumes "unat (va :: u32) div 4194304 = i"
  shows "i * 4194304 \<le> unat va" and "unat va < i * 4194304 + 4194304"
    and "unat va mod 4194304 = unat va - i * 4194304"
  using assms div_mult_mod_eq [of "unat va" 4194304] mod_less_divisor [of 4194304 "unat va"] by auto

lemma translate_low:
  assumes v: "paging_view L s img video" and L: "layout_ok L" and i: "unat va div 4194304 = 0"
  shows "translate L s user va = (if user \<or> \<not> (0xB8000 \<le> unat va \<and> unat va < 0xBC000) then None else Some va)"
proof -
  have b: "unat va < 4194304" using va_cases(2) [OF i] by simp
  then have idx: "unat va div 4096 mod 1024 = unat va div 4096" "unat va div 4096 < 1024" by auto
  have ent: "page_table s (unat va div 4096) = kernel_pte (unat va div 4096)"
    using v idx by (simp add: paging_view_def)
  have "(pt_addr L OR 3) AND 0xFFFFF000 = pt_addr L"
    using L by (intro frame_of_aligned) (auto simp: layout_ok_def flags_bits)
  then have t: "table_at L s (kernel_pde L img video 0 AND 0xFFFFF000) = Some (page_table s)"
    using L by (auto simp: kernel_pde_def table_at_def layout_ok_def)
  have frame: "(kernel_pte (unat va div 4096) AND 0xFFFFF000) OR take_bit 12 va = va"
  proof -
    have "of_nat (unat va div 4096) = drop_bit 12 va"
      
    proof -
      have "drop_bit 12 va = of_nat (unat (drop_bit 12 va))" by simp
      then show ?thesis unfolding unat_drop_bit22 by simp
    qed
    then have "kernel_pte (unat va div 4096) AND 0xFFFFF000 = push_bit 12 (drop_bit 12 va)"
      unfolding kernel_pte_def page_masks by (intro bit_word_eqI) (auto simp: bit_simps flags_bits)
    then show ?thesis by (simp only: va_split)
  qed
  have "0xB8 \<le> unat va div 4096 \<and> unat va div 4096 < 0xBC \<longleftrightarrow> 0xB8000 \<le> unat va \<and> unat va < 0xBC000"
    by auto
  then have p: "bit (kernel_pte (unat va div 4096)) 0 \<longleftrightarrow> 0xB8000 \<le> unat va \<and> unat va < 0xBC000"
    by (simp add: kernel_pte_def bit_simps flags_bits)
  show ?thesis
    using translate_table [OF v L i _ _ t] p frame
    by (simp add: kernel_pde_flags [OF L] walk_table_eq ent idx Let_def)
qed

lemma translate_kernel:
  assumes v: "paging_view L s img video" and L: "layout_ok L" and i: "unat va div 4194304 = 1"
  shows "map_option unat (translate L s user va) = (if user then None else Some (unat va))"
proof -
  have "unat (push_bit 22 1 OR take_bit 22 va) = unat va"
    using unat_frame_offset [of 1 22 va] va_cases [OF i] by simp
  then show ?thesis
    using translate_big [OF v L i]
    by (simp add: kernel_pde_flags [OF L]) (simp add: kernel_pde_def kernel_start_bits)
qed

lemma translate_image:
  assumes v: "paging_view L s (Some p) video" and L: "layout_ok L" and i: "unat va div 4194304 = 32"
  shows "map_option unat (translate L s user va) =
    Some (0x800000 + 0x400000 * p + (unat va - 0x8000000))"
proof -
  have p: "p < 8" using v by (simp add: paging_view_def)
  have "unat (of_nat (p + 2) :: u32) = p + 2" using p by (intro unat_of_nat32) simp
  then have "unat (push_bit 22 (of_nat (p + 2)) OR take_bit 22 va) = (p + 2) * 4194304 + unat va mod 4194304"
    using unat_frame_offset [of "of_nat (p + 2)" 22 va] p by (simp del: of_nat_add)
  also have "\<dots> = 0x800000 + 0x400000 * p + (unat va - 0x8000000)" using va_cases [OF i] by simp
  finally have "unat (push_bit 22 (of_nat (p + 2)) OR take_bit 22 va) =
      0x800000 + 0x400000 * p + (unat va - 0x8000000)" .
  then show ?thesis
    using translate_big [OF v L i] image_frame [OF p]
    by (simp add: kernel_pde_flags [OF L]) (simp add: kernel_pde_def)
qed

lemma translate_video:
  assumes v: "paging_view L s img True" and L: "layout_ok L" and i: "unat va div 4194304 = 33"
  shows "map_option unat (translate L s user va) =
    (if unat va < 0x8401000 then Some (0xB8000 + (unat va - 0x8400000)) else None)"
proof -
  define off where "off = unat va - 0x8400000"
  have va: "unat va = 0x8400000 + off" "off < 4194304" using va_cases [OF i] by (simp_all add: off_def)
  then have "unat va div 4096 = 33 * 1024 + off div 4096" by simp
  then have k: "unat va div 4096 mod 1024 = off div 4096" "off div 4096 < 1024"
    using va(2) by (simp_all only: mod_mult_self3) auto
  have "(vm_addr L OR 7) AND 0xFFFFF000 = vm_addr L"
    using L by (intro frame_of_aligned) (auto simp: layout_ok_def flags_bits)
  then have t: "table_at L s (kernel_pde L img True 33 AND 0xFFFFF000) = Some (v_m_page_table s)"
    using L by (auto simp: kernel_pde_def table_at_def layout_ok_def)
  have w: "translate L s user va = walk_table user (v_m_page_table s) va"
    using translate_table [OF v L i _ _ t] by (simp add: kernel_pde_flags [OF L])
  show ?thesis
  proof (cases "off < 4096")
    case True
    have "unat va = 0x8400 * 4096 + off" using va by simp
    then have "unat va mod 4096 = off" using True by (simp only: mod_mult_self3 mod_less)
    then have "unat (push_bit 12 0xB8 OR take_bit 12 va) = 0xB8000 + off"
      using unat_frame_offset [of "0xB8" 12 va] by simp
    then show ?thesis
      using True v va w k by (simp add: walk_table_eq Let_def paging_view_def screen_pte_bits)
  next
    case False
    then have "off div 4096 \<noteq> 0" by simp
    then show ?thesis
      using False v va w k by (simp add: walk_table_eq Let_def paging_view_def)
  qed
qed

lemma translate_reach:
  assumes v: "paging_view L s img video" and L: "layout_ok L"
  shows "map_option unat (translate L s user va) = reach img video user (unat va)"
proof -
  define i where "i = unat va div 4194304"
  have e: "unat va div 4194304 = i" by (simp add: i_def)
  note c = va_cases [OF e]
  consider "i = 0" | "i = 1" | p where "i = 32" "img = Some p" | "i = 33" "video"
    | "\<not> bit (kernel_pde L img video i) 0"
    by (cases img) (auto simp: kernel_pde_flags [OF L])
  then show ?thesis
  proof cases
    case 1
    then show ?thesis using translate_low [OF v L, of va user] e c by (auto simp: reach_def)
  next
    case 2
    then show ?thesis using translate_kernel [OF v L, of va user] e c by (auto simp: reach_def)
  next
    case 3
    then show ?thesis using translate_image [of L s p video va user] v L e c by (simp add: reach_def)
  next
    case 4
    then show ?thesis using translate_video [of L s img va user] v L e c by (simp add: reach_def)
  next
    case 5
    then have "i \<noteq> 0" "i \<noteq> 1" "i = 32 \<longrightarrow> img = None" "i = 33 \<longrightarrow> \<not> video"
      by (auto simp: kernel_pde_flags [OF L])
    then have "reach img video user (unat va) = None" using e by (auto simp: reach_def)
    then show ?thesis using translate_absent [OF v L e 5] by simp
  qed
qed

section \<open>What the operations make reachable\<close>

lemma table_mask_id: "x AND 0xFFF = 0 \<Longrightarrow> x AND 0xFFFFF000 = (x :: u32)"
  using frame_of_aligned [of x 0] by simp

lemma cr3_frame:
  assumes "layout_ok L"
  shows "(dirs_addr L AND 0xFFFFFFE7) AND 0xFFFFF000 = dirs_addr L"
proof -
  have "(0xFFFFFFE7 :: u32) AND 0xFFFFF000 = 0xFFFFF000" by simp
  then have "(dirs_addr L AND 0xFFFFFFE7) AND 0xFFFFF000 = dirs_addr L AND 0xFFFFF000"
    by (simp only: and.assoc)
  then show ?thesis using assms by (simp only: table_mask_id layout_ok_def)
qed

lemma fill_entry:
  "i < 1024 \<Longrightarrow> (of_nat i * 4096 AND FOURKB_PAGE_MASK) OR NP_BLANK_VECTOR = (push_bit 12 (of_nat i) OR 2 :: u32)"
proof -
  have "(push_bit 12 w AND 0xFFFFF000 :: u32) = push_bit 12 w" for w
    unfolding page_masks by (rule bit_word_eqI) (auto simp: bit_simps)
  then show ?thesis by (simp add: vectors push_bit_eq_mult)
qed

lemma enable_paging_view:
  assumes L: "layout_ok L" and z: "\<forall>i. v_m_page_table s i = 0"
  shows "paging_view L (enable_paging L s) None False"
proof -
  have or3: "(w OR 2) OR 3 = (w OR 3 :: u32)" for w
  proof -
    have "(2 :: u32) OR 3 = 3" by simp
    then show ?thesis by (simp only: or.assoc)
  qed
  have upd: "for_loop 0xB8 (0xB8 + 4) (\<lambda>i s. set_pte i (page_table s i OR P_BLANK_VECTOR) s) t =
      set_pte 0xBB (page_table t 0xBB OR P_BLANK_VECTOR) (set_pte 0xBA (page_table t 0xBA OR P_BLANK_VECTOR)
        (set_pte 0xB9 (page_table t 0xB9 OR P_BLANK_VECTOR) (set_pte 0xB8 (page_table t 0xB8 OR P_BLANK_VECTOR) t)))"
    for t :: "'a paging_scheme"
    by (simp add: for_loop_def upt_rec)
  let ?s1 = "for_loop 0 PROCESSES (\<lambda>ds_i. for_loop 0 PAGE_DIRECTORY_SIZE (\<lambda>pd_i.
                 set_pde ds_i pd_i NP_BLANK_VECTOR)) s"
  let ?s2 = "for_loop 0 PAGE_TABLE_SIZE (\<lambda>pt_i.
                 set_pte pt_i (((of_nat pt_i * 4096) AND FOURKB_PAGE_MASK) OR NP_BLANK_VECTOR)) ?s1"
  have d1: "page_directory_set ?s1 = (\<lambda>d i. if d < 8 \<and> i < 1024 then 2 else page_directory_set s d i)"
    by (simp only: blank_directories vectors)
  have v1: "v_m_page_table ?s1 = v_m_page_table s"
    by (intro for_loop_frame) simp
  have d2: "page_directory_set ?s2 = page_directory_set ?s1" "v_m_page_table ?s2 = v_m_page_table ?s1"
    by (intro for_loop_frame; simp)+
  have p2: "page_table ?s2 i = push_bit 12 (of_nat i) OR 2" if "i < 1024" for i
    using that by (simp only: fill_page_table fill_entry if_True)
  let ?s = "enable_paging L s"
  have dir: "page_directory_set ?s 0 i = kernel_pde L None False i" if "i < 1024" for i
    using that L d1 d2 unfolding enable_paging_def Let_def upd
    by (simp add: kernel_pde_def layout_ok_def vectors table_mask_id)
  have pt: "page_table ?s i = kernel_pte i" if "i < 1024" for i
    using that p2 unfolding enable_paging_def Let_def upd
    by (auto simp: kernel_pte_def P_BLANK_VECTOR_def or3 fun_upd_def)
  have vm: "v_m_page_table ?s i = 0" for i
    using z v1 d2 unfolding enable_paging_def Let_def upd by simp
  have "cr3 ?s = dirs_addr L AND 0xFFFFFFE7" "bit (cr0 ?s) 31" "bit (cr4 ?s) 4"
    unfolding enable_paging_def Let_def by simp_all
  then show ?thesis
    unfolding paging_view_def using dir pt vm cr3_frame [OF L] by simp
qed

lemma image_vector:
  assumes "p < 8"
  shows "((EIGHT_MB + of_nat p * FOUR_MB) AND FOURMB_PAGE_MASK) OR IMAGE_BLANK_VECTOR =
    (push_bit 22 (of_nat (p + 2)) OR 0x87 :: u32)"
proof -
  have "EIGHT_MB + of_nat p * FOUR_MB = (push_bit 22 (of_nat (p + 2)) :: u32)"
    by (simp add: vectors push_bit_eq_mult algebra_simps)
  moreover have "(push_bit 22 w AND 0xFFC00000 :: u32) = push_bit 22 w" for w
    unfolding page_masks by (rule bit_word_eqI) (auto simp: bit_simps)
  ultimately show ?thesis by (simp only: FOURMB_PAGE_MASK_def IMAGE_BLANK_VECTOR_def)
qed

lemma load_new_process_eq:
  assumes "p < 8"
  shows "load_new_process L (of_nat p) s = Some (set_control_registers L 0
    (set_pde 0 32 (push_bit 22 (of_nat (p + 2)) OR 0x87) s))"
proof -
  have "\<not> (of_nat p :: u32) > 7" using assms by (simp add: word_less_nat_alt)
  then show ?thesis using image_vector [OF assms]
    by (simp only: load_new_process_def Let_def if_False)
qed

lemma load_new_process_view:
  assumes "paging_view L s img video" and "layout_ok L" and "p < 8"
    and "load_new_process L (of_nat p) s = Some s'"
  shows "paging_view L s' (Some p) video"
  using assms cr3_frame [of L] unfolding load_new_process_eq [OF assms(3)]
  by (auto simp: paging_view_def kernel_pde_def)

lemma load_video_mem_view:
  assumes "paging_view L s img video" and "layout_ok L"
  shows "paging_view L (load_video_mem L 0 s) img True"
proof -
  have m: "vm_addr L AND FOURKB_PAGE_MASK = vm_addr L"
    using assms(2) by (simp add: vectors table_mask_id layout_ok_def)
  show ?thesis
    using assms cr3_frame [of L]
    by (auto simp: load_video_mem_def Let_def paging_view_def kernel_pde_def m V_M_BLANK_VECTOR_def VIDEO_def)
qed

text \<open>A process number above 7 changes nothing but the screen.\<close>

lemma paging_more_eq:
  "console.more s = console.more t \<Longrightarrow> page_directory_set s = page_directory_set (t :: 'a paging_scheme) \<and>
     page_table s = page_table t \<and> v_m_page_table s = v_m_page_table t \<and>
     cr0 s = cr0 t \<and> cr3 s = cr3 t \<and> cr4 s = cr4 t \<and> paging.more s = paging.more t"
  by (cases s; cases t) simp

lemma load_new_process_invalid:
  assumes "process_num > 7"
  shows "\<exists>s'. load_new_process L process_num s = Some s' \<and>
    paging_view L s' = paging_view L s \<and> paging.more s' = paging.more s"
proof -
  let ?t = "chars ''INVALID PROCESS NUMBER''"
  have "load_new_process L process_num s = Some (fold putc ?t s)"
    using assms printf_plain [of ?t "[]" s] by (simp add: load_new_process_def chars_def)
  moreover have "paging_view L (fold putc ?t s) = paging_view L s"
    using paging_more_eq [OF fold_putc_more [of ?t s]] by (simp add: paging_view_def fun_eq_iff)
  ultimately show ?thesis using paging_more_eq [OF fold_putc_more [of ?t s]] by simp
qed

text \<open>A program reaches its own image and the screen, nothing else.\<close>

lemma reach_user:
  assumes "reach img video True a = Some x"
  shows "(\<exists>p. img = Some p \<and> 0x800000 + 0x400000 * p \<le> x \<and> x < 0x800000 + 0x400000 * Suc p) \<or>
    0xB8000 \<le> x \<and> x < 0xB9000"
  using assms by (auto simp: reach_def split: if_splits)

lemma reach_disjoint:
  assumes "reach (Some p) v True a = Some x" and "reach (Some q) w True b = Some x" and "p \<noteq> q"
  shows "0xB8000 \<le> x \<and> x < 0xB9000"
proof -
  consider "p < q" | "q < p" using assms(3) by linarith
  then show ?thesis using reach_user [OF assms(1)] reach_user [OF assms(2)] by cases auto
qed

text \<open>The image of a program is one stretch of physical memory: a buffer inside it translates
  to consecutive addresses.\<close>

lemma image_contiguous:
  assumes "paging_view L s (Some p) video" and "layout_ok L"
    and "0x8000000 \<le> unat a" and "unat a + n \<le> 0x8400000" and "i < n"
  shows "translate L s user (a + of_nat i) = Some (of_nat (0x800000 + 0x400000 * p + (unat a - 0x8000000)) + of_nat i)"
proof -
  have u: "unat (a + of_nat i) = unat a + i"
    using assms by (simp add: unat_plus_if_size word_size)
  have "map_option unat (translate L s user (a + of_nat i)) =
      Some (0x800000 + 0x400000 * p + (unat a + i - 0x8000000))"
    unfolding translate_reach [OF assms(1,2)] u using assms(3-5) by (simp add: reach_def)
  then obtain x where x: "translate L s user (a + of_nat i) = Some x"
    "unat x = 0x800000 + 0x400000 * p + (unat a - 0x8000000) + i"
    using assms(3) by auto
  have "x = of_nat (unat x)" by simp
  then have "x = of_nat (0x800000 + 0x400000 * p + (unat a - 0x8000000)) + of_nat i"
    by (simp only: x(2) of_nat_add)
  with x(1) show ?thesis by simp
qed

lemma paging_loops_frame:
  assumes "\<And>i j v u. g (set_pde i j v u) = g u" and "\<And>i v u. g (set_pte i v u) = g u"
  shows "g (for_loop a b (\<lambda>i. for_loop c d (\<lambda>j. set_pde i j v)) t) = g t"
    and "g (for_loop a b (\<lambda>i. set_pte i (f i)) t) = g t"
    and "g (for_loop a b (\<lambda>i u. set_pte i (h i u) u) t) = g t"
  by (intro for_loop_frame, simp add: assms for_loop_frame)+

lemma set_frames:
  "mem (set_pte i v s) = mem s" "paging.more (set_pte i v s) = paging.more s"
  "master_mask (set_pte i v s) = master_mask s" "slave_mask (set_pte i v s) = slave_mask s"
  "master_mask (set_pde j i v s) = master_mask s" "slave_mask (set_pde j i v s) = slave_mask s"
  by (simp_all add: set_pte_def set_pde_def)

lemma enable_paging_frame [simp]:
  "mem (enable_paging L s) = mem s" "paging.more (enable_paging L s) = paging.more s"
  "master_mask (enable_paging L s) = master_mask s" "slave_mask (enable_paging L s) = slave_mask s"
  unfolding enable_paging_def Let_def
  by (simp_all add: set_frames paging_loops_frame [where g = mem] paging_loops_frame [where g = paging.more]
      paging_loops_frame [where g = master_mask] paging_loops_frame [where g = slave_mask]
      set_control_registers_def load_registers_def)

end
