(* ===== verification/Lib_Mem.thy ===== *)
theory Lib_Mem
  imports Prelude
begin

text \<open>
  The block operations of \<^verbatim>\<open>student-distrib/lib.c\<close>: the assembly loops of \<open>memset\<close>,
  \<open>memset_word\<close>, \<open>memset_dword\<close>, \<open>memcpy\<close> and \<open>memmove\<close>, register by register on a
  byte-addressed memory, and the proofs that they fill and copy blocks as their headers say.
\<close>

section \<open>memset\<close>

text \<open>\<open>.memset_top\<close>: bytes until \<open>edi\<close> is aligned or \<open>ecx\<close> is zero; gives the memory,
  \<open>ecx\<close> and \<open>edi\<close> it leaves with.\<close>

function memset_top :: "u32 \<Rightarrow> u32 \<Rightarrow> u8 \<Rightarrow> mem \<Rightarrow> mem \<times> u32 \<times> u32" where
  "memset_top ecx edi al m =
     (if ecx = 0 then (m, ecx, edi)
      else if edi AND 3 = 0 then (m, ecx, edi)
      else memset_top (ecx - 1) (edi + 1) al (m(edi := al)))"
  by pat_completeness auto
termination
  by (relation "measure (\<lambda>(ecx, edi, al, m). unat ecx)") (auto simp: unat_gt_0 intro!: measure_unat)

text \<open>\<open>rep stosl\<close> with the direction flag clear: \<open>ecx\<close> words of \<open>eax\<close>.\<close>

function rep_stosl :: "u32 \<Rightarrow> u32 \<Rightarrow> u32 \<Rightarrow> mem \<Rightarrow> mem \<times> u32" where
  "rep_stosl ecx edi eax m =
     (if ecx = 0 then (m, edi) else rep_stosl (ecx - 1) (edi + 4) eax (store32 edi eax m))"
  by pat_completeness auto
termination
  by (relation "measure (\<lambda>(ecx, edi, eax, m). unat ecx)") (auto intro!: measure_unat)

text \<open>\<open>.memset_bottom\<close>: the last \<open>edx\<close> bytes.\<close>

function memset_bottom :: "u32 \<Rightarrow> u32 \<Rightarrow> u8 \<Rightarrow> mem \<Rightarrow> mem" where
  "memset_bottom edx edi al m =
     (if edx = 0 then m else memset_bottom (edx - 1) (edi + 1) al (m(edi := al)))"
  by pat_completeness auto
termination
  by (relation "measure (\<lambda>(edx, edi, al, m). unat edx)") (auto intro!: measure_unat)

declare memset_top.simps [simp del] rep_stosl.simps [simp del] memset_bottom.simps [simp del]

definition memset :: "mem \<Rightarrow> u32 \<Rightarrow> u32 \<Rightarrow> u32 \<Rightarrow> mem" where
  "memset m s c n =
     (let c' = c AND 0xFF;
          eax = push_bit 24 c' OR push_bit 16 c' OR push_bit 8 c' OR c';
          (m1, ecx, edi) = memset_top n s (ucast eax) m
      in if ecx = 0 then m1
         else let edx = ecx AND 3;
                  (m2, edi2) = rep_stosl (drop_bit 2 ecx) edi eax m1
              in memset_bottom edx edi2 (ucast eax) m2)"

text \<open>\<open>rep stosw\<close> and the two routines without the byte loops.\<close>

function rep_stosw :: "u32 \<Rightarrow> u32 \<Rightarrow> u32 \<Rightarrow> mem \<Rightarrow> mem \<times> u32" where
  "rep_stosw ecx edi eax m =
     (if ecx = 0 then (m, edi)
      else rep_stosw (ecx - 1) (edi + 2) eax (m(edi := byte_of 0 eax, edi + 1 := byte_of 1 eax)))"
  by pat_completeness auto
termination
  by (relation "measure (\<lambda>(ecx, edi, eax, m). unat ecx)") (auto intro!: measure_unat)

declare rep_stosw.simps [simp del]

definition memset_word :: "mem \<Rightarrow> u32 \<Rightarrow> u32 \<Rightarrow> u32 \<Rightarrow> mem" where
  "memset_word m s c n = fst (rep_stosw n s c m)"

definition memset_dword :: "mem \<Rightarrow> u32 \<Rightarrow> u32 \<Rightarrow> u32 \<Rightarrow> mem" where
  "memset_dword m s c n = fst (rep_stosl n s c m)"

section \<open>memcpy and memmove\<close>

function memcpy_top :: "u32 \<Rightarrow> u32 \<Rightarrow> u32 \<Rightarrow> mem \<Rightarrow> mem \<times> u32 \<times> u32 \<times> u32" where
  "memcpy_top ecx edi esi m =
     (if ecx = 0 then (m, ecx, edi, esi)
      else if edi AND 3 = 0 then (m, ecx, edi, esi)
      else memcpy_top (ecx - 1) (edi + 1) (esi + 1) (m(edi := m esi)))"
  by pat_completeness auto
termination
  by (relation "measure (\<lambda>(ecx, edi, esi, m). unat ecx)") (auto intro!: measure_unat)

function rep_movsl :: "u32 \<Rightarrow> u32 \<Rightarrow> u32 \<Rightarrow> mem \<Rightarrow> mem \<times> u32 \<times> u32" where
  "rep_movsl ecx edi esi m =
     (if ecx = 0 then (m, edi, esi)
      else rep_movsl (ecx - 1) (edi + 4) (esi + 4) (store32 edi (load32 m esi) m))"
  by pat_completeness auto
termination
  by (relation "measure (\<lambda>(ecx, edi, esi, m). unat ecx)") (auto intro!: measure_unat)

function memcpy_bottom :: "u32 \<Rightarrow> u32 \<Rightarrow> u32 \<Rightarrow> mem \<Rightarrow> mem" where
  "memcpy_bottom edx edi esi m =
     (if edx = 0 then m else memcpy_bottom (edx - 1) (edi + 1) (esi + 1) (m(edi := m esi)))"
  by pat_completeness auto
termination
  by (relation "measure (\<lambda>(edx, edi, esi, m). unat edx)") (auto intro!: measure_unat)

declare memcpy_top.simps [simp del] rep_movsl.simps [simp del] memcpy_bottom.simps [simp del]

definition memcpy :: "mem \<Rightarrow> u32 \<Rightarrow> u32 \<Rightarrow> u32 \<Rightarrow> mem" where
  "memcpy m dest src n =
     (let (m1, ecx, edi, esi) = memcpy_top n dest src m
      in if ecx = 0 then m1
         else let edx = ecx AND 3;
                  (m2, edi2, esi2) = rep_movsl (drop_bit 2 ecx) edi esi m1
              in memcpy_bottom edx edi2 esi2 m2)"

definition copy_to_user :: "mem \<Rightarrow> u32 \<Rightarrow> u32 \<Rightarrow> u32 \<Rightarrow> mem" where
  "copy_to_user m dest src n = memcpy m dest src n"

text \<open>\<open>rep movsb\<close>; \<open>df\<close> is the direction flag.\<close>

function rep_movsb :: "bool \<Rightarrow> u32 \<Rightarrow> u32 \<Rightarrow> u32 \<Rightarrow> mem \<Rightarrow> mem" where
  "rep_movsb df ecx edi esi m =
     (if ecx = 0 then m
      else if df then rep_movsb df (ecx - 1) (edi - 1) (esi - 1) (m(edi := m esi))
      else rep_movsb df (ecx - 1) (edi + 1) (esi + 1) (m(edi := m esi)))"
  by pat_completeness auto
termination
  by (relation "measure (\<lambda>(df, ecx, edi, esi, m). unat ecx)") (auto intro!: measure_unat)

declare rep_movsb.simps [simp del]

text \<open>The routine clears the direction flag, sets it when it has to copy downwards, and leaves
  it as it is then: the second component of the result.\<close>

definition memmove :: "mem \<Rightarrow> u32 \<Rightarrow> u32 \<Rightarrow> u32 \<Rightarrow> mem \<times> bool" where
  "memmove m dest src n =
     (if dest \<le> src then (rep_movsb False n dest src m, False)
      else (rep_movsb True n (dest + n - 1) (src + n - 1) m, True))"

section \<open>Byte order\<close>

lemma unat_byte_of: "k < 4 \<Longrightarrow> unat (byte_of k w) = unat w div 2 ^ (8 * k) mod 256"
  using unat_u32_less [of w]
  by (simp add: byte_of_def unsigned_ucast_eq unsigned_drop_bit_eq) (simp add: drop_bit_eq_div take_bit_eq_mod)

lemma unat_load32: "unat (load32 m a) = unat (m a) + 256 * unat (m (a + 1)) +
     65536 * unat (m (a + 2)) + 16777216 * unat (m (a + 3))"
proof -
  have "unat (m a) + 256 * unat (m (a + 1)) + 65536 * unat (m (a + 2)) + 16777216 * unat (m (a + 3)) < 4294967296"
    using unat_u8_less [of "m a"] unat_u8_less [of "m (a + 1)"] unat_u8_less [of "m (a + 2)"]
      unat_u8_less [of "m (a + 3)"] by linarith
  then show ?thesis unfolding load32_def by (rule unat_of_nat32)
qed

lemma base256_digits:
  assumes "a < 256" "b < 256" "c < 256" "d < (256 :: nat)"
  shows "(a + 256 * b + 65536 * c + 16777216 * d) mod 256 = a"
    and "(a + 256 * b + 65536 * c + 16777216 * d) div 256 mod 256 = b"
    and "(a + 256 * b + 65536 * c + 16777216 * d) div 65536 mod 256 = c"
    and "(a + 256 * b + 65536 * c + 16777216 * d) div 16777216 mod 256 = d"
proof -
  have d: "(a + 256 * b + 65536 * c + 16777216 * d) div 256 = b + 256 * c + 65536 * d"
    "(b + 256 * c + 65536 * d) div 256 = c + 256 * d" "(c + 256 * d) div 256 = d"
    using assms by linarith+
  have e: "x div 65536 = x div 256 div 256" "x div 16777216 = x div 256 div 256 div 256" for x :: nat
    by (simp_all flip: div_mult2_eq)
  have m: "(x + 256 * y) mod 256 = x" if "x < 256" for x y :: nat
    using that by simp
  show "(a + 256 * b + 65536 * c + 16777216 * d) mod 256 = a"
    and "(a + 256 * b + 65536 * c + 16777216 * d) div 256 mod 256 = b"
    and "(a + 256 * b + 65536 * c + 16777216 * d) div 65536 mod 256 = c"
    and "(a + 256 * b + 65536 * c + 16777216 * d) div 16777216 mod 256 = d"
    unfolding e d using assms m [of a "b + 256 * c + 65536 * d"] m [of b "c + 256 * d"] m [of c d]
    by (simp_all add: algebra_simps)
qed

lemma byte_of_load32 [mem_simps]:
  "byte_of 0 (load32 m a) = m a" "byte_of 1 (load32 m a) = m (a + 1)"
  "byte_of 2 (load32 m a) = m (a + 2)" "byte_of 3 (load32 m a) = m (a + 3)"
  using unat_u8_less [of "m a"] unat_u8_less [of "m (a + 1)"] unat_u8_less [of "m (a + 2)"]
      unat_u8_less [of "m (a + 3)"]
  by (simp_all add: word_unat_eq_iff unat_byte_of unat_load32 base256_digits)

text \<open>Storing a word after a block of written bytes extends the block by its four bytes.\<close>

lemma store32_append:
  assumes "length bs + 4 \<le> 4294967296"
  shows "store32 (a + of_nat (length bs)) w (write_bytes a bs m) =
    write_bytes a (bs @ [byte_of 0 w, byte_of 1 w, byte_of 2 w, byte_of 3 w]) m"
proof -
  have "write_bytes a (bs @ [byte_of 0 w, byte_of 1 w, byte_of 2 w, byte_of 3 w]) m =
    write_bytes a ((((bs @ [byte_of 0 w]) @ [byte_of 1 w]) @ [byte_of 2 w]) @ [byte_of 3 w]) m"
    by simp
  also have "\<dots> = store32 (a + of_nat (length bs)) w (write_bytes a bs m)"
    using assms by (simp only: write_bytes_snoc length_append list.size store32_def of_nat_add) (simp add: algebra_simps)
  finally show ?thesis by simp
qed

section \<open>memset fills a block\<close>

text \<open>The three loops extend a block of equal bytes.\<close>

lemma memset_top_fill:
  "k + unat ecx < 4294967296 \<Longrightarrow> edi = s + of_nat k \<Longrightarrow>
    \<exists>j \<le> unat ecx. memset_top ecx edi al (write_bytes s (replicate k al) m) =
      (write_bytes s (replicate (k + j) al) m, ecx - of_nat j, s + of_nat (k + j))"
proof (induction "unat ecx" arbitrary: ecx edi k)
  case 0
  then show ?case by (simp add: memset_top.simps [of 0] unat_eq_0)
next
  case (Suc n)
  note step = unat_pred [OF Suc.hyps(2)]
  show ?case
  proof (cases "edi AND 3 = 0")
    case True
    then show ?thesis using step Suc.prems by (auto simp: memset_top.simps [of ecx] intro!: exI [of _ 0])
  next
    case False
    have w: "(write_bytes s (replicate k al) m)(edi := al) = write_bytes s (replicate (Suc k) al) m"
      using Suc.prems write_bytes_snoc [of "replicate k al" s al m] by (simp flip: replicate_append_same)
    have "n = unat (ecx - 1)" "Suc k + unat (ecx - 1) < 4294967296" "edi + 1 = s + of_nat (Suc k)"
      using step Suc.prems Suc.hyps(2) by auto
    from Suc.hyps(1) [OF this] obtain j where j: "j \<le> unat (ecx - 1)"
      "memset_top (ecx - 1) (edi + 1) al (write_bytes s (replicate (Suc k) al) m) =
        (write_bytes s (replicate (Suc k + j) al) m, ecx - 1 - of_nat j, s + of_nat (Suc k + j))"
      by blast
    then have "memset_top ecx edi al (write_bytes s (replicate k al) m) =
      (write_bytes s (replicate (k + Suc j) al) m, ecx - of_nat (Suc j), s + of_nat (k + Suc j))"
      using False step by (simp add: memset_top.simps [of ecx] w diff_diff_eq add.commute)
    moreover have "Suc j \<le> unat ecx" using j(1) step Suc.hyps(2) by simp
    ultimately show ?thesis by blast
  qed
qed

lemma rep_stosl_fill:
  assumes "byte_of 0 eax = al" "byte_of 1 eax = al" "byte_of 2 eax = al" "byte_of 3 eax = al"
  shows "k + 4 * unat ecx < 4294967296 \<Longrightarrow> edi = s + of_nat k \<Longrightarrow>
    rep_stosl ecx edi eax (write_bytes s (replicate k al) m) =
      (write_bytes s (replicate (k + 4 * unat ecx) al) m, s + of_nat (k + 4 * unat ecx))"
proof (induction "unat ecx" arbitrary: ecx edi k)
  case 0
  then show ?case by (simp add: rep_stosl.simps [of 0] unat_eq_0)
next
  case (Suc n)
  let ?W = "\<lambda>k. write_bytes s (replicate k al) m"
  note step = unat_pred [OF Suc.hyps(2)]
  have "replicate 4 al = [al, al, al, al]" by (simp add: numeral_eq_Suc)
  then have r: "replicate (k + 4) al = replicate k al @ [al, al, al, al]" by (simp only: replicate_add)
  have "length (replicate k al) + 4 \<le> 4294967296" using Suc.prems(1) Suc.hyps(2) by simp
  from store32_append [OF this, of s eax m] have w: "store32 edi eax (?W k) = ?W (k + 4)"
    by (simp only: r Suc.prems(2) length_replicate assms)
  have ih: "n = unat (ecx - 1)" "k + 4 + 4 * unat (ecx - 1) < 4294967296" "edi + 4 = s + of_nat (k + 4)"
    using step Suc.prems Suc.hyps(2) by auto
  have k: "k + 4 + 4 * unat (ecx - 1) = k + 4 * unat ecx" using step Suc.hyps(2) by simp
  have "rep_stosl ecx edi eax (?W k) = rep_stosl (ecx - 1) (edi + 4) eax (?W (k + 4))"
    using step w by (simp add: rep_stosl.simps [of ecx])
  also have "\<dots> = (?W (k + 4 + 4 * unat (ecx - 1)), s + of_nat (k + 4 + 4 * unat (ecx - 1)))"
    by (rule Suc.hyps(1) [OF ih])
  finally show ?case by (simp only: k)
qed

lemma memset_bottom_fill:
  "k + unat edx < 4294967296 \<Longrightarrow> edi = s + of_nat k \<Longrightarrow>
    memset_bottom edx edi al (write_bytes s (replicate k al) m) =
      write_bytes s (replicate (k + unat edx) al) m"
proof (induction "unat edx" arbitrary: edx edi k)
  case 0
  then show ?case by (simp add: memset_bottom.simps [of 0] unat_eq_0)
next
  case (Suc n)
  let ?W = "\<lambda>k. write_bytes s (replicate k al) m"
  note step = unat_pred [OF Suc.hyps(2)]
  have w: "(?W k)(edi := al) = ?W (Suc k)"
    using Suc.prems write_bytes_snoc [of "replicate k al" s al m] by (simp flip: replicate_append_same)
  have ih: "n = unat (edx - 1)" "Suc k + unat (edx - 1) < 4294967296" "edi + 1 = s + of_nat (Suc k)"
    using step Suc.prems Suc.hyps(2) by auto
  have k: "Suc k + unat (edx - 1) = k + unat edx" using step Suc.hyps(2) by simp
  have "memset_bottom edx edi al (?W k) = memset_bottom (edx - 1) (edi + 1) al (?W (Suc k))"
    using step w by (simp add: memset_bottom.simps [of edx])
  also have "\<dots> = ?W (Suc k + unat (edx - 1))"
    by (rule Suc.hyps(1) [OF ih])
  finally show ?case by (simp only: k)
qed

lemma unat_and_3: "unat (x AND 3 :: u32) = unat x mod 4"
proof -
  have "x AND 3 = take_bit 2 x" by (simp add: take_bit_eq_mask mask_eq_exp_minus_1)
  then show ?thesis by (simp add: unsigned_take_bit_eq) (simp add: take_bit_eq_mod)
qed

lemma unat_drop_bit_2: "unat (drop_bit 2 x :: u32) = unat x div 4"
  by (simp add: unsigned_drop_bit_eq) (use unat_u32_less [of x] in \<open>simp add: drop_bit_eq_div take_bit_eq_mod\<close>)

text \<open>The word the routine builds holds the fill byte four times.\<close>

lemma fill_word_bytes:
  fixes c :: u32
  defines "eax \<equiv> push_bit 24 (c AND 0xFF) OR push_bit 16 (c AND 0xFF) OR push_bit 8 (c AND 0xFF) OR (c AND 0xFF)"
  shows "byte_of 0 eax = ucast c" "byte_of 1 eax = ucast c" "byte_of 2 eax = ucast c" "byte_of 3 eax = ucast c"
    "ucast eax = (ucast c :: u8)"
proof -
  have "c AND 0xFF = take_bit 8 c" by (simp add: take_bit_eq_mask mask_eq_exp_minus_1)
  then show "byte_of 0 eax = ucast c" "byte_of 1 eax = ucast c" "byte_of 2 eax = ucast c" "byte_of 3 eax = ucast c"
    "ucast eax = (ucast c :: u8)"
    unfolding eax_def byte_of_def by (simp_all only:) (rule bit_word_eqI; auto simp: bit_simps)+
qed

lemma memset_fill: "memset m s c n = write_bytes s (replicate (unat n) (ucast c)) m"
proof -
  define eax where "eax = push_bit 24 (c AND 0xFF) OR push_bit 16 (c AND 0xFF) OR push_bit 8 (c AND 0xFF) OR (c AND 0xFF)"
  let ?al = "ucast c :: u8"
  note eax = fill_word_bytes [of c, folded eax_def]
  obtain j where j: "j \<le> unat n" "memset_top n s ?al m =
      (write_bytes s (replicate j ?al) m, n - of_nat j, s + of_nat j)"
    using memset_top_fill [of 0 n s s ?al m] unat_u32_less [of n] by auto
  have ecx: "unat (n - of_nat j) = unat n - j"
    using j(1) unat_u32_less [of n] by (subst unat_sub) (auto simp: word_le_nat_alt)
  show ?thesis
  proof (cases "n - of_nat j = 0")
    case True
    with ecx j(1) have "j = unat n" by simp
    then show ?thesis using True j unfolding memset_def Let_def eax_def [symmetric] by (simp add: eax)
  next
    case False
    let ?k = "j + 4 * ((unat n - j) div 4)"
    have k: "?k \<le> unat n" "?k + (unat n - j) mod 4 = unat n" using j(1) by auto
    have "rep_stosl (drop_bit 2 (n - of_nat j)) (s + of_nat j) eax (write_bytes s (replicate j ?al) m) =
        (write_bytes s (replicate ?k ?al) m, s + of_nat ?k)"
      using rep_stosl_fill [OF eax(1-4), of j "drop_bit 2 (n - of_nat j)" "s + of_nat j" s m]
        k unat_u32_less [of n] by (simp add: unat_drop_bit_2 ecx)
    moreover have "memset_bottom ((n - of_nat j) AND 3) (s + of_nat ?k) ?al (write_bytes s (replicate ?k ?al) m) =
        write_bytes s (replicate (unat n) ?al) m"
      using memset_bottom_fill [of ?k "(n - of_nat j) AND 3" "s + of_nat ?k" s ?al m]
        k unat_u32_less [of n] by (simp add: unat_and_3 ecx)
    ultimately show ?thesis
      using False j unfolding memset_def Let_def eax_def [symmetric] by (simp add: eax)
  qed
qed

section \<open>memcpy copies a block\<close>

text \<open>
  A copy that runs upwards is right unless the destination starts strictly inside the source
  block: then it would overwrite bytes it has still to read.
\<close>

definition upward_ok :: "u32 \<Rightarrow> u32 \<Rightarrow> nat \<Rightarrow> bool" where
  "upward_ok d s n \<longleftrightarrow> d = s \<or> n \<le> unat (d - s)"

text \<open>The state of a copy after \<open>k\<close> bytes.\<close>

definition copied :: "mem \<Rightarrow> u32 \<Rightarrow> u32 \<Rightarrow> nat \<Rightarrow> mem" where
  "copied m d s k = write_bytes d (bytes_at m s k) m"

lemma bytes_at_Suc: "bytes_at m s (Suc k) = bytes_at m s k @ [m (s + of_nat k)]"
  by (simp add: bytes_at_def)

lemma copied_0 [simp]: "copied m d s 0 = m"
  by (simp add: copied_def bytes_at_def)

lemma copied_Suc: "k < 4294967296 \<Longrightarrow> (copied m d s k)(d + of_nat k := m (s + of_nat k)) = copied m d s (Suc k)"
  using write_bytes_snoc [of "bytes_at m s k" d "m (s + of_nat k)" m]
  by (simp add: copied_def bytes_at_Suc)

lemma copied_read:
  assumes "upward_ok d s n" and "k \<le> i" and "i < n" and "n < 4294967296"
  shows "copied m d s k (s + of_nat i) = m (s + of_nat i)"
proof -
  have "k \<le> unat (s + of_nat i - d)"
  proof (cases "d = s")
    case True
    then show ?thesis using assms by simp
  next
    case False
    then have le: "n \<le> unat (d - s)" using assms(1) by (simp add: upward_ok_def)
    have "s + of_nat i - d = (of_nat (4294967296 + i - unat (d - s)) :: u32)"
    proof -
      have "unat (d - s) \<le> 4294967296 + i" using unat_u32_less [of "d - s"] by simp
      then have "(of_nat (4294967296 + i - unat (d - s)) :: u32) = of_nat 4294967296 + of_nat i - (d - s)"
        by (simp add: of_nat_diff)
      then show ?thesis by simp
    qed
    moreover have "4294967296 + i - unat (d - s) < 4294967296"
      using le assms(3) by linarith
    ultimately have "unat (s + of_nat i - d) = 4294967296 + i - unat (d - s)" by simp
    then show ?thesis using unat_u32_less [of "d - s"] assms(2) by linarith
  qed
  then show ?thesis by (simp add: copied_def write_bytes_def in_region_def)
qed

lemma memcpy_top_copied:
  assumes ok: "upward_ok d s n" "n < 4294967296"
  shows "k + unat ecx = n \<Longrightarrow>
    \<exists>j \<le> unat ecx. memcpy_top ecx (d + of_nat k) (s + of_nat k) (copied m d s k) =
      (copied m d s (k + j), ecx - of_nat j, d + of_nat (k + j), s + of_nat (k + j))"
proof (induction "unat ecx" arbitrary: ecx k)
  case 0
  then show ?case by (simp add: memcpy_top.simps [of 0] unat_eq_0)
next
  case (Suc i)
  note step = unat_pred [OF Suc.hyps(2)]
  show ?case
  proof (cases "(d + of_nat k) AND 3 = 0")
    case True
    then show ?thesis using step by (auto simp: memcpy_top.simps [of ecx] intro!: exI [of _ 0])
  next
    case False
    have k: "k < n" "k < 4294967296" using Suc.prems Suc.hyps(2) ok(2) by auto
    have ih: "i = unat (ecx - 1)" "Suc k + unat (ecx - 1) = n"
      using step Suc.prems Suc.hyps(2) by auto
    from Suc.hyps(1) [OF ih] obtain j where j: "j \<le> unat (ecx - 1)"
      "memcpy_top (ecx - 1) (d + of_nat (Suc k)) (s + of_nat (Suc k)) (copied m d s (Suc k)) =
        (copied m d s (Suc k + j), ecx - 1 - of_nat j, d + of_nat (Suc k + j), s + of_nat (Suc k + j))"
      by blast
    then have "memcpy_top ecx (d + of_nat k) (s + of_nat k) (copied m d s k) =
      (copied m d s (k + Suc j), ecx - of_nat (Suc j), d + of_nat (k + Suc j), s + of_nat (k + Suc j))"
      using False step copied_read [OF ok(1) order_refl k(1) ok(2), of m] copied_Suc [OF k(2), of m d s]
      by (simp add: memcpy_top.simps [of ecx] diff_diff_eq add.assoc add.commute [of 1])
    moreover have "Suc j \<le> unat ecx" using j(1) step Suc.hyps(2) by simp
    ultimately show ?thesis by blast
  qed
qed

lemma store32_load32_copied:
  assumes ok: "upward_ok d s n" "n < 4294967296" and k: "k + 4 \<le> n"
  shows "store32 (d + of_nat k) (load32 (copied m d s k) (s + of_nat k)) (copied m d s k) = copied m d s (k + 4)"
proof -
  have rd: "copied m d s k (s + of_nat (k + i)) = m (s + of_nat (k + i))" if "i < 4" for i
    using copied_read [OF ok(1) _ _ ok(2), of k "k + i" m] that k by simp
  have "copied m d s (k + 4) = copied m d s (Suc (Suc (Suc (Suc k))))" by (simp add: numeral_eq_Suc)
  then have "copied m d s (k + 4) = (copied m d s k)(d + of_nat k := m (s + of_nat k),
      d + of_nat (Suc k) := m (s + of_nat (Suc k)), d + of_nat (Suc (Suc k)) := m (s + of_nat (Suc (Suc k))),
      d + of_nat (Suc (Suc (Suc k))) := m (s + of_nat (Suc (Suc (Suc k)))))"
    using ok(2) k by (simp only: copied_Suc [symmetric]) 
  then show ?thesis
    using rd [of 0] rd [of 1] rd [of 2] rd [of 3]
    by (simp add: store32_def byte_of_load32 byte_of_load32(2) [simplified] add_ac)
qed

lemma rep_movsl_copied:
  assumes ok: "upward_ok d s n" "n < 4294967296"
  shows "k + 4 * unat ecx \<le> n \<Longrightarrow>
    rep_movsl ecx (d + of_nat k) (s + of_nat k) (copied m d s k) =
      (copied m d s (k + 4 * unat ecx), d + of_nat (k + 4 * unat ecx), s + of_nat (k + 4 * unat ecx))"
proof (induction "unat ecx" arbitrary: ecx k)
  case 0
  then show ?case by (simp add: rep_movsl.simps [of 0] unat_eq_0)
next
  case (Suc i)
  note step = unat_pred [OF Suc.hyps(2)]
  have k4: "k + 4 \<le> n" using Suc.prems Suc.hyps(2) by simp
  have ih: "i = unat (ecx - 1)" "k + 4 + 4 * unat (ecx - 1) \<le> n"
    using step Suc.prems Suc.hyps(2) by auto
  have k: "k + 4 + 4 * unat (ecx - 1) = k + 4 * unat ecx" using step Suc.hyps(2) by simp
  have e: "d + of_nat k + 4 = d + of_nat (k + 4)" "s + of_nat k + 4 = s + of_nat (k + 4)" by simp_all
  have "rep_movsl ecx (d + of_nat k) (s + of_nat k) (copied m d s k) =
      rep_movsl (ecx - 1) (d + of_nat (k + 4)) (s + of_nat (k + 4)) (copied m d s (k + 4))"
    by (subst rep_movsl.simps) (simp only: step store32_load32_copied [OF ok k4] e if_False)
  also have "\<dots> = (copied m d s (k + 4 + 4 * unat (ecx - 1)),
      d + of_nat (k + 4 + 4 * unat (ecx - 1)), s + of_nat (k + 4 + 4 * unat (ecx - 1)))"
    by (rule Suc.hyps(1) [OF ih])
  finally show ?case by (simp only: k)
qed

lemma memcpy_bottom_copied:
  assumes ok: "upward_ok d s n" "n < 4294967296"
  shows "k + unat edx = n \<Longrightarrow>
    memcpy_bottom edx (d + of_nat k) (s + of_nat k) (copied m d s k) = copied m d s n"
proof (induction "unat edx" arbitrary: edx k)
  case 0
  then show ?case by (simp add: memcpy_bottom.simps [of 0] unat_eq_0)
next
  case (Suc i)
  note step = unat_pred [OF Suc.hyps(2)]
  have k: "k < n" "k < 4294967296" using Suc.prems Suc.hyps(2) ok(2) by auto
  have ih: "i = unat (edx - 1)" "Suc k + unat (edx - 1) = n"
    using step Suc.prems Suc.hyps(2) by auto
  have e: "d + of_nat k + 1 = d + of_nat (Suc k)" "s + of_nat k + 1 = s + of_nat (Suc k)" by simp_all
  have "memcpy_bottom edx (d + of_nat k) (s + of_nat k) (copied m d s k) =
      memcpy_bottom (edx - 1) (d + of_nat (Suc k)) (s + of_nat (Suc k)) (copied m d s (Suc k))"
    by (subst memcpy_bottom.simps)
      (simp only: step copied_read [OF ok(1) order_refl k(1) ok(2)] copied_Suc [OF k(2)] e if_False)
  also have "\<dots> = copied m d s n" by (rule Suc.hyps(1) [OF ih])
  finally show ?case .
qed

lemma memcpy_copies:
  assumes "upward_ok d s (unat n)"
  shows "memcpy m d s n = write_bytes d (bytes_at m s (unat n)) m"
proof -
  note ok = assms unat_u32_less [of n]
  obtain j where j: "j \<le> unat n"
    "memcpy_top n d s m = (copied m d s j, n - of_nat j, d + of_nat j, s + of_nat j)"
    using memcpy_top_copied [OF ok, of 0 n m] by auto
  have ecx: "unat (n - of_nat j) = unat n - j"
    using j(1) unat_u32_less [of n] by (subst unat_sub) (auto simp: word_le_nat_alt)
  have "memcpy m d s n = copied m d s (unat n)"
  proof (cases "n - of_nat j = 0")
    case True
    with ecx j(1) have "j = unat n" by simp
    then show ?thesis using True j by (simp add: memcpy_def)
  next
    case False
    let ?k = "j + 4 * ((unat n - j) div 4)"
    have k: "?k \<le> unat n" "?k + (unat n - j) mod 4 = unat n" using j(1) by auto
    have "rep_movsl (drop_bit 2 (n - of_nat j)) (d + of_nat j) (s + of_nat j) (copied m d s j) =
        (copied m d s ?k, d + of_nat ?k, s + of_nat ?k)"
      using rep_movsl_copied [OF ok, of j "drop_bit 2 (n - of_nat j)" m] k
      by (simp add: unat_drop_bit_2 ecx)
    moreover have "memcpy_bottom ((n - of_nat j) AND 3) (d + of_nat ?k) (s + of_nat ?k) (copied m d s ?k) =
        copied m d s (unat n)"
      using memcpy_bottom_copied [OF ok, of ?k "(n - of_nat j) AND 3" m] k
      by (simp add: unat_and_3 ecx)
    ultimately show ?thesis using False j by (simp add: memcpy_def)
  qed
  then show ?thesis by (simp add: copied_def)
qed

section \<open>memmove copies overlapping blocks\<close>

lemma rep_movsb_up:
  assumes ok: "upward_ok d s n" "n < 4294967296"
  shows "k + unat ecx = n \<Longrightarrow>
    rep_movsb False ecx (d + of_nat k) (s + of_nat k) (copied m d s k) = copied m d s n"
proof (induction "unat ecx" arbitrary: ecx k)
  case 0
  then show ?case by (simp add: rep_movsb.simps [of False 0] unat_eq_0)
next
  case (Suc i)
  note step = unat_pred [OF Suc.hyps(2)]
  have k: "k < n" "k < 4294967296" using Suc.prems Suc.hyps(2) ok(2) by auto
  have ih: "i = unat (ecx - 1)" "Suc k + unat (ecx - 1) = n"
    using step Suc.prems Suc.hyps(2) by auto
  have e: "d + of_nat k + 1 = d + of_nat (Suc k)" "s + of_nat k + 1 = s + of_nat (Suc k)" by simp_all
  have "rep_movsb False ecx (d + of_nat k) (s + of_nat k) (copied m d s k) =
      rep_movsb False (ecx - 1) (d + of_nat (Suc k)) (s + of_nat (Suc k)) (copied m d s (Suc k))"
    by (subst rep_movsb.simps)
      (simp only: step copied_read [OF ok(1) order_refl k(1) ok(2)] copied_Suc [OF k(2)] e if_False)
  also have "\<dots> = copied m d s n" by (rule Suc.hyps(1) [OF ih])
  finally show ?case .
qed

text \<open>Downwards, the bytes from index \<open>k\<close> on have been copied.\<close>

lemma copied_front:
  assumes "0 < k" and "k \<le> n" and "n < 4294967296"
  shows "(copied m (d + of_nat k) (s + of_nat k) (n - k))(d + of_nat (k - 1) := m (s + of_nat (k - 1))) =
    copied m (d + of_nat (k - 1)) (s + of_nat (k - 1)) (n - (k - 1))"
proof -
  have nk: "n - (k - 1) = Suc (n - k)" using assms by simp
  have e: "a + of_nat k = a + of_nat (k - 1) + (1 :: u32)" for a
    using assms(1) by (cases k) simp_all
  have "bytes_at m (s + of_nat (k - 1)) (Suc (n - k)) = m (s + of_nat (k - 1)) # bytes_at m (s + of_nat k) (n - k)"
    unfolding bytes_at_def e by (subst upt_conv_Cons) (simp_all add: map_Suc_upt [symmetric] add_ac del: upt_Suc)
  then show ?thesis
    using assms(3) unfolding copied_def nk e [of d]
    by (simp add: write_bytes_Cons)
qed

lemma copied_read_down:
  assumes "unat s + n \<le> 4294967296" and "unat d + n \<le> 4294967296" and "s < d" and "i < k" and "k \<le> n"
  shows "copied m (d + of_nat k) (s + of_nat k) (n - k) (s + of_nat i) = m (s + of_nat i)"
proof (cases "k = n")
  case False
  then have "k < n" using assms(5) by simp
  then have "unat (s + of_nat i) = unat s + i" "unat (d + of_nat k) = unat d + k"
    using assms by (auto simp: unat_plus_if_size word_size)
  moreover have "unat s < unat d" using assms(3) by (simp add: word_less_nat_alt)
  ultimately have "\<not> in_region (d + of_nat k) (n - k) (s + of_nat i)"
    using assms by (subst in_region_nowrap) auto
  then show ?thesis by (simp add: copied_def write_bytes_outside)
qed simp

lemma rep_movsb_down:
  assumes ok: "unat s + n \<le> 4294967296" "unat d + n \<le> 4294967296" "s < d"
  shows "unat ecx = k \<Longrightarrow> k \<le> n \<Longrightarrow>
    rep_movsb True ecx (d + of_nat k - 1) (s + of_nat k - 1) (copied m (d + of_nat k) (s + of_nat k) (n - k)) =
      copied m d s n"
proof (induction k arbitrary: ecx)
  case 0
  then show ?case by (simp add: rep_movsb.simps [of True 0] unat_eq_0)
next
  case (Suc k)
  have "n < 4294967296" using ok word_less_nat_alt [of s d] by simp
  note fr = copied_front [OF _ Suc.prems(2) this, of m d s]
  note rd = copied_read_down [OF ok _ Suc.prems(2), of k m]
  have pred: "unat (ecx - 1) = k" "ecx \<noteq> 0" using unat_pred [OF Suc.prems(1) [symmetric]] by auto
  have e: "a + of_nat (Suc k) - 1 = a + of_nat k" for a :: u32 by simp
  have "rep_movsb True ecx (d + of_nat (Suc k) - 1) (s + of_nat (Suc k) - 1)
      (copied m (d + of_nat (Suc k)) (s + of_nat (Suc k)) (n - Suc k)) =
    rep_movsb True (ecx - 1) (d + of_nat k - 1) (s + of_nat k - 1) (copied m (d + of_nat k) (s + of_nat k) (n - k))"
    using fr rd pred(2) by (subst rep_movsb.simps) (simp add: e del: of_nat_Suc)
  also have "\<dots> = copied m d s n" using Suc.IH [OF pred(1)] Suc.prems(2) by simp
  finally show ?case .
qed

definition no_wrap :: "u32 \<Rightarrow> u32 \<Rightarrow> nat \<Rightarrow> bool" where
  "no_wrap d s n \<longleftrightarrow> unat d + n \<le> 4294967296 \<and> unat s + n \<le> 4294967296"

lemma no_wrap_upward: "no_wrap d s n \<Longrightarrow> d \<le> s \<Longrightarrow> upward_ok d s n"
  using unat_u32_less [of s]
  by (auto simp: no_wrap_def upward_ok_def unat_sub_if_size word_size word_le_nat_alt word_unat_eq_iff)

lemma memmove_copies:
  assumes "no_wrap d s (unat n)"
  shows "fst (memmove m d s n) = write_bytes d (bytes_at m s (unat n)) m"
proof (cases "d \<le> s")
  case True
  then show ?thesis
    using rep_movsb_up [OF no_wrap_upward [OF assms True] unat_u32_less, of 0 n m]
    by (simp add: memmove_def flip: copied_def)
next
  case False
  then have "rep_movsb True n (d + n - 1) (s + n - 1) (copied m (d + n) (s + n) 0) = copied m d s (unat n)"
    using assms rep_movsb_down [of s "unat n" d n "unat n" m] by (simp add: no_wrap_def)
  with False show ?thesis by (simp add: memmove_def flip: copied_def)
qed

section \<open>The contract of a block copy\<close>

text \<open>
  What the kernel uses of a copy routine: on the operands it is made for, the destination
  block becomes the source block as it was and nothing else changes.
\<close>

locale block_copy =
  fixes copy :: "mem \<Rightarrow> u32 \<Rightarrow> u32 \<Rightarrow> u32 \<Rightarrow> mem"
    and ok :: "u32 \<Rightarrow> u32 \<Rightarrow> nat \<Rightarrow> bool"
  assumes copy_eq: "ok d s (unat n) \<Longrightarrow> copy m d s n = write_bytes d (bytes_at m s (unat n)) m"
begin

lemma copy_block: "ok d s (unat n) \<Longrightarrow> bytes_at (copy m d s n) d (unat n) = bytes_at m s (unat n)"
  using unat_u32_less [of n] by (simp add: copy_eq mem_simps)

lemma copy_outside: "ok d s (unat n) \<Longrightarrow> \<not> in_region d (unat n) x \<Longrightarrow> copy m d s n x = m x"
  by (simp add: copy_eq mem_simps)

text \<open>A block saved to another place, and copied back later, is the block that was saved,
  provided the place still holds it.\<close>

lemma save_restore:
  assumes "ok d s (unat n)" and "ok s d (unat n)"
    and "bytes_at m' d (unat n) = bytes_at (copy m d s n) d (unat n)"
  shows "bytes_at (copy m' s d n) s (unat n) = bytes_at m s (unat n)"
  using assms by (simp add: copy_block)

end

interpretation cpy: block_copy memcpy upward_ok
  by unfold_locales (rule memcpy_copies)

interpretation mov: block_copy "\<lambda>m d s n. fst (memmove m d s n)" no_wrap
  by unfold_locales (rule memmove_copies)

interpretation usr: block_copy copy_to_user upward_ok
  by unfold_locales (simp add: copy_to_user_def memcpy_copies)

section \<open>memcpy stays in its destination\<close>

lemma in_region_part:
  assumes "in_region (a + of_nat k) j x" and "k + j \<le> n" and "n \<le> 4294967296"
  shows "in_region a n x"
proof -
  have "x - a = of_nat (unat (x - (a + of_nat k)) + k)" by simp
  then have "unat (x - a) = (unat (x - (a + of_nat k)) + k) mod 2 ^ 32" by (simp only: unat_of_nat) simp
  then have "unat (x - a) \<le> unat (x - (a + of_nat k)) + k" by (simp add: mod_le_divisor)
  then show ?thesis using assms by (simp add: in_region_def)
qed

lemma memcpy_top_frame:
  "case memcpy_top n d e m of (m1, c1, d1, s1) \<Rightarrow>
     c1 \<le> n \<and> d1 = d + of_nat (unat n - unat c1) \<and> (\<forall>x. \<not> in_region d (unat n - unat c1) x \<longrightarrow> m1 x = m x)"
proof (induction n d e m rule: memcpy_top.induct)
  case (1 n d e m)
  show ?case
  proof (cases "n = 0 \<or> d AND 3 = 0")
    case False
    obtain m1 c1 d1 s1 where r: "memcpy_top (n - 1) (d + 1) (e + 1) (m(d := m e)) = (m1, c1, d1, s1)"
      by (metis prod_cases4)
    have IH: "c1 \<le> n - 1" "d1 = d + 1 + of_nat (unat (n - 1) - unat c1)"
      "\<forall>x. \<not> in_region (d + 1) (unat (n - 1) - unat c1) x \<longrightarrow> m1 x = (m(d := m e)) x"
      using "1.IH" [unfolded r prod.case] False by blast+
    have u: "unat (n - 1) = unat n - 1" "0 < unat n" using False unat_minus_one [of n] by (auto simp: unat_gt_0)
    have c: "unat c1 \<le> unat n - 1" using IH(1) u by (simp add: word_le_nat_alt)
    have en: "unat n - unat c1 = Suc (unat (n - 1) - unat c1)" using c u by simp
    have small: "unat n - unat c1 \<le> 4294967296" using unat_u32_less [of n] by linarith
    have "m1 x = m x" if x: "\<not> in_region d (unat n - unat c1) x" for x
    proof -
      have "x \<noteq> d" using x en by (auto simp: in_region_def)
      moreover have "\<not> in_region (d + 1) (unat (n - 1) - unat c1) x"
        using x in_region_part [of d 1 "unat (n - 1) - unat c1" x "unat n - unat c1"] en small by auto
      ultimately show ?thesis using IH(3) by simp
    qed
    moreover have "d1 = d + of_nat (unat n - unat c1)" unfolding IH(2) en by simp
    moreover have "c1 \<le> n" using c by (simp add: word_le_nat_alt)
    moreover have "memcpy_top n d e m = (m1, c1, d1, s1)" unfolding r [symmetric] using False
      by (subst memcpy_top.simps) (simp only: de_Morgan_disj if_False)
    ultimately show ?thesis by simp
  qed (auto simp: memcpy_top.simps [of n])
qed

lemma store32_frame: "\<not> in_region a 4 x \<Longrightarrow> store32 a w m x = m x"
  by (auto simp: store32_def in_region_def)

lemma rep_movsl_frame:
  "4 * unat n \<le> 4294967296 \<Longrightarrow> case rep_movsl n d e m of (m1, d1, s1) \<Rightarrow>
     d1 = d + of_nat (4 * unat n) \<and> (\<forall>x. \<not> in_region d (4 * unat n) x \<longrightarrow> m1 x = m x)"
proof (induction n d e m rule: rep_movsl.induct)
  case (1 n d e m)
  show ?case
  proof (cases "n = 0")
    case False
    have u: "unat (n - 1) = unat n - 1" "0 < unat n" using False unat_minus_one [of n] by (auto simp: unat_gt_0)
    obtain m1 d1 s1 where r: "rep_movsl (n - 1) (d + 4) (e + 4) (store32 d (load32 m e) m) = (m1, d1, s1)"
      by (metis prod_cases3)
    have IH: "d1 = d + 4 + of_nat (4 * unat (n - 1))"
      "\<forall>x. \<not> in_region (d + 4) (4 * unat (n - 1)) x \<longrightarrow> m1 x = store32 d (load32 m e) m x"
      using "1.IH" [OF False] "1.prems" u r by auto
    have en: "4 * unat n = 4 + 4 * unat (n - 1)" using u by simp
    have "m1 x = m x" if x: "\<not> in_region d (4 * unat n) x" for x
    proof -
      have "\<not> in_region d 4 x" using x u by (auto simp: in_region_def)
      moreover have "\<not> in_region (d + 4) (4 * unat (n - 1)) x"
        using x en in_region_part [of d 4 "4 * unat (n - 1)" x "4 * unat n"] "1.prems" by auto
      ultimately show ?thesis using IH(2) store32_frame by simp
    qed
    moreover have "d1 = d + of_nat (4 * unat n)" unfolding IH(1) en by simp
    moreover have "rep_movsl n d e m = (m1, d1, s1)" using r False by (simp add: rep_movsl.simps [of n])
    ultimately show ?thesis by simp
  qed (simp add: rep_movsl.simps [of 0])
qed

lemma memcpy_bottom_frame:
  "\<forall>x. \<not> in_region d (unat n) x \<longrightarrow> memcpy_bottom n d e m x = m x"
proof (induction n d e m rule: memcpy_bottom.induct)
  case (1 n d e m)
  show ?case
  proof (cases "n = 0")
    case False
    have u: "unat (n - 1) = unat n - 1" "0 < unat n" using False unat_minus_one [of n] by (auto simp: unat_gt_0)
    show ?thesis
    proof (intro allI impI)
      fix x assume x: "\<not> in_region d (unat n) x"
      have "x \<noteq> d" using x u by (auto simp: in_region_def)
      moreover have "\<not> in_region (d + 1) (unat (n - 1)) x"
        using x u in_region_part [of d 1 "unat (n - 1)" x "unat n"] unat_u32_less [of n] by auto
      moreover have "memcpy_bottom n d e m = memcpy_bottom (n - 1) (d + 1) (e + 1) (m(d := m e))"
        using False by (subst memcpy_bottom.simps) (simp only: if_False)
      ultimately show "memcpy_bottom n d e m x = m x" using "1.IH" [OF False] by (simp only: fun_upd_other simp_thms)
    qed
  qed (simp add: memcpy_bottom.simps [of 0])
qed

lemma memcpy_frame:
  assumes x: "\<not> in_region d (unat n) x"
  shows "memcpy m d e n x = m x"
proof -
  obtain m1 c d1 e1 where t: "memcpy_top n d e m = (m1, c, d1, e1)" by (metis prod_cases4)
  have t1: "c \<le> n" "d1 = d + of_nat (unat n - unat c)" "\<forall>x. \<not> in_region d (unat n - unat c) x \<longrightarrow> m1 x = m x"
    using memcpy_top_frame [where n = n and d = d and e = e and m = m] t by auto
  have c: "unat c \<le> unat n" "unat n \<le> 4294967296" using t1(1) unat_u32_less [of n] by (simp_all add: word_le_nat_alt)
  have m1: "m1 x = m x" using t1(3) x by (auto simp: in_region_def)
  show ?thesis
  proof (cases "c = 0")
    case False
    define q where "q = unat (drop_bit 2 c)"
    have q: "q = unat c div 4" by (simp add: q_def unat_div drop_bit_eq_div)
    have r3: "unat (c AND 3) = unat c mod 4"
    proof -
      have "c AND 3 = take_bit 2 c" by (simp add: take_bit_eq_mask mask_eq_exp_minus_1)
      then show ?thesis by (simp add: unat_mod take_bit_eq_mod)
    qed
    obtain m2 d2 e2 where r: "rep_movsl (drop_bit 2 c) d1 e1 m1 = (m2, d2, e2)" by (metis prod_cases3)
    have q4: "4 * unat (drop_bit 2 c) \<le> 4294967296" using q c by (simp add: q_def [symmetric])
    have m2: "d2 = d1 + of_nat (4 * q)" "\<forall>x. \<not> in_region d1 (4 * q) x \<longrightarrow> m2 x = m1 x"
      using rep_movsl_frame [OF q4, where d = d1 and e = e1 and m = m1] r by (simp_all add: q_def)
    have sum: "4 * q + unat (c AND 3) = unat c" using q r3 by simp
    have parts: "unat n - unat c + 4 * q \<le> unat n" "unat n - unat c + 4 * q + unat (c AND 3) \<le> unat n"
      using sum c(1) by linarith+
    have "\<not> in_region d1 (4 * q) x" unfolding t1(2) using x in_region_part [OF _ parts(1) c(2)] by blast
    moreover have "\<not> in_region d2 (unat (c AND 3)) x"
    proof -
      have "d2 = d + of_nat (unat n - unat c + 4 * q)" unfolding m2(1) t1(2) by (simp add: add.assoc)
      then show ?thesis using x in_region_part [OF _ parts(2) c(2), of d x] by (simp only:) blast
    qed
    ultimately show ?thesis
      using False m1 m2(2) memcpy_bottom_frame by (simp add: memcpy_def t r)
  qed (simp add: memcpy_def t m1)
qed

end
