(* ===== verification/Fs_Spec.thy ===== *)
theory Fs_Spec
  imports Filesys
begin

text \<open>
  What a file system image contains, and that the code of \<^verbatim>\<open>filesysobjs.c\<close> reads it. The
  abstract view of a file is its list of bytes, of the directory its list of names; the
  operations implement \<open>take\<close>, \<open>drop\<close> and \<open>!\<close> on them.
\<close>

section \<open>Files as byte lists\<close>

definition inodes_of :: "mem \<Rightarrow> u32 \<Rightarrow> u32" where
  "inodes_of m fs = load32 m (fs + 4)"

definition node_addr :: "u32 \<Rightarrow> u32 \<Rightarrow> u32" where
  "node_addr fs inode = fs + 4096 + inode * 4096"

definition file_len :: "mem \<Rightarrow> u32 \<Rightarrow> u32 \<Rightarrow> nat" where
  "file_len m fs inode = unat (load32 m (node_addr fs inode))"

definition ptr_addr :: "u32 \<Rightarrow> u32 \<Rightarrow> nat \<Rightarrow> u32" where
  "ptr_addr fs inode j = node_addr fs inode + of_nat (4 * Suc j)"

definition block_no :: "mem \<Rightarrow> u32 \<Rightarrow> u32 \<Rightarrow> nat \<Rightarrow> u32" where
  "block_no m fs inode j = load32 m (ptr_addr fs inode j)"

definition data_addr :: "mem \<Rightarrow> u32 \<Rightarrow> u32 \<Rightarrow> nat \<Rightarrow> u32" where
  "data_addr m fs inode p = block_at m fs (inodes_of m fs) (ptr_addr fs inode (p div 4096)) + of_nat (p mod 4096)"

definition contents :: "mem \<Rightarrow> u32 \<Rightarrow> u32 \<Rightarrow> u8 list" where
  "contents m fs inode = map (\<lambda>p. m (data_addr m fs inode p)) [0..<file_len m fs inode]"

text \<open>The inode is one of the image, and the blocks of its file lie in the image, which
  occupies \<open>extent\<close> bytes.\<close>

definition wf_file :: "mem \<Rightarrow> u32 \<Rightarrow> nat \<Rightarrow> u32 \<Rightarrow> bool" where
  "wf_file m fs extent inode \<longleftrightarrow>
     unat fs + extent \<le> 4294967296 \<and>
     4096 * (1 + unat (inodes_of m fs) + unat (load32 m (fs + 8))) \<le> extent \<and>
     inode < inodes_of m fs \<and>
     file_len m fs inode \<le> 4096 * 1023 \<and>
     (\<forall>j < 1023. 4096 * j < file_len m fs inode \<longrightarrow> block_no m fs inode j < load32 m (fs + 8))"

definition disjoint_region :: "u32 \<Rightarrow> nat \<Rightarrow> u32 \<Rightarrow> nat \<Rightarrow> bool" where
  "disjoint_region a n b k \<longleftrightarrow> (\<forall>x. in_region a n x \<longrightarrow> \<not> in_region b k x)"

lemma length_contents [simp]: "length (contents m fs inode) = file_len m fs inode"
  by (simp add: contents_def)

lemma in_region_offset: "k < n \<Longrightarrow> n \<le> 4294967296 \<Longrightarrow> in_region a n (a + of_nat k)"
  by (simp add: in_region_def)

lemma ptr_in_image:
  assumes "wf_file m fs extent inode" and "j < 1023" and "b < 4"
  shows "in_region fs extent (ptr_addr fs inode j + of_nat b)"
proof -
  have inode: "unat inode + 1 \<le> unat (inodes_of m fs)" "4096 * (1 + unat (inodes_of m fs)) \<le> extent" "extent \<le> 4294967296"
    using assms(1) by (auto simp: wf_file_def word_less_nat_alt)
  have "ptr_addr fs inode j + of_nat b = fs + of_nat (4096 + unat inode * 4096 + 4 * Suc j + b)"
    by (simp add: ptr_addr_def node_addr_def)
  moreover have "4096 + unat inode * 4096 + 4 * Suc j + b < extent"
    using inode assms(2,3) by simp
  ultimately show ?thesis using inode(3) by (simp only: in_region_offset)
qed

lemma data_in_image:
  assumes "wf_file m fs extent inode" and "p < file_len m fs inode"
  shows "in_region fs extent (data_addr m fs inode p)"
proof -
  have d: "p div 4096 * 4096 + p mod 4096 = p" by simp
  have j: "p div 4096 < 1023" "4096 * (p div 4096) < file_len m fs inode"
    using assms d by (auto simp: wf_file_def)
  then have b: "unat (block_no m fs inode (p div 4096)) + 1 \<le> unat (load32 m (fs + 8))"
    using assms(1) by (auto simp: wf_file_def word_less_nat_alt Suc_le_eq)
  have s: "4096 * (1 + unat (inodes_of m fs) + unat (load32 m (fs + 8))) \<le> extent" "extent \<le> 4294967296"
    using assms(1) by (auto simp: wf_file_def)
  let ?k = "4096 + unat (inodes_of m fs) * 4096 + unat (block_no m fs inode (p div 4096)) * 4096 + p mod 4096"
  have "data_addr m fs inode p = fs + of_nat ?k"
    by (simp add: data_addr_def block_at_def block_no_def)
  moreover have "p mod 4096 < 4096" by simp
  then have "?k < extent" using b s(1) by simp
  ultimately show ?thesis using s(2) by (simp only: in_region_offset)
qed

text \<open>Writing outside the image changes neither its block numbers nor its data.\<close>

lemma load32_cong:
  assumes "\<And>b. b < 4 \<Longrightarrow> m' (a + of_nat b) = m (a + of_nat b)"
  shows "load32 m' a = load32 m a"
  using assms [of 0] assms [of 1] assms [of 2] assms [of 3] by (simp add: load32_def)

lemma write_outside_image:
  assumes "wf_file m fs extent inode" and "disjoint_region fs extent buf n" and "length bs \<le> n"
  shows "in_region fs extent x \<Longrightarrow> write_bytes buf bs m x = m x"
    and "j < 1023 \<Longrightarrow> load32 (write_bytes buf bs m) (ptr_addr fs inode j) = load32 m (ptr_addr fs inode j)"
proof -
  show eq: "write_bytes buf bs m x = m x" if "in_region fs extent x" for x
    using assms(2,3) that by (auto simp: write_bytes_def disjoint_region_def in_region_def)
  show "j < 1023 \<Longrightarrow> load32 (write_bytes buf bs m) (ptr_addr fs inode j) = load32 m (ptr_addr fs inode j)"
    by (rule load32_cong) (rule eq, rule ptr_in_image [OF assms(1)])
qed

text \<open>So a file is the same file in any memory that agrees on the image.\<close>

definition image_eq :: "u32 \<Rightarrow> nat \<Rightarrow> mem \<Rightarrow> mem \<Rightarrow> bool" where
  "image_eq fs extent m m' \<longleftrightarrow> (\<forall>x. in_region fs extent x \<longrightarrow> m' x = m x)"

lemma load32_image:
  assumes "image_eq fs extent m m'" and "k + 4 \<le> extent" and "extent \<le> 4294967296"
  shows "load32 m' (fs + of_nat k) = load32 m (fs + of_nat k)"
proof (rule load32_cong)
  fix b :: nat assume "b < 4"
  then have "in_region fs extent (fs + of_nat (k + b))" using assms(2,3) by (intro in_region_offset) simp_all
  then show "m' (fs + of_nat k + of_nat b) = m (fs + of_nat k + of_nat b)"
    using assms(1) by (simp add: image_eq_def add.assoc)
qed

lemma image_eq_file:
  assumes wf: "wf_file m fs extent inode" and eq: "image_eq fs extent m m'"
  shows "inodes_of m' fs = inodes_of m fs" and "file_len m' fs inode = file_len m fs inode"
    and "contents m' fs inode = contents m fs inode" and "wf_file m' fs extent inode"
proof -
  have s: "4096 * (1 + unat (inodes_of m fs) + unat (load32 m (fs + 8))) \<le> extent" "extent \<le> 4294967296"
    "unat inode + 1 \<le> unat (inodes_of m fs)" "file_len m fs inode \<le> 4096 * 1023"
    using wf by (auto simp: wf_file_def word_less_nat_alt)
  have blocks: "load32 m' (fs + 8) = load32 m (fs + 8)"
    using load32_image [OF eq, of 8] s by simp
  show inodes: "inodes_of m' fs = inodes_of m fs"
    using load32_image [OF eq, of 4] s by (simp add: inodes_of_def)
  have "node_addr fs inode = fs + of_nat (4096 + unat inode * 4096)" by (simp add: node_addr_def)
  then have node: "load32 m' (node_addr fs inode) = load32 m (node_addr fs inode)"
    using load32_image [OF eq, of "4096 + unat inode * 4096"] s by simp
  then show len: "file_len m' fs inode = file_len m fs inode" by (simp add: file_len_def)
  have ptr: "load32 m' (ptr_addr fs inode j) = load32 m (ptr_addr fs inode j)" if "j < 1023" for j
    using ptr_in_image [OF wf that] eq by (intro load32_cong) (simp add: image_eq_def)
  have j: "p div 4096 < 1023" if "p < file_len m fs inode" for p
    using that s(4) by (simp add: less_mult_imp_div_less)
  have "data_addr m' fs inode p = data_addr m fs inode p" if "p < file_len m fs inode" for p
    using ptr [OF j [OF that]] inodes by (simp add: data_addr_def block_at_def)
  moreover have "m' (data_addr m fs inode p) = m (data_addr m fs inode p)" if "p < file_len m fs inode" for p
    using data_in_image [OF wf that] eq by (simp add: image_eq_def)
  ultimately show "contents m' fs inode = contents m fs inode"
    by (simp add: contents_def len)
  show "wf_file m' fs extent inode"
    using wf ptr unfolding wf_file_def inodes len blocks block_no_def by auto
qed

lemma image_eq_write:
  "disjoint_region fs extent buf n \<Longrightarrow> length bs \<le> n \<Longrightarrow> image_eq fs extent m (write_bytes buf bs m)"
  by (auto simp: image_eq_def disjoint_region_def write_bytes_def in_region_def)

section \<open>The read loop\<close>

text \<open>What the loop's variables hold when position \<open>p\<close> of the file is next.\<close>

definition loop_at :: "mem \<Rightarrow> u32 \<Rightarrow> u32 \<Rightarrow> nat \<Rightarrow> u32 \<Rightarrow> u32 \<Rightarrow> u32 \<Rightarrow> bool" where
  "loop_at m fs inode p addr ptr counter \<longleftrightarrow>
     (if counter = 0 then 0 < p \<and> p mod 4096 = 0 \<and> ptr = ptr_addr fs inode (p div 4096 - 1)
      else unat counter = 4096 - p mod 4096 \<and> ptr = ptr_addr fs inode (p div 4096) \<and>
           addr = data_addr m fs inode p)"

lemma ptr_addr_Suc: "ptr_addr fs inode (Suc j) = ptr_addr fs inode j + 4"
  by (simp add: ptr_addr_def)

lemma div_mod_Suc_4096:
  "Suc p mod 4096 = 0 \<Longrightarrow> p mod 4096 = 4095 \<and> Suc p div 4096 = Suc (p div 4096)"
  "Suc p mod 4096 \<noteq> 0 \<Longrightarrow> Suc p mod 4096 = Suc (p mod 4096) \<and> Suc p div 4096 = p div 4096"
  by (simp_all add: mod_Suc div_Suc split: if_splits)

lemma loop_at_next:
  assumes "unat c = 4096 - p mod 4096"
  shows "loop_at m fs inode (Suc p) (data_addr m fs inode p + 1) (ptr_addr fs inode (p div 4096)) (c - 1)"
proof (cases "Suc p mod 4096 = 0")
  case True
  then have "unat c = 1" using assms div_mod_Suc_4096(1) by simp
  then have "c = 1" by (metis unat_1 word_unat_eq_iff)
  then show ?thesis using True div_mod_Suc_4096(1) by (simp add: loop_at_def)
next
  case False
  note d = div_mod_Suc_4096(2) [OF False]
  have "p mod 4096 < 4096" "Suc p mod 4096 < 4096" by simp_all
  then have c: "unat (c - 1) = 4096 - Suc p mod 4096" "4096 - Suc p mod 4096 \<noteq> 0"
    using assms d unat_pred(1) [of "unat c - 1" c] by auto
  then have "c - 1 \<noteq> 0" by (metis unat_0)
  then show ?thesis using c d by (simp add: loop_at_def data_addr_def)
qed

lemma write_next:
  assumes "i < n" and "n \<le> length xs" and "n < 4294967296"
  shows "(write_bytes buf (take i xs) m)(buf + of_nat i := xs ! i) = write_bytes buf (take (Suc i) xs) m"
  using assms write_bytes_snoc [of "take i xs" buf "xs ! i" m] by (simp add: take_Suc_conv_app_nth)

lemma read_loop_reads:
  assumes wf: "wf_file m fs extent inode" and dis: "disjoint_region fs extent buf n"
    and n: "off + n \<le> file_len m fs inode"
  shows "i \<le> n \<Longrightarrow> loop_at m fs inode (off + i) addr ptr counter \<Longrightarrow>
    read_loop fs (inodes_of m fs) buf (of_nat n) (of_nat i) addr ptr counter
       (write_bytes buf (take i (drop off (contents m fs inode))) m) =
      (of_nat n, write_bytes buf (take n (drop off (contents m fs inode))) m)"
proof (induction "n - i" arbitrary: i addr ptr counter)
  case 0
  then show ?case by (simp add: read_loop.simps [of fs _ buf])
next
  case (Suc k)
  let ?c = "contents m fs inode"
  let ?M = "write_bytes buf (take i (drop off ?c)) m"
  have flen: "file_len m fs inode \<le> 4096 * 1023" using wf by (simp add: wf_file_def)
  have i: "i < n" "n < 4294967296" "off + i < file_len m fs inode" using Suc.hyps(2) n flen by auto
  have less: "(of_nat i :: u32) < of_nat n" using i by (simp add: word_less_nat_alt)
  define p where "p = off + i"
  have j: "p div 4096 < 1023" using i(3) flen by (simp add: p_def less_mult_imp_div_less)
  note out = write_outside_image [OF wf dis, of "take i (drop off ?c)"]
  obtain addr' ptr' c' where now: "ptr' = ptr_addr fs inode (p div 4096)" "addr' = data_addr m fs inode p"
    "unat c' = 4096 - p mod 4096"
    and pick: "(if counter = 0 then (ptr + 4, block_at ?M fs (inodes_of m fs) (ptr + 4), 4096) else (ptr, addr, counter))
      = (ptr', addr', c')"
  proof (cases "counter = 0")
    case True
    then have l: "0 < p" "p mod 4096 = 0" "ptr = ptr_addr fs inode (p div 4096 - 1)"
      using Suc.prems(2) by (simp_all add: loop_at_def p_def)
    then have "Suc (p div 4096 - 1) = p div 4096" by (cases "p < 4096") (simp_all add: div_greater_zero_iff)
    then have "ptr + 4 = ptr_addr fs inode (p div 4096)"
      using ptr_addr_Suc [of fs inode "p div 4096 - 1"] l(3) by simp
    then show ?thesis
      using that [of "ptr + 4" "data_addr m fs inode p" 4096] True l j i out
      by (simp add: data_addr_def block_at_def)
  next
    case False
    then show ?thesis using that Suc.prems(2) by (simp add: loop_at_def p_def)
  qed
  have "?M addr' = ?c ! (off + i)"
    using out(1) data_in_image [OF wf i(3)] i now(2) by (simp add: p_def contents_def)
  then have step: "?M(buf + of_nat i := ?M addr') = write_bytes buf (take (Suc i) (drop off ?c)) m"
    using write_next [of i n "drop off ?c" buf m] i n by simp
  have "read_loop fs (inodes_of m fs) buf (of_nat n) (of_nat i) addr ptr counter ?M =
      read_loop fs (inodes_of m fs) buf (of_nat n) (of_nat i + 1) (addr' + 1) ptr' (c' - 1)
        (write_bytes buf (take (Suc i) (drop off ?c)) m)"
    using less pick step by (simp add: read_loop.simps [of fs _ buf _ _ addr ptr counter])
  also have "\<dots> = (of_nat n, write_bytes buf (take n (drop off ?c)) m)"
    using Suc.hyps(1) [of "Suc i"] Suc.hyps(2) i loop_at_next [OF now(3), of m fs inode] now
    by (simp add: p_def add.commute)
  finally show ?case .
qed

text \<open>The whole of \<open>read_data\<close>: the part of the file from \<open>offset\<close> on, at most \<open>len\<close>
  bytes of it, lands in the buffer.\<close>

lemma loop_at_start:
  "loop_at m fs inode (unat off)
     (block_at m fs (inodes_of m fs) (node_addr fs inode + 4 * (off div 4096 + 1)) + off mod 4096)
     (node_addr fs inode + 4 * (off div 4096 + 1)) (4096 - off mod 4096)"
proof -
  have m: "unat (off mod 4096) = unat off mod 4096" "unat (off div 4096) = unat off div 4096"
    by (simp_all add: unat_mod unat_div)
  have "unat off mod 4096 < 4096" by simp
  then have c: "unat (4096 - off mod 4096) = 4096 - unat off mod 4096"
    using m by (subst unat_sub) (simp_all add: word_le_nat_alt)
  then have "4096 - off mod 4096 \<noteq> 0" using \<open>unat off mod 4096 < 4096\<close> by (metis unat_0 zero_less_diff less_irrefl)
  moreover have "node_addr fs inode + 4 * (off div 4096 + 1) = ptr_addr fs inode (unat off div 4096)"
    by (simp add: ptr_addr_def m(2) [symmetric] algebra_simps)
  moreover have "off mod 4096 = of_nat (unat off mod 4096)" by (simp add: m(1) [symmetric])
  ultimately show ?thesis using c by (simp add: loop_at_def data_addr_def)
qed

lemma read_data_reads:
  assumes wf: "wf_file m fs extent inode"
    and len: "unat off \<le> file_len m fs inode" and pos: "file_len m fs inode \<noteq> 0"
    and nowrap: "unat len + unat off < 4294967296"
    and n: "n = min (unat len) (file_len m fs inode - unat off)"
    and dis: "disjoint_region fs extent buf n"
  shows "read_data m fs inode off buf len =
    (of_nat n, write_bytes buf (take n (drop (unat off) (contents m fs inode))) m)"
proof -
  let ?L = "load32 m (node_addr fs inode)"
  have L: "unat ?L = file_len m fs inode" by (simp add: file_len_def)
  then have "?L \<noteq> 0" using pos by auto
  have "unat (len + off) = unat len + unat off" using nowrap by (simp add: unat_plus_if_size word_size)
  then have ge: "len + off \<ge> ?L \<longleftrightarrow> file_len m fs inode \<le> unat len + unat off"
    by (simp add: word_le_nat_alt L)
  have d: "unat (?L - off) = file_len m fs inode - unat off"
    using len L by (subst unat_sub) (simp_all add: word_le_nat_alt)
  have len1: "(if len + off \<ge> ?L then ?L - off else len) = of_nat n"
  proof (cases "file_len m fs inode \<le> unat len + unat off")
    case True
    then have "n = unat (?L - off)" using n d by simp
    then show ?thesis using ge True by simp
  next
    case False
    then have "n = unat len" using n by simp
    then show ?thesis using ge False by simp
  qed
  have "read_data m fs inode off buf len =
    read_loop fs (inodes_of m fs) buf (of_nat n) (of_nat 0)
      (block_at m fs (inodes_of m fs) (node_addr fs inode + 4 * (off div 4096 + 1)) + off mod 4096)
      (node_addr fs inode + 4 * (off div 4096 + 1)) (4096 - off mod 4096) (write_bytes buf (take 0 (drop (unat off) (contents m fs inode))) m)"
    using \<open>?L \<noteq> 0\<close> by (simp only: read_data_def Let_def node_addr_def [symmetric] inodes_of_def [symmetric]
        len1 if_False take_0 write_bytes_Nil) simp
  also have "\<dots> = (of_nat n, write_bytes buf (take n (drop (unat off) (contents m fs inode))) m)"
    using n len loop_at_start by (intro read_loop_reads [OF wf dis]) simp_all
  finally show ?thesis .
qed

lemma read_data_empty: "file_len m fs inode = 0 \<Longrightarrow> read_data m fs inode off buf len = (- 1, m)"
proof -
  assume "file_len m fs inode = 0"
  then have "load32 m (node_addr fs inode) = 0" by (simp add: file_len_def unat_eq_0)
  then show ?thesis by (simp add: read_data_def Let_def node_addr_def)
qed

section \<open>The directory\<close>

definition dir_addr :: "u32 \<Rightarrow> nat \<Rightarrow> u32" where
  "dir_addr fs n = fs + 64 + of_nat (64 * n)"

text \<open>The name of an entry: its bytes up to the first zero, at most 32.\<close>

definition entry_name :: "mem \<Rightarrow> u32 \<Rightarrow> nat \<Rightarrow> u8 list" where
  "entry_name m fs n = takeWhile (\<lambda>c. c \<noteq> 0) (bytes_at m (dir_addr fs n) 32)"

text \<open>Looking up a name finds the first entry that starts with it.\<close>

definition starts_with :: "mem \<Rightarrow> u32 \<Rightarrow> u8 list \<Rightarrow> nat \<Rightarrow> bool" where
  "starts_with m fs xs n \<longleftrightarrow> bytes_at m (dir_addr fs n) (length xs) = xs"

lemma strncmp_dir:
  assumes "c_str f xs"
  shows "\<exists>d. strncmp (ptr_mem m a) f (length xs) = Some d \<and>
    ((word_of_int d :: u8) = 0 \<longleftrightarrow> bytes_at m a (length xs) = xs)"
proof -
  have "strncmp (ptr_mem m a) f (length (bytes_at m a (length xs))) =
      Some (cmp_bytes (bytes_at m a (length xs)) xs)"
    by (rule strncmp_lists) (use assms in \<open>simp_all add: ptr_mem_def nth_bytes_at c_str_nth\<close>)
  moreover have "(word_of_int (cmp_bytes as bs) :: u8) = 0 \<longleftrightarrow> cmp_bytes as bs = 0" for as bs
  proof -
    have "- 255 \<le> sint a - sint b \<and> sint a - sint b \<le> 255" for a b :: u8
      using sint_ge [of a] sint_lt [of a] sint_ge [of b] sint_lt [of b] by simp
    then have "- 255 \<le> cmp_bytes as bs \<and> cmp_bytes as bs \<le> 255"
      by (induction as bs rule: cmp_bytes.induct) auto
    then show ?thesis by (auto simp: word_of_int_eq_0_iff dvd_def)
  qed
  moreover have "0 \<notin> set xs" using assms by (simp add: c_str_def)
  ultimately show ?thesis by (simp add: cmp_bytes_eq_0)
qed

lemma find_dentry_first:
  assumes f: "c_str f xs"
  shows "n \<le> N \<Longrightarrow> find_dentry m f N n (dir_addr fs n) =
    (case filter (starts_with m fs xs) [n..<N] of
       [] \<Rightarrow> Some (- 1, None) | k # _ \<Rightarrow> Some (0, Some (dentry_bytes m (dir_addr fs k))))"
proof (induction "N - n" arbitrary: n)
  case 0
  then show ?case by (subst find_dentry.simps) simp
next
  case (Suc k)
  then have n: "n < N" "[n..<N] = n # [Suc n..<N]" by (simp_all add: upt_conv_Cons)
  obtain d where d: "strncmp (ptr_mem m (dir_addr fs n)) f (length xs) = Some d"
    "(word_of_int d :: u8) = 0 \<longleftrightarrow> starts_with m fs xs n"
    using strncmp_dir [OF f] by (auto simp: starts_with_def)
  have a: "dir_addr fs n + 64 = dir_addr fs (Suc n)" by (simp add: dir_addr_def)
  show ?case
    using Suc.hyps(1) [of "Suc n"] Suc.hyps(2) n d strlen_c_str [OF f]
    by (simp add: find_dentry.simps [of m f N n] a)
qed

lemma read_dentry_by_name_first:
  assumes "c_str f xs" and "xs \<noteq> []"
  shows "read_dentry_by_name m fs (Some f) =
    (case filter (starts_with m fs xs) [0..<unat (m fs)] of
       [] \<Rightarrow> Some (- 1, None) | k # _ \<Rightarrow> Some (0, Some (dentry_bytes m (dir_addr fs k))))"
proof -
  have "f 0 = Some (xs ! 0)" "xs ! 0 \<noteq> 0" using assms by (auto simp: c_str_nth c_str_nonzero)
  moreover have "dir_addr fs 0 = fs + 64" by (simp add: dir_addr_def)
  ultimately show ?thesis
    using find_dentry_first [OF assms(1), of 0 "unat (m fs)" m fs]
    by (simp add: read_dentry_by_name_def)
qed

text \<open>A name of at most 32 bytes is found where an entry's name starts with it. So a lookup
  returns the file of that name when no earlier name has it as a proper prefix.\<close>

lemma starts_with_name:
  assumes "0 \<notin> set xs" and "length xs \<le> 32"
  shows "starts_with m fs xs n \<longleftrightarrow> (\<exists>ys. entry_name m fs n = xs @ ys)"
proof -
  let ?b = "bytes_at m (dir_addr fs n) 32"
  have t: "bytes_at m (dir_addr fs n) (length xs) = take (length xs) ?b"
    using assms(2) by (intro nth_equalityI) (simp_all add: nth_bytes_at)
  have "take (length xs) ?b = xs \<longleftrightarrow> (\<exists>ys. takeWhile (\<lambda>c. c \<noteq> 0) ?b = xs @ ys)"
  proof
    assume "take (length xs) ?b = xs"
    then have "?b = xs @ drop (length xs) ?b" by (metis append_take_drop_id)
    moreover have "takeWhile (\<lambda>c. c \<noteq> 0) (xs @ zs) = xs @ takeWhile (\<lambda>c. c \<noteq> 0) zs" for zs
      using assms(1) by (intro takeWhile_append2) auto
    ultimately show "\<exists>ys. takeWhile (\<lambda>c. c \<noteq> 0) ?b = xs @ ys" by metis
  next
    assume "\<exists>ys. takeWhile (\<lambda>c. c \<noteq> 0) ?b = xs @ ys"
    then obtain ys where "takeWhile (\<lambda>c. c \<noteq> 0) ?b = xs @ ys" by blast
    then have "take (length xs) (takeWhile (\<lambda>c. c \<noteq> 0) ?b @ dropWhile (\<lambda>c. c \<noteq> 0) ?b) = xs" by simp
    then show "take (length xs) ?b = xs" by (simp only: takeWhile_dropWhile_id)
  qed
  then show ?thesis by (simp only: starts_with_def t entry_name_def)
qed

text \<open>The entry at an index, and what its type and inode number are read as.\<close>

lemma read_dentry_by_index_eq:
  "read_dentry_by_index m fs i =
    (if unat i < unat (load32 m fs) then (0, Some (copy_dentry m (dir_addr fs (unat i)))) else (- 1, None))"
  by (auto simp: read_dentry_by_index_def Let_def word_le_nat_alt dir_addr_def mult.commute)

lemma load32_low_byte: "load32 m a < 256 \<Longrightarrow> load32 m a = ucast (m a)"
proof -
  assume "load32 m a < 256"
  then have "unat (load32 m a) = unat (m a)"
    using unat_load32 [of m a] by (auto simp: word_less_nat_alt)
  moreover have "load32 m a = of_nat (unat (load32 m a))" by simp
  ultimately have "load32 m a = of_nat (unat (m a))" by (simp only:)
  then show ?thesis by simp
qed

text \<open>Both reads of an entry agree when its type and inode number are below 256.\<close>

lemma copy_dentry_agrees:
  assumes "load32 m (a + 32) < 256" and "load32 m (a + 36) < 256"
  shows "copy_dentry m a = dentry_bytes m a"
  using load32_low_byte [OF assms(1)] load32_low_byte [OF assms(2)]
  by (simp add: copy_dentry_def dentry_bytes_def)

text \<open>Memory at a buffer is a destination for the string routines.\<close>

interpretation membuf: byte_dest "mem_get buf" "mem_put buf" "\<lambda>m. 4294967296"
  for buf
  by unfold_locales (auto simp: mem_get_def mem_put_def of_nat32_inj)

lemma mem_get_ext:
  assumes "\<And>j. j < 4294967296 \<Longrightarrow> mem_get buf m j = mem_get buf m' j"
  shows "m = m'"
proof
  fix x
  have "buf + of_nat (unat (x - buf)) = x" by simp
  with assms [of "unat (x - buf)"] unat_u32_less [of "x - buf"] show "m x = m' x"
    by (simp only: mem_get_def option.inject)
qed

lemma mem_get_write:
  "length bs < 4294967296 \<Longrightarrow> j < 4294967296 \<Longrightarrow>
    mem_get buf (write_bytes buf bs m) j = (if j < length bs then Some (bs ! j) else mem_get buf m j)"
  by (simp add: mem_get_def write_bytes_def in_region_def)

lemma clear_buffer:
  "for_loop 0 n (\<lambda>i. poke (buf + of_nat i) 0) s = s\<lparr>mem := write_bytes buf (replicate n 0) (mem s)\<rparr>"
  if "n < 4294967296"
  using that
proof (induction n)
  case (Suc n)
  have r: "replicate (Suc n) (0 :: u8) = replicate n 0 @ [0]" by (simp add: replicate_append_same)
  show ?case
    using Suc write_bytes_snoc [of "replicate n 0" buf 0 "mem s"]
    by (simp add: for_loop_Suc poke_def r fun_upd_def del: replicate_Suc cong: if_cong)
qed simp

text \<open>The local entry ends in a zero byte: the high bytes of its type.\<close>

lemma le32_byte: "le32 (ucast (b :: u8)) = [b, 0, 0, 0]"
proof -
  have "byte_of 0 (ucast b) = b" by (simp add: byte_of_def) (intro bit_word_eqI, auto simp: bit_simps)
  moreover have "byte_of k (ucast b) = 0" if "0 < k" for k
    using that by (intro bit_word_eqI) (auto simp: byte_of_def bit_simps dest!: bit_imp_le_length)
  ultimately show ?thesis by (simp add: le32_def upt_rec)
qed

lemma dentry_name:
  "\<exists>xs. c_str (dentry_ptr (copy_dentry m (dir_addr fs n))) xs \<and>
    take (min 32 (length xs)) xs = entry_name m fs n \<and> min 32 (length xs) = length (entry_name m fs n)"
proof -
  let ?b = "bytes_at m (dir_addr fs n) 32"
  let ?t = "m (dir_addr fs n + 32)"
  define rest where "rest = [?t, 0, 0, 0] @ le32 (ucast (m (dir_addr fs n + 36))) @ bytes_at m (dir_addr fs n + 40) 24"
  have ptr: "dentry_ptr (copy_dentry m (dir_addr fs n)) = aget (?b @ rest)"
    by (simp add: dentry_ptr_def copy_dentry_def le32_byte rest_def)
  define xs where "xs = takeWhile (\<lambda>c. c \<noteq> 0) (?b @ rest)"
  obtain ys where ys: "dropWhile (\<lambda>c. c \<noteq> 0) (?b @ rest) = 0 # ys"
  proof -
    have "0 \<in> set (?b @ rest)" by (simp add: rest_def)
    then have "dropWhile (\<lambda>c. c \<noteq> 0) (?b @ rest) \<noteq> []" by (auto simp: dropWhile_eq_Nil_conv)
    moreover have "hd (dropWhile (\<lambda>c. c \<noteq> 0) (?b @ rest)) = 0"
      using hd_dropWhile [OF calculation] by simp
    ultimately show ?thesis using that by (cases "dropWhile (\<lambda>c. c \<noteq> 0) (?b @ rest)") auto
  qed
  have "?b @ rest = xs @ 0 # ys" unfolding xs_def ys [symmetric] by simp
  moreover have "0 \<notin> set xs" unfolding xs_def using set_takeWhileD by fastforce
  ultimately have "c_str (dentry_ptr (copy_dentry m (dir_addr fs n))) xs"
    by (simp add: ptr c_str_aget)
  moreover have "take (min 32 (length xs)) xs = entry_name m fs n \<and> min 32 (length xs) = length (entry_name m fs n)"
  proof (cases "0 \<in> set ?b")
    case True
    then have "xs = entry_name m fs n" by (auto simp: xs_def entry_name_def takeWhile_append1)
    moreover have "length (entry_name m fs n) \<le> 32"
      using length_takeWhile_le [of _ ?b] by (simp add: entry_name_def)
    ultimately show ?thesis by simp
  next
    case False
    then have "\<forall>c \<in> set ?b. c \<noteq> 0" by metis
    then have "xs = ?b @ takeWhile (\<lambda>c. c \<noteq> 0) rest" "entry_name m fs n = ?b"
      by (simp_all add: xs_def entry_name_def takeWhile_append2 takeWhile_eq_all_conv)
    then show ?thesis by simp
  qed
  ultimately show ?thesis by blast
qed

lemma dir_read_entry:
  assumes "unat (directoryIndex s) < unat (load32 (mem s) (start_fs s))"
  shows "dir_read fd buf nbytes s =
    (let nm = entry_name (mem s) (start_fs s) (unat (directoryIndex s))
     in Some (of_nat (length nm), s\<lparr>directoryIndex := directoryIndex s + 1,
          mem := write_bytes buf (nm @ replicate (33 - length nm) 0) (mem s)\<rparr>))"
proof -
  let ?m = "mem s" and ?fs = "start_fs s" and ?i = "unat (directoryIndex s)"
  define nm where "nm = entry_name ?m ?fs ?i"
  define d where "d = copy_dentry ?m (dir_addr ?fs ?i)"
  define m1 where "m1 = write_bytes buf (replicate 33 0) ?m"
  obtain xs where xs: "c_str (dentry_ptr d) xs" "take (length nm) xs = nm" "min 32 (length xs) = length nm"
    using dentry_name [of ?m ?fs ?i] by (auto simp: nm_def d_def)
  have nm: "length nm \<le> 32" "length nm \<le> length xs" using xs(3) by auto
  obtain m' where m': "strncpy (mem_put buf) m1 (dentry_ptr d) (length nm) = Some m'"
    "\<forall>j < 4294967296. mem_get buf m' j =
       (if j < length nm then Some (if j < length xs then xs ! j else 0) else mem_get buf m1 j)"
    using membuf.strncpy_c_str [OF xs(1), where buf = buf and n = "length nm" and d = m1] nm by auto
  have "m' = write_bytes buf (nm @ replicate (33 - length nm) 0) ?m"
  proof (rule mem_get_ext [of buf])
    fix j :: nat assume j: "j < 4294967296"
    have "xs ! j = nm ! j" if "j < length nm" using xs(2) that by (metis nth_take)
    then show "mem_get buf m' j = mem_get buf (write_bytes buf (nm @ replicate (33 - length nm) 0) ?m) j"
      using m'(2) j nm by (auto simp: mem_get_write nth_append m1_def)
  qed
  moreover have "for_loop 0 33 (\<lambda>i. poke (buf + of_nat i) 0) (s\<lparr>directoryIndex := directoryIndex s + 1\<rparr>) =
      s\<lparr>directoryIndex := directoryIndex s + 1, mem := m1\<rparr>"
    by (simp add: clear_buffer m1_def)
  moreover have "(if length xs > 32 then 32 else length xs) = length nm" using xs(3) by auto
  ultimately show ?thesis
    using assms m'(1) strlen_c_str [OF xs(1)]
    by (simp add: dir_read_def read_dentry_by_index_eq d_def [symmetric] nm_def [symmetric] Let_def)
qed

lemma dir_read_end:
  "unat (load32 (mem s) (start_fs s)) \<le> unat (directoryIndex s) \<Longrightarrow>
    dir_read fd buf nbytes s = Some (0, s\<lparr>directoryIndex := 0\<rparr>)"
  by (simp add: dir_read_def read_dentry_by_index_eq)

text \<open>An entry is its 64 bytes.\<close>

lemma dentry_same:
  assumes "\<And>i. i < 64 \<Longrightarrow> m' (a + of_nat i) = m (a + of_nat i)"
  shows "dentry_bytes m' a = dentry_bytes m a" and "k \<le> 64 \<Longrightarrow> bytes_at m' a k = bytes_at m a k"
proof -
  have off: "m' (a + of_nat j + of_nat i) = m (a + of_nat j + of_nat i)" if "j + i < 64" for i j
    using assms [OF that] by (simp add: add.assoc)
  have "load32 m' (a + of_nat j) = load32 m (a + of_nat j)" if "j + 4 \<le> 64" for j
    using that by (intro load32_cong off) simp
  from this [of 32] this [of 36] have w: "load32 m' (a + 32) = load32 m (a + 32)" "load32 m' (a + 36) = load32 m (a + 36)" by simp_all
  have "bytes_at m' (a + of_nat 40) 24 = bytes_at m (a + of_nat 40) 24"
    unfolding bytes_at_def by (intro map_cong refl off) simp
  then have t: "bytes_at m' (a + 40) 24 = bytes_at m (a + 40) 24" by simp
  have b: "bytes_at m' a k = bytes_at m a k" if "k \<le> 64" for k
    unfolding bytes_at_def using that by (intro map_cong refl assms) simp
  then show "k \<le> 64 \<Longrightarrow> bytes_at m' a k = bytes_at m a k" .
  show "dentry_bytes m' a = dentry_bytes m a" by (simp add: dentry_bytes_def w t b)
qed

end
