(* ===== verification/Kstate.thy ===== *)
theory Kstate
  imports Fs_Spec
begin

text \<open>
  The kernel's own data: the keyboard globals of \<^verbatim>\<open>keyboard_driver.c\<close>, the terminals, file
  descriptors and process control blocks of \<^verbatim>\<open>syscalls.h\<close>, and the globals of
  \<^verbatim>\<open>syscalls.c\<close>. A process control block is at \<open>8 MB - 8 KB * (p + 1)\<close>: block \<open>p\<close> of the
  array \<open>pcbs\<close>, and a pointer to one is its index, \<open>None\<close> the null pointer. Following the
  null pointer, or an index outside an array, has no result.
\<close>

datatype driver = Terminal_fops | Rtc_fops | Dir_fops | File_fops

record FILE_DATA =
  fops :: "driver option"
  in_use :: int
  file_pos :: u32
  info :: u32

record pcb =
  process_num :: u32
  parent_sp :: u32
  parent_bp :: u32
  parent_pcb :: "nat option"
  pname :: "u8 list"
  args :: "u8 list"
  fd_array :: "FILE_DATA list"
  term_start :: int

record terminal =
  been_here :: int
  term_cursor_x :: int
  term_cursor_y :: int
  keyboard_buffer :: "u8 list"
  vid_mem :: u32
  running_pcb :: "nat option"
  current_esp :: u32
  current_ebp :: u32
  esp0 :: u32

record kern = fs +
  length_typed :: int
  input_buffer :: "u8 list"
  ctrl_pressed :: int
  shift_flag :: int
  caps_flag :: int
  can_read :: int
  temp_buffer :: "u8 list"
  old_length_typed :: int
  term_count :: int
  current_terminal :: u8
  terms :: "terminal list"
  pcbs :: "nat \<Rightarrow> pcb"
  processes :: u8
  correct_eip :: u32
  old_ebp :: u32
  old_esp :: u32
  esp_store :: u32
  ebp_store :: u32
  tss_esp0 :: u32

abbreviation LINE_SIZE :: nat where "LINE_SIZE \<equiv> 128"
abbreviation MAX_ARG_BUF_SIZE :: nat where "MAX_ARG_BUF_SIZE \<equiv> 95"
abbreviation FILENAME_SIZE :: nat where "FILENAME_SIZE \<equiv> 32"
abbreviation NUM_DESCRIPTORS :: nat where "NUM_DESCRIPTORS \<equiv> 8"

text \<open>\<open>terms[current_terminal]\<close>, and the control block it runs.\<close>

definition cur_term :: "'a kern_scheme \<Rightarrow> terminal option" where
  "cur_term s = aget (terms s) (unat (current_terminal s))"

definition set_term :: "(terminal \<Rightarrow> terminal) \<Rightarrow> 'a kern_scheme \<Rightarrow> 'a kern_scheme option" where
  "set_term f s = Option.bind (cur_term s) (\<lambda>t.
     map_option (\<lambda>ts. s\<lparr>terms := ts\<rparr>) (aput (unat (current_terminal s)) (f t) (terms s)))"

definition cur_pcb :: "'a kern_scheme \<Rightarrow> nat option" where
  "cur_pcb s = Option.bind (cur_term s) running_pcb"

definition set_pcb :: "nat \<Rightarrow> (pcb \<Rightarrow> pcb) \<Rightarrow> 'a kern_scheme \<Rightarrow> 'a kern_scheme" where
  "set_pcb p f s = s\<lparr>pcbs := (pcbs s)(p := f (pcbs s p))\<rparr>"

text \<open>\<open>terms[current_terminal].running_pcb->fd_array[fd]\<close>.\<close>

definition cur_fd :: "'a kern_scheme \<Rightarrow> nat \<Rightarrow> FILE_DATA option" where
  "cur_fd s fd = Option.bind (cur_pcb s) (\<lambda>p. aget (fd_array (pcbs s p)) fd)"

definition set_fd :: "nat \<Rightarrow> (FILE_DATA \<Rightarrow> FILE_DATA) \<Rightarrow> 'a kern_scheme \<Rightarrow> 'a kern_scheme option" where
  "set_fd fd f s = Option.bind (cur_pcb s) (\<lambda>p. Option.bind (aget (fd_array (pcbs s p)) fd) (\<lambda>d.
     map_option (\<lambda>a. set_pcb p (\<lambda>b. b\<lparr>fd_array := a\<rparr>) s) (aput fd (f d) (fd_array (pcbs s p)))))"

section \<open>The shape of the kernel's data\<close>

text \<open>What the declarations of the arrays fix, and every operation keeps.\<close>

definition pcb_shape :: "pcb \<Rightarrow> bool" where
  "pcb_shape b \<longleftrightarrow> length (fd_array b) = 8 \<and> length (pname b) = 32 \<and> length (args b) = 95"

definition kern_shape :: "'a kern_scheme \<Rightarrow> bool" where
  "kern_shape s \<longleftrightarrow>
     length (input_buffer s) = 128 \<and> length (temp_buffer s) = 128 \<and> length (terms s) = 3 \<and>
     unat (current_terminal s) < 3 \<and>
     (\<forall>t \<in> set (terms s). length (keyboard_buffer t) = 128) \<and> (\<forall>p. pcb_shape (pcbs s p))"

lemma cur_term_shape: "kern_shape s \<Longrightarrow> cur_term s = Some (terms s ! unat (current_terminal s))"
  by (simp add: kern_shape_def cur_term_def aget_in)

lemma set_term_shape:
  "kern_shape s \<Longrightarrow> set_term f s = Some (s\<lparr>terms := (terms s)[unat (current_terminal s) :=
     f (terms s ! unat (current_terminal s))]\<rparr>)"
  by (simp add: set_term_def cur_term_shape) (simp add: kern_shape_def aput_in)

lemma cur_fd_shape:
  "kern_shape s \<Longrightarrow> cur_pcb s = Some p \<Longrightarrow> fd < 8 \<Longrightarrow> cur_fd s fd = Some (fd_array (pcbs s p) ! fd)"
  by (simp add: cur_fd_def kern_shape_def pcb_shape_def aget_in)

lemma set_fd_shape:
  "kern_shape s \<Longrightarrow> cur_pcb s = Some p \<Longrightarrow> fd < 8 \<Longrightarrow>
    set_fd fd f s = Some (set_pcb p (\<lambda>b. b\<lparr>fd_array := (fd_array b)[fd := f (fd_array b ! fd)]\<rparr>) s)"
  by (simp add: set_fd_def kern_shape_def pcb_shape_def aget_in aput_in set_pcb_def)

text \<open>The operations on smaller parts of the state leave the kernel's data alone.\<close>

lemma kern_more_console:
  assumes "console.more s = console.more (t :: 'a kern_scheme)"
  shows "length_typed s = length_typed t" "input_buffer s = input_buffer t" "ctrl_pressed s = ctrl_pressed t"
    "shift_flag s = shift_flag t" "caps_flag s = caps_flag t" "can_read s = can_read t"
    "temp_buffer s = temp_buffer t" "old_length_typed s = old_length_typed t"
    "current_terminal s = current_terminal t" "terms s = terms t" "pcbs s = pcbs t"
    "processes s = processes t" "start_fs s = start_fs t"
    "directoryIndex s = directoryIndex t" "fs.more s = fs.more t"
  using assms by (cases s; cases t; simp)+

lemma kern_shape_console:
  "console.more s = console.more (t :: 'a kern_scheme) \<Longrightarrow> kern_shape s = kern_shape t"
  unfolding kern_shape_def by (simp only: kern_more_console [of s t])

text \<open>The flags of the keyboard, and the line that waits to be read, are as they were.\<close>

definition same_keys :: "'a kern_scheme \<Rightarrow> 'a kern_scheme \<Rightarrow> bool" where
  "same_keys s t \<longleftrightarrow> old_length_typed t = old_length_typed s \<and>
     ctrl_pressed t = ctrl_pressed s \<and> can_read t = can_read s \<and> shift_flag t = shift_flag s \<and> caps_flag t = caps_flag s"

lemma same_keys_refl [simp]: "same_keys s s"
  by (simp add: same_keys_def)

lemma same_keys_trans: "same_keys s t \<Longrightarrow> same_keys t u \<Longrightarrow> same_keys s u"
  by (simp add: same_keys_def)

lemma same_keys_paging:
  assumes "paging.more t = paging.more (s :: 'a kern_scheme)"
  shows "same_keys s t"
  using assms by (cases s; cases t) (simp add: same_keys_def)

end
