(* ===== verification/Terminal.thy ===== *)
theory Terminal
  imports Kstate
begin

text \<open>
  The terminal driver, \<^verbatim>\<open>student-distrib/terminal_driver.c\<close>, with \<open>flush\<close> and
  \<open>clear_screen\<close> of \<^verbatim>\<open>keyboard_driver.c\<close>. A write prints a buffer, a read waits for the
  keyboard handler to deliver a line. The lemmas describe both through the grid of
  \<open>Console\<close> and through the bytes of the line.
\<close>

definition flush :: "'a kern_scheme \<Rightarrow> 'a kern_scheme" where
  "flush s = s\<lparr>input_buffer := replicate LINE_SIZE 0, length_typed := 0\<rparr>"

definition clear_screen :: "'a kern_scheme \<Rightarrow> 'a kern_scheme" where
  "clear_screen s =
     (let s1 = move_cursor_to 0 0 (s\<lparr>cursor_x := 0, cursor_y := 0\<rparr>)
      in clear (s1\<lparr>ctrl_pressed := 0\<rparr>))"

definition initialize_terminal :: "'a kern_scheme \<Rightarrow> 'a kern_scheme" where
  "initialize_terminal s =
     clear (move_cursor_to 0 0 (s\<lparr>cursor_x := 0, cursor_y := 0, length_typed := 0\<rparr>))"

definition terminal_open :: u32 where "terminal_open = 0"
definition terminal_close :: "u32 \<Rightarrow> u32" where "terminal_close fd = 0"

text \<open>The body of the loop of \<open>terminal_write\<close>.\<close>

definition write_char :: "u8 \<Rightarrow> 'a console_scheme \<Rightarrow> 'a console_scheme" where
  "write_char c s =
     (if c = 0 then s
      else scroll_if_needed (if c \<ge> 32 \<or> c = 0x0A then putc c s else s))"

definition terminal_write :: "u32 \<Rightarrow> u32 \<Rightarrow> u32 \<Rightarrow> 'a kern_scheme \<Rightarrow> (u32 \<times> 'a kern_scheme) option" where
  "terminal_write fd buf nbytes s =
     (if fd \<noteq> 1 then Some (- 1, s)
      else let s1 = for_loop 0 (unat nbytes) (\<lambda>i s. write_char (mem s (buf + of_nat i)) s) s;
               s2 = flush s1
           in map_option (\<lambda>s. (0, s))
                (set_term (\<lambda>t. t\<lparr>term_cursor_x := cursor_x s2, term_cursor_y := cursor_y s2\<rparr>) s2))"

text \<open>A copy from an array of the kernel to memory; \<open>None\<close> past the end of the array.\<close>

definition copy_out :: "u8 list \<Rightarrow> nat \<Rightarrow> u32 \<Rightarrow> mem \<Rightarrow> mem option" where
  "copy_out xs n buf m = (if n \<le> length xs then Some (write_bytes buf (take n xs) m) else None)"

text \<open>\<open>hs\<close> are the interrupt handlers that run while the read waits for \<open>can_read\<close>. What the
  read does before and after the wait, lines 104 to 106 and 110 to 124, are operations of their
  own: between them the processor may do anything else.\<close>

definition read_begin :: "u32 \<Rightarrow> u32 \<Rightarrow> 'a kern_scheme \<Rightarrow> 'a kern_scheme" where
  "read_begin buf nbytes s = (let s1 = sti s in s1\<lparr>mem := memset (mem s1) buf 0 nbytes\<rparr>)"

definition read_finish :: "u32 \<Rightarrow> u32 \<Rightarrow> 'a kern_scheme \<Rightarrow> (u32 \<times> 'a kern_scheme) option" where
  "read_finish buf nbytes s3 =
     Option.bind (aput (nat (old_length_typed s3)) 0x0A (temp_buffer s3)) (\<lambda>tb.
     Option.bind (copy_out tb (if word_of_int (length_typed s3 + 1) < nbytes
                               then nat (old_length_typed s3 + 1) else unat nbytes) buf (mem s3)) (\<lambda>m.
       let s4 = flush (s3\<lparr>temp_buffer := tb, mem := m, can_read := 0\<rparr>)
       in map_option (\<lambda>len. (of_nat len, s4)) (strlen (ptr_mem (mem s4) buf))))"

definition terminal_read ::
    "('a kern_scheme \<Rightarrow> 'a kern_scheme) list \<Rightarrow> u32 \<Rightarrow> u32 \<Rightarrow> u32 \<Rightarrow> 'a kern_scheme
      \<Rightarrow> (u32 \<times> 'a kern_scheme) option" where
  "terminal_read hs fd buf nbytes s =
     (if fd \<noteq> 0 then Some (- 1, s)
      else Option.bind (spin (\<lambda>s. can_read s = 1) hs (read_begin buf nbytes s)) (\<lambda>(s3, hs').
             read_finish buf nbytes s3))"

lemmas terminal_read_unfold = terminal_read_def [unfolded read_begin_def read_finish_def]

section \<open>Printing\<close>

text \<open>The screen's memory; nothing a character does reaches outside it.\<close>

definition in_screen :: "u32 \<Rightarrow> bool" where
  "in_screen x \<longleftrightarrow> in_region VIDEO 4000 x"

lemma filled_outside: "n \<le> 2000 \<Longrightarrow> \<not> in_screen x \<Longrightarrow> filled f n m x = m x"
  by (simp add: filled_def in_screen_def in_region_def)

lemma put_cell_outside:
  assumes "on_screen s" and "\<not> in_screen x"
  shows "mem (put_cell (cursor_y s) (cursor_x s) c s) x = mem s x"
proof -
  obtain r k where rk: "cursor_y s = int r" "cursor_x s = int k" "r < 25" "k < 80"
    using assms(1) by (auto simp: on_screen_def dest!: zero_le_imp_eq_int)
  then have "80 * r + k < 2000" by linarith
  moreover from this have "unat (x - VIDEO) \<noteq> 2 * (80 * r + k)" "unat (x - VIDEO) \<noteq> Suc (2 * (80 * r + k))"
    using assms(2) by (auto simp: in_screen_def in_region_def)
  ultimately have "x \<noteq> scr_at (80 * r + k)" "x \<noteq> scr_at (80 * r + k) + 1"
    by (simp_all add: screen_addr)
  then show ?thesis by (simp add: put_cell_def rk cell_addr_nat)
qed

lemma emit_outside:
  assumes "on_screen s" and "\<not> in_screen x"
  shows "mem (emit c s) x = mem s x"
  using put_cell_outside [OF assms] assms
  by (auto simp: emit_def putc_def Let_def scroll_if_needed_cursor scrolled_def filled_outside)

lemma emit_more [simp]: "console.more (emit c s) = console.more s"
  by (simp add: emit_def scroll_if_needed_cursor)

definition printable :: "u8 \<Rightarrow> bool" where
  "printable c \<longleftrightarrow> c \<ge> 32 \<or> c = 0x0A"

lemma write_char_emit: "on_screen s \<Longrightarrow> write_char c s = (if printable c then emit c s else s)"
  by (auto simp: write_char_def printable_def emit_def scroll_idle)

text \<open>A buffer outside the screen is printed as it was at the call.\<close>

lemma write_loop:
  assumes "on_screen s" and "\<forall>i < n. \<not> in_screen (buf + of_nat i)"
  shows "for_loop 0 n (\<lambda>i s. write_char (mem s (buf + of_nat i)) s) s =
      fold emit (filter printable (bytes_at (mem s) buf n)) s
    \<and> on_screen (for_loop 0 n (\<lambda>i s. write_char (mem s (buf + of_nat i)) s) s)
    \<and> (\<forall>x. \<not> in_screen x \<longrightarrow> mem (for_loop 0 n (\<lambda>i s. write_char (mem s (buf + of_nat i)) s) s) x = mem s x)"
  using assms(2)
proof (induction n)
  case 0
  then show ?case using assms(1) by (simp add: bytes_at_def)
next
  case (Suc n)
  let ?t = "for_loop 0 n (\<lambda>i s. write_char (mem s (buf + of_nat i)) s) s"
  have t: "?t = fold emit (filter printable (bytes_at (mem s) buf n)) s" "on_screen ?t"
    "\<And>x. \<not> in_screen x \<Longrightarrow> mem ?t x = mem s x"
  proof -
    have "\<forall>i < n. \<not> in_screen (buf + of_nat i)" using Suc.prems by simp
    note IH = Suc.IH [OF this]
    show "?t = fold emit (filter printable (bytes_at (mem s) buf n)) s" by (rule IH [THEN conjunct1])
    show "on_screen ?t" by (rule IH [THEN conjunct2, THEN conjunct1])
    show "\<And>x. \<not> in_screen x \<Longrightarrow> mem ?t x = mem s x" using IH by blast
  qed
  have "mem ?t (buf + of_nat n) = mem s (buf + of_nat n)" using t(3) Suc.prems by simp
  then have step: "for_loop 0 (Suc n) (\<lambda>i s. write_char (mem s (buf + of_nat i)) s) s =
      (if printable (mem s (buf + of_nat n)) then emit (mem s (buf + of_nat n)) ?t else ?t)"
    by (simp add: for_loop_Suc write_char_emit [OF t(2)])
  have "bytes_at (mem s) buf (Suc n) = bytes_at (mem s) buf n @ [mem s (buf + of_nat n)]"
    by (simp add: bytes_at_def)
  then show ?case
    unfolding step using t(1,3) t(2) emit_tty(2) [OF t(2)] emit_outside [OF t(2)]
    by (auto simp del: emit_tty simp flip: t(1))
qed

lemma fold_emit_more [simp]: "console.more (fold emit cs s) = console.more s"
  by (induction cs arbitrary: s) simp_all

lemma flush_simps [simp]:
  "cursor_x (flush s) = cursor_x s" "cursor_y (flush s) = cursor_y s" "mem (flush s) = mem s"
  "terms (flush s) = terms s" "current_terminal (flush s) = current_terminal s"
  "length_typed (flush s) = 0" "input_buffer (flush s) = replicate 128 0"
  "temp_buffer (flush s) = temp_buffer s" "can_read (flush s) = can_read s"
  "old_length_typed (flush s) = old_length_typed s" "pcbs (flush s) = pcbs s"
  "ctrl_pressed (flush s) = ctrl_pressed s" "shift_flag (flush s) = shift_flag s" "caps_flag (flush s) = caps_flag s"
  by (simp_all add: flush_def)

lemma flush_shape [simp]: "kern_shape s \<Longrightarrow> kern_shape (flush s)"
  by (simp add: kern_shape_def)

lemma tty_of_flush [simp]: "tty_of (flush s) = tty_of s" "on_screen (flush s) = on_screen s"
  by (simp_all add: tty_of_def on_screen_def)

lemma terminal_write_eq:
  assumes sh: "kern_shape s" and on: "on_screen s" and buf: "\<forall>i < unat n. \<not> in_screen (buf + of_nat i)"
  defines "t \<equiv> flush (fold emit (filter printable (bytes_at (mem s) buf (unat n))) s)"
  shows "terminal_write 1 buf n s = Some (0, t\<lparr>terms := (terms s)[unat (current_terminal s) :=
      (terms s ! unat (current_terminal s))\<lparr>term_cursor_x := cursor_x t, term_cursor_y := cursor_y t\<rparr>]\<rparr>)"
    and "tty_of t = fold tty_putc (filter printable (bytes_at (mem s) buf (unat n))) (tty_of s)"
    and "on_screen t" and "kern_shape t" and "\<forall>x. \<not> in_screen x \<longrightarrow> mem t x = mem s x"
proof -
  let ?f = "fold emit (filter printable (bytes_at (mem s) buf (unat n))) s"
  note more = kern_more_console [OF fold_emit_more, of "filter printable (bytes_at (mem s) buf (unat n))" s]
  have shf: "kern_shape ?f" using sh kern_shape_console [of ?f s] by simp
  then show sht: "kern_shape t" by (simp add: t_def)
  have loop: "for_loop 0 (unat n) (\<lambda>i s. write_char (mem s (buf + of_nat i)) s) s = ?f"
    and out: "\<forall>x. \<not> in_screen x \<longrightarrow> mem ?f x = mem s x"
    using write_loop [OF on buf] by auto
  then show "\<forall>x. \<not> in_screen x \<longrightarrow> mem t x = mem s x" by (simp add: t_def)
  show "tty_of t = fold tty_putc (filter printable (bytes_at (mem s) buf (unat n))) (tty_of s)"
    using scr.run_view [OF on] by (simp add: t_def)
  show "on_screen t" using scr.run_inv [OF on] by (simp add: t_def)
  show "terminal_write 1 buf n s = Some (0, t\<lparr>terms := (terms s)[unat (current_terminal s) :=
      (terms s ! unat (current_terminal s))\<lparr>term_cursor_x := cursor_x t, term_cursor_y := cursor_y t\<rparr>]\<rparr>)"
    unfolding terminal_write_def loop Let_def t_def [symmetric] set_term_shape [OF sht]
    by (simp add: t_def more)
qed

section \<open>Reading a line\<close>

text \<open>The line the last Enter left: its bytes are in \<open>temp_buffer\<close>, its length in
  \<open>old_length_typed\<close>.\<close>

definition line_ready :: "u8 list \<Rightarrow> 'a kern_scheme \<Rightarrow> bool" where
  "line_ready xs s \<longleftrightarrow> can_read s = 1 \<and> old_length_typed s = int (length xs) \<and>
     length xs < 128 \<and> take (length xs) (temp_buffer s) = xs \<and> kern_shape s"

lemma line_ready_newline:
  assumes "line_ready xs s"
  shows "aput (nat (old_length_typed s)) 0x0A (temp_buffer s) =
      Some ((temp_buffer s)[length xs := 0x0A])"
    and "take (Suc (length xs)) ((temp_buffer s)[length xs := 0x0A]) = xs @ [0x0A]"
    and "length (temp_buffer s) = 128"
proof -
  show l: "length (temp_buffer s) = 128" using assms by (simp add: line_ready_def kern_shape_def)
  then show "aput (nat (old_length_typed s)) 0x0A (temp_buffer s) = Some ((temp_buffer s)[length xs := 0x0A])"
    using assms by (simp add: line_ready_def aput_in)
  show "take (Suc (length xs)) ((temp_buffer s)[length xs := 0x0A]) = xs @ [0x0A]"
    using assms l by (simp add: line_ready_def take_Suc_conv_app_nth)
qed

text \<open>The state the wait ends in.\<close>

definition waited :: "('a kern_scheme \<Rightarrow> 'a kern_scheme) list \<Rightarrow> u32 \<Rightarrow> u32 \<Rightarrow> 'a kern_scheme \<Rightarrow> 'a kern_scheme \<Rightarrow> bool" where
  "waited hs buf nbytes s s3 \<longleftrightarrow>
     (\<exists>hs'. spin (\<lambda>s. can_read s = 1) hs ((sti s)\<lparr>mem := memset (mem s) buf 0 nbytes\<rparr>) = Some (s3, hs'))"

lemma c_str_ptr_mem:
  assumes "0 \<notin> set xs" and "bytes_at m buf (length xs) = xs" and "m (buf + of_nat (length xs)) = 0"
  shows "c_str (ptr_mem m buf) xs"
  using assms nth_bytes_at [of _ "length xs" m buf] by (auto simp: c_str_def ptr_mem_def)

definition line_taken :: "u8 list \<Rightarrow> u32 \<Rightarrow> 'a kern_scheme \<Rightarrow> 'a kern_scheme" where
  "line_taken xs buf s3 = flush (s3\<lparr>temp_buffer := (temp_buffer s3)[length xs := 0x0A],
     mem := write_bytes buf (xs @ [0x0A]) (mem s3), can_read := 0\<rparr>)"

text \<open>What decides how much is copied is the number of characters typed since Enter, not the
  length of the line: with room for those the whole line goes to the buffer.\<close>

lemma unat_of_int32: "0 \<le> k \<Longrightarrow> k < 4294967296 \<Longrightarrow> unat (word_of_int k :: u32) = nat k"
  by (simp add: unsigned_of_int take_bit_eq_mod)

lemma terminal_read_copies:
  assumes w: "waited hs buf nbytes s s3" and r: "line_ready xs s3"
    and typed: "0 \<le> length_typed s3" "length_typed s3 + 1 < int (unat nbytes)"
  shows "terminal_read hs 0 buf nbytes s =
    map_option (\<lambda>len. (of_nat len, line_taken xs buf s3)) (strlen (ptr_mem (write_bytes buf (xs @ [0x0A]) (mem s3)) buf))"
proof -
  obtain hs' where w': "spin (\<lambda>s. can_read s = 1) hs ((sti s)\<lparr>mem := memset (mem s) buf 0 nbytes\<rparr>) = Some (s3, hs')"
    using w by (auto simp: waited_def)
  note l = line_ready_newline [OF r]
  have "length_typed s3 + 1 < 4294967296" using typed unat_u32_less [of nbytes] by linarith
  then have "unat (word_of_int (length_typed s3 + 1) :: u32) = nat (length_typed s3 + 1)"
    using typed by (intro unat_of_int32) simp_all
  then have c: "(word_of_int (length_typed s3 + 1) :: u32) < nbytes"
    using typed unfolding word_less_nat_alt by linarith
  have old: "nat (old_length_typed s3 + 1) = Suc (length xs)" "length xs < 128"
    using r by (simp_all add: line_ready_def nat_add_distrib)
  have "copy_out ((temp_buffer s3)[length xs := 0x0A]) (Suc (length xs)) buf (mem s3) =
      Some (write_bytes buf (xs @ [0x0A]) (mem s3))"
    using l(2,3) old(2) by (simp add: copy_out_def)
  then show ?thesis
    using w' c l(1) old(1) by (simp add: terminal_read_unfold line_taken_def)
qed

text \<open>When the line with its newline fits into the cleared buffer, the read delivers exactly it.\<close>

lemma terminal_read_line:
  assumes w: "waited hs buf nbytes s s3" and r: "line_ready xs s3"
    and typed: "0 \<le> length_typed s3" "length_typed s3 + 1 < int (unat nbytes)"
    and z: "0 \<notin> set xs" and fits: "Suc (length xs) < unat nbytes"
    and clear: "bytes_at (mem s3) buf (unat nbytes) = replicate (unat nbytes) 0"
  shows "terminal_read hs 0 buf nbytes s = Some (of_nat (Suc (length xs)), line_taken xs buf s3)"
    and "bytes_at (mem (line_taken xs buf s3)) buf (unat nbytes) =
      xs @ 0x0A # replicate (unat nbytes - Suc (length xs)) 0"
proof -
  let ?m = "write_bytes buf (xs @ [0x0A]) (mem s3)"
  have len: "length xs < 128" using r by (simp add: line_ready_def)
  have zero: "mem s3 (buf + of_nat i) = 0" if "i < unat nbytes" for i
    using nth_bytes_at [OF that, of "mem s3" buf] that clear by simp
  have at: "?m (buf + of_nat i) = (if i < Suc (length xs) then (xs @ [0x0A]) ! i else 0)" if "i < unat nbytes" for i
    using that zero unat_u32_less [of nbytes] len by (simp add: write_bytes_def in_region_def)
  have "c_str (ptr_mem ?m buf) (xs @ [0x0A])"
  proof (rule c_str_ptr_mem)
    show "0 \<notin> set (xs @ [0x0A])" using z by simp
    show "bytes_at ?m buf (length (xs @ [0x0A])) = xs @ [0x0A]"
      using len by (intro bytes_at_write_bytes) simp_all
    show "?m (buf + of_nat (length (xs @ [0x0A]))) = 0" using at [of "Suc (length xs)"] fits by simp
  qed
  from strlen_c_str [OF this]
  show "terminal_read hs 0 buf nbytes s = Some (of_nat (Suc (length xs)), line_taken xs buf s3)"
    by (simp add: terminal_read_copies [OF w r typed])
  have "bytes_at ?m buf (unat nbytes) = xs @ 0x0A # replicate (unat nbytes - Suc (length xs)) 0"
    using fits at by (intro nth_equalityI) (auto simp: nth_bytes_at nth_append nth_Cons' less_Suc_eq)
  then show "bytes_at (mem (line_taken xs buf s3)) buf (unat nbytes) =
      xs @ 0x0A # replicate (unat nbytes - Suc (length xs)) 0"
    by (simp add: line_taken_def)
qed

text \<open>A line longer than the buffer is written past its end.\<close>

lemma terminal_read_overflow:
  assumes w: "waited hs buf nbytes s s3" and r: "line_ready xs s3"
    and typed: "0 \<le> length_typed s3" "length_typed s3 + 1 < int (unat nbytes)"
    and "terminal_read hs 0 buf nbytes s = Some (n, s')"
  shows "bytes_at (mem s') buf (Suc (length xs)) = xs @ [0x0A]"
proof -
  have "s' = line_taken xs buf s3"
    using assms(5) unfolding terminal_read_copies [OF w r typed] by auto
  then have m: "mem s' = write_bytes buf (xs @ [0x0A]) (mem s3)" by (simp add: line_taken_def)
  have "length xs < 128" using r by (simp add: line_ready_def)
  then show ?thesis unfolding m by (intro bytes_at_write_bytes) simp_all
qed

text \<open>Without a line a read does not return, and with one it always does when the buffer's
  byte after the line is zero.\<close>

lemma terminal_read_waits:
  assumes "can_read s \<noteq> 1" and "\<And>h s. h \<in> set hs \<Longrightarrow> can_read s \<noteq> 1 \<Longrightarrow> can_read (h s) \<noteq> 1"
  shows "terminal_read hs 0 buf nbytes s = None"
proof -
  have "spin (\<lambda>s. can_read s = 1) hs ((sti s)\<lparr>mem := memset (mem (sti s)) buf 0 nbytes\<rparr>) = None"
    using assms by (intro spin_never) (simp_all add: sti_def)
  then show ?thesis by (simp add: terminal_read_unfold)
qed

end
