(* ===== verification/Descriptors.thy ===== *)
theory Descriptors
  imports Terminal
begin

text \<open>
  File descriptors, \<^verbatim>\<open>student-distrib/syscalls.c\<close>: the operations tables of the drivers, and
  the system calls \<open>open\<close>, \<open>close\<close>, \<open>read\<close>, \<open>write\<close>, \<open>getargs\<close>, \<open>vidmap\<close>,
  \<open>set_handler\<close> and \<open>sigreturn\<close>, with \<open>file_read\<close> of \<^verbatim>\<open>filesysobjs.c\<close>, which uses the
  descriptor's position. A buffer is the address its accesses reach; \<open>vidmap\<close>, which checks a
  virtual address, translates it.
\<close>

section \<open>The drivers behind a descriptor\<close>

definition file_read :: "nat \<Rightarrow> u32 \<Rightarrow> u32 \<Rightarrow> 'a kern_scheme \<Rightarrow> (u32 \<times> 'a kern_scheme) option" where
  "file_read fd buf nbytes s =
     (if buf = 0 then Some (0, s)
      else let s1 = s\<lparr>mem := memset (mem s) buf 0 nbytes\<rparr>
           in Option.bind (cur_fd s1 fd) (\<lambda>d.
                let (bytes_read, m) = read_data (mem s1) (start_fs s1) (info d) (file_pos d) buf nbytes;
                    s2 = s1\<lparr>mem := m\<rparr>
                in if sint bytes_read > 0
                   then map_option (\<lambda>s. (bytes_read, s))
                          (set_fd fd (\<lambda>d. d\<lparr>file_pos := file_pos d + bytes_read\<rparr>) s2)
                   else Some (0, s2)))"

text \<open>The calls through \<open>table->open\<close>, \<open>table->close\<close>, \<open>table->read\<close>, \<open>table->write\<close>.\<close>

definition driver_open :: "device \<Rightarrow> driver \<Rightarrow> 'a kern_scheme \<Rightarrow> u32 \<times> 'a kern_scheme" where
  "driver_open dev d s =
     (case d of Terminal_fops \<Rightarrow> (terminal_open, s) | Rtc_fops \<Rightarrow> rtc_open dev s
      | Dir_fops \<Rightarrow> (dir_open, s) | File_fops \<Rightarrow> (file_open, s))"

definition driver_close :: "driver \<Rightarrow> u32 \<Rightarrow> u32" where
  "driver_close d fd =
     (case d of Terminal_fops \<Rightarrow> terminal_close fd | Rtc_fops \<Rightarrow> rtc_close fd
      | Dir_fops \<Rightarrow> dir_close fd | File_fops \<Rightarrow> file_close fd)"

definition driver_read ::
    "('a kern_scheme \<Rightarrow> 'a kern_scheme) list \<Rightarrow> driver \<Rightarrow> u32 \<Rightarrow> u32 \<Rightarrow> u32 \<Rightarrow> 'a kern_scheme
      \<Rightarrow> (u32 \<times> 'a kern_scheme) option" where
  "driver_read hs d fd buf nbytes s =
     (case d of
        Terminal_fops \<Rightarrow> terminal_read hs fd buf nbytes s
      | Rtc_fops \<Rightarrow> map_option (\<lambda>(r, s', hs'). (r, s')) (rtc_read hs fd buf nbytes s)
      | Dir_fops \<Rightarrow> dir_read fd buf nbytes s
      | File_fops \<Rightarrow> file_read (unat fd) buf nbytes s)"

definition driver_write ::
    "device \<Rightarrow> driver \<Rightarrow> u32 \<Rightarrow> u32 \<Rightarrow> u32 \<Rightarrow> 'a kern_scheme \<Rightarrow> (u32 \<times> 'a kern_scheme) option" where
  "driver_write dev d fd buf nbytes s =
     (case d of
        Terminal_fops \<Rightarrow> terminal_write fd buf nbytes s
      | Rtc_fops \<Rightarrow> Some (rtc_write dev fd (load32 (mem s) buf) nbytes s)
      | Dir_fops \<Rightarrow> Some (dir_write fd buf nbytes, s)
      | File_fops \<Rightarrow> Some (file_write fd buf nbytes, s))"

section \<open>The system calls\<close>

definition open_entry :: "driver \<Rightarrow> u32 \<Rightarrow> FILE_DATA" where
  "open_entry d inode = \<lparr>fops = Some d, in_use = 1, file_pos = 0, info = inode\<rparr>"

definition driver_of_type :: "u32 \<Rightarrow> driver option" where
  "driver_of_type t = (if t = 0 then Some Rtc_fops else if t = 1 then Some Dir_fops
     else if t = 2 then Some File_fops else None)"

text \<open>The loop over descriptors 2 to 7.\<close>

function open_from :: "device \<Rightarrow> dentry \<Rightarrow> nat \<Rightarrow> 'a kern_scheme \<Rightarrow> (u32 \<times> 'a kern_scheme) option" where
  "open_from dev file_dentry index s =
     (if index < 8 then
        Option.bind (cur_fd s index) (\<lambda>d.
          if in_use d = 0 then
            (case driver_of_type (file_type file_dentry) of
               Some drv \<Rightarrow>
                 Option.bind (set_fd index (\<lambda>_. open_entry drv (inode_num file_dentry)) s) (\<lambda>s1.
                   Some (of_nat index, snd (driver_open dev drv s1)))
             | None \<Rightarrow> open_from dev file_dentry (Suc index) s)
          else open_from dev file_dentry (Suc index) s)
      else Some (- 1, s))"
  by pat_completeness auto
termination
  by (relation "measure (\<lambda>(dev, f, i, s). 8 - i)") auto

declare open_from.simps [simp del]

definition c_lit :: "string \<Rightarrow> cptr" where
  "c_lit cs = aget (chars cs @ [0])"

definition open_std :: "device \<Rightarrow> nat \<Rightarrow> 'a kern_scheme \<Rightarrow> (u32 \<times> 'a kern_scheme) option" where
  "open_std dev fd s =
     Option.bind (cur_fd s fd) (\<lambda>d.
       if in_use d = 1 then Some (- 1, s)
       else map_option (driver_open dev Terminal_fops) (set_fd fd (\<lambda>_. open_entry Terminal_fops 0) s))"

definition sys_open :: "device \<Rightarrow> cptr \<Rightarrow> 'a kern_scheme \<Rightarrow> (u32 \<times> 'a kern_scheme) option" where
  "sys_open dev name s =
     Option.bind (strncmp name (c_lit ''stdin'') 5) (\<lambda>d1.
       if d1 = 0 then open_std dev 0 s
       else Option.bind (strncmp name (c_lit ''stdout'') 6) (\<lambda>d2.
         if d2 = 0 then open_std dev 1 s
         else Option.bind (read_dentry_by_name (mem s) (start_fs s) (Some name)) (\<lambda>(r, de).
           case de of None \<Rightarrow> Some (- 1, s) | Some file_dentry \<Rightarrow> open_from dev file_dentry 2 s)))"

definition sys_write :: "device \<Rightarrow> u32 \<Rightarrow> u32 \<Rightarrow> u32 \<Rightarrow> 'a kern_scheme \<Rightarrow> (u32 \<times> 'a kern_scheme) option" where
  "sys_write dev fd buf nbytes s =
     (if fd > 7 then Some (- 1, s)
      else if buf = 0 then Some (- 1, s)
      else Option.bind (cur_fd s (unat fd)) (\<lambda>d.
        if in_use d = 0 then Some (- 1, s)
        else Option.bind (fops d) (\<lambda>drv. driver_write dev drv fd buf nbytes s)))"

definition sys_read ::
    "('a kern_scheme \<Rightarrow> 'a kern_scheme) list \<Rightarrow> u32 \<Rightarrow> u32 \<Rightarrow> u32 \<Rightarrow> 'a kern_scheme
      \<Rightarrow> (u32 \<times> 'a kern_scheme) option" where
  "sys_read hs fd buf nbytes s =
     (if fd > 7 then Some (- 1, s)
      else if buf = 0 then Some (- 1, s)
      else Option.bind (cur_fd s (unat fd)) (\<lambda>d.
        if in_use d = 0 then Some (- 1, s)
        else Option.bind (fops d) (\<lambda>drv. driver_read hs drv fd buf nbytes s)))"

definition sys_close :: "u32 \<Rightarrow> 'a kern_scheme \<Rightarrow> (u32 \<times> 'a kern_scheme) option" where
  "sys_close fd s =
     (if fd \<le> 1 \<or> fd > 7 then Some (- 1, s)
      else Option.bind (cur_fd s (unat fd)) (\<lambda>d.
        if in_use d = 0 then Some (- 1, s)
        else Option.bind (set_fd (unat fd) (\<lambda>d. d\<lparr>in_use := 0\<rparr>) s) (\<lambda>s1.
             Option.bind (fops d) (\<lambda>drv.
               if driver_close drv fd \<noteq> 0 then Some (- 1, s1) else Some (0, s1)))))"

text \<open>\<open>getargs\<close>: \<open>lit\<close> is where the compiler put the literal \<open>"\0"\<close> it copies from.\<close>

function args_copy :: "u8 list \<Rightarrow> nat \<Rightarrow> u32 \<Rightarrow> mem \<Rightarrow> (nat \<times> mem) option" where
  "args_copy as i buf m =
     (if i < length as \<and> as ! i \<noteq> 0 then
        Option.bind (strlen (aget as)) (\<lambda>len.
          if i < len then args_copy as (Suc i) buf (m(buf + of_nat i := as ! i)) else Some (i, m))
      else if i < length as then Some (i, m) else None)"
  by pat_completeness auto
termination
  by (relation "measure (\<lambda>(as, i, buf, m). length as - i)") auto

declare args_copy.simps [simp del]

definition getargs :: "u32 \<Rightarrow> u32 \<Rightarrow> u32 \<Rightarrow> 'a kern_scheme \<Rightarrow> (u32 \<times> 'a kern_scheme) option" where
  "getargs lit buf nbytes s =
     (if buf = 0 then Some (- 1, s)
      else Option.bind (cur_pcb s) (\<lambda>p.
        let as = args (pcbs s p)
        in Option.bind (aget as 0) (\<lambda>c.
          if c = 0 then Some (- 1, s)
          else if sint nbytes \<le> 0 then Some (- 1, s)
          else Option.bind (strlen (aget as)) (\<lambda>_.
               Option.bind (strlen (ptr_mem (mem s) buf)) (\<lambda>n.
               Option.bind (args_copy as 0 buf (memcpy (mem s) buf lit (of_nat n))) (\<lambda>(i, m).
                 let m' = for_loop i MAX_ARG_BUF_SIZE (\<lambda>i m. m(buf + of_nat i := 0)) m
                 in Some (0, s\<lparr>mem := m'\<rparr>)))))))"

definition vstore32 :: "layout \<Rightarrow> u32 \<Rightarrow> u32 \<Rightarrow> 'a paging_scheme \<Rightarrow> 'a paging_scheme option" where
  "vstore32 L va w s =
     Option.bind (translate L s False va) (\<lambda>a0.
     Option.bind (translate L s False (va + 1)) (\<lambda>a1.
     Option.bind (translate L s False (va + 2)) (\<lambda>a2.
     Option.bind (translate L s False (va + 3)) (\<lambda>a3.
       Some (s\<lparr>mem := (mem s)(a0 := byte_of 0 w, a1 := byte_of 1 w, a2 := byte_of 2 w, a3 := byte_of 3 w)\<rparr>)))))"

definition ONE_TWENTY_EIGHT_MB :: u32 where "ONE_TWENTY_EIGHT_MB = 0x8000000"
definition ONE_THIRTY_TWO_MB :: u32 where "ONE_THIRTY_TWO_MB = 0x8400000"

definition vidmap :: "layout \<Rightarrow> u32 \<Rightarrow> 'a kern_scheme \<Rightarrow> (u32 \<times> 'a kern_scheme) option" where
  "vidmap L screen_start s =
     (if screen_start \<ge> ONE_TWENTY_EIGHT_MB \<and> screen_start < ONE_THIRTY_TWO_MB then
        map_option (\<lambda>s. (ONE_THIRTY_TWO_MB, s))
          (vstore32 L screen_start ONE_THIRTY_TWO_MB (load_video_mem L 0 s))
      else Some (- 1, s))"

definition set_handler :: "u32 \<Rightarrow> u32 \<Rightarrow> u32" where "set_handler signum handler_address = - 1"
definition sigreturn :: u32 where "sigreturn = - 1"

end
