(* ===== verification/Fd_Spec.thy ===== *)
theory Fd_Spec
  imports Descriptors
begin

text \<open>
  What file descriptors promise: the invariant of the descriptor tables and that every system
  call keeps it, which descriptor \<open>open\<close> gives, what a sequence of reads of a file delivers,
  and that a closed descriptor refuses everything. The drivers are used through the locale
  \<open>drivers\<close>, whose laws the four of them satisfy.
\<close>

section \<open>The invariant\<close>

text \<open>A descriptor in use has a driver; 0 and 1 have the terminal, the others a file's.\<close>

definition fd_ok :: "nat \<Rightarrow> FILE_DATA \<Rightarrow> bool" where
  "fd_ok fd d \<longleftrightarrow> in_use d \<in> {0, 1} \<and>
     (in_use d = 1 \<longrightarrow> (\<exists>drv. fops d = Some drv \<and> (fd < 2 \<longleftrightarrow> drv = Terminal_fops)))"

definition fds_ok :: "'a kern_scheme \<Rightarrow> bool" where
  "fds_ok s \<longleftrightarrow> kern_shape s \<and> (\<forall>p fd. fd < 8 \<longrightarrow> fd_ok fd (fd_array (pcbs s p) ! fd))"

lemma fds_ok_frame [simp]:
  "fds_ok (s\<lparr>mem := m\<rparr>) = fds_ok s" "fds_ok (s\<lparr>directoryIndex := i\<rparr>) = fds_ok s"
  "fds_ok (s\<lparr>can_read := c\<rparr>) = fds_ok s" "fds_ok (s\<lparr>rtc_interrupt_happened := c\<rparr>) = fds_ok s"
  "fds_ok (s\<lparr>ports := q\<rparr>) = fds_ok s" "fds_ok (s\<lparr>intr := b\<rparr>) = fds_ok s"
  "fds_ok (sti s) = fds_ok s" "fds_ok (cli s) = fds_ok s" "fds_ok (outb d pt s) = fds_ok s"
  by (simp_all add: fds_ok_def kern_shape_def sti_def cli_def outb_def)

lemma fds_ok_console:
  "console.more s = console.more (t :: 'a kern_scheme) \<Longrightarrow> fds_ok s = fds_ok t"
  using kern_shape_console [of s t] kern_more_console(11) [of s t] by (simp add: fds_ok_def)

lemma fds_ok_set_fd:
  assumes "fds_ok s" and "set_fd fd f s = Some s'" and "\<And>d. fd_ok fd d \<Longrightarrow> fd_ok fd (f d)"
  shows "fds_ok s'"
proof -
  obtain p where p: "cur_pcb s = Some p" "fd < length (fd_array (pcbs s p))"
    using assms(2) by (auto simp: set_fd_def c_array split: Option.bind_splits)
  have k: "kern_shape s" using assms(1) by (simp add: fds_ok_def)
  then have "fd < 8" using p by (simp add: kern_shape_def pcb_shape_def)
  then have s': "s' = set_pcb p (\<lambda>b. b\<lparr>fd_array := (fd_array b)[fd := f (fd_array b ! fd)]\<rparr>) s"
    using assms(2) set_fd_shape [OF k p(1), of fd f] by simp
  have "length (fd_array (pcbs s q)) = 8" for q using k by (simp add: kern_shape_def pcb_shape_def)
  moreover have "fd_ok g ((fd_array (pcbs s p))[fd := f (fd_array (pcbs s p) ! fd)] ! g)" if "g < 8" for g
    using that assms(1,3) \<open>fd < 8\<close> calculation by (cases "g = fd") (auto simp: fds_ok_def)
  ultimately show ?thesis
    using assms(1) by (auto simp: s' fds_ok_def kern_shape_def pcb_shape_def set_pcb_def)
qed

lemma flush_ok [simp]: "fds_ok s \<Longrightarrow> fds_ok (flush s)"
  by (simp add: fds_ok_def)

lemma write_char_more [simp]: "console.more (write_char c s) = console.more s"
  by (simp add: write_char_def scroll_if_needed_cursor)

lemma set_term_ok:
  assumes "fds_ok s" and "set_term f s = Some s'" and "\<And>t. keyboard_buffer (f t) = keyboard_buffer t"
  shows "fds_ok s'"
proof -
  have k: "kern_shape s" using assms(1) by (simp add: fds_ok_def)
  then have s': "s' = s\<lparr>terms := (terms s)[unat (current_terminal s) := f (terms s ! unat (current_terminal s))]\<rparr>"
    using assms(2) by (simp add: set_term_shape)
  have "keyboard_buffer (f t) = keyboard_buffer t" for t by (rule assms(3))
  moreover have "t \<in> set ((terms s)[i := u]) \<Longrightarrow> t = u \<or> t \<in> set (terms s)" for t i u
    using set_update_subset_insert [of "terms s" i u] by auto
  ultimately show ?thesis
    using assms(1) k unfolding s' fds_ok_def kern_shape_def
    by (auto dest!: set_update_subset_insert [THEN subsetD])
qed

lemma terminal_write_ok:
  assumes "fds_ok s" and "terminal_write fd buf n s = Some (r, s')"
  shows "fds_ok s'"
proof (cases "fd = 1")
  case True
  let ?l = "for_loop 0 (unat n) (\<lambda>i s. write_char (mem s (buf + of_nat i)) s) s"
  have "console.more ?l = console.more s" by (intro for_loop_frame) simp
  then have "fds_ok (flush ?l)" using assms(1) fds_ok_console by (intro flush_ok) blast
  moreover obtain f where "set_term f (flush ?l) = Some s'" "\<And>t. keyboard_buffer (f t) = keyboard_buffer t"
    using assms(2) True by (auto simp: terminal_write_def Let_def)
  ultimately show ?thesis by (rule set_term_ok)
next
  case False
  then show ?thesis using assms by (simp add: terminal_write_def)
qed

lemma spin_inv:
  assumes "P s" and "\<forall>h \<in> set hs. \<forall>s. P s \<longrightarrow> P (h s)" and "spin done hs s = Some (s', hs')"
  shows "P s'"
  using assms by (induction hs arbitrary: s) (auto split: if_splits)

lemma terminal_read_ok:
  assumes "fds_ok s" and "\<forall>h \<in> set hs. \<forall>s. fds_ok s \<longrightarrow> fds_ok (h s)"
    and "terminal_read hs fd buf n s = Some (r, s')"
  shows "fds_ok s'"
proof (cases "fd = 0")
  case True
  obtain s3 hs' tb m where s3: "spin (\<lambda>s. can_read s = 1) hs ((sti s)\<lparr>mem := memset (mem (sti s)) buf 0 n\<rparr>) = Some (s3, hs')"
    and tb: "aput (nat (old_length_typed s3)) 0x0A (temp_buffer s3) = Some tb"
    and s': "s' = flush (s3\<lparr>temp_buffer := tb, mem := m, can_read := 0\<rparr>)"
    using assms(3) True by (auto simp: terminal_read_unfold split: Option.bind_splits)
  have "fds_ok s3" using spin_inv [where P = fds_ok, OF _ assms(2) s3] assms(1) by simp
  then have "fds_ok (s3\<lparr>temp_buffer := tb\<rparr>)"
    using tb by (auto simp: fds_ok_def kern_shape_def c_array)
  then show ?thesis unfolding s' by (intro flush_ok) (simp add: fds_ok_def kern_shape_def)
next
  case False
  then show ?thesis using assms by (simp add: terminal_read_unfold)
qed

lemma rtc_read_ok:
  assumes "fds_ok s" and "\<forall>h \<in> set hs. \<forall>s. fds_ok s \<longrightarrow> fds_ok (h s)"
    and "rtc_read hs fd buf n s = Some (r, s', hs')"
  shows "fds_ok s'"
proof -
  obtain hs'' where "spin (\<lambda>s. rtc_interrupt_happened s \<noteq> 0) hs ((sti s)\<lparr>rtc_interrupt_happened := 0\<rparr>) = Some (s', hs'')"
    using assms(3) by (auto simp: rtc_read_unfold)
  from spin_inv [where P = fds_ok, OF _ assms(2) this] assms(1) show ?thesis by simp
qed

lemma rtc_chip_ok:
  "fds_ok s \<Longrightarrow> fds_ok (snd (rtc_write dev fd hz n s))"
  "fds_ok s \<Longrightarrow> fds_ok (snd (rtc_open dev s))"
proof -
  show "fds_ok s \<Longrightarrow> fds_ok (snd (rtc_write dev fd hz n s))" by (simp add: rtc_write_ports)
  assume "fds_ok s"
  then show "fds_ok (snd (rtc_open dev s))" using rtc_open_ports [of dev s] by auto
qed

lemma dir_read_ok:
  assumes "fds_ok s" and "dir_read fd buf n s = Some (r, s')"
  shows "fds_ok s'"
proof (cases "unat (directoryIndex s) < unat (load32 (mem s) (start_fs s))")
  case True
  then show ?thesis using assms by (auto simp: dir_read_entry Let_def)
next
  case False
  then show ?thesis using assms by (auto simp: dir_read_end)
qed

lemma file_read_ok:
  assumes "fds_ok s" and "file_read fd buf n s = Some (r, s')"
  shows "fds_ok s'"
proof (cases "buf = 0")
  case True
  then show ?thesis using assms by (simp add: file_read_def)
next
  case False
  let ?s1 = "s\<lparr>mem := memset (mem s) buf 0 n\<rparr>"
  obtain d where d: "cur_fd ?s1 fd = Some d" using assms(2) False
    by (auto simp: file_read_def Let_def split: Option.bind_splits)
  obtain k m where km: "read_data (mem ?s1) (start_fs ?s1) (info d) (file_pos d) buf n = (k, m)"
    by fastforce
  have "fds_ok (?s1\<lparr>mem := m\<rparr>)" using assms(1) by simp
  then show ?thesis
    using assms(2) False d km
      fds_ok_set_fd [of "?s1\<lparr>mem := m\<rparr>" fd "\<lambda>d. d\<lparr>file_pos := file_pos d + k\<rparr>"]
    by (auto simp: file_read_def Let_def fd_ok_def split: if_splits)
qed

section \<open>The drivers\<close>

text \<open>What the system call layer relies on: each driver keeps the invariant, for a buffer and in a
  state that meet its demands. A read may wait; the interrupt handlers that run meanwhile keep the
  invariant too.\<close>

locale drivers =
  fixes rd :: "('s \<Rightarrow> 's) list \<Rightarrow> 'd \<Rightarrow> u32 \<Rightarrow> u32 \<Rightarrow> u32 \<Rightarrow> 's \<Rightarrow> (u32 \<times> 's) option"
    and wr :: "device \<Rightarrow> 'd \<Rightarrow> u32 \<Rightarrow> u32 \<Rightarrow> u32 \<Rightarrow> 's \<Rightarrow> (u32 \<times> 's) option"
    and opn :: "device \<Rightarrow> 'd \<Rightarrow> 's \<Rightarrow> u32 \<times> 's"
    and inv :: "'s \<Rightarrow> bool"
    and rd_ok wr_ok :: "'d \<Rightarrow> u32 \<Rightarrow> u32 \<Rightarrow> u32 \<Rightarrow> 's \<Rightarrow> bool"
  assumes rd_inv: "inv s \<Longrightarrow> \<forall>h \<in> set hs. \<forall>s. inv s \<longrightarrow> inv (h s) \<Longrightarrow> rd_ok d fd buf n s \<Longrightarrow>
      rd hs d fd buf n s = Some (r, s') \<Longrightarrow> inv s'"
    and wr_inv: "inv s \<Longrightarrow> wr_ok d fd buf n s \<Longrightarrow> wr dev d fd buf n s = Some (r, s') \<Longrightarrow> inv s'"
    and opn_inv: "inv s \<Longrightarrow> inv (snd (opn dev d s))"
begin

text \<open>A call through a descriptor looked up in the state, as \<open>read\<close> and \<open>write\<close> do it.\<close>

lemma rd_through:
  assumes "inv s" and "\<forall>h \<in> set hs. \<forall>s. inv s \<longrightarrow> inv (h s)"
    and "\<And>x d. look = Some x \<Longrightarrow> \<not> shut x \<Longrightarrow> drv x = Some d \<Longrightarrow> rd_ok d fd buf n s"
    and "Option.bind look (\<lambda>x. if shut x then Some (e, s)
            else Option.bind (drv x) (\<lambda>d. rd hs d fd buf n s)) = Some (r, s')"
  shows "inv s'"
proof -
  consider "s' = s" | x d where "look = Some x" "\<not> shut x" "drv x = Some d" "rd hs d fd buf n s = Some (r, s')"
    using assms(4) by (auto split: if_splits Option.bind_splits)
  then show ?thesis
    using assms(1) rd_inv [OF assms(1,2) assms(3)] by cases blast+
qed

lemma wr_through:
  assumes "inv s"
    and "\<And>x d. look = Some x \<Longrightarrow> \<not> shut x \<Longrightarrow> drv x = Some d \<Longrightarrow> wr_ok d fd buf n s"
    and "Option.bind look (\<lambda>x. if shut x then Some (e, s)
            else Option.bind (drv x) (\<lambda>d. wr dev d fd buf n s)) = Some (r, s')"
  shows "inv s'"
proof -
  consider "s' = s" | x d where "look = Some x" "\<not> shut x" "drv x = Some d" "wr dev d fd buf n s = Some (r, s')"
    using assms(3) by (auto split: if_splits Option.bind_splits)
  then show ?thesis
    using assms(1) wr_inv [OF assms(1) assms(2)] by cases blast+
qed

end

text \<open>The tables' invariant makes no demands.\<close>

definition no_demand :: "driver \<Rightarrow> u32 \<Rightarrow> u32 \<Rightarrow> u32 \<Rightarrow> 's \<Rightarrow> bool" where
  "no_demand d fd buf n s = True"

interpretation drv: drivers driver_read driver_write driver_open fds_ok no_demand no_demand
proof
  fix s s' :: "'a kern_scheme" and hs d fd buf n r
  assume "fds_ok s" "\<forall>h \<in> set hs. \<forall>s. fds_ok s \<longrightarrow> fds_ok (h s)" "driver_read hs d fd buf n s = Some (r, s')"
  then show "fds_ok s'"
    by (cases d) (auto simp: driver_read_def intro: terminal_read_ok rtc_read_ok dir_read_ok file_read_ok)
next
  fix s s' :: "'a kern_scheme" and dev d fd buf n r
  assume "fds_ok s" "driver_write dev d fd buf n s = Some (r, s')"
  then show "fds_ok s'"
    using rtc_chip_ok(1) [of s dev fd "load32 (mem s) buf" n]
    by (cases d) (auto simp: driver_write_def intro: terminal_write_ok)
next
  fix s :: "'a kern_scheme" and dev d
  assume "fds_ok s"
  then show "fds_ok (snd (driver_open dev d s))"
    by (cases d) (auto simp: driver_open_def rtc_chip_ok)
qed

section \<open>The system calls keep the invariant\<close>

lemma sys_read_ok:
  "fds_ok s \<Longrightarrow> \<forall>h \<in> set hs. \<forall>s. fds_ok s \<longrightarrow> fds_ok (h s) \<Longrightarrow> sys_read hs fd buf n s = Some (r, s') \<Longrightarrow> fds_ok s'"
  unfolding sys_read_def
  by (cases "fd > 7"; cases "buf = 0") (simp_all, erule (1) drv.rd_through [rotated 3], simp_all add: no_demand_def)

lemma sys_write_ok:
  "fds_ok s \<Longrightarrow> sys_write dev fd buf n s = Some (r, s') \<Longrightarrow> fds_ok s'"
  unfolding sys_write_def
  by (cases "fd > 7"; cases "buf = 0") (simp_all, erule drv.wr_through [rotated 2], simp_all add: no_demand_def)

lemma open_entry_ok: "(fd < 2 \<longleftrightarrow> drv = Terminal_fops) \<Longrightarrow> fd_ok fd (open_entry drv i)"
  by (simp add: fd_ok_def open_entry_def)

lemma open_from_ok:
  "fds_ok s \<Longrightarrow> 2 \<le> i \<Longrightarrow> open_from dev de i s = Some (r, s') \<Longrightarrow> fds_ok s'"
proof (induction "8 - i" arbitrary: i)
  case 0
  then show ?case by (subst (asm) open_from.simps) simp
next
  case (Suc k)
  then have i: "i < 8" by simp
  obtain d where d: "cur_fd s i = Some d"
    using Suc.prems(3) i by (subst (asm) open_from.simps) (auto split: Option.bind_splits)
  show ?case
  proof (cases "in_use d = 0 \<and> driver_of_type (file_type de) \<noteq> None")
    case False
    then have "open_from dev de (Suc i) s = Some (r, s')"
      using Suc.prems(3) i d by (subst (asm) open_from.simps) (auto split: if_splits)
    then show ?thesis using Suc.hyps(1) [of "Suc i"] Suc.hyps(2) Suc.prems by simp
  next
    case True
    then obtain drv s1 where drv: "driver_of_type (file_type de) = Some drv"
      "set_fd i (\<lambda>_. open_entry drv (inode_num de)) s = Some s1" "s' = snd (driver_open dev drv s1)"
      using Suc.prems(3) i d by (subst (asm) open_from.simps) (auto split: Option.bind_splits)
    have "drv \<noteq> Terminal_fops" using drv(1) by (auto simp: driver_of_type_def split: if_splits)
    then have "fds_ok s1" using fds_ok_set_fd [OF Suc.prems(1) drv(2)] Suc.prems(2) open_entry_ok by auto
    then show ?thesis unfolding drv(3) by (rule drv.opn_inv)
  qed
qed

lemma open_std_ok:
  assumes "fds_ok s" and "fd < 2" and "open_std dev fd s = Some (r, s')"
  shows "fds_ok s'"
proof -
  obtain d where d: "cur_fd s fd = Some d" using assms(3) by (auto simp: open_std_def split: Option.bind_splits)
  show ?thesis
  proof (cases "in_use d = 1")
    case False
    then obtain s1 where s1: "set_fd fd (\<lambda>_. open_entry Terminal_fops 0) s = Some s1"
      "s' = snd (driver_open dev Terminal_fops s1)"
      using assms(3) d by (auto simp: open_std_def)
    have "fds_ok s1" using fds_ok_set_fd [OF assms(1) s1(1)] assms(2) open_entry_ok by auto
    then show ?thesis unfolding s1(2) by (rule drv.opn_inv)
  qed (use assms d in \<open>simp add: open_std_def\<close>)
qed

lemma sys_open_ok:
  assumes "fds_ok s" and "sys_open dev name s = Some (r, s')"
  shows "fds_ok s'"
proof -
  consider "open_std dev 0 s = Some (r, s')" | "open_std dev 1 s = Some (r, s')" | "s' = s"
    | de where "open_from dev de 2 s = Some (r, s')"
    using assms(2) by (auto simp: sys_open_def split: Option.bind_splits if_splits option.splits)
  then show ?thesis
  proof cases
    case 1
    then show ?thesis using open_std_ok [OF assms(1), of 0] by simp
  next
    case 2
    then show ?thesis using open_std_ok [OF assms(1), of 1] by simp
  qed (auto simp: assms(1) intro: open_from_ok [OF assms(1) order_refl])
qed

lemma sys_close_ok:
  assumes "fds_ok s" and "sys_close fd s = Some (r, s')"
  shows "fds_ok s'"
  using assms fds_ok_set_fd [OF assms(1), of "unat fd" "\<lambda>d. d\<lparr>in_use := 0\<rparr>"]
  by (auto simp: sys_close_def fd_ok_def split: Option.bind_splits if_splits)

section \<open>What open gives\<close>

text \<open>The state with descriptor \<open>fd\<close> of process \<open>p\<close> replaced.\<close>

definition put_fd :: "nat \<Rightarrow> nat \<Rightarrow> FILE_DATA \<Rightarrow> 'a kern_scheme \<Rightarrow> 'a kern_scheme" where
  "put_fd p fd d s = set_pcb p (\<lambda>b. b\<lparr>fd_array := (fd_array b)[fd := d]\<rparr>) s"

lemma cur_pcb_put [simp]: "cur_pcb (put_fd p fd d s) = cur_pcb s"
  by (simp add: put_fd_def set_pcb_def cur_pcb_def cur_term_def)

lemma put_fd_at:
  "kern_shape s \<Longrightarrow> fd < 8 \<Longrightarrow>
    fd_array (pcbs (put_fd p fd d s) p) ! g = (if g = fd then d else fd_array (pcbs s p) ! g)"
  by (simp add: put_fd_def set_pcb_def kern_shape_def pcb_shape_def)

lemma put_fd_shape: "kern_shape s \<Longrightarrow> kern_shape (put_fd p fd d s)"
  by (simp add: put_fd_def set_pcb_def kern_shape_def pcb_shape_def)

lemma set_fd_put:
  "kern_shape s \<Longrightarrow> cur_pcb s = Some p \<Longrightarrow> fd < 8 \<Longrightarrow>
    set_fd fd f s = Some (put_fd p fd (f (fd_array (pcbs s p) ! fd)) s)"
  by (simp add: set_fd_shape put_fd_def set_pcb_def)

lemma put_fd_same: "put_fd p fd (fd_array (pcbs s p) ! fd) s = s"
  by (cases s; cases "pcbs s p") (simp add: put_fd_def set_pcb_def fun_upd_idem)


text \<open>The first free descriptor from \<open>i\<close> on.\<close>

definition free_fds :: "'a kern_scheme \<Rightarrow> nat \<Rightarrow> nat \<Rightarrow> nat list" where
  "free_fds s p i = filter (\<lambda>fd. in_use (fd_array (pcbs s p) ! fd) = 0) [i..<8]"

lemma open_from_first:
  assumes "kern_shape s" and "cur_pcb s = Some p"
  shows "open_from dev de i s =
    (case driver_of_type (file_type de) of
       None \<Rightarrow> Some (- 1, s)
     | Some drv \<Rightarrow> (case free_fds s p i of
          [] \<Rightarrow> Some (- 1, s)
        | fd # _ \<Rightarrow> Some (of_nat fd, snd (driver_open dev drv (put_fd p fd (open_entry drv (inode_num de)) s)))))"
proof (induction "8 - i" arbitrary: i)
  case 0
  then show ?case by (subst open_from.simps) (simp add: free_fds_def split: option.split)
next
  case (Suc k)
  then have i: "i < 8" "free_fds s p i =
      (if in_use (fd_array (pcbs s p) ! i) = 0 then i # free_fds s p (Suc i) else free_fds s p (Suc i))"
    by (simp_all add: free_fds_def upt_conv_Cons)
  show ?case
    using Suc.hyps(1) [of "Suc i"] Suc.hyps(2) i
    by (subst open_from.simps)
      (auto simp: cur_fd_shape [OF assms i(1)] set_fd_put [OF assms i(1)] split: option.split)
qed

lemma diff_Suc_step: "Suc k = n - i \<Longrightarrow> k = n - Suc i"
  by simp

lemma strncmp_from_lit:
  assumes f: "c_str f xs" and l: "0 \<notin> set ls"
  shows "i \<le> length ls \<Longrightarrow> i \<le> length xs \<Longrightarrow> take i xs = take i ls \<Longrightarrow>
    \<exists>d. strncmp_from f (aget (ls @ [0])) (length ls) i = Some d \<and> (d = 0 \<longleftrightarrow> take (length ls) xs = ls)"
proof (induction "length ls - i" arbitrary: i)
  case 0
  then show ?case by (subst strncmp_from.simps) simp
next
  case (Suc k)
  then have i: "i < length ls" by simp
  then have li: "aget (ls @ [0]) i = Some (ls ! i)" by (simp add: aget_def nth_append)
  have "ls ! i \<noteq> 0" using l nth_mem [OF i] by metis
  note li = li this
  show ?case
  proof (cases "i < length xs \<and> xs ! i = ls ! i")
    case True
    then have "take (Suc i) xs = take (Suc i) ls"
      using Suc.prems(3) i by (simp add: take_Suc_conv_app_nth)
    then obtain d where "strncmp_from f (aget (ls @ [0])) (length ls) (Suc i) = Some d"
      "d = 0 \<longleftrightarrow> take (length ls) xs = ls"
      using Suc.hyps(1) [OF diff_Suc_step [OF Suc.hyps(2)]] i True by auto
    then show ?thesis using True i li c_str_nth [OF f, of i] by (subst strncmp_from.simps) simp
  next
    case False
    have ne: "take (length ls) xs \<noteq> ls"
    proof
      assume t: "take (length ls) xs = ls"
      then have "length ls \<le> length xs" by (metis length_take min.absorb_iff2 min.commute)
      moreover have "xs ! i = ls ! i" using t i by (metis nth_take)
      ultimately show False using False i by simp
    qed
    show ?thesis
    proof (cases "i < length xs")
      case True
      then show ?thesis using False i li ne c_str_nth [OF f, of i] by (subst strncmp_from.simps) simp
    next
      case False
      then have "i = length xs" using Suc.prems(2) by simp
      then have "f i = Some 0" using f by (simp add: c_str_end)
      moreover have "sint (ls ! i) \<noteq> 0" using li(2) sint_u8_inject [of "ls ! i" 0] by simp
      ultimately show ?thesis using i li ne by (subst strncmp_from.simps) simp
    qed
  qed
qed

lemma strncmp_lit:
  assumes "c_str f xs" and "length l = n" and "0 \<notin> set (chars l)"
  shows "\<exists>d. strncmp f (c_lit l) n = Some d \<and> (d = 0 \<longleftrightarrow> take n xs = chars l)"
  using strncmp_from_lit [OF assms(1,3), of 0] assms(2) by (simp add: strncmp_def c_lit_def)

text \<open>\<open>open\<close> of a name that does not start with \<open>stdin\<close> or \<open>stdout\<close>: the first entry of the
  directory that starts with it, the first free descriptor from 2 on.\<close>

lemma sys_open_file:
  assumes "kern_shape s" and "cur_pcb s = Some p" and f: "c_str f xs" "xs \<noteq> []"
    and no: "take 5 xs \<noteq> chars ''stdin''" "take 6 xs \<noteq> chars ''stdout''"
  shows "sys_open dev f s =
    (case filter (starts_with (mem s) (start_fs s) xs) [0..<unat (mem s (start_fs s))] of
       [] \<Rightarrow> Some (- 1, s)
     | k # _ \<Rightarrow> open_from dev (dentry_bytes (mem s) (dir_addr (start_fs s) k)) 2 s)"
proof -
  obtain d1 where d1: "strncmp f (c_lit ''stdin'') 5 = Some d1" "d1 \<noteq> 0"
    using strncmp_lit [OF f(1), of "''stdin''" 5] no(1) by (auto simp: chars_def)
  obtain d2 where d2: "strncmp f (c_lit ''stdout'') 6 = Some d2" "d2 \<noteq> 0"
    using strncmp_lit [OF f(1), of "''stdout''" 6] no(2) by (auto simp: chars_def)
  show ?thesis
    using d1 d2 by (simp add: sys_open_def read_dentry_by_name_first [OF f] split: list.split)
qed

section \<open>Closing, and using a closed descriptor\<close>

lemma sys_close_eq:
  assumes ok: "fds_ok s" and p: "cur_pcb s = Some p" and fd: "2 \<le> unat fd" "unat fd < 8"
  defines "d \<equiv> fd_array (pcbs s p) ! unat fd"
  shows "sys_close fd s = (if in_use d = 0 then Some (- 1, s)
     else Some (0, put_fd p (unat fd) (d\<lparr>in_use := 0\<rparr>) s))"
proof -
  have k: "kern_shape s" using ok by (simp add: fds_ok_def)
  have d: "fd_ok (unat fd) d" using ok fd(2) by (simp add: fds_ok_def d_def)
  have n: "\<not> (fd \<le> 1 \<or> fd > 7)" using fd by (simp add: word_le_nat_alt word_less_nat_alt)
  have close: "driver_close drv fd = 0" for drv
    by (cases drv) (simp_all add: driver_close_def terminal_close_def rtc_close_def dir_close_def file_close_def)
  show ?thesis
    using d n close cur_fd_shape [OF k p fd(2)] set_fd_put [OF k p fd(2)]
    by (auto simp: sys_close_def fd_ok_def d_def)
qed

lemma sys_close_bad:
  "fd \<le> 1 \<or> fd > 7 \<Longrightarrow> sys_close fd s = Some (- 1, s)"
  by (simp add: sys_close_def)

text \<open>A descriptor that is not in use refuses every operation and changes nothing.\<close>

lemma unused_fd_refuses:
  assumes k: "kern_shape s" and p: "cur_pcb s = Some p" and fd: "unat fd < 8"
    and free: "in_use (fd_array (pcbs s p) ! unat fd) = 0"
  shows "sys_read hs fd buf n s = Some (- 1, s)" "sys_write dev fd buf n s = Some (- 1, s)"
    "sys_close fd s = Some (- 1, s)"
proof -
  have "\<not> fd > 7" using fd by (simp add: word_less_nat_alt)
  then show "sys_read hs fd buf n s = Some (- 1, s)" "sys_write dev fd buf n s = Some (- 1, s)"
    "sys_close fd s = Some (- 1, s)"
    using free cur_fd_shape [OF k p fd] by (simp_all add: sys_read_def sys_write_def sys_close_def)
qed

lemma bad_fd_refuses:
  assumes "unat fd \<ge> 8"
  shows "sys_read hs fd buf n s = Some (- 1, s)" "sys_write dev fd buf n s = Some (- 1, s)"
    "sys_close fd s = Some (- 1, s)"
proof -
  have "fd > 7" using assms by (simp add: word_less_nat_alt)
  then show "sys_read hs fd buf n s = Some (- 1, s)" "sys_write dev fd buf n s = Some (- 1, s)"
    "sys_close fd s = Some (- 1, s)"
    by (simp_all add: sys_read_def sys_write_def sys_close_def)
qed

section \<open>Reading a file through its descriptor\<close>

text \<open>What one read of a file delivers: the next bytes of it, the position moved past them, the
  rest of the buffer zero.\<close>

definition file_at :: "nat \<Rightarrow> nat \<Rightarrow> nat \<Rightarrow> 'a kern_scheme \<Rightarrow> bool" where
  "file_at p fd extent s \<longleftrightarrow>
     (let d = fd_array (pcbs s p) ! fd
      in kern_shape s \<and> cur_pcb s = Some p \<and> 2 \<le> fd \<and> fd < 8 \<and> in_use d = 1 \<and> fops d = Some File_fops \<and>
         wf_file (mem s) (start_fs s) extent (info d) \<and> file_len (mem s) (start_fs s) (info d) \<noteq> 0 \<and>
         unat (file_pos d) \<le> file_len (mem s) (start_fs s) (info d))"

definition rest_of :: "nat \<Rightarrow> nat \<Rightarrow> 'a kern_scheme \<Rightarrow> u8 list" where
  "rest_of p fd s = drop (unat (file_pos (fd_array (pcbs s p) ! fd)))
     (contents (mem s) (start_fs s) (info (fd_array (pcbs s p) ! fd)))"

lemma write_bytes_over:
  assumes "length as \<le> length bs" and "length bs < 4294967296"
  shows "write_bytes a as (write_bytes a bs m) = write_bytes a (as @ drop (length as) bs) m"
  using assms by (auto simp: write_bytes_def in_region_def fun_eq_iff nth_append)

lemma file_read_next:
  assumes at: "file_at p fd extent s" and buf: "buf \<noteq> 0"
    and dis: "disjoint_region (start_fs s) extent buf (unat n)"
    and small: "unat n < 2147483648"
  defines "got \<equiv> take (unat n) (rest_of p fd s)"
  defines "d \<equiv> fd_array (pcbs s p) ! fd"
  shows "file_read fd buf n s = Some (of_nat (length got),
    (put_fd p fd (d\<lparr>file_pos := file_pos d + of_nat (length got)\<rparr>)
       s)\<lparr>mem := write_bytes buf (got @ replicate (unat n - length got) 0) (mem s)\<rparr>)"
proof -
  let ?fs = "start_fs s" and ?m = "mem s" and ?c = "contents (mem s) (start_fs s) (info d)"
  define len where "len = file_len ?m ?fs (info d)"
  define k where "k = min (unat n) (len - unat (file_pos d))"
  define m1 where "m1 = write_bytes buf (replicate (unat n) 0) ?m"
  have sh: "kern_shape s" "cur_pcb s = Some p" "fd < 8" and wf: "wf_file ?m ?fs extent (info d)"
    and pos: "unat (file_pos d) \<le> len" "len \<noteq> 0"
    using at by (auto simp: file_at_def Let_def d_def len_def)
  have len: "len \<le> 4096 * 1023" using wf by (simp add: wf_file_def len_def)
  have got: "got = take k (drop (unat (file_pos d)) ?c)" "length got = k"
    by (auto simp: got_def rest_of_def d_def k_def len_def min_def)
  note same = image_eq_file [OF wf image_eq_write [OF dis, of "replicate (unat n) 0"], folded m1_def, simplified]
  have disk: "disjoint_region ?fs extent buf k"
    using dis by (auto simp: disjoint_region_def in_region_def k_def)
  have rd: "read_data m1 ?fs (info d) (file_pos d) buf n = (of_nat k, write_bytes buf got m1)"
    using read_data_reads [OF same(4), of "file_pos d" n k buf] pos len small disk
    by (simp add: same k_def len_def got(1))
  have m2: "write_bytes buf got m1 = write_bytes buf (got @ replicate (unat n - k) 0) ?m"
    using write_bytes_over [of got "replicate (unat n) 0" buf ?m] small got(2)
    by (simp add: m1_def k_def)
  have kk: "k < 2147483648" "unat (of_nat k :: u32) = k" using small by (auto simp: k_def)
  then have pos_iff: "sint (of_nat k :: u32) > 0 \<longleftrightarrow> k \<noteq> 0" by (simp add: sint_u32)
  let ?s1 = "s\<lparr>mem := m1\<rparr>"
  have s1: "kern_shape ?s1" "cur_pcb ?s1 = Some p"
    using sh by (simp_all add: kern_shape_def cur_pcb_def cur_term_def)
  have fd1: "cur_fd ?s1 fd = Some d" using cur_fd_shape [OF s1 sh(3)] by (simp add: d_def)
  have "memset ?m buf 0 n = m1" by (simp add: memset_fill m1_def)
  then have "file_read fd buf n s =
    (if k \<noteq> 0 then map_option (\<lambda>s. (of_nat k, s))
        (set_fd fd (\<lambda>d. d\<lparr>file_pos := file_pos d + of_nat k\<rparr>) (s\<lparr>mem := write_bytes buf got m1\<rparr>))
     else Some (0, s\<lparr>mem := write_bytes buf got m1\<rparr>))"
    using buf fd1 rd pos_iff by (simp add: file_read_def Let_def)
  then show ?thesis
    using sh set_fd_put [of "s\<lparr>mem := write_bytes buf got m1\<rparr>" p fd] put_fd_same [of p fd s]
    by (auto simp: got(2) m2 d_def kern_shape_def cur_pcb_def cur_term_def put_fd_def set_pcb_def)
qed

text \<open>Reading on: as long as the buffers lie outside the image, reads of \<open>n1\<close>, \<open>n2\<close>, ...
  bytes deliver the file piece by piece.\<close>

definition after_read :: "nat \<Rightarrow> nat \<Rightarrow> u32 \<Rightarrow> u32 \<Rightarrow> 'a kern_scheme \<Rightarrow> 'a kern_scheme" where
  "after_read p fd buf n s =
     (let got = take (unat n) (rest_of p fd s);
          d = fd_array (pcbs s p) ! fd
      in (put_fd p fd (d\<lparr>file_pos := file_pos d + of_nat (length got)\<rparr>) s)
           \<lparr>mem := write_bytes buf (got @ replicate (unat n - length got) 0) (mem s)\<rparr>)"

lemma file_read_after:
  assumes "file_at p fd extent s" and "buf \<noteq> 0"
    and "disjoint_region (start_fs s) extent buf (unat n)" and "unat n < 2147483648"
  shows "file_read fd buf n s = Some (of_nat (length (take (unat n) (rest_of p fd s))), after_read p fd buf n s)"
  using file_read_next [OF assms] by (simp add: after_read_def Let_def)

lemma after_read_at:
  assumes at: "file_at p fd extent s"
    and dis: "disjoint_region (start_fs s) extent buf (unat n)"
  shows "file_at p fd extent (after_read p fd buf n s)"
    and "rest_of p fd (after_read p fd buf n s) = drop (unat n) (rest_of p fd s)"
    and "start_fs (after_read p fd buf n s) = start_fs s"
proof -
  define d where "d = fd_array (pcbs s p) ! fd"
  define got where "got = take (unat n) (rest_of p fd s)"
  let ?m' = "write_bytes buf (got @ replicate (unat n - length got) 0) (mem s)"
  define d' where "d' = d\<lparr>file_pos := file_pos d + of_nat (length got)\<rparr>"
  have s': "after_read p fd buf n s = (put_fd p fd d' s)\<lparr>mem := ?m'\<rparr>"
    by (simp add: after_read_def Let_def got_def d_def d'_def)
  have sh: "kern_shape s" "fd < 8" and wf: "wf_file (mem s) (start_fs s) extent (info d)"
    and pos: "unat (file_pos d) \<le> file_len (mem s) (start_fs s) (info d)"
    using at by (auto simp: file_at_def Let_def d_def)
  have len: "file_len (mem s) (start_fs s) (info d) \<le> 4096 * 1023" using wf by (simp add: wf_file_def)
  have "length got \<le> unat n" by (simp add: got_def)
  then have "image_eq (start_fs s) extent (mem s) ?m'"
    by (intro image_eq_write [OF dis]) simp
  note same = image_eq_file [OF wf this]
  show fs: "start_fs (after_read p fd buf n s) = start_fs s"
    by (simp add: s' put_fd_def set_pcb_def)
  have fda: "fd_array (pcbs (after_read p fd buf n s) p) ! fd = d'"
    using put_fd_at [OF sh, of p d' fd] by (simp add: s')
  have mem': "mem (after_read p fd buf n s) = ?m'" by (simp add: s')
  have glen: "length got \<le> file_len (mem s) (start_fs s) (info d) - unat (file_pos d)"
    by (simp add: got_def rest_of_def d_def)
  then have "unat (file_pos d) + length got < 4294967296" using pos len by linarith
  then have p': "unat (file_pos d') = unat (file_pos d) + length got"
    by (simp add: d'_def unat_plus_if_size word_size)
  have "kern_shape (after_read p fd buf n s)" "cur_pcb (after_read p fd buf n s) = cur_pcb s"
    using put_fd_shape [OF sh(1), of p fd d'] cur_pcb_put [of p fd d' s]
    by (simp_all add: s' kern_shape_def cur_pcb_def cur_term_def)
  then show "file_at p fd extent (after_read p fd buf n s)"
    using at same p' glen pos
    by (simp add: file_at_def Let_def fda mem' fs d_def [symmetric]) (simp add: d'_def)
  have "drop (unat (file_pos d) + length got) (contents (mem s) (start_fs s) (info d)) =
      drop (unat n) (drop (unat (file_pos d)) (contents (mem s) (start_fs s) (info d)))"
    by (cases "unat n \<le> length (rest_of p fd s)")
      (simp_all add: got_def rest_of_def d_def add.commute)
  then show "rest_of p fd (after_read p fd buf n s) = drop (unat n) (rest_of p fd s)"
    by (simp add: rest_of_def fda mem' fs p' same(3) d_def [symmetric]) (simp add: d'_def same(3))
qed

text \<open>A sequence of \<open>read\<close> calls on a descriptor, with the bytes they delivered.\<close>

fun read_seq ::
    "('a kern_scheme \<Rightarrow> 'a kern_scheme) list \<Rightarrow> u32 \<Rightarrow> (u32 \<times> u32) list \<Rightarrow> 'a kern_scheme
      \<Rightarrow> (u8 list \<times> 'a kern_scheme) option" where
  "read_seq hs fd [] s = Some ([], s)"
| "read_seq hs fd ((buf, n) # rs) s =
     Option.bind (sys_read hs fd buf n s) (\<lambda>(k, s').
     Option.bind (read_seq hs fd rs s') (\<lambda>(xs, s'').
       Some (bytes_at (mem s') buf (unat k) @ xs, s'')))"

lemma sys_read_file:
  assumes "file_at p (unat fd) extent s" and "buf \<noteq> 0"
  shows "sys_read hs fd buf n s = file_read (unat fd) buf n s"
proof -
  have fd: "unat fd < 8" "kern_shape s" "cur_pcb s = Some p"
    "in_use (fd_array (pcbs s p) ! unat fd) = 1" "fops (fd_array (pcbs s p) ! unat fd) = Some File_fops"
    using assms(1) by (simp_all add: file_at_def Let_def)
  have "\<not> fd > 7" using fd(1) by (simp add: word_less_nat_alt)
  then show ?thesis
    using assms(2) fd cur_fd_shape [OF fd(2,3,1)] by (simp add: sys_read_def driver_read_def)
qed

lemma read_seq_contents:
  "file_at p (unat fd) extent s \<Longrightarrow>
   \<forall>(buf, n) \<in> set rs. buf \<noteq> 0 \<and> disjoint_region (start_fs s) extent buf (unat n) \<and> unat n < 2147483648 \<Longrightarrow>
     \<exists>s'. read_seq hs fd rs s = Some (take (sum_list (map (\<lambda>r. unat (snd r)) rs)) (rest_of p (unat fd) s), s')"
proof (induction rs arbitrary: s)
  case Nil
  then show ?case by simp
next
  case (Cons r rs)
  obtain buf n where r: "r = (buf, n)" by fastforce
  let ?s = "after_read p (unat fd) buf n s"
  let ?got = "take (unat n) (rest_of p (unat fd) s)"
  have buf: "buf \<noteq> 0" "disjoint_region (start_fs s) extent buf (unat n)" "unat n < 2147483648"
    using Cons.prems(2) by (simp_all add: r)
  note next' = after_read_at [OF Cons.prems(1) buf(2)]
  have rd: "sys_read hs fd buf n s = Some (of_nat (length ?got), ?s)"
    using sys_read_file [OF Cons.prems(1) buf(1)] file_read_after [OF Cons.prems(1) buf] by simp
  obtain s' where s': "read_seq hs fd rs ?s =
      Some (take (sum_list (map (\<lambda>r. unat (snd r)) rs)) (rest_of p (unat fd) ?s), s')"
    using Cons.IH [of ?s] Cons.prems(2) next' by auto
  have l: "length ?got \<le> unat n" "length ?got < 4294967296" using buf(3) by simp_all
  have m: "mem ?s = write_bytes buf (?got @ replicate (unat n - length ?got) 0) (mem s)"
    by (simp add: after_read_def Let_def)
  have "bytes_at (mem ?s) buf (length ?got) = ?got"
    using l buf(3) unfolding m
    by (intro nth_equalityI) (simp_all add: nth_bytes_at write_bytes_inside nth_append)
  then have "read_seq hs fd (r # rs) s = Some (?got @
      take (sum_list (map (\<lambda>r. unat (snd r)) rs)) (drop (unat n) (rest_of p (unat fd) s)), s')"
    using rd s' l(2) by (simp add: r next'(2))
  then show ?case by (auto simp: r take_add)
qed

end
