(* ===== verification/Process.thy ===== *)
theory Process
  imports Fd_Spec
begin

text \<open>
  Processes and terminals, \<^verbatim>\<open>student-distrib/syscalls.c\<close>: \<open>execute\<close>, \<open>halt\<close>,
  \<open>calc_processes\<close> and \<open>switch_to_other_term\<close>. Where the code leaves a function by
  changing the stack, the result says how. Addresses that the compiler and the linker choose
  (of the local \<open>is_executable\<close>, of the global \<open>entry_point\<close>) and the stack registers of the
  running function are parameters.
\<close>

text \<open>How a call ends: it returns a value, enters a program at an address, or goes on with
  another kernel stack.\<close>

datatype 's outcome = Return u32 's | Enter_user u32 's | Resume u32 u32 's

record frame =
  esp :: u32
  ebp :: u32
  exec_buf :: u32

record klayout = layout +
  entry_point :: u32

section \<open>Parsing a command\<close>

record parse =
  file_name :: "u8 list"
  file_cur_char :: nat
  arg_buffer :: "u8 list"
  arg_cur_char :: nat
  handled_lz :: nat
  parsed_filename :: nat

text \<open>Both buffers after \<open>strncpy(.., "\0", ..)\<close> are zero.\<close>

definition parse_start :: parse where
  "parse_start = \<lparr>file_name = replicate FILENAME_SIZE 0, file_cur_char = 0,
     arg_buffer = replicate MAX_ARG_BUF_SIZE 0, arg_cur_char = 0, handled_lz = 0, parsed_filename = 0\<rparr>"

text \<open>The body of the loop from line 205 on.\<close>

definition parse_char :: "u8 \<Rightarrow> parse \<Rightarrow> parse option" where
  "parse_char c st =
     (let st1 = (if c \<noteq> 0x20 \<and> handled_lz st = 0 then st\<lparr>handled_lz := 1\<rparr> else st)
      in if parsed_filename st1 = 0 \<and> handled_lz st1 = 1 then
           Option.bind (if c \<noteq> 0x20 \<and> handled_lz st1 = 1
                 then map_option (\<lambda>f. st1\<lparr>file_name := f, file_cur_char := file_cur_char st1 + 1\<rparr>)
                        (aput (file_cur_char st1) c (file_name st1))
                 else Some st1) (\<lambda>st2.
           Some (if c = 0x20 \<and> handled_lz st2 = 1 then st2\<lparr>parsed_filename := 1, handled_lz := 0\<rparr> else st2))
         else if handled_lz st1 = 1 then
           map_option (\<lambda>a. st1\<lparr>arg_buffer := a, arg_cur_char := arg_cur_char st1 + 1\<rparr>)
             (aput (arg_cur_char st1) c (arg_buffer st1))
         else Some st1)"

partial_function (option) parse_loop :: "cptr \<Rightarrow> nat \<Rightarrow> parse \<Rightarrow> (nat \<times> parse) option" where
  "parse_loop command cur_char st =
     Option.bind (strlen command) (\<lambda>len.
       if cur_char < len then
         Option.bind (command cur_char) (\<lambda>c.
         Option.bind (parse_char c st) (\<lambda>st'. parse_loop command (Suc cur_char) st'))
       else Some (cur_char, st))"

text \<open>Lines 254 to 257: the terminators. That of the name goes to the index of the command's
  end.\<close>

definition parse_command :: "cptr \<Rightarrow> (u8 list \<times> u8 list) option" where
  "parse_command command =
     Option.bind (parse_loop command 0 parse_start) (\<lambda>(cur_char, st).
     Option.bind (aput cur_char 0 (file_name st)) (\<lambda>f.
     Option.bind (if arg_buffer st ! 0 \<noteq> 0 then aput (arg_cur_char st) 0 (arg_buffer st) else Some (arg_buffer st)) (\<lambda>a.
       Some (f, a))))"

section \<open>execute\<close>

text \<open>The first free bit of the process vector, set; 6 when the six are taken.\<close>

function find_slot :: "nat \<Rightarrow> u8 \<Rightarrow> u8 \<Rightarrow> nat \<times> u8" where
  "find_slot p_i p_mask procs =
     (if p_i < 6 then
        if procs AND p_mask = 0 then (p_i, procs OR p_mask)
        else find_slot (Suc p_i) (push_bit 1 p_mask) procs
      else (p_i, procs))"
  by pat_completeness auto
termination
  by (relation "measure (\<lambda>(i, m, v). 6 - i)") auto

declare find_slot.simps [simp del]

text \<open>Lines 346 to 428: the control block.\<close>

definition init_pcb :: "frame \<Rightarrow> nat \<Rightarrow> u8 list \<Rightarrow> u8 list \<Rightarrow> 'a kern_scheme \<Rightarrow> 'a kern_scheme option" where
  "init_pcb fr p_i name argb s =
     Option.bind (cur_term s) (\<lambda>t.
       let parent = (if been_here t = 1 then running_pcb t else None)
       in Option.bind (set_term (\<lambda>t. t\<lparr>running_pcb := Some p_i\<rparr>) s) (\<lambda>s1.
          let s2 = (if been_here t \<noteq> 1 then set_pcb p_i (\<lambda>b. b\<lparr>term_start := 1\<rparr>) s1 else s1)
          in Option.bind (set_term (\<lambda>t. t\<lparr>been_here := 1\<rparr>) s2) (\<lambda>s3.
             let s4 = set_pcb p_i (\<lambda>b. b\<lparr>process_num := of_nat p_i, args := replicate MAX_ARG_BUF_SIZE 0,
                        pname := replicate FILENAME_SIZE 0\<rparr>) s3
             in Option.bind (strncpy (put_from 0) (pname (pcbs s4 p_i)) (aget name) FILENAME_SIZE) (\<lambda>nm.
                let s5 = set_pcb p_i (\<lambda>b. b\<lparr>pname := nm\<rparr>) s4;
                    s6 = (if p_i = 0 then set_pcb p_i (\<lambda>b. b\<lparr>parent_sp := 0, parent_bp := 0, parent_pcb := None\<rparr>) s5
                          else set_pcb p_i (\<lambda>b. b\<lparr>parent_sp := esp fr, parent_bp := ebp fr, parent_pcb := parent\<rparr>) s5)
                in Option.bind (strlen (aget argb)) (\<lambda>len.
                   if len \<noteq> 0 then
                     map_option (\<lambda>as. set_pcb p_i (\<lambda>b. b\<lparr>args := as\<rparr>) s6)
                       (strncpy (put_from 0) (args (pcbs s6 p_i)) (aget argb)
                          (if len > MAX_ARG_BUF_SIZE then MAX_ARG_BUF_SIZE else len))
                   else Some s6)))))"

definition EXEC_BITS :: "u8 list" where "EXEC_BITS = [0x7F, 0x45, 0x4C, 0x46]"
definition P_I_ENTRY_POINT :: u32 where "P_I_ENTRY_POINT = 0x08048000"

definition kernel_stack_top :: "nat \<Rightarrow> u32" where
  "kernel_stack_top p = EIGHT_MB - 0x2000 * of_nat p - 4"

text \<open>Lines 310 to 442, after the checks. The image is written through the page just mapped, at one
  stretch of physical memory; a file that does not fit between its load address and the end of
  the page runs into the next page, which is outside the model.\<close>

definition start_process ::
    "klayout \<Rightarrow> device \<Rightarrow> frame \<Rightarrow> u8 list \<Rightarrow> u8 list \<Rightarrow> u32 \<Rightarrow> 'a kern_scheme
      \<Rightarrow> 'a kern_scheme outcome option" where
  "start_process L dev fr name argb inode s =
     (let (p_i, procs) = find_slot 0 1 (processes s)
      in Option.bind (load_new_process (layout.truncate L) (of_nat p_i) (s\<lparr>processes := procs\<rparr>)) (\<lambda>s1.
         let (r, m1) = read_data (mem s1) (start_fs s1) inode 24 (entry_point L) 4;
             s2 = s1\<lparr>mem := m1\<rparr>
         in if r = - 1 then Some (Return (- 1) s2)
            else Option.bind (translate (layout.truncate L) s2 False P_I_ENTRY_POINT) (\<lambda>image.
              let len = load32 (mem s2) (start_fs s2 + 4096 + inode * 4096);
                  s3 = s2\<lparr>mem := snd (read_data (mem s2) (start_fs s2) inode 0 image len)\<rparr>
              in if len > 0x3B8000 then None
                 else Option.bind (init_pcb fr p_i name argb s3) (\<lambda>s4.
                 Option.bind (sys_open dev (c_lit ''stdin'') s4) (\<lambda>(_, s5).
                 Option.bind (sys_open dev (c_lit ''stdout'') s5) (\<lambda>(_, s6).
                   let eip = load32 (mem s6) (entry_point L);
                       s7 = s6\<lparr>correct_eip := eip, tss_esp0 := kernel_stack_top p_i\<rparr>
                   in Some (Enter_user eip s7)))))))"

definition execute ::
    "klayout \<Rightarrow> device \<Rightarrow> frame \<Rightarrow> cptr option \<Rightarrow> 'a kern_scheme \<Rightarrow> 'a kern_scheme outcome option" where
  "execute L dev fr command s =
     (case command of
        None \<Rightarrow> Some (Return (- 1) (cli s))
      | Some cmd \<Rightarrow>
          let s0 = cli s
          in Option.bind (parse_command cmd) (\<lambda>(name, argb).
             Option.bind (read_dentry_by_name (mem s0) (start_fs s0) (Some (aget name))) (\<lambda>(x, d_entry).
               case d_entry of
                 None \<Rightarrow> Some (Return (- 1) s0)
               | Some d \<Rightarrow>
                   let (r, m) = read_data (mem s0) (start_fs s0) (inode_num d) 0 (exec_buf fr) 4;
                       s1 = s0\<lparr>mem := m\<rparr>
                   in if r = - 1 then Some (Return (- 1) s1)
                      else Option.bind (strncmp (ptr_mem (mem s1) (exec_buf fr)) (aget EXEC_BITS) 4) (\<lambda>c.
                        if c \<noteq> 0 then Some (Return (- 1) s1)
                        else if processes s1 = 0x3F then
                          map_option (\<lambda>(_, s2). Return (- 10) s2)
                            (printf (chars ''Max number of processes reached'' @ [0x0A]) [] s1)
                        else start_process L dev fr name argb (inode_num d) s1))))"

text \<open>What \<open>execute\<close> does when a program it started halts: the code at \<open>label\<close>.\<close>

definition execute_resumed :: "'a kern_scheme \<Rightarrow> u32 \<times> 'a kern_scheme" where
  "execute_resumed s = (0, sti s)"

section \<open>halt\<close>

definition process_clear_bitmasks :: "u8 list" where
  "process_clear_bitmasks = [0x3e, 0x3d, 0x3b, 0x37, 0x2f, 0x1f]"

fun close_from :: "nat list \<Rightarrow> 'a kern_scheme \<Rightarrow> 'a kern_scheme option" where
  "close_from [] s = Some s"
| "close_from (i # is) s =
     Option.bind (cur_fd s i) (\<lambda>d.
     Option.bind (if in_use d = 1 then map_option snd (sys_close (of_nat i) s) else Some s) (close_from is))"

definition halt ::
    "klayout \<Rightarrow> device \<Rightarrow> frame \<Rightarrow> u8 \<Rightarrow> 'a kern_scheme \<Rightarrow> 'a kern_scheme outcome option" where
  "halt L dev fr status s =
     (let s0 = cli s
      in Option.bind (cur_term s0) (\<lambda>t.
         case running_pcb t of
           None \<Rightarrow> Some (Return (- 1) s0)
         | Some p \<Rightarrow>
             Option.bind (aget process_clear_bitmasks (unat (process_num (pcbs s0 p)))) (\<lambda>mask.
             Option.bind (close_from [0..<8] (s0\<lparr>processes := processes s0 AND mask\<rparr>)) (\<lambda>s1.
               let s2 = set_pcb p (\<lambda>b. b\<lparr>args := replicate MAX_ARG_BUF_SIZE 0, pname := replicate FILENAME_SIZE 0\<rparr>) s1
               in Option.bind
                    (if process_num (pcbs s2 p) = 0 \<or> term_start (pcbs s2 p) = 1
                     then execute L dev fr (Some (c_lit ''shell'')) s2
                     else Option.bind (set_term (\<lambda>t. t\<lparr>running_pcb := parent_pcb (pcbs s2 p)\<rparr>)
                              (s2\<lparr>old_ebp := parent_bp (pcbs s2 p), old_esp := parent_sp (pcbs s2 p)\<rparr>)) (\<lambda>s3.
                          Option.bind (parent_pcb (pcbs s2 p)) (\<lambda>q.
                            map_option (Return 0)
                              (load_new_process (layout.truncate L) (process_num (pcbs s3 q)) s3))))
                    (\<lambda>out. case out of
                        Return r s4 \<Rightarrow>
                          Option.bind (cur_pcb s4) (\<lambda>q.
                            let s5 = sti (s4\<lparr>tss_esp0 := kernel_stack_top (unat (process_num (pcbs s4 q)))\<rparr>)
                            in Some (Resume (old_esp s5) (old_ebp s5) s5))
                      | Enter_user e s4 \<Rightarrow> Some (Enter_user e s4)
                      | Resume a b s4 \<Rightarrow> Some (Resume a b s4))))))"

section \<open>Counting processes, switching terminals\<close>

text \<open>\<open>process_count\<close> has no initial value: what its place on the stack holds is a parameter.\<close>

definition calc_processes :: "u32 \<Rightarrow> 'a kern_scheme \<Rightarrow> u32" where
  "calc_processes junk s =
     (let processes_bit_mask = (0x01 :: u8)
      in for_loop 0 6 (\<lambda>i process_count.
           if processes s AND processes_bit_mask \<noteq> 0 then process_count + 1 else process_count) junk)"

abbreviation SCREEN_BYTES :: u32 where "SCREEN_BYTES \<equiv> 4000"

text \<open>The part both branches start with: lines 768 to 783 and 797 to 811.\<close>

definition save_terminal :: "frame \<Rightarrow> 'a kern_scheme \<Rightarrow> 'a kern_scheme option" where
  "save_terminal fr s =
     Option.bind (cur_term s) (\<lambda>t.
       let s1 = s\<lparr>mem := memcpy (mem s) (vid_mem t) VIDEO SCREEN_BYTES\<rparr>;
           s2 = s1\<lparr>esp_store := esp fr, ebp_store := ebp fr\<rparr>
       in set_term (\<lambda>t. t\<lparr>keyboard_buffer := input_buffer s1, term_cursor_x := cursor_x s1,
                          term_cursor_y := cursor_y s1, current_esp := esp_store s2,
                          current_ebp := ebp_store s2, esp0 := tss_esp0 s2\<rparr>) s2)"

definition restore_terminal :: "klayout \<Rightarrow> 'a kern_scheme \<Rightarrow> 'a kern_scheme outcome option" where
  "restore_terminal L s =
     Option.bind (cur_term s) (\<lambda>t.
       let s1 = s\<lparr>mem := memcpy (mem s) VIDEO (vid_mem t) SCREEN_BYTES, input_buffer := keyboard_buffer t,
                  cursor_x := term_cursor_x t, cursor_y := term_cursor_y t\<rparr>;
           s2 = move_cursor_to (cursor_x s1) (cursor_y s1) s1;
           s3 = s2\<lparr>esp_store := current_esp t, ebp_store := current_ebp t\<rparr>
       in Option.bind (running_pcb t) (\<lambda>p.
          Option.bind (load_new_process (layout.truncate L) (process_num (pcbs s3 p)) s3) (\<lambda>s4.
            Some (Resume (esp_store s4) (ebp_store s4) (s4\<lparr>tss_esp0 := esp0 t\<rparr>)))))"

definition switch_to_other_term ::
    "klayout \<Rightarrow> device \<Rightarrow> frame \<Rightarrow> frame \<Rightarrow> u8 \<Rightarrow> 'a kern_scheme \<Rightarrow> 'a kern_scheme outcome option" where
  "switch_to_other_term L dev fr fr_execute trm s =
     Option.bind (aget (terms s) (unat trm)) (\<lambda>target.
     Option.bind (save_terminal fr s) (\<lambda>s1.
       if been_here target \<noteq> 1 then
         let s2 = send_eoi 1 (clear_screen s1)
         in Option.bind (execute L dev fr_execute (Some (c_lit ''shell'')) (s2\<lparr>current_terminal := trm\<rparr>)) (\<lambda>out.
              case out of Return r s3 \<Rightarrow> Some (Return 0 s3) | _ \<Rightarrow> Some out)
       else restore_terminal L ((send_eoi 1 s1)\<lparr>current_terminal := trm\<rparr>)))"

end
