(* ===== verification/Process_Spec.thy ===== *)
theory Process_Spec
  imports Process
begin

text \<open>
  What \<open>execute\<close>, \<open>halt\<close> and the terminal switch promise: how a command splits into a name
  and arguments, which slot a process gets, what memory, page tables and control block a
  program starts with, that a halt goes back to the parent with the parent's stack, and that
  a terminal comes back as it was left.
\<close>

section \<open>The command line\<close>

text \<open>The first word, and what follows it from the next non-blank on.\<close>

definition cmd_name :: "u8 list \<Rightarrow> u8 list" where
  "cmd_name xs = takeWhile (\<lambda>c. c \<noteq> 0x20) (dropWhile (\<lambda>c. c = 0x20) xs)"

definition cmd_args :: "u8 list \<Rightarrow> u8 list" where
  "cmd_args xs = dropWhile (\<lambda>c. c = 0x20) (dropWhile (\<lambda>c. c \<noteq> 0x20) (dropWhile (\<lambda>c. c = 0x20) xs))"

definition pad :: "nat \<Rightarrow> u8 list \<Rightarrow> u8 list" where
  "pad n xs = xs @ replicate (n - length xs) 0"

definition parse_at :: "u8 list \<Rightarrow> u8 list \<Rightarrow> nat \<Rightarrow> nat \<Rightarrow> parse" where
  "parse_at nm ar h p = \<lparr>file_name = pad 32 nm, file_cur_char = length nm, arg_buffer = pad 95 ar,
     arg_cur_char = length ar, handled_lz = h, parsed_filename = p\<rparr>"

fun parse_list :: "u8 list \<Rightarrow> parse \<Rightarrow> parse option" where
  "parse_list [] st = Some st"
| "parse_list (c # cs) st = Option.bind (parse_char c st) (parse_list cs)"

lemma parse_loop_list:
  assumes "c_str command xs"
  shows "k \<le> length xs \<Longrightarrow> parse_loop command k st = map_option (\<lambda>st. (length xs, st)) (parse_list (drop k xs) st)"
proof (induction "length xs - k" arbitrary: k st)
  case 0
  then have "k = length xs" by simp
  then show ?case by (subst parse_loop.simps) (simp add: strlen_c_str [OF assms])
next
  case (Suc n)
  then have k: "k < length xs" by simp
  then have "drop k xs = xs ! k # drop (Suc k) xs" by (simp add: Cons_nth_drop_Suc)
  moreover have "parse_loop command (Suc k) st' = map_option (\<lambda>st. (length xs, st)) (parse_list (drop (Suc k) xs) st')" for st'
    using Suc.hyps(1) [of "Suc k"] Suc.hyps(2) k by simp
  ultimately show ?case
    using k by (subst parse_loop.simps)
      (cases "parse_char (xs ! k) st"; simp add: strlen_c_str [OF assms] c_str_nth [OF assms])
qed

lemma pad_put: "length xs < n \<Longrightarrow> aput (length xs) c (pad n xs) = Some (pad n (xs @ [c]))"
proof -
  assume "length xs < n"
  then obtain k where "n - length xs = Suc k" by (metis Suc_diff_Suc)
  moreover from this have "n - Suc (length xs) = k" by simp
  ultimately show ?thesis by (simp add: pad_def aput_def list_update_append)
qed

text \<open>The four states of the parser.\<close>

lemma parse_char_at:
  "parse_char c (parse_at nm ar 0 0) = (if c = 0x20 then Some (parse_at nm ar 0 0)
     else if length nm < 32 then Some (parse_at (nm @ [c]) ar 1 0) else None)"
  "parse_char c (parse_at nm ar 1 0) = (if c = 0x20 then Some (parse_at nm ar 0 1)
     else if length nm < 32 then Some (parse_at (nm @ [c]) ar 1 0) else None)"
  "parse_char c (parse_at nm ar 0 1) = (if c = 0x20 then Some (parse_at nm ar 0 1)
     else if length ar < 95 then Some (parse_at nm (ar @ [c]) 1 1) else None)"
  "parse_char c (parse_at nm ar 1 1) =
     (if length ar < 95 then Some (parse_at nm (ar @ [c]) 1 1) else None)"
proof -
  have full: "aput (length xs) c (pad n xs) = None" if "\<not> length xs < n" for xs n
    using that by (simp add: pad_def aput_def)
  show "parse_char c (parse_at nm ar 0 0) = (if c = 0x20 then Some (parse_at nm ar 0 0)
     else if length nm < 32 then Some (parse_at (nm @ [c]) ar 1 0) else None)"
    "parse_char c (parse_at nm ar 1 0) = (if c = 0x20 then Some (parse_at nm ar 0 1)
     else if length nm < 32 then Some (parse_at (nm @ [c]) ar 1 0) else None)"
    "parse_char c (parse_at nm ar 0 1) = (if c = 0x20 then Some (parse_at nm ar 0 1)
     else if length ar < 95 then Some (parse_at nm (ar @ [c]) 1 1) else None)"
    "parse_char c (parse_at nm ar 1 1) =
     (if length ar < 95 then Some (parse_at nm (ar @ [c]) 1 1) else None)"
    by (simp_all add: parse_char_def parse_at_def Let_def pad_put full)
qed

lemmas parse_steps = parse_char_at parse_char_at [simplified One_nat_def]

lemma parse_args: "length ar + length xs \<le> 95 \<Longrightarrow> parse_list xs (parse_at nm ar 1 1) = Some (parse_at nm (ar @ xs) 1 1)"
  by (induction xs arbitrary: ar) (simp_all add: parse_steps)

lemma parse_gap:
  "length xs \<le> 95 \<Longrightarrow> \<exists>h. parse_list xs (parse_at nm [] 0 1) = Some (parse_at nm (dropWhile (\<lambda>c. c = 0x20) xs) h 1)"
proof (induction xs)
  case (Cons c xs)
  then show ?case using parse_args [of "[c]" xs nm] by (cases "c = 0x20") (auto simp: parse_steps)
qed auto

lemma parse_word:
  "length nm + length xs \<le> 32 \<Longrightarrow> \<exists>h p. parse_list xs (parse_at nm [] 1 0) =
     Some (parse_at (nm @ takeWhile (\<lambda>c. c \<noteq> 0x20) xs) (dropWhile (\<lambda>c. c = 0x20) (dropWhile (\<lambda>c. c \<noteq> 0x20) xs)) h p)"
proof (induction xs arbitrary: nm)
  case (Cons c xs)
  show ?case
  proof (cases "c = 0x20")
    case True
    then show ?thesis using parse_gap [of xs nm] Cons.prems by (auto simp: parse_steps)
  next
    case False
    then show ?thesis using Cons.IH [of "nm @ [c]"] Cons.prems by (simp add: parse_steps)
  qed
qed (auto simp: parse_at_def)

lemma parse_list_command:
  "length xs \<le> 32 \<Longrightarrow> \<exists>h p. parse_list xs (parse_at [] [] 0 0) = Some (parse_at (cmd_name xs) (cmd_args xs) h p)"
proof (induction xs)
  case (Cons c xs)
  show ?case
  proof (cases "c = 0x20")
    case True
    then show ?thesis using Cons by (simp add: parse_char_at cmd_name_def cmd_args_def)
  next
    case False
    then show ?thesis using parse_word [of "[c]" xs] Cons.prems
      by (simp add: parse_char_at cmd_name_def cmd_args_def)
  qed
qed (auto simp: parse_at_def cmd_name_def cmd_args_def)

lemma cmd_lengths: "length (cmd_name xs) + length (cmd_args xs) \<le> length xs"
proof -
  let ?r = "dropWhile (\<lambda>c. c = 0x20) xs"
  have "length (takeWhile (\<lambda>c. c \<noteq> 0x20) ?r) + length (dropWhile (\<lambda>c. c \<noteq> 0x20) ?r) = length ?r"
    by (metis length_append takeWhile_dropWhile_id)
  then show ?thesis
    using length_dropWhile_le [of "\<lambda>c. c = 0x20" xs]
      length_dropWhile_le [of "\<lambda>c. c = 0x20" "dropWhile (\<lambda>c. c \<noteq> 0x20) ?r"]
    by (simp add: cmd_name_def cmd_args_def)
qed

lemma pad_zero_at: "length xs \<le> k \<Longrightarrow> k < n \<Longrightarrow> aput k 0 (pad n xs) = Some (pad n xs)"
proof -
  assume a: "length xs \<le> k" "k < n"
  have "(xs @ replicate (n - length xs) 0)[k := 0] = xs @ replicate (n - length xs) 0"
    using a by (simp add: list_update_append list_update_same_conv)
  with a show ?thesis by (simp add: pad_def aput_def)
qed

text \<open>A command of less than 32 bytes is split into its first word and its arguments; a longer
  one writes its terminator past the name.\<close>

lemma parse_command_splits:
  assumes c: "c_str command xs" and len: "length xs < 32"
  shows "parse_command command = Some (pad 32 (cmd_name xs), pad 95 (cmd_args xs))"
proof -
  obtain h p where hp: "parse_list xs (parse_at [] [] 0 0) = Some (parse_at (cmd_name xs) (cmd_args xs) h p)"
    using parse_list_command [of xs] len by auto
  have start: "parse_start = parse_at [] [] 0 0" by (simp add: parse_start_def parse_at_def pad_def)
  have "parse_loop command 0 parse_start = Some (length xs, parse_at (cmd_name xs) (cmd_args xs) h p)"
    using parse_loop_list [OF c, of 0] hp by (simp add: start)
  moreover have "aput (length xs) 0 (pad 32 (cmd_name xs)) = Some (pad 32 (cmd_name xs))"
    using cmd_lengths [of xs] len by (intro pad_zero_at) simp_all
  moreover have "aput (length (cmd_args xs)) 0 (pad 95 (cmd_args xs)) = Some (pad 95 (cmd_args xs))"
    using cmd_lengths [of xs] len by (intro pad_zero_at) simp_all
  ultimately show ?thesis by (simp add: parse_command_def parse_at_def)
qed

lemma parse_command_overflow:
  assumes "c_str command xs" and "32 \<le> length xs"
  shows "parse_command command = None"
proof -
  have len: "length (file_name st') = length (file_name st)" if "parse_char c st = Some st'" for c st st'
    using that by (auto simp: parse_char_def Let_def c_array split: if_splits)
  have lens: "length (file_name st') = length (file_name st)" if "parse_list cs st = Some st'" for cs st st'
    using that by (induction cs arbitrary: st) (auto dest: len split: Option.bind_splits)
  show ?thesis
  proof (cases "parse_list xs parse_start")
    case None
    then show ?thesis using parse_loop_list [OF assms(1), of 0] by (simp add: parse_command_def)
  next
    case (Some st)
    then have "length (file_name st) = 32" using lens by (simp add: parse_start_def)
    then have "aput (length xs) 0 (file_name st) = None" using assms(2) by (simp add: aput_def)
    then show ?thesis using parse_loop_list [OF assms(1), of 0 parse_start] Some by (simp add: parse_command_def)
  qed
qed

section \<open>The slot of a process\<close>

lemma slot_bit: "i < 8 \<Longrightarrow> (v :: u8) AND push_bit i 1 = 0 \<longleftrightarrow> \<not> bit v i"
proof -
  assume i: "i < 8"
  have "v AND push_bit i 1 = (if bit v i then push_bit i 1 else 0)"
    by (rule bit_word_eqI) (auto simp: bit_simps)
  moreover have "(push_bit i 1 :: u8) \<noteq> 0"
  proof
    assume "(push_bit i 1 :: u8) = 0"
    then have "bit (push_bit i 1 :: u8) i = bit (0 :: u8) i" by (simp only:)
    then show False using i by (simp add: bit_simps)
  qed
  ultimately show ?thesis by simp
qed

definition free_slots :: "nat \<Rightarrow> u8 \<Rightarrow> nat list" where
  "free_slots i v = filter (\<lambda>p. \<not> bit v p) [i..<6]"

lemma find_slot_first:
  "i \<le> 6 \<Longrightarrow> find_slot i (push_bit i 1) v =
    (case free_slots i v of [] \<Rightarrow> (6, v) | p # _ \<Rightarrow> (p, v OR push_bit p 1))"
proof (induction "6 - i" arbitrary: i)
  case 0
  then show ?case by (subst find_slot.simps) (simp add: free_slots_def)
next
  case (Suc k)
  then have i: "i < 6" "free_slots i v = (if bit v i then free_slots (Suc i) v else i # free_slots (Suc i) v)"
    by (simp_all add: free_slots_def upt_conv_Cons)
  have "push_bit 1 (push_bit i (1 :: u8)) = push_bit (Suc i) 1" by simp
  moreover have "find_slot (Suc i) (push_bit (Suc i) 1) v =
      (case free_slots (Suc i) v of [] \<Rightarrow> (6, v) | p # _ \<Rightarrow> (p, v OR push_bit p 1))"
    using Suc.hyps(1) [of "Suc i"] Suc.hyps(2) i(1) by (simp del: push_bit_Suc)
  moreover have "v AND push_bit i 1 = 0 \<longleftrightarrow> \<not> bit v i" using i(1) by (intro slot_bit) simp
  ultimately show ?case
    using i by (subst find_slot.simps) (cases "bit v i"; simp only: if_True if_False list.case simp_thms)
qed

section \<open>The control block\<close>

lemma kern_more_paging:
  assumes "paging.more s = paging.more (t :: 'a kern_scheme)"
  shows "start_fs s = start_fs t" "terms s = terms t" "pcbs s = pcbs t" "processes s = processes t"
    "current_terminal s = current_terminal t" "input_buffer s = input_buffer t" "temp_buffer s = temp_buffer t"
    "length_typed s = length_typed t" "fs.more s = fs.more t"
  using assms by (cases s; cases t; simp)+

lemma c_str_pad: "0 \<notin> set xs \<Longrightarrow> length xs < n \<Longrightarrow> c_str (aget (pad n xs)) xs"
proof -
  assume a: "0 \<notin> set xs" "length xs < n"
  then obtain k where "n - length xs = Suc k" by (metis Suc_diff_Suc)
  then show ?thesis using a by (simp add: pad_def c_str_aget)
qed

lemma shape_new_term:
  assumes "kern_shape s" and "\<And>t. length (keyboard_buffer (f t)) = length (keyboard_buffer t)"
  shows "kern_shape (s\<lparr>terms := (terms s)[i := f (terms s ! i)]\<rparr>)"
proof (cases "i < length (terms s)")
  case True
  then have "terms s ! i \<in> set (terms s)" by simp
  then show ?thesis
    using assms by (auto simp: kern_shape_def dest!: set_update_subset_insert [THEN subsetD])
next
  case False
  then have "(terms s)[i := f (terms s ! i)] = terms s" by (simp add: list_update_beyond)
  then show ?thesis using assms(1) by simp
qed

lemma shape_new_pcb: "kern_shape s \<Longrightarrow> pcb_shape b \<Longrightarrow> kern_shape (s\<lparr>pcbs := (pcbs s)(p := b)\<rparr>)"
  by (simp add: kern_shape_def)

lemma shape_new_fds: "kern_shape s \<Longrightarrow> length a = 8 \<Longrightarrow> kern_shape (set_pcb p (\<lambda>b. b\<lparr>fd_array := a\<rparr>) s)"
  by (simp add: kern_shape_def set_pcb_def pcb_shape_def)

definition new_pcb :: "frame \<Rightarrow> nat \<Rightarrow> u8 list \<Rightarrow> u8 list \<Rightarrow> terminal \<Rightarrow> pcb \<Rightarrow> pcb" where
  "new_pcb fr p nm ar t b = b\<lparr>process_num := of_nat p,
     parent_sp := (if p = 0 then 0 else esp fr), parent_bp := (if p = 0 then 0 else ebp fr),
     parent_pcb := (if p = 0 then None else if been_here t = 1 then running_pcb t else None),
     pname := pad 32 nm, args := pad 95 ar, term_start := (if been_here t = 1 then term_start b else 1)\<rparr>"

definition with_pcb :: "frame \<Rightarrow> nat \<Rightarrow> u8 list \<Rightarrow> u8 list \<Rightarrow> 'a kern_scheme \<Rightarrow> 'a kern_scheme" where
  "with_pcb fr p nm ar s =
     (let c = unat (current_terminal s)
      in s\<lparr>terms := (terms s)[c := (terms s ! c)\<lparr>running_pcb := Some p, been_here := 1\<rparr>],
           pcbs := (pcbs s)(p := new_pcb fr p nm ar (terms s ! c) (pcbs s p))\<rparr>)"

lemma init_pcb_eq:
  assumes k: "kern_shape s" and nm: "0 \<notin> set nm" "length nm < 32" and ar: "0 \<notin> set ar" "length ar < 95"
  shows "init_pcb fr p (pad 32 nm) (pad 95 ar) s = Some (with_pcb fr p nm ar s)"
proof -
  define c where "c = unat (current_terminal s)"
  let ?t = "terms s ! c"
  have c: "c < length (terms s)" using k by (simp add: kern_shape_def c_def)
  have n1: "strncpy (put_from 0) (replicate 32 0) (aget (pad 32 nm)) 32 = Some (pad 32 nm)"
    using strncpy_list [OF c_str_pad [OF nm], of 32 "replicate 32 0"] nm(2) by (simp add: pad_def)
  have n2: "strncpy (put_from 0) (replicate 95 0) (aget (pad 95 ar)) (length ar) = Some (pad 95 ar)"
    using strncpy_list [OF c_str_pad [OF ar], of "length ar" "replicate 95 0"] ar(2) by (simp add: pad_def)
  have l: "strlen (aget (pad 95 ar)) = Some (length ar)" by (rule strlen_c_str [OF c_str_pad [OF ar]])
  have set_t: "set_term f u = Some (u\<lparr>terms := (terms u)[c := f (terms u ! c)]\<rparr>)"
    if "current_terminal u = current_terminal s" "length (terms u) = length (terms s)" for f and u :: "'a kern_scheme"
    using that c by (simp add: set_term_def cur_term_def c_def aget_in aput_in)
  have ct: "cur_term s = Some ?t" using c by (simp add: cur_term_def c_def aget_in)
  have z: "pad 95 [] = replicate 95 0" by (simp add: pad_def)
  have l0: "strlen (aget (replicate 95 0)) = Some 0"
    using strlen_c_str [OF c_str_pad [of "[]" 95]] by (simp add: z)
  have n3: "strncpy (put_from 0) (replicate 95 0) (aget (pad 95 ar)) (if length ar > 95 then 95 else length ar) =
      Some (pad 95 ar)" using n2 ar(2) by simp
  show ?thesis
    by (cases "pcbs s p"; cases "been_here ?t = 1"; cases "p = 0"; cases "ar = []")
      (simp_all add: init_pcb_def ct set_t set_pcb_def with_pcb_def new_pcb_def Let_def n1 n3 l l0 z c flip: c_def)
qed

lemma with_pcb_ready:
  assumes k: "kern_shape s" and nm: "length nm < 32" and ar: "length ar < 95"
  shows "kern_shape (with_pcb fr p nm ar s)" and "cur_pcb (with_pcb fr p nm ar s) = Some p"
proof -
  let ?c = "unat (current_terminal s)"
  have "pcb_shape (new_pcb fr p nm ar (terms s ! ?c) (pcbs s p))"
    using k nm ar by (simp add: new_pcb_def pcb_shape_def pad_def kern_shape_def)
  moreover have "kern_shape (s\<lparr>terms := (terms s)[?c := (\<lambda>t. t\<lparr>running_pcb := Some p, been_here := 1\<rparr>) (terms s ! ?c)]\<rparr>)"
    by (rule shape_new_term [OF k]) simp
  ultimately show "kern_shape (with_pcb fr p nm ar s)"
    using shape_new_pcb [where p = p] by (fastforce simp: with_pcb_def Let_def)
  have "?c < length (terms s)" using k by (simp add: kern_shape_def)
  then show "cur_pcb (with_pcb fr p nm ar s) = Some p"
    by (simp add: with_pcb_def Let_def cur_pcb_def cur_term_def aget_in)
qed

section \<open>Standard input and output\<close>

definition std_fd :: "nat \<Rightarrow> nat \<Rightarrow> 'a kern_scheme \<Rightarrow> 'a kern_scheme" where
  "std_fd p fd s = (if in_use (fd_array (pcbs s p) ! fd) = 1 then s else put_fd p fd (open_entry Terminal_fops 0) s)"

lemma c_str_lit: "0 \<notin> set (chars l) \<Longrightarrow> c_str (c_lit l) (chars l)"
  unfolding c_lit_def by (rule c_str_aget)

lemma sys_open_std:
  assumes "kern_shape s" and "cur_pcb s = Some p"
  shows "\<exists>r. sys_open dev (c_lit ''stdin'') s = Some (r, std_fd p 0 s)"
    and "\<exists>r. sys_open dev (c_lit ''stdout'') s = Some (r, std_fd p 1 s)"
proof -
  have i: "c_str (c_lit ''stdin'') (chars ''stdin'')" and o: "c_str (c_lit ''stdout'') (chars ''stdout'')"
    by (rule c_str_lit, simp add: chars_def)+
  have z: "0 \<notin> set (chars ''stdin'')" "0 \<notin> set (chars ''stdout'')" by (simp_all add: chars_def)
  have ii: "strncmp (c_lit ''stdin'') (c_lit ''stdin'') 5 = Some 0"
    using strncmp_lit [OF i, of "''stdin''" 5] z by (auto simp: chars_def)
  obtain d where oi: "strncmp (c_lit ''stdout'') (c_lit ''stdin'') 5 = Some d" "d \<noteq> 0"
    using strncmp_lit [OF o, of "''stdin''" 5] z by (auto simp: chars_def)
  have oo: "strncmp (c_lit ''stdout'') (c_lit ''stdout'') 6 = Some 0"
    using strncmp_lit [OF o, of "''stdout''" 6] z by (auto simp: chars_def)
  have std: "\<exists>r. open_std dev fd s = Some (r, std_fd p fd s)" if "fd < 8" for fd
    using cur_fd_shape [OF assms that] set_fd_put [OF assms that]
    by (simp add: open_std_def std_fd_def driver_open_def)
  show "\<exists>r. sys_open dev (c_lit ''stdin'') s = Some (r, std_fd p 0 s)"
    using ii std [of 0] by (simp add: sys_open_def)
  show "\<exists>r. sys_open dev (c_lit ''stdout'') s = Some (r, std_fd p 1 s)"
    using oi oo std [of 1] by (simp add: sys_open_def)
qed

text \<open>What opening them leaves: only the table of the process has changed.\<close>

lemma std_fd_set: "\<exists>a. std_fd p fd s = set_pcb p (\<lambda>b. b\<lparr>fd_array := a\<rparr>) s"
proof (cases "in_use (fd_array (pcbs s p) ! fd) = 1")
  case True
  have "s = set_pcb p (\<lambda>b. b\<lparr>fd_array := fd_array (pcbs s p)\<rparr>) s" by (simp add: set_pcb_def)
  then show ?thesis using True unfolding std_fd_def by metis
next
  case False
  then show ?thesis unfolding std_fd_def put_fd_def set_pcb_def by auto
qed

lemma std_fd_in_use:
  "kern_shape s \<Longrightarrow> fd < 8 \<Longrightarrow> in_use (fd_array (pcbs (std_fd p fd s) p) ! fd) = 1"
  "kern_shape s \<Longrightarrow> fd < 8 \<Longrightarrow> g \<noteq> fd \<Longrightarrow> fd_array (pcbs (std_fd p fd s) p) ! g = fd_array (pcbs s p) ! g"
  "kern_shape s \<Longrightarrow> kern_shape (std_fd p fd s)" "cur_pcb (std_fd p fd s) = cur_pcb s"
  by (simp_all add: std_fd_def put_fd_at put_fd_shape open_entry_def)

lemma stdio_opened:
  assumes k: "kern_shape s" and p: "cur_pcb s = Some p"
  shows "\<exists>r0 s5 r1 a. sys_open dev (c_lit ''stdin'') s = Some (r0, s5) \<and>
    sys_open dev (c_lit ''stdout'') s5 = Some (r1, set_pcb p (\<lambda>b. b\<lparr>fd_array := a\<rparr>) s) \<and>
    length a = 8 \<and> in_use (a ! 0) = 1 \<and> in_use (a ! 1) = 1 \<and>
    (\<forall>fd \<ge> 2. a ! fd = fd_array (pcbs s p) ! fd)"
proof -
  let ?s5 = "std_fd p 0 s"
  note k5 = std_fd_in_use(3) [OF k, of p 0]
  obtain r0 where o5: "sys_open dev (c_lit ''stdin'') s = Some (r0, ?s5)"
    using sys_open_std(1) [OF assms] by blast
  have p5: "cur_pcb ?s5 = Some p" using p by (simp add: std_fd_in_use(4))
  obtain r1 where o6: "sys_open dev (c_lit ''stdout'') ?s5 = Some (r1, std_fd p 1 ?s5)"
    using sys_open_std(2) [OF k5 p5] by blast
  obtain a0 where "?s5 = set_pcb p (\<lambda>b. b\<lparr>fd_array := a0\<rparr>) s" using std_fd_set by blast
  moreover obtain a where "std_fd p 1 ?s5 = set_pcb p (\<lambda>b. b\<lparr>fd_array := a\<rparr>) ?s5" using std_fd_set by blast
  ultimately have s6: "std_fd p 1 ?s5 = set_pcb p (\<lambda>b. b\<lparr>fd_array := a\<rparr>) s" by (simp add: set_pcb_def)
  have a: "a = fd_array (pcbs (std_fd p 1 ?s5) p)" by (simp only: s6) (simp add: set_pcb_def)
  have "length a = 8"
    using std_fd_in_use(3) [OF k5, of p 1] by (simp add: a kern_shape_def pcb_shape_def)
  moreover have "in_use (a ! 0) = 1" "in_use (a ! 1) = 1" "\<forall>fd \<ge> 2. a ! fd = fd_array (pcbs s p) ! fd"
    using std_fd_in_use(1) [OF k, of 0 p] std_fd_in_use(2) [OF k, of 0 _ p]
      std_fd_in_use(1) [OF k5, of 1 p] std_fd_in_use(2) [OF k5, of 1 _ p] by (simp_all add: a)
  ultimately show ?thesis
    using o5 o6 unfolding s6
    by (intro exI [of _ r0] exI [of _ ?s5] exI [of _ r1] exI [of _ a] conjI) simp_all
qed

section \<open>Starting a program\<close>

text \<open>Where process \<open>p\<close> has its program in physical memory, and a word of the file.\<close>

definition image_base :: "nat \<Rightarrow> u32" where
  "image_base p = of_nat (0x848000 + 0x400000 * p)"

definition le_word :: "u8 list \<Rightarrow> u32" where
  "le_word bs = of_nat (unat (bs ! 0) + 256 * unat (bs ! 1) + 65536 * unat (bs ! 2) + 16777216 * unat (bs ! 3))"

lemma load32_bytes: "bytes_at m a 4 = bs \<Longrightarrow> load32 m a = le_word bs"
  using nth_bytes_at [of 0 4 m a] nth_bytes_at [of 1 4 m a] nth_bytes_at [of 2 4 m a] nth_bytes_at [of 3 4 m a]
  by (auto simp: load32_def le_word_def)

lemma image_addr:
  assumes "paging_view L s (Some p) video" and "layout_ok L"
  shows "translate L s False P_I_ENTRY_POINT = Some (image_base p)"
  using image_contiguous [OF assms, of P_I_ENTRY_POINT 1 0 False]
  by (simp add: P_I_ENTRY_POINT_def image_base_def)

text \<open>A file the loader can handle: it has an entry point, fits into the page, and lies apart
  from where the loader writes.\<close>

definition loadable :: "klayout \<Rightarrow> nat \<Rightarrow> u32 \<Rightarrow> nat \<Rightarrow> 'a kern_scheme \<Rightarrow> bool" where
  "loadable L extent inode p s \<longleftrightarrow>
     (let len = file_len (mem s) (start_fs s) inode
      in wf_file (mem s) (start_fs s) extent inode \<and> 28 \<le> len \<and> len \<le> 0x3B8000 \<and>
         disjoint_region (start_fs s) extent (entry_point L) 4 \<and>
         disjoint_region (start_fs s) extent (image_base p) len \<and>
         disjoint_region (entry_point L) 4 (image_base p) len)"

text \<open>The state in which the program \<open>prog\<close> runs as process \<open>p\<close>, started from \<open>s\<close>.\<close>

definition started :: "klayout \<Rightarrow> frame \<Rightarrow> u8 list \<Rightarrow> u8 list \<Rightarrow> u8 list \<Rightarrow> nat \<Rightarrow> bool
    \<Rightarrow> 'a kern_scheme \<Rightarrow> 'a kern_scheme \<Rightarrow> bool" where
  "started L fr nm ar prog p video s s' \<longleftrightarrow>
     (let c = unat (current_terminal s)
      in paging_view (layout.truncate L) s' (Some p) video \<and>
         bytes_at (mem s') (image_base p) (length prog) = prog \<and>
         correct_eip s' = le_word (take 4 (drop 24 prog)) \<and>
         tss_esp0 s' = kernel_stack_top p \<and> processes s' = processes s OR push_bit p 1 \<and>
         terms s' = (terms s)[c := (terms s ! c)\<lparr>running_pcb := Some p, been_here := 1\<rparr>] \<and>
         current_terminal s' = current_terminal s \<and> start_fs s' = start_fs s \<and>
         cursor_x s' = cursor_x s \<and> cursor_y s' = cursor_y s \<and> same_keys s s' \<and>
         (\<exists>fds. pcbs s' = (pcbs s)(p := (new_pcb fr p nm ar (terms s ! c) (pcbs s p))\<lparr>fd_array := fds\<rparr>) \<and>
            in_use (fds ! 0) = 1 \<and> in_use (fds ! 1) = 1 \<and>
            (\<forall>fd \<ge> 2. fds ! fd = fd_array (pcbs s p) ! fd)) \<and> kern_shape s' \<and>
         (fds_ok s \<longrightarrow> fds_ok s') \<and>
         (\<forall>x. \<not> in_region (exec_buf fr) 4 x \<longrightarrow> \<not> in_region (entry_point L) 4 x \<longrightarrow>
            \<not> in_region (image_base p) (length prog) x \<longrightarrow> mem s' x = mem s x))"

lemma load_twice:
  assumes ld: "loadable L extent inode p s"
  defines "c \<equiv> contents (mem s) (start_fs s) inode"
  defines "m1 \<equiv> write_bytes (entry_point L) (take 4 (drop 24 c)) (mem s)"
  defines "m2 \<equiv> write_bytes (image_base p) c m1"
  shows "read_data (mem s) (start_fs s) inode 24 (entry_point L) 4 = (4, m1)"
    and "read_data m1 (start_fs s) inode 0 (image_base p) (load32 m1 (start_fs s + 4096 + inode * 4096)) =
      (of_nat (length c), m2)"
    and "unat (load32 m1 (start_fs s + 4096 + inode * 4096)) = length c"
    and "bytes_at m2 (image_base p) (length c) = c" and "load32 m2 (entry_point L) = le_word (take 4 (drop 24 c))"
proof -
  let ?m = "mem s" and ?fs = "start_fs s"
  have wf: "wf_file ?m ?fs extent inode" and len: "28 \<le> length c" "length c \<le> 0x3B8000"
    and d1: "disjoint_region ?fs extent (entry_point L) 4"
    and d2: "disjoint_region ?fs extent (image_base p) (length c)"
    and d3: "disjoint_region (entry_point L) 4 (image_base p) (length c)"
    using ld by (auto simp: loadable_def Let_def c_def)
  have L: "file_len ?m ?fs inode = length c" by (simp add: c_def)
  have ne: "c \<noteq> []" using len by auto
  have "read_data ?m ?fs inode 24 (entry_point L) 4 = (of_nat 4, write_bytes (entry_point L)
      (take 4 (drop (unat (24 :: u32)) (contents ?m ?fs inode))) ?m)"
    by (rule read_data_reads [OF wf]) (use len ne d1 L in simp_all)
  then show "read_data ?m ?fs inode 24 (entry_point L) 4 = (4, m1)" by (simp add: m1_def c_def)
  have four: "length (take 4 (drop 24 c)) = 4" using len by simp
  then have eq: "image_eq ?fs extent ?m m1" unfolding m1_def by (intro image_eq_write [OF d1]) simp
  note same = image_eq_file [OF wf eq]
  show l1: "unat (load32 m1 (?fs + 4096 + inode * 4096)) = length c"
    using same(2) L by (simp add: file_len_def node_addr_def)
  have "read_data m1 ?fs inode 0 (image_base p) (load32 m1 (?fs + 4096 + inode * 4096)) =
      (of_nat (length c), write_bytes (image_base p) (take (length c) (drop (unat (0 :: u32)) (contents m1 ?fs inode))) m1)"
    using l1 same(2) L len ne d2 by (intro read_data_reads [OF same(4)]) simp_all
  then show "read_data m1 ?fs inode 0 (image_base p) (load32 m1 (?fs + 4096 + inode * 4096)) =
      (of_nat (length c), m2)"
    by (simp add: same(3) m2_def c_def)
  show "bytes_at m2 (image_base p) (length c) = c"
    unfolding m2_def using len by (intro bytes_at_write_bytes) simp_all
  have "m2 (entry_point L + of_nat i) = m1 (entry_point L + of_nat i)" if "i < 4" for i
  proof -
    have "in_region (entry_point L) 4 (entry_point L + of_nat i)" using that by (intro in_region_offset) simp_all
    then show ?thesis using d3 by (simp add: m2_def disjoint_region_def mem_simps)
  qed
  then have "bytes_at m2 (entry_point L) 4 = bytes_at m1 (entry_point L) 4"
    by (intro nth_equalityI) (simp_all add: nth_bytes_at)
  also have "\<dots> = take 4 (drop 24 c)" unfolding m1_def using four by (intro bytes_at_write_bytes) simp_all
  finally show "load32 m2 (entry_point L) = le_word (take 4 (drop 24 c))" by (rule load32_bytes)
qed

text \<open>The order of the loader: a slot, its page, the entry point, the image, the control block,
  standard input and output.\<close>

text \<open>The page tables with the process's page, the process vector with its bit.\<close>

lemma slot_mapped:
  assumes L: "layout_ok L" and v: "paging_view L s img video" and slot: "free_slots 0 (processes s) = p # ps"
  shows "find_slot 0 1 (processes s) = (p, processes s OR push_bit p 1)"
    and "\<exists>s1. load_new_process L (of_nat p) (s\<lparr>processes := processes s OR push_bit p 1\<rparr>) = Some s1 \<and>
      paging_view L s1 (Some p) video \<and> mem s1 = mem s \<and> cursor_x s1 = cursor_x s \<and> cursor_y s1 = cursor_y s \<and>
      paging.more s1 = paging.more (s\<lparr>processes := processes s OR push_bit p 1\<rparr>)"
proof -
  show "find_slot 0 1 (processes s) = (p, processes s OR push_bit p 1)"
    using find_slot_first [of 0 "processes s"] slot by simp
  let ?s0 = "s\<lparr>processes := processes s OR push_bit p 1\<rparr>"
  define s1 where "s1 = set_control_registers L 0 (set_pde 0 32 (push_bit 22 (of_nat (p + 2)) OR 0x87) ?s0)"
  have "p \<in> set (free_slots 0 (processes s))" by (simp add: slot)
  then have p: "p < 8" by (simp add: free_slots_def)
  have load: "load_new_process L (of_nat p) ?s0 = Some s1"
    using p by (simp only: s1_def) (intro load_new_process_eq, simp)
  have "paging_view L ?s0 img video" using v by (simp add: paging_view_def)
  from load_new_process_view [OF this L p load] load
  show "\<exists>s1. load_new_process L (of_nat p) ?s0 = Some s1 \<and>
      paging_view L s1 (Some p) video \<and> mem s1 = mem s \<and> cursor_x s1 = cursor_x s \<and> cursor_y s1 = cursor_y s \<and>
      paging.more s1 = paging.more ?s0"
    by (auto simp: s1_def set_control_registers_def load_registers_def set_pde_def)
qed

text \<open>The order of the loader: a slot, its page, the entry point, the image, the control block,
  standard input and output.\<close>

lemma start_process_starts:
  assumes k: "kern_shape s" and L: "layout_ok (layout.truncate L)"
    and v: "paging_view (layout.truncate L) s img video"
    and slot: "free_slots 0 (processes s) = p # ps" and ld: "loadable L extent inode p s"
    and nm: "0 \<notin> set nm" "length nm < 32" and ar: "0 \<notin> set ar" "length ar < 95"
  defines "prog \<equiv> contents (mem s) (start_fs s) inode"
  shows "\<exists>s'. start_process L dev fr (pad 32 nm) (pad 95 ar) inode s =
      Some (Enter_user (le_word (take 4 (drop 24 prog))) s') \<and> started L fr nm ar prog p video s s'"
proof -
  let ?L = "layout.truncate L" and ?c = "unat (current_terminal s)"
  define v' where "v' = processes s OR push_bit p 1"
  define s0 where "s0 = s\<lparr>processes := v'\<rparr>"
  note find = slot_mapped(1) [OF L v slot, folded v'_def]
  obtain s1 where load: "load_new_process ?L (of_nat p) s0 = Some s1" and v1: "paging_view ?L s1 (Some p) video"
    and mem1: "mem s1 = mem s" and cur1: "cursor_x s1 = cursor_x s" "cursor_y s1 = cursor_y s"
    and more1: "paging.more s1 = paging.more s0"
    using slot_mapped(2) [OF L v slot, folded v'_def] by (auto simp: s0_def)
  note e1 = kern_more_paging [OF more1]
  have fs1: "start_fs s1 = start_fs s" using e1(1) by (simp add: s0_def)
  define m1 where "m1 = write_bytes (entry_point L) (take 4 (drop 24 prog)) (mem s)"
  define m2 where "m2 = write_bytes (image_base p) prog m1"
  note ldr = load_twice [OF ld, folded prog_def, folded m1_def, folded m2_def]
  have tr: "translate ?L (s1\<lparr>mem := m1\<rparr>) False P_I_ENTRY_POINT = Some (image_base p)"
    using v1 by (intro image_addr [where video = video, OF _ L]) (simp add: paging_view_def)
  define s3 where "s3 = s1\<lparr>mem := m2\<rparr>"
  have k3: "kern_shape s3" using k e1 by (simp add: s3_def s0_def kern_shape_def)
  have t3: "terms s3 = terms s" "pcbs s3 = pcbs s" "current_terminal s3 = current_terminal s"
    "processes s3 = processes s0" using e1 by (simp_all add: s3_def s0_def)
  define s4 where "s4 = with_pcb fr p nm ar s3"
  note i4 = init_pcb_eq [OF k3 nm ar, of fr p, folded s4_def]
  note k4 = with_pcb_ready [OF k3 nm(2) ar(2), of fr p, folded s4_def]
  obtain r0 s5 r1 a where o: "sys_open dev (c_lit ''stdin'') s4 = Some (r0, s5)"
    "sys_open dev (c_lit ''stdout'') s5 = Some (r1, set_pcb p (\<lambda>b. b\<lparr>fd_array := a\<rparr>) s4)"
    and a: "length a = 8" "in_use (a ! 0) = 1" "in_use (a ! 1) = 1" "\<forall>fd \<ge> 2. a ! fd = fd_array (pcbs s4 p) ! fd"
    using stdio_opened [OF k4] by metis
  define s6 where "s6 = set_pcb p (\<lambda>b. b\<lparr>fd_array := a\<rparr>) s4"
  have s6: "mem s6 = m2" "processes s6 = processes s0" "terms s6 = terms s4" "current_terminal s6 = current_terminal s"
    "pcbs s6 = (pcbs s)(p := (new_pcb fr p nm ar (terms s ! ?c) (pcbs s p))\<lparr>fd_array := a\<rparr>)"
    "paging_view ?L s6 (Some p) video"
    using v1 t3 by (simp_all add: s6_def set_pcb_def s4_def with_pcb_def Let_def s3_def paging_view_def)
  have k6: "kern_shape s6" unfolding s6_def by (rule shape_new_fds [OF k4(1) a(1)])
  define s7 where "s7 = s6\<lparr>correct_eip := le_word (take 4 (drop 24 prog)), tss_esp0 := kernel_stack_top p\<rparr>"
  have "28 \<le> length prog" using ld by (simp add: loadable_def Let_def prog_def)
  then have fourw: "length (take 4 (drop 24 prog)) = 4" by simp
  have f7: "fds_ok s \<longrightarrow> fds_ok s7"
  proof
    assume "fds_ok s"
    then have "fds_ok s4"
      using k4(1) t3 by (simp add: fds_ok_def) (simp add: s4_def with_pcb_def Let_def new_pcb_def)
    from sys_open_ok [OF sys_open_ok [OF this o(1)] o(2)] show "fds_ok s7"
      by (simp add: fds_ok_def s7_def s6_def kern_shape_def)
  qed
  have m7: "mem s7 x = mem s x" if "\<not> in_region (entry_point L) 4 x" "\<not> in_region (image_base p) (length prog) x" for x
    using that s6(1) fourw by (simp add: s7_def m2_def m1_def write_bytes_def)
  have c7: "start_fs s6 = start_fs s" "cursor_x s6 = cursor_x s" "cursor_y s6 = cursor_y s"
    using cur1 fs1 by (simp_all add: s6_def set_pcb_def s4_def with_pcb_def Let_def s3_def)
  have keys: "same_keys s s7"
    using same_keys_paging [OF more1]
    by (simp add: same_keys_def s7_def s6_def set_pcb_def s4_def with_pcb_def Let_def s3_def s0_def)
  have "\<not> load32 m1 (start_fs s + 4096 + inode * 4096) > 0x3B8000"
    using ldr(3) ld by (simp add: word_less_nat_alt loadable_def Let_def prog_def)
  then have "start_process L dev fr (pad 32 nm) (pad 95 ar) inode s = Some (Enter_user (le_word (take 4 (drop 24 prog))) s7)"
    using load tr i4 o ldr(1,2,5) s6(1)
    by (simp add: start_process_def find Let_def s0_def [symmetric] mem1 fs1 s3_def [symmetric] s6_def [symmetric] s7_def)
  moreover have "fd_array (pcbs s4 p) = fd_array (pcbs s p)"
    by (simp add: s4_def with_pcb_def Let_def new_pcb_def t3)
  then have "started L fr nm ar prog p video s s7"
    using s6 k6 a ldr(4) f7 m7 keys by (auto simp: started_def Let_def s7_def s0_def v'_def paging_view_def kern_shape_def
        s4_def with_pcb_def t3 c7)
  ultimately show ?thesis by blast
qed

section \<open>execute\<close>

text \<open>What a command refers to: the first directory entry that starts with its first word.\<close>

definition found :: "u8 list \<Rightarrow> 'a kern_scheme \<Rightarrow> dentry option" where
  "found nm s = (case filter (starts_with (mem s) (start_fs s) nm) [0..<unat (mem s (start_fs s))] of
     [] \<Rightarrow> None | j # _ \<Rightarrow> Some (dentry_bytes (mem s) (dir_addr (start_fs s) j)))"

lemma not_in_takeWhile: "x \<notin> set xs \<Longrightarrow> x \<notin> set (takeWhile P xs)" "x \<notin> set xs \<Longrightarrow> x \<notin> set (dropWhile P xs)"
  by (auto dest: set_takeWhileD set_dropWhileD)

lemma cmd_no_zero: "0 \<notin> set xs \<Longrightarrow> 0 \<notin> set (cmd_name xs) \<and> 0 \<notin> set (cmd_args xs)"
  by (simp add: cmd_name_def cmd_args_def not_in_takeWhile)

lemma lookup_command:
  assumes "0 \<notin> set nm" and "length nm < 32"
  shows "read_dentry_by_name m fs (Some (aget (pad 32 nm))) =
    (if nm = [] then Some (- 1, None)
     else case filter (starts_with m fs nm) [0..<unat (m fs)] of
       [] \<Rightarrow> Some (- 1, None) | j # _ \<Rightarrow> Some (0, Some (dentry_bytes m (dir_addr fs j))))"
proof (cases "nm = []")
  case True
  then show ?thesis by (simp add: read_dentry_by_name_def pad_def aget_def)
next
  case False
  then show ?thesis using read_dentry_by_name_first [OF c_str_pad [OF assms]] by simp
qed

lemma found_read:
  assumes "0 \<notin> set nm" and "length nm < 32" and "nm \<noteq> []"
  shows "read_dentry_by_name (mem s) (start_fs s) (Some (aget (pad 32 nm))) =
    Some (if found nm s = None then - 1 else 0, found nm s)"
  using lookup_command [OF assms(1,2)] assms(3) by (simp add: found_def split: list.split)

lemma magic_test:
  "strncmp (ptr_mem m a) (aget EXEC_BITS) 4 = Some (cmp_bytes (bytes_at m a 4) EXEC_BITS)"
  "cmp_bytes (bytes_at m a 4) EXEC_BITS = 0 \<longleftrightarrow> bytes_at m a 4 = EXEC_BITS"
proof -
  have l: "length EXEC_BITS = 4" by (simp add: EXEC_BITS_def)
  show "strncmp (ptr_mem m a) (aget EXEC_BITS) 4 = Some (cmp_bytes (bytes_at m a 4) EXEC_BITS)"
    using strncmp_lists [of "bytes_at m a 4" "ptr_mem m a" "aget EXEC_BITS" EXEC_BITS]
    by (simp add: l ptr_mem_def nth_bytes_at aget_in)
  show "cmp_bytes (bytes_at m a 4) EXEC_BITS = 0 \<longleftrightarrow> bytes_at m a 4 = EXEC_BITS"
    by (rule cmp_bytes_eq_0) (simp_all add: l, simp add: EXEC_BITS_def)
qed

text \<open>The first four bytes of the file go to the local \<open>is_executable\<close>.\<close>

definition peeked :: "frame \<Rightarrow> u32 \<Rightarrow> 'a kern_scheme \<Rightarrow> 'a kern_scheme" where
  "peeked fr inode s = (cli s)\<lparr>mem := write_bytes (exec_buf fr) (take 4 (contents (mem s) (start_fs s) inode)) (mem s)\<rparr>"

lemma read_magic:
  assumes wf: "wf_file (mem s) (start_fs s) extent inode" and len: "4 \<le> file_len (mem s) (start_fs s) inode"
    and dis: "disjoint_region (start_fs s) extent (exec_buf fr) 4"
  shows "read_data (mem s) (start_fs s) inode 0 (exec_buf fr) 4 = (4, mem (peeked fr inode s))"
    and "bytes_at (mem (peeked fr inode s)) (exec_buf fr) 4 = take 4 (contents (mem s) (start_fs s) inode)"
    and "image_eq (start_fs s) extent (mem s) (mem (peeked fr inode s))"
proof -
  let ?c = "take 4 (contents (mem s) (start_fs s) inode)"
  have four: "length ?c = 4" using len by simp
  have "read_data (mem s) (start_fs s) inode 0 (exec_buf fr) 4 = (of_nat 4, write_bytes (exec_buf fr)
      (take 4 (drop (unat (0 :: u32)) (contents (mem s) (start_fs s) inode))) (mem s))"
    by (rule read_data_reads [OF wf]) (use len dis in auto)
  then show "read_data (mem s) (start_fs s) inode 0 (exec_buf fr) 4 = (4, mem (peeked fr inode s))"
    by (simp add: peeked_def)
  show "bytes_at (mem (peeked fr inode s)) (exec_buf fr) 4 = ?c"
    unfolding peeked_def using four by (simp add: bytes_at_write_bytes)
  show "image_eq (start_fs s) extent (mem s) (mem (peeked fr inode s))"
    using image_eq_write [OF dis, of ?c] four by (simp add: peeked_def)
qed

text \<open>\<open>execute\<close> up to the check of the first four bytes.\<close>

lemma execute_checks:
  assumes c: "c_str cmd xs" and xs: "length xs < 32" and nm: "cmd_name xs \<noteq> []"
    and d: "found (cmd_name xs) s = Some d"
    and wf: "wf_file (mem s) (start_fs s) extent (inode_num d)"
    and len: "4 \<le> file_len (mem s) (start_fs s) (inode_num d)"
    and dis: "disjoint_region (start_fs s) extent (exec_buf fr) 4"
  shows "execute L dev fr (Some cmd) s =
    (if take 4 (contents (mem s) (start_fs s) (inode_num d)) \<noteq> EXEC_BITS
     then Some (Return (- 1) (peeked fr (inode_num d) s))
     else if processes s = 0x3F then
       Some (Return (- 10) (fold putc (chars ''Max number of processes reached'' @ [0x0A]) (peeked fr (inode_num d) s)))
     else start_process L dev fr (pad 32 (cmd_name xs)) (pad 95 (cmd_args xs)) (inode_num d) (peeked fr (inode_num d) s))"
proof -
  have z: "0 \<notin> set (cmd_name xs)" using cmd_no_zero [of xs] c by (simp add: c_str_def)
  have l: "length (cmd_name xs) < 32" using cmd_lengths [of xs] xs by simp
  have f: "read_dentry_by_name (mem s) (start_fs s) (Some (aget (pad 32 (cmd_name xs)))) = Some (0, Some d)"
    using found_read [OF z l nm, of s] d by simp
  have cl: "start_fs (cli s) = start_fs s" by (simp add: cli_def)
  have pk: "(cli s)\<lparr>mem := mem (peeked fr (inode_num d) s)\<rparr> = peeked fr (inode_num d) s" by (simp add: peeked_def)
  have pr: "processes (peeked fr (inode_num d) s) = processes s" by (simp add: peeked_def cli_def)
  note rd = read_magic(1) [OF wf len dis]
  have pl: "printf (chars ''Max number of processes reached'' @ [0x0A]) [] t =
      Some (32, fold putc (chars ''Max number of processes reached'' @ [0x0A]) t)" for t :: "'a kern_scheme"
    by (subst printf_plain) (simp_all add: chars_def)
  show ?thesis
    using magic_test [of "mem (peeked fr (inode_num d) s)" "exec_buf fr"] read_magic(2) [OF wf len dis]
    by (simp add: execute_def parse_command_splits [OF c xs] cl f rd pk pr pl Let_def)
qed

end
