(* ===== verification/Lifecycle.thy ===== *)
theory Lifecycle
  imports Process_Spec
begin

text \<open>
  The life of a process. Each terminal has a stack of processes, its shell at the bottom and the
  running program on top: \<open>execute\<close> pushes the program it starts, \<open>halt\<close> pops the one that
  ends and goes on in the one below, with the stack registers that one had. Halting a shell at
  the bottom starts another one.
\<close>

section \<open>execute starts a program\<close>

lemma peeked_frame [simp]:
  "start_fs (peeked fr i s) = start_fs s" "processes (peeked fr i s) = processes s"
  "terms (peeked fr i s) = terms s" "pcbs (peeked fr i s) = pcbs s"
  "current_terminal (peeked fr i s) = current_terminal s" "intr (peeked fr i s) = False"
  by (simp_all add: peeked_def cli_def)

lemma peeked_shape [simp]: "kern_shape (peeked fr i s) = kern_shape s"
  by (simp add: kern_shape_def peeked_def cli_def)

lemma peeked_view [simp]: "paging_view L (peeked fr i s) img v = paging_view L s img v"
  by (simp add: paging_view_def peeked_def cli_def)

lemma peeked_started:
  assumes "length (take 4 (contents (mem s) (start_fs s) i)) = 4"
  shows "started L fr nm ar prog p v (peeked fr i s) s' = started L fr nm ar prog p v s s'"
proof -
  have "\<not> in_region (exec_buf fr) 4 x \<Longrightarrow> mem (peeked fr i s) x = mem s x" for x
    using assms by (simp add: peeked_def write_bytes_def)
  moreover have "fds_ok (peeked fr i s) = fds_ok s" by (simp add: fds_ok_def)
  moreover have "cursor_x (peeked fr i s) = cursor_x s" "cursor_y (peeked fr i s) = cursor_y s"
    by (simp_all add: peeked_def cli_def)
  moreover have "same_keys (peeked fr i s) s' = same_keys s s'" by (simp add: same_keys_def peeked_def cli_def)
  ultimately show ?thesis by (simp add: started_def cong: imp_cong)
qed

text \<open>What it takes for a command to start a program: the name is a file's, the file is an
  executable the loader can handle, and a slot is free.\<close>

definition startable :: "klayout \<Rightarrow> frame \<Rightarrow> nat \<Rightarrow> u8 list \<Rightarrow> u32 \<Rightarrow> nat \<Rightarrow> 'a kern_scheme \<Rightarrow> bool" where
  "startable L fr extent xs inode p s \<longleftrightarrow>
     cmd_name xs \<noteq> [] \<and> (\<exists>d. found (cmd_name xs) s = Some d \<and> inode_num d = inode) \<and>
     take 4 (contents (mem s) (start_fs s) inode) = EXEC_BITS \<and>
     (\<exists>ps. free_slots 0 (processes s) = p # ps) \<and> loadable L extent inode p s \<and>
     disjoint_region (start_fs s) extent (exec_buf fr) 4"

lemma all_slots_taken: "free_slots 0 0x3F = []"
  by (simp add: free_slots_def upt_rec bit_numeral_word_iff)

lemma execute_starts:
  assumes c: "c_str cmd xs" and xs: "length xs < 32"
    and k: "kern_shape s" and L: "layout_ok (layout.truncate L)"
    and v: "paging_view (layout.truncate L) s img video" and st: "startable L fr extent xs inode p s"
  defines "prog \<equiv> contents (mem s) (start_fs s) inode"
  shows "\<exists>s'. execute L dev fr (Some cmd) s = Some (Enter_user (le_word (take 4 (drop 24 prog))) s') \<and>
    started L fr (cmd_name xs) (cmd_args xs) prog p video s s'"
proof -
  obtain d ps where d: "found (cmd_name xs) s = Some d" "inode_num d = inode" and nm: "cmd_name xs \<noteq> []"
    and magic: "take 4 prog = EXEC_BITS" and ps: "free_slots 0 (processes s) = p # ps"
    and ld: "loadable L extent inode p s" and dis: "disjoint_region (start_fs s) extent (exec_buf fr) 4"
    using st by (auto simp: startable_def prog_def)
  have wf: "wf_file (mem s) (start_fs s) extent inode" and len: "4 \<le> file_len (mem s) (start_fs s) inode"
    using ld by (auto simp: loadable_def Let_def)
  have np: "processes s \<noteq> 0x3F" using ps all_slots_taken by auto
  define s1 where "s1 = peeked fr inode s"
  have eq: "image_eq (start_fs s) extent (mem s) (mem s1)" unfolding s1_def by (rule read_magic(3) [OF wf len dis])
  note same = image_eq_file [OF wf eq]
  have ld1: "loadable L extent inode p s1"
    using ld same by (simp add: loadable_def Let_def) (simp add: s1_def)
  have prog1: "contents (mem s1) (start_fs s1) inode = prog" using same(3) by (simp add: s1_def prog_def)
  have z: "0 \<notin> set (cmd_name xs)" "0 \<notin> set (cmd_args xs)" using cmd_no_zero [of xs] c by (simp_all add: c_str_def)
  have l: "length (cmd_name xs) < 32" "length (cmd_args xs) < 95" using cmd_lengths [of xs] xs by simp_all
  have "kern_shape s1" "paging_view (layout.truncate L) s1 img video" "free_slots 0 (processes s1) = p # ps"
    using k v ps by (simp_all add: s1_def)
  from start_process_starts [OF this(1) L this(2,3) ld1 z(1) l(1) z(2) l(2), of dev fr]
  obtain s' where s': "start_process L dev fr (pad 32 (cmd_name xs)) (pad 95 (cmd_args xs)) inode s1 =
      Some (Enter_user (le_word (take 4 (drop 24 prog))) s')"
    "started L fr (cmd_name xs) (cmd_args xs) prog p video s1 s'"
    unfolding prog1 by blast
  have "execute L dev fr (Some cmd) s = start_process L dev fr (pad 32 (cmd_name xs)) (pad 95 (cmd_args xs)) inode s1"
    using execute_checks [OF c xs nm d(1), of extent fr L dev] d(2) wf len dis magic np by (simp add: prog_def s1_def)
  then show ?thesis using s' len by (simp add: s1_def peeked_started)
qed

text \<open>What makes it fail: no command, no such file, no executable, no free slot.\<close>

lemma execute_null: "execute L dev fr None s = Some (Return (- 1) (cli s))"
  by (simp add: execute_def)

lemma execute_not_found:
  assumes c: "c_str cmd xs" and xs: "length xs < 32" and no: "cmd_name xs = [] \<or> found (cmd_name xs) s = None"
  shows "execute L dev fr (Some cmd) s = Some (Return (- 1) (cli s))"
proof -
  have z: "0 \<notin> set (cmd_name xs)" using cmd_no_zero [of xs] c by (simp add: c_str_def)
  have l: "length (cmd_name xs) < 32" using cmd_lengths [of xs] xs by simp
  have f: "read_dentry_by_name (mem s) (start_fs s) (Some (aget (pad 32 (cmd_name xs)))) = Some (- 1, None)"
  proof (cases "cmd_name xs = []")
    case True
    then show ?thesis using lookup_command [OF z l] by simp
  next
    case False
    then show ?thesis using found_read [OF z l, of s] no by simp
  qed
  have "start_fs (cli s) = start_fs s" by (simp add: cli_def)
  then show ?thesis by (simp add: execute_def parse_command_splits [OF c xs] f Let_def)
qed

section \<open>halt closes the files\<close>

lemma not_in_use_same: "in_use d = 0 \<Longrightarrow> d\<lparr>in_use := 0\<rparr> = d"
  by (cases d) simp

lemma close_one:
  assumes ok: "fds_ok s" and p: "cur_pcb s = Some p" and i: "i < 8"
  shows "Option.bind (cur_fd s i) (\<lambda>d. if in_use d = 1 then map_option snd (sys_close (of_nat i) s) else Some s) =
    Some (if 2 \<le> i then put_fd p i ((fd_array (pcbs s p) ! i)\<lparr>in_use := 0\<rparr>) s else s)"
proof -
  have k: "kern_shape s" using ok by (simp add: fds_ok_def)
  have use: "in_use (fd_array (pcbs s p) ! i) \<in> {0, 1}" using ok i by (auto simp: fds_ok_def fd_ok_def)
  have u: "unat (of_nat i :: u32) = i" using i by simp
  show ?thesis
  proof (cases "2 \<le> i")
    case True
    have "sys_close (of_nat i) s = (if in_use (fd_array (pcbs s p) ! i) = 0 then Some (- 1, s)
        else Some (0, put_fd p i ((fd_array (pcbs s p) ! i)\<lparr>in_use := 0\<rparr>) s))"
      using sys_close_eq [OF ok p, of "of_nat i"] True i unfolding u by blast
    then show ?thesis
      using True use cur_fd_shape [OF k p i] put_fd_same [of p i s] by (auto simp: not_in_use_same)
  next
    case False
    then have "i = 0 \<or> i = 1" by linarith
    then have "(of_nat i :: u32) \<le> 1" by auto
    then show ?thesis using False cur_fd_shape [OF k p i] sys_close_bad [of "of_nat i" s] by simp
  qed
qed

lemma fds_ok_put:
  assumes "fds_ok s" and "fd_ok i d" and "i < 8"
  shows "fds_ok (put_fd p i d s)"
proof -
  have k: "kern_shape s" using assms(1) by (simp add: fds_ok_def)
  have "fd_ok fd (fd_array (pcbs (put_fd p i d s) q) ! fd)" if "fd < 8" for q fd
  proof (cases "q = p")
    case True
    then show ?thesis using put_fd_at [OF k assms(3), of p d fd] assms(1,2) that by (simp add: fds_ok_def)
  next
    case False
    then show ?thesis using assms(1) that by (simp add: put_fd_def set_pcb_def fds_ok_def)
  qed
  then show ?thesis using put_fd_shape [OF k] by (simp add: fds_ok_def)
qed

lemma close_from_closes:
  "fds_ok s \<Longrightarrow> cur_pcb s = Some p \<Longrightarrow> i \<le> 8 \<Longrightarrow>
    \<exists>a. close_from [i..<8] s = Some (set_pcb p (\<lambda>b. b\<lparr>fd_array := a\<rparr>) s) \<and> length a = 8 \<and>
      (\<forall>j < 8. a ! j = (if i \<le> j \<and> 2 \<le> j then (fd_array (pcbs s p) ! j)\<lparr>in_use := 0\<rparr> else fd_array (pcbs s p) ! j))"
proof (induction "8 - i" arbitrary: i s)
  case 0
  have "set_pcb p (\<lambda>b. b\<lparr>fd_array := fd_array (pcbs s p)\<rparr>) s = s" by (simp add: set_pcb_def)
  then show ?case
    using 0 by (intro exI [of _ "fd_array (pcbs s p)"]) (auto simp: fds_ok_def kern_shape_def pcb_shape_def)
next
  case (Suc n)
  then have i: "i < 8" and n: "n = 8 - Suc i" by linarith+
  have k: "kern_shape s" using Suc.prems(1) by (simp add: fds_ok_def)
  define s1 where "s1 = (if 2 \<le> i then put_fd p i ((fd_array (pcbs s p) ! i)\<lparr>in_use := 0\<rparr>) s else s)"
  have step: "close_from [i..<8] s = close_from [Suc i..<8] s1"
  proof -
    have "close_from [i..<8] s = Option.bind (Option.bind (cur_fd s i)
        (\<lambda>d. if in_use d = 1 then map_option snd (sys_close (of_nat i) s) else Some s)) (close_from [Suc i..<8])"
      unfolding upt_conv_Cons [OF i] close_from.simps by (rule Option.bind_assoc [symmetric])
    then show ?thesis unfolding close_one [OF Suc.prems(1,2) i] by (simp only: Option.bind.simps s1_def)
  qed
  have "fds_ok s1"
    using Suc.prems(1) fds_ok_put [OF Suc.prems(1) _ i] by (simp add: s1_def fd_ok_def)
  moreover have "cur_pcb s1 = Some p" using Suc.prems(2) by (simp add: s1_def)
  ultimately obtain a where a: "close_from [Suc i..<8] s1 = Some (set_pcb p (\<lambda>b. b\<lparr>fd_array := a\<rparr>) s1)" "length a = 8"
    "\<forall>j < 8. a ! j = (if Suc i \<le> j \<and> 2 \<le> j then (fd_array (pcbs s1 p) ! j)\<lparr>in_use := 0\<rparr> else fd_array (pcbs s1 p) ! j)"
    using Suc.hyps(1) [OF n] i by (simp only: Suc_le_eq) blast
  have "set_pcb p (\<lambda>b. b\<lparr>fd_array := a\<rparr>) s1 = set_pcb p (\<lambda>b. b\<lparr>fd_array := a\<rparr>) s"
    by (simp add: s1_def put_fd_def set_pcb_def)
  moreover have "a ! j = (if i \<le> j \<and> 2 \<le> j then (fd_array (pcbs s p) ! j)\<lparr>in_use := 0\<rparr> else fd_array (pcbs s p) ! j)"
    if "j < 8" for j
    using a(3) that put_fd_at [OF k i, of p _ j] by (cases "j = i") (auto simp: s1_def)
  ultimately show ?case using step a(1,2) by (intro exI [of _ a]) simp
qed

section \<open>halt goes back to the parent\<close>

lemma clear_bitmask:
  "p < 6 \<Longrightarrow> aget process_clear_bitmasks p = Some (process_clear_bitmasks ! p)"
  "p < 6 \<Longrightarrow> bit (v AND process_clear_bitmasks ! p) i \<longleftrightarrow> bit v i \<and> i < 6 \<and> i \<noteq> p"
proof -
  assume p: "p < 6"
  show "aget process_clear_bitmasks p = Some (process_clear_bitmasks ! p)"
    using p by (simp add: process_clear_bitmasks_def aget_in)
  have "\<forall>p \<in> set [0..<6]. \<forall>i \<in> set [0..<8]. bit (process_clear_bitmasks ! p) i \<longleftrightarrow> i < 6 \<and> i \<noteq> p"
    by code_simp
  then have "bit (process_clear_bitmasks ! p) i \<longleftrightarrow> i < 6 \<and> i \<noteq> p" if "i < 8"
    using p that by simp
  then show "bit (v AND process_clear_bitmasks ! p) i \<longleftrightarrow> bit v i \<and> i < 6 \<and> i \<noteq> p"
    by (cases "i < 8") (auto simp: bit_simps dest: bit_imp_le_length)
qed

lemma kern_more_stack:
  assumes "paging.more s = paging.more (t :: 'a kern_scheme)"
  shows "old_esp s = old_esp t" "old_ebp s = old_ebp t" "esp_store s = esp_store t" "ebp_store s = ebp_store t"
  using assms by (cases s; cases t; simp)+

text \<open>The state after the program of process \<open>p\<close> has ended and process \<open>q\<close> runs again.\<close>

definition ended :: "klayout \<Rightarrow> nat \<Rightarrow> nat \<Rightarrow> bool \<Rightarrow> 'a kern_scheme \<Rightarrow> 'a kern_scheme \<Rightarrow> bool" where
  "ended L p q video s s' \<longleftrightarrow>
     (let c = unat (current_terminal s)
      in paging_view (layout.truncate L) s' (Some q) video \<and> mem s' = mem s \<and> start_fs s' = start_fs s \<and>
         tss_esp0 s' = kernel_stack_top q \<and> intr s' \<and>
         processes s' = processes s AND process_clear_bitmasks ! p \<and>
         terms s' = (terms s)[c := (terms s ! c)\<lparr>running_pcb := Some q\<rparr>] \<and>
         current_terminal s' = current_terminal s \<and> cursor_x s' = cursor_x s \<and> cursor_y s' = cursor_y s \<and>
         same_keys s s' \<and>
         (\<exists>a. pcbs s' = (pcbs s)(p := (pcbs s p)\<lparr>fd_array := a, args := replicate 95 0, pname := replicate 32 0\<rparr>) \<and>
            length a = 8 \<and> (\<forall>fd < 8. a ! fd = (if 2 \<le> fd then (fd_array (pcbs s p) ! fd)\<lparr>in_use := 0\<rparr>
              else fd_array (pcbs s p) ! fd))) \<and>
         kern_shape s')"

lemma halt_returns:
  assumes ok: "fds_ok s" and p: "cur_pcb s = Some p" "process_num (pcbs s p) = of_nat p" "0 < p" "p < 6"
    and start: "term_start (pcbs s p) \<noteq> 1"
    and q: "parent_pcb (pcbs s p) = Some q" "process_num (pcbs s q) = of_nat q" "q < 6" "q \<noteq> p"
    and L: "layout_ok (layout.truncate L)" and v: "paging_view (layout.truncate L) s img video"
  shows "\<exists>s'. halt L dev fr status s = Some (Resume (parent_sp (pcbs s p)) (parent_bp (pcbs s p)) s') \<and>
    ended L p q video s s'"
proof -
  let ?L = "layout.truncate L" and ?c = "unat (current_terminal s)" and ?m = "process_clear_bitmasks ! p"
  have k: "kern_shape s" using ok by (simp add: fds_ok_def)
  have c: "?c < length (terms s)" using k by (simp add: kern_shape_def)
  have ct: "cur_term s = Some (terms s ! ?c)" by (rule cur_term_shape [OF k])
  then have run: "running_pcb (terms s ! ?c) = Some p" using p(1) by (simp add: cur_pcb_def)
  define s0 where "s0 = (cli s)\<lparr>processes := processes s AND ?m\<rparr>"
  have s0: "fds_ok s0" "cur_pcb s0 = Some p" "pcbs s0 = pcbs s" "terms s0 = terms s" "current_terminal s0 = current_terminal s"
    using ok p(1) by (simp_all add: s0_def cli_def fds_ok_def kern_shape_def cur_pcb_def cur_term_def)
  obtain a where cl: "close_from [0..<8] s0 = Some (set_pcb p (\<lambda>b. b\<lparr>fd_array := a\<rparr>) s0)" and a8: "length a = 8"
    and a: "\<forall>j < 8. a ! j = (if 2 \<le> j then (fd_array (pcbs s p) ! j)\<lparr>in_use := 0\<rparr> else fd_array (pcbs s p) ! j)"
    using close_from_closes [OF s0(1,2), of 0] s0(3) by auto
  define b where "b = (pcbs s p)\<lparr>fd_array := a, args := replicate 95 0, pname := replicate 32 0\<rparr>"
  define s2 where "s2 = s0\<lparr>pcbs := (pcbs s)(p := b)\<rparr>"
  have s2: "set_pcb p (\<lambda>b. b\<lparr>args := replicate MAX_ARG_BUF_SIZE 0, pname := replicate FILENAME_SIZE 0\<rparr>)
      (set_pcb p (\<lambda>b. b\<lparr>fd_array := a\<rparr>) s0) = s2"
    by (cases "pcbs s p") (simp add: set_pcb_def s2_def b_def s0(3))
  define s3 where "s3 = s2\<lparr>old_ebp := parent_bp (pcbs s p), old_esp := parent_sp (pcbs s p),
      terms := (terms s)[?c := (terms s ! ?c)\<lparr>running_pcb := Some q\<rparr>]\<rparr>"
  have st: "set_term (\<lambda>t. t\<lparr>running_pcb := Some q\<rparr>)
      (s2\<lparr>old_ebp := parent_bp (pcbs s p), old_esp := parent_sp (pcbs s p)\<rparr>) = Some s3"
    using c s0(4,5) by (simp add: s3_def s2_def set_term_def cur_term_def aget_in aput_in)
  have v3: "paging_view ?L s3 img video" using v by (simp add: s3_def s2_def s0_def cli_def paging_view_def)
  have q8: "q < 8" using q(3) by simp
  define s4 where "s4 = set_control_registers ?L 0 (set_pde 0 32 (push_bit 22 (of_nat (q + 2)) OR 0x87) s3)"
  have ld: "load_new_process ?L (of_nat q) s3 = Some s4"
    using load_new_process_eq [OF q8, of ?L s3] by (simp only: s4_def)
  have v4: "paging_view ?L s4 (Some q) video" by (rule load_new_process_view [OF v3 L q8 ld])
  have s4: "mem s4 = mem s3" "paging.more s4 = paging.more s3" by (simp_all add: s4_def)
  note e4 = kern_more_paging [OF s4(2)]
  have s4': "terms s4 = terms s3" "pcbs s4 = (pcbs s)(p := b)" "current_terminal s4 = current_terminal s"
    using e4 s0 by (simp_all add: s3_def s2_def)
  have old: "old_esp s4 = parent_sp (pcbs s p)" "old_ebp s4 = parent_bp (pcbs s p)"
    using kern_more_stack [OF s4(2)] by (simp_all add: s3_def)
  have cq: "cur_pcb s4 = Some q"
    using c by (simp add: cur_pcb_def cur_term_def s4' s3_def aget_in)
  define s' where "s' = sti (s4\<lparr>tss_esp0 := kernel_stack_top q\<rparr>)"
  have u: "unat (of_nat p :: u32) = p" "unat (of_nat q :: u32) = q" using p(4) q(3) by simp_all
  have nz: "(of_nat p :: u32) \<noteq> 0" using p(3) u(1) by (metis neq0_conv unat_0)
  have base: "\<not> (process_num (pcbs s2 p) = 0 \<or> term_start (pcbs s2 p) = 1)"
    using p(2) start nz by (simp add: s2_def b_def)
  have par: "parent_pcb (pcbs s2 p) = Some q" "parent_sp (pcbs s2 p) = parent_sp (pcbs s p)"
    "parent_bp (pcbs s2 p) = parent_bp (pcbs s p)" using q(1) by (simp_all add: s2_def b_def)
  have numq: "process_num (pcbs s3 q) = of_nat q" using q(2,4) by (simp add: s3_def s2_def)
  have "halt L dev fr status s = Some (Resume (old_esp s') (old_ebp s') s')"
  proof -
    have t0: "cur_term (cli s) = Some (terms s ! ?c)" using ct by (simp add: cur_term_def cli_def)
    have p0: "pcbs (cli s) = pcbs s" by (simp add: cli_def)
    have "(cli s)\<lparr>processes := processes (cli s) AND ?m\<rparr> = s0" by (simp add: s0_def cli_def)
    then show ?thesis
      using run cl clear_bitmask(1) [OF p(4)] p(2) u q(4) q(2)
      by (simp add: halt_def t0 p0 s2 base par st numq ld cq s'_def s4') (simp only: Let_def)
  qed
  moreover have "old_esp s' = parent_sp (pcbs s p)" "old_ebp s' = parent_bp (pcbs s p)"
    using old by (simp_all add: s'_def sti_def)
  moreover have "ended L p q video s s'"
  proof -
    have "kern_shape s2"
      using s0(1,3) a8 by (simp add: s2_def b_def fds_ok_def kern_shape_def pcb_shape_def)
    then have "kern_shape s3"
      using shape_new_term [of s2 "\<lambda>t. t\<lparr>running_pcb := Some q\<rparr>" ?c] s0(4)
      by (simp add: s3_def s2_def kern_shape_def)
    then have "kern_shape s4" using e4 by (simp add: kern_shape_def)
    moreover have "processes s4 = processes s AND ?m" "start_fs s4 = start_fs s"
      using e4 by (simp_all add: s3_def s2_def s0_def cli_def)
    moreover have "mem s4 = mem s" using s4(1) by (simp add: s3_def s2_def s0_def cli_def)
    moreover have "cursor_x s4 = cursor_x s" "cursor_y s4 = cursor_y s"
      by (simp_all add: s4_def s3_def s2_def s0_def cli_def set_control_registers_def load_registers_def set_pde_def)
    moreover have "same_keys s s'"
      using same_keys_paging [OF s4(2)] by (simp add: same_keys_def s'_def sti_def s3_def s2_def s0_def cli_def)
    ultimately show ?thesis
      using v4 s4' a a8 by (auto simp: ended_def Let_def s'_def sti_def paging_view_def kern_shape_def s3_def b_def)
  qed
  ultimately show ?thesis by auto
qed

section \<open>The stacks of processes\<close>

text \<open>A process whose halt starts a shell again.\<close>

definition base_process :: "nat \<Rightarrow> 'a kern_scheme \<Rightarrow> bool" where
  "base_process p s \<longleftrightarrow> p = 0 \<or> term_start (pcbs s p) = 1"

text \<open>The chain of parents from a running process down to the shell of its terminal.\<close>

fun chain :: "'a kern_scheme \<Rightarrow> nat option \<Rightarrow> nat list \<Rightarrow> bool" where
  "chain s r [] \<longleftrightarrow> True"
| "chain s r [p] \<longleftrightarrow> r = Some p \<and> p < 6 \<and> process_num (pcbs s p) = of_nat p \<and> base_process p s"
| "chain s r (p # q # ps) \<longleftrightarrow> r = Some p \<and> p < 6 \<and> process_num (pcbs s p) = of_nat p \<and> \<not> base_process p s \<and>
     chain s (parent_pcb (pcbs s p)) (q # ps)"

text \<open>The stacks the kernel's data stand for. The process vector is the set of their members; no
  slot of the rest is marked as a terminal's shell.\<close>

definition stacks :: "'a kern_scheme \<Rightarrow> (nat \<Rightarrow> nat list) \<Rightarrow> bool" where
  "stacks s stk \<longleftrightarrow>
     (\<forall>c < 3. distinct (stk c) \<and> chain s (running_pcb (terms s ! c)) (stk c) \<and>
        (been_here (terms s ! c) = 1 \<longleftrightarrow> stk c \<noteq> [])) \<and>
     (\<forall>c < 3. \<forall>d < 3. c \<noteq> d \<longrightarrow> set (stk c) \<inter> set (stk d) = {}) \<and>
     (\<forall>p. bit (processes s) p \<longleftrightarrow> (\<exists>c < 3. p \<in> set (stk c))) \<and>
     (\<forall>p < 6. \<not> bit (processes s) p \<longrightarrow> term_start (pcbs s p) \<noteq> 1) \<and>
     (processes s \<noteq> 0 \<longrightarrow> bit (processes s) 0)"

lemma chain_cong:
  "(\<And>p. p \<in> set ps \<Longrightarrow> process_num (pcbs t p) = process_num (pcbs s p) \<and> term_start (pcbs t p) = term_start (pcbs s p) \<and>
      parent_pcb (pcbs t p) = parent_pcb (pcbs s p)) \<Longrightarrow> chain t r ps = chain s r ps"
  by (induction ps arbitrary: r rule: induct_list012) (simp_all add: base_process_def)

lemma stacksD:
  assumes "stacks s stk"
  shows "processes s \<noteq> 0 \<Longrightarrow> bit (processes s) 0"
    and "bit (processes s) p \<longleftrightarrow> (\<exists>c < 3. p \<in> set (stk c))"
    and "p < 6 \<Longrightarrow> \<not> bit (processes s) p \<Longrightarrow> term_start (pcbs s p) \<noteq> 1"
    and "c < 3 \<Longrightarrow> distinct (stk c)" and "c < 3 \<Longrightarrow> chain s (running_pcb (terms s ! c)) (stk c)"
    and "c < 3 \<Longrightarrow> been_here (terms s ! c) = 1 \<longleftrightarrow> stk c \<noteq> []"
    and "c < 3 \<Longrightarrow> d < 3 \<Longrightarrow> c \<noteq> d \<Longrightarrow> set (stk c) \<inter> set (stk d) = {}"
  using assms unfolding stacks_def by blast+

lemma stacks_small: "stacks s stk \<Longrightarrow> c < 3 \<Longrightarrow> p \<in> set (stk c) \<Longrightarrow> p < 6"
proof -
  have "chain s r ps \<Longrightarrow> p \<in> set ps \<Longrightarrow> p < 6" for r ps
    by (induction ps arbitrary: r rule: induct_list012) auto
  then show "stacks s stk \<Longrightarrow> c < 3 \<Longrightarrow> p \<in> set (stk c) \<Longrightarrow> p < 6" by (auto simp: stacks_def)
qed

text \<open>Starting a program pushes it.\<close>

lemma started_pushes:
  assumes st: "stacks s stk" and k: "kern_shape s" and slot: "free_slots 0 (processes s) = p # ps"
    and go: "started L fr nm ar prog p video s s'"
  defines "c \<equiv> unat (current_terminal s)"
  shows "stacks s' (stk(c := p # stk c))"
proof -
  have c: "c < 3" "length (terms s) = 3" using k by (simp_all add: kern_shape_def c_def)
  have "p \<in> set (free_slots 0 (processes s))" by (simp add: slot)
  then have p: "p < 6" "\<not> bit (processes s) p" by (simp_all add: free_slots_def)
  obtain fds where pcbs': "pcbs s' = (pcbs s)(p := (new_pcb fr p nm ar (terms s ! c) (pcbs s p))\<lparr>fd_array := fds\<rparr>)"
    using go by (auto simp: started_def Let_def c_def)
  have proc': "processes s' = processes s OR push_bit p 1"
    and terms': "terms s' = (terms s)[c := (terms s ! c)\<lparr>running_pcb := Some p, been_here := 1\<rparr>]"
    using go by (simp_all add: started_def Let_def c_def)
  have bit': "bit (processes s') i \<longleftrightarrow> bit (processes s) i \<or> i = p" for i
    using p(1) by (auto simp: proc' bit_simps dest: bit_imp_le_length)
  have free: "p \<notin> set (stk d)" if "d < 3" for d using st p(2) that by (auto simp: stacks_def)
  have same: "chain s' r (stk d) = chain s r (stk d)" if "d < 3" for d r
    using free [OF that] by (intro chain_cong) (auto simp: pcbs')
  have ts: "term_start (pcbs s p) \<noteq> 1" using st p by (simp add: stacks_def)
  have bh: "been_here (terms s ! c) = 1 \<longleftrightarrow> stk c \<noteq> []" using st c by (simp add: stacks_def)
  have p0: "p \<noteq> 0" if "stk c \<noteq> []"
  proof -
    obtain q where "q \<in> set (stk c)" using \<open>stk c \<noteq> []\<close> by (cases "stk c") auto
    then have "bit (processes s) q" using st c(1) by (auto simp: stacks_def)
    then have "processes s \<noteq> 0" by auto
    then have "bit (processes s) 0" by (rule stacksD(1) [OF st])
    then show ?thesis using p(2) by (cases "p = 0") auto
  qed
  have top: "chain s' (Some p) (p # stk c)"
  proof (cases "stk c")
    case Nil
    then show ?thesis using bh p(1) by (simp add: pcbs' new_pcb_def base_process_def)
  next
    case (Cons q qs)
    have "chain s' (running_pcb (terms s ! c)) (stk c)" using same [OF c(1)] st c(1) by (simp add: stacks_def)
    then show ?thesis
      using Cons p(1) p0 bh ts by (simp add: pcbs' new_pcb_def base_process_def)
  qed
  show ?thesis
    unfolding stacks_def
  proof (intro conjI allI impI)
    fix d :: nat assume d: "d < 3"
    show "distinct ((stk(c := p # stk c)) d)" using st d free [OF d] by (auto simp: stacks_def)
    show "chain s' (running_pcb (terms s' ! d)) ((stk(c := p # stk c)) d)"
      using top same [OF d] st d c by (cases "d = c") (simp_all add: terms' stacks_def)
    show "been_here (terms s' ! d) = 1 \<longleftrightarrow> (stk(c := p # stk c)) d \<noteq> []"
      using st d c by (cases "d = c") (simp_all add: terms' stacks_def)
  next
    fix d e :: nat assume "d < 3" "e < 3" "d \<noteq> e"
    then show "set ((stk(c := p # stk c)) d) \<inter> set ((stk(c := p # stk c)) e) = {}"
      using st free by (auto simp: stacks_def)
  next
    fix i show "bit (processes s') i \<longleftrightarrow> (\<exists>d < 3. i \<in> set ((stk(c := p # stk c)) d))"
      using st c(1) by (auto simp: bit' stacks_def)
  next
    fix i :: nat assume "i < 6" "\<not> bit (processes s') i"
    then show "term_start (pcbs s' i) \<noteq> 1" using st by (simp add: bit' pcbs' stacks_def)
  next
    assume "processes s' \<noteq> 0"
    show "bit (processes s') 0"
    proof (cases "processes s = 0")
      case True
      then have "free_slots 0 (processes s) = [0, 1, 2, 3, 4, 5]" by (simp add: free_slots_def upt_rec)
      then show ?thesis using slot by (simp add: bit')
    next
      case False
      then have "bit (processes s) 0" by (rule stacksD(1) [OF st])
      then show ?thesis by (simp add: bit')
    qed
  qed
qed

text \<open>Ending the program on top of a shell pops it.\<close>

lemma chain_top:
  "chain s r (p # q # qs) \<Longrightarrow> r = Some p \<and> 0 < p \<and> p < 6 \<and> process_num (pcbs s p) = of_nat p \<and>
     term_start (pcbs s p) \<noteq> 1 \<and> parent_pcb (pcbs s p) = Some q \<and> q < 6 \<and> process_num (pcbs s q) = of_nat q"
  by (cases qs) (simp_all add: base_process_def)

lemma ended_pops:
  assumes st: "stacks s stk" and k: "kern_shape s" and top: "stk c = p # q # qs"
    and cdef: "c = unat (current_terminal s)" and go: "ended L p q video s s'"
  shows "stacks s' (stk(c := q # qs))"
proof -
  have c: "c < 3" "length (terms s) = 3" using k by (simp_all add: kern_shape_def cdef)
  have ch: "chain s (running_pcb (terms s ! c)) (p # q # qs)" using stacksD(5) [OF st c(1)] by (simp only: top)
  note tp = chain_top [OF ch]
  obtain a where pcbs': "pcbs s' = (pcbs s)(p := (pcbs s p)\<lparr>fd_array := a, args := replicate 95 0, pname := replicate 32 0\<rparr>)"
    using go by (auto simp: ended_def Let_def)
  have proc': "processes s' = processes s AND process_clear_bitmasks ! p"
    and terms': "terms s' = (terms s)[c := (terms s ! c)\<lparr>running_pcb := Some q\<rparr>]"
    using go by (simp_all add: ended_def Let_def cdef)
  have bit': "bit (processes s') i \<longleftrightarrow> bit (processes s) i \<and> i < 6 \<and> i \<noteq> p" for i
    using clear_bitmask(2) [of p] tp by (simp add: proc')
  have same: "chain s' r ps = chain s r ps" for r ps by (intro chain_cong) (auto simp: pcbs')
  have d: "distinct (p # q # qs)" using stacksD(4) [OF st c(1)] by (simp only: top)
  have rest: "chain s (Some q) (q # qs)" using ch tp by simp
  have sub: "set ((stk(c := q # qs)) d) \<subseteq> set (stk d)" for d using top by (cases "d = c") auto
  have mem: "i \<in> set ((stk(c := q # qs)) d) \<longleftrightarrow> i \<in> set (stk d) \<and> i \<noteq> p" if "d < 3" for i d
  proof (cases "d = c")
    case True
    then show ?thesis using d by (auto simp: top)
  next
    case False
    then have "p \<notin> set (stk d)" using stacksD(7) [OF st c(1) that] top by auto
    then show ?thesis using False by auto
  qed
  show ?thesis
    unfolding stacks_def
  proof (intro conjI allI impI)
    fix d :: nat assume d3: "d < 3"
    show "distinct ((stk(c := q # qs)) d)" using stacksD(4) [OF st d3] d by (cases "d = c") auto
    show "chain s' (running_pcb (terms s' ! d)) ((stk(c := q # qs)) d)"
      using rest stacksD(5) [OF st d3] d3 c by (cases "d = c") (simp_all add: terms' same)
    show "been_here (terms s' ! d) = 1 \<longleftrightarrow> (stk(c := q # qs)) d \<noteq> []"
      using stacksD(6) [OF st d3] d3 c top by (cases "d = c") (simp_all add: terms')
  next
    fix d e :: nat assume "d < 3" "e < 3" "d \<noteq> e"
    then show "set ((stk(c := q # qs)) d) \<inter> set ((stk(c := q # qs)) e) = {}"
      using stacksD(7) [OF st] sub by blast
  next
    fix i show "bit (processes s') i \<longleftrightarrow> (\<exists>d < 3. i \<in> set ((stk(c := q # qs)) d))"
      using stacksD(2) [OF st, of i] stacks_small [OF st, of _ i] mem [of _ i] by (auto simp only: bit')
  next
    fix i :: nat assume "i < 6" "\<not> bit (processes s') i"
    then show "term_start (pcbs s' i) \<noteq> 1" using stacksD(3) [OF st, of i] tp by (auto simp: bit' pcbs')
  next
    assume "processes s' \<noteq> 0"
    then obtain i where "bit (processes s') i" by (metis bit_eq_iff bit_0_eq bot_apply bot_bool_def)
    then have "processes s \<noteq> 0" by (auto simp: bit')
    then show "bit (processes s') 0" using stacksD(1) [OF st] tp by (simp add: bit')
  qed
qed

lemma halt_pops:
  assumes st: "stacks s stk" and ok: "fds_ok s" and top: "stk (unat (current_terminal s)) = p # q # qs"
    and L: "layout_ok (layout.truncate L)" and v: "paging_view (layout.truncate L) s img video"
  shows "\<exists>s'. halt L dev fr status s = Some (Resume (parent_sp (pcbs s p)) (parent_bp (pcbs s p)) s') \<and>
    ended L p q video s s' \<and> stacks s' (stk(unat (current_terminal s) := q # qs))"
proof -
  let ?c = "unat (current_terminal s)"
  have k: "kern_shape s" using ok by (simp add: fds_ok_def)
  then have c: "?c < 3" by (simp add: kern_shape_def)
  have ch: "chain s (running_pcb (terms s ! ?c)) (p # q # qs)" using stacksD(5) [OF st c] by (simp only: top)
  note tp = chain_top [OF ch]
  have "cur_pcb s = Some p" using cur_term_shape [OF k] tp by (simp add: cur_pcb_def)
  moreover have "q \<noteq> p" using stacksD(4) [OF st c] by (auto simp: top)
  ultimately obtain s' where "halt L dev fr status s = Some (Resume (parent_sp (pcbs s p)) (parent_bp (pcbs s p)) s')"
    "ended L p q video s s'"
    using halt_returns [OF ok _ _ _ _ _ _ _ _ _ L v, of p q dev fr status] tp by blast
  then show ?thesis using ended_pops [OF st k top refl] by blast
qed

lemma execute_pushes:
  assumes st: "stacks s stk" and c: "c_str cmd xs" and xs: "length xs < 32"
    and k: "kern_shape s" and L: "layout_ok (layout.truncate L)"
    and v: "paging_view (layout.truncate L) s img video" and ok: "startable L fr extent xs inode p s"
  defines "prog \<equiv> contents (mem s) (start_fs s) inode"
  shows "\<exists>s'. execute L dev fr (Some cmd) s = Some (Enter_user (le_word (take 4 (drop 24 prog))) s') \<and>
    started L fr (cmd_name xs) (cmd_args xs) prog p video s s' \<and>
    stacks s' (stk(unat (current_terminal s) := p # stk (unat (current_terminal s))))"
proof -
  obtain ps where "free_slots 0 (processes s) = p # ps" using ok by (auto simp: startable_def)
  then show ?thesis
    using execute_starts [OF c xs k L v ok, of dev, folded prog_def] started_pushes [OF st k] by blast
qed

text \<open>A program that is executed from another one and halts leaves the kernel as it was, up to its
  own control block and the memory the loader wrote.\<close>

lemma execute_halt_restores:
  assumes st: "stacks s stk" and parent: "stk (unat (current_terminal s)) = q # qs"
    and c: "c_str cmd xs" and xs: "length xs < 32" and ok: "fds_ok s" and L: "layout_ok (layout.truncate L)"
    and v: "paging_view (layout.truncate L) s img video" and go: "startable L fr extent xs inode p s"
  defines "prog \<equiv> contents (mem s) (start_fs s) inode"
  shows "\<exists>s1 s2. execute L dev fr (Some cmd) s = Some (Enter_user (le_word (take 4 (drop 24 prog))) s1) \<and>
    halt L dev fr2 status s1 = Some (Resume (esp fr) (ebp fr) s2) \<and>
    stacks s2 stk \<and> processes s2 = processes s \<and> terms s2 = terms s \<and> current_terminal s2 = current_terminal s \<and>
    paging_view (layout.truncate L) s2 (Some q) video \<and> tss_esp0 s2 = kernel_stack_top q \<and>
    (\<forall>r. r \<noteq> p \<longrightarrow> pcbs s2 r = pcbs s r) \<and>
    (\<forall>x. \<not> in_region (exec_buf fr) 4 x \<longrightarrow> \<not> in_region (entry_point L) 4 x \<longrightarrow>
       \<not> in_region (image_base p) (length prog) x \<longrightarrow> mem s2 x = mem s x)"
proof -
  let ?c = "unat (current_terminal s)"
  have k: "kern_shape s" using ok by (simp add: fds_ok_def)
  then have c3: "?c < 3" "?c < length (terms s)" by (simp_all add: kern_shape_def)
  obtain s1 where s1: "execute L dev fr (Some cmd) s = Some (Enter_user (le_word (take 4 (drop 24 prog))) s1)"
    "started L fr (cmd_name xs) (cmd_args xs) prog p video s s1" "stacks s1 (stk(?c := p # stk ?c))"
    using execute_pushes [OF st c xs k L v go, of dev, folded prog_def] by blast
  have s1f: "fds_ok s1" "current_terminal s1 = current_terminal s" "paging_view (layout.truncate L) s1 (Some p) video"
    "terms s1 = (terms s)[?c := (terms s ! ?c)\<lparr>running_pcb := Some p, been_here := 1\<rparr>]"
    using s1(2) ok by (simp_all add: started_def Let_def)
  obtain fds where pcbs1: "pcbs s1 = (pcbs s)(p :=
      (new_pcb fr p (cmd_name xs) (cmd_args xs) (terms s ! ?c) (pcbs s p))\<lparr>fd_array := fds\<rparr>)"
    using s1(2) by (auto simp: started_def Let_def)
  have "stacks s1 (stk(?c := p # q # qs))" using s1(3) by (simp only: parent)
  then have "\<exists>s2. halt L dev fr2 status s1 = Some (Resume (parent_sp (pcbs s1 p)) (parent_bp (pcbs s1 p)) s2) \<and>
      ended L p q video s1 s2 \<and> stacks s2 ((stk(?c := p # q # qs))(unat (current_terminal s1) := q # qs))"
    by (rule halt_pops [OF _ s1f(1) _ L s1f(3)]) (simp add: s1f(2))
  then obtain s2 where s2: "halt L dev fr2 status s1 = Some (Resume (parent_sp (pcbs s1 p)) (parent_bp (pcbs s1 p)) s2)"
    "ended L p q video s1 s2" "stacks s2 ((stk(?c := p # q # qs))(unat (current_terminal s1) := q # qs))"
    by blast
  have stk2: "stacks s2 stk" using s2(3) parent by (simp add: s1f(2) flip: fun_upd_def) (simp add: fun_upd_idem)
  have "chain s1 (running_pcb (terms s1 ! ?c)) (p # q # qs)"
    using stacksD(5) [OF s1(3) c3(1)] by (simp add: parent)
  then have p0: "p \<noteq> 0" using chain_top by blast
  have "bit (processes s2) i \<longleftrightarrow> bit (processes s) i" for i
    by (simp only: stacksD(2) [OF stk2] stacksD(2) [OF st])
  then have pr: "processes s2 = processes s" by (intro bit_eqI) blast
  have "chain s (running_pcb (terms s ! ?c)) (q # qs)" using stacksD(5) [OF st c3(1)] by (simp only: parent)
  then have "running_pcb (terms s ! ?c) = Some q" by (cases qs) simp_all
  moreover have "been_here (terms s ! ?c) = 1" using stacksD(6) [OF st c3(1)] by (simp add: parent)
  ultimately have same: "(terms s ! ?c)\<lparr>been_here := 1, running_pcb := Some q\<rparr> = terms s ! ?c" by simp
  have tm: "terms s2 = (terms s)[?c := (terms s ! ?c)\<lparr>been_here := 1, running_pcb := Some q\<rparr>]"
    using s2(2) c3(2) by (simp add: ended_def Let_def s1f)
  have frame: "\<forall>r. r \<noteq> p \<longrightarrow> pcbs s2 r = pcbs s r"
    using s2(2) by (auto simp: ended_def Let_def pcbs1)
  have memory: "\<forall>x. \<not> in_region (exec_buf fr) 4 x \<longrightarrow> \<not> in_region (entry_point L) 4 x \<longrightarrow>
       \<not> in_region (image_base p) (length prog) x \<longrightarrow> mem s2 x = mem s x"
    using s1(2) s2(2) by (simp add: started_def ended_def Let_def)
  have stack: "parent_sp (pcbs s1 p) = esp fr" "parent_bp (pcbs s1 p) = ebp fr"
    using p0 by (simp_all add: pcbs1 new_pcb_def)
  have rest: "current_terminal s2 = current_terminal s" "paging_view (layout.truncate L) s2 (Some q) video"
    "tss_esp0 s2 = kernel_stack_top q"
    using s2(2) by (simp_all add: ended_def Let_def s1f(2))
  show ?thesis
    using s1(1) s2(1) stk2 pr tm frame memory rest unfolding stack same list_update_id
    by (intro exI [of _ s1] exI [of _ s2] conjI)
qed

end
