(* ===== verification/Switching.thy ===== *)
theory Switching
  imports Lifecycle
begin

text \<open>
  What else happens to terminals: a shell that halts is started again, the count of processes
  that guards a terminal switch, and that a terminal which is left and returned to is as it was.
\<close>

section \<open>halt of a terminal's shell\<close>

lemma startable_frame:
  "mem t = mem s \<Longrightarrow> start_fs t = start_fs s \<Longrightarrow> processes t = processes s \<Longrightarrow>
    startable L fr extent xs inode p t = startable L fr extent xs inode p s"
  unfolding startable_def found_def loadable_def by (simp only:)

lemma shell_command: "c_str (c_lit ''shell'') (chars ''shell'')" "length (chars ''shell'') < 32"
  "cmd_name (chars ''shell'') = chars ''shell''" "cmd_args (chars ''shell'') = []"
  by (rule c_str_lit, simp add: chars_def) (simp_all add: cmd_name_def cmd_args_def chars_def)

lemma halt_restarts:
  assumes ok: "fds_ok s" and p: "cur_pcb s = Some p" "process_num (pcbs s p) = of_nat p" "p < 6"
    and base: "base_process p s"
    and L: "layout_ok (layout.truncate L)" and v: "paging_view (layout.truncate L) s img video"
    and go: "startable L fr extent (chars ''shell'') inode r (s\<lparr>processes := processes s AND process_clear_bitmasks ! p\<rparr>)"
  defines "prog \<equiv> contents (mem s) (start_fs s) inode"
  shows "\<exists>s2 s'. halt L dev fr status s = Some (Enter_user (le_word (take 4 (drop 24 prog))) s') \<and>
    started L fr (chars ''shell'') [] prog r video s2 s' \<and>
    processes s2 = processes s AND process_clear_bitmasks ! p \<and> terms s2 = terms s \<and>
    current_terminal s2 = current_terminal s \<and> mem s2 = mem s \<and> (\<forall>j. j \<noteq> p \<longrightarrow> pcbs s2 j = pcbs s j) \<and>
    term_start (pcbs s2 p) = term_start (pcbs s p)"
proof -
  let ?c = "unat (current_terminal s)" and ?m = "process_clear_bitmasks ! p"
  have k: "kern_shape s" using ok by (simp add: fds_ok_def)
  have ct: "cur_term s = Some (terms s ! ?c)" by (rule cur_term_shape [OF k])
  then have run: "running_pcb (terms s ! ?c) = Some p" using p(1) by (simp add: cur_pcb_def)
  define s0 where "s0 = (cli s)\<lparr>processes := processes s AND ?m\<rparr>"
  have s0: "fds_ok s0" "cur_pcb s0 = Some p" "pcbs s0 = pcbs s" "terms s0 = terms s" "current_terminal s0 = current_terminal s"
    using ok p(1) by (simp_all add: s0_def cli_def fds_ok_def kern_shape_def cur_pcb_def cur_term_def)
  obtain a where cl: "close_from [0..<8] s0 = Some (set_pcb p (\<lambda>b. b\<lparr>fd_array := a\<rparr>) s0)" and a8: "length a = 8"
    using close_from_closes [OF s0(1,2), of 0] by blast
  define b where "b = (pcbs s p)\<lparr>fd_array := a, args := replicate 95 0, pname := replicate 32 0\<rparr>"
  define s2 where "s2 = s0\<lparr>pcbs := (pcbs s)(p := b)\<rparr>"
  have s2: "set_pcb p (\<lambda>b. b\<lparr>args := replicate MAX_ARG_BUF_SIZE 0, pname := replicate FILENAME_SIZE 0\<rparr>)
      (set_pcb p (\<lambda>b. b\<lparr>fd_array := a\<rparr>) s0) = s2"
    by (cases "pcbs s p") (simp add: set_pcb_def s2_def b_def s0(3))
  have f2: "processes s2 = processes s AND ?m" "terms s2 = terms s" "current_terminal s2 = current_terminal s"
    "mem s2 = mem s" "start_fs s2 = start_fs s" "\<forall>j. j \<noteq> p \<longrightarrow> pcbs s2 j = pcbs s j"
    "term_start (pcbs s2 p) = term_start (pcbs s p)"
    by (simp_all add: s2_def s0_def cli_def b_def)
  have k2: "kern_shape s2"
    using s0(1,3) a8 by (simp add: s2_def b_def fds_ok_def kern_shape_def pcb_shape_def)
  have v2: "paging_view (layout.truncate L) s2 img video"
    using v by (simp add: s2_def s0_def cli_def paging_view_def)
  have "startable L fr extent (chars ''shell'') inode r s2"
    using go startable_frame [of s2 "s\<lparr>processes := processes s AND ?m\<rparr>"] f2 by simp
  from execute_starts [OF shell_command(1,2) k2 L v2 this, of dev]
  obtain s' where s': "execute L dev fr (Some (c_lit ''shell'')) s2 = Some (Enter_user (le_word (take 4 (drop 24 prog))) s')"
    "started L fr (chars ''shell'') [] prog r video s2 s'"
    unfolding f2(4,5) shell_command(3,4) prog_def [symmetric] by blast
  have u: "unat (of_nat p :: u32) = p" using p(3) by simp
  have "(of_nat p :: u32) = 0 \<longleftrightarrow> p = 0" unfolding word_unat_eq_iff u by simp
  then have b2: "process_num (pcbs s2 p) = 0 \<or> term_start (pcbs s2 p) = 1"
    using base p(2) by (auto simp: base_process_def s2_def b_def)
  have t0: "cur_term (cli s) = Some (terms s ! ?c)" using ct by (simp add: cur_term_def cli_def)
  have p0: "pcbs (cli s) = pcbs s" by (simp add: cli_def)
  have e0: "(cli s)\<lparr>processes := processes (cli s) AND ?m\<rparr> = s0" by (simp add: s0_def cli_def)
  have "halt L dev fr status s = Some (Enter_user (le_word (take 4 (drop 24 prog))) s')"
    using run cl clear_bitmask(1) [OF p(3)] p(2) u e0 b2 s'(1)
    by (simp add: halt_def t0 p0 s2 Let_def)
  then show ?thesis using s'(2) f2 by (intro exI [of _ s2] exI [of _ s']) blast
qed

section \<open>The count of processes\<close>

text \<open>The loop never shifts its mask: it counts the bit of process 0 six times, on top of what the
  uninitialised counter holds.\<close>

lemma calc_processes_eq: "calc_processes junk s = junk + (if bit (processes s) 0 then 6 else 0)"
proof -
  have "processes s AND 1 \<noteq> 0 \<longleftrightarrow> bit (processes s) 0"
    by (simp add: bit_0 and_one_eq odd_iff_mod_2_eq_one)
  then show ?thesis by (simp add: calc_processes_def for_loop_def upt_rec)
qed

section \<open>Leaving a terminal and coming back\<close>

lemma bytes_at_write_other:
  assumes "disjoint_region a n d (length bs)" and "n \<le> 4294967296"
  shows "bytes_at (write_bytes d bs m) a n = bytes_at m a n"
proof (intro nth_equalityI)
  fix i assume "i < length (bytes_at (write_bytes d bs m) a n)"
  then have i: "i < n" by simp
  then have "in_region a n (a + of_nat i)" using assms(2) by (intro in_region_offset)
  then show "bytes_at (write_bytes d bs m) a n ! i = bytes_at m a n ! i"
    using assms(1) i by (simp add: nth_bytes_at disjoint_region_def write_bytes_def)
qed simp

text \<open>Two blocks of 4000 bytes apart from each other.\<close>

definition apart :: "u32 \<Rightarrow> u32 \<Rightarrow> bool" where
  "apart a b \<longleftrightarrow> disjoint_region a 4000 b 4000 \<and> disjoint_region b 4000 a 4000"

lemma apart_upward: "apart d s \<Longrightarrow> upward_ok d s (unat (4000 :: u32))"
proof -
  assume "apart d s"
  then have "\<not> in_region s 4000 d" by (auto simp: apart_def disjoint_region_def in_region_def)
  then show ?thesis by (simp add: upward_ok_def in_region_def)
qed

definition saved_term :: "frame \<Rightarrow> 'a kern_scheme \<Rightarrow> terminal \<Rightarrow> terminal" where
  "saved_term fr s t = t\<lparr>keyboard_buffer := input_buffer s, term_cursor_x := cursor_x s, term_cursor_y := cursor_y s,
     current_esp := esp fr, current_ebp := ebp fr, esp0 := tss_esp0 s\<rparr>"

lemma save_terminal_eq:
  assumes k: "kern_shape s" and ap: "apart (vid_mem (terms s ! unat (current_terminal s))) VIDEO"
  defines "c \<equiv> unat (current_terminal s)"
  shows "save_terminal fr s = Some (s\<lparr>mem := write_bytes (vid_mem (terms s ! c)) (bytes_at (mem s) VIDEO 4000) (mem s),
    esp_store := esp fr, ebp_store := ebp fr, terms := (terms s)[c := saved_term fr s (terms s ! c)]\<rparr>)"
proof -
  have c: "c < length (terms s)" using k by (simp add: kern_shape_def c_def)
  have m: "memcpy (mem s) (vid_mem (terms s ! c)) VIDEO 4000 =
      write_bytes (vid_mem (terms s ! c)) (bytes_at (mem s) VIDEO 4000) (mem s)"
    using memcpy_copies [OF apart_upward [OF ap], of "mem s"] by (simp add: c_def)
  show ?thesis
    using c by (simp add: save_terminal_def cur_term_def set_term_def aget_in aput_in m saved_term_def Let_def flip: c_def)
qed

text \<open>The state in which terminal \<open>c\<close>, which runs process \<open>p\<close>, is shown again.\<close>

definition shown :: "klayout \<Rightarrow> nat \<Rightarrow> bool \<Rightarrow> terminal \<Rightarrow> 'a kern_scheme \<Rightarrow> 'a kern_scheme \<Rightarrow> bool" where
  "shown L p video t s s' \<longleftrightarrow>
     mem s' = write_bytes VIDEO (bytes_at (mem s) (vid_mem t) 4000) (mem s) \<and>
     input_buffer s' = keyboard_buffer t \<and> cursor_x s' = term_cursor_x t \<and> cursor_y s' = term_cursor_y t \<and>
     tss_esp0 s' = esp0 t \<and> paging_view (layout.truncate L) s' (Some p) video \<and>
     terms s' = terms s \<and> pcbs s' = pcbs s \<and> processes s' = processes s \<and> current_terminal s' = current_terminal s"

lemma restore_terminal_shows:
  assumes k: "kern_shape s" and t: "terms s ! unat (current_terminal s) = t" "running_pcb t = Some p"
    and p: "process_num (pcbs s p) = of_nat p" "p < 8" and ap: "apart VIDEO (vid_mem t)"
    and L: "layout_ok (layout.truncate L)" and v: "paging_view (layout.truncate L) s img video"
  shows "\<exists>s'. restore_terminal L s = Some (Resume (current_esp t) (current_ebp t) s') \<and> shown L p video t s s' \<and> kern_shape s'"
proof -
  have m: "memcpy (mem s) VIDEO (vid_mem t) 4000 = write_bytes VIDEO (bytes_at (mem s) (vid_mem t) 4000) (mem s)"
    using memcpy_copies [OF apart_upward [OF ap], of "mem s"] by simp
  have kt: "length (keyboard_buffer t) = 128"
    using k t(1) by (auto simp: kern_shape_def)
  define s1 where "s1 = s\<lparr>mem := write_bytes VIDEO (bytes_at (mem s) (vid_mem t) 4000) (mem s),
    input_buffer := keyboard_buffer t, cursor_x := term_cursor_x t, cursor_y := term_cursor_y t\<rparr>"
  define s3 where "s3 = (move_cursor_to (term_cursor_x t) (term_cursor_y t) s1)\<lparr>esp_store := current_esp t, ebp_store := current_ebp t\<rparr>"
  have f3: "mem s3 = mem s1" "input_buffer s3 = keyboard_buffer t" "cursor_x s3 = term_cursor_x t"
    "cursor_y s3 = term_cursor_y t" "terms s3 = terms s" "pcbs s3 = pcbs s" "processes s3 = processes s"
    "current_terminal s3 = current_terminal s" "esp_store s3 = current_esp t" "ebp_store s3 = current_ebp t"
    "temp_buffer s3 = temp_buffer s"
    by (simp_all add: s3_def s1_def move_cursor_to_def outb_def)
  have pm: "pcbs (move_cursor_to x y s1) = pcbs s" for x y
    by (simp add: s1_def move_cursor_to_def outb_def)
  have v3: "paging_view (layout.truncate L) s3 img video"
    using v by (simp add: s3_def s1_def move_cursor_to_def outb_def paging_view_def)
  define s4 where "s4 = set_control_registers (layout.truncate L) 0 (set_pde 0 32 (push_bit 22 (of_nat (p + 2)) OR 0x87) s3)"
  have ld: "load_new_process (layout.truncate L) (of_nat p) s3 = Some s4"
    using load_new_process_eq [OF p(2), of "layout.truncate L" s3] by (simp only: s4_def)
  have v4: "paging_view (layout.truncate L) s4 (Some p) video" by (rule load_new_process_view [OF v3 L p(2) ld])
  have s4: "mem s4 = mem s3" "paging.more s4 = paging.more s3" "cursor_x s4 = cursor_x s3" "cursor_y s4 = cursor_y s3"
    by (simp_all add: s4_def set_control_registers_def load_registers_def set_pde_def)
  note e4 = kern_more_paging [OF s4(2)] kern_more_stack [OF s4(2)]
  have "restore_terminal L s = Some (Resume (esp_store s4) (ebp_store s4) (s4\<lparr>tss_esp0 := esp0 t\<rparr>))"
    using t p(1) k ld
    by (simp add: restore_terminal_def cur_term_shape [OF k] m Let_def pm flip: s1_def s3_def)
  moreover have "shown L p video t s (s4\<lparr>tss_esp0 := esp0 t\<rparr>)"
    using v4 s4 e4 f3 by (simp add: shown_def paging_view_def s1_def)
  moreover have "kern_shape (s4\<lparr>tss_esp0 := esp0 t\<rparr>)"
    using k e4 f3 kt by (simp add: kern_shape_def)
  ultimately show ?thesis using e4(10-13) f3(9,10) by (intro exI [of _ "s4\<lparr>tss_esp0 := esp0 t\<rparr>"]) simp
qed

text \<open>A switch to a terminal that is in use: the old screen, line, cursor and stack are in the old
  terminal's record, those of the new one are current, and its process's page is mapped.\<close>

definition switched :: "klayout \<Rightarrow> frame \<Rightarrow> nat \<Rightarrow> bool \<Rightarrow> u8 \<Rightarrow> 'a kern_scheme \<Rightarrow> 'a kern_scheme \<Rightarrow> bool" where
  "switched L fr p video trm s s' \<longleftrightarrow>
     (let c = unat (current_terminal s); tc = terms s ! c; tb = terms s ! unat trm
      in bytes_at (mem s') VIDEO 4000 = bytes_at (mem s) (vid_mem tb) 4000 \<and>
         bytes_at (mem s') (vid_mem tc) 4000 = bytes_at (mem s) VIDEO 4000 \<and>
         (\<forall>x. \<not> in_region VIDEO 4000 x \<longrightarrow> \<not> in_region (vid_mem tc) 4000 x \<longrightarrow> mem s' x = mem s x) \<and>
         input_buffer s' = keyboard_buffer tb \<and> cursor_x s' = term_cursor_x tb \<and> cursor_y s' = term_cursor_y tb \<and>
         tss_esp0 s' = esp0 tb \<and> paging_view (layout.truncate L) s' (Some p) video \<and>
         terms s' = (terms s)[c := saved_term fr s tc] \<and> current_terminal s' = trm \<and>
         pcbs s' = pcbs s \<and> processes s' = processes s \<and> kern_shape s')"

lemma switch_shows:
  assumes k: "kern_shape s" and b: "unat trm < 3" "trm \<noteq> current_terminal s"
    and t: "been_here (terms s ! unat trm) = 1" "running_pcb (terms s ! unat trm) = Some p"
    and p: "process_num (pcbs s p) = of_nat p" "p < 8"
    and ap: "apart (vid_mem (terms s ! unat (current_terminal s))) VIDEO" "apart VIDEO (vid_mem (terms s ! unat trm))"
      "apart (vid_mem (terms s ! unat (current_terminal s))) (vid_mem (terms s ! unat trm))"
    and L: "layout_ok (layout.truncate L)" and v: "paging_view (layout.truncate L) s img video"
  shows "\<exists>s'. switch_to_other_term L dev fr fr2 trm s =
      Some (Resume (current_esp (terms s ! unat trm)) (current_ebp (terms s ! unat trm)) s') \<and>
    switched L fr p video trm s s'"
proof -
  define c where "c = unat (current_terminal s)"
  define tc tb where "tc = terms s ! c" and "tb = terms s ! unat trm"
  have c: "c < 3" "length (terms s) = 3" using k by (simp_all add: kern_shape_def c_def)
  have ne: "unat trm \<noteq> c" using b(2) by (simp add: c_def word_unat_eq_iff)
  define m1 where "m1 = write_bytes (vid_mem tc) (bytes_at (mem s) VIDEO 4000) (mem s)"
  define s1 where "s1 = s\<lparr>mem := m1, esp_store := esp fr, ebp_store := ebp fr, terms := (terms s)[c := saved_term fr s tc]\<rparr>"
  have sv: "save_terminal fr s = Some s1"
    using save_terminal_eq [OF k ap(1), of fr] by (simp add: s1_def m1_def tc_def c_def)
  define s2 where "s2 = (send_eoi 1 s1)\<lparr>current_terminal := trm\<rparr>"
  have f2: "mem s2 = m1" "terms s2 = (terms s)[c := saved_term fr s tc]" "pcbs s2 = pcbs s" "processes s2 = processes s"
    "current_terminal s2 = trm" "input_buffer s2 = input_buffer s" "temp_buffer s2 = temp_buffer s"
    by (simp_all add: s2_def s1_def send_eoi_def outb_def)
  have kb: "length (keyboard_buffer (saved_term fr s tc)) = 128" using k by (simp add: saved_term_def kern_shape_def)
  have k2: "kern_shape s2"
    using k kb b(1) by (auto simp: kern_shape_def f2 dest!: set_update_subset_insert [THEN subsetD])
  have t2: "terms s2 ! unat (current_terminal s2) = tb" using ne by (simp add: f2 tb_def)
  have v2: "paging_view (layout.truncate L) s2 img video"
    using v by (simp add: s2_def s1_def send_eoi_def outb_def paging_view_def)
  have p2: "process_num (pcbs s2 p) = of_nat p" using p(1) by (simp add: f2)
  obtain s' where s': "restore_terminal L s2 = Some (Resume (current_esp tb) (current_ebp tb) s')"
    "shown L p video tb s2 s'" "kern_shape s'"
    using restore_terminal_shows [OF k2 t2 _ p2 p(2) _ L v2] t(2) ap(2) by (auto simp: tb_def)
  have "aget (terms s) (unat trm) = Some tb" using b(1) c(2) by (simp add: aget_in tb_def)
  then have "switch_to_other_term L dev fr fr2 trm s = Some (Resume (current_esp tb) (current_ebp tb) s')"
    using sv t(1) s'(1) by (simp add: switch_to_other_term_def s2_def tb_def)
  moreover have "switched L fr p video trm s s'"
  proof -
    have m: "mem s' = write_bytes VIDEO (bytes_at m1 (vid_mem tb) 4000) m1" using s'(2) by (simp add: shown_def f2)
    have d: "disjoint_region (vid_mem tb) 4000 (vid_mem tc) (length (bytes_at (mem s) VIDEO 4000))"
      "disjoint_region (vid_mem tc) 4000 VIDEO (length (bytes_at m1 (vid_mem tb) 4000))"
      using ap(1,3) by (simp_all add: apart_def tb_def tc_def c_def)
    have "bytes_at m1 (vid_mem tb) 4000 = bytes_at (mem s) (vid_mem tb) 4000"
      unfolding m1_def by (rule bytes_at_write_other [OF d(1)]) simp
    moreover have "bytes_at (mem s') VIDEO 4000 = bytes_at m1 (vid_mem tb) 4000"
      unfolding m using bytes_at_write_bytes [of "bytes_at m1 (vid_mem tb) 4000" 4000 VIDEO m1] by simp
    moreover have "bytes_at (mem s') (vid_mem tc) 4000 = bytes_at m1 (vid_mem tc) 4000"
      unfolding m by (rule bytes_at_write_other [OF d(2)]) simp
    moreover have "bytes_at m1 (vid_mem tc) 4000 = bytes_at (mem s) VIDEO 4000"
      unfolding m1_def using bytes_at_write_bytes [of "bytes_at (mem s) VIDEO 4000" 4000 "vid_mem tc" "mem s"] by simp
    moreover have "mem s' x = mem s x" if "\<not> in_region VIDEO 4000 x" "\<not> in_region (vid_mem tc) 4000 x" for x
      using that by (simp add: m m1_def write_bytes_def)
    ultimately show ?thesis
      using s'(2,3) by (simp add: switched_def Let_def shown_def f2 flip: c_def tb_def) (simp add: tc_def)
  qed
  ultimately show ?thesis by (auto simp: tb_def)
qed

text \<open>What has to be left alone while another terminal is shown, for terminal \<open>a\<close> to come back.\<close>

definition kept_for :: "nat \<Rightarrow> nat \<Rightarrow> 'a kern_scheme \<Rightarrow> 'a kern_scheme \<Rightarrow> bool" where
  "kept_for a p s t \<longleftrightarrow> terms t ! a = terms s ! a \<and> process_num (pcbs t p) = of_nat p \<and>
     bytes_at (mem t) (vid_mem (terms s ! a)) 4000 = bytes_at (mem s) (vid_mem (terms s ! a)) 4000"

text \<open>The screens of all terminals are apart from each other and from video memory.\<close>

definition screens_apart :: "'a kern_scheme \<Rightarrow> bool" where
  "screens_apart s \<longleftrightarrow> (\<forall>a < 3. apart (vid_mem (terms s ! a)) VIDEO \<and> apart VIDEO (vid_mem (terms s ! a)) \<and>
     (\<forall>b < 3. a \<noteq> b \<longrightarrow> apart (vid_mem (terms s ! a)) (vid_mem (terms s ! b))))"

text \<open>The screens of the terminals are apart from each other and from the visible one.\<close>

lemma apart_nat: "a + 4000 \<le> b \<or> b + 4000 \<le> a \<Longrightarrow> a < 0x100000 \<Longrightarrow> b < 0x100000 \<Longrightarrow> apart (of_nat a) (of_nat b)"
  by (auto simp: apart_def disjoint_region_def in_region_nowrap)

lemma screens_apart_at:
  assumes "\<forall>a < 3. vid_mem (terms s ! a) = of_nat (0xB9000 + 0x1000 * a)"
  shows "screens_apart s"
  unfolding screens_apart_def
proof (intro allI impI conjI)
  have V: "VIDEO = of_nat 0xB8000" by (simp add: VIDEO_def)
  fix a :: nat assume a: "a < 3"
  then have va: "vid_mem (terms s ! a) = of_nat (0xB9000 + 0x1000 * a)" using assms by blast
  show "apart (vid_mem (terms s ! a)) VIDEO" "apart VIDEO (vid_mem (terms s ! a))"
    unfolding va V by (rule apart_nat; use a in simp)+
  fix b :: nat assume b: "b < 3" "a \<noteq> b"
  then have vb: "vid_mem (terms s ! b) = of_nat (0xB9000 + 0x1000 * b)" using assms by blast
  show "apart (vid_mem (terms s ! a)) (vid_mem (terms s ! b))"
    unfolding va vb using a b by (intro apart_nat) auto
qed

lemma switch_back:
  assumes k: "kern_shape s" and ap: "screens_apart s" "screens_apart t"
    and a: "current_terminal s = a" "been_here (terms s ! unat a) = 1" "running_pcb (terms s ! unat a) = Some q" "q < 8"
    and go: "switched L fr p video b s s1" "unat b < 3" "b \<noteq> a"
    and kept: "kept_for (unat a) q s1 t" "current_terminal t = b" "kern_shape t"
    and L: "layout_ok (layout.truncate L)" and v: "paging_view (layout.truncate L) t img w"
  shows "\<exists>s'. switch_to_other_term L dev fr2 fr3 a t = Some (Resume (esp fr) (ebp fr) s') \<and>
    bytes_at (mem s') VIDEO 4000 = bytes_at (mem s) VIDEO 4000 \<and> input_buffer s' = input_buffer s \<and>
    cursor_x s' = cursor_x s \<and> cursor_y s' = cursor_y s \<and> tss_esp0 s' = tss_esp0 s \<and>
    current_terminal s' = a \<and> paging_view (layout.truncate L) s' (Some q) w"
proof -
  have a3: "unat a < 3" "unat a < length (terms s)" using k a(1) by (auto simp: kern_shape_def)
  have ta: "terms t ! unat a = saved_term fr s (terms s ! unat a)" "terms s1 ! unat a = saved_term fr s (terms s ! unat a)"
    using kept(1) go(1) a(1) a3 by (simp_all add: kept_for_def switched_def Let_def)
  have vm: "vid_mem (saved_term fr s u) = vid_mem u" "been_here (saved_term fr s u) = been_here u"
    "running_pcb (saved_term fr s u) = running_pcb u" for u by (simp_all add: saved_term_def)
  have ne: "unat b \<noteq> unat a" using go(3) by (simp add: word_unat_eq_iff)
  have ap': "apart (vid_mem (terms t ! unat (current_terminal t))) VIDEO" "apart VIDEO (vid_mem (terms t ! unat a))"
    "apart (vid_mem (terms t ! unat (current_terminal t))) (vid_mem (terms t ! unat a))"
    using ap(2) a3(1) go(2) ne kept(2) by (simp_all add: screens_apart_def)
  have pn: "process_num (pcbs t q) = of_nat q" using kept(1) by (simp add: kept_for_def)
  obtain s' where s': "switch_to_other_term L dev fr2 fr3 a t =
      Some (Resume (current_esp (terms t ! unat a)) (current_ebp (terms t ! unat a)) s')" "switched L fr2 q w a t s'"
    using switch_shows [OF kept(3) a3(1) _ _ _ pn a(4) ap' L v, of dev fr2 fr3] kept(2) go(3) a(2,3) by (auto simp: ta vm)
  have "bytes_at (mem t) (vid_mem (terms s ! unat a)) 4000 = bytes_at (mem s1) (vid_mem (terms s ! unat a)) 4000"
    using kept(1) by (simp add: kept_for_def ta vm)
  also have "\<dots> = bytes_at (mem s) VIDEO 4000" using go(1) a(1) by (simp add: switched_def Let_def)
  finally have scr: "bytes_at (mem s') VIDEO 4000 = bytes_at (mem s) VIDEO 4000"
    using s'(2) by (simp add: switched_def Let_def ta vm)
  have "current_esp (terms t ! unat a) = esp fr" "current_ebp (terms t ! unat a) = ebp fr" by (simp_all add: ta saved_term_def)
  then show ?thesis
    using s' scr by (simp add: switched_def Let_def ta) (simp add: saved_term_def)
qed

text \<open>The first time a terminal is asked for, its shell is started in it; of the old terminal all but
  its screen's place is kept in its record.\<close>

lemma switch_starts:
  assumes k: "kern_shape s" and b: "unat trm < 3" and t: "been_here (terms s ! unat trm) \<noteq> 1"
    and ap: "apart (vid_mem (terms s ! unat (current_terminal s))) VIDEO"
  shows "\<exists>s2. switch_to_other_term L dev fr fr2 trm s =
      Option.bind (execute L dev fr2 (Some (c_lit ''shell'')) s2)
        (\<lambda>out. case out of Return r s3 \<Rightarrow> Some (Return 0 s3) | _ \<Rightarrow> Some out) \<and>
    current_terminal s2 = trm \<and> terms s2 = (terms s)[unat (current_terminal s) :=
      saved_term fr s (terms s ! unat (current_terminal s))] \<and> cursor_x s2 = 0 \<and> cursor_y s2 = 0 \<and>
    screen (mem s2) = (\<lambda>r c. if r < 25 \<and> c < 80 then 0x20 else 0)"
proof -
  define c where "c = unat (current_terminal s)"
  define s1 where "s1 = s\<lparr>mem := write_bytes (vid_mem (terms s ! c)) (bytes_at (mem s) VIDEO 4000) (mem s),
    esp_store := esp fr, ebp_store := ebp fr, terms := (terms s)[c := saved_term fr s (terms s ! c)]\<rparr>"
  have sv: "save_terminal fr s = Some s1" using save_terminal_eq [OF k ap, of fr] by (simp add: s1_def c_def)
  define s2 where "s2 = (send_eoi 1 (clear_screen s1))\<lparr>current_terminal := trm\<rparr>"
  have tg: "aget (terms s) (unat trm) = Some (terms s ! unat trm)" using k b by (simp add: kern_shape_def aget_in)
  have "switch_to_other_term L dev fr fr2 trm s = Option.bind (execute L dev fr2 (Some (c_lit ''shell'')) s2)
        (\<lambda>out. case out of Return r s3 \<Rightarrow> Some (Return 0 s3) | _ \<Rightarrow> Some out)"
    using sv t by (simp add: switch_to_other_term_def tg Let_def s2_def)
  moreover have "cursor_x s2 = 0" "cursor_y s2 = 0" "terms s2 = terms s1"
    by (simp_all add: s2_def clear_screen_def send_eoi_def outb_def clear_mem move_cursor_to_def Let_def)
  moreover have "screen (mem s2) = (\<lambda>r c. if r < 25 \<and> c < 80 then 0x20 else 0)"
    by (simp add: s2_def clear_screen_def send_eoi_def clear_mem Let_def)
      (auto simp: screen_def filled_at fun_eq_iff)
  ultimately show ?thesis by (intro exI [of _ s2]) (simp add: s2_def s1_def c_def)
qed

end
