(* ===== verification/Dispatch.thy ===== *)
theory Dispatch
  imports Switching
begin

text \<open>
  The way from a program into the kernel and back: the system call handler of
  \<^verbatim>\<open>student-distrib/syscall_handler.S\<close> with its jump table, and the return to a program of
  \<^verbatim>\<open>student-distrib/switch_to_user.S\<close>. A call finds its arguments in registers; the pointers
  among them are virtual addresses of the caller, which the kernel follows without any check.
\<close>

section \<open>Pointers of the caller\<close>

text \<open>A block of \<open>n\<close> bytes at a virtual address, as the physical address its bytes lie at in one
  stretch; \<open>None\<close> when an access faults or the block is torn apart. An address that is not followed
  (a block of no bytes) is passed on as it is.\<close>

definition span :: "layout \<Rightarrow> 'a paging_scheme \<Rightarrow> bool \<Rightarrow> u32 \<Rightarrow> nat \<Rightarrow> u32 option" where
  "span M s usr va n =
     (if n = 0 then Some va
      else Option.bind (translate M s usr va) (\<lambda>pa.
             if list_all (\<lambda>i. translate M s usr (va + of_nat i) = Some (pa + of_nat i)) [0..<n]
             then Some pa else None))"

definition user_str :: "layout \<Rightarrow> 'a paging_scheme \<Rightarrow> u32 \<Rightarrow> cptr" where
  "user_str M s va = (\<lambda>i. map_option (mem s) (translate M s False (va + of_nat i)))"

text \<open>How many bytes at its buffer a read or write reaches at most, by the driver behind the
  descriptor: a read of the terminal clears \<open>nbytes\<close> bytes and copies a line of at most 128, a read of
  the directory writes 33 if there is an entry left.\<close>

definition read_extent :: "u32 \<Rightarrow> u32 \<Rightarrow> 'a kern_scheme \<Rightarrow> driver \<Rightarrow> nat" where
  "read_extent fd nbytes s d = (case d of
     Terminal_fops \<Rightarrow> if fd = 0 then max (unat nbytes) 128 else 0
   | Rtc_fops \<Rightarrow> 0
   | Dir_fops \<Rightarrow> if directoryIndex s \<ge> load32 (mem s) (start_fs s) then 0 else 33
   | File_fops \<Rightarrow> unat nbytes)"

definition write_extent :: "u32 \<Rightarrow> u32 \<Rightarrow> driver \<Rightarrow> nat" where
  "write_extent fd nbytes d = (case d of
     Terminal_fops \<Rightarrow> if fd = 1 then unat nbytes else 0 | Rtc_fops \<Rightarrow> 4 | Dir_fops \<Rightarrow> 0 | File_fops \<Rightarrow> 0)"

text \<open>The driver a call on \<open>fd\<close> ends in, if it gets that far.\<close>

definition fd_driver :: "'a kern_scheme \<Rightarrow> u32 \<Rightarrow> driver option" where
  "fd_driver s fd =
     (if fd > 7 then None
      else Option.bind (cur_fd s (unat fd)) (\<lambda>d. if in_use d = 0 then None else fops d))"

definition fd_extent :: "(driver \<Rightarrow> nat) \<Rightarrow> 'a kern_scheme \<Rightarrow> u32 \<Rightarrow> u32 \<Rightarrow> nat" where
  "fd_extent ext s fd buf =
     (if buf = 0 then 0 else case fd_driver s fd of None \<Rightarrow> 0 | Some d \<Rightarrow> ext d)"

text \<open>\<open>getargs\<close> fills 95 bytes, or as many as the string it finds in the buffer has,
  and reads that string to its end.\<close>

definition getargs_extent :: "layout \<Rightarrow> 'a kern_scheme \<Rightarrow> u32 \<Rightarrow> u32 \<Rightarrow> nat option" where
  "getargs_extent M s buf nbytes =
     (if buf = 0 \<or> sint nbytes \<le> 0 \<or> Option.bind (cur_pcb s) (\<lambda>p. aget (args (pcbs s p)) 0) = Some 0 then Some 0
      else map_option (\<lambda>k. max MAX_ARG_BUF_SIZE (Suc k)) (strlen (user_str M s buf)))"

section \<open>The handler\<close>

record regs =
  eax :: u32
  ebx :: u32
  ecx :: u32
  edx :: u32

definition MIN_SYSTEM_CALLS :: int where "MIN_SYSTEM_CALLS = 1"
definition MAX_SYSTEM_CALLS :: int where "MAX_SYSTEM_CALLS = 10"

text \<open>The jump table. \<open>lit\<close> and \<open>hs\<close> are as for \<open>getargs\<close> and \<open>sys_read\<close>.\<close>

definition syscalls ::
    "klayout \<Rightarrow> device \<Rightarrow> frame \<Rightarrow> u32 \<Rightarrow> ('a kern_scheme \<Rightarrow> 'a kern_scheme) list \<Rightarrow> regs
      \<Rightarrow> 'a kern_scheme \<Rightarrow> 'a kern_scheme outcome option" where
  "syscalls L dev fr lit hs r s =
     (let M = layout.truncate L;
          n = unat (eax r);
          ret = map_option (\<lambda>(v, s'). Return v s')
      in if n = 1 then halt L dev fr (ucast (ebx r)) s
         else if n = 2 then execute L dev fr (if ebx r = 0 then None else Some (user_str M s (ebx r))) s
         else if n = 3 then
           Option.bind (span M s False (ecx r) (fd_extent (read_extent (ebx r) (edx r) s) s (ebx r) (ecx r)))
             (\<lambda>buf. ret (sys_read hs (ebx r) buf (edx r) s))
         else if n = 4 then
           Option.bind (span M s False (ecx r) (fd_extent (write_extent (ebx r) (edx r)) s (ebx r) (ecx r)))
             (\<lambda>buf. ret (sys_write dev (ebx r) buf (edx r) s))
         else if n = 5 then ret (sys_open dev (user_str M s (ebx r)) s)
         else if n = 6 then ret (sys_close (ebx r) s)
         else if n = 7 then
           Option.bind (getargs_extent M s (ebx r) (ecx r)) (\<lambda>k.
           Option.bind (span M s False (ebx r) k) (\<lambda>buf. ret (getargs lit buf (ecx r) s)))
         else if n = 8 then ret (vidmap M (ebx r) s)
         else if n = 9 then Some (Return (set_handler (ebx r) (ecx r)) s)
         else if n = 10 then Some (Return sigreturn s)
         else None)"

text \<open>From \<open>int 0x80\<close> to \<open>iret\<close>. The return goes back to the caller's flags, where interrupts
  are on.\<close>

definition syscall_handler ::
    "klayout \<Rightarrow> device \<Rightarrow> frame \<Rightarrow> u32 \<Rightarrow> ('a kern_scheme \<Rightarrow> 'a kern_scheme) list \<Rightarrow> regs
      \<Rightarrow> 'a kern_scheme \<Rightarrow> 'a kern_scheme outcome option" where
  "syscall_handler L dev fr lit hs r s =
     (let s0 = cli s
      in map_option (\<lambda>out. case out of Return v s' \<Rightarrow> Return v (sti s') | _ \<Rightarrow> out)
           (if sint (eax r) < MIN_SYSTEM_CALLS \<or> sint (eax r) > MAX_SYSTEM_CALLS then Some (Return (- 1) s0)
            else syscalls L dev fr lit hs r s0))"

section \<open>Into a program\<close>

text \<open>What \<open>switch_to_user\<close> pushes for its \<open>iret\<close>.\<close>

record iret_frame =
  iret_eip :: u32
  iret_cs :: u32
  iret_eflags :: u32
  iret_esp :: u32
  iret_ss :: u32

definition USER_CS :: u32 where "USER_CS = 0x23"
definition USER_DS :: u32 where "USER_DS = 0x2B"
definition stack_segment :: u32 where "stack_segment = 0x83FFFF0"
definition FLAG_SETTINGS :: u32 where "FLAG_SETTINGS = 0x4200"

definition switch_to_user :: "u32 \<Rightarrow> u32 \<Rightarrow> iret_frame" where
  "switch_to_user eflags eip = \<lparr>iret_eip = eip, iret_cs = USER_CS, iret_eflags = eflags OR FLAG_SETTINGS,
     iret_esp = stack_segment, iret_ss = USER_DS\<rparr>"

definition IF_bit :: nat where "IF_bit = 9"

text \<open>The processor's part of \<open>iret\<close> that the model sees: the interrupt flag.\<close>

definition iret :: "iret_frame \<Rightarrow> 'a hw_scheme \<Rightarrow> 'a hw_scheme" where
  "iret f s = s\<lparr>intr := bit (iret_eflags f) IF_bit\<rparr>"

section \<open>What the table does\<close>

lemma unknown_call:
  "sint (eax r) < 1 \<or> 10 < sint (eax r) \<Longrightarrow> syscall_handler L dev fr lit hs r s = Some (Return (- 1) (sti (cli s)))"
  by (auto simp: syscall_handler_def MIN_SYSTEM_CALLS_def MAX_SYSTEM_CALLS_def)

lemma user_interrupts: "intr (iret (switch_to_user fl eip) s)"
  by (simp add: iret_def switch_to_user_def FLAG_SETTINGS_def IF_bit_def bit_simps bit_numeral_word_iff)

end
