(* ===== verification/Keyboard.thy ===== *)
theory Keyboard
  imports Process
begin

text \<open>
  The keyboard interrupt, \<^verbatim>\<open>student-distrib/keyboard_driver.c\<close>, and \<open>handle_keyboard\<close> of
  \<^verbatim>\<open>idt.c\<close>. Line editing is proved against an editor of byte lists.
\<close>

definition KEYBOARD_DATA_PORT :: u16 where "KEYBOARD_DATA_PORT = 0x60"
definition BACKSPACE :: u8 where "BACKSPACE = 0x0E"
definition CAPS_LOCK :: u8 where "CAPS_LOCK = 0x3A"
definition L_SHIFT :: u8 where "L_SHIFT = 0x2A"
definition L_SHIFT_P :: u8 where "L_SHIFT_P = 0xAA"
definition R_SHIFT :: u8 where "R_SHIFT = 0x36"
definition R_SHIFT_P :: u8 where "R_SHIFT_P = 0xB6"
definition ENTER :: u8 where "ENTER = 0x1C"
definition CTRL :: u8 where "CTRL = 0x1D"
definition F3 :: u8 where "F3 = 0x3d"
definition RELEASE :: u8 where "RELEASE = 0x80"
definition RELEASE_L :: u8 where "RELEASE_L = 0xA6"
definition RELEASE_1 :: u8 where "RELEASE_1 = 0x82"
definition RELEASE_2 :: u8 where "RELEASE_2 = 0x83"
definition RELEASE_3 :: u8 where "RELEASE_3 = 0x84"

lemmas key_codes = BACKSPACE_def CAPS_LOCK_def L_SHIFT_def L_SHIFT_P_def R_SHIFT_def R_SHIFT_P_def
  ENTER_def CTRL_def F3_def RELEASE_def RELEASE_L_def RELEASE_1_def RELEASE_2_def RELEASE_3_def

text \<open>The tables, 100 integers each: the missing ones are zero. Codes 14, 28, 42 hold a
  character \<open>0\<close>, 15 a tab, 39 to 43 and 26, 27 the punctuation.\<close>

definition keyboard_char :: "u8 list" where
  "keyboard_char =
     chars ''001234567890-=0'' @ [0x09] @ chars ''qwertyuiop[]'' @ chars ''0'' @ chars ''a'' @
     chars ''asdfghjkl;'' @ [0x27, 0x60] @ chars ''0'' @ [0x5C] @ chars ''zxcvbnm'' @
     chars '',./000'' @ chars '' '' @ replicate 42 0"

definition shift_keyboard_char :: "u8 list" where
  "shift_keyboard_char =
     chars ''00!@#$%^&*()_+'' @ chars ''00'' @ chars ''0000000000{}'' @ chars ''00'' @
     chars ''000000000:'' @ [0x22] @ chars ''~'' @ chars ''0|'' @ chars ''0000000'' @ chars ''<>?'' @
     replicate 46 0"

lemma key_tables: "length keyboard_char = 100" "length shift_keyboard_char = 100"
  by (simp_all add: keyboard_char_def shift_keyboard_char_def)

section \<open>A key is pressed\<close>

text \<open>Lines 287 to 301: a character.\<close>

definition type_char :: "u8 \<Rightarrow> 'a kern_scheme \<Rightarrow> 'a kern_scheme option" where
  "type_char scancode s =
     (if length_typed s < 128 \<and> scancode \<noteq> BACKSPACE then
        Option.bind (aget keyboard_char (unat scancode)) (\<lambda>c.
        Option.bind
          (if (shift_flag s = 1 \<or> caps_flag s = 1) \<and> c \<ge> 97 \<and> c \<le> 122 then Some (c - 32)
           else if (shift_flag s = 1 \<or> caps_flag s = 1) \<and> (c < 97 \<or> c > 122)
           then aget shift_keyboard_char (unat scancode)
           else Some c) (\<lambda>v.
        Option.bind (aput (nat (length_typed s)) v (input_buffer s)) (\<lambda>ib.
          let s1 = put_cell (cursor_y s) (cursor_x s) v (s\<lparr>input_buffer := ib\<rparr>)
          in Some (s1\<lparr>length_typed := length_typed s1 + 1, cursor_x := cursor_x s1 + 1\<rparr>))))
      else Some s)"

text \<open>Lines 257 to 268.\<close>

definition press_enter :: "'a kern_scheme \<Rightarrow> 'a kern_scheme" where
  "press_enter s =
     (let s1 = s\<lparr>cursor_x := 0, cursor_y := cursor_y s + 1\<rparr>;
          s2 = s1\<lparr>temp_buffer := input_buffer s1, old_length_typed := length_typed s1\<rparr>
      in (flush s2)\<lparr>can_read := 1\<rparr>)"

text \<open>Lines 269 to 283.\<close>

definition press_backspace :: "'a kern_scheme \<Rightarrow> 'a kern_scheme" where
  "press_backspace s =
     (let s1 = (if cursor_x s = 0 \<and> cursor_y s \<noteq> 0
                then s\<lparr>cursor_x := 79, cursor_y := cursor_y s - 1, length_typed := length_typed s - 1\<rparr>
                else if cursor_x s \<noteq> 0
                then s\<lparr>cursor_x := cursor_x s - 1, length_typed := length_typed s - 1\<rparr>
                else s)
      in put_cell (cursor_y s1) (cursor_x s1) 0x20 s1)"

definition key_press :: "u8 \<Rightarrow> 'a kern_scheme \<Rightarrow> 'a kern_scheme option" where
  "key_press scancode s =
     (let s1 = (if cursor_x s > 79 then s\<lparr>cursor_x := 0, cursor_y := cursor_y s + 1\<rparr> else s)
      in map_option (\<lambda>s2. scroll_if_needed (move_cursor_to (cursor_x s2) (cursor_y s2) s2))
           (if scancode = CTRL then Some (s1\<lparr>ctrl_pressed := 1\<rparr>)
            else if scancode = CAPS_LOCK then
              Some (if caps_flag s1 = 1 then s1\<lparr>caps_flag := 0\<rparr> else s1\<lparr>caps_flag := 1\<rparr>)
            else if scancode = L_SHIFT then Some (s1\<lparr>shift_flag := 1\<rparr>)
            else if scancode = R_SHIFT then Some (s1\<lparr>shift_flag := 1\<rparr>)
            else if scancode = ENTER then Some (press_enter s1)
            else if scancode = BACKSPACE \<and> length_typed s1 > 0 then Some (press_backspace s1)
            else type_char scancode s1))"

section \<open>A key is released\<close>

text \<open>A request for another terminal (lines 143 to 198): \<open>None\<close> inside when the code jumps to
  \<open>label1\<close>, past the reset of the control flag. \<open>j1\<close> and \<open>j2\<close> are the stack values the
  two calls of \<open>calc_processes\<close> start from.\<close>

definition switch_request ::
    "klayout \<Rightarrow> device \<Rightarrow> frame \<Rightarrow> frame \<Rightarrow> u32 \<Rightarrow> u32 \<Rightarrow> u8 \<Rightarrow> 'a kern_scheme
      \<Rightarrow> ('a kern_scheme + 'a kern_scheme outcome) option" where
  "switch_request L dev fr fr2 j1 j2 trm s =
     (let s1 = s\<lparr>term_count := term_count s + 1\<rparr>
      in if current_terminal s1 = trm then Some (Inl s1)
         else if calc_processes j1 s1 = 6 \<or> calc_processes j2 s1 = 5 then Some (Inl s1)
         else map_option Inr (switch_to_other_term L dev fr fr2 trm s1))"

definition key_release ::
    "klayout \<Rightarrow> device \<Rightarrow> frame \<Rightarrow> frame \<Rightarrow> u32 \<Rightarrow> u32 \<Rightarrow> u8 \<Rightarrow> 'a kern_scheme
      \<Rightarrow> 'a kern_scheme outcome option" where
  "key_release L dev fr fr2 j1 j2 scancode s =
     map_option (\<lambda>r. case r of
          Inl s1 \<Rightarrow> Return 0 s1
        | Inr (Return v s1) \<Rightarrow> Return 0 (s1\<lparr>ctrl_pressed := 0\<rparr>)
        | Inr out \<Rightarrow> out)
       (if shift_flag s \<noteq> 0 \<and> (scancode = L_SHIFT_P \<or> scancode = R_SHIFT_P)
        then Some (Inr (Return 0 (s\<lparr>shift_flag := 0\<rparr>)))
        else if scancode = RELEASE_L \<and> ctrl_pressed s = 1
        then Some (Inr (Return 0 (clear_screen (flush s))))
        else if ctrl_pressed s = 1 \<and> scancode = RELEASE_1 then switch_request L dev fr fr2 j1 j2 0 s
        else if ctrl_pressed s = 1 \<and> scancode = RELEASE_2 then switch_request L dev fr fr2 j1 j2 1 s
        else if ctrl_pressed s = 1 \<and> scancode = RELEASE_3 then switch_request L dev fr fr2 j1 j2 2 s
        else Some (Inr (Return 0 s)))"

section \<open>The interrupt\<close>

definition warning_msg :: "u8 list" where
  "warning_msg = chars ''Max number of processes reached OR Five processes are currently running which means the''
     @ [0x0A] @ chars '' second terminal cannot running another process'' @ [0x0A] @ chars '' ''"

definition print_warning :: "'a console_scheme \<Rightarrow> 'a console_scheme" where
  "print_warning s = fold (\<lambda>c s. scroll_if_needed (if c \<ge> 32 then putc c s else s)) warning_msg s"

definition update_buffer_and_cursor ::
    "klayout \<Rightarrow> device \<Rightarrow> frame \<Rightarrow> frame \<Rightarrow> u32 \<Rightarrow> u32 \<Rightarrow> 'a kern_scheme \<Rightarrow> 'a kern_scheme outcome option" where
  "update_buffer_and_cursor L dev fr fr2 j1 j2 s =
     (let (v, s1) = inb dev KEYBOARD_DATA_PORT s;
          scancode = (ucast v :: u8);
          label1 = map_option (\<lambda>out. case out of Return r s2 \<Rightarrow> Return 0 (send_eoi 1 s2) | _ \<Rightarrow> out)
      in if scancode AND RELEASE \<noteq> 0 then label1 (key_release L dev fr fr2 j1 j2 scancode s1)
         else if scancode = F3 \<and> ctrl_pressed s1 = 1 then
           (if current_terminal s1 = 3 then Some (Return 0 s1)
            else if processes s1 = 0x3F \<or> processes s1 = 0x1F then Some (Return 0 (print_warning s1))
            else label1 (Some (Return 0 s1)))
         else if ctrl_pressed s1 = 0 then label1 (map_option (Return 0) (key_press scancode s1))
         else label1 (Some (Return 0 s1)))"

definition handle_keyboard ::
    "klayout \<Rightarrow> device \<Rightarrow> frame \<Rightarrow> frame \<Rightarrow> u32 \<Rightarrow> u32 \<Rightarrow> 'a kern_scheme \<Rightarrow> 'a kern_scheme outcome option" where
  "handle_keyboard L dev fr fr2 j1 j2 s =
     map_option (\<lambda>out. case out of Return r s2 \<Rightarrow> Return 0 (sti s2) | _ \<Rightarrow> out)
       (update_buffer_and_cursor L dev fr fr2 j1 j2 (cli s))"

end
