(* ===== verification/Kernel.thy ===== *)
theory Kernel
  imports Dispatch Keyboard
begin

text \<open>
  The kernel at run time, as a step relation: programs that store to their memory and make system
  calls, and the two interrupts the kernel lets through. Programs are arbitrary: any store the
  processor permits, any register values. A read that waits is two steps, and anything else may
  happen between them; each terminal remembers what the processor does when it is in front.
\<close>

section \<open>The machine\<close>

text \<open>What goes on in a terminal: a program runs, or waits in the kernel for a line (to be copied to a
  physical address) or for the clock.\<close>

datatype activity = Running | Line_wait u32 u32 | Clock_wait

type_synonym 's machine = "'s \<times> (u8 \<Rightarrow> activity)"

text \<open>The local buffer of \<open>execute\<close> is on one of the kernel's stacks.\<close>

definition on_stack :: "frame \<Rightarrow> bool" where
  "on_stack fr \<longleftrightarrow> 0x7F4000 \<le> unat (exec_buf fr) \<and> unat (exec_buf fr) + 4 \<le> 0x800000"

text \<open>The pages at \<open>0xB8000\<close> to \<open>0xBBFFF\<close> are the mapped ones; a store past them is a page fault,
  which ends in the loop of its handler. The kernel prints inside them.\<close>

definition on_video :: "int \<Rightarrow> int \<Rightarrow> bool" where
  "on_video x y \<longleftrightarrow> 0 \<le> x \<and> (0 \<le> y \<and> y \<le> 24 \<and> 80 * y + x < 8192 \<or> y = 25 \<and> x = 0)"

definition fits_video :: "(u8 \<Rightarrow> 'a console_scheme \<Rightarrow> 'a console_scheme) \<Rightarrow> u8 list \<Rightarrow> 'a console_scheme \<Rightarrow> bool" where
  "fits_video put cs s \<longleftrightarrow>
     (\<forall>k \<le> length cs. let t = fold put (take k cs) s in 80 * cursor_y t + cursor_x t < 8192)"

definition write_fits :: "u32 \<Rightarrow> nat \<Rightarrow> 'a kern_scheme \<Rightarrow> bool" where
  "write_fits buf n s \<longleftrightarrow>
     (\<forall>k \<le> n. let t = for_loop 0 k (\<lambda>i s. write_char (mem s (buf + of_nat i)) s) s
        in 80 * cursor_y t + cursor_x t < 8192)"

definition max_message :: "u8 list" where
  "max_message = chars ''Max number of processes reached'' @ [0x0A]"

definition warn_char :: "u8 \<Rightarrow> 'a console_scheme \<Rightarrow> 'a console_scheme" where
  "warn_char c s = scroll_if_needed (if c \<ge> 32 then putc c s else s)"

definition prints_inside :: "layout \<Rightarrow> regs \<Rightarrow> 'a kern_scheme \<Rightarrow> bool" where
  "prints_inside M r s \<longleftrightarrow>
     (eax r = 4 \<longrightarrow> (\<forall>buf. span M s False (ecx r) (fd_extent (write_extent (ebx r) (edx r)) s (ebx r) (ecx r)) = Some buf
        \<longrightarrow> write_fits buf (unat (edx r)) s)) \<and>
     (eax r = 2 \<and> processes s = 0x3F \<longrightarrow> fits_video putc max_message s)"

text \<open>A program gives the kernel blocks to write to that it may write to itself. The kernel does not
  check: the steps of a program that does not keep to this are not described.\<close>

definition polite :: "layout \<Rightarrow> regs \<Rightarrow> 'a kern_scheme \<Rightarrow> bool" where
  "polite M r s \<longleftrightarrow>
     (eax r = 3 \<longrightarrow> span M s True (ecx r) (fd_extent (read_extent (ebx r) (edx r) s) s (ebx r) (ecx r)) \<noteq> None) \<and>
     (eax r = 7 \<longrightarrow> (\<forall>k. getargs_extent M s (ebx r) (ecx r) = Some k \<longrightarrow> span M s True (ebx r) k \<noteq> None))"

text \<open>How a call comes back to a program: \<open>iret\<close> to the caller, into a new program, or through the
  end of the \<open>execute\<close> the parent had made.\<close>

fun back_to_user :: "'a kern_scheme outcome \<Rightarrow> 'a kern_scheme" where
  "back_to_user (Return v s) = s"
| "back_to_user (Enter_user eip s) = iret (switch_to_user 0 eip) s"
| "back_to_user (Resume sp bp s) = sti (snd (execute_resumed s))"

text \<open>A terminal that is switched back to goes on in the keyboard handler it had left.\<close>

definition switched_in :: "'a kern_scheme \<Rightarrow> 'a kern_scheme" where
  "switched_in s = sti (send_eoi 1 (s\<lparr>ctrl_pressed := 0\<rparr>))"

section \<open>Steps\<close>

inductive kstep :: "klayout \<Rightarrow> u32 \<Rightarrow> 'a kern_scheme machine \<Rightarrow> 'a kern_scheme machine \<Rightarrow> bool" for L :: klayout and lit :: u32 where
  store: "A (current_terminal s) = Running \<Longrightarrow> translate (layout.truncate L) s True va = Some a \<Longrightarrow>
     kstep L lit (s, A) (s\<lparr>mem := (mem s)(a := v)\<rparr>, A)"
| call: "A (current_terminal s) = Running \<Longrightarrow> polite (layout.truncate L) r (cli s) \<Longrightarrow>
     prints_inside (layout.truncate L) r (cli s) \<Longrightarrow> on_stack fr \<Longrightarrow>
     syscall_handler L dev fr lit [] r s = Some out \<Longrightarrow> kstep L lit (s, A) (back_to_user out, A)"
| wait_line: "A (current_terminal s) = Running \<Longrightarrow> fd_driver s 0 = Some Terminal_fops \<Longrightarrow>
     span (layout.truncate L) s True va (max (unat n) 128) = Some buf \<Longrightarrow>
     kstep L lit (s, A) (read_begin buf n (cli s), A(current_terminal s := Line_wait buf n))"
| line_read: "A (current_terminal s) = Line_wait buf n \<Longrightarrow> can_read s = 1 \<Longrightarrow>
     read_finish buf n s = Some (v, s') \<Longrightarrow>
     kstep L lit (s, A) (sti s', A(current_terminal s := Running))"
| wait_clock: "A (current_terminal s) = Running \<Longrightarrow> fd_driver s fd = Some Rtc_fops \<Longrightarrow>
     kstep L lit (s, A) (rtc_begin (cli s), A(current_terminal s := Clock_wait))"
| clock_read: "A (current_terminal s) = Clock_wait \<Longrightarrow> rtc_interrupt_happened s \<noteq> 0 \<Longrightarrow>
     kstep L lit (s, A) (sti s, A(current_terminal s := Running))"
| clock: "intr s \<Longrightarrow> kstep L lit (s, A) (rtc_test dev s, A)"
| key: "intr s \<Longrightarrow> on_stack fr2 \<Longrightarrow> fits_video warn_char warning_msg s \<Longrightarrow>
     handle_keyboard L dev fr fr2 j1 j2 s = Some (Return v s') \<Longrightarrow>
     kstep L lit (s, A) (s', A(current_terminal s' := A (current_terminal s)))"
| new_terminal: "intr s \<Longrightarrow> on_stack fr2 \<Longrightarrow> fits_video warn_char warning_msg s \<Longrightarrow>
     handle_keyboard L dev fr fr2 j1 j2 s = Some (Enter_user eip s') \<Longrightarrow>
     kstep L lit (s, A) (iret (switch_to_user 0 eip) s', A(current_terminal s' := Running))"
| switched: "intr s \<Longrightarrow> on_stack fr2 \<Longrightarrow> fits_video warn_char warning_msg s \<Longrightarrow>
     handle_keyboard L dev fr fr2 j1 j2 s = Some (Resume sp bp s') \<Longrightarrow>
     kstep L lit (s, A) (switched_in s', A)"

inductive_cases kstep_elim: "kstep L lit (s, A) m'"

text \<open>The machines that can come about from a started kernel.\<close>

inductive reachable :: "klayout \<Rightarrow> u32 \<Rightarrow> 'a kern_scheme \<Rightarrow> 'a kern_scheme machine \<Rightarrow> bool"
  for L :: klayout and lit :: u32 and s0 :: "'a kern_scheme" where
  start: "reachable L lit s0 (s0, \<lambda>_. Running)"
| step: "reachable L lit s0 m \<Longrightarrow> kstep L lit m m' \<Longrightarrow> reachable L lit s0 m'"

section \<open>A waiting read is two steps\<close>

text \<open>The read of the terminal that \<open>Descriptors\<close> describes as one operation with the interrupts that
  arrive during it is the first step, these interrupts, and the second step.\<close>

lemma terminal_read_steps:
  "terminal_read hs 0 buf n s = Option.bind (spin (\<lambda>s. can_read s = 1) hs (read_begin buf n s)) (\<lambda>(t, _). read_finish buf n t)"
  by (simp add: terminal_read_def)

end
