(* ===== verification/Kernel_Inv.thy ===== *)
theory Kernel_Inv
  imports Kernel
begin

text \<open>
  What holds in every state the kernel gets into, and that every step keeps it: the descriptor
  tables are well-formed, the page tables show the program of the terminal in front its own 4 MB
  and nothing of the kernel's, the kernel writes nowhere but to the screens, its stacks, one global
  and the memory of programs, and with that the file system image stays as the boot loader left it.
\<close>

section \<open>The invariant\<close>

definition in_video :: "u32 \<Rightarrow> bool" where
  "in_video x \<longleftrightarrow> in_region VIDEO 0x4000 x"

text \<open>Where stores may go: the screens, the global \<open>entry_point\<close>, the kernel stacks below 8 MB and the
  memory of the six processes above.\<close>

definition scratch :: "klayout \<Rightarrow> u32 \<Rightarrow> bool" where
  "scratch L x \<longleftrightarrow> in_video x \<or> in_region (entry_point L) 4 x \<or> in_region 0x7F4000 0x180C000 x"

definition settled :: "klayout \<Rightarrow> mem \<Rightarrow> u32 \<Rightarrow> 'a kern_scheme \<Rightarrow> bool" where
  "settled L m0 fsa s \<longleftrightarrow>
     start_fs s = fsa \<and> (\<forall>x. \<not> scratch L x \<longrightarrow> mem s x = m0 x) \<and>
     (\<forall>a < 3. vid_mem (terms s ! a) = of_nat (0xB9000 + 0x1000 * a)) \<and>
     (\<forall>a < 3. been_here (terms s ! a) \<noteq> 1 \<longrightarrow> running_pcb (terms s ! a) = None) \<and>
     (\<forall>p. unat (process_num (pcbs s p)) < 6) \<and> (\<forall>i. bit (processes s) i \<longrightarrow> i < 6) \<and>
     (\<exists>q video. q < 6 \<and> paging_view (layout.truncate L) s (Some q) video)"

text \<open>The page of programs is that of the process of the terminal in front.\<close>

definition front_mapped :: "klayout \<Rightarrow> 'a kern_scheme \<Rightarrow> bool" where
  "front_mapped L s \<longleftrightarrow> (\<forall>p q video. cur_pcb s = Some p \<longrightarrow> paging_view (layout.truncate L) s (Some q) video \<longrightarrow>
     q < 6 \<longrightarrow> unat (process_num (pcbs s p)) = q)"

definition cursors :: "'a kern_scheme \<Rightarrow> bool" where
  "cursors s \<longleftrightarrow> on_video (cursor_x s) (cursor_y s) \<and> (\<forall>t \<in> set (terms s). on_video (term_cursor_x t) (term_cursor_y t))"

text \<open>An open file is one of the image, at a position inside it.\<close>

definition file_ok :: "mem \<Rightarrow> u32 \<Rightarrow> nat \<Rightarrow> FILE_DATA \<Rightarrow> bool" where
  "file_ok m0 fsa ext d \<longleftrightarrow> (in_use d = 1 \<and> fops d = Some File_fops \<longrightarrow>
     wf_file m0 fsa ext (info d) \<and> unat (file_pos d) \<le> file_len m0 fsa (info d))"

definition files_ok :: "mem \<Rightarrow> u32 \<Rightarrow> nat \<Rightarrow> 'a kern_scheme \<Rightarrow> bool" where
  "files_ok m0 fsa ext s \<longleftrightarrow> (\<forall>p fd. fd < 8 \<longrightarrow> file_ok m0 fsa ext (fd_array (pcbs s p) ! fd))"

definition kinv :: "klayout \<Rightarrow> mem \<Rightarrow> u32 \<Rightarrow> nat \<Rightarrow> 'a kern_scheme \<Rightarrow> bool" where
  "kinv L m0 fsa ext s \<longleftrightarrow> fds_ok s \<and> settled L m0 fsa s \<and> cursors s \<and> files_ok m0 fsa ext s \<and> front_mapped L s"

text \<open>While the kernel changes processes the last part does not hold.\<close>

definition loose :: "klayout \<Rightarrow> mem \<Rightarrow> u32 \<Rightarrow> nat \<Rightarrow> 'a kern_scheme \<Rightarrow> bool" where
  "loose L m0 fsa ext s \<longleftrightarrow> fds_ok s \<and> settled L m0 fsa s \<and> cursors s \<and> files_ok m0 fsa ext s"

text \<open>What the kernel is started with: the image is between the screens and the stacks, every entry
  names a well-formed file, and a file that is not empty has at least four bytes, an executable
  at least 28 and at most what fits above its load address.\<close>

definition image_ok :: "mem \<Rightarrow> u32 \<Rightarrow> nat \<Rightarrow> bool" where
  "image_ok m fsa ext \<longleftrightarrow>
     64 + 64 * unat (m fsa) \<le> ext \<and>
     (\<forall>j < unat (m fsa). let i = inode_num (dentry_bytes m (dir_addr fsa j)); len = file_len m fsa i
        in wf_file m fsa ext i \<and> (len = 0 \<or> 4 \<le> len) \<and>
           (take 4 (contents m fsa i) = EXEC_BITS \<longrightarrow> 28 \<le> len \<and> len \<le> 0x3B8000))"

definition home_ok :: "klayout \<Rightarrow> u32 \<Rightarrow> nat \<Rightarrow> bool" where
  "home_ok L fsa ext \<longleftrightarrow> layout_ok (layout.truncate L) \<and>
     0xBC000 \<le> unat fsa \<and> unat fsa + ext \<le> 0x7F4000 \<and>
     0xBC000 \<le> unat (entry_point L) \<and> unat (entry_point L) + 4 \<le> 0x7F4000 \<and>
     disjoint_region fsa ext (entry_point L) 4"

lemma kinv_loose: "kinv L m0 fsa ext s \<longleftrightarrow> loose L m0 fsa ext s \<and> front_mapped L s"
  by (auto simp: kinv_def loose_def)

lemma looseD:
  assumes "loose L m0 fsa ext s"
  shows "fds_ok s" "kern_shape s" "settled L m0 fsa s" "cursors s" "files_ok m0 fsa ext s"
    "start_fs s = fsa" "\<not> scratch L x \<Longrightarrow> mem s x = m0 x" "on_video (cursor_x s) (cursor_y s)"
  using assms by (simp_all add: loose_def fds_ok_def settled_def cursors_def)

lemmas kinvD = looseD [OF kinv_loose [THEN iffD1, THEN conjunct1]]

text \<open>The image is out of the way.\<close>

lemma image_apart:
  assumes h: "home_ok L fsa ext" and x: "in_region fsa ext x"
  shows "\<not> scratch L x"
proof -
  have w: "unat fsa + ext \<le> 4294967296" using h by (simp add: home_ok_def)
  have "0xBC000 \<le> unat x" "unat x < 0x7F4000" using x h unfolding in_region_nowrap [OF w] by (simp_all add: home_ok_def)
  moreover have "\<not> in_region (entry_point L) 4 x" using x h by (auto simp: home_ok_def disjoint_region_def)
  ultimately show ?thesis by (simp add: scratch_def in_video_def in_region_nowrap VIDEO_def)
qed

lemma image_kept:
  "home_ok L fsa ext \<Longrightarrow> \<forall>x. \<not> scratch L x \<longrightarrow> mem s x = m0 x \<Longrightarrow> image_eq fsa ext m0 (mem s)"
  using image_apart by (auto simp: image_eq_def)

section \<open>Operations that leave the invariant's data alone\<close>

definition quiet :: "klayout \<Rightarrow> 'a kern_scheme \<Rightarrow> 'a kern_scheme \<Rightarrow> bool" where
  "quiet L s t \<longleftrightarrow>
     page_directory_set t = page_directory_set s \<and> page_table t = page_table s \<and>
     v_m_page_table t = v_m_page_table s \<and> cr0 t = cr0 s \<and> cr3 t = cr3 s \<and> cr4 t = cr4 s \<and>
     start_fs t = start_fs s \<and> processes t = processes s \<and> current_terminal t = current_terminal s \<and>
     (\<forall>p. process_num (pcbs t p) = process_num (pcbs s p)) \<and>
     map running_pcb (terms t) = map running_pcb (terms s) \<and> map been_here (terms t) = map been_here (terms s) \<and>
     map vid_mem (terms t) = map vid_mem (terms s) \<and> (\<forall>x. \<not> scratch L x \<longrightarrow> mem t x = mem s x)"

lemma quiet_refl [simp]: "quiet L s s"
  by (simp add: quiet_def)

lemma quiet_trans: "quiet L s t \<Longrightarrow> quiet L t u \<Longrightarrow> quiet L s u"
  by (simp add: quiet_def)

lemma quiet_view: "quiet L s t \<Longrightarrow> paging_view M t img v = paging_view M s img v"
  by (simp add: quiet_def paging_view_def)

lemma map_same_nth: "map f xs = map f ys \<Longrightarrow> i < length xs \<Longrightarrow> f (xs ! i) = f (ys ! i)"
  by (metis length_map nth_map)

lemma quiet_current: "quiet L s t \<Longrightarrow> cur_pcb t = cur_pcb s"
proof -
  assume q: "quiet L s t"
  have r: "map running_pcb (terms t) = map running_pcb (terms s)" "current_terminal t = current_terminal s"
    using q by (simp_all add: quiet_def)
  have l: "length (terms t) = length (terms s)" using r(1) by (metis length_map)
  show ?thesis
    using map_same_nth [OF r(1)] l r(2) by (simp add: cur_pcb_def cur_term_def aget_def)
qed

lemma settled_quiet:
  assumes "kern_shape s" and "settled L m0 fsa s" and q: "quiet L s t"
  shows "settled L m0 fsa t"
proof -
  have v: "map vid_mem (terms t) = map vid_mem (terms s)" "map running_pcb (terms t) = map running_pcb (terms s)"
    "map been_here (terms t) = map been_here (terms s)" using q by (simp_all add: quiet_def)
  have l: "length (terms t) = 3" using v(1) assms(1) by (metis length_map kern_shape_def)
  have "vid_mem (terms t ! a) = of_nat (0xB9000 + 0x1000 * a)"
    "been_here (terms t ! a) \<noteq> 1 \<longrightarrow> running_pcb (terms t ! a) = None" if "a < 3" for a
    using map_same_nth [OF v(1), of a] map_same_nth [OF v(2), of a] map_same_nth [OF v(3), of a] l assms(2) that
    by (simp_all add: settled_def)
  then show ?thesis
    using assms(2) q quiet_view [OF q] unfolding settled_def by (simp add: quiet_def)
qed

text \<open>An operation keeps the invariant if it is quiet and keeps the three other parts.\<close>

lemma loose_quiet:
  "loose L m0 fsa ext s \<Longrightarrow> quiet L s t \<Longrightarrow> fds_ok t \<Longrightarrow> cursors t \<Longrightarrow> files_ok m0 fsa ext t \<Longrightarrow> loose L m0 fsa ext t"
  unfolding loose_def using settled_quiet by (auto simp: fds_ok_def)

lemma front_quiet: "quiet L s t \<Longrightarrow> front_mapped L t = front_mapped L s"
  using quiet_view [of L s t] quiet_current [of L s t] by (simp add: front_mapped_def) (simp add: quiet_def)

lemma kinv_quiet:
  "kinv L m0 fsa ext s \<Longrightarrow> quiet L s t \<Longrightarrow> fds_ok t \<Longrightarrow> cursors t \<Longrightarrow> files_ok m0 fsa ext t \<Longrightarrow> kinv L m0 fsa ext t"
  unfolding kinv_loose using loose_quiet front_quiet by blast

text \<open>Fields the invariant does not mention.\<close>

lemma kinv_frame [simp]:
  "kinv L m0 fsa ext (s\<lparr>ports := q\<rparr>) = kinv L m0 fsa ext s" "kinv L m0 fsa ext (s\<lparr>intr := b\<rparr>) = kinv L m0 fsa ext s"
  "kinv L m0 fsa ext (s\<lparr>can_read := c\<rparr>) = kinv L m0 fsa ext s" "kinv L m0 fsa ext (s\<lparr>length_typed := i\<rparr>) = kinv L m0 fsa ext s"
  "kinv L m0 fsa ext (s\<lparr>ctrl_pressed := i\<rparr>) = kinv L m0 fsa ext s" "kinv L m0 fsa ext (s\<lparr>shift_flag := i\<rparr>) = kinv L m0 fsa ext s"
  "kinv L m0 fsa ext (s\<lparr>caps_flag := i\<rparr>) = kinv L m0 fsa ext s" "kinv L m0 fsa ext (s\<lparr>old_length_typed := i\<rparr>) = kinv L m0 fsa ext s"
  "kinv L m0 fsa ext (s\<lparr>term_count := i\<rparr>) = kinv L m0 fsa ext s" "kinv L m0 fsa ext (s\<lparr>directoryIndex := w\<rparr>) = kinv L m0 fsa ext s"
  "kinv L m0 fsa ext (s\<lparr>rtc_interrupt_happened := i\<rparr>) = kinv L m0 fsa ext s"
  "kinv L m0 fsa ext (s\<lparr>tss_esp0 := w\<rparr>) = kinv L m0 fsa ext s" "kinv L m0 fsa ext (s\<lparr>correct_eip := w\<rparr>) = kinv L m0 fsa ext s"
  "kinv L m0 fsa ext (s\<lparr>old_ebp := w\<rparr>) = kinv L m0 fsa ext s" "kinv L m0 fsa ext (s\<lparr>old_esp := w\<rparr>) = kinv L m0 fsa ext s"
  "kinv L m0 fsa ext (s\<lparr>esp_store := w\<rparr>) = kinv L m0 fsa ext s" "kinv L m0 fsa ext (s\<lparr>ebp_store := w\<rparr>) = kinv L m0 fsa ext s"
  by (simp_all add: kinv_def fds_ok_def kern_shape_def settled_def front_mapped_def paging_view_def cur_pcb_def cur_term_def
      cursors_def files_ok_def)

lemma kinv_hw [simp]:
  "kinv L m0 fsa ext (sti s) = kinv L m0 fsa ext s" "kinv L m0 fsa ext (cli s) = kinv L m0 fsa ext s"
  "kinv L m0 fsa ext (outb d p s) = kinv L m0 fsa ext s" "kinv L m0 fsa ext (iret f s) = kinv L m0 fsa ext s"
  by (simp_all add: sti_def cli_def outb_def iret_def)

text \<open>Stores to scratch memory.\<close>

lemma kinv_mem:
  assumes k: "kinv L m0 fsa ext s" and m: "\<forall>x. \<not> scratch L x \<longrightarrow> m x = mem s x"
  shows "kinv L m0 fsa ext (s\<lparr>mem := m\<rparr>)"
  using k by (rule kinv_quiet) (use m kinvD [OF k] in \<open>simp_all add: quiet_def cursors_def files_ok_def\<close>)

lemma console_pages:
  assumes "console.more s = console.more (t :: 'a kern_scheme)"
  shows "page_directory_set s = page_directory_set t" "page_table s = page_table t"
    "v_m_page_table s = v_m_page_table t" "cr0 s = cr0 t" "cr3 s = cr3 t" "cr4 s = cr4 t"
  using assms by (cases s; cases t; simp)+

lemma quiet_console:
  assumes m: "console.more t = console.more (s :: 'a kern_scheme)" and "\<forall>x. \<not> scratch L x \<longrightarrow> mem t x = mem s x"
  shows "quiet L s t"
  using assms(2) console_pages [OF m] kern_more_console [OF m] by (simp add: quiet_def)

lemma kinv_console:
  assumes k: "kinv L m0 fsa ext s" and m: "console.more t = console.more s"
    and mem: "\<forall>x. \<not> in_video x \<longrightarrow> mem t x = mem s x" and c: "on_video (cursor_x t) (cursor_y t)"
  shows "kinv L m0 fsa ext t"
proof (rule kinv_quiet [OF k])
  show "quiet L s t" using quiet_console [OF m] mem by (simp add: scratch_def)
  show "fds_ok t" using fds_ok_console [OF m] kinvD(1) [OF k] by simp
  show "cursors t" using kinvD(4) [OF k] c kern_more_console(10) [OF m] by (simp add: cursors_def)
  show "files_ok m0 fsa ext t" using kinvD(5) [OF k] kern_more_console(11) [OF m] by (simp add: files_ok_def)
qed

text \<open>Descriptors, terminals, line buffers.\<close>

lemma kinv_set_fd:
  assumes k: "kinv L m0 fsa ext s" and t: "set_fd fd f s = Some t" and f: "\<And>d. fd_ok fd d \<Longrightarrow> fd_ok fd (f d)"
    and fl: "\<And>p. cur_pcb s = Some p \<Longrightarrow> fd < 8 \<Longrightarrow> file_ok m0 fsa ext (f (fd_array (pcbs s p) ! fd))"
  shows "kinv L m0 fsa ext t"
proof -
  obtain p where p: "cur_pcb s = Some p" "fd < length (fd_array (pcbs s p))"
    using t by (auto simp: set_fd_def c_array split: Option.bind_splits)
  have "fd < 8" using p(2) kinvD(2) [OF k] by (simp add: kern_shape_def pcb_shape_def)
  then have s': "t = set_pcb p (\<lambda>b. b\<lparr>fd_array := (fd_array b)[fd := f (fd_array b ! fd)]\<rparr>) s"
    using t set_fd_shape [OF kinvD(2) [OF k] p(1), of fd f] by simp
  show ?thesis
  proof (rule kinv_quiet [OF k])
    show "quiet L s t" by (simp add: s' quiet_def set_pcb_def)
    show "fds_ok t" by (rule fds_ok_set_fd [OF kinvD(1) [OF k] t f])
    show "cursors t" using kinvD(4) [OF k] by (simp add: s' cursors_def set_pcb_def)
    show "files_ok m0 fsa ext t"
      using kinvD(5) [OF k] fl [OF p(1) \<open>fd < 8\<close>] p(2)
      by (auto simp: s' files_ok_def set_pcb_def nth_list_update)
  qed
qed

lemma map_update_same: "f x = f (xs ! i) \<Longrightarrow> map f (xs[i := x]) = map f xs"
  by (cases "i < length xs") (simp_all add: map_update list_update_same_conv list_update_beyond)

lemma set_term_parts:
  assumes "kern_shape s" and "set_term f s = Some t"
  shows "t = s\<lparr>terms := (terms s)[unat (current_terminal s) := f (terms s ! unat (current_terminal s))]\<rparr>"
  using assms by (simp add: set_term_shape)

lemma kinv_set_term:
  assumes k: "kinv L m0 fsa ext s" and t: "set_term f s = Some t"
    and f: "\<And>u. running_pcb (f u) = running_pcb u" "\<And>u. vid_mem (f u) = vid_mem u" "\<And>u. been_here (f u) = been_here u"
      "\<And>u. length (keyboard_buffer u) = 128 \<Longrightarrow> length (keyboard_buffer (f u)) = 128"
      "\<And>u. on_video (term_cursor_x u) (term_cursor_y u) \<Longrightarrow> on_video (term_cursor_x (f u)) (term_cursor_y (f u))"
  shows "kinv L m0 fsa ext t"
proof -
  let ?c = "unat (current_terminal s)"
  have s': "t = s\<lparr>terms := (terms s)[?c := f (terms s ! ?c)]\<rparr>" by (rule set_term_parts [OF kinvD(2) [OF k] t])
  have c: "?c < length (terms s)" using kinvD(2) [OF k] by (simp add: kern_shape_def)
  then have in_t: "terms s ! ?c \<in> set (terms s)" by simp
  have sub: "u = f (terms s ! ?c) \<or> u \<in> set (terms s)" if "u \<in> set ((terms s)[?c := f (terms s ! ?c)])" for u
    using that set_update_subset_insert [of "terms s" ?c "f (terms s ! ?c)"] by auto
  show ?thesis
  proof (rule kinv_quiet [OF k])
    show "quiet L s t" using f(1-3) by (simp add: s' quiet_def map_update_same)
    have kb: "length (keyboard_buffer u) = 128" if "u \<in> set (terms t)" for u
      using that sub [of u] f(4) kinvD(2) [OF k] in_t by (auto simp: s' kern_shape_def)
    then show "fds_ok t" using kinvD(1) [OF k] by (simp add: s' fds_ok_def kern_shape_def)
    show "cursors t" using kinvD(4) [OF k] f(5) in_t sub by (auto simp: s' cursors_def)
    show "files_ok m0 fsa ext t" using kinvD(5) [OF k] by (simp add: s' files_ok_def)
  qed
qed

lemma kinv_buffers:
  assumes k: "kinv L m0 fsa ext s"
  shows "length ib = 128 \<Longrightarrow> kinv L m0 fsa ext (s\<lparr>input_buffer := ib\<rparr>)"
    and "length ib = 128 \<Longrightarrow> kinv L m0 fsa ext (s\<lparr>temp_buffer := ib\<rparr>)"
  by (rule kinv_quiet [OF k]; use kinvD [OF k] in \<open>simp add: quiet_def cursors_def files_ok_def fds_ok_def kern_shape_def\<close>)+

lemma kinv_cursor:
  "kinv L m0 fsa ext s \<Longrightarrow> on_video x y \<Longrightarrow> kinv L m0 fsa ext (s\<lparr>cursor_x := x, cursor_y := y\<rparr>)"
  using kinv_console [of L m0 fsa ext s "s\<lparr>cursor_x := x, cursor_y := y\<rparr>"] by simp

lemma kinv_flush: "kinv L m0 fsa ext s \<Longrightarrow> kinv L m0 fsa ext (flush s)"
  unfolding flush_def using kinv_buffers(1) [of L m0 fsa ext s "replicate 128 0"] by simp

lemma kinv_eoi [simp]:
  "kinv L m0 fsa ext (send_eoi n s) = kinv L m0 fsa ext s" "kinv L m0 fsa ext (snd (inb dev p s)) = kinv L m0 fsa ext s"
  "kinv L m0 fsa ext (rtc_test dev s) = kinv L m0 fsa ext s"
  by (simp_all add: send_eoi_def inb_def rtc_test_def)

section \<open>Printing stays on the screen\<close>

definition near :: "'a console_scheme \<Rightarrow> bool" where
  "near s \<longleftrightarrow> 0 \<le> cursor_x s \<and> 0 \<le> cursor_y s \<and> (cursor_y s \<le> 24 \<or> cursor_y s = 25 \<and> cursor_x s = 0)"

lemma on_video_near: "on_video (cursor_x s) (cursor_y s) \<longleftrightarrow> near s \<and> 80 * cursor_y s + cursor_x s < 8192"
  by (auto simp: on_video_def near_def)

lemma put_cell_video:
  assumes "0 \<le> 80 * y + x" and "80 * y + x < 8192" and "\<not> in_video a"
  shows "mem (put_cell y x c s) a = mem s a"
proof -
  obtain k where k: "80 * y + x = int k" "k < 8192" using assms(1,2) by (auto dest!: zero_le_imp_eq_int)
  have "cell_addr y x = scr_at k" using k(1) by (simp add: cell_addr_def scr_at_def)
  moreover have "unat (a - VIDEO) \<noteq> 2 * k" "unat (a - VIDEO) \<noteq> Suc (2 * k)"
    using assms(3) k(2) by (auto simp: in_video_def in_region_def)
  then have "a \<noteq> scr_at k" "a \<noteq> scr_at k + 1" using k(2) by (simp_all add: screen_addr)
  ultimately show ?thesis by (simp add: put_cell_def)
qed

lemma screen_in_video: "\<not> in_video x \<Longrightarrow> \<not> in_screen x"
  by (auto simp: in_video_def in_screen_def in_region_def)

definition printed :: "'a console_scheme \<Rightarrow> 'a console_scheme \<Rightarrow> bool" where
  "printed s t \<longleftrightarrow> console.more t = console.more s \<and> near t \<and> (\<forall>x. \<not> in_video x \<longrightarrow> mem t x = mem s x)"

lemma printed_trans: "printed s t \<Longrightarrow> printed t u \<Longrightarrow> printed s u"
  by (simp add: printed_def)

lemma putc_outside:
  fixes s :: "'b console_scheme"
  assumes "near s" and "80 * cursor_y s + cursor_x s < 8192" and "\<not> in_video a"
  shows "mem (putc c s) a = mem s a"
proof -
  have "0 \<le> 80 * cursor_y s + cursor_x s" using assms(1) by (simp add: near_def)
  note p = put_cell_video [OF this assms(2,3)] screen_in_video [OF assms(3)]
  have "mem (put_cell (cursor_y s) (cursor_x s) c s) a = mem s a" by (rule p(1))
  moreover have "mem (scroll_if_needed t) a = mem t a" for t :: "'b console_scheme"
    using p(2) by (simp add: scroll_if_needed_cursor scrolled_def filled_outside)
  ultimately show ?thesis by (cases "cursor_x s = 79") (simp_all add: putc_def Let_def)
qed

lemma putc_near:
  assumes "near s"
  shows "c \<noteq> 0x0A \<Longrightarrow> near (putc c s) \<and> cursor_y (putc c s) \<le> 24"
    and "cursor_y s \<le> 24 \<Longrightarrow> near (putc c s)" and "near (scroll_if_needed (putc c s))"
  using assms by (auto simp: putc_def Let_def near_def scroll_if_needed_cursor)

lemma scroll_printed: "near s \<Longrightarrow> printed s (scroll_if_needed s)"
  using screen_in_video
  by (auto simp: printed_def near_def scroll_if_needed_cursor scrolled_def filled_outside)

lemma write_char_printed:
  assumes "near s" and "80 * cursor_y s + cursor_x s < 8192"
  shows "printed s (write_char c s)"
proof -
  have "mem (scroll_if_needed t) a = mem t a" if "\<not> in_video a" for t :: "'a console_scheme" and a
    using screen_in_video [OF that] by (simp add: scroll_if_needed_cursor scrolled_def filled_outside)
  then show ?thesis
    using putc_outside [OF assms] putc_near(3) [OF assms(1)] scroll_printed [OF assms(1)] assms(1)
    by (auto simp: printed_def write_char_def scroll_if_needed_cursor)
qed

end
