(* ===== verification/Kernel_Steps.thy ===== *)
theory Kernel_Steps
  imports Kernel_Inv
begin

text \<open>
  Every system call keeps the invariant of \<open>Kernel_Inv\<close>: the drivers, through the contract
  \<open>drivers\<close> of \<open>Fd_Spec\<close>, \<open>open\<close>, \<open>close\<close>, \<open>getargs\<close> and \<open>vidmap\<close>.
\<close>

section \<open>The buffer of a call\<close>

text \<open>A block a program may write to itself.\<close>

definition block_ok :: "klayout \<Rightarrow> u32 \<Rightarrow> nat \<Rightarrow> bool" where
  "block_ok L buf n \<longleftrightarrow> n \<le> 0x401000 \<and> (\<forall>i < n. scratch L (buf + of_nat i))"

lemma user_reach:
  assumes v: "paging_view M s (Some q) video" and L: "layout_ok M" and q: "q < 6"
    and t: "translate M s True va = Some pa"
  shows "0x8000000 \<le> unat va" and "unat va < 0x8401000" and "in_video pa \<or> in_region 0x800000 0x1800000 pa"
    and "unat va < 0x8400000 \<Longrightarrow> in_region (of_nat (0x800000 + 0x400000 * q)) 0x400000 pa"
    and "0x8400000 \<le> unat va \<Longrightarrow> in_region VIDEO 4096 pa"
proof -
  have r: "reach (Some q) video True (unat va) = Some (unat pa)"
    using translate_reach [OF v L, of True va] t by simp
  then show "0x8000000 \<le> unat va" "unat va < 0x8401000" by (auto simp: reach_def split: if_splits)
  have b: "unat (of_nat (0x800000 + 0x400000 * q) :: u32) = 0x800000 + 0x400000 * q" using q by (intro unat_of_nat32) simp
  show i: "unat va < 0x8400000 \<Longrightarrow> in_region (of_nat (0x800000 + 0x400000 * q)) 0x400000 pa"
    using r q b by (subst in_region_nowrap) (auto simp: reach_def split: if_splits)
  show w: "0x8400000 \<le> unat va \<Longrightarrow> in_region VIDEO 4096 pa"
    using r by (subst in_region_nowrap) (auto simp: reach_def VIDEO_def split: if_splits)
  show "in_video pa \<or> in_region 0x800000 0x1800000 pa"
  proof (cases "unat va < 0x8400000")
    case True
    then show ?thesis using i b q by (simp add: in_region_nowrap)
  next
    case False
    then show ?thesis using w by (simp add: in_video_def in_region_nowrap VIDEO_def)
  qed
qed

lemma user_scratch:
  assumes "kinv L m0 fsa ext s" and "home_ok L fsa ext" and "translate (layout.truncate L) s True va = Some pa"
  shows "scratch L pa"
proof -
  obtain q video where q: "q < 6" "paging_view (layout.truncate L) s (Some q) video"
    using kinvD(3) [OF assms(1)] by (auto simp: settled_def)
  have "in_video pa \<or> in_region 0x800000 0x1800000 pa"
    by (rule user_reach(3) [OF q(2) _ q(1) assms(3)]) (use assms(2) in \<open>simp add: home_ok_def\<close>)
  then show ?thesis by (auto simp: scratch_def in_region_nowrap)
qed

lemma span_block:
  assumes k: "kinv L m0 fsa ext s" "home_ok L fsa ext" and sp: "span (layout.truncate L) s True va n = Some pa"
  shows "block_ok L pa n"
proof (cases "n = 0")
  case False
  have t: "translate (layout.truncate L) s True (va + of_nat i) = Some (pa + of_nat i)" if "i < n" for i
    using sp False that by (auto simp: span_def list_all_iff split: Option.bind_splits if_splits)
  obtain q video where q: "q < 6" "paging_view (layout.truncate L) s (Some q) video"
    using kinvD(3) [OF k(1)] by (auto simp: settled_def)
  have r: "0x8000000 \<le> unat (va + of_nat i)" "unat (va + of_nat i) < 0x8401000" if "i < n" for i
    using user_reach(1,2) [OF q(2) _ q(1) t [OF that]] k(2) by (simp_all add: home_ok_def)
  have "n \<le> 0x401000"
  proof (rule ccontr)
    assume "\<not> n \<le> 0x401000"
    then have r1: "unat (va + of_nat 0x401000) < 0x8401000" and r0: "unat va < 0x8401000" "0x8000000 \<le> unat va"
      using r [of "0x401000"] r [of 0] False by simp_all
    have "unat (va + 0x401000) = unat va + 0x401000" using r0(1) by (simp add: unat_plus_if_size word_size)
    then show False using r0 r1 by simp
  qed
  then show ?thesis using user_scratch [OF k t] by (simp add: block_ok_def)
qed (simp add: block_ok_def)

lemma block_write:
  assumes "block_ok L buf n" and "length bs \<le> n" and "\<not> scratch L x"
  shows "write_bytes buf bs m x = m x"
proof -
  have "\<not> in_region buf (length bs) x"
  proof
    assume "in_region buf (length bs) x"
    then have "unat (x - buf) < n" using assms(2) by (simp add: in_region_def)
    then have "scratch L (buf + of_nat (unat (x - buf)))" using assms(1) unfolding block_ok_def by blast
    then show False using assms(3) by simp
  qed
  then show ?thesis by (simp add: write_bytes_def)
qed

lemma block_apart:
  assumes h: "home_ok L fsa ext" and "block_ok L buf n"
  shows "disjoint_region fsa ext buf n"
proof -
  have "\<not> in_region fsa ext x" if x: "in_region buf n x" for x
  proof
    assume f: "in_region fsa ext x"
    have "unat (x - buf) < n" using x by (simp add: in_region_def)
    then have "scratch L (buf + of_nat (unat (x - buf)))" using assms(2) unfolding block_ok_def by blast
    then have sx: "scratch L x" by simp
    show False using image_apart [OF h f] sx by simp
  qed
  then show ?thesis by (auto simp: disjoint_region_def)
qed

lemma block_sub: "block_ok L buf n \<Longrightarrow> k \<le> n \<Longrightarrow> block_ok L buf k"
  by (simp add: block_ok_def)

lemma kinv_write:
  "kinv L m0 fsa ext s \<Longrightarrow> block_ok L buf n \<Longrightarrow> length bs \<le> n \<Longrightarrow> kinv L m0 fsa ext (s\<lparr>mem := write_bytes buf bs (mem s)\<rparr>)"
  using block_write by (intro kinv_mem) blast+

section \<open>The drivers\<close>

lemma terminal_write_kinv:
  fixes s :: "'a kern_scheme"
  assumes k: "kinv L m0 fsa ext s" and f: "fd = 1 \<longrightarrow> write_fits buf (unat n) s"
    and t: "terminal_write fd buf n s = Some (r, t)"
  shows "kinv L m0 fsa ext t"
proof (cases "fd = 1")
  case True
  let ?l = "\<lambda>k. for_loop 0 k (\<lambda>i s. write_char (mem s (buf + of_nat i)) s) s"
  have b: "80 * cursor_y (?l k) + cursor_x (?l k) < 8192" if "k \<le> unat n" for k
    using f True that unfolding write_fits_def Let_def by blast
  have p: "k \<le> unat n \<Longrightarrow> printed s (?l k)" for k
  proof (induction k)
    case 0
    then show ?case using kinvD(8) [OF k] by (simp add: printed_def on_video_near)
  next
    case (Suc j)
    then have j: "printed s (?l j)" "near (?l j)" by (simp_all add: printed_def)
    have "printed (?l j) (write_char (mem (?l j) (buf + of_nat j)) (?l j))"
      by (rule write_char_printed [OF j(2)]) (use b Suc.prems in simp)
    then show ?case using j(1) printed_trans by (simp add: for_loop_Suc)
  qed
  let ?s1 = "?l (unat n)"
  have p1: "printed s ?s1" and c1: "on_video (cursor_x ?s1) (cursor_y ?s1)"
    using p [of "unat n"] b [of "unat n"] by (simp_all add: on_video_near printed_def)
  have k1: "kinv L m0 fsa ext ?s1" using p1 by (intro kinv_console [OF k _ _ c1]) (simp_all add: printed_def)
  have t1: "set_term (\<lambda>t. t\<lparr>term_cursor_x := cursor_x (flush ?s1), term_cursor_y := cursor_y (flush ?s1)\<rparr>) (flush ?s1) = Some t"
    using t True by (auto simp: terminal_write_def Let_def)
  show ?thesis by (rule kinv_set_term [OF kinv_flush [OF k1] t1]) (use c1 in simp_all)
qed (use k t in \<open>simp add: terminal_write_def\<close>)

lemma read_begin_kinv:
  "kinv L m0 fsa ext s \<Longrightarrow> block_ok L buf (max (unat n) 128) \<Longrightarrow> kinv L m0 fsa ext (read_begin buf n s)"
  unfolding read_begin_def Let_def memset_fill
  using kinv_write [of L m0 fsa ext "sti s" buf "max (unat n) 128"] by simp

lemma read_finish_kinv:
  assumes k: "kinv L m0 fsa ext s" and b: "block_ok L buf (max (unat n) 128)" and t: "read_finish buf n s = Some (r, t)"
  shows "kinv L m0 fsa ext t"
proof -
  obtain tb m where tb: "aput (nat (old_length_typed s)) 0x0A (temp_buffer s) = Some tb"
    and m: "copy_out tb (if word_of_int (length_typed s + 1) < n then nat (old_length_typed s + 1) else unat n) buf (mem s) = Some m"
    and t': "t = flush (s\<lparr>temp_buffer := tb, mem := m, can_read := 0\<rparr>)"
    using t by (auto simp: read_finish_def Let_def split: Option.bind_splits)
  have l: "length tb = 128" using tb kinvD(2) [OF k] by (auto simp: c_array kern_shape_def)
  obtain bs where bs: "m = write_bytes buf bs (mem s)" "length bs \<le> 128"
    using m l by (auto simp: copy_out_def split: if_splits)
  have k1: "kinv L m0 fsa ext (s\<lparr>mem := m\<rparr>)" unfolding bs(1) by (rule kinv_write [OF k b]) (use bs(2) in simp)
  have "kinv L m0 fsa ext ((s\<lparr>mem := m\<rparr>)\<lparr>temp_buffer := tb\<rparr>)" by (rule kinv_buffers(2) [OF k1 l])
  then have "kinv L m0 fsa ext (flush (((s\<lparr>mem := m\<rparr>)\<lparr>temp_buffer := tb\<rparr>)\<lparr>can_read := 0\<rparr>))" by (intro kinv_flush) simp
  moreover have "((s\<lparr>mem := m\<rparr>)\<lparr>temp_buffer := tb\<rparr>)\<lparr>can_read := 0\<rparr> = s\<lparr>temp_buffer := tb, mem := m, can_read := 0\<rparr>" by simp
  ultimately show ?thesis unfolding t' by (simp only:)
qed

lemma terminal_read_kinv:
  assumes k: "kinv L m0 fsa ext s" and h: "\<forall>h \<in> set hs. \<forall>s. kinv L m0 fsa ext s \<longrightarrow> kinv L m0 fsa ext (h s)"
    and b: "fd = 0 \<longrightarrow> block_ok L buf (max (unat n) 128)" and t: "terminal_read hs fd buf n s = Some (r, t)"
  shows "kinv L m0 fsa ext t"
proof (cases "fd = 0")
  case True
  obtain s3 hs' where s3: "spin (\<lambda>s. can_read s = 1) hs (read_begin buf n s) = Some (s3, hs')"
    and f: "read_finish buf n s3 = Some (r, t)"
    using t True by (auto simp: terminal_read_def split: Option.bind_splits)
  have "kinv L m0 fsa ext s3"
    using spin_inv [where P = "kinv L m0 fsa ext", OF _ h s3] read_begin_kinv [OF k] b True by blast
  then show ?thesis using read_finish_kinv [OF _ _ f] b True by blast
qed (use k t in \<open>simp add: terminal_read_def\<close>)

lemma rtc_read_kinv:
  assumes k: "kinv L m0 fsa ext s" and h: "\<forall>h \<in> set hs. \<forall>s. kinv L m0 fsa ext s \<longrightarrow> kinv L m0 fsa ext (h s)"
    and t: "rtc_read hs fd buf n s = Some (r, t, hs')"
  shows "kinv L m0 fsa ext t"
proof -
  obtain hs'' where s: "spin (\<lambda>s. rtc_interrupt_happened s \<noteq> 0) hs (rtc_begin s) = Some (t, hs'')"
    using t by (auto simp: rtc_read_def)
  show ?thesis by (rule spin_inv [where P = "kinv L m0 fsa ext", OF _ h s]) (use k in \<open>simp add: rtc_begin_def\<close>)
qed

lemma dir_read_kinv:
  assumes k: "kinv L m0 fsa ext s" and b: "directoryIndex s < load32 (mem s) (start_fs s) \<longrightarrow> block_ok L buf 33"
    and t: "dir_read fd buf n s = Some (r, t)"
  shows "kinv L m0 fsa ext t"
proof (cases "unat (directoryIndex s) < unat (load32 (mem s) (start_fs s))")
  case True
  let ?nm = "entry_name (mem s) (start_fs s) (unat (directoryIndex s))"
  have "length ?nm \<le> length (bytes_at (mem s) (dir_addr (start_fs s) (unat (directoryIndex s))) 32)"
    unfolding entry_name_def by (rule length_takeWhile_le)
  then have "length ?nm \<le> 32" by simp
  moreover have "block_ok L buf 33" using b True by (simp add: word_less_nat_alt)
  moreover have "kinv L m0 fsa ext (s\<lparr>directoryIndex := directoryIndex s + 1\<rparr>)" using k by simp
  ultimately have "kinv L m0 fsa ext ((s\<lparr>directoryIndex := directoryIndex s + 1\<rparr>)\<lparr>mem :=
      write_bytes buf (?nm @ replicate (33 - length ?nm) 0) (mem (s\<lparr>directoryIndex := directoryIndex s + 1\<rparr>))\<rparr>)"
    by (intro kinv_write) auto
  then show ?thesis using t True by (simp add: dir_read_entry Let_def)
next
  case False
  then have "t = s\<lparr>directoryIndex := 0\<rparr>" using t by (simp add: dir_read_end)
  then show ?thesis using k by simp
qed


text \<open>A read of a file stays in the file, and so does its position.\<close>

lemma file_read_kinv:
  fixes s :: "'a kern_scheme"
  assumes k: "kinv L m0 fsa ext s" and h: "home_ok L fsa ext" and b: "buf \<noteq> 0 \<longrightarrow> block_ok L buf (unat n)"
    and u: "\<forall>d. cur_fd s fd = Some d \<longrightarrow> in_use d = 1 \<and> fops d = Some File_fops" and fd: "fd < 8"
    and t: "file_read fd buf n s = Some (r, t)"
  shows "kinv L m0 fsa ext t"
proof (cases "buf = 0")
  case False
  define s1 where "s1 = s\<lparr>mem := memset (mem s) buf 0 n\<rparr>"
  have bk: "block_ok L buf (unat n)" using b False by blast
  have k1: "kinv L m0 fsa ext s1"
    unfolding s1_def memset_fill by (rule kinv_write [OF k bk]) simp
  have "cur_fd s1 fd = cur_fd s fd" by (simp add: s1_def cur_fd_def cur_pcb_def cur_term_def)
  then obtain d where d: "cur_fd s1 fd = Some d" "in_use d = 1" "fops d = Some File_fops"
    using t False u by (auto simp: file_read_def Let_def s1_def split: Option.bind_splits)
  obtain p where p: "cur_pcb s1 = Some p" using d(1) by (auto simp: cur_fd_def split: Option.bind_splits)
  have dn: "d = fd_array (pcbs s1 p) ! fd" using d(1) cur_fd_shape [OF kinvD(2) [OF k1] p fd] by simp
  have "file_ok m0 fsa ext d" using kinvD(5) [OF k1] fd by (simp add: files_ok_def dn)
  then have f0: "wf_file m0 fsa ext (info d)" "unat (file_pos d) \<le> file_len m0 fsa (info d)"
    using d(2,3) by (simp_all add: file_ok_def)
  have eq: "image_eq fsa ext m0 (mem s1)" by (rule image_kept [OF h]) (use kinvD(7) [OF k1] in blast)
  note f = image_eq_file [OF f0(1) eq]
  have fs: "start_fs s1 = fsa" by (rule kinvD(6) [OF k1])
  obtain c m where cm: "read_data (mem s1) (start_fs s1) (info d) (file_pos d) buf n = (c, m)" by fastforce
  have t': "(if sint c > 0 then map_option (\<lambda>s. (c, s)) (set_fd fd (\<lambda>d. d\<lparr>file_pos := file_pos d + c\<rparr>) (s1\<lparr>mem := m\<rparr>))
      else Some (0, s1\<lparr>mem := m\<rparr>)) = Some (r, t)"
    using t False d(1) cm by (simp add: file_read_def Let_def flip: s1_def)
  show ?thesis
  proof (cases "file_len m0 fsa (info d) = 0")
    case True
    then have "c = - 1" "m = mem s1" using read_data_empty [of "mem s1" fsa "info d" "file_pos d" buf n] cm f(2) by (simp_all add: fs)
    then show ?thesis using t' k1 by simp
  next
    case False
    define j where "j = min (unat n) (file_len m0 fsa (info d) - unat (file_pos d))"
    have len: "file_len m0 fsa (info d) \<le> 4096 * 1023" "unat n \<le> 0x401000"
      using f0(1) bk by (simp_all add: wf_file_def block_ok_def)
    have "block_ok L buf j" by (rule block_sub [OF bk]) (simp add: j_def)
    from block_apart [OF h this] have dis: "disjoint_region fsa ext buf j" .
    have rd: "c = of_nat j" "m = write_bytes buf (take j (drop (unat (file_pos d)) (contents (mem s1) fsa (info d)))) (mem s1)"
      using read_data_reads [OF f(4), of "file_pos d" n j buf] f(2) f0(2) False len dis cm by (simp_all add: j_def fs)
    have k2: "kinv L m0 fsa ext (s1\<lparr>mem := m\<rparr>)" unfolding rd(2) by (rule kinv_write [OF k1 bk]) (simp add: j_def)
    show ?thesis
    proof (cases "sint c > 0")
      case True
      then have sf: "set_fd fd (\<lambda>d. d\<lparr>file_pos := file_pos d + c\<rparr>) (s1\<lparr>mem := m\<rparr>) = Some t" using t' by auto
      have "unat (file_pos d + c) \<le> file_len m0 fsa (info d)"
      proof -
        have "unat c = j" unfolding rd(1) using len(2) by (intro unat_of_nat32) (simp add: j_def)
        moreover have "unat (file_pos d) + j \<le> file_len m0 fsa (info d)" using f0(2) by (simp add: j_def)
        ultimately show ?thesis using len(1) by (simp add: unat_plus_if_size word_size)
      qed
      then show ?thesis
        using kinv_set_fd [OF k2 sf] f0(1) p dn by (simp add: fd_ok_def file_ok_def cur_pcb_def cur_term_def)
    next
      case False
      then show ?thesis using t' k2 by simp
    qed
  qed
qed (use k t in \<open>simp add: file_read_def\<close>)

section \<open>The drivers' contract\<close>

text \<open>What a driver demands: room for what it writes, and print inside the mapped screens.\<close>

definition rd_demand :: "klayout \<Rightarrow> driver \<Rightarrow> u32 \<Rightarrow> u32 \<Rightarrow> u32 \<Rightarrow> 'a kern_scheme \<Rightarrow> bool" where
  "rd_demand L d fd buf n s \<longleftrightarrow> (case d of
     Terminal_fops \<Rightarrow> fd = 0 \<longrightarrow> block_ok L buf (max (unat n) 128)
   | Rtc_fops \<Rightarrow> True
   | Dir_fops \<Rightarrow> directoryIndex s < load32 (mem s) (start_fs s) \<longrightarrow> block_ok L buf 33
   | File_fops \<Rightarrow> (buf \<noteq> 0 \<longrightarrow> block_ok L buf (unat n)) \<and> unat fd < 8 \<and>
       (\<forall>d. cur_fd s (unat fd) = Some d \<longrightarrow> in_use d = 1 \<and> fops d = Some File_fops))"

definition wr_demand :: "driver \<Rightarrow> u32 \<Rightarrow> u32 \<Rightarrow> u32 \<Rightarrow> 'a kern_scheme \<Rightarrow> bool" where
  "wr_demand d fd buf n s \<longleftrightarrow> (d = Terminal_fops \<and> fd = 1 \<longrightarrow> write_fits buf (unat n) s)"

definition safe_kern :: "klayout \<Rightarrow> mem \<Rightarrow> u32 \<Rightarrow> nat \<Rightarrow> 'a kern_scheme \<Rightarrow> bool" where
  "safe_kern L m0 fsa ext s \<longleftrightarrow> home_ok L fsa ext \<and> kinv L m0 fsa ext s"

interpretation kdrv: drivers driver_read driver_write driver_open "safe_kern L m0 fsa ext" "rd_demand L" wr_demand
  for L m0 fsa ext
proof
  fix s s' :: "'a kern_scheme" and hs d fd buf n r
  assume k: "safe_kern L m0 fsa ext s" and h: "\<forall>h \<in> set hs. \<forall>s. safe_kern L m0 fsa ext s \<longrightarrow> safe_kern L m0 fsa ext (h s)"
    and b: "rd_demand L d fd buf n s" and t: "driver_read hs d fd buf n s = Some (r, s')"
  have k': "home_ok L fsa ext" "kinv L m0 fsa ext s" using k by (simp_all add: safe_kern_def)
  have h': "\<forall>h \<in> set hs. \<forall>s. kinv L m0 fsa ext s \<longrightarrow> kinv L m0 fsa ext (h s)" using h k'(1) by (simp add: safe_kern_def)
  have "kinv L m0 fsa ext s'"
  proof (cases d)
    case Terminal_fops
    then show ?thesis using terminal_read_kinv [OF k'(2) h'] b t by (simp add: rd_demand_def driver_read_def)
  next
    case Rtc_fops
    then show ?thesis using rtc_read_kinv [OF k'(2) h'] t by (auto simp: driver_read_def)
  next
    case Dir_fops
    then show ?thesis using dir_read_kinv [OF k'(2)] b t by (simp add: rd_demand_def driver_read_def)
  next
    case File_fops
    then show ?thesis using file_read_kinv [OF k'(2,1), of buf n "unat fd" r s'] b t by (simp add: rd_demand_def driver_read_def)
  qed
  then show "safe_kern L m0 fsa ext s'" using k'(1) by (simp add: safe_kern_def)
next
  fix s s' :: "'a kern_scheme" and dev d fd buf n r
  assume k: "safe_kern L m0 fsa ext s" and b: "wr_demand d fd buf n s" and t: "driver_write dev d fd buf n s = Some (r, s')"
  then show "safe_kern L m0 fsa ext s'"
    using terminal_write_kinv [of L m0 fsa ext s fd buf n r s'] rtc_write_ports [of dev fd "load32 (mem s) buf" n s]
    by (cases d) (auto simp: wr_demand_def driver_write_def safe_kern_def)
next
  fix s :: "'a kern_scheme" and dev d
  assume "safe_kern L m0 fsa ext s"
  then show "safe_kern L m0 fsa ext (snd (driver_open dev d s))"
    using rtc_open_ports [of dev s] by (cases d) (auto simp: driver_open_def safe_kern_def)
qed

section \<open>The calls on descriptors\<close>

lemma fd_driver_found:
  "\<not> fd > 7 \<Longrightarrow> cur_fd s (unat fd) = Some x \<Longrightarrow> in_use x \<noteq> 0 \<Longrightarrow> fops x = Some d \<Longrightarrow> fd_driver s fd = Some d"
  by (simp add: fd_driver_def)

lemma fd_in_use:
  fixes fd :: u32
  assumes "kinv L m0 fsa ext s" and "\<not> fd > 7" and "cur_fd s (unat fd) = Some x" and "in_use x \<noteq> 0"
  shows "in_use x = 1"
proof -
  obtain p where p: "cur_pcb s = Some p" using assms(3) by (auto simp: cur_fd_def split: Option.bind_splits)
  have fd: "unat fd < 8" using assms(2) by (simp add: word_less_nat_alt)
  then have "x = fd_array (pcbs s p) ! unat fd" using assms(3) cur_fd_shape [OF kinvD(2) [OF assms(1)] p] by simp
  then show ?thesis using kinvD(1) [OF assms(1)] fd assms(4) by (auto simp: fds_ok_def fd_ok_def)
qed

lemma sys_read_kinv:
  assumes k: "kinv L m0 fsa ext s" and h: "home_ok L fsa ext"
    and hs: "\<forall>h \<in> set hs. \<forall>s. kinv L m0 fsa ext s \<longrightarrow> kinv L m0 fsa ext (h s)"
    and b: "buf \<noteq> 0 \<Longrightarrow> (case fd_driver s fd of None \<Rightarrow> True | Some d \<Rightarrow> block_ok L buf (read_extent fd n s d))"
    and t: "sys_read hs fd buf n s = Some (r, t)"
  shows "kinv L m0 fsa ext t"
proof (cases "fd > 7 \<or> buf = 0")
  case False
  have "safe_kern L m0 fsa ext t"
  proof (rule kdrv.rd_through)
    show "safe_kern L m0 fsa ext s" using k h by (simp add: safe_kern_def)
    show "\<forall>h \<in> set hs. \<forall>s. safe_kern L m0 fsa ext s \<longrightarrow> safe_kern L m0 fsa ext (h s)"
      using hs by (simp add: safe_kern_def)
    show "Option.bind (cur_fd s (unat fd)) (\<lambda>d. if in_use d = 0 then Some (- 1, s)
        else Option.bind (fops d) (\<lambda>drv. driver_read hs drv fd buf n s)) = Some (r, t)"
      using t False by (simp add: sys_read_def)
    fix x d assume x: "cur_fd s (unat fd) = Some x" "\<not> in_use x = 0" "fops x = Some d"
    have "block_ok L buf (read_extent fd n s d)" using b fd_driver_found [of fd s x d] False x by simp
    moreover have "unat fd < 8" using False by (simp add: word_less_nat_alt)
    ultimately show "rd_demand L d fd buf n s"
      using x fd_in_use [OF k _ x(1)] False
      by (auto simp: rd_demand_def read_extent_def split: driver.splits if_splits)
  qed
  then show ?thesis by (simp add: safe_kern_def)
qed (use k t in \<open>auto simp: sys_read_def split: if_splits\<close>)

lemma sys_write_kinv:
  assumes k: "kinv L m0 fsa ext s" and h: "home_ok L fsa ext"
    and f: "buf \<noteq> 0 \<Longrightarrow> write_fits buf (unat n) s" and t: "sys_write dev fd buf n s = Some (r, t)"
  shows "kinv L m0 fsa ext t"
proof (cases "fd > 7 \<or> buf = 0")
  case False
  have "safe_kern L m0 fsa ext t"
  proof (rule kdrv.wr_through)
    show "safe_kern L m0 fsa ext s" using k h by (simp add: safe_kern_def)
    show "Option.bind (cur_fd s (unat fd)) (\<lambda>d. if in_use d = 0 then Some (- 1, s)
        else Option.bind (fops d) (\<lambda>drv. driver_write dev drv fd buf n s)) = Some (r, t)"
      using t False by (simp add: sys_write_def)
    show "wr_demand d fd buf n s" for d using f False by (simp add: wr_demand_def)
  qed
  then show ?thesis by (simp add: safe_kern_def)
qed (use k t in \<open>auto simp: sys_write_def split: if_splits\<close>)

lemma sys_close_kinv:
  assumes k: "kinv L m0 fsa ext s" and t: "sys_close fd s = Some (r, t)"
  shows "kinv L m0 fsa ext t"
proof -
  consider "t = s" | "set_fd (unat fd) (\<lambda>d. d\<lparr>in_use := 0\<rparr>) s = Some t"
    using t by (auto simp: sys_close_def split: Option.bind_splits if_splits)
  then show ?thesis
    using k kinv_set_fd [OF k, of "unat fd" "\<lambda>d. d\<lparr>in_use := 0\<rparr>" t] by cases (simp_all add: fd_ok_def file_ok_def)
qed

text \<open>\<open>open\<close>: the entry is one of the image's.\<close>

lemma find_dentry_entry:
  "find_dentry m f N n (dir_addr fs n) = Some (r, Some d) \<Longrightarrow> \<exists>j < N. d = dentry_bytes m (dir_addr fs j)"
proof (induction "N - n" arbitrary: n)
  case 0
  then show ?case by (simp add: find_dentry.simps [of m f N n])
next
  case (Suc k)
  then have n: "n < N" by simp
  have a: "dir_addr fs n + SIZE_STAT_DIRS = dir_addr fs (Suc n)" by (simp add: dir_addr_def algebra_simps)
  consider "d = dentry_bytes m (dir_addr fs n)" | "find_dentry m f N (Suc n) (dir_addr fs (Suc n)) = Some (r, Some d)"
    using Suc.prems n by (subst (asm) find_dentry.simps) (auto simp: a Let_def split: Option.bind_splits if_splits)
  then show ?case
  proof cases
    case 1
    then show ?thesis using n by blast
  next
    case 2
    then show ?thesis using Suc.hyps(1) [of "Suc n"] Suc.hyps(2) by simp
  qed
qed

lemma lookup_entry:
  assumes "read_dentry_by_name m fs (Some f) = Some (r, Some d)"
  shows "\<exists>j < unat (m fs). d = dentry_bytes m (dir_addr fs j)"
proof -
  have "dir_addr fs 0 = fs + SIZE_STAT_DIRS" by (simp add: dir_addr_def)
  then have "find_dentry m f (unat (m fs)) 0 (dir_addr fs 0) = Some (r, Some d)"
    using assms by (auto simp: read_dentry_by_name_def split: Option.bind_splits if_splits)
  then show ?thesis by (rule find_dentry_entry)
qed

end
