(* ===== verification/Kernel_Calls.thy ===== *)
theory Kernel_Calls
  imports Kernel_Steps
begin

text \<open>
  The system calls that look names up or write to the caller's memory keep the invariant:
  \<open>open\<close>, \<open>getargs\<close>, \<open>vidmap\<close>.
\<close>

section \<open>open\<close>

lemma image_dentry:
  assumes eq: "image_eq fsa ext m0 m" and io: "image_ok m0 fsa ext" and w: "unat fsa + ext \<le> 4294967296" and j: "j < unat (m0 fsa)"
  shows "dentry_bytes m (dir_addr fsa j) = dentry_bytes m0 (dir_addr fsa j)"
proof (rule dentry_same(1))
  fix i :: nat assume i: "i < 64"
  have "64 + 64 * unat (m0 fsa) \<le> ext" using io by (simp add: image_ok_def)
  then have k: "64 + 64 * j + i < ext" using j i by linarith
  have "in_region fsa ext (fsa + of_nat (64 + 64 * j + i))" using k w by (intro in_region_offset) simp_all
  then show "m (dir_addr fsa j + of_nat i) = m0 (dir_addr fsa j + of_nat i)"
    using eq by (simp add: image_eq_def dir_addr_def add.assoc)
qed

lemma image_count:
  assumes "image_eq fsa ext m0 m" and "image_ok m0 fsa ext" and w: "unat fsa + ext \<le> 4294967296"
  shows "m fsa = m0 fsa"
proof -
  have "0 < ext" using assms(2) by (simp add: image_ok_def)
  then have "in_region fsa ext fsa" by (simp add: in_region_def)
  then show ?thesis using assms(1) by (simp add: image_eq_def)
qed

lemma home_nowrap: "home_ok L fsa ext \<Longrightarrow> unat fsa + ext \<le> 4294967296"
  by (simp add: home_ok_def)

lemma loose_image: "loose L m0 fsa ext s \<Longrightarrow> home_ok L fsa ext \<Longrightarrow> image_eq fsa ext m0 (mem s)"
  using image_kept looseD(7) by blast

lemma entry_file:
  assumes k: "loose L m0 fsa ext s" and h: "home_ok L fsa ext" and io: "image_ok m0 fsa ext"
    and d: "read_dentry_by_name (mem s) (start_fs s) (Some f) = Some (r, Some d)"
  shows "wf_file m0 fsa ext (inode_num d)"
    and "file_len m0 fsa (inode_num d) = 0 \<or> 4 \<le> file_len m0 fsa (inode_num d)"
    and "take 4 (contents m0 fsa (inode_num d)) = EXEC_BITS \<Longrightarrow>
      28 \<le> file_len m0 fsa (inode_num d) \<and> file_len m0 fsa (inode_num d) \<le> 0x3B8000"
proof -
  note eq = loose_image [OF k h]
  obtain j where "j < unat (mem s fsa)" "d = dentry_bytes (mem s) (dir_addr fsa j)"
    using lookup_entry [OF d] looseD(6) [OF k] by auto
  then have "j < unat (m0 fsa)" "d = dentry_bytes m0 (dir_addr fsa j)"
    using image_count [OF eq io home_nowrap [OF h]] image_dentry [OF eq io home_nowrap [OF h]] by simp_all
  then show "wf_file m0 fsa ext (inode_num d)"
    "file_len m0 fsa (inode_num d) = 0 \<or> 4 \<le> file_len m0 fsa (inode_num d)"
    "take 4 (contents m0 fsa (inode_num d)) = EXEC_BITS \<Longrightarrow>
      28 \<le> file_len m0 fsa (inode_num d) \<and> file_len m0 fsa (inode_num d) \<le> 0x3B8000"
    using io by (auto simp: image_ok_def Let_def)
qed

lemma opened_kinv:
  assumes k: "kinv L m0 fsa ext s" and h: "home_ok L fsa ext" and sf: "set_fd i (\<lambda>_. open_entry drv inode) s = Some s1"
    and drv: "i < 2 \<longleftrightarrow> drv = Terminal_fops" "drv = File_fops \<Longrightarrow> wf_file m0 fsa ext inode"
  shows "kinv L m0 fsa ext (snd (driver_open dev drv s1))"
proof -
  have "kinv L m0 fsa ext s1"
    by (rule kinv_set_fd [OF k sf open_entry_ok [OF drv(1)]]) (use drv(2) in \<open>simp add: file_ok_def open_entry_def\<close>)
  then have "safe_kern L m0 fsa ext s1" using h by (simp add: safe_kern_def)
  from kdrv.opn_inv [OF this] show ?thesis by (simp add: safe_kern_def)
qed

lemma open_from_kinv:
  assumes k: "kinv L m0 fsa ext s" and h: "home_ok L fsa ext" and wf: "wf_file m0 fsa ext (inode_num de)"
  shows "2 \<le> i \<Longrightarrow> open_from dev de i s = Some (r, t) \<Longrightarrow> kinv L m0 fsa ext t"
proof (induction "8 - i" arbitrary: i)
  case 0
  then show ?case using k by (subst (asm) open_from.simps) simp
next
  case (Suc j)
  then have i: "i < 8" by simp
  obtain d where d: "cur_fd s i = Some d"
    using Suc.prems(2) i by (subst (asm) open_from.simps) (auto split: Option.bind_splits)
  show ?case
  proof (cases "in_use d = 0 \<and> driver_of_type (file_type de) \<noteq> None")
    case False
    then have "open_from dev de (Suc i) s = Some (r, t)"
      using Suc.prems(2) i d by (subst (asm) open_from.simps) (auto split: if_splits)
    then show ?thesis using Suc.hyps(1) [of "Suc i"] Suc.hyps(2) Suc.prems by simp
  next
    case True
    then obtain drv s1 where drv: "driver_of_type (file_type de) = Some drv"
      "set_fd i (\<lambda>_. open_entry drv (inode_num de)) s = Some s1" "t = snd (driver_open dev drv s1)"
      using Suc.prems(2) i d by (subst (asm) open_from.simps) (auto split: Option.bind_splits)
    have "drv \<noteq> Terminal_fops" using drv(1) by (auto simp: driver_of_type_def split: if_splits)
    then show ?thesis unfolding drv(3) using Suc.prems(1) wf by (intro opened_kinv [OF k h drv(2)]) simp_all
  qed
qed

lemma open_std_kinv:
  assumes k: "kinv L m0 fsa ext s" and h: "home_ok L fsa ext" and "fd < 2" and t: "open_std dev fd s = Some (r, t)"
  shows "kinv L m0 fsa ext t"
proof -
  obtain d where d: "cur_fd s fd = Some d" using t by (auto simp: open_std_def split: Option.bind_splits)
  show ?thesis
  proof (cases "in_use d = 1")
    case False
    then obtain s1 where s1: "set_fd fd (\<lambda>_. open_entry Terminal_fops 0) s = Some s1"
      "t = snd (driver_open dev Terminal_fops s1)"
      using t d by (auto simp: open_std_def)
    show ?thesis unfolding s1(2) using assms(3) by (intro opened_kinv [OF k h s1(1)]) simp_all
  qed (use k t d in \<open>simp add: open_std_def\<close>)
qed

lemma sys_open_kinv:
  assumes k: "kinv L m0 fsa ext s" and h: "home_ok L fsa ext" and io: "image_ok m0 fsa ext"
    and t: "sys_open dev name s = Some (r, t)"
  shows "kinv L m0 fsa ext t"
proof -
  consider "open_std dev 0 s = Some (r, t)" | "open_std dev 1 s = Some (r, t)" | "t = s"
    | q de where "read_dentry_by_name (mem s) (start_fs s) (Some name) = Some (q, Some de)" "open_from dev de 2 s = Some (r, t)"
    using t by (auto simp: sys_open_def split: Option.bind_splits if_splits option.splits)
  then show ?thesis
  proof cases
    case 4
    have "loose L m0 fsa ext s" using k by (simp add: kinv_loose)
    from open_from_kinv [OF k h entry_file(1) [OF this h io 4(1)] order_refl 4(2)] show ?thesis .
  qed (use k open_std_kinv [OF k h, of 0] open_std_kinv [OF k h, of 1] in auto)
qed

section \<open>getargs\<close>

lemma outside_ne: "\<not> in_region buf n x \<Longrightarrow> i < n \<Longrightarrow> n \<le> 4294967296 \<Longrightarrow> x \<noteq> buf + of_nat i"
  using in_region_offset [of i n buf] by auto

lemma args_copy_frame:
  "args_copy as i buf m = Some (j, m') \<Longrightarrow> length as \<le> 4294967296 \<Longrightarrow> i \<le> j \<and> (\<forall>x. \<not> in_region buf (length as) x \<longrightarrow> m' x = m x)"
proof (induction "length as - i" arbitrary: i m)
  case 0
  then show ?case by (subst (asm) args_copy.simps) simp
next
  case (Suc k)
  then have i: "i < length as" by simp
  have e: "(if as ! i \<noteq> 0 then Option.bind (strlen (aget as)) (\<lambda>len.
      if i < len then args_copy as (Suc i) buf (m(buf + of_nat i := as ! i)) else Some (i, m)) else Some (i, m)) = Some (j, m')"
    using Suc.prems(1) i by (simp only: args_copy.simps [of as i buf m] simp_thms if_True)
  have "j = i \<and> m' = m \<or> args_copy as (Suc i) buf (m(buf + of_nat i := as ! i)) = Some (j, m')"
  proof (cases "as ! i = 0")
    case False
    then obtain len where "strlen (aget as) = Some len" using e by (auto simp only: simp_thms if_True bind_eq_Some_conv)
    then show ?thesis using e False by (cases "i < len") simp_all
  qed (use e in simp)
  then consider "j = i" "m' = m" | "args_copy as (Suc i) buf (m(buf + of_nat i := as ! i)) = Some (j, m')" by blast
  then show ?case
  proof cases
    case 2
    have IH: "Suc i \<le> j" "\<forall>x. \<not> in_region buf (length as) x \<longrightarrow> m' x = (m(buf + of_nat i := as ! i)) x"
      using Suc.hyps(1) [OF _ 2 Suc.prems(2)] Suc.hyps(2) by simp_all
    then show ?thesis using outside_ne [OF _ i Suc.prems(2)] by simp
  qed simp
qed

lemma zero_loop_frame:
  "k \<le> n \<Longrightarrow> n \<le> 4294967296 \<Longrightarrow> \<not> in_region buf n x \<Longrightarrow> for_loop k n (\<lambda>i m. m(buf + of_nat i := 0)) m x = m x"
proof (induction n)
  case (Suc n)
  have x: "\<not> in_region buf n x" "x \<noteq> buf + of_nat n"
    using outside_ne [OF Suc.prems(3) _ Suc.prems(2)] Suc.prems(3) by (auto simp: in_region_def)
  show ?case
  proof (cases "k = Suc n")
    case False
    then show ?thesis using Suc x by (simp add: for_loop_Suc)
  qed simp
qed simp

section \<open>Pages of programs\<close>

lemma translate_high:
  assumes v: "paging_view M s (Some q) video" and L: "layout_ok M" and a: "0x8000000 \<le> unat va"
  shows "translate M s usr va = translate M s True va"
proof -
  have "reach (Some q) video usr (unat va) = reach (Some q) video True (unat va)" using a by (auto simp: reach_def)
  then have "map_option unat (translate M s usr va) = map_option unat (translate M s True va)"
    by (simp only: translate_reach [OF v L])
  then show ?thesis by (cases "translate M s usr va"; cases "translate M s True va") (auto dest: unsigned_word_eqI)
qed

lemma span_kernel:
  assumes v: "paging_view M s (Some q) video" and L: "layout_ok M" and q: "q < 6" and sp: "span M s True va n = Some pa"
  shows "span M s False va n = Some pa"
proof (cases "n = 0")
  case False
  have t: "translate M s True (va + of_nat i) = Some (pa + of_nat i)" if "i < n" for i
    using sp False that by (auto simp: span_def list_all_iff split: Option.bind_splits if_splits)
  have "translate M s False (va + of_nat i) = Some (pa + of_nat i)" if i: "i < n" for i
    using translate_high [OF v L user_reach(1) [OF v L q t [OF i]], of False] t [OF i] by simp
  note t0 = this
  have "translate M s False va = Some pa" using t0 [of 0] False by simp
  then show ?thesis using t0 False by (simp add: span_def list_all_iff)
qed (use sp in \<open>simp add: span_def\<close>)

lemma view_once:
  assumes v: "paging_view M s (Some p) a" "paging_view M s (Some q) b" and L: "layout_ok M"
  shows "p = q"
proof -
  have "reach (Some p) a True 0x8000000 = reach (Some q) b True 0x8000000"
    using translate_reach [OF v(1) L, of True "0x8000000"] translate_reach [OF v(2) L, of True "0x8000000"] by simp
  then show ?thesis by (simp add: reach_def)
qed

lemma frontD:
  "front_mapped L s \<Longrightarrow> cur_pcb s = Some p \<Longrightarrow> paging_view (layout.truncate L) s (Some q) v \<Longrightarrow> q < 6 \<Longrightarrow>
    unat (process_num (pcbs s p)) = q"
  unfolding front_mapped_def by blast

lemma front_view:
  assumes "paging_view (layout.truncate L) s (Some q) v" and "layout_ok (layout.truncate L)"
    and "\<And>p. cur_pcb s = Some p \<Longrightarrow> unat (process_num (pcbs s p)) = q"
  shows "front_mapped L s"
  unfolding front_mapped_def
proof (intro allI impI)
  fix p r w
  assume "cur_pcb s = Some p" "paging_view (layout.truncate L) s (Some r) w"
  then show "unat (process_num (pcbs s p)) = r" using assms(3) view_once [OF assms(1) _ assms(2)] by blast
qed

section \<open>getargs\<close>

lemma getargs_frame:
  assumes a: "\<And>p. cur_pcb s = Some p \<Longrightarrow> length (args (pcbs s p)) = 95" and n: "strlen (ptr_mem (mem s) buf) = Some n"
    and g: "getargs lit buf nb s = Some (r, t)" and x: "\<not> in_region buf (max 95 n) x" and n4: "n < 4294967296"
  shows "mem t x = mem s x"
proof (cases "t = s")
  case False
  then obtain p i m where p: "cur_pcb s = Some p"
    "args_copy (args (pcbs s p)) 0 buf (memcpy (mem s) buf lit (of_nat n)) = Some (i, m)"
    "t = s\<lparr>mem := for_loop i 95 (\<lambda>i m. m(buf + of_nat i := 0)) m\<rparr>"
    using g n by (auto simp: getargs_def Let_def split: Option.bind_splits if_splits)
  have o: "\<not> in_region buf 95 x" "\<not> in_region buf (unat (of_nat n :: u32)) x"
    using x n4 by (auto simp: in_region_def unat_of_nat32)
  have "m x = memcpy (mem s) buf lit (of_nat n) x"
    using args_copy_frame [OF p(2)] a [OF p(1)] o(1) by simp
  also have "\<dots> = mem s x" by (rule memcpy_frame [OF o(2)])
  finally have "m x = mem s x" .
  moreover have "for_loop i 95 (\<lambda>i m. m(buf + of_nat i := 0)) m x = m x"
    using zero_loop_frame [of i 95 buf x m] o(1) by (cases "i \<le> 95") simp_all
  ultimately show ?thesis by (simp add: p(3))
qed simp

lemma getargs_only_mem:
  "getargs lit buf nb s = Some (r, t) \<Longrightarrow> \<exists>m. t = s\<lparr>mem := m\<rparr>"
proof -
  have "\<exists>m. s = s\<lparr>mem := m\<rparr>" by (rule exI [of _ "mem s"]) simp
  moreover assume "getargs lit buf nb s = Some (r, t)"
  ultimately show ?thesis by (auto simp: getargs_def Let_def split: Option.bind_splits if_splits)
qed

lemma user_str_span:
  assumes sp: "span M s False va k = Some buf" and n: "strlen (user_str M s va) = Some n" and k: "n < k"
  shows "strlen (ptr_mem (mem s) buf) = Some n"
proof -
  obtain xs where xs: "c_str (user_str M s va) xs" "length xs = n" using strlen_Some [OF n] by blast
  have "translate M s False (va + of_nat i) = Some (buf + of_nat i)" if "i < k" for i
    using sp that k by (auto simp: span_def list_all_iff split: Option.bind_splits if_splits)
  then have "ptr_mem (mem s) buf i = user_str M s va i" if "i < k" for i
    using that by (simp add: user_str_def ptr_mem_def)
  then have "c_str (ptr_mem (mem s) buf) xs" using xs k by (simp add: c_str_def)
  then show ?thesis using strlen_c_str xs(2) by simp
qed

lemma getargs_kinv:
  assumes k: "kinv L m0 fsa ext s" and h: "home_ok L fsa ext"
    and e: "getargs_extent (layout.truncate L) s va nb = Some n" and u: "span (layout.truncate L) s True va n \<noteq> None"
    and sp: "span (layout.truncate L) s False va n = Some buf" and t: "getargs lit buf nb s = Some (r, t)"
  shows "kinv L m0 fsa ext t"
proof -
  let ?M = "layout.truncate L"
  obtain q v where q: "q < 6" "paging_view ?M s (Some q) v" using kinvD(3) [OF k] by (auto simp: settled_def)
  have M: "layout_ok ?M" using h by (simp add: home_ok_def)
  have b: "span ?M s True va n = Some buf" using u sp span_kernel [OF q(2) M q(1)] by (metis option.exhaust option.inject)
  have ok: "block_ok L buf n" by (rule span_block [OF k h b])
  have sh: "length (args (pcbs s p)) = 95" for p using kinvD(2) [OF k] by (simp add: kern_shape_def pcb_shape_def)
  show ?thesis
  proof (cases "va = 0 \<or> sint nb \<le> 0 \<or> Option.bind (cur_pcb s) (\<lambda>p. aget (args (pcbs s p)) 0) = Some 0")
    case True
    then have n0: "n = 0" "buf = va" using e sp by (simp_all add: getargs_extent_def span_def)
    have "t = s" using t True n0 by (auto simp: getargs_def Let_def split: Option.bind_splits if_splits)
    then show ?thesis using k by simp
  next
    case False
    then obtain j where j: "strlen (user_str ?M s va) = Some j" "n = max 95 (Suc j)"
      using e by (auto simp: getargs_extent_def)
    have st: "strlen (ptr_mem (mem s) buf) = Some j" using user_str_span [OF sp j(1)] j(2) by simp
    have "n \<le> 0x401000" using ok by (simp add: block_ok_def)
    then have j4: "j < 4294967296" using j(2) by simp
    have out: "\<not> in_region buf (max 95 j) x" if "\<not> scratch L x" for x
    proof
      assume "in_region buf (max 95 j) x"
      then have "unat (x - buf) < n" using j(2) by (auto simp: in_region_def)
      then have "scratch L (buf + of_nat (unat (x - buf)))" using ok unfolding block_ok_def by blast
      then show False using that by simp
    qed
    have f: "mem t x = mem s x" if "\<not> scratch L x" for x
      using getargs_frame [OF sh st t out [OF that] j4] .
    obtain m where m: "t = s\<lparr>mem := m\<rparr>"
      using getargs_only_mem [OF t] by blast
    have "m x = mem s x" if "\<not> scratch L x" for x using f [OF that] by (simp add: m)
    then show ?thesis unfolding m by (intro kinv_mem [OF k]) blast
  qed
qed

section \<open>vidmap\<close>

lemma loose_paging:
  assumes k: "loose L m0 fsa ext s" and m: "paging.more t = paging.more (s :: 'a kern_scheme)" "mem t = mem s"
    "cursor_x t = cursor_x s" "cursor_y t = cursor_y s" and v: "paging_view (layout.truncate L) t (Some q) v" "q < 6"
  shows "loose L m0 fsa ext t"
proof -
  have f: "pcbs t = pcbs s" "terms t = terms s" "current_terminal t = current_terminal s" "processes t = processes s"
    "start_fs t = start_fs s" "input_buffer t = input_buffer s" "temp_buffer t = temp_buffer s"
    using m(1) by (cases s; cases t; simp)+
  have "fds_ok t" using looseD(1) [OF k] by (simp add: fds_ok_def kern_shape_def f)
  moreover have "settled L m0 fsa t" using looseD(3) [OF k] v by (auto simp: settled_def f m(2))
  moreover have "cursors t" "files_ok m0 fsa ext t"
    using looseD(4,5) [OF k] by (simp_all add: cursors_def files_ok_def f m(3,4))
  ultimately show ?thesis by (simp add: loose_def)
qed

lemma paging_current: "paging.more t = paging.more (s :: 'a kern_scheme) \<Longrightarrow> cur_pcb t = cur_pcb s \<and> pcbs t = pcbs s"
  by (cases s; cases t) (simp add: cur_pcb_def cur_term_def)

lemma vstore32_kinv:
  assumes k: "kinv L m0 fsa ext s" and h: "home_ok L fsa ext" and a: "0x8000000 \<le> unat va" "unat va < 0x8400000"
    and t: "vstore32 (layout.truncate L) va w s = Some t"
  shows "kinv L m0 fsa ext t"
proof -
  let ?M = "layout.truncate L"
  obtain q v where q: "q < 6" "paging_view ?M s (Some q) v" using kinvD(3) [OF k] by (auto simp: settled_def)
  have M: "layout_ok ?M" using h by (simp add: home_ok_def)
  have sc: "scratch L x" if x: "translate ?M s False (va + i) = Some x" and i: "unat i < 4" for i x
  proof (rule user_scratch [OF k h])
    have "unat (va + i) = unat va + unat i" using a(2) i by (simp add: unat_plus_if_size word_size)
    then show "translate ?M s True (va + i) = Some x" using translate_high [OF q(2) M, of "va + i" False] a(1) x by simp
  qed
  obtain a0 a1 a2 a3 where as: "translate ?M s False va = Some a0" "translate ?M s False (va + 1) = Some a1"
      "translate ?M s False (va + 2) = Some a2" "translate ?M s False (va + 3) = Some a3"
    and t': "t = s\<lparr>mem := (mem s)(a0 := byte_of 0 w, a1 := byte_of 1 w, a2 := byte_of 2 w, a3 := byte_of 3 w)\<rparr>"
    using t by (auto simp: vstore32_def split: Option.bind_splits)
  have "scratch L a0" "scratch L a1" "scratch L a2" "scratch L a3"
    using sc [of 0] sc [OF as(2)] sc [OF as(3)] sc [OF as(4)] as(1) by simp_all
  then show ?thesis unfolding t' by (intro kinv_mem [OF k]) auto
qed

lemma vidmap_kinv:
  assumes k: "kinv L m0 fsa ext s" and h: "home_ok L fsa ext" and t: "vidmap (layout.truncate L) va s = Some (r, t)"
  shows "kinv L m0 fsa ext t"
proof (cases "t = s")
  case False
  let ?M = "layout.truncate L"
  let ?s = "load_video_mem ?M 0 s"
  have st: "vstore32 ?M va ONE_THIRTY_TWO_MB ?s = Some t" and a: "0x8000000 \<le> unat va" "unat va < 0x8400000"
    using t False by (auto simp: vidmap_def ONE_TWENTY_EIGHT_MB_def ONE_THIRTY_TWO_MB_def word_le_nat_alt word_less_nat_alt
        split: if_splits)
  obtain q v where q: "q < 6" "paging_view ?M s (Some q) v" using kinvD(3) [OF k] by (auto simp: settled_def)
  have M: "layout_ok ?M" using h by (simp add: home_ok_def)
  have v1: "paging_view ?M ?s (Some q) True" by (rule load_video_mem_view [OF q(2) M])
  have p1: "paging.more ?s = paging.more s" "mem ?s = mem s" "cursor_x ?s = cursor_x s" "cursor_y ?s = cursor_y s"
    by (simp_all add: load_video_mem_def Let_def set_control_registers_def load_registers_def set_pde_def)
  have "loose L m0 fsa ext ?s" using k loose_paging [OF _ p1 v1 q(1)] by (simp add: kinv_loose)
  moreover have "front_mapped L ?s"
    using k frontD [OF _ _ q(2,1)] paging_current [OF p1(1)] by (intro front_view [OF v1 M]) (simp add: kinv_loose)
  ultimately have "kinv L m0 fsa ext ?s" by (simp add: kinv_loose)
  from vstore32_kinv [OF this h a st] show ?thesis .
qed (use k in simp)

end
