(* ===== verification/Kernel_Exec.thy ===== *)
theory Kernel_Exec
  imports Kernel_Calls Lifecycle
begin

text \<open>
  \<open>execute\<close> and \<open>halt\<close> keep the invariant of \<open>Kernel_Inv\<close>, whichever way they end: the
  message of a full process table stays on the screen, the loader writes to the new program's
  4 MB only, and the page of programs follows the process of the terminal in front.
\<close>

section \<open>Messages\<close>

lemma fits_Cons:
  "fits_video put (c # cs) s \<longleftrightarrow> 80 * cursor_y s + cursor_x s < 8192 \<and> fits_video put cs (put c s)"
proof
  assume f: "fits_video put (c # cs) s"
  have "80 * cursor_y t + cursor_x t < 8192" if "k \<le> length cs" "t = fold put (take k cs) (put c s)" for k t
    using f that unfolding fits_video_def Let_def by (force dest: spec [of _ "Suc k"])
  moreover have "80 * cursor_y s + cursor_x s < 8192"
    using f unfolding fits_video_def Let_def by (force dest: spec [of _ 0])
  ultimately show "80 * cursor_y s + cursor_x s < 8192 \<and> fits_video put cs (put c s)"
    by (simp add: fits_video_def Let_def)
next
  assume a: "80 * cursor_y s + cursor_x s < 8192 \<and> fits_video put cs (put c s)"
  show "fits_video put (c # cs) s"
    unfolding fits_video_def Let_def
  proof (intro allI impI)
    fix k assume "k \<le> length (c # cs)"
    then show "80 * cursor_y (fold put (take k (c # cs)) s) + cursor_x (fold put (take k (c # cs)) s) < 8192"
      using a by (cases k) (simp_all add: fits_video_def Let_def)
  qed
qed

lemma fits_Nil [simp]: "fits_video put [] s \<longleftrightarrow> 80 * cursor_y s + cursor_x s < 8192"
  by (simp add: fits_video_def Let_def)

lemma putc_printed:
  assumes "near s" and "80 * cursor_y s + cursor_x s < 8192" and "c \<noteq> 0x0A \<or> cursor_y s \<le> 24"
  shows "printed s (putc c s)"
  using putc_outside [OF assms(1,2)] putc_near [OF assms(1)] assms(3) by (auto simp: printed_def)

lemma fold_putc_printed:
  "near s \<Longrightarrow> fits_video putc cs s \<Longrightarrow> 0x0A \<notin> set cs \<Longrightarrow>
    printed s (fold putc cs s) \<and> (cs \<noteq> [] \<longrightarrow> cursor_y (fold putc cs s) \<le> 24)"
proof (induction cs arbitrary: s)
  case (Cons c cs)
  have f: "80 * cursor_y s + cursor_x s < 8192" "fits_video putc cs (putc c s)" using Cons.prems(2) by (simp_all add: fits_Cons)
  have p: "printed s (putc c s)" using putc_printed [OF Cons.prems(1) f(1)] Cons.prems(3) by auto
  have y: "cursor_y (putc c s) \<le> 24" using putc_near(1) [OF Cons.prems(1), of c] Cons.prems(3) by auto
  have "printed (putc c s) (fold putc cs (putc c s)) \<and> (cs \<noteq> [] \<longrightarrow> cursor_y (fold putc cs (putc c s)) \<le> 24)"
    by (rule Cons.IH) (use p f(2) Cons.prems(3) in \<open>simp_all add: printed_def\<close>)
  then show ?case using printed_trans [OF p] y by (cases cs) simp_all
qed (simp add: printed_def)

lemma fits_append:
  "fits_video put (xs @ ys) s \<longleftrightarrow> fits_video put xs s \<and> fits_video put ys (fold put xs s)"
proof (induction xs arbitrary: s)
  case Nil
  show ?case by (cases ys) (auto simp: fits_Cons)
qed (simp add: fits_Cons)

lemma fits_end: "fits_video put cs s \<Longrightarrow> 80 * cursor_y (fold put cs s) + cursor_x (fold put cs s) < 8192"
  by (auto simp: fits_video_def Let_def dest: spec [of _ "length cs"])

text \<open>Where text goes depends on the cursor alone.\<close>

lemma putc_cursor:
  "cursor_x s = cursor_x t \<Longrightarrow> cursor_y s = cursor_y t \<Longrightarrow>
    cursor_x (putc c s) = cursor_x (putc c t) \<and> cursor_y (putc c s) = cursor_y (putc c t)"
  by (simp add: putc_def Let_def scroll_if_needed_cursor)

lemma fits_same:
  "cursor_x s = cursor_x t \<Longrightarrow> cursor_y s = cursor_y t \<Longrightarrow> fits_video putc cs s = fits_video putc cs t"
proof (induction cs arbitrary: s t)
  case (Cons c cs)
  then show ?case using putc_cursor [of s t c] by (simp add: fits_Cons)
qed simp

lemma warn_fits_same:
  "cursor_x s = cursor_x t \<Longrightarrow> cursor_y s = cursor_y t \<Longrightarrow> fits_video warn_char cs s = fits_video warn_char cs t"
proof (induction cs arbitrary: s t)
  case (Cons c cs)
  have "cursor_x (warn_char c s) = cursor_x (warn_char c t) \<and> cursor_y (warn_char c s) = cursor_y (warn_char c t)"
    using Cons.prems putc_cursor [OF Cons.prems, of c] by (simp add: warn_char_def scroll_if_needed_cursor)
  then show ?case using Cons by (simp add: fits_Cons)
qed simp

lemma printed_kinv:
  "kinv L m0 fsa ext s \<Longrightarrow> printed s t \<Longrightarrow> 80 * cursor_y t + cursor_x t < 8192 \<Longrightarrow> kinv L m0 fsa ext t"
  using kinv_console [of L m0 fsa ext s t] by (simp add: printed_def on_video_near)

lemma max_message_kinv:
  assumes k: "kinv L m0 fsa ext s" and f: "fits_video putc max_message s"
  shows "kinv L m0 fsa ext (fold putc max_message s)"
proof -
  let ?t = "fold putc (chars ''Max number of processes reached'') s"
  have n: "near s" using kinvD(8) [OF k] by (simp add: on_video_near)
  have f1: "fits_video putc (chars ''Max number of processes reached'') s" "fits_video putc [0x0A] ?t"
    using f by (simp_all add: max_message_def fits_append)
  have p: "printed s ?t" "cursor_y ?t \<le> 24"
    using fold_putc_printed [OF n f1(1)] by (simp_all add: chars_def)
  have "printed ?t (putc 0x0A ?t)"
    by (rule putc_printed) (use p f1(2) in \<open>simp_all add: printed_def fits_Cons\<close>)
  then have "printed s (fold putc max_message s)"
    using printed_trans [OF p(1)] by (simp add: max_message_def)
  from printed_kinv [OF k this fits_end [OF f]] show ?thesis .
qed

lemma warn_char_printed:
  assumes "near s" and "80 * cursor_y s + cursor_x s < 8192"
  shows "printed s (warn_char c s)"
proof (cases "c \<ge> 32")
  case True
  then have "c \<noteq> 0x0A" by auto
  then have p: "printed s (putc c s)" using putc_printed [OF assms] by simp
  then have "printed (putc c s) (scroll_if_needed (putc c s))" by (intro scroll_printed) (simp add: printed_def)
  then show ?thesis using printed_trans [OF p] True by (simp add: warn_char_def)
qed (use scroll_printed [OF assms(1)] in \<open>simp add: warn_char_def\<close>)

lemma warning_kinv:
  assumes k: "kinv L m0 fsa ext s" and f: "fits_video warn_char cs s"
  shows "kinv L m0 fsa ext (fold warn_char cs s)"
proof -
  have "near s \<Longrightarrow> fits_video warn_char cs s \<Longrightarrow> printed s (fold warn_char cs s)" for s :: "'a kern_scheme"
  proof (induction cs arbitrary: s)
    case (Cons c cs)
    have p: "printed s (warn_char c s)" using warn_char_printed [OF Cons.prems(1)] Cons.prems(2) by (simp add: fits_Cons)
    then have "printed (warn_char c s) (fold warn_char cs (warn_char c s))"
      using Cons.IH [of "warn_char c s"] Cons.prems(2) by (simp add: fits_Cons printed_def)
    then show ?case using printed_trans [OF p] by simp
  qed (simp add: printed_def)
  then have "printed s (fold warn_char cs s)" using f kinvD(8) [OF k] by (simp add: on_video_near)
  from printed_kinv [OF k this fits_end [OF f]] show ?thesis .
qed

section \<open>execute\<close>

text \<open>The blocks the loader writes to.\<close>

lemma stack_block: "on_stack fr \<Longrightarrow> block_ok L (exec_buf fr) 4"
proof -
  assume f: "on_stack fr"
  have "in_region 0x7F4000 0x180C000 (exec_buf fr + of_nat i)" if "i < 4" for i
  proof -
    have u: "unat (exec_buf fr + of_nat i) = unat (exec_buf fr) + i"
      using f that by (simp add: on_stack_def unat_plus_if_size word_size unat_of_nat32)
    then show ?thesis using f that by (subst in_region_nowrap) (simp_all add: on_stack_def)
  qed
  then show ?thesis by (simp add: block_ok_def scratch_def)
qed

lemma unat_image_base: "p < 6 \<Longrightarrow> unat (image_base p) = 0x848000 + 0x400000 * p"
  unfolding image_base_def by (rule unat_of_nat32) simp

lemma image_block:
  assumes "p < 6" and "n \<le> 0x3B8000"
  shows "block_ok L (image_base p) n"
proof -
  have "in_region 0x7F4000 0x180C000 (image_base p + of_nat i)" if "i < n" for i
  proof -
    have "unat (image_base p + of_nat i) = unat (image_base p) + i"
      using assms that by (simp add: unat_image_base unat_plus_if_size word_size unat_of_nat32)
    then show ?thesis using assms that by (subst in_region_nowrap) (simp_all add: unat_image_base)
  qed
  then show ?thesis using assms by (simp add: block_ok_def scratch_def)
qed

lemma block_region: "block_ok L buf n \<Longrightarrow> in_region buf n x \<Longrightarrow> scratch L x"
proof -
  assume "block_ok L buf n" "in_region buf n x"
  then have "scratch L (buf + of_nat (unat (x - buf)))" unfolding block_ok_def in_region_def by blast
  then show ?thesis by simp
qed

lemma entry_apart:
  assumes h: "home_ok L fsa ext" and p: "p < 6" and n: "n \<le> 0x3B8000"
  shows "disjoint_region (entry_point L) 4 (image_base p) n"
proof -
  have "unat (entry_point L) + 4 \<le> 0x7F4000" "unat (image_base p) = 0x848000 + 0x400000 * p"
    using h p by (simp_all add: home_ok_def unat_image_base)
  then show ?thesis using p n by (auto simp: disjoint_region_def in_region_nowrap)
qed

text \<open>A file of the image that starts with the magic number can be loaded.\<close>

lemma entry_loadable:
  assumes k: "loose L m0 fsa ext s" and h: "home_ok L fsa ext" and p: "p < 6"
    and wf: "wf_file m0 fsa ext i" and len: "28 \<le> file_len m0 fsa i" "file_len m0 fsa i \<le> 0x3B8000"
  shows "loadable L ext i p s" and "contents (mem s) (start_fs s) i = contents m0 fsa i"
    and "file_len (mem s) (start_fs s) i = file_len m0 fsa i" and "wf_file (mem s) (start_fs s) ext i"
proof -
  note same = image_eq_file [OF wf loose_image [OF k h]]
  note fs = looseD(6) [OF k]
  show "contents (mem s) (start_fs s) i = contents m0 fsa i" "file_len (mem s) (start_fs s) i = file_len m0 fsa i"
    "wf_file (mem s) (start_fs s) ext i" using same by (simp_all add: fs)
  have "disjoint_region fsa ext (image_base p) (file_len m0 fsa i)" by (rule block_apart [OF h image_block [OF p len(2)]])
  then show "loadable L ext i p s"
    using same len entry_apart [OF h p len(2)] h by (simp add: loadable_def Let_def fs home_ok_def)
qed

text \<open>What the kernel has before the first program runs: no page of a program yet.\<close>

definition calm :: "klayout \<Rightarrow> mem \<Rightarrow> u32 \<Rightarrow> nat \<Rightarrow> 'a kern_scheme \<Rightarrow> bool" where
  "calm L m0 fsa ext s \<longleftrightarrow> fds_ok s \<and> cursors s \<and> files_ok m0 fsa ext s \<and>
     start_fs s = fsa \<and> (\<forall>x. \<not> scratch L x \<longrightarrow> mem s x = m0 x) \<and>
     (\<forall>a < 3. vid_mem (terms s ! a) = of_nat (0xB9000 + 0x1000 * a)) \<and>
     (\<forall>a < 3. been_here (terms s ! a) \<noteq> 1 \<longrightarrow> running_pcb (terms s ! a) = None) \<and>
     (\<forall>p. unat (process_num (pcbs s p)) < 6) \<and> (\<forall>i. bit (processes s) i \<longrightarrow> i < 6)"

lemma loose_calm: "loose L m0 fsa ext s \<Longrightarrow> calm L m0 fsa ext s"
  by (simp add: loose_def calm_def settled_def)

lemma calmD:
  assumes "calm L m0 fsa ext s"
  shows "fds_ok s" "kern_shape s" "cursors s" "files_ok m0 fsa ext s" "start_fs s = fsa"
    "\<not> scratch L x \<Longrightarrow> mem s x = m0 x"
    "a < 3 \<Longrightarrow> vid_mem (terms s ! a) = of_nat (0xB9000 + 0x1000 * a)"
    "a < 3 \<Longrightarrow> been_here (terms s ! a) \<noteq> 1 \<Longrightarrow> running_pcb (terms s ! a) = None"
    "unat (process_num (pcbs s p)) < 6" "bit (processes s) i \<Longrightarrow> i < 6"
  using assms by (auto simp: calm_def fds_ok_def)

text \<open>A program is started: its page is mapped, and it is in front.\<close>

lemma started_kinv:
  assumes k: "calm L m0 fsa ext s" and h: "home_ok L fsa ext" and fr: "on_stack fr" and p: "p < 6"
    and len: "length prog \<le> 0x3B8000" and st: "started L fr nm ar prog p video s t"
  shows "kinv L m0 fsa ext t"
proof -
  let ?c = "unat (current_terminal s)"
  have c: "?c < length (terms s)" "length (terms s) = 3" using calmD(2) [OF k] by (simp_all add: kern_shape_def)
  note st' = st [unfolded started_def Let_def]
  have tm: "terms t = (terms s)[?c := (terms s ! ?c)\<lparr>running_pcb := Some p, been_here := 1\<rparr>]"
    "current_terminal t = current_terminal s" and pr: "processes t = processes s OR push_bit p 1"
    and v: "paging_view (layout.truncate L) t (Some p) video" using st' by blast+
  obtain fds where fds: "pcbs t = (pcbs s)(p := (new_pcb fr p nm ar (terms s ! ?c) (pcbs s p))\<lparr>fd_array := fds\<rparr>)"
    "\<forall>fd \<ge> 2. fds ! fd = fd_array (pcbs s p) ! fd" using st' by blast
  have ok: "fds_ok t" using st' calmD(1) [OF k] by blast
  have pn: "process_num (pcbs t q) = (if q = p then of_nat p else process_num (pcbs s q))" for q
    by (simp add: fds(1) new_pcb_def)
  have p6: "unat (of_nat p :: u32) = p" using p by (intro unat_of_nat32) simp
  have m: "mem t x = m0 x" if x: "\<not> scratch L x" for x
  proof -
    have "\<not> in_region (exec_buf fr) 4 x" "\<not> in_region (image_base p) (length prog) x"
      using block_region [OF stack_block [OF fr], where L = L] block_region [OF image_block [OF p len], where L = L] x by blast+
    moreover have "\<not> in_region (entry_point L) 4 x" using x by (simp add: scratch_def)
    ultimately show ?thesis using st' calmD(6) [OF k x] by simp
  qed
  have "settled L m0 fsa t"
    unfolding settled_def
  proof (intro conjI)
    show "start_fs t = fsa" using st' calmD(5) [OF k] by simp
    show "\<forall>x. \<not> scratch L x \<longrightarrow> mem t x = m0 x" using m by blast
    show "\<forall>a < 3. vid_mem (terms t ! a) = of_nat (0xB9000 + 0x1000 * a)"
      "\<forall>a < 3. been_here (terms t ! a) \<noteq> 1 \<longrightarrow> running_pcb (terms t ! a) = None"
      using calmD(7,8) [OF k] c by (simp_all add: tm nth_list_update)
    show "\<forall>q. unat (process_num (pcbs t q)) < 6" using calmD(9) [OF k] p p6 by (simp add: pn)
    show "\<forall>i. bit (processes t) i \<longrightarrow> i < 6" using calmD(10) [OF k] p by (auto simp: pr bit_simps)
    show "\<exists>q video. q < 6 \<and> paging_view (layout.truncate L) t (Some q) video" using p v by blast
  qed
  moreover have "cursors t"
  proof -
    have "cursor_x t = cursor_x s" "cursor_y t = cursor_y s" using st' by blast+
    moreover have "on_video (term_cursor_x u) (term_cursor_y u)" if u: "u \<in> set (terms t)" for u
    proof -
      have "u = (terms s ! ?c)\<lparr>running_pcb := Some p, been_here := 1\<rparr> \<or> u \<in> set (terms s)"
        using u set_update_subset_insert unfolding tm(1) by fast
      then show ?thesis using calmD(3) [OF k] c(1) by (auto simp: cursors_def)
    qed
    ultimately show ?thesis using calmD(3) [OF k] by (simp add: cursors_def)
  qed
  moreover have "files_ok m0 fsa ext t"
    unfolding files_ok_def
  proof (intro allI impI)
    fix q fd :: nat assume fd: "fd < 8"
    show "file_ok m0 fsa ext (fd_array (pcbs t q) ! fd)"
    proof (cases "fd < 2")
      case True
      have "fd_ok fd (fd_array (pcbs t q) ! fd)" using ok fd by (simp add: fds_ok_def)
      then show ?thesis using True by (auto simp: fd_ok_def file_ok_def)
    next
      case False
      then have "fd_array (pcbs t q) ! fd = fd_array (pcbs s q) ! fd" using fds by simp
      then show ?thesis using calmD(4) [OF k] fd by (simp add: files_ok_def)
    qed
  qed
  ultimately have "loose L m0 fsa ext t" using ok by (simp add: loose_def)
  moreover have "front_mapped L t"
    by (rule front_view [OF v]) (use h c in \<open>auto simp: home_ok_def cur_pcb_def cur_term_def tm aget_in pn p6\<close>)
  ultimately show ?thesis by (simp add: kinv_loose)
qed

text \<open>The ways a call ends, with what holds then.\<close>

definition ends :: "('a kern_scheme \<Rightarrow> bool) \<Rightarrow> 'a kern_scheme outcome \<Rightarrow> bool" where
  "ends P out \<longleftrightarrow> (case out of Return v t \<Rightarrow> P t | Enter_user e t \<Rightarrow> P t | Resume a b t \<Rightarrow> P t)"

lemma ends_simps [simp]:
  "ends P (Return v t) = P t" "ends P (Enter_user e t) = P t" "ends P (Resume a b t) = P t"
  by (simp_all add: ends_def)

lemma parse_command_short:
  assumes "parse_command cmd = Some na"
  shows "\<exists>xs. c_str cmd xs \<and> length xs < 32"
proof -
  obtain n where "strlen cmd = Some n"
    using assms by (subst (asm) parse_command_def, subst (asm) parse_loop.simps) (auto split: Option.bind_splits)
  then obtain xs where xs: "c_str cmd xs" using strlen_Some by blast
  moreover have "length xs < 32" using assms parse_command_overflow [OF xs] by (metis not_le option.distinct(1))
  ultimately show ?thesis by blast
qed

lemma peeked_kinv:
  assumes k: "kinv L m0 fsa ext s" and fr: "on_stack fr"
  shows "kinv L m0 fsa ext (peeked fr i s)"
proof -
  have "kinv L m0 fsa ext (cli s)" using k by simp
  moreover have "length (take 4 (contents (mem s) (start_fs s) i)) \<le> 4" by simp
  ultimately show ?thesis
    unfolding peeked_def using kinv_write [OF _ stack_block [OF fr], of L m0 fsa ext "cli s"] by simp
qed

lemma all_taken_bits: "\<forall>i. bit (v :: u8) i \<longrightarrow> i < 6 \<Longrightarrow> free_slots 0 v = [] \<Longrightarrow> v = 0x3F"
proof (rule bit_word_eqI)
  fix n assume a: "\<forall>i. bit v i \<longrightarrow> i < 6" "free_slots 0 v = []" and "n < LENGTH(8)"
  have "bit v n \<longleftrightarrow> n < 6" using a by (auto simp: free_slots_def filter_empty_conv)
  moreover have "(0x3F :: u8) = mask 6" by (simp add: mask_eq_exp_minus_1)
  ultimately show "bit v n \<longleftrightarrow> bit (0x3F :: u8) n" by (simp only: bit_mask_iff) auto
qed

lemma execute_kinv:
  assumes k: "kinv L m0 fsa ext s" and h: "home_ok L fsa ext" and io: "image_ok m0 fsa ext" and fr: "on_stack fr"
    and f: "processes s = 0x3F \<Longrightarrow> fits_video putc max_message s" and ex: "execute L dev fr cmd s = Some out"
  shows "ends (kinv L m0 fsa ext) out"
proof (cases "out = Return (- 1) (cli s)")
  case False
  then obtain c where c: "cmd = Some c" using ex by (cases cmd) (simp_all add: execute_null)
  have "parse_command c \<noteq> None" using ex c by (cases "parse_command c") (simp_all add: execute_def Let_def)
  then obtain xs where xs: "c_str c xs" "length xs < 32" using parse_command_short by blast
  note nf = execute_not_found [OF xs, of s L dev fr]
  have nm: "cmd_name xs \<noteq> []" using nf False ex c by auto
  then obtain d where d: "found (cmd_name xs) s = Some d" using nf False ex c by (cases "found (cmd_name xs) s") auto
  have z: "0 \<notin> set (cmd_name xs)" "0 \<notin> set (cmd_args xs)" using cmd_no_zero [of xs] xs(1) by (simp_all add: c_str_def)
  have l: "length (cmd_name xs) < 32" "length (cmd_args xs) < 95" using cmd_lengths [of xs] xs(2) by simp_all
  have rd: "read_dentry_by_name (mem s) (start_fs s) (Some (aget (pad 32 (cmd_name xs)))) = Some (0, Some d)"
    using found_read [OF z(1) l(1) nm, of s] d by simp
  have lo: "loose L m0 fsa ext s" using k by (simp add: kinv_loose)
  note fs = looseD(6) [OF lo]
  note ent = entry_file [OF lo h io rd]
  note same = image_eq_file [OF ent(1) loose_image [OF lo h]]
  have pos: "file_len m0 fsa (inode_num d) \<noteq> 0"
  proof
    assume "file_len m0 fsa (inode_num d) = 0"
    then have "file_len (mem s) (start_fs s) (inode_num d) = 0" using same by (simp add: fs)
    then have "read_data (mem s) (start_fs s) (inode_num d) 0 (exec_buf fr) 4 = (- 1, mem s)" by (rule read_data_empty)
    moreover have "start_fs (cli s) = start_fs s" "(cli s)\<lparr>mem := mem s\<rparr> = cli s" by (simp_all add: cli_def)
    ultimately have "execute L dev fr (Some c) s = Some (Return (- 1) (cli s))"
      using rd by (simp add: execute_def parse_command_splits [OF xs] Let_def)
    then show False using False ex c by simp
  qed
  let ?p = "peeked fr (inode_num d) s"
  have dis: "disjoint_region fsa ext (exec_buf fr) 4" by (rule block_apart [OF h stack_block [OF fr]])
  have ch: "execute L dev fr (Some c) s =
    (if take 4 (contents m0 fsa (inode_num d)) \<noteq> EXEC_BITS then Some (Return (- 1) ?p)
     else if processes s = 0x3F then Some (Return (- 10) (fold putc max_message ?p))
     else start_process L dev fr (pad 32 (cmd_name xs)) (pad 95 (cmd_args xs)) (inode_num d) ?p)"
    using execute_checks [OF xs nm d, of ext fr L dev] same ent(1,2) dis pos by (simp add: fs max_message_def)
  have kp: "kinv L m0 fsa ext ?p" by (rule peeked_kinv [OF k fr])
  consider "out = Return (- 1) ?p" | "processes s = 0x3F" "out = Return (- 10) (fold putc max_message ?p)"
    | "take 4 (contents m0 fsa (inode_num d)) = EXEC_BITS" "processes s \<noteq> 0x3F"
      "start_process L dev fr (pad 32 (cmd_name xs)) (pad 95 (cmd_args xs)) (inode_num d) ?p = Some out"
    using ex c ch by (auto split: if_splits)
  then show ?thesis
  proof cases
    case 2
    have "fits_video putc max_message ?p" using f [OF 2(1)] fits_same [of ?p s] by (simp add: peeked_def cli_def)
    then show ?thesis using max_message_kinv [OF kp] by (simp add: 2(2))
  next
    case 3
    have lp: "loose L m0 fsa ext ?p" using kp by (simp add: kinv_loose)
    have fits: "28 \<le> file_len m0 fsa (inode_num d)" "file_len m0 fsa (inode_num d) \<le> 0x3B8000"
      using ent(3) [OF 3(1)] by simp_all
    have "free_slots 0 (processes ?p) \<noteq> []"
      using 3(2) all_taken_bits looseD(3) [OF lo] by (auto simp: settled_def)
    then obtain p ps where ps: "free_slots 0 (processes ?p) = p # ps" by (cases "free_slots 0 (processes ?p)") auto
    then have p: "p < 6" by (auto simp: free_slots_def dest!: arg_cong [where f = set])
    note ld = entry_loadable [OF lp h p ent(1) fits]
    obtain q v where q: "paging_view (layout.truncate L) ?p (Some q) v" using looseD(3) [OF lp] by (auto simp: settled_def)
    have M: "layout_ok (layout.truncate L)" using h by (simp add: home_ok_def)
    obtain t where t: "out = Enter_user (le_word (take 4 (drop 24 (contents m0 fsa (inode_num d))))) t"
      "started L fr (cmd_name xs) (cmd_args xs) (contents m0 fsa (inode_num d)) p v ?p t"
      using start_process_starts [OF looseD(2) [OF lp] M q ps ld(1) z(1) l(1) z(2) l(2), of dev fr] 3(3)
      unfolding ld(2) by auto
    show ?thesis using started_kinv [OF loose_calm [OF lp] h fr p _ t(2)] fits(2) by (simp add: t(1))
  qed (use kp in simp)
qed (use k in simp)

section \<open>halt\<close>

lemma kinv_processes:
  assumes k: "kinv L m0 fsa ext s" and v: "\<forall>i. bit v i \<longrightarrow> i < 6"
  shows "kinv L m0 fsa ext (s\<lparr>processes := v\<rparr>)"
proof -
  have pv: "paging_view M (s\<lparr>processes := v\<rparr>) i w = paging_view M s i w" for M i w by (simp add: paging_view_def)
  have c: "cur_pcb (s\<lparr>processes := v\<rparr>) = cur_pcb s" by (simp add: cur_pcb_def cur_term_def)
  have "loose L m0 fsa ext (s\<lparr>processes := v\<rparr>)"
    using k v by (simp add: kinv_loose loose_def fds_ok_def kern_shape_def settled_def pv cursors_def files_ok_def)
  moreover have "front_mapped L (s\<lparr>processes := v\<rparr>)"
    using k by (simp add: kinv_loose front_mapped_def pv c)
  ultimately show ?thesis by (simp add: kinv_loose)
qed

lemma close_from_kinv:
  "kinv L m0 fsa ext s \<Longrightarrow> close_from fds s = Some t \<Longrightarrow> kinv L m0 fsa ext t"
proof (induction fds arbitrary: s)
  case (Cons i fds)
  obtain d where "cur_fd s i = Some d" using Cons.prems(2) by (cases "cur_fd s i") simp_all
  then obtain s1 where s1: "(if in_use d = 1 then map_option snd (sys_close (of_nat i) s) else Some s) = Some s1"
    "close_from fds s1 = Some t" using Cons.prems(2) by (auto simp only: close_from.simps Option.bind.simps bind_eq_Some_conv)
  have "kinv L m0 fsa ext s1"
    using s1(1) Cons.prems(1) sys_close_kinv [OF Cons.prems(1)] by (auto split: if_splits)
  then show ?case using Cons.IH s1(2) by blast
qed simp

lemma kinv_names:
  assumes k: "kinv L m0 fsa ext s"
  shows "kinv L m0 fsa ext (set_pcb p (\<lambda>b. b\<lparr>args := replicate 95 0, pname := replicate 32 0\<rparr>) s)"
proof -
  let ?t = "set_pcb p (\<lambda>b. b\<lparr>args := replicate 95 0, pname := replicate 32 0\<rparr>) s"
  have a: "fd_array (pcbs ?t q) = fd_array (pcbs s q)" for q by (simp add: set_pcb_def)
  show ?thesis
  proof (rule kinv_quiet [OF k])
    show "quiet L s ?t" by (simp add: quiet_def set_pcb_def)
    show "fds_ok ?t"
      using kinvD(1) [OF k] unfolding fds_ok_def a by (simp add: kern_shape_def pcb_shape_def set_pcb_def)
    show "cursors ?t" using kinvD(4) [OF k] by (simp add: cursors_def set_pcb_def)
    show "files_ok m0 fsa ext ?t" using kinvD(5) [OF k] unfolding files_ok_def a .
  qed
qed

text \<open>A change of the terminal in front, as far as the page tables do not matter.\<close>

lemma loose_set_term:
  assumes k: "loose L m0 fsa ext s" and t: "set_term f s = Some t"
    and f: "\<And>u. vid_mem (f u) = vid_mem u" "\<And>u. been_here (f u) = been_here u" "\<And>u. keyboard_buffer (f u) = keyboard_buffer u"
      "\<And>u. term_cursor_x (f u) = term_cursor_x u" "\<And>u. term_cursor_y (f u) = term_cursor_y u"
    and b: "been_here (terms s ! unat (current_terminal s)) = 1"
  shows "loose L m0 fsa ext t"
proof -
  let ?c = "unat (current_terminal s)"
  have s': "t = s\<lparr>terms := (terms s)[?c := f (terms s ! ?c)]\<rparr>" by (rule set_term_parts [OF looseD(2) [OF k] t])
  have c: "?c < length (terms s)" "length (terms s) = 3" using looseD(2) [OF k] by (simp_all add: kern_shape_def)
  have sub: "u = f (terms s ! ?c) \<or> u \<in> set (terms s)" if "u \<in> set (terms t)" for u
    using that set_update_subset_insert [of "terms s" ?c "f (terms s ! ?c)"] by (auto simp: s')
  have in_c: "terms s ! ?c \<in> set (terms s)" using c by simp
  have "length (keyboard_buffer u) = 128" if "u \<in> set (terms t)" for u
    using sub [OF that] in_c looseD(2) [OF k] f(3) by (auto simp: kern_shape_def)
  then have "fds_ok t" using looseD(1) [OF k] by (simp add: s' fds_ok_def kern_shape_def)
  moreover have "settled L m0 fsa t"
    unfolding settled_def
  proof (intro conjI)
    show "\<forall>a < 3. vid_mem (terms t ! a) = of_nat (0xB9000 + 0x1000 * a)"
      "\<forall>a < 3. been_here (terms t ! a) \<noteq> 1 \<longrightarrow> running_pcb (terms t ! a) = None"
      using looseD(3) [OF k] c f(1,2) b by (simp_all add: s' settled_def nth_list_update)
  qed (use looseD(3) [OF k] in \<open>simp_all add: settled_def s' paging_view_def\<close>)
  moreover have "on_video (term_cursor_x u) (term_cursor_y u)" if "u \<in> set (terms t)" for u
    using sub [OF that] in_c looseD(4) [OF k] f(4,5) by (auto simp: cursors_def)
  then have "cursors t" using looseD(4) [OF k] by (simp add: cursors_def s')
  moreover have "files_ok m0 fsa ext t" using looseD(5) [OF k] by (simp add: files_ok_def s')
  ultimately show ?thesis by (simp add: loose_def)
qed

text \<open>The page of programs is changed to that of the process in front.\<close>

lemma load_front_kinv:
  assumes k: "loose L m0 fsa ext s" and h: "home_ok L fsa ext" and q: "cur_pcb s = Some q"
    and t: "load_new_process (layout.truncate L) (process_num (pcbs s q)) s = Some t"
  shows "kinv L m0 fsa ext t"
proof -
  define n where "n = unat (process_num (pcbs s q))"
  have M: "layout_ok (layout.truncate L)" using h by (simp add: home_ok_def)
  have n: "n < 6" "process_num (pcbs s q) = of_nat n" using looseD(3) [OF k] by (simp_all add: settled_def n_def)
  obtain p v where pv: "paging_view (layout.truncate L) s (Some p) v" using looseD(3) [OF k] by (auto simp: settled_def)
  have n8: "n < 8" using n(1) by simp
  have vt: "paging_view (layout.truncate L) t (Some n) v" by (rule load_new_process_view [OF pv M n8]) (use t n in simp)
  have te: "t = set_control_registers (layout.truncate L) 0 (set_pde 0 32 (push_bit 22 (of_nat (n + 2)) OR 0x87) s)"
    using t load_new_process_eq [OF n8, of "layout.truncate L" s] by (simp only: n(2) option.inject)
  have fr: "paging.more t = paging.more s" "mem t = mem s" "cursor_x t = cursor_x s" "cursor_y t = cursor_y s"
    unfolding te by (simp_all add: set_control_registers_def load_registers_def set_pde_def)
  have "front_mapped L t"
    by (rule front_view [OF vt M]) (use paging_current [OF fr(1)] q in \<open>simp add: n_def\<close>)
  then show ?thesis using loose_paging [OF k fr vt n(1)] by (simp add: kinv_loose)
qed

lemma parent_kinv:
  assumes k: "kinv L m0 fsa ext s" and h: "home_ok L fsa ext"
    and b: "been_here (terms s ! unat (current_terminal s)) = 1"
    and t: "set_term (\<lambda>t. t\<lparr>running_pcb := Some q\<rparr>) (s\<lparr>old_ebp := x, old_esp := y\<rparr>) = Some s3"
    and l: "load_new_process (layout.truncate L) (process_num (pcbs s3 q)) s3 = Some s4"
  shows "kinv L m0 fsa ext s4"
proof -
  let ?s = "s\<lparr>old_ebp := x, old_esp := y\<rparr>"
  have l2: "loose L m0 fsa ext ?s" using k kinv_loose [of L m0 fsa ext ?s] by simp
  have "been_here (terms ?s ! unat (current_terminal ?s)) = 1" using b by simp
  from loose_set_term [OF l2 t _ _ _ _ _ this] have l3: "loose L m0 fsa ext s3" by simp
  have "cur_pcb s3 = Some q"
    using set_term_parts [OF looseD(2) [OF l2] t] looseD(2) [OF l2]
    by (simp add: cur_pcb_def cur_term_def aget_in kern_shape_def)
  from load_front_kinv [OF l3 h this l] show ?thesis .
qed

lemma slot_free:
  assumes "n < 6" and "v = w AND process_clear_bitmasks ! n"
  shows "v \<noteq> 0x3F"
proof
  assume e: "v = 0x3F"
  have "\<not> bit v n" using clear_bitmask(2) [OF assms(1), of w n] by (simp add: assms(2))
  moreover have "n = 0 \<or> n = 1 \<or> n = 2 \<or> n = 3 \<or> n = 4 \<or> n = 5" using assms(1) by linarith
  ultimately show False unfolding e by (auto simp: bit_numeral_word_iff)
qed

lemma halt_kinv:
  assumes k: "kinv L m0 fsa ext s" and h: "home_ok L fsa ext" and io: "image_ok m0 fsa ext" and fr: "on_stack fr"
    and t: "halt L dev fr status s = Some out"
  shows "ends (kinv L m0 fsa ext) out"
proof -
  let ?s0 = "cli s" and ?c = "unat (current_terminal s)"
  have k0: "kinv L m0 fsa ext ?s0" using k by simp
  have ct: "cur_term ?s0 = Some (terms s ! ?c)" using cur_term_shape [OF kinvD(2) [OF k0]] by (simp add: cli_def)
  show ?thesis
  proof (cases "running_pcb (terms s ! ?c)")
    case None
    then have "out = Return (- 1) (cli s)" using t ct by (simp add: halt_def)
    then show ?thesis using k by simp
  next
    case (Some p)
    define n where "n = unat (process_num (pcbs s p))"
    have n: "n < 6" using kinvD(3) [OF k] by (simp add: settled_def n_def)
    define s1 where "s1 = ?s0\<lparr>processes := processes s AND process_clear_bitmasks ! n\<rparr>"
    have k1: "kinv L m0 fsa ext s1"
      unfolding s1_def by (rule kinv_processes [OF k0]) (use clear_bitmask(2) [OF n] in blast)
    have "cur_pcb s1 = Some p" using ct Some by (simp add: s1_def cur_pcb_def) (simp add: cur_term_def)
    from close_from_closes [OF kinvD(1) [OF k1] this, of 0]
    obtain a where a: "close_from [0..<8] s1 = Some (set_pcb p (\<lambda>b. b\<lparr>fd_array := a\<rparr>) s1)" by auto
    define s2 where "s2 = set_pcb p (\<lambda>b. b\<lparr>args := replicate 95 0, pname := replicate 32 0\<rparr>) (set_pcb p (\<lambda>b. b\<lparr>fd_array := a\<rparr>) s1)"
    have k2: "kinv L m0 fsa ext s2" unfolding s2_def by (intro kinv_names close_from_kinv [OF k1 a])
    have f2: "terms s2 = terms s" "current_terminal s2 = current_terminal s"
      "processes s2 = processes s AND process_clear_bitmasks ! n" by (simp_all add: s2_def s1_def set_pcb_def cli_def)
    have np: "processes s2 \<noteq> 0x3F" by (rule slot_free [OF n f2(3)])
    define home where "home = (if process_num (pcbs s2 p) = 0 \<or> term_start (pcbs s2 p) = 1
       then execute L dev fr (Some (c_lit ''shell'')) s2
       else Option.bind (set_term (\<lambda>t. t\<lparr>running_pcb := parent_pcb (pcbs s2 p)\<rparr>)
              (s2\<lparr>old_ebp := parent_bp (pcbs s2 p), old_esp := parent_sp (pcbs s2 p)\<rparr>)) (\<lambda>s3.
            Option.bind (parent_pcb (pcbs s2 p)) (\<lambda>q. map_option (Return 0)
              (load_new_process (layout.truncate L) (process_num (pcbs s3 q)) s3))))"
    have bk: "ends (kinv L m0 fsa ext) o1" if o1: "home = Some o1" for o1
    proof (cases "process_num (pcbs s2 p) = 0 \<or> term_start (pcbs s2 p) = 1")
      case True
      then have "execute L dev fr (Some (c_lit ''shell'')) s2 = Some o1" using o1 by (simp add: home_def)
      from execute_kinv [OF k2 h io fr _ this] np show ?thesis by blast
    next
      case False
      let ?s2 = "s2\<lparr>old_ebp := parent_bp (pcbs s2 p), old_esp := parent_sp (pcbs s2 p)\<rparr>"
      obtain s3 q s4 where s3: "set_term (\<lambda>t. t\<lparr>running_pcb := parent_pcb (pcbs s2 p)\<rparr>) ?s2 = Some s3"
        "parent_pcb (pcbs s2 p) = Some q" "load_new_process (layout.truncate L) (process_num (pcbs s3 q)) s3 = Some s4"
        "o1 = Return 0 s4"
        using o1 False by (auto simp: home_def split: Option.bind_splits)
      have "been_here (terms s2 ! unat (current_terminal s2)) = 1"
        using kinvD(3) [OF k] kinvD(2) [OF k] Some f2 by (auto simp: settled_def kern_shape_def)
      from parent_kinv [OF k2 h this _ s3(3)] s3(1,2) show ?thesis by (simp add: s3(4))
    qed
    have "Option.bind home (\<lambda>out. case out of
        Return r s4 \<Rightarrow> Option.bind (cur_pcb s4) (\<lambda>q.
            let s5 = sti (s4\<lparr>tss_esp0 := kernel_stack_top (unat (process_num (pcbs s4 q)))\<rparr>)
            in Some (Resume (old_esp s5) (old_ebp s5) s5))
      | Enter_user e s4 \<Rightarrow> Some (Enter_user e s4) | Resume a b s4 \<Rightarrow> Some (Resume a b s4)) = Some out"
    proof -
      have m: "aget process_clear_bitmasks (unat (process_num (pcbs (cli s) p))) = Some (process_clear_bitmasks ! n)"
        using clear_bitmask(1) [OF n] by (simp add: n_def cli_def)
      have a': "close_from [0..<8] ((cli s)\<lparr>processes := processes (cli s) AND process_clear_bitmasks ! n\<rparr>) =
          Some (set_pcb p (\<lambda>b. b\<lparr>fd_array := a\<rparr>) s1)" using a by (simp add: s1_def cli_def)
      show ?thesis
        using t unfolding halt_def Let_def ct Option.bind.simps Some option.case m a' s2_def [symmetric] home_def .
    qed
    then obtain o1 where o1: "home = Some o1"
      "(case o1 of Return r s4 \<Rightarrow> Option.bind (cur_pcb s4) (\<lambda>q.
            let s5 = sti (s4\<lparr>tss_esp0 := kernel_stack_top (unat (process_num (pcbs s4 q)))\<rparr>)
            in Some (Resume (old_esp s5) (old_ebp s5) s5))
      | Enter_user e s4 \<Rightarrow> Some (Enter_user e s4) | Resume a b s4 \<Rightarrow> Some (Resume a b s4)) = Some out"
      by (auto simp: bind_eq_Some_conv)
    show ?thesis
      using bk [OF o1(1)] o1(2) by (cases o1) (auto simp: Let_def split: Option.bind_splits)
  qed
qed

end
