(* ===== verification/Kernel_Keys.thy ===== *)
theory Kernel_Keys
  imports Kernel_Exec
begin

text \<open>
  The keyboard interrupt keeps the invariant of \<open>Kernel_Inv\<close>: a key writes on the screen and to
  the line buffer, and a request for another terminal saves the one screen, shows the other and
  maps the page of the program that runs there, or starts a shell.
\<close>

section \<open>Switching\<close>

lemma screens_in_video:
  assumes "a < 3" and "in_region (of_nat (0xB9000 + 0x1000 * a)) 4000 x \<or> in_region VIDEO 4000 x"
  shows "in_video x"
proof -
  have "unat (of_nat (0xB9000 + 0x1000 * a) :: u32) = 0xB9000 + 0x1000 * a"
    using assms(1) by (intro unat_of_nat32) simp
  then show ?thesis using assms by (auto simp: in_video_def in_region_nowrap VIDEO_def)
qed

lemma kinv_more_frame [simp]:
  "kinv L m0 fsa ext (clear_screen s) = kinv L m0 fsa ext (clear ((move_cursor_to 0 0 (s\<lparr>cursor_x := 0, cursor_y := 0\<rparr>))\<lparr>ctrl_pressed := 0\<rparr>))"
  by (simp add: clear_screen_def Let_def)

lemma kinv_move [simp]: "kinv L m0 fsa ext (move_cursor_to x y s) = kinv L m0 fsa ext s"
  by (simp add: move_cursor_to_def)

lemma clear_screen_kinv:
  assumes k: "kinv L m0 fsa ext s"
  shows "kinv L m0 fsa ext (clear_screen s)" and "cursor_x (clear_screen s) = 0" and "cursor_y (clear_screen s) = 0"
proof -
  let ?s = "(move_cursor_to 0 0 (s\<lparr>cursor_x := 0, cursor_y := 0\<rparr>))\<lparr>ctrl_pressed := 0\<rparr>"
  have k1: "kinv L m0 fsa ext ?s" using kinv_cursor [OF k, of 0 0] by (simp add: on_video_def)
  have "kinv L m0 fsa ext (clear ?s)"
    by (rule kinv_console [OF k1]) (use screen_in_video in \<open>auto simp: clear_mem filled_outside on_video_def\<close>)
  then show "kinv L m0 fsa ext (clear_screen s)" by simp
  show "cursor_x (clear_screen s) = 0" "cursor_y (clear_screen s) = 0"
    by (simp_all add: clear_screen_def Let_def clear_mem)
qed

lemma save_terminal_kinv:
  assumes k: "kinv L m0 fsa ext s" and t: "save_terminal fr s = Some t"
  shows "kinv L m0 fsa ext t" and "map been_here (terms t) = map been_here (terms s)"
proof -
  let ?c = "unat (current_terminal s)"
  let ?v = "vid_mem (terms s ! ?c)"
  let ?s = "s\<lparr>mem := memcpy (mem s) ?v VIDEO 4000, esp_store := esp fr, ebp_store := ebp fr\<rparr>"
  have c: "?c < 3" using kinvD(2) [OF k] by (simp add: kern_shape_def)
  have v: "?v = of_nat (0xB9000 + 0x1000 * ?c)" using kinvD(3) [OF k] c by (simp add: settled_def)
  have "\<not> scratch L x \<Longrightarrow> memcpy (mem s) ?v VIDEO 4000 x = mem s x" for x
    using screens_in_video [OF c, of x] by (intro memcpy_frame) (auto simp: scratch_def v)
  then have ks: "kinv L m0 fsa ext ?s" using kinv_mem [OF k] by simp
  have t1: "set_term (\<lambda>t. t\<lparr>keyboard_buffer := input_buffer s, term_cursor_x := cursor_x s, term_cursor_y := cursor_y s,
      current_esp := esp fr, current_ebp := ebp fr, esp0 := tss_esp0 s\<rparr>) ?s = Some t"
    using t cur_term_shape [OF kinvD(2) [OF k]] by (simp add: save_terminal_def Let_def)
  show "kinv L m0 fsa ext t"
    by (rule kinv_set_term [OF ks t1])
      (use kinvD(2,8) [OF k] in \<open>simp_all add: kern_shape_def\<close>)
  have p: "t = ?s\<lparr>terms := (terms ?s)[unat (current_terminal ?s) := (terms ?s ! unat (current_terminal ?s))
      \<lparr>keyboard_buffer := input_buffer s, term_cursor_x := cursor_x s, term_cursor_y := cursor_y s,
       current_esp := esp fr, current_ebp := ebp fr, esp0 := tss_esp0 s\<rparr>]\<rparr>"
    by (rule set_term_parts [OF kinvD(2) [OF ks] t1])
  show "map been_here (terms t) = map been_here (terms s)" by (simp add: p map_update_same)
qed

lemma loose_current:
  assumes "loose L m0 fsa ext s" and "unat trm < 3"
  shows "loose L m0 fsa ext (s\<lparr>current_terminal := trm\<rparr>)"
  using assms by (simp add: loose_def fds_ok_def kern_shape_def settled_def cursors_def files_ok_def paging_view_def)

text \<open>Text that is short enough ends on the screen.\<close>

lemma fits_short:
  "0 \<le> cursor_x s \<Longrightarrow> 0 \<le> cursor_y s \<Longrightarrow> 80 * cursor_y s + cursor_x s + 81 * int (length cs) < 8192 \<Longrightarrow> fits_video putc cs s"
proof (induction cs arbitrary: s)
  case (Cons c cs)
  have "0 \<le> cursor_x (putc c s)" "0 \<le> cursor_y (putc c s)"
    "80 * cursor_y (putc c s) + cursor_x (putc c s) \<le> 80 * cursor_y s + cursor_x s + 81"
    using Cons.prems(1,2) by (auto simp: putc_def Let_def scroll_if_needed_cursor)
  then show ?case using Cons by (simp add: fits_Cons)
qed simp

lemma restore_terminal_kinv:
  assumes k: "loose L m0 fsa ext s" and h: "home_ok L fsa ext" and t: "restore_terminal L s = Some out"
  shows "ends (kinv L m0 fsa ext) out"
proof -
  let ?c = "unat (current_terminal s)"
  let ?t = "terms s ! ?c"
  define s1 where "s1 = s\<lparr>mem := memcpy (mem s) VIDEO (vid_mem ?t) 4000, input_buffer := keyboard_buffer ?t,
    cursor_x := term_cursor_x ?t, cursor_y := term_cursor_y ?t\<rparr>"
  define s3 where "s3 = (move_cursor_to (cursor_x s1) (cursor_y s1) s1)\<lparr>esp_store := current_esp ?t, ebp_store := current_ebp ?t\<rparr>"
  have c: "?c < 3" "?t \<in> set (terms s)" using looseD(2) [OF k] by (simp_all add: kern_shape_def)
  have m: "memcpy (mem s) VIDEO (vid_mem ?t) 4000 x = mem s x" if "\<not> scratch L x" for x
    using screens_in_video [OF c(1), of x] that by (intro memcpy_frame) (auto simp: scratch_def)
  obtain p s4 where p: "running_pcb ?t = Some p" "load_new_process (layout.truncate L) (process_num (pcbs s3 p)) s3 = Some s4"
    "out = Resume (esp_store s4) (ebp_store s4) (s4\<lparr>tss_esp0 := esp0 ?t\<rparr>)"
  proof -
    have "Option.bind (running_pcb ?t) (\<lambda>p. Option.bind (load_new_process (layout.truncate L) (process_num (pcbs s3 p)) s3)
        (\<lambda>s4. Some (Resume (esp_store s4) (ebp_store s4) (s4\<lparr>tss_esp0 := esp0 ?t\<rparr>)))) = Some out"
      using t unfolding restore_terminal_def cur_term_shape [OF looseD(2) [OF k]] Option.bind.simps Let_def
        s1_def [symmetric] s3_def [symmetric] .
    then show ?thesis using that by (auto simp only: bind_eq_Some_conv option.inject)
  qed
  have f: "terms s3 = terms s" "pcbs s3 = pcbs s" "current_terminal s3 = current_terminal s" "processes s3 = processes s"
    "start_fs s3 = start_fs s" "input_buffer s3 = keyboard_buffer ?t" "temp_buffer s3 = temp_buffer s" "mem s3 = mem s1"
    "cursor_x s3 = term_cursor_x ?t" "cursor_y s3 = term_cursor_y ?t" "paging_view M s3 i v = paging_view M s i v" for M i v
    by (simp_all add: s3_def s1_def move_cursor_to_def outb_def paging_view_def)
  have "kern_shape s3" using looseD(2) [OF k] c by (simp add: kern_shape_def f)
  moreover have "settled L m0 fsa s3"
    using looseD(3) [OF k] m by (simp add: settled_def f) (simp add: s1_def)
  moreover have "on_video (term_cursor_x ?t) (term_cursor_y ?t)" using looseD(4) [OF k] c(2) by (simp add: cursors_def)
  then have "cursors s3" using looseD(4) [OF k] by (simp add: cursors_def f)
  ultimately have l3: "loose L m0 fsa ext s3"
    using looseD(1,5) [OF k] by (simp add: loose_def fds_ok_def files_ok_def f)
  have "cur_pcb s3 = Some p" using p(1) looseD(2) [OF k] by (simp add: cur_pcb_def cur_term_def f aget_in kern_shape_def)
  from load_front_kinv [OF l3 h this p(2)] show ?thesis by (simp add: p(3))
qed

lemma switch_kinv:
  assumes k: "kinv L m0 fsa ext s" and h: "home_ok L fsa ext" and io: "image_ok m0 fsa ext" and fr: "on_stack fr2"
    and t: "switch_to_other_term L dev fr fr2 trm s = Some out"
  shows "ends (kinv L m0 fsa ext) out"
proof -
  obtain target s1 where s1: "aget (terms s) (unat trm) = Some target" "save_terminal fr s = Some s1"
    using t by (auto simp: switch_to_other_term_def split: Option.bind_splits)
  note k1 = save_terminal_kinv [OF k s1(2)]
  have n: "unat trm < 3" "target = terms s ! unat trm"
    using s1(1) kinvD(2) [OF k] by (auto simp: aget_def kern_shape_def split: if_splits)
  show ?thesis
  proof (cases "been_here target = 1")
    case True
    have "kinv L m0 fsa ext (send_eoi 1 s1)" using k1(1) by simp
    then have "loose L m0 fsa ext (send_eoi 1 s1)" by (simp only: kinv_loose)
    from restore_terminal_kinv [OF loose_current [OF this n(1)] h] show ?thesis
      using t s1 True by (simp add: switch_to_other_term_def)
  next
    case False
    let ?s2 = "(send_eoi 1 (clear_screen s1))\<lparr>current_terminal := trm\<rparr>"
    note c = clear_screen_kinv [OF k1(1)]
    have kc: "kinv L m0 fsa ext (send_eoi 1 (clear_screen s1))" using c(1) by (simp del: kinv_more_frame)
    have b: "been_here (terms s1 ! unat trm) \<noteq> 1"
      using False map_same_nth [OF k1(2), of "unat trm"] kinvD(2) [OF k1(1)] n by (simp add: kern_shape_def)
    then have r: "running_pcb (terms s1 ! unat trm) = None" using kinvD(3) [OF k1(1)] n(1) by (simp add: settled_def)
    have tm: "terms ?s2 = terms s1" by (simp add: clear_screen_def Let_def clear_mem send_eoi_def outb_def move_cursor_to_def)
    have "loose L m0 fsa ext ?s2" by (rule loose_current [OF kc [unfolded kinv_loose, THEN conjunct1] n(1)])
    moreover have "cur_pcb ?s2 = None"
      using r kinvD(2) [OF k1(1)] n(1) tm by (simp add: cur_pcb_def cur_term_def aget_in kern_shape_def)
    then have "front_mapped L ?s2" by (simp add: front_mapped_def)
    ultimately have k2: "kinv L m0 fsa ext ?s2" by (simp add: kinv_loose)
    have "length max_message \<le> 40" by (simp add: max_message_def chars_def)
    then have f: "fits_video putc max_message ?s2" using c(2,3) by (intro fits_short) (simp_all add: send_eoi_def outb_def)
    obtain o1 where o1: "execute L dev fr2 (Some (c_lit ''shell'')) ?s2 = Some o1"
      "out = (case o1 of Return r s3 \<Rightarrow> Return 0 s3 | _ \<Rightarrow> o1)"
      using t s1 False by (auto simp: switch_to_other_term_def Let_def split: Option.bind_splits outcome.splits)
    show ?thesis using execute_kinv [OF k2 h io fr f o1(1)] o1(2) by (cases o1) simp_all
  qed
qed

section \<open>Keys\<close>

lemma scrolled_kinv:
  assumes k: "kinv L m0 fsa ext s"
  shows "kinv L m0 fsa ext (scroll_if_needed (move_cursor_to x y s))"
proof -
  have km: "kinv L m0 fsa ext (move_cursor_to x y s)" using k by simp
  have n: "near (move_cursor_to x y s)" using kinvD(8) [OF k] by (simp add: on_video_near near_def)
  show ?thesis
    by (rule printed_kinv [OF km scroll_printed [OF n]])
      (use kinvD(8) [OF k] in \<open>auto simp: scroll_if_needed_cursor on_video_def\<close>)
qed

lemma type_char_kinv:
  assumes k: "kinv L m0 fsa ext (s :: 'a kern_scheme)" and x: "cursor_x s \<le> 79" and t: "type_char c s = Some t"
  shows "kinv L m0 fsa ext (scroll_if_needed (move_cursor_to (cursor_x t) (cursor_y t) t))"
proof -
  have n: "near s" "0 \<le> 80 * cursor_y s + cursor_x s" "80 * cursor_y s + cursor_x s < 8192"
    using kinvD(8) [OF k] x by (auto simp: on_video_def near_def)
  have "t = s \<or> (\<exists>v ib. aput (nat (length_typed s)) v (input_buffer s) = Some ib \<and>
      put_cell (cursor_y s) (cursor_x s) v (s\<lparr>input_buffer := ib\<rparr>)
        \<lparr>length_typed := length_typed (put_cell (cursor_y s) (cursor_x s) v (s\<lparr>input_buffer := ib\<rparr>)) + 1,
         cursor_x := cursor_x (put_cell (cursor_y s) (cursor_x s) v (s\<lparr>input_buffer := ib\<rparr>)) + 1\<rparr> = t)"
    using t unfolding type_char_def Let_def
    by (cases "length_typed s < 128 \<and> c \<noteq> BACKSPACE") (auto simp only: bind_eq_Some_conv if_True if_False option.inject simp_thms)
  moreover have "length ib = 128" if "aput (nat (length_typed s)) v (input_buffer s) = Some ib" for v ib
    using that kinvD(2) [OF k] by (auto simp: aput_def kern_shape_def split: if_splits)
  moreover have "length_typed (put_cell y x v (s\<lparr>input_buffer := ib\<rparr>)) = length_typed s" for y x v ib
    by (simp add: put_cell_def poke_def)
  ultimately consider "t = s" | ib v where "length ib = 128"
      "t = (put_cell (cursor_y s) (cursor_x s) v (s\<lparr>input_buffer := ib\<rparr>))\<lparr>length_typed := length_typed s + 1, cursor_x := cursor_x s + 1\<rparr>"
    by (fastforce simp: put_cell_cursor)
  then show ?thesis
  proof cases
    case 1
    then show ?thesis using scrolled_kinv [OF k] by simp
  next
    case 2
    let ?b = "s\<lparr>input_buffer := ib, length_typed := length_typed s + 1\<rparr>"
    let ?u = "scroll_if_needed (move_cursor_to (cursor_x t) (cursor_y t) t)"
    have kb: "kinv L m0 fsa ext ?b" using kinv_buffers(1) [OF k 2(1)] by simp
    show ?thesis
    proof (rule kinv_console [OF kb])
      have "t = (put_cell (cursor_y s) (cursor_x s) v ?b)\<lparr>cursor_x := cursor_x s + 1\<rparr>"
        unfolding 2(2) by (simp add: put_cell_def poke_def)
      then have "console.more t = console.more ?b" by simp
      then show "console.more ?u = console.more ?b" by (simp add: scroll_if_needed_cursor)
      have cur: "cursor_x t = cursor_x s + 1" "cursor_y t = cursor_y s" by (simp_all add: 2(2))
      show "\<forall>x. \<not> in_video x \<longrightarrow> mem ?u x = mem ?b x"
        using screen_in_video by (auto simp: put_cell_video [OF n(2,3)] scroll_if_needed_cursor scrolled_def filled_outside 2(2))
      show "on_video (cursor_x ?u) (cursor_y ?u)"
        using n x by (auto simp: scroll_if_needed_cursor cur on_video_def near_def)
    qed
  qed
qed

lemma cursor_kinv:
  assumes "kinv L m0 fsa ext s" and "0 \<le> x" "x \<le> 79" "0 \<le> y" "y \<le> 25" "y = 25 \<longrightarrow> x = 0"
  shows "kinv L m0 fsa ext (s\<lparr>cursor_x := x, cursor_y := y\<rparr>)"
  using assms by (intro kinv_cursor) (auto simp: on_video_def)

lemma press_enter_kinv:
  assumes k: "kinv L m0 fsa ext s"
  shows "kinv L m0 fsa ext (scroll_if_needed (move_cursor_to x y (press_enter s)))"
proof -
  define b where "b = (flush (s\<lparr>temp_buffer := input_buffer s, old_length_typed := length_typed s\<rparr>))\<lparr>can_read := 1\<rparr>"
  have kb: "kinv L m0 fsa ext b"
    unfolding b_def using kinv_flush [of L m0 fsa ext "s\<lparr>temp_buffer := input_buffer s, old_length_typed := length_typed s\<rparr>"]
      kinv_buffers(2) [OF k, of "input_buffer s"] kinvD(2) [OF k] by (simp add: kern_shape_def)
  let ?e = "move_cursor_to x y (press_enter s)"
  have "press_enter s = b\<lparr>cursor_x := 0, cursor_y := cursor_y b + 1\<rparr>"
    by (simp add: press_enter_def b_def flush_def Let_def)
  then have e: "console.more ?e = console.more b" "mem ?e = mem b" "cursor_x ?e = 0" "cursor_y ?e = cursor_y b + 1"
    by simp_all
  show ?thesis
  proof (rule kinv_console [OF kb])
    show "console.more (scroll_if_needed ?e) = console.more b" using e(1) by (simp add: scroll_if_needed_cursor)
    show "\<forall>x. \<not> in_video x \<longrightarrow> mem (scroll_if_needed ?e) x = mem b x"
      using e(2) screen_in_video by (simp add: scroll_if_needed_cursor scrolled_def filled_outside)
    show "on_video (cursor_x (scroll_if_needed ?e)) (cursor_y (scroll_if_needed ?e))"
      using e(3,4) kinvD(8) [OF kb] by (auto simp: scroll_if_needed_cursor on_video_def)
  qed
qed

lemma press_backspace_kinv:
  assumes k: "kinv L m0 fsa ext (s :: 'a kern_scheme)" and x: "cursor_x s \<le> 79"
  shows "kinv L m0 fsa ext (scroll_if_needed (move_cursor_to a b (press_backspace s)))"
proof -
  obtain cx cy n where p: "press_backspace s = put_cell cy cx 0x20 (s\<lparr>cursor_x := cx, cursor_y := cy, length_typed := n\<rparr>)"
    and c: "0 \<le> cx" "cx \<le> 79" "0 \<le> cy" "cy \<le> 25" "cy = 25 \<longrightarrow> cx = 0"
  proof -
    consider "cursor_x s = 0" "cursor_y s \<noteq> 0" | "cursor_x s \<noteq> 0" | "cursor_x s = 0" "cursor_y s = 0" by blast
    then show ?thesis
    proof cases
      case 1
      then show ?thesis using that [of "cursor_y s - 1" 79 "length_typed s - 1"] kinvD(8) [OF k]
        by (auto simp: press_backspace_def Let_def on_video_def)
    next
      case 2
      then show ?thesis using that [of "cursor_y s" "cursor_x s - 1" "length_typed s - 1"] kinvD(8) [OF k] x
        by (auto simp: press_backspace_def Let_def on_video_def)
    next
      case 3
      then have "s\<lparr>cursor_x := 0, cursor_y := 0, length_typed := length_typed s\<rparr> = s" by (cases s) simp
      then have "press_backspace s = put_cell 0 0 0x20 (s\<lparr>cursor_x := 0, cursor_y := 0, length_typed := length_typed s\<rparr>)"
        using 3 by (simp only: press_backspace_def Let_def) simp
      then show ?thesis by (rule that) simp_all
    qed
  qed
  let ?s = "s\<lparr>cursor_x := cx, cursor_y := cy, length_typed := n\<rparr>"
  have ks: "kinv L m0 fsa ext ?s" using cursor_kinv [OF k c] by simp
  have "kinv L m0 fsa ext (put_cell cy cx 0x20 ?s)"
  proof (rule kinv_console [OF ks])
    have r: "0 \<le> 80 * cy + cx" "80 * cy + cx < 8192" using c by linarith+
    show "\<forall>x. \<not> in_video x \<longrightarrow> mem (put_cell cy cx 0x20 ?s) x = mem ?s x" using put_cell_video [OF r] by blast
    show "on_video (cursor_x (put_cell cy cx 0x20 ?s)) (cursor_y (put_cell cy cx 0x20 ?s))"
      using kinvD(8) [OF ks] by simp
  qed simp
  then show ?thesis unfolding p by (rule scrolled_kinv)
qed

lemma if_SomeE: "(if P then Some a else b) = Some u \<Longrightarrow> (u = a \<Longrightarrow> R) \<Longrightarrow> (b = Some u \<Longrightarrow> R) \<Longrightarrow> R"
  by (cases P) auto

lemma key_press_kinv:
  assumes k: "kinv L m0 fsa ext (s :: 'a kern_scheme)" and t: "key_press c s = Some t"
  shows "kinv L m0 fsa ext t"
proof -
  define s1 where "s1 = (if cursor_x s > 79 then s\<lparr>cursor_x := 0, cursor_y := cursor_y s + 1\<rparr> else s)"
  have v: "on_video (cursor_x s) (cursor_y s)" by (rule kinvD(8) [OF k])
  have k1: "kinv L m0 fsa ext s1" and x1: "cursor_x s1 \<le> 79"
    using k cursor_kinv [OF k, of 0 "cursor_y s + 1"] v by (auto simp: s1_def on_video_def)
  define act where "act = (if c = CTRL then Some (s1\<lparr>ctrl_pressed := 1\<rparr>)
      else if c = CAPS_LOCK then Some (if caps_flag s1 = 1 then s1\<lparr>caps_flag := 0\<rparr> else s1\<lparr>caps_flag := 1\<rparr>)
      else if c = L_SHIFT then Some (s1\<lparr>shift_flag := 1\<rparr>)
      else if c = R_SHIFT then Some (s1\<lparr>shift_flag := 1\<rparr>)
      else if c = ENTER then Some (press_enter s1)
      else if c = BACKSPACE \<and> length_typed s1 > 0 then Some (press_backspace s1)
      else type_char c s1)"
  have "map_option (\<lambda>s2. scroll_if_needed (move_cursor_to (cursor_x s2) (cursor_y s2) s2)) act = Some t"
    using t unfolding key_press_def Let_def s1_def [symmetric] act_def .
  then obtain u where u: "act = Some u" "t = scroll_if_needed (move_cursor_to (cursor_x u) (cursor_y u) u)"
    by (cases act) auto
  have flags: "kinv L m0 fsa ext (s1\<lparr>ctrl_pressed := 1\<rparr>)" "kinv L m0 fsa ext (s1\<lparr>shift_flag := 1\<rparr>)"
    "kinv L m0 fsa ext (if caps_flag s1 = 1 then s1\<lparr>caps_flag := 0\<rparr> else s1\<lparr>caps_flag := 1\<rparr>)"
    using k1 by simp_all
  consider "u = s1\<lparr>ctrl_pressed := 1\<rparr>" | "u = s1\<lparr>shift_flag := 1\<rparr>"
    | "u = (if caps_flag s1 = 1 then s1\<lparr>caps_flag := 0\<rparr> else s1\<lparr>caps_flag := 1\<rparr>)"
    | "u = press_enter s1" | "u = press_backspace s1" | "type_char c s1 = Some u"
    using u(1) unfolding act_def by (elim if_SomeE) blast+
  then show ?thesis
  proof cases
    case 4
    show ?thesis unfolding u(2) unfolding 4 by (rule press_enter_kinv [OF k1])
  next
    case 5
    show ?thesis unfolding u(2) unfolding 5 by (rule press_backspace_kinv [OF k1 x1])
  next
    case 6
    show ?thesis unfolding u(2) by (rule type_char_kinv [OF k1 x1 6])
  qed (use flags in \<open>simp only: u(2) scrolled_kinv\<close>)+
qed

section \<open>The interrupt\<close>

lemma print_warning_eq: "print_warning s = fold warn_char warning_msg s"
  by (simp add: print_warning_def warn_char_def [abs_def])

lemma switch_request_kinv:
  assumes k: "kinv L m0 fsa ext s" and h: "home_ok L fsa ext" and io: "image_ok m0 fsa ext" and fr: "on_stack fr2"
    and t: "switch_request L dev fr fr2 j1 j2 trm s = Some r"
  shows "case r of Inl t \<Rightarrow> kinv L m0 fsa ext t | Inr out \<Rightarrow> ends (kinv L m0 fsa ext) out"
proof -
  let ?s = "s\<lparr>term_count := term_count s + 1\<rparr>"
  have ks: "kinv L m0 fsa ext ?s" using k by simp
  consider "r = Inl ?s" | out where "r = Inr out" "switch_to_other_term L dev fr fr2 trm ?s = Some out"
    using t by (auto simp: switch_request_def Let_def split: if_splits)
  then show ?thesis
    by cases (use ks switch_kinv [OF ks h io fr] in auto)
qed

lemma key_release_kinv:
  assumes k: "kinv L m0 fsa ext s" and h: "home_ok L fsa ext" and io: "image_ok m0 fsa ext" and fr: "on_stack fr2"
    and t: "key_release L dev fr fr2 j1 j2 c s = Some out"
  shows "ends (kinv L m0 fsa ext) out"
proof -
  let ?ok = "\<lambda>r. case r of Inl t \<Rightarrow> kinv L m0 fsa ext t | Inr out \<Rightarrow> ends (kinv L m0 fsa ext) out"
  define pick where "pick = (if shift_flag s \<noteq> 0 \<and> (c = L_SHIFT_P \<or> c = R_SHIFT_P)
        then Some (Inr (Return 0 (s\<lparr>shift_flag := 0\<rparr>)))
        else if c = RELEASE_L \<and> ctrl_pressed s = 1 then Some (Inr (Return 0 (clear_screen (flush s))))
        else if ctrl_pressed s = 1 \<and> c = RELEASE_1 then switch_request L dev fr fr2 j1 j2 0 s
        else if ctrl_pressed s = 1 \<and> c = RELEASE_2 then switch_request L dev fr fr2 j1 j2 1 s
        else if ctrl_pressed s = 1 \<and> c = RELEASE_3 then switch_request L dev fr fr2 j1 j2 2 s
        else Some (Inr (Return 0 s)))"
  obtain r where r: "pick = Some r"
    "out = (case r of Inl s1 \<Rightarrow> Return 0 s1 | Inr (Return v s1) \<Rightarrow> Return 0 (s1\<lparr>ctrl_pressed := 0\<rparr>) | Inr out \<Rightarrow> out)"
    using t unfolding key_release_def pick_def [symmetric] by (cases pick) auto
  have c: "r = Inr (Return 0 (s\<lparr>shift_flag := 0\<rparr>)) \<or> r = Inr (Return 0 (clear_screen (flush s))) \<or> r = Inr (Return 0 s) \<or>
      (\<exists>trm. switch_request L dev fr fr2 j1 j2 trm s = Some r)"
    using r(1) by (auto simp: pick_def split: if_split_asm)
  have "kinv L m0 fsa ext (clear_screen (flush s))" by (rule clear_screen_kinv(1) [OF kinv_flush [OF k]])
  then have "?ok r" using c k switch_request_kinv [OF k h io fr] by (auto simp del: kinv_more_frame)
  then show ?thesis by (cases r) (auto simp: r(2) split: outcome.splits)
qed

lemma update_kinv:
  assumes k: "kinv L m0 fsa ext s" and h: "home_ok L fsa ext" and io: "image_ok m0 fsa ext" and fr: "on_stack fr2"
    and f: "fits_video warn_char warning_msg s" and t: "update_buffer_and_cursor L dev fr fr2 j1 j2 s = Some out"
  shows "ends (kinv L m0 fsa ext) out"
proof -
  define c :: u8 where "c = ucast (fst (inb dev KEYBOARD_DATA_PORT s))"
  define s1 where "s1 = snd (inb dev KEYBOARD_DATA_PORT s)"
  define label1 where "label1 = map_option (\<lambda>out :: 'a kern_scheme outcome. case out of Return r s2 \<Rightarrow> Return 0 (send_eoi 1 s2) | _ \<Rightarrow> out)"
  have k1: "kinv L m0 fsa ext s1" using k by (simp add: s1_def)
  have lb: "ends (kinv L m0 fsa ext) out" if "label1 (Some o1) = Some out" "ends (kinv L m0 fsa ext) o1" for o1
    using that by (cases o1) (auto simp: label1_def)
  have e: "(if c AND RELEASE \<noteq> 0 then label1 (key_release L dev fr fr2 j1 j2 c s1)
      else if c = F3 \<and> ctrl_pressed s1 = 1 then
        (if current_terminal s1 = 3 then Some (Return 0 s1)
         else if processes s1 = 0x3F \<or> processes s1 = 0x1F then Some (Return 0 (print_warning s1))
         else label1 (Some (Return 0 s1)))
      else if ctrl_pressed s1 = 0 then label1 (map_option (Return 0) (key_press c s1))
      else label1 (Some (Return 0 s1))) = Some out"
    using t unfolding update_buffer_and_cursor_def by (simp only: case_prod_unfold Let_def c_def s1_def label1_def)
  consider o1 where "key_release L dev fr fr2 j1 j2 c s1 = Some o1" "label1 (Some o1) = Some out"
    | "out = Return 0 s1" | "out = Return 0 (print_warning s1)" | "label1 (Some (Return 0 s1)) = Some out"
    | s2 where "key_press c s1 = Some s2" "label1 (Some (Return 0 s2)) = Some out"
    using e by (auto simp: label1_def split: if_split_asm)
  then show ?thesis
  proof cases
    case 1
    then show ?thesis using lb key_release_kinv [OF k1 h io fr] by blast
  next
    case 2
    then show ?thesis using k1 by simp
  next
    case 3
    have "fits_video warn_char cs s1 = fits_video warn_char cs s" for cs
      by (rule warn_fits_same) (simp_all add: s1_def inb_def)
    then show ?thesis using warning_kinv [OF k1] f 3 by (simp add: print_warning_eq)
  next
    case 4
    then show ?thesis using lb k1 by simp
  next
    case 5
    then show ?thesis using lb key_press_kinv [OF k1] by simp
  qed
qed

lemma handle_keyboard_kinv:
  assumes k: "kinv L m0 fsa ext s" and h: "home_ok L fsa ext" and io: "image_ok m0 fsa ext" and fr: "on_stack fr2"
    and f: "fits_video warn_char warning_msg s" and t: "handle_keyboard L dev fr fr2 j1 j2 s = Some out"
  shows "ends (kinv L m0 fsa ext) out"
proof -
  obtain o1 where o1: "update_buffer_and_cursor L dev fr fr2 j1 j2 (cli s) = Some o1"
    "out = (case o1 of Return r s2 \<Rightarrow> Return 0 (sti s2) | _ \<Rightarrow> o1)"
    using t by (auto simp: handle_keyboard_def)
  have kc: "kinv L m0 fsa ext (cli s)" using k by simp
  have "fits_video warn_char warning_msg (cli s)" using f warn_fits_same [of "cli s" s] by (simp add: cli_def)
  from update_kinv [OF kc h io fr this o1(1)] show ?thesis using o1(2) by (cases o1) simp_all
qed

end
