(* ===== verification/Kernel_Run.thy ===== *)
theory Kernel_Run
  imports Kernel_Keys
begin

text \<open>
  Every step of the kernel of \<open>Kernel\<close> keeps the invariant of \<open>Kernel_Inv\<close>, and with it every
  state that can come about.
\<close>

section \<open>System calls\<close>

lemma span_agree:
  assumes k: "kinv L m0 fsa ext s" and h: "home_ok L fsa ext"
    and u: "span (layout.truncate L) s True va n \<noteq> None" and sp: "span (layout.truncate L) s False va n = Some buf"
  shows "block_ok L buf n"
proof -
  obtain q v where q: "q < 6" "paging_view (layout.truncate L) s (Some q) v" using kinvD(3) [OF k] by (auto simp: settled_def)
  have M: "layout_ok (layout.truncate L)" using h by (simp add: home_ok_def)
  obtain pa where pa: "span (layout.truncate L) s True va n = Some pa" using u by blast
  then have "pa = buf" using span_kernel [OF q(2) M q(1)] sp by simp
  then show ?thesis using span_block [OF k h] pa by simp
qed

lemma read_call_kinv:
  assumes k: "kinv L m0 fsa ext s" and h: "home_ok L fsa ext"
    and u: "span (layout.truncate L) s True va (fd_extent (read_extent fd n s) s fd va) \<noteq> None"
    and sp: "span (layout.truncate L) s False va (fd_extent (read_extent fd n s) s fd va) = Some buf"
    and t: "sys_read [] fd buf n s = Some (r, t)"
  shows "kinv L m0 fsa ext t"
proof (rule sys_read_kinv [OF k h _ _ t])
  assume b: "buf \<noteq> 0"
  have "va \<noteq> 0" using b sp by (auto simp: fd_extent_def span_def)
  then show "case fd_driver s fd of None \<Rightarrow> True | Some d \<Rightarrow> block_ok L buf (read_extent fd n s d)"
    using span_agree [OF k h u sp] by (simp add: fd_extent_def split: option.splits)
qed simp

lemma call_number:
  assumes "(n :: nat) < 11" and "n = 0 \<Longrightarrow> R" "n = 1 \<Longrightarrow> R" "n = 2 \<Longrightarrow> R" "n = 3 \<Longrightarrow> R" "n = 4 \<Longrightarrow> R" "n = 5 \<Longrightarrow> R"
    "n = 6 \<Longrightarrow> R" "n = 7 \<Longrightarrow> R" "n = 8 \<Longrightarrow> R" "n = 9 \<or> n = 10 \<Longrightarrow> R"
  shows R
proof -
  have "n \<in> {0, 1, 2, 3, 4, 5, 6, 7, 8, 9, 10}"
    unfolding insert_iff empty_iff using assms(1) by presburger
  then show ?thesis using assms(2-) by blast
qed

lemma syscalls_kinv:
  assumes k: "kinv L m0 fsa ext s" and h: "home_ok L fsa ext" and io: "image_ok m0 fsa ext" and fr: "on_stack fr"
    and pol: "polite (layout.truncate L) r s" and ins: "prints_inside (layout.truncate L) r s"
    and n: "unat (eax r) < 11" and t: "syscalls L dev fr lit [] r s = Some out"
  shows "ends (kinv L m0 fsa ext) out"
proof -
  let ?M = "layout.truncate L"
  note t' = t [unfolded syscalls_def Let_def]
  have e: "eax r = of_nat (unat (eax r))" by simp
  consider "unat (eax r) = 1" | "unat (eax r) = 2" | "unat (eax r) = 3" | "unat (eax r) = 4" | "unat (eax r) = 5"
    | "unat (eax r) = 6" | "unat (eax r) = 7" | "unat (eax r) = 8" | "unat (eax r) = 9 \<or> unat (eax r) = 10"
    using call_number [OF n, of thesis] t' by (cases "unat (eax r) = 0") simp_all
  then show ?thesis
  proof cases
    case 1
    then show ?thesis using t' halt_kinv [OF k h io fr] by simp
  next
    case 2
    then have "eax r = 2" using e by simp
    then have "processes s = 0x3F \<Longrightarrow> fits_video putc max_message s" using ins by (simp add: prints_inside_def)
    then show ?thesis using t' 2 execute_kinv [OF k h io fr] by simp
  next
    case 3
    then have "eax r = 3" using e by simp
    then have u: "span ?M s True (ecx r) (fd_extent (read_extent (ebx r) (edx r) s) s (ebx r) (ecx r)) \<noteq> None"
      using pol by (simp add: polite_def)
    obtain buf v s' where b: "span ?M s False (ecx r) (fd_extent (read_extent (ebx r) (edx r) s) s (ebx r) (ecx r)) = Some buf"
      "sys_read [] (ebx r) buf (edx r) s = Some (v, s')" "out = Return v s'"
      using t' 3 by (auto split: Option.bind_splits)
    show ?thesis using read_call_kinv [OF k h u b(1,2)] by (simp add: b(3))
  next
    case 4
    then have "eax r = 4" using e by simp
    then have w: "write_fits buf (unat (edx r)) s"
      if "span ?M s False (ecx r) (fd_extent (write_extent (ebx r) (edx r)) s (ebx r) (ecx r)) = Some buf" for buf
      using ins that by (simp add: prints_inside_def)
    obtain buf v s' where b: "span ?M s False (ecx r) (fd_extent (write_extent (ebx r) (edx r)) s (ebx r) (ecx r)) = Some buf"
      "sys_write dev (ebx r) buf (edx r) s = Some (v, s')" "out = Return v s'"
      using t' 4 by (auto split: Option.bind_splits)
    show ?thesis using sys_write_kinv [OF k h w [OF b(1)] b(2)] by (simp add: b(3))
  next
    case 5
    then obtain v s' where b: "sys_open dev (user_str ?M s (ebx r)) s = Some (v, s')" "out = Return v s'" using t' by auto
    show ?thesis using sys_open_kinv [OF k h io b(1)] by (simp add: b(2))
  next
    case 6
    then obtain v s' where b: "sys_close (ebx r) s = Some (v, s')" "out = Return v s'" using t' by auto
    show ?thesis using sys_close_kinv [OF k b(1)] by (simp add: b(2))
  next
    case 7
    then have "eax r = 7" using e by simp
    then have u: "span ?M s True (ebx r) j \<noteq> None" if "getargs_extent ?M s (ebx r) (ecx r) = Some j" for j
      using pol that by (simp add: polite_def)
    obtain j buf v s' where b: "getargs_extent ?M s (ebx r) (ecx r) = Some j" "span ?M s False (ebx r) j = Some buf"
      "getargs lit buf (ecx r) s = Some (v, s')" "out = Return v s'"
      using t' 7 by (auto split: Option.bind_splits)
    show ?thesis using getargs_kinv [OF k h b(1) u [OF b(1)] b(2,3)] by (simp add: b(4))
  next
    case 8
    then obtain v s' where b: "vidmap ?M (ebx r) s = Some (v, s')" "out = Return v s'" using t' by auto
    show ?thesis using vidmap_kinv [OF k h b(1)] by (simp add: b(2))
  next
    case 9
    then show ?thesis using t' k by auto
  qed
qed

lemma syscall_handler_kinv:
  assumes k: "kinv L m0 fsa ext s" and h: "home_ok L fsa ext" and io: "image_ok m0 fsa ext" and fr: "on_stack fr"
    and pol: "polite (layout.truncate L) r (cli s)" and ins: "prints_inside (layout.truncate L) r (cli s)"
    and t: "syscall_handler L dev fr lit [] r s = Some out"
  shows "ends (kinv L m0 fsa ext) out"
proof (cases "sint (eax r) < 1 \<or> 10 < sint (eax r)")
  case True
  then have "out = Return (- 1) (sti (cli s))" using t unknown_call [of r L dev fr lit "[]" s] by simp
  then show ?thesis using k by simp
next
  case False
  have n: "unat (eax r) < 11"
    using False sint_u32 [of "eax r"] unat_u32_less [of "eax r"]
    by (cases "unat (eax r) < 2147483648"; simp only: simp_thms if_True if_False; linarith)
  obtain o1 where o1: "syscalls L dev fr lit [] r (cli s) = Some o1"
    "out = (case o1 of Return v s' \<Rightarrow> Return v (sti s') | _ \<Rightarrow> o1)"
    using t False by (auto simp: syscall_handler_def Let_def MIN_SYSTEM_CALLS_def MAX_SYSTEM_CALLS_def)
  have kc: "kinv L m0 fsa ext (cli s)" using k by simp
  show ?thesis using syscalls_kinv [OF kc h io fr pol ins n o1(1)] o1(2) by (cases o1) simp_all
qed

lemma back_to_user_kinv: "ends (kinv L m0 fsa ext) out \<Longrightarrow> kinv L m0 fsa ext (back_to_user out)"
  by (cases out) (simp_all add: execute_resumed_def)

section \<open>Steps\<close>

text \<open>The buffers that reads wait to fill stay ones a program may write to.\<close>

definition minv :: "klayout \<Rightarrow> mem \<Rightarrow> u32 \<Rightarrow> nat \<Rightarrow> 'a kern_scheme machine \<Rightarrow> bool" where
  "minv L m0 fsa ext m \<longleftrightarrow> kinv L m0 fsa ext (fst m) \<and>
     (\<forall>c buf n. snd m c = Line_wait buf n \<longrightarrow> block_ok L buf (max (unat n) 128))"

lemma kstep_minv:
  assumes "kstep L lit m m'" and h: "home_ok L fsa ext" and io: "image_ok m0 fsa ext" and k: "minv L m0 fsa ext m"
  shows "minv L m0 fsa ext m'"
  using assms(1) k
proof (induction rule: kstep.induct)
  case (store A s va a v)
  then have ks: "kinv L m0 fsa ext s" by (simp add: minv_def)
  have "kinv L m0 fsa ext (s\<lparr>mem := (mem s)(a := v)\<rparr>)"
    using user_scratch [OF ks h store.hyps(2)] by (intro kinv_mem [OF ks]) auto
  then show ?case using store.prems by (simp add: minv_def)
next
  case (call A s r fr dev out)
  then have ks: "kinv L m0 fsa ext s" by (simp add: minv_def)
  have "kinv L m0 fsa ext (back_to_user out)"
    by (rule back_to_user_kinv [OF syscall_handler_kinv [OF ks h io call.hyps(4,2,3,5)]])
  then show ?case using call.prems by (simp add: minv_def)
next
  case (wait_line A s va n buf)
  then have ks: "kinv L m0 fsa ext s" by (simp add: minv_def)
  have b: "block_ok L buf (max (unat n) 128)" by (rule span_block [OF ks h wait_line.hyps(3)])
  have "kinv L m0 fsa ext (read_begin buf n (cli s))" by (rule read_begin_kinv [OF _ b]) (use ks in simp)
  then show ?case using wait_line.prems b by (simp add: minv_def)
next
  case (line_read A s buf n v s')
  then have ks: "kinv L m0 fsa ext s" and b: "block_ok L buf (max (unat n) 128)" by (auto simp: minv_def)
  have "kinv L m0 fsa ext s'" by (rule read_finish_kinv [OF ks b line_read.hyps(3)])
  then show ?case using line_read.prems by (simp add: minv_def)
next
  case (wait_clock A s fd)
  then show ?case by (simp add: minv_def rtc_begin_def)
next
  case (key s fr2 dev fr j1 j2 v s' A)
  then have ks: "kinv L m0 fsa ext s" by (simp add: minv_def)
  have "ends (kinv L m0 fsa ext) (Return v s')" by (rule handle_keyboard_kinv [OF ks h io key.hyps(2,3,4)])
  then show ?case using key.prems by (auto simp: minv_def)
next
  case (new_terminal s fr2 dev fr j1 j2 eip s' A)
  then have ks: "kinv L m0 fsa ext s" by (simp add: minv_def)
  have "ends (kinv L m0 fsa ext) (Enter_user eip s')" by (rule handle_keyboard_kinv [OF ks h io new_terminal.hyps(2,3,4)])
  then show ?case using new_terminal.prems by (simp add: minv_def)
next
  case (switched s fr2 dev fr j1 j2 sp bp s' A)
  then have ks: "kinv L m0 fsa ext s" by (simp add: minv_def)
  have "ends (kinv L m0 fsa ext) (Resume sp bp s')" by (rule handle_keyboard_kinv [OF ks h io switched.hyps(2,3,4)])
  then show ?case using switched.prems by (simp add: minv_def switched_in_def)
qed (simp_all add: minv_def)

lemma reachable_minv:
  assumes "reachable L lit s0 m" and "home_ok L fsa ext" and "image_ok m0 fsa ext" and "kinv L m0 fsa ext s0"
  shows "minv L m0 fsa ext m"
  using assms(1)
proof (induction rule: reachable.induct)
  case start
  then show ?case using assms(4) by (simp add: minv_def)
next
  case (step m m')
  then show ?case using kstep_minv assms(2,3) by blast
qed

end
