(* ===== verification/Calls_Spec.thy ===== *)
theory Calls_Spec
  imports Process_Spec
begin

text \<open>
  The two system calls that write to the program's memory: \<open>vidmap\<close> maps the screen and stores
  its address, \<open>getargs\<close> copies the arguments that \<open>execute\<close> kept in the control block.
\<close>

section \<open>vidmap\<close>

lemma word_digits: "unat (byte_of 0 w) + 256 * unat (byte_of 1 w) + 65536 * unat (byte_of 2 w) +
    16777216 * unat (byte_of 3 w) = unat w"
proof -
  define n where "n = unat w"
  have d: "n div 65536 = n div 256 div 256" "n div 16777216 = n div 256 div 256 div 256"
    by (simp_all flip: div_mult2_eq)
  have "n < 4294967296" using unat_u32_less [of w] by (simp add: n_def)
  then have "n div 256 div 256 div 256 < 256" by (simp flip: div_mult2_eq)
  moreover have "n = n mod 256 + 256 * (n div 256)" "n div 256 = n div 256 mod 256 + 256 * (n div 256 div 256)"
    "n div 256 div 256 = n div 256 div 256 mod 256 + 256 * (n div 256 div 256 div 256)"
    by simp_all
  ultimately have "n mod 256 + 256 * (n div 256 mod 256) + 65536 * (n div 256 div 256 mod 256) +
      16777216 * (n div 256 div 256 div 256 mod 256) = n"
    by (simp only: mod_less)
  then show ?thesis by (simp add: unat_byte_of n_def d [unfolded n_def])
qed

lemma load32_store32 [mem_simps]: "load32 (store32 a w m) a = w"
  unfolding word_unat_eq_iff unat_load32 using word_digits [of w] by (simp add: store32_def)

lemma vstore32_image:
  assumes "paging_view L s (Some p) v" and "layout_ok L"
    and "0x8000000 \<le> unat a" and "unat a + 4 \<le> 0x8400000"
  shows "vstore32 L a w s =
    Some (s\<lparr>mem := store32 (of_nat (0x800000 + 0x400000 * p + (unat a - 0x8000000))) w (mem s)\<rparr>)"
  using image_contiguous [OF assms, of 0] image_contiguous [OF assms, of 1] image_contiguous [OF assms, of 2]
    image_contiguous [OF assms, of 3]
  by (simp add: vstore32_def store32_def)

lemma vidmap_valid:
  assumes v: "paging_view L s (Some p) v" and L: "layout_ok L"
    and a: "0x8000000 \<le> unat a" "unat a + 4 \<le> 0x8400000"
  defines "s1 \<equiv> load_video_mem L 0 s"
  shows "vidmap L a s = Some (0x8400000, s1\<lparr>mem :=
      store32 (of_nat (0x800000 + 0x400000 * p + (unat a - 0x8000000))) 0x8400000 (mem s1)\<rparr>)"
    and "paging_view L s1 (Some p) True" and "mem s1 = mem s" and "paging.more s1 = paging.more s"
proof -
  show v1: "paging_view L s1 (Some p) True" unfolding s1_def by (rule load_video_mem_view [OF v L])
  show "mem s1 = mem s" "paging.more s1 = paging.more s"
    by (simp_all add: s1_def load_video_mem_def Let_def)
  have "a \<ge> ONE_TWENTY_EIGHT_MB \<and> a < ONE_THIRTY_TWO_MB"
    using a by (simp add: ONE_TWENTY_EIGHT_MB_def ONE_THIRTY_TWO_MB_def word_le_nat_alt word_less_nat_alt)
  then show "vidmap L a s = Some (0x8400000, s1\<lparr>mem :=
      store32 (of_nat (0x800000 + 0x400000 * p + (unat a - 0x8000000))) 0x8400000 (mem s1)\<rparr>)"
    using vstore32_image [OF v1 L a, of "0x8400000"]
    by (simp add: vidmap_def ONE_THIRTY_TWO_MB_def flip: s1_def)
qed

lemma vidmap_refuses:
  "unat a < 0x8000000 \<or> 0x8400000 \<le> unat a \<Longrightarrow> vidmap L a s = Some (- 1, s)"
  by (auto simp: vidmap_def ONE_TWENTY_EIGHT_MB_def ONE_THIRTY_TWO_MB_def word_le_nat_alt word_less_nat_alt)

section \<open>getargs\<close>

lemma args_copy_copies:
  assumes xs: "0 \<notin> set xs" "length xs < n" and n: "n < 4294967296"
  shows "i \<le> length xs \<Longrightarrow> args_copy (pad n xs) i buf (write_bytes buf (take i xs) m) =
    Some (length xs, write_bytes buf xs m)"
proof (induction "length xs - i" arbitrary: i)
  case 0
  then have i: "i = length xs" by simp
  have "pad n xs ! length xs = 0" "length (pad n xs) = n" using xs(2) by (simp_all add: pad_def nth_append)
  then show ?case using xs(2) by (subst args_copy.simps) (simp add: i)
next
  case (Suc k)
  then have i: "i < length xs" by simp
  have at: "pad n xs ! i = xs ! i" "length (pad n xs) = n" using i xs(2) by (simp_all add: pad_def nth_append)
  have "xs ! i \<noteq> 0" using xs(1) i by (metis nth_mem)
  have len: "strlen (aget (pad n xs)) = Some (length xs)" by (rule strlen_c_str [OF c_str_pad [OF xs]])
  have step: "(write_bytes buf (take i xs) m)(buf + of_nat i := xs ! i) = write_bytes buf (take (Suc i) xs) m"
    using write_bytes_snoc [of "take i xs" buf "xs ! i" m] i xs(2) n by (simp add: take_Suc_conv_app_nth)
  have "args_copy (pad n xs) (Suc i) buf (write_bytes buf (take (Suc i) xs) m) = Some (length xs, write_bytes buf xs m)"
    using Suc.hyps(1) [of "Suc i"] Suc.hyps(2) i by simp
  then show ?case
    using i xs(2) at len \<open>xs ! i \<noteq> 0\<close> step by (subst args_copy.simps) simp
qed

lemma zero_tail:
  "k \<le> n \<Longrightarrow> n < 4294967296 \<Longrightarrow> length xs = k \<Longrightarrow>
    for_loop k n (\<lambda>i m. m(buf + of_nat i := 0)) (write_bytes buf xs m) = write_bytes buf (xs @ replicate (n - k) 0) m"
proof (induction n)
  case (Suc n)
  show ?case
  proof (cases "k = Suc n")
    case False
    then have k: "k \<le> n" using Suc.prems by simp
    have r: "xs @ replicate (Suc n - k) 0 = (xs @ replicate (n - k) 0) @ [0 :: u8]"
      using k by (simp add: Suc_diff_le replicate_append_same)
    have l: "length (xs @ replicate (n - k) (0 :: u8)) = n" using k Suc.prems by simp
    show ?thesis
      using Suc k write_bytes_snoc [of "xs @ replicate (n - k) 0" buf 0 m] l
      by (simp add: for_loop_Suc r del: append_assoc replicate_Suc)
  qed (use Suc.prems in simp)
qed simp

text \<open>\<open>ys\<close> is the string the buffer holds before the call: that many bytes are first copied from
  behind the literal, whatever they are.\<close>

lemma getargs_copies:
  assumes p: "cur_pcb s = Some p" and as: "args (pcbs s p) = pad 95 xs" and xs: "0 \<notin> set xs" "length xs < 95" "xs \<noteq> []"
    and buf: "buf \<noteq> 0" and n: "0 < sint n"
    and ys: "c_str (ptr_mem (mem s) buf) ys" "length ys < 4294967296" "upward_ok buf lit (length ys)"
  shows "getargs lit buf n s = Some (0, s\<lparr>mem :=
    write_bytes buf (pad 95 xs) (write_bytes buf (bytes_at (mem s) lit (length ys)) (mem s))\<rparr>)"
proof -
  let ?m = "write_bytes buf (bytes_at (mem s) lit (length ys)) (mem s)"
  have c: "memcpy (mem s) buf lit (of_nat (length ys)) = ?m"
    using ys(2,3) memcpy_copies [of buf lit "of_nat (length ys)" "mem s"] by simp
  have first: "aget (pad 95 xs) 0 = Some (xs ! 0)" "xs ! 0 \<noteq> 0"
    using xs c_str_nth [OF c_str_pad [OF xs(1,2)], of 0] c_str_nonzero [OF c_str_pad [OF xs(1,2)], of 0] by simp_all
  have l: "strlen (aget (pad 95 xs)) = Some (length xs)" by (rule strlen_c_str [OF c_str_pad [OF xs(1,2)]])
  have a: "args_copy (pad 95 xs) 0 buf ?m = Some (length xs, write_bytes buf xs ?m)"
    using args_copy_copies [OF xs(1,2), of 0 buf ?m] by simp
  have "for_loop (length xs) 95 (\<lambda>i m. m(buf + of_nat i := 0)) (write_bytes buf xs ?m) = write_bytes buf (pad 95 xs) ?m"
    using zero_tail [of "length xs" 95 xs buf ?m] xs(2) by (simp add: pad_def)
  then show ?thesis
    using first l a c n buf strlen_c_str [OF ys(1)] by (simp add: getargs_def p as)
qed

lemma getargs_refuses:
  "cur_pcb s = Some p \<Longrightarrow> 0 < length (args (pcbs s p)) \<Longrightarrow> buf = 0 \<or> args (pcbs s p) ! 0 = 0 \<or> sint n \<le> 0 \<Longrightarrow>
    getargs lit buf n s = Some (- 1, s)"
  by (auto simp: getargs_def aget_def Let_def)

end
