(* ===== verification/Line_Edit.thy ===== *)
theory Line_Edit
  imports Keyboard
begin

text \<open>
  Line editing. The specification is an editor whose state is a list of bytes: a character is
  appended while there is room, backspace removes the last one, Enter delivers the line. Every
  key press implements it, from any state of the invariant \<open>kb_ok\<close>, wherever the cursor is.
  The last section joins the keyboard and the terminal driver: what is typed is what a read
  returns.
\<close>

section \<open>The editor\<close>

record editor =
  line :: "u8 list"
  shift :: bool
  caps :: bool
  entered :: "u8 list option"

definition key_value :: "bool \<Rightarrow> u8 \<Rightarrow> u8" where
  "key_value upper k =
     (let c = keyboard_char ! unat k
      in if upper \<and> c \<ge> 97 \<and> c \<le> 122 then c - 32
         else if upper then shift_keyboard_char ! unat k else c)"

definition ed_press :: "u8 \<Rightarrow> editor \<Rightarrow> editor" where
  "ed_press k e =
     (if k = CAPS_LOCK then e\<lparr>caps := \<not> caps e\<rparr>
      else if k = L_SHIFT \<or> k = R_SHIFT then e\<lparr>shift := True\<rparr>
      else if k = ENTER then e\<lparr>line := [], entered := Some (line e)\<rparr>
      else if k = BACKSPACE then e\<lparr>line := butlast (line e)\<rparr>
      else if length (line e) < 128 then e\<lparr>line := line e @ [key_value (shift e \<or> caps e) k]\<rparr>
      else e)"

definition editor_of :: "'a kern_scheme \<Rightarrow> editor" where
  "editor_of s = \<lparr>line = take (nat (length_typed s)) (input_buffer s), shift = (shift_flag s = 1),
     caps = (caps_flag s = 1),
     entered = (if can_read s = 1 then Some (take (nat (old_length_typed s)) (temp_buffer s)) else None)\<rparr>"

text \<open>The invariant. The line is never longer than the way from the corner of the screen to the
  cursor, so that backspace can always go back. The cursor can be one row below the screen,
  after an Enter at the very end of the last row.\<close>

definition kb_ok :: "'a kern_scheme \<Rightarrow> bool" where
  "kb_ok s \<longleftrightarrow> kern_shape s \<and> 0 \<le> length_typed s \<and> length_typed s \<le> 128 \<and>
     0 \<le> old_length_typed s \<and> old_length_typed s \<le> 128 \<and>
     0 \<le> cursor_x s \<and> 0 \<le> cursor_y s \<and>
     (cursor_y s \<le> 24 \<and> cursor_x s \<le> 80 \<or> cursor_y s = 25 \<and> cursor_x s = 0) \<and>
     length_typed s \<le> 80 * cursor_y s + cursor_x s"

text \<open>Between the key and the scroll.\<close>

definition kb_mid :: "'a kern_scheme \<Rightarrow> bool" where
  "kb_mid s \<longleftrightarrow> kern_shape s \<and> 0 \<le> length_typed s \<and> length_typed s \<le> 128 \<and>
     0 \<le> old_length_typed s \<and> old_length_typed s \<le> 128 \<and>
     0 \<le> cursor_x s \<and> 0 \<le> cursor_y s \<and> cursor_x s \<le> 80 \<and> cursor_y s \<le> 26 \<and>
     length_typed s \<le> 80 * cursor_y s + cursor_x s"

lemma editor_of_console: "console.more s = console.more (t :: 'a kern_scheme) \<Longrightarrow> editor_of s = editor_of t"
  unfolding editor_of_def by (simp only: kern_more_console [of s t])

lemma finish_key:
  assumes "kb_mid s"
  defines "t \<equiv> scroll_if_needed (move_cursor_to (cursor_x s) (cursor_y s) s)"
  shows "kb_ok t" and "editor_of t = editor_of s" and "console.more t = console.more s"
proof -
  show m: "console.more t = console.more s" by (simp add: t_def scroll_if_needed_cursor)
  then show "editor_of t = editor_of s" by (rule editor_of_console)
  show "kb_ok t"
    using assms(1) kern_shape_console [OF m] kern_more_console(1,8) [OF m]
    by (auto simp: kb_ok_def kb_mid_def t_def scroll_if_needed_cursor)
qed

text \<open>The wrap at the start of a key press.\<close>

definition wrapped :: "'a kern_scheme \<Rightarrow> 'a kern_scheme" where
  "wrapped s = (if cursor_x s > 79 then s\<lparr>cursor_x := 0, cursor_y := cursor_y s + 1\<rparr> else s)"

lemma wrapped_ok:
  assumes "kb_ok s"
  shows "kern_shape (wrapped s)" "length_typed (wrapped s) = length_typed s"
    "input_buffer (wrapped s) = input_buffer s" "0 \<le> cursor_x (wrapped s)" "cursor_x (wrapped s) \<le> 79"
    "0 \<le> cursor_y (wrapped s)" "cursor_y (wrapped s) \<le> 25" "editor_of (wrapped s) = editor_of s"
    "length_typed s \<le> 80 * cursor_y (wrapped s) + cursor_x (wrapped s)" "console.more (wrapped s) = console.more s"
    "0 \<le> old_length_typed (wrapped s)" "old_length_typed (wrapped s) \<le> 128"
    "0 \<le> length_typed s" "length_typed s \<le> 128"
  using assms by (auto simp: wrapped_def kb_ok_def kern_shape_def editor_of_def)

lemma kern_put_cell:
  "kern_shape (put_cell y x c s) = kern_shape s" "length_typed (put_cell y x c s) = length_typed s"
  "input_buffer (put_cell y x c s) = input_buffer s" "editor_of (put_cell y x c s) = editor_of s"
  "old_length_typed (put_cell y x c s) = old_length_typed s"
proof -
  have m: "console.more (put_cell y x c s) = console.more s" by simp
  show "kern_shape (put_cell y x c s) = kern_shape s" by (rule kern_shape_console [OF m])
  show "editor_of (put_cell y x c s) = editor_of s" by (rule editor_of_console [OF m])
  show "length_typed (put_cell y x c s) = length_typed s" "input_buffer (put_cell y x c s) = input_buffer s"
    "old_length_typed (put_cell y x c s) = old_length_typed s"
    using kern_more_console [OF m] by simp_all
qed

lemma type_char_edits:
  assumes ok: "kb_ok s" and k: "unat k < 100" "k \<noteq> BACKSPACE"
  shows "\<exists>t. type_char k (wrapped s) = Some t \<and> kb_mid t \<and>
    editor_of t = (if length (line (editor_of s)) < 128
      then (editor_of s)\<lparr>line := line (editor_of s) @ [key_value (shift (editor_of s) \<or> caps (editor_of s)) k]\<rparr>
      else editor_of s)"
proof -
  let ?s = "wrapped s"
  note w = wrapped_ok [OF ok]
  have len: "0 \<le> length_typed s" "length_typed s \<le> 128" "length (input_buffer s) = 128"
    using ok by (auto simp: kb_ok_def kern_shape_def)
  have line: "length (line (editor_of s)) = nat (length_typed s)" using len by (simp add: editor_of_def)
  show ?thesis
  proof (cases "length_typed s < 128")
    case False
    then have "type_char k ?s = Some ?s" by (simp add: type_char_def w)
    moreover have "kb_mid ?s" using w len by (simp add: kb_mid_def)
    ultimately show ?thesis using False line w by simp
  next
    case True
    define v where "v = key_value (shift_flag ?s = 1 \<or> caps_flag ?s = 1) k"
    define t where "t = put_cell (cursor_y ?s) (cursor_x ?s) v
      (?s\<lparr>input_buffer := (input_buffer s)[nat (length_typed s) := v]\<rparr>)"
    have "type_char k ?s = Some (t\<lparr>length_typed := length_typed t + 1, cursor_x := cursor_x t + 1\<rparr>)"
      using True len k by (auto simp: type_char_def w v_def t_def key_value_def Let_def key_tables aget_in aput_in)
    moreover have "kb_mid (t\<lparr>length_typed := length_typed t + 1, cursor_x := cursor_x t + 1\<rparr>)"
    proof -
      have "kern_shape (?s\<lparr>input_buffer := (input_buffer s)[nat (length_typed s) := v]\<rparr>)"
        using w(1) len by (simp add: kern_shape_def)
      then have "kern_shape t" by (simp add: t_def kern_put_cell)
      then show ?thesis using w len True by (simp add: kb_mid_def t_def kern_put_cell kern_shape_def)
    qed
    moreover have "editor_of (t\<lparr>length_typed := length_typed t + 1, cursor_x := cursor_x t + 1\<rparr>) =
      (editor_of s)\<lparr>line := line (editor_of s) @ [key_value (shift (editor_of s) \<or> caps (editor_of s)) k]\<rparr>"
    proof -
      have "take (nat (length_typed s + 1)) ((input_buffer s)[nat (length_typed s) := v]) =
          take (nat (length_typed s)) (input_buffer s) @ [v]"
        using len True by (simp add: nat_add_distrib take_Suc_conv_app_nth)
      moreover have "console.more t = console.more (?s\<lparr>input_buffer := (input_buffer s)[nat (length_typed s) := v]\<rparr>)"
        by (simp add: t_def)
      note more = kern_more_console [OF this]
      have "shift_flag ?s = shift_flag s" "caps_flag ?s = caps_flag s" "can_read ?s = can_read s"
        "old_length_typed ?s = old_length_typed s" "temp_buffer ?s = temp_buffer s"
        using kern_more_console [OF w(10)] by simp_all
      ultimately show ?thesis by (simp add: editor_of_def more v_def w)
    qed
    ultimately show ?thesis using True line len by auto
  qed
qed

lemma enter_edits:
  assumes ok: "kb_ok s"
  shows "kb_mid (press_enter (wrapped s))"
    and "editor_of (press_enter (wrapped s)) = (editor_of s)\<lparr>line := [], entered := Some (line (editor_of s))\<rparr>"
proof -
  note w = wrapped_ok [OF ok] and more = kern_more_console [OF wrapped_ok(10) [OF ok]]
  show "kb_mid (press_enter (wrapped s))"
    using w by (simp add: press_enter_def Let_def flush_def kb_mid_def kern_shape_def)
  show "editor_of (press_enter (wrapped s)) = (editor_of s)\<lparr>line := [], entered := Some (line (editor_of s))\<rparr>"
    using w by (simp add: press_enter_def Let_def flush_def editor_of_def more)
qed

lemma take_pred: "0 < n \<Longrightarrow> n \<le> length xs \<Longrightarrow> take (n - 1) xs = butlast (take n xs)"
  by (simp add: butlast_take)

lemma backspace_edits:
  assumes ok: "kb_ok s" and pos: "length_typed s > 0"
  shows "kb_mid (press_backspace (wrapped s))"
    and "editor_of (press_backspace (wrapped s)) = (editor_of s)\<lparr>line := butlast (line (editor_of s))\<rparr>"
proof -
  note w = wrapped_ok [OF ok]
  let ?s = "wrapped s"
  have len: "0 \<le> length_typed s" "length_typed s \<le> 128" "length (input_buffer s) = 128"
    using ok by (auto simp: kb_ok_def kern_shape_def)
  define x' where "x' = (if cursor_x ?s = 0 then 79 else cursor_x ?s - 1)"
  define y' where "y' = (if cursor_x ?s = 0 then cursor_y ?s - 1 else cursor_y ?s)"
  define t where "t = ?s\<lparr>cursor_x := x', cursor_y := y', length_typed := length_typed s - 1\<rparr>"
  have "\<not> (cursor_x ?s = 0 \<and> cursor_y ?s = 0)" using w pos by auto
  then have bs: "press_backspace ?s = put_cell y' x' 0x20 t"
    using w by (auto simp: press_backspace_def x'_def y'_def t_def Let_def)
  have sh: "kern_shape t" using w(1) by (simp add: t_def kern_shape_def)
  have lt: "length_typed t = length_typed s - 1" "old_length_typed t = old_length_typed ?s" by (simp_all add: t_def)
  have xy: "cursor_x t = x'" "cursor_y t = y'" by (simp_all add: t_def)
  have "0 \<le> x'" "x' \<le> 80" "0 \<le> y'" "y' \<le> 26" "length_typed s - 1 \<le> 80 * y' + x'"
    using w(4-7,9) pos by (auto simp: x'_def y'_def)
  then show "kb_mid (press_backspace ?s)"
    using sh len pos w(11,12) unfolding bs kb_mid_def kern_put_cell put_cell_cursor lt xy by simp
  have "take (nat (length_typed s - 1)) (input_buffer s) = butlast (take (nat (length_typed s)) (input_buffer s))"
    using len pos by (simp add: nat_diff_distrib butlast_take)
  then show "editor_of (press_backspace ?s) = (editor_of s)\<lparr>line := butlast (line (editor_of s))\<rparr>"
    using w(3) unfolding bs kern_put_cell by (simp add: t_def editor_of_def kern_more_console [OF w(10)])
qed

lemma flag_edits:
  assumes ok: "kb_ok s"
  shows "kb_mid (wrapped s)" "kb_mid ((wrapped s)\<lparr>shift_flag := 1\<rparr>)" "kb_mid ((wrapped s)\<lparr>caps_flag := c\<rparr>)"
    "editor_of ((wrapped s)\<lparr>shift_flag := 1\<rparr>) = (editor_of s)\<lparr>shift := True\<rparr>"
    "editor_of ((wrapped s)\<lparr>caps_flag := c\<rparr>) = (editor_of s)\<lparr>caps := (c = 1)\<rparr>"
    "(caps_flag (wrapped s) = 1) = caps (editor_of s)" "length_typed (wrapped s) = length_typed s"
proof -
  note w = wrapped_ok [OF ok]
  have len: "0 \<le> length_typed s" "length_typed s \<le> 128" using ok by (auto simp: kb_ok_def)
  show "kb_mid (wrapped s)" "kb_mid ((wrapped s)\<lparr>shift_flag := 1\<rparr>)" "kb_mid ((wrapped s)\<lparr>caps_flag := c\<rparr>)"
    using w len by (simp_all add: kb_mid_def kern_shape_def)
  show "editor_of ((wrapped s)\<lparr>shift_flag := 1\<rparr>) = (editor_of s)\<lparr>shift := True\<rparr>"
    "editor_of ((wrapped s)\<lparr>caps_flag := c\<rparr>) = (editor_of s)\<lparr>caps := (c = 1)\<rparr>"
    "(caps_flag (wrapped s) = 1) = caps (editor_of s)" "length_typed (wrapped s) = length_typed s"
    using w(2,3) by (simp_all add: editor_of_def kern_more_console [OF w(10)])
qed

text \<open>What the keys other than Control do between the wrap and the scroll.\<close>

definition key_action :: "u8 \<Rightarrow> 'a kern_scheme \<Rightarrow> 'a kern_scheme option" where
  "key_action k s =
     (if k = CAPS_LOCK then Some (if caps_flag s = 1 then s\<lparr>caps_flag := 0\<rparr> else s\<lparr>caps_flag := 1\<rparr>)
      else if k = L_SHIFT then Some (s\<lparr>shift_flag := 1\<rparr>)
      else if k = R_SHIFT then Some (s\<lparr>shift_flag := 1\<rparr>)
      else if k = ENTER then Some (press_enter s)
      else if k = BACKSPACE \<and> length_typed s > 0 then Some (press_backspace s)
      else type_char k s)"

lemma key_distinct [simp]:
  "CAPS_LOCK \<noteq> L_SHIFT" "CAPS_LOCK \<noteq> R_SHIFT" "CAPS_LOCK \<noteq> ENTER"
  "CAPS_LOCK \<noteq> BACKSPACE" "L_SHIFT \<noteq> CAPS_LOCK" "L_SHIFT \<noteq> R_SHIFT"
  "L_SHIFT \<noteq> ENTER" "L_SHIFT \<noteq> BACKSPACE" "R_SHIFT \<noteq> CAPS_LOCK"
  "R_SHIFT \<noteq> L_SHIFT" "R_SHIFT \<noteq> ENTER" "R_SHIFT \<noteq> BACKSPACE"
  "ENTER \<noteq> CAPS_LOCK" "ENTER \<noteq> L_SHIFT" "ENTER \<noteq> R_SHIFT"
  "ENTER \<noteq> BACKSPACE" "BACKSPACE \<noteq> CAPS_LOCK" "BACKSPACE \<noteq> L_SHIFT"
  "BACKSPACE \<noteq> R_SHIFT" "BACKSPACE \<noteq> ENTER"
  by (simp_all add: key_codes)

lemma type_backspace: "type_char BACKSPACE s = Some s"
  by (simp add: type_char_def)

lemma key_action_keys:
  "key_action CAPS_LOCK s = Some (s\<lparr>caps_flag := if caps_flag s = 1 then 0 else 1\<rparr>)"
  "key_action L_SHIFT s = Some (s\<lparr>shift_flag := 1\<rparr>)" "key_action R_SHIFT s = Some (s\<lparr>shift_flag := 1\<rparr>)"
  "key_action ENTER s = Some (press_enter s)"
  "key_action BACKSPACE s = Some (if length_typed s > 0 then press_backspace s else s)"
  "k \<notin> {CAPS_LOCK, L_SHIFT, R_SHIFT, ENTER, BACKSPACE} \<Longrightarrow> key_action k s = type_char k s"
  by (auto simp: key_action_def type_backspace)

lemma ed_press_keys:
  "ed_press CAPS_LOCK e = e\<lparr>caps := \<not> caps e\<rparr>"
  "ed_press L_SHIFT e = e\<lparr>shift := True\<rparr>" "ed_press R_SHIFT e = e\<lparr>shift := True\<rparr>"
  "ed_press ENTER e = e\<lparr>line := [], entered := Some (line e)\<rparr>"
  "ed_press BACKSPACE e = e\<lparr>line := butlast (line e)\<rparr>"
  "k \<notin> {CAPS_LOCK, L_SHIFT, R_SHIFT, ENTER, BACKSPACE} \<Longrightarrow> ed_press k e =
     (if length (line e) < 128 then e\<lparr>line := line e @ [key_value (shift e \<or> caps e) k]\<rparr> else e)"
  by (auto simp: ed_press_def)

lemma key_action_edits:
  assumes ok: "kb_ok s" and k: "unat k < 100"
  shows "\<exists>t. key_action k (wrapped s) = Some t \<and> kb_mid t \<and> editor_of t = ed_press k (editor_of s)"
proof -
  note f = flag_edits [OF ok]
  consider "k = CAPS_LOCK" | "k = L_SHIFT" | "k = R_SHIFT" | "k = ENTER" | "k = BACKSPACE"
    | "k \<notin> {CAPS_LOCK, L_SHIFT, R_SHIFT, ENTER, BACKSPACE}" by auto
  then show ?thesis
  proof cases
    case 1
    then show ?thesis using f(3,5) f(6) by (simp add: key_action_keys ed_press_keys)
  next
    case 2
    then show ?thesis using f(2,4) by (simp add: key_action_keys ed_press_keys)
  next
    case 3
    then show ?thesis using f(2,4) by (simp add: key_action_keys ed_press_keys)
  next
    case 4
    then show ?thesis using enter_edits [OF ok] by (simp add: key_action_keys ed_press_keys)
  next
    case 5
    have "line (editor_of s) = []" if "\<not> length_typed s > 0" using that by (simp add: editor_of_def)
    then show ?thesis
      using 5 backspace_edits [OF ok] f(1,7) wrapped_ok(8) [OF ok]
      by (cases "length_typed s > 0") (simp_all add: key_action_keys ed_press_keys)
  next
    case 6
    then show ?thesis using type_char_edits [OF ok k] by (simp add: key_action_keys(6) ed_press_keys(6))
  qed
qed

text \<open>Every key but Control implements the editor and keeps the invariant.\<close>

lemma key_press_edits:
  assumes ok: "kb_ok s" and k: "unat k < 100" "k \<noteq> CTRL"
  shows "\<exists>s'. key_press k s = Some s' \<and> kb_ok s' \<and> editor_of s' = ed_press k (editor_of s)"
proof -
  obtain t where t: "key_action k (wrapped s) = Some t" "kb_mid t" "editor_of t = ed_press k (editor_of s)"
    using key_action_edits [OF ok k(1)] by blast
  have "key_press k s = map_option (\<lambda>s2. scroll_if_needed (move_cursor_to (cursor_x s2) (cursor_y s2) s2))
      (key_action k (wrapped s))"
    using k(2) by (simp add: key_press_def Let_def wrapped_def key_action_def)
  then show ?thesis using t finish_key [OF t(2)] by simp
qed

section \<open>The keyboard interrupt\<close>

text \<open>The interrupt when the keyboard holds scancode \<open>k\<close>, as a handler that runs while the
  kernel waits. A terminal switch or a fault leaves the handler; neither happens for a press.\<close>

definition key_irq :: "klayout \<Rightarrow> frame \<Rightarrow> u8 \<Rightarrow> 'a kern_scheme \<Rightarrow> 'a kern_scheme" where
  "key_irq L fr k s = (case handle_keyboard L (\<lambda>_ _. k) fr fr 0 0 s of
     Some (Return _ s') \<Rightarrow> s' | _ \<Rightarrow> s)"

text \<open>The rows the cursor can be in, with the one below the screen.\<close>

definition in_rows :: "u32 \<Rightarrow> bool" where
  "in_rows x \<longleftrightarrow> in_region VIDEO 4160 x"

lemma put_cell_rows:
  assumes "0 \<le> x" "x \<le> 79" "0 \<le> y" "y \<le> 25" and "\<not> in_rows a"
  shows "mem (put_cell y x c s) a = mem s a"
proof -
  obtain r k where rk: "y = int r" "x = int k" "r < 26" "k < 80"
    using assms by (auto dest!: zero_le_imp_eq_int)
  then have "80 * r + k < 2080" by linarith
  moreover from this have "unat (a - VIDEO) \<noteq> 2 * (80 * r + k)" "unat (a - VIDEO) \<noteq> Suc (2 * (80 * r + k))"
    using assms(5) by (auto simp: in_rows_def in_region_def)
  ultimately have "a \<noteq> scr_at (80 * r + k)" "a \<noteq> scr_at (80 * r + k) + 1"
    by (simp_all add: screen_addr)
  then show ?thesis by (simp add: put_cell_def rk cell_addr_nat)
qed

lemma in_rows_screen: "\<not> in_rows a \<Longrightarrow> \<not> in_screen a"
  by (simp add: in_rows_def in_screen_def in_region_def)

lemma key_action_rows:
  assumes ok: "kb_ok s" and k: "unat k < 100" and a: "\<not> in_rows a"
    and t: "key_action k (wrapped s) = Some t"
  shows "mem t a = mem s a" and "ctrl_pressed t = ctrl_pressed s"
proof -
  note w = wrapped_ok [OF ok]
  let ?w = "wrapped s"
  have mw: "mem ?w a = mem s a" "ctrl_pressed ?w = ctrl_pressed s" by (simp_all add: wrapped_def)
  have cell: "mem (put_cell (cursor_y ?w) (cursor_x ?w) c u) a = mem u a" for c and u :: "'a kern_scheme"
    using put_cell_rows [OF w(4,5,6,7) a] .
  have ctrl: "ctrl_pressed (put_cell y x c u) = ctrl_pressed u" for x y c and u :: "'a kern_scheme"
    by (rule kern_more_console(3)) simp
  have ty: "mem t a = mem s a \<and> ctrl_pressed t = ctrl_pressed s" if "type_char k ?w = Some t"
    using that cell mw ctrl by (auto simp: type_char_def Let_def split: if_splits Option.bind_splits)
  have bs: "mem (press_backspace ?w) a = mem s a \<and> ctrl_pressed (press_backspace ?w) = ctrl_pressed s"
  proof -
    have "mem (put_cell y x 0x20 u) a = mem u a"
      if "0 \<le> x" "x \<le> 79" "0 \<le> y" "y \<le> 25" for x y and u :: "'a kern_scheme"
      using put_cell_rows [OF that a] .
    then show ?thesis using w(4-7) mw ctrl by (auto simp: press_backspace_def Let_def)
  qed
  show "mem t a = mem s a" "ctrl_pressed t = ctrl_pressed s"
    using t ty bs mw
    by (auto simp: key_action_def press_enter_def Let_def flush_def split: if_splits)
qed

lemma finish_rows:
  assumes "\<not> in_rows a"
  shows "mem (scroll_if_needed (move_cursor_to x y s)) a = mem s a"
  using in_rows_screen [OF assms] by (simp add: scroll_if_needed_cursor scrolled_def filled_outside)

lemma key_irq_eq:
  assumes ok: "kb_ok s" "ctrl_pressed s = 0" and k: "unat k < 100" "k \<noteq> CTRL"
  defines "s1 \<equiv> snd (inb (\<lambda>_ _. k) KEYBOARD_DATA_PORT (cli s))"
  shows "\<exists>t. key_action k (wrapped s1) = Some t \<and> kb_mid t \<and> editor_of t = ed_press k (editor_of s1) \<and>
    key_irq L fr k s = sti (send_eoi 1 (scroll_if_needed (move_cursor_to (cursor_x t) (cursor_y t) t)))"
    and "kb_ok s1" "editor_of s1 = editor_of s" "ctrl_pressed s1 = 0" "mem s1 = mem s"
proof -
  show s1: "kb_ok s1" "editor_of s1 = editor_of s" "ctrl_pressed s1 = 0" "mem s1 = mem s"
    using ok by (simp_all add: s1_def inb_def cli_def kb_ok_def kern_shape_def editor_of_def)
  obtain t where t: "key_action k (wrapped s1) = Some t" "kb_mid t" "editor_of t = ed_press k (editor_of s1)"
    using key_action_edits [OF s1(1) k(1)] by blast
  have press: "key_press k s1 = Some (scroll_if_needed (move_cursor_to (cursor_x t) (cursor_y t) t))"
    using k(2) t(1) by (simp add: key_press_def Let_def wrapped_def key_action_def)
  have rel: "k AND RELEASE = 0"
  proof -
    have "(0x80 :: u8) = push_bit 7 1" by simp
    moreover have "k AND push_bit 7 1 = 0"
    proof (rule bit_word_eqI)
      fix n assume "n < LENGTH(8)"
      have "\<not> bit (unat k) 7" using k(1) by (simp add: bit_iff_odd)
      then have "\<not> bit k 7" by (simp add: bit_unsigned_iff)
      then show "bit (k AND push_bit 7 1) n = bit (0 :: u8) n"
        unfolding bit_and_iff bit_push_bit_iff bit_1_iff by (cases "n = 7") auto
    qed
    ultimately show ?thesis by (simp add: RELEASE_def)
  qed
  have inb: "inb (\<lambda>_ _. k) KEYBOARD_DATA_PORT (cli s) = (ucast k, s1)" by (simp add: s1_def inb_def)
  have byte: "(ucast (ucast k :: u32) :: u8) = k" by (rule byte_back(1))
  have "key_irq L fr k s = sti (send_eoi 1 (scroll_if_needed (move_cursor_to (cursor_x t) (cursor_y t) t)))"
    using press rel s1(3)
    by (simp add: key_irq_def handle_keyboard_def update_buffer_and_cursor_def inb byte)
  then show "\<exists>t. key_action k (wrapped s1) = Some t \<and> kb_mid t \<and> editor_of t = ed_press k (editor_of s1) \<and>
      key_irq L fr k s = sti (send_eoi 1 (scroll_if_needed (move_cursor_to (cursor_x t) (cursor_y t) t)))"
    using t by blast
qed

lemma key_irq_edits:
  assumes ok: "kb_ok s" "ctrl_pressed s = 0" and k: "unat k < 100" "k \<noteq> CTRL"
  shows "kb_ok (key_irq L fr k s)" and "ctrl_pressed (key_irq L fr k s) = 0"
    and "editor_of (key_irq L fr k s) = ed_press k (editor_of s)"
    and "\<not> in_rows a \<Longrightarrow> mem (key_irq L fr k s) a = mem s a"
proof -
  define s1 where "s1 = snd (inb (\<lambda>_ _. k) KEYBOARD_DATA_PORT (cli s))"
  note e = key_irq_eq [OF ok k, folded s1_def]
  note s1 = e(2-5)
  obtain t where t: "key_action k (wrapped s1) = Some t" "kb_mid t" "editor_of t = ed_press k (editor_of s1)"
    "key_irq L fr k s = sti (send_eoi 1 (scroll_if_needed (move_cursor_to (cursor_x t) (cursor_y t) t)))"
    using e(1) by blast
  define u where "u = scroll_if_needed (move_cursor_to (cursor_x t) (cursor_y t) t)"
  note u = finish_key [OF t(2), folded u_def]
  have "kb_ok (sti (send_eoi 1 u))" "ctrl_pressed (sti (send_eoi 1 u)) = ctrl_pressed u"
    "editor_of (sti (send_eoi 1 u)) = editor_of u" "mem (sti (send_eoi 1 u)) = mem u"
    using u(1) by (simp_all add: send_eoi_def sti_def outb_def kb_ok_def kern_shape_def editor_of_def)
  moreover have "\<not> in_rows (VIDEO - 1)" by (simp add: in_rows_def in_region_def unsigned_minus_1_eq_mask mask_eq_exp_minus_1)
  then have "ctrl_pressed u = 0"
    using kern_more_console(3) [OF u(3)] key_action_rows(2) [OF s1(1) k(1) _ t(1)] s1(3) by simp
  ultimately show "kb_ok (key_irq L fr k s)" "ctrl_pressed (key_irq L fr k s) = 0"
    "editor_of (key_irq L fr k s) = ed_press k (editor_of s)"
    "\<not> in_rows a \<Longrightarrow> mem (key_irq L fr k s) a = mem s a"
    using u(1,2) t(3) s1 key_action_rows [OF s1(1) k(1) _ t(1)] finish_rows [of a "cursor_x t" "cursor_y t" t]
    unfolding t(4) by (simp_all add: u_def)
qed

section \<open>What is typed is what is read\<close>

lemma key_irqs_edit:
  assumes "\<forall>k \<in> set ks. unat k < 100 \<and> k \<noteq> CTRL"
  shows "kb_ok s \<Longrightarrow> ctrl_pressed s = 0 \<Longrightarrow>
    kb_ok (fold (key_irq L fr) ks s) \<and> ctrl_pressed (fold (key_irq L fr) ks s) = 0 \<and>
    editor_of (fold (key_irq L fr) ks s) = fold ed_press ks (editor_of s) \<and>
    (\<forall>a. \<not> in_rows a \<longrightarrow> mem (fold (key_irq L fr) ks s) a = mem s a)"
  using assms
proof (induction ks arbitrary: s)
  case (Cons k ks)
  then have k: "unat k < 100" "k \<noteq> CTRL" by simp_all
  note e = key_irq_edits [OF Cons.prems(1,2) k, where L = L and fr = fr]
  show ?case using Cons.IH [OF e(1,2)] Cons.prems(3) e(3,4) by simp
qed simp

text \<open>Until Enter the read goes on waiting.\<close>

lemma ed_press_entered: "k \<noteq> ENTER \<Longrightarrow> entered (ed_press k e) = entered e"
  by (simp add: ed_press_def)

lemma can_read_entered: "can_read s = 1 \<longleftrightarrow> entered (editor_of s) \<noteq> None"
  by (simp add: editor_of_def)

lemma spin_keys:
  assumes "\<forall>k \<in> set ks. unat k < 100 \<and> k \<noteq> CTRL \<and> k \<noteq> ENTER"
  shows "kb_ok s \<Longrightarrow> ctrl_pressed s = 0 \<Longrightarrow> can_read s \<noteq> 1 \<Longrightarrow>
    spin (\<lambda>s. can_read s = 1) (map (key_irq L fr) ks @ hs) s =
      spin (\<lambda>s. can_read s = 1) hs (fold (key_irq L fr) ks s) \<and> can_read (fold (key_irq L fr) ks s) \<noteq> 1"
  using assms
proof (induction ks arbitrary: s)
  case (Cons k ks)
  then have k: "unat k < 100" "k \<noteq> CTRL" "k \<noteq> ENTER" by simp_all
  note e = key_irq_edits [OF Cons.prems(1,2) k(1,2), where L = L and fr = fr]
  have "can_read (key_irq L fr k s) \<noteq> 1"
    using Cons.prems(3) e(3) k(3) by (simp add: can_read_entered ed_press_entered)
  then show ?case using Cons.IH [OF e(1,2)] Cons.prems(3,4) by simp
qed simp

text \<open>Enter makes the line ready for the read.\<close>

lemma enter_ready:
  assumes ok: "kb_ok s" "ctrl_pressed s = 0" and len: "length (line (editor_of s)) < 128"
  shows "line_ready (line (editor_of s)) (key_irq L fr ENTER s)" and "length_typed (key_irq L fr ENTER s) = 0"
proof -
  have k: "unat ENTER < 100" "ENTER \<noteq> CTRL" by (simp_all add: key_codes)
  note e = key_irq_edits [OF ok k, where L = L and fr = fr]
  let ?t = "key_irq L fr ENTER s"
  have ed: "editor_of ?t = (editor_of s)\<lparr>line := [], entered := Some (line (editor_of s))\<rparr>"
    using e(3) by (simp add: ed_press_keys)
  have t: "0 \<le> length_typed ?t" "length_typed ?t \<le> 128" "kern_shape ?t" using e(1) by (auto simp: kb_ok_def)
  have "take (nat (length_typed ?t)) (input_buffer ?t) = []"
    using arg_cong [OF ed, of line] by (simp add: editor_of_def)
  then show "length_typed ?t = 0" using t by (auto simp: kern_shape_def)
  have "entered (editor_of ?t) = Some (line (editor_of s))" by (simp add: ed)
  then have r: "can_read ?t = 1" "take (nat (old_length_typed ?t)) (temp_buffer ?t) = line (editor_of s)"
    by (auto simp: editor_of_def split: if_splits)
  have "0 \<le> old_length_typed ?t" "old_length_typed ?t \<le> 128" using e(1) by (auto simp: kb_ok_def)
  then have "length (take (nat (old_length_typed ?t)) (temp_buffer ?t)) = nat (old_length_typed ?t)"
    using t(3) by (simp add: kern_shape_def)
  then have "old_length_typed ?t = int (length (line (editor_of s)))"
    using r(2) \<open>0 \<le> old_length_typed ?t\<close> by simp
  then show "line_ready (line (editor_of s)) ?t" using r t(3) len by (simp add: line_ready_def)
qed

text \<open>The end to end statement: a read that finds no line, and then the keys of one typed and
  entered, returns the edited line with a newline, and nothing else in the buffer.\<close>

lemma typed_line_read:
  fixes L :: klayout and fr :: frame
  assumes ok: "kb_ok s" "ctrl_pressed s = 0" "can_read s \<noteq> 1"
    and ks: "\<forall>k \<in> set ks. unat k < 100 \<and> k \<noteq> CTRL \<and> k \<noteq> ENTER"
    and xs: "xs = line (fold ed_press ks (editor_of s))" "length xs < 128" "0 \<notin> set xs"
    and buf: "Suc (length xs) < unat n" "\<forall>i < unat n. \<not> in_rows (buf + of_nat i)"
  defines "s' \<equiv> line_taken xs buf (fold (key_irq L fr) (ks @ [ENTER]) ((sti s)\<lparr>mem := memset (mem s) buf 0 n\<rparr>))"
  shows "terminal_read (map (key_irq L fr) (ks @ [ENTER]) @ hs) 0 buf n s = Some (of_nat (Suc (length xs)), s')"
    and "bytes_at (mem s') buf (unat n) = xs @ 0x0A # replicate (unat n - Suc (length xs)) 0"
proof -
  define s0 where "s0 = (sti s)\<lparr>mem := memset (mem s) buf 0 n\<rparr>"
  have s0: "kb_ok s0" "ctrl_pressed s0 = 0" "can_read s0 \<noteq> 1" "editor_of s0 = editor_of s"
    using ok by (simp_all add: s0_def sti_def kb_ok_def kern_shape_def editor_of_def)
  define s1 where "s1 = fold (key_irq L fr) ks s0"
  define s2 where "s2 = key_irq L fr ENTER s1"
  have ks': "\<forall>k \<in> set ks. unat k < 100 \<and> k \<noteq> CTRL" using ks by blast
  have s1: "kb_ok s1" "ctrl_pressed s1 = 0" "line (editor_of s1) = xs" "\<And>a. \<not> in_rows a \<Longrightarrow> mem s1 a = mem s0 a"
    using key_irqs_edit [OF ks' s0(1,2), where L = L and fr = fr] s0(4) xs(1) by (simp_all add: s1_def)
  have ready: "line_ready xs s2" "length_typed s2 = 0"
    using enter_ready [OF s1(1,2), where L = L and fr = fr] s1(3) xs(2) by (simp_all add: s2_def)
  have kE: "unat ENTER < 100" "ENTER \<noteq> CTRL" by (simp_all add: key_codes)
  have "mem s2 (buf + of_nat i) = 0" if "i < unat n" for i
  proof -
    have out: "\<not> in_rows (buf + of_nat i)" using buf(2) that by blast
    have "mem s0 (buf + of_nat i) = 0"
      using that unat_u32_less [of n] by (simp add: s0_def memset_fill write_bytes_def in_region_def)
    then show ?thesis
      using key_irq_edits(4) [OF s1(1,2) kE out, where L = L and fr = fr] s1(4) [OF out] by (simp add: s2_def)
  qed
  then have clear: "bytes_at (mem s2) buf (unat n) = replicate (unat n) 0"
    by (intro nth_equalityI) (simp_all add: nth_bytes_at)
  have "spin (\<lambda>s. can_read s = 1) (map (key_irq L fr) (ks @ [ENTER]) @ hs) s0 = Some (s2, hs)"
    using spin_keys [OF ks s0(1-3), where L = L and fr = fr and hs = "key_irq L fr ENTER # hs"] ready(1)
    by (cases hs) (simp_all add: s1_def [symmetric] s2_def [symmetric] line_ready_def)
  then have w: "waited (map (key_irq L fr) (ks @ [ENTER]) @ hs) buf n s s2"
    unfolding waited_def s0_def by blast
  have "0 \<le> length_typed s2" "length_typed s2 + 1 < int (unat n)" using ready(2) buf(1) by linarith+
  note r = terminal_read_line [OF w ready(1) this xs(3) buf(1) clear]
  have s': "s' = line_taken xs buf s2" by (simp add: s'_def s2_def s1_def s0_def)
  show "terminal_read (map (key_irq L fr) (ks @ [ENTER]) @ hs) 0 buf n s = Some (of_nat (Suc (length xs)), s')"
    "bytes_at (mem s') buf (unat n) = xs @ 0x0A # replicate (unat n - Suc (length xs)) 0"
    unfolding s' by (rule r)+
qed

end
