(* ===== verification/Idt.thy ===== *)
theory Idt
  imports Printf
begin

text \<open>
  The interrupt descriptor table and the exception handlers, \<^verbatim>\<open>student-distrib/idt.c\<close> with
  the descriptor layout and the macro \<open>SET_IDT_ENTRY\<close> of \<^verbatim>\<open>x86_desc.h\<close>. The addresses the
  linker gives the handlers are a parameter.
\<close>

datatype handler = Divide_by_zero | Debug_exception | Non_maskable_interrupt | Breakpoint | Overflow
  | Bound_range_exceeded | Invalid_opcode | Device_not_available | Double_fault
  | Coprocessor_segment_overrun | Invalid_TSS | Stack_segment_fault | Segment_not_present
  | General_protection_fault | Page_fault | Floating_point | Alignment_check | Machine_check
  | SIMD_floating_point | Undefined_interrupt | Keyboard_handler | Rtc_test_handler | Syscall_handler

record idt_desc =
  offset_15_00 :: u16
  seg_selector :: u16
  reserved4 :: u8
  reserved3 :: bool
  reserved2 :: bool
  reserved1 :: bool
  size32 :: bool
  reserved0 :: bool
  dpl :: nat
  present :: bool
  offset_31_16 :: u16

record idt_state =
  idtr :: "u32 option"
  idt :: "nat \<Rightarrow> idt_desc"

abbreviation NUM_VEC :: nat where "NUM_VEC \<equiv> 256"
abbreviation TOTAL_EXCEPTIONS :: nat where "TOTAL_EXCEPTIONS \<equiv> 32"
abbreviation SYSTEM_CALL_INDEX :: nat where "SYSTEM_CALL_INDEX \<equiv> 0x80"
definition KERNEL_CS :: u16 where "KERNEL_CS = 0x10"

definition SET_IDT_ENTRY :: "u32 \<Rightarrow> idt_desc \<Rightarrow> idt_desc" where
  "SET_IDT_ENTRY handler str =
     str\<lparr>offset_31_16 := ucast (drop_bit 16 (handler AND 0xFFFF0000)),
         offset_15_00 := ucast (handler AND 0xFFFF)\<rparr>"

section \<open>Filling the table\<close>

definition init_entry :: "(handler \<Rightarrow> u32) \<Rightarrow> nat \<Rightarrow> idt_desc \<Rightarrow> idt_desc" where
  "init_entry addr idt_i d =
     (let d1 = d\<lparr>present := True\<rparr>;
          d2 = (if idt_i \<noteq> SYSTEM_CALL_INDEX then d1\<lparr>dpl := 0\<rparr> else d1\<lparr>dpl := 3\<rparr>);
          d3 = d2\<lparr>reserved0 := False, reserved1 := True, reserved2 := True, reserved3 := True,
                  reserved4 := 0, size32 := True, seg_selector := KERNEL_CS\<rparr>
      in if idt_i < TOTAL_EXCEPTIONS \<or> idt_i = 0x28 then d3\<lparr>reserved0 := False\<rparr>
         else SET_IDT_ENTRY (addr Undefined_interrupt) (d3\<lparr>reserved3 := False\<rparr>))"

definition set_vector :: "(handler \<Rightarrow> u32) \<Rightarrow> nat \<times> handler \<Rightarrow> (nat \<Rightarrow> idt_desc) \<Rightarrow> (nat \<Rightarrow> idt_desc)" where
  "set_vector addr vh t = t(fst vh := SET_IDT_ENTRY (addr (snd vh)) (t (fst vh)))"

text \<open>Lines 276 to 297.\<close>

definition named_vectors :: "(nat \<times> handler) list" where
  "named_vectors =
     [(0x00, Divide_by_zero), (0x01, Debug_exception), (0x02, Non_maskable_interrupt),
      (0x03, Breakpoint), (0x04, Overflow), (0x05, Bound_range_exceeded), (0x06, Invalid_opcode),
      (0x07, Device_not_available), (0x08, Double_fault), (0x09, Coprocessor_segment_overrun),
      (0x0A, Invalid_TSS), (0x0B, Stack_segment_fault), (0x0C, Segment_not_present),
      (0x0D, General_protection_fault), (0x0E, Page_fault), (0x0F, Floating_point),
      (0x10, Alignment_check), (0x11, Machine_check), (0x12, SIMD_floating_point),
      (0x21, Keyboard_handler), (0x28, Rtc_test_handler), (0x80, Syscall_handler)]"

definition initialize_idt :: "u32 \<Rightarrow> (handler \<Rightarrow> u32) \<Rightarrow> idt_state \<Rightarrow> idt_state" where
  "initialize_idt idt_desc_ptr addr s =
     (let s1 = s\<lparr>idtr := Some idt_desc_ptr\<rparr>;
          t = for_loop 0 NUM_VEC (\<lambda>idt_i t. t(idt_i := init_entry addr idt_i (t idt_i))) (idt s1)
      in s1\<lparr>idt := fold (set_vector addr) named_vectors t\<rparr>)"

section \<open>The exception handlers\<close>

text \<open>The message each prints. None of them returns: the result is the state in which it loops.\<close>

fun exception_message :: "handler \<Rightarrow> string option" where
  "exception_message Divide_by_zero = Some ''Divide by zero exception.''"
| "exception_message Debug_exception = Some ''Debug exception.''"
| "exception_message Non_maskable_interrupt = Some ''Non-maskable interrupt.''"
| "exception_message Breakpoint = Some ''Breakpoint exception.''"
| "exception_message Overflow = Some ''Overflow exception.''"
| "exception_message Bound_range_exceeded = Some ''Bound range exceeded.''"
| "exception_message Invalid_opcode = Some ''Invalid opcode.''"
| "exception_message Device_not_available = Some ''Device not available.''"
| "exception_message Double_fault = Some ''Double fault.''"
| "exception_message Coprocessor_segment_overrun = Some ''Coprocessor segment overrun.''"
| "exception_message Invalid_TSS = Some ''Invalid TSS.''"
| "exception_message Stack_segment_fault = Some ''Stack segment fault.''"
| "exception_message Segment_not_present = Some ''Segment not present.''"
| "exception_message General_protection_fault = Some ''General protection fault.''"
| "exception_message Page_fault = Some ''Page fault.''"
| "exception_message Floating_point = Some ''Floating point exception.''"
| "exception_message Alignment_check = Some ''Alignment check exception.''"
| "exception_message Machine_check = Some ''Machine check exception.''"
| "exception_message SIMD_floating_point = Some ''SIMD floating point exception.''"
| "exception_message _ = None"

definition string_arg :: "string \<Rightarrow> varg" where
  "string_arg cs = Str (aget (chars cs @ [0]))"

definition run_exception :: "u32 \<Rightarrow> handler \<Rightarrow> 'a console_scheme \<Rightarrow> 'a console_scheme option" where
  "run_exception cr2 h s =
     Option.bind (exception_message h) (\<lambda>msg.
     Option.bind (if h = Page_fault then printf (chars ''CR2: %x'' @ [0x0A]) [Word cr2] (cli s)
                  else Some (0, cli s)) (\<lambda>(_, s1).
     Option.bind (printf (chars ''%s'' @ [0x0A]) [string_arg msg] s1) (\<lambda>(_, s2).
       Some (sti s2))))"

definition undefined_interrupt :: "'a console_scheme \<Rightarrow> 'a console_scheme option" where
  "undefined_interrupt s = map_option snd (printf (chars ''An undefined interrupt was fired.'') [] s)"

section \<open>What the table holds\<close>

text \<open>The address a gate leads to, and its kind: a trap gate leaves the interrupt flag alone,
  an interrupt gate clears it.\<close>

definition gate_offset :: "idt_desc \<Rightarrow> u32" where
  "gate_offset d = push_bit 16 (ucast (offset_31_16 d)) OR ucast (offset_15_00 d)"

definition trap_gate :: "idt_desc \<Rightarrow> bool" where
  "trap_gate d \<longleftrightarrow> present d \<and> size32 d \<and> reserved1 d \<and> reserved2 d \<and> reserved3 d \<and> \<not> reserved0 d"

definition interrupt_gate :: "idt_desc \<Rightarrow> bool" where
  "interrupt_gate d \<longleftrightarrow> present d \<and> size32 d \<and> reserved1 d \<and> reserved2 d \<and> \<not> reserved3 d \<and> \<not> reserved0 d"

lemma gate_offset_set [simp]: "gate_offset (SET_IDT_ENTRY a d) = a"
proof -
  have m: "(0xFFFF0000 :: u32) = NOT (mask 16)" "(0xFFFF :: u32) = mask 16"
    by (simp_all add: mask_eq_exp_minus_1)
  show ?thesis
    unfolding gate_offset_def SET_IDT_ENTRY_def m
    by (intro bit_word_eqI) (auto simp: bit_simps)
qed

lemma set_entry_kind [simp]:
  "trap_gate (SET_IDT_ENTRY a d) = trap_gate d" "interrupt_gate (SET_IDT_ENTRY a d) = interrupt_gate d"
  "dpl (SET_IDT_ENTRY a d) = dpl d" "seg_selector (SET_IDT_ENTRY a d) = seg_selector d"
  by (simp_all add: SET_IDT_ENTRY_def trap_gate_def interrupt_gate_def)

lemma init_entry_kind:
  "trap_gate (init_entry addr i d) \<longleftrightarrow> i < 32 \<or> i = 0x28"
  "interrupt_gate (init_entry addr i d) \<longleftrightarrow> \<not> (i < 32 \<or> i = 0x28)"
  "dpl (init_entry addr i d) = (if i = 0x80 then 3 else 0)"
  "seg_selector (init_entry addr i d) = KERNEL_CS"
  "gate_offset (init_entry addr i d) = (if i < 32 \<or> i = 0x28 then gate_offset d else addr Undefined_interrupt)"
  by (auto simp: init_entry_def Let_def)
    (simp_all add: trap_gate_def interrupt_gate_def gate_offset_def)

lemma fill_idt:
  "for_loop 0 n (\<lambda>i t. t(i := init_entry addr i (t i))) t = (\<lambda>i. if i < n then init_entry addr i (t i) else t i)"
  by (induction n) (auto simp: for_loop_Suc fun_eq_iff less_Suc_eq)

lemma set_vectors_at:
  "distinct (map fst vs) \<Longrightarrow> fold (set_vector addr) vs t i =
     (case map_of vs i of None \<Rightarrow> t i | Some h \<Rightarrow> SET_IDT_ENTRY (addr h) (t i))"
proof (induction vs arbitrary: t)
  case (Cons v vs)
  have "map_of vs (fst v) = None" using Cons.prems by (simp add: map_of_eq_None_iff)
  then show ?case using Cons by (auto simp: set_vector_def split: option.splits)
qed simp

lemma named_vectors_distinct: "distinct (map fst named_vectors)"
  by (simp add: named_vectors_def)

text \<open>Every vector of the finished table.\<close>

lemma initialize_idt_at:
  assumes "v < 256"
  shows "idt (initialize_idt p addr s) v =
    (case map_of named_vectors v of
       None \<Rightarrow> init_entry addr v (idt s v)
     | Some h \<Rightarrow> SET_IDT_ENTRY (addr h) (init_entry addr v (idt s v)))"
  using assms set_vectors_at [OF named_vectors_distinct]
  by (simp add: initialize_idt_def Let_def fill_idt split: option.split)

text \<open>What an exception prints before it loops, with interrupts on.\<close>

definition exception_text :: "u32 \<Rightarrow> handler \<Rightarrow> string \<Rightarrow> u8 list" where
  "exception_text cr2 h msg =
     (if h = Page_fault then chars ''CR2: '' @ hex_text cr2 @ [0x0A] else []) @ chars msg @ [0x0A]"

lemma message_no_zero: "exception_message h = Some msg \<Longrightarrow> 0 \<notin> set (chars msg)"
  by (cases h) (auto simp: chars_def)

lemma printf_line:
  "0 \<notin> set (chars msg) \<Longrightarrow>
    printf (chars ''%s'' @ [0x0A]) [string_arg msg] s = Some (3, fold putc (chars msg @ [0x0A]) s)"
  using printf_render(1) [of "[Txt (chars msg)]" "chars ''%s'' @ [0x0A]" 0 s]
  by (simp add: printf_def string_arg_def chars_def)

lemma printf_cr2:
  "printf (chars ''CR2: %x'' @ [0x0A]) [Word w] s =
    Some (8, fold putc (chars ''CR2: '' @ hex_text w @ [0x0A]) s)"
  using printf_render(1) [of "[Num w]" "chars ''CR2: %x'' @ [0x0A]" 0 s]
  by (simp add: printf_def chars_def)

lemma run_exception_prints:
  assumes "exception_message h = Some msg"
  shows "run_exception cr2 h s = Some (sti (fold putc (exception_text cr2 h msg) (cli s)))"
  using assms message_no_zero [OF assms]
  by (simp add: run_exception_def printf_line printf_cr2 exception_text_def)

lemma exception_message_total: "v < 19 \<Longrightarrow> \<exists>h. map_of named_vectors v = Some h \<and> exception_message h \<noteq> None"
  by (simp add: named_vectors_def numeral_eq_Suc less_Suc_eq) auto

end
