(* ===== verification/Sample.thy ===== *)
theory Sample
  imports Calls_Spec Line_Edit Idt Switching
begin

text \<open>
  A concrete kernel: zeroed globals, a file system image with one program \<open>shell\<close> of 40 bytes
  and the entry \<open>rtc\<close>, a linker layout. The properties that have hypotheses are applied to it.
\<close>

text \<open>The image at \<open>0x500000\<close>: boot block, one inode, one data block.\<close>

definition img0 :: u32 where "img0 = 0x500000"

definition image_cells :: "(u32 \<times> u8) list" where
  "image_cells =
     [(0, 2), (4, 1), (8, 1),
      (64, 0x73), (65, 0x68), (66, 0x65), (67, 0x6C), (68, 0x6C), (96, 2),
      (128, 0x72), (129, 0x74), (130, 0x63),
      (4096, 40),
      (8192, 0x7F), (8193, 0x45), (8194, 0x4C), (8195, 0x46),
      (8217, 0x81), (8218, 0x04), (8219, 0x08)]"

definition image_mem :: mem where
  "image_mem a = (case map_of image_cells (a - img0) of Some v \<Rightarrow> v | None \<Rightarrow> 0)"

definition zero_fd :: FILE_DATA where
  "zero_fd = \<lparr>fops = None, in_use = 0, file_pos = 0, info = 0\<rparr>"

definition zero_pcb :: pcb where
  "zero_pcb = \<lparr>process_num = 0, parent_sp = 0, parent_bp = 0, parent_pcb = None, pname = replicate 32 0,
     args = replicate 95 0, fd_array = replicate 8 zero_fd, term_start = 0\<rparr>"

definition zero_term :: terminal where
  "zero_term = \<lparr>been_here = 0, term_cursor_x = 0, term_cursor_y = 0, keyboard_buffer = replicate 128 0,
     vid_mem = 0, running_pcb = None, current_esp = 0, current_ebp = 0, esp0 = 0\<rparr>"

definition kernel0 :: kern where
  "kernel0 = \<lparr>mem = image_mem, ports = [], intr = False, cursor_x = 0, cursor_y = 0,
     master_mask = 0xFF, slave_mask = 0xFF, rtc_interrupt_happened = 0,
     page_directory_set = \<lambda>_ _. 0, page_table = \<lambda>_. 0, v_m_page_table = \<lambda>_. 0,
     cr0 = 1, cr3 = 0, cr4 = 0, start_fs = img0, directoryIndex = 0,
     length_typed = 0, input_buffer = replicate 128 0, ctrl_pressed = 0, shift_flag = 0, caps_flag = 0,
     can_read = 0, temp_buffer = replicate 128 0, old_length_typed = 0, term_count = 0,
     current_terminal = 0, terms = replicate 3 zero_term, pcbs = \<lambda>_. zero_pcb, processes = 0,
     correct_eip = 0, old_ebp = 0, old_esp = 0, esp_store = 0, ebp_store = 0, tss_esp0 = 0\<rparr>"

text \<open>The same with process 0 running in terminal 0.\<close>

definition kernel1 :: kern where
  "kernel1 = kernel0\<lparr>terms := (replicate 3 zero_term)[0 := zero_term\<lparr>been_here := 1, running_pcb := Some 0\<rparr>],
     processes := 1\<rparr>"

text \<open>And with the program open as file descriptor 2.\<close>

definition kernel2 :: kern where
  "kernel2 = kernel1\<lparr>pcbs := \<lambda>p. zero_pcb\<lparr>fd_array := (replicate 8 zero_fd)
     [2 := \<lparr>fops = Some File_fops, in_use = 1, file_pos = 0, info = 0\<rparr>]\<rparr>\<rparr>"

definition lay :: klayout where
  "lay = \<lparr>dirs_addr = 0x410000, pt_addr = 0x420000, vm_addr = 0x430000, entry_point = 0x440000\<rparr>"

text \<open>A device that answers every read with zero.\<close>

definition dev0 :: device where "dev0 h port = 0"

definition idt0 :: idt_state where
  "idt0 = \<lparr>idtr = None, idt = \<lambda>_. \<lparr>offset_15_00 = 0, seg_selector = 0, reserved4 = 0, reserved3 = False,
     reserved2 = False, reserved1 = False, size32 = False, reserved0 = False, dpl = 0, present = False,
     offset_31_16 = 0\<rparr>\<rparr>"

section \<open>It meets the invariants\<close>

lemma sample_shape [simp]: "kern_shape kernel0" "kern_shape kernel1" "kern_shape kernel2"
  by (auto simp: kern_shape_def pcb_shape_def kernel0_def kernel1_def kernel2_def zero_pcb_def zero_term_def
      numeral_eq_Suc)

lemma sample_on_screen [simp]: "on_screen kernel0" "on_screen kernel1" "on_screen kernel2"
  by (simp_all add: on_screen_def kernel0_def kernel1_def kernel2_def)

lemma sample_current [simp]: "cur_pcb kernel1 = Some 0" "cur_pcb kernel2 = Some 0"
  "current_terminal kernel0 = 0" "terms kernel0 = replicate 3 zero_term"
  by (simp_all add: cur_pcb_def cur_term_def kernel0_def kernel1_def kernel2_def aget_def)

lemma sample_pcbs [simp]: "pcbs kernel0 p = zero_pcb" "pcbs kernel1 p = zero_pcb"
  "fd_array (pcbs kernel2 p) = (replicate 8 zero_fd)
     [2 := \<lparr>fops = Some File_fops, in_use = 1, file_pos = 0, info = 0\<rparr>]"
  by (simp_all add: kernel0_def kernel1_def kernel2_def)

lemma sample_fds [simp]: "fds_ok kernel0" "fds_ok kernel1" "fds_ok kernel2"
proof -
  have z: "fd_array zero_pcb ! fd = zero_fd" if "fd < 8" for fd
    using that by (simp add: zero_pcb_def)
  then show "fds_ok kernel0" "fds_ok kernel1"
    by (simp_all add: fds_ok_def fd_ok_def) (simp_all add: zero_fd_def)
  show "fds_ok kernel2"
    by (auto simp: fds_ok_def fd_ok_def nth_list_update) (simp_all add: zero_fd_def)
qed

lemma sample_kb [simp]: "kb_ok kernel0" "ctrl_pressed kernel0 = 0" "can_read kernel0 = 0"
  "editor_of kernel0 = \<lparr>line = [], shift = False, caps = False, entered = None\<rparr>"
  by (simp_all add: kb_ok_def editor_of_def) (simp_all add: kernel0_def)

lemma sample_layout [simp]: "layout_ok (layout.truncate lay)"
  by (simp add: layout_ok_def lay_def layout.truncate_def)

lemma sample_fs [simp]: "start_fs kernel0 = img0" "start_fs kernel1 = img0" "start_fs kernel2 = img0"
  "mem kernel0 = image_mem" "mem kernel1 = image_mem" "mem kernel2 = image_mem"
  by (simp_all add: kernel0_def kernel1_def kernel2_def)

text \<open>After paging is on, and with process \<open>p\<close> loaded and the screen mapped.\<close>

abbreviation lay' :: layout where "lay' \<equiv> layout.truncate lay"

definition booted :: kern where "booted = enable_paging lay' kernel0"

definition with_image :: "nat \<Rightarrow> kern" where
  "with_image p = load_video_mem lay' 0 (the (load_new_process lay' (of_nat p) booted))"

lemma sample_booted [simp]: "paging_view lay' booted None False"
  unfolding booted_def by (rule enable_paging_view) (simp_all, simp add: kernel0_def)

lemma sample_image [simp]:
  assumes "p < 8"
  shows "paging_view lay' (with_image p) (Some p) True"
proof -
  obtain s where s: "load_new_process lay' (of_nat p) booted = Some s"
    using load_new_process_eq [OF assms] by blast
  then have "paging_view lay' s (Some p) False"
    by (rule load_new_process_view [OF sample_booted sample_layout assms])
  then show ?thesis using load_video_mem_view [OF _ sample_layout] s by (simp add: with_image_def)
qed

text \<open>The image is well-formed, and the program in it starts with the executable's four bytes.\<close>

lemma sample_words [simp]: "load32 image_mem img0 = 2" "load32 image_mem (img0 + 4) = 1"
  "load32 image_mem (img0 + 8) = 1" "image_mem img0 = 2"
  by (simp_all add: load32_def image_mem_def image_cells_def img0_def)

lemma sample_file [simp]: "inodes_of image_mem img0 = 1" "file_len image_mem img0 0 = 40"
  "block_no image_mem img0 0 0 = 0"
  by (simp_all add: inodes_of_def file_len_def node_addr_def block_no_def ptr_addr_def)
    (simp_all add: load32_def image_mem_def image_cells_def img0_def)

lemma sample_wf [simp]: "wf_file image_mem img0 12288 0"
proof -
  have "block_no image_mem img0 0 j < 1" if "4096 * j < 40" for j
  proof -
    have "j = 0" using that by simp
    then show ?thesis by simp
  qed
  then show ?thesis by (simp add: wf_file_def) (simp add: img0_def)
qed

lemma sample_data: "p < 40 \<Longrightarrow> data_addr image_mem img0 0 p = img0 + 8192 + of_nat p"
proof -
  assume "p < 40"
  then have "p div 4096 = 0" "p mod 4096 = p" by auto
  moreover have "load32 image_mem (ptr_addr img0 0 0) = 0"
    using sample_file(3) by (simp only: block_no_def)
  ultimately show ?thesis by (simp add: data_addr_def block_at_def)
qed

lemma sample_contents: "take 4 (contents image_mem img0 0) = [0x7F, 0x45, 0x4C, 0x46]"
    "take 4 (drop 24 (contents image_mem img0 0)) = [0, 0x81, 0x04, 0x08]"
proof -
  have n: "contents image_mem img0 0 ! p = image_mem (img0 + 8192 + of_nat p)" if "p < 40" for p
    using that by (simp add: contents_def sample_data)
  have t: "take 4 (drop k (contents image_mem img0 0)) =
      map (\<lambda>i. image_mem (img0 + 8192 + of_nat (k + i))) [0..<4]" if "k < 36" for k
    using that n by (intro nth_equalityI) simp_all
  show "take 4 (contents image_mem img0 0) = [0x7F, 0x45, 0x4C, 0x46]"
    using t [of 0] by (simp add: upt_rec image_mem_def image_cells_def img0_def)
  show "take 4 (drop 24 (contents image_mem img0 0)) = [0, 0x81, 0x04, 0x08]"
    using t [of 24] by (simp add: upt_rec image_mem_def image_cells_def img0_def)
qed

text \<open>The entry \<open>shell\<close>.\<close>

lemma sample_shell: "c_str (c_lit ''shell'') (chars ''shell'')"
  "filter (starts_with image_mem img0 (chars ''shell'')) [0..<2] = [0]"
  "file_type (dentry_bytes image_mem (dir_addr img0 0)) = 2" "inode_num (dentry_bytes image_mem (dir_addr img0 0)) = 0"
proof -
  show "c_str (c_lit ''shell'') (chars ''shell'')" by (rule c_str_lit) (simp add: chars_def)
  have "starts_with image_mem img0 (chars ''shell'') 0" "\<not> starts_with image_mem img0 (chars ''shell'') 1"
    by (simp_all add: starts_with_def bytes_at_def dir_addr_def upt_rec image_mem_def image_cells_def img0_def chars_def)
  then show "filter (starts_with image_mem img0 (chars ''shell'')) [0..<2] = [0]"
    by (simp add: upt_rec)
  show "file_type (dentry_bytes image_mem (dir_addr img0 0)) = 2" "inode_num (dentry_bytes image_mem (dir_addr img0 0)) = 0"
    by (simp_all add: dentry_bytes_def load32_def dir_addr_def image_mem_def image_cells_def img0_def)
qed

text \<open>With paging on: process 0 in terminal 0; and with process 1 in terminal 1 too, every
  terminal with its page for the screen.\<close>

definition frame0 :: frame where "frame0 = \<lparr>esp = 0x7FDE00, ebp = 0x7FDE80, exec_buf = 0x7FDF00\<rparr>"

definition running1 :: kern where "running1 = enable_paging lay' kernel1"

definition running2 :: kern where
  "running2 = running1\<lparr>processes := 3, pcbs := \<lambda>p. zero_pcb\<lparr>process_num := of_nat p, term_start := (if p = 1 then 1 else 0)\<rparr>,
     terms := [zero_term\<lparr>been_here := 1, running_pcb := Some 0, vid_mem := 0xB9000\<rparr>,
       zero_term\<lparr>been_here := 1, running_pcb := Some 1, vid_mem := 0xBA000\<rparr>, zero_term\<lparr>vid_mem := 0xBB000\<rparr>]\<rparr>"

lemma sample_running [simp]:
  "start_fs running1 = img0" "mem running1 = image_mem" "processes running1 = 1" "current_terminal running1 = 0"
  "terms running1 = (replicate 3 zero_term)[0 := zero_term\<lparr>been_here := 1, running_pcb := Some 0\<rparr>]"
  "pcbs running1 p = zero_pcb" "kern_shape running1" "fds_ok running1"
proof -
  have m: "paging.more running1 = paging.more kernel1" by (simp add: running1_def)
  note e = kern_more_paging [OF m]
  show "start_fs running1 = img0" "mem running1 = image_mem" "processes running1 = 1" "current_terminal running1 = 0"
    "terms running1 = (replicate 3 zero_term)[0 := zero_term\<lparr>been_here := 1, running_pcb := Some 0\<rparr>]"
    "pcbs running1 p = zero_pcb"
    using e by (simp_all add: running1_def) (simp_all add: kernel1_def kernel0_def)
  have "kern_shape running1 = kern_shape kernel1" unfolding kern_shape_def by (simp only: e)
  then show "kern_shape running1" by simp
  then show "fds_ok running1" using sample_fds(2) by (simp add: fds_ok_def e(3))
qed

lemma sample_running_view [simp]: "paging_view lay' running1 None False" "paging_view lay' running2 None False"
proof -
  show "paging_view lay' running1 None False"
    unfolding running1_def by (rule enable_paging_view) (simp_all, simp add: kernel1_def kernel0_def)
  then show "paging_view lay' running2 None False" by (simp add: running2_def paging_view_def)
qed

lemma sample_stacks: "stacks running1 (\<lambda>c. if c = 0 then [0] else [])"
proof -
  have b: "bit (1 :: u8) i \<longleftrightarrow> i = 0" for i by (simp add: bit_1_iff)
  show ?thesis
    unfolding stacks_def
    by (auto simp: less_Suc_eq numeral_3_eq_3 nth_Cons' b zero_pcb_def base_process_def zero_term_def)
qed

lemma sample_startable_at:
  assumes "mem s = image_mem" and "start_fs s = img0" and "processes s = n" and "n = 0 \<and> p = 0 \<or> n = 1 \<and> p = 1"
  shows "startable lay frame0 12288 (chars ''shell'') 0 p s"
proof -
  have f: "found (chars ''shell'') s = Some (dentry_bytes image_mem (dir_addr img0 0))"
    using sample_shell(2) assms(1,2) by (simp add: found_def)
  have s: "\<exists>ps. free_slots 0 n = p # ps"
    using assms(4) by (auto simp: free_slots_def upt_rec)
  have d: "disjoint_region img0 12288 0x440000 4" "disjoint_region img0 12288 0x7FDF00 4"
    "disjoint_region img0 12288 (image_base p) 40" "disjoint_region 0x440000 4 (image_base p) 40"
    using assms(4) by (auto simp: disjoint_region_def in_region_nowrap img0_def image_base_def)
  have c: "cmd_name (chars ''shell'') = chars ''shell''" "chars ''shell'' \<noteq> []" "entry_point lay = 0x440000"
    "exec_buf frame0 = 0x7FDF00" "take 4 (contents image_mem img0 0) = EXEC_BITS"
    using shell_command(3) sample_contents(1) by (simp_all add: EXEC_BITS_def lay_def frame0_def) (simp add: chars_def)
  show ?thesis
    using f s d sample_shell(4) c assms by (simp add: startable_def loadable_def Let_def)
qed

lemma sample_startable:
  "startable lay frame0 12288 (chars ''shell'') 0 1 running1"
  "startable lay frame0 12288 (chars ''shell'') 0 0 (running1\<lparr>processes := 0\<rparr>)"
  by (rule sample_startable_at; simp)+

end
