(* ===== verification/Boot.thy ===== *)
theory Boot
  imports Switching Idt
begin

text \<open>
  The start of the kernel, \<open>entry\<close> of \<^verbatim>\<open>student-distrib/kernel.c\<close>, with the macros of
  \<^verbatim>\<open>x86_desc.h\<close> and the layout of the boot loader's structures of
  \<^verbatim>\<open>multiboot.h\<close>: it reports what the boot loader left, takes the first module for the file
  system, fills the descriptors, starts the devices and paging, and executes the shell. The
  addresses and sizes the linker fixes are parameters.
\<close>

section \<open>Descriptors\<close>

record seg_desc =
  seg_lim_15_00 :: u16
  base_15_00 :: u16
  base_23_16 :: u8
  seg_type :: nat
  seg_sys :: bool
  seg_dpl :: nat
  seg_present :: bool
  seg_lim_19_16 :: u8
  avail :: bool
  seg_reserved :: bool
  opsize :: bool
  granularity :: bool
  base_31_24 :: u8

definition SET_LDT_PARAMS :: "u32 \<Rightarrow> u32 \<Rightarrow> seg_desc \<Rightarrow> seg_desc" where
  "SET_LDT_PARAMS addr lim str =
     str\<lparr>base_31_24 := ucast (drop_bit 24 (addr AND 0xFF000000)),
         base_23_16 := ucast (drop_bit 16 (addr AND 0x00FF0000)),
         base_15_00 := ucast (addr AND 0x0000FFFF),
         seg_lim_19_16 := ucast (drop_bit 16 (lim AND 0x000F0000)),
         seg_lim_15_00 := ucast (lim AND 0x0000FFFF)\<rparr>"

definition SET_TSS_PARAMS :: "u32 \<Rightarrow> u32 \<Rightarrow> seg_desc \<Rightarrow> seg_desc" where
  "SET_TSS_PARAMS addr lim str =
     str\<lparr>base_31_24 := ucast (drop_bit 24 (addr AND 0xFF000000)),
         base_23_16 := ucast (drop_bit 16 (addr AND 0x00FF0000)),
         base_15_00 := ucast (addr AND 0x0000FFFF),
         seg_lim_19_16 := ucast (drop_bit 16 (lim AND 0x000F0000)),
         seg_lim_15_00 := ucast (lim AND 0x0000FFFF)\<rparr>"

definition TSS_SIZE :: u32 where "TSS_SIZE = 104"
definition KERNEL_DS :: u16 where "KERNEL_DS = 0x18"
definition KERNEL_TSS :: u16 where "KERNEL_TSS = 0x30"
definition KERNEL_LDT :: u16 where "KERNEL_LDT = 0x38"

text \<open>The globals that only the start of the kernel writes.\<close>

record boot = kern +
  idts :: idt_state
  ldt_desc_ptr :: seg_desc
  tss_desc_ptr :: seg_desc
  ldtr :: u16
  tr :: u16
  tss_ldt_segment_selector :: u16
  tss_ss0 :: u16
  end_fs :: u32

record linkage = klayout +
  ldt_addr :: u32
  ldt_size :: u32
  tss_addr :: u32
  tss_size :: u32
  idt_desc_addr :: u32
  handler_addr :: "handler \<Rightarrow> u32"

text \<open>Lines 125 to 139 and 142 to 163. Every field of the local descriptor is assigned; \<open>d\<close> is what
  it holds before.\<close>

definition set_ldt :: "linkage \<Rightarrow> seg_desc \<Rightarrow> boot \<Rightarrow> boot" where
  "set_ldt K d s =
     (let the_ldt_desc = d\<lparr>granularity := False, opsize := True, seg_reserved := False, avail := False,
        seg_present := True, seg_dpl := 0, seg_sys := False, seg_type := 2\<rparr>
      in s\<lparr>ldt_desc_ptr := SET_LDT_PARAMS (ldt_addr K) (ldt_size K) the_ldt_desc, ldtr := KERNEL_LDT\<rparr>)"

definition set_tss :: "linkage \<Rightarrow> seg_desc \<Rightarrow> boot \<Rightarrow> boot" where
  "set_tss K d s =
     (let the_tss_desc = d\<lparr>granularity := False, opsize := False, seg_reserved := False, avail := False,
        seg_lim_19_16 := ucast (TSS_SIZE AND 0xF0000), seg_present := True, seg_dpl := 0, seg_sys := False,
        seg_type := 9, seg_lim_15_00 := ucast (TSS_SIZE AND 0xFFFF)\<rparr>
      in s\<lparr>tss_desc_ptr := SET_TSS_PARAMS (tss_addr K) (tss_size K) the_tss_desc,
           tss_ldt_segment_selector := KERNEL_LDT, tss_ss0 := KERNEL_DS, tss_esp0 := 0x800000, tr := KERNEL_TSS\<rparr>)"

section \<open>What the boot loader left\<close>

abbreviation say :: "u8 list \<Rightarrow> varg list \<Rightarrow> 'a console_scheme \<Rightarrow> 'a console_scheme option" where
  "say f as s \<equiv> map_option snd (printf f as s)"

definition MULTIBOOT_BOOTLOADER_MAGIC :: u32 where "MULTIBOOT_BOOTLOADER_MAGIC = 0x2BADB002"

definition CHECK_FLAG :: "u32 \<Rightarrow> nat \<Rightarrow> bool" where
  "CHECK_FLAG flags b \<longleftrightarrow> flags AND push_bit b 1 \<noteq> 0"

text \<open>The fields of \<open>multiboot_info_t\<close>, \<open>module_t\<close> and \<open>memory_map_t\<close> by their offsets.\<close>

definition mbi_flags :: "mem \<Rightarrow> u32 \<Rightarrow> u32" where "mbi_flags m mbi = load32 m mbi"
definition mbi_mem_lower :: "mem \<Rightarrow> u32 \<Rightarrow> u32" where "mbi_mem_lower m mbi = load32 m (mbi + 4)"
definition mbi_mem_upper :: "mem \<Rightarrow> u32 \<Rightarrow> u32" where "mbi_mem_upper m mbi = load32 m (mbi + 8)"
definition mbi_boot_device :: "mem \<Rightarrow> u32 \<Rightarrow> u32" where "mbi_boot_device m mbi = load32 m (mbi + 12)"
definition mbi_cmdline :: "mem \<Rightarrow> u32 \<Rightarrow> u32" where "mbi_cmdline m mbi = load32 m (mbi + 16)"
definition mbi_mods_count :: "mem \<Rightarrow> u32 \<Rightarrow> u32" where "mbi_mods_count m mbi = load32 m (mbi + 20)"
definition mbi_mods_addr :: "mem \<Rightarrow> u32 \<Rightarrow> u32" where "mbi_mods_addr m mbi = load32 m (mbi + 24)"
definition mbi_mmap_length :: "mem \<Rightarrow> u32 \<Rightarrow> u32" where "mbi_mmap_length m mbi = load32 m (mbi + 44)"
definition mbi_mmap_addr :: "mem \<Rightarrow> u32 \<Rightarrow> u32" where "mbi_mmap_addr m mbi = load32 m (mbi + 48)"

text \<open>The loop of lines 77 to 79; a \<open>char\<close> is passed to \<open>printf\<close> with its sign.\<close>

definition print_bytes :: "u32 \<Rightarrow> 'a console_scheme \<Rightarrow> 'a console_scheme option" where
  "print_bytes start s = fold (\<lambda>i so. Option.bind so (\<lambda>s.
     say (chars ''0x%x '') [Word (scast (mem s (start + of_nat i)))] s)) [0..<16] (Some s)"

definition print_module :: "u32 \<Rightarrow> u32 \<Rightarrow> 'a console_scheme \<Rightarrow> 'a console_scheme option" where
  "print_module mod_count md s =
     Option.bind (say (chars ''Module %d loaded at address: 0x%#x'' @ [0x0A]) [Word mod_count, Word (load32 (mem s) md)] s) (\<lambda>s1.
     Option.bind (say (chars ''Module %d ends at address: 0x%#x'' @ [0x0A]) [Word mod_count, Word (load32 (mem s1) (md + 4))] s1) (\<lambda>s2.
     Option.bind (say (chars ''First few bytes of module:'' @ [0x0A]) [] s2) (\<lambda>s3.
     Option.bind (print_bytes (load32 (mem s3) md) s3) (\<lambda>s4. say [0x0A] [] s4))))"

text \<open>Lines 73 to 83. \<open>mod_count\<close> is a signed number, compared as an unsigned one.\<close>

partial_function (option) print_modules :: "u32 \<Rightarrow> u32 \<Rightarrow> u32 \<Rightarrow> 'a console_scheme \<Rightarrow> 'a console_scheme option" where
  "print_modules mbi mod_count md s =
     (if mod_count < mbi_mods_count (mem s) mbi
      then Option.bind (print_module mod_count md s) (\<lambda>s'. print_modules mbi (mod_count + 1) (md + 16) s')
      else Some s)"

text \<open>Lines 51 to 84.\<close>

definition print_info :: "u32 \<Rightarrow> boot \<Rightarrow> boot option" where
  "print_info mbi s =
     (let flag = (\<lambda>b s. CHECK_FLAG (mbi_flags (mem s) mbi) b)
      in Option.bind (say (chars ''flags = 0x%#x'' @ [0x0A]) [Word (mbi_flags (mem s) mbi)] s) (\<lambda>s1.
         Option.bind (if flag 0 s1
             then say (chars ''mem_lower = %uKB, mem_upper = %uKB'' @ [0x0A])
                    [Word (mbi_mem_lower (mem s1) mbi), Word (mbi_mem_upper (mem s1) mbi)] s1
             else Some s1) (\<lambda>s2.
         Option.bind (if flag 1 s2
             then say (chars ''boot_device = 0x%#x'' @ [0x0A]) [Word (mbi_boot_device (mem s2) mbi)] s2
             else Some s2) (\<lambda>s3.
         Option.bind (if flag 2 s3
             then say (chars ''cmdline = %s'' @ [0x0A]) [Str (ptr_mem (mem s3) (mbi_cmdline (mem s3) mbi))] s3
             else Some s3) (\<lambda>s4.
         if flag 3 s4
         then let md = mbi_mods_addr (mem s4) mbi
              in print_modules mbi 0 md (s4\<lparr>start_fs := load32 (mem s4) md, end_fs := load32 (mem s4) (md + 4)\<rparr>)
         else Some s4)))))"

text \<open>Lines 92 to 101.\<close>

definition print_elf :: "u32 \<Rightarrow> 'a console_scheme \<Rightarrow> 'a console_scheme option" where
  "print_elf mbi s =
     (if CHECK_FLAG (mbi_flags (mem s) mbi) 5
      then say (chars ''elf_sec: num = %u, size = 0x%#x, addr = 0x%#x, shndx = 0x%#x'' @ [0x0A])
             [Word (load32 (mem s) (mbi + 28)), Word (load32 (mem s) (mbi + 32)),
              Word (load32 (mem s) (mbi + 36)), Word (load32 (mem s) (mbi + 40))] s
      else Some s)"

text \<open>Lines 103 to 122.\<close>

partial_function (option) print_map :: "u32 \<Rightarrow> u32 \<Rightarrow> 'a console_scheme \<Rightarrow> 'a console_scheme option" where
  "print_map mbi mmap s =
     (if mmap < mbi_mmap_addr (mem s) mbi + mbi_mmap_length (mem s) mbi
      then Option.bind (say (chars '' size = 0x%x,     base_addr = 0x%#x%#x'' @ [0x0A] @
               chars ''     type = 0x%x,  length    = 0x%#x%#x'' @ [0x0A])
             [Word (load32 (mem s) mmap), Word (load32 (mem s) (mmap + 8)), Word (load32 (mem s) (mmap + 4)),
              Word (load32 (mem s) (mmap + 20)), Word (load32 (mem s) (mmap + 16)), Word (load32 (mem s) (mmap + 12))] s)
           (\<lambda>s'. print_map mbi (mmap + load32 (mem s') mmap + 4) s')
      else Some s)"

definition print_mmap :: "u32 \<Rightarrow> 'a console_scheme \<Rightarrow> 'a console_scheme option" where
  "print_mmap mbi s =
     (if CHECK_FLAG (mbi_flags (mem s) mbi) 6
      then Option.bind (say (chars ''mmap_addr = 0x%#x, mmap_length = 0x%x'' @ [0x0A])
             [Word (mbi_mmap_addr (mem s) mbi), Word (mbi_mmap_length (mem s) mbi)] s)
           (\<lambda>s'. print_map mbi (mbi_mmap_addr (mem s') mbi) s')
      else Some s)"

section \<open>entry\<close>

definition FAKE_VID_ONE :: u32 where "FAKE_VID_ONE = 0xB9000"
definition FAKE_VID_TWO :: u32 where "FAKE_VID_TWO = 0xBA000"
definition FAKE_VID_THREE :: u32 where "FAKE_VID_THREE = 0xBB000"

text \<open>Lines 124 to 187: descriptors, interrupts, paging, terminal.\<close>

definition start_devices :: "linkage \<Rightarrow> seg_desc \<Rightarrow> seg_desc \<Rightarrow> boot \<Rightarrow> boot option" where
  "start_devices K d1 d2 s =
     (let s1 = set_tss K d2 (set_ldt K d1 s);
          s2 = s1\<lparr>idts := initialize_idt (idt_desc_addr K) (handler_addr K) (idts s1)\<rparr>
      in Option.bind (i8259_init s2) (\<lambda>s3.
           let s4 = clear (enable_irq 8 (enable_irq 1 s3))
           in Some (initialize_terminal (sti (enable_paging (layout.truncate K) s4)))))"

text \<open>Lines 201 to 205.\<close>

definition first_terminals :: "'a kern_scheme \<Rightarrow> 'a kern_scheme" where
  "first_terminals s =
     s\<lparr>current_terminal := 0,
       terms := map2 (\<lambda>t v. t\<lparr>vid_mem := v\<rparr>) (terms s) [FAKE_VID_ONE, FAKE_VID_TWO, FAKE_VID_THREE]\<rparr>"

text \<open>When \<open>entry\<close> returns, the processor halts.\<close>

definition entry :: "linkage \<Rightarrow> device \<Rightarrow> frame \<Rightarrow> seg_desc \<Rightarrow> seg_desc \<Rightarrow> u32 \<Rightarrow> u32 \<Rightarrow> boot \<Rightarrow> boot outcome option" where
  "entry K dev fr d1 d2 magic addr s =
     (let s0 = clear s
      in if magic \<noteq> MULTIBOOT_BOOTLOADER_MAGIC
         then map_option (Return 0) (say (chars ''Invalid magic number: 0x%#x'' @ [0x0A]) [Word magic] s0)
         else Option.bind (print_info addr s0) (\<lambda>s1.
           if CHECK_FLAG (mbi_flags (mem s1) addr) 4 \<and> CHECK_FLAG (mbi_flags (mem s1) addr) 5
           then map_option (Return 0) (say (chars ''Both bits 4 and 5 are set.'' @ [0x0A]) [] s1)
           else Option.bind (print_elf addr s1) (\<lambda>s2.
                Option.bind (print_mmap addr s2) (\<lambda>s3.
                Option.bind (start_devices K d1 d2 s3) (\<lambda>s4.
                  execute (klayout.truncate K) dev fr (Some (c_lit ''shell'')) (first_terminals s4))))))"

end
