(* ===== verification/Boot_Spec.thy ===== *)
theory Boot_Spec
  imports Boot Line_Edit
begin

text \<open>
  What the start of the kernel achieves. Whatever the boot loader's structures hold, reporting them
  writes nothing but the rows the cursor can be in; the file system image of the first module is
  found, only the keyboard and the clock can interrupt, paging is on, and the shell runs as process
  0 of the first terminal.
\<close>

section \<open>Text in lines\<close>

text \<open>The cursor of a kernel that prints without scrolling after a newline: on the screen, or at the
  start of the row below it.\<close>

definition at_line :: "'a console_scheme \<Rightarrow> bool" where
  "at_line s \<longleftrightarrow> 0 \<le> cursor_x s \<and> cursor_x s < 80 \<and> 0 \<le> cursor_y s \<and> cursor_y s \<le> 25 \<and>
     (cursor_y s = 25 \<longrightarrow> cursor_x s = 0)"

text \<open>Text without an empty line; \<open>new\<close>: at the start of a line.\<close>

fun lines_ok :: "bool \<Rightarrow> u8 list \<Rightarrow> bool" where
  "lines_ok new [] \<longleftrightarrow> True"
| "lines_ok new (c # cs) \<longleftrightarrow> (if c = 0x0A then \<not> new \<and> lines_ok True cs else lines_ok False cs)"

lemma lines_ok_weaken: "lines_ok True xs \<Longrightarrow> lines_ok b xs"
  by (cases xs) auto

lemma lines_ok_text: "0x0A \<notin> set xs \<Longrightarrow> lines_ok b (xs @ ys) = lines_ok (b \<and> xs = []) ys"
  by (induction xs arbitrary: b) auto

text \<open>What printing leaves: everything but the cursor and the rows it can be in.\<close>

definition tidy :: "'a console_scheme \<Rightarrow> 'a console_scheme \<Rightarrow> bool" where
  "tidy s s' \<longleftrightarrow> at_line s' \<and> console.more s' = console.more s \<and> (\<forall>a. \<not> in_rows a \<longrightarrow> mem s' a = mem s a)"

lemma tidy_trans: "tidy s t \<Longrightarrow> tidy t u \<Longrightarrow> tidy s u"
  by (simp add: tidy_def)

lemma tidy_refl: "at_line s \<Longrightarrow> tidy s s"
  by (simp add: tidy_def)

lemma on_screen_line: "on_screen s \<Longrightarrow> at_line s"
  by (auto simp: on_screen_def at_line_def)

lemma putc_line:
  assumes "at_line s" and "c \<noteq> 0x0A"
  shows "on_screen (putc c s)" and "tidy s (putc c s)"
proof -
  show "on_screen (putc c s)"
    using assms by (auto simp: putc_def Let_def on_screen_def at_line_def scroll_if_needed_cursor)
  moreover have "mem (putc c s) a = mem s a" if "\<not> in_rows a" for a
    using assms that put_cell_rows [of "cursor_x s" "cursor_y s" a c s] in_rows_screen [OF that]
    by (auto simp: putc_def Let_def scroll_if_needed_cursor scrolled_def filled_outside at_line_def)
  ultimately show "tidy s (putc c s)" by (simp add: tidy_def on_screen_line)
qed

lemma putc_newline: "on_screen s \<Longrightarrow> tidy s (putc 0x0A s)"
  by (auto simp: putc_def tidy_def at_line_def on_screen_def)

lemma print_lines:
  "lines_ok new xs \<Longrightarrow> at_line s \<Longrightarrow> \<not> new \<longrightarrow> on_screen s \<Longrightarrow> tidy s (fold putc xs s)"
proof (induction xs arbitrary: new s)
  case Nil
  then show ?case by (simp add: tidy_refl)
next
  case (Cons c xs)
  show ?case
  proof (cases "c = 0x0A")
    case True
    then have t: "tidy s (putc c s)" using Cons.prems putc_newline by auto
    then have "tidy (putc c s) (fold putc xs (putc c s))"
      using Cons.IH [of True "putc c s"] Cons.prems True by (auto simp: tidy_def)
    with t show ?thesis by (simp add: tidy_trans)
  next
    case False
    note p = putc_line [OF Cons.prems(2) False]
    have "tidy (putc c s) (fold putc xs (putc c s))"
      using Cons.IH [of False "putc c s"] Cons.prems(1) False p(1) on_screen_line by auto
    with p(2) show ?thesis by (simp add: tidy_trans)
  qed
qed

section \<open>Formats that print lines\<close>

text \<open>Numbers have no newline in them.\<close>

lemma lookup_no_newline: "i < 36 \<Longrightarrow> itoa_lookup ! i \<noteq> 0x0A"
proof -
  have "\<forall>i \<in> set [0..<36]. itoa_lookup ! i \<noteq> 0x0A" by code_simp
  then show "i < 36 \<Longrightarrow> itoa_lookup ! i \<noteq> 0x0A" by simp
qed

lemma lsd_no_newline: "r \<le> 36 \<Longrightarrow> 0x0A \<notin> set (lsd r v)"
proof (induction r v rule: lsd.induct)
  case (1 r v)
  have "v mod r < 36" if "\<not> (r < 2 \<or> v = 0)" using 1(2) that by (meson mod_less_divisor less_le_trans not_less zero_less_iff_neq_zero le_trans zero_less_numeral less_trans)
  then show ?case
    using 1 lookup_no_newline by (subst lsd.simps) auto
qed

lemma num_no_newline: "r \<le> 36 \<Longrightarrow> 0x0A \<notin> set (num_str r v)"
  using lsd_no_newline by (simp add: num_str_def)

lemma texts_no_newline: "0x0A \<notin> set (hex_text w)" "0x0A \<notin> set (hex8_text w)" "0x0A \<notin> set (signed_text w)"
  using num_no_newline [of 16 "unat w"] num_no_newline [of 10]
  by (auto simp: hex_text_def hex8_text_def signed_text_def)

text \<open>A check of a format against the kinds of its arguments (\<open>True\<close>: a number), that its text is in
  lines.\<close>

fun fits :: "bool \<Rightarrow> u8 list \<Rightarrow> bool list \<Rightarrow> bool" and fits_conv :: "bool \<Rightarrow> u8 list \<Rightarrow> bool list \<Rightarrow> bool" where
  "fits new [] ks \<longleftrightarrow> True"
| "fits new (c # f) ks \<longleftrightarrow>
     (if c = 0x25 then fits_conv new f ks
      else if c = 0x0A then \<not> new \<and> fits True f ks else fits False f ks)"
| "fits_conv new [] ks \<longleftrightarrow> False"
| "fits_conv new (c # f) ks \<longleftrightarrow>
     (if c = 0x25 then fits False f ks
      else if c = 0x23 then fits_conv new f ks
      else if c = 0x78 \<or> c = 0x75 \<or> c = 0x64 then (case ks of True # ks' \<Rightarrow> fits new f ks' | _ \<Rightarrow> False)
      else if c = 0x63 then False
      else if c = 0x73 then (case ks of False # ks' \<Rightarrow> fits new f ks' | _ \<Rightarrow> False)
      else fits new f ks)"

fun numeric :: "parg \<Rightarrow> bool" where
  "numeric (Num w) \<longleftrightarrow> True"
| "numeric (Txt xs) \<longleftrightarrow> False"

fun line_arg :: "parg \<Rightarrow> bool" where
  "line_arg (Num w) \<longleftrightarrow> True"
| "line_arg (Txt xs) \<longleftrightarrow> 0 \<notin> set xs \<and> 0x0A \<notin> set xs"

lemma lines_ok_before: "0x0A \<notin> set xs \<Longrightarrow> lines_ok b ys \<Longrightarrow> lines_ok b (xs @ ys)"
  by (auto simp: lines_ok_text intro: lines_ok_weaken) (metis (full_types) lines_ok_weaken)

lemma render_lines:
  "fits new f (map numeric as) \<Longrightarrow> list_all line_arg as \<Longrightarrow> \<exists>t. render f as = Some t \<and> lines_ok new t"
  "fits_conv new f (map numeric as) \<Longrightarrow> list_all line_arg as \<Longrightarrow> \<exists>t. render_conv alt f as = Some t \<and> lines_ok new t"
proof (induction f as and alt f as arbitrary: new and new rule: render_render_conv.induct)
  case (2 c f as)
  then show ?case by (fastforce split: if_splits)
next
  case (4 alt c f as)
  note IH = 4
  consider "c = 0x25" | "c = 0x23" | "c = 0x78" | "c = 0x75" | "c = 0x64" | "c = 0x63" | "c = 0x73"
    | "c \<notin> {0x25, 0x23, 0x78, 0x75, 0x64, 0x63, 0x73}" by auto
  then show ?case
  proof cases
    case 1
    then obtain t where "render f as = Some t" "lines_ok False t" using IH(1) [of False] IH(9,10) by auto
    then show ?thesis using 1 by simp
  next
    case 2
    then show ?thesis using IH(2) [of new] IH(9,10) by simp
  next
    case 3
    with IH(9) obtain w as' where as: "as = Num w # as'" "fits new f (map numeric as')"
      by (cases as; cases "hd as") auto
    then obtain t where "render f as' = Some t" "lines_ok new t" using IH(3) [where new = new] 3 IH(10) by auto
    then show ?thesis using as 3 by (auto simp: texts_no_newline num_no_newline intro!: lines_ok_before)
  next
    case 4
    with IH(9) obtain w as' where as: "as = Num w # as'" "fits new f (map numeric as')"
      by (cases as; cases "hd as") auto
    then obtain t where "render f as' = Some t" "lines_ok new t" using IH(4) [where new = new] 4 IH(10) by auto
    then show ?thesis using as 4 by (auto simp: texts_no_newline num_no_newline intro!: lines_ok_before)
  next
    case 5
    with IH(9) obtain w as' where as: "as = Num w # as'" "fits new f (map numeric as')"
      by (cases as; cases "hd as") auto
    then obtain t where "render f as' = Some t" "lines_ok new t" using IH(5) [where new = new] 5 IH(10) by auto
    then show ?thesis using as 5 by (auto simp: texts_no_newline num_no_newline intro!: lines_ok_before)
  next
    case 6
    then show ?thesis using IH(9) by simp
  next
    case 7
    with IH(9) obtain xs as' where as: "as = Txt xs # as'" "fits new f (map numeric as')"
      by (cases as; cases "hd as") auto
    then obtain t where "render f as' = Some t" "lines_ok new t" using IH(7) [where new = new] 7 IH(10) by auto
    then show ?thesis using as 7 IH(10) by (auto intro!: lines_ok_before)
  next
    case 8
    then show ?thesis using IH(8) [of new] IH(9,10) by simp
  qed
qed auto

lemma print_tidy:
  assumes "fits True f (map numeric as)" and "list_all line_arg as" and "at_line s"
  shows "\<exists>s'. say f (map varg_of as) s = Some s' \<and> tidy s s'"
proof -
  obtain t where t: "render f as = Some t" "lines_ok True t" using render_lines(1) [OF assms(1,2)] by blast
  have "parg_ok a" if "line_arg a" for a using that by (cases a) auto
  then have "list_all parg_ok as" using assms(2) by (simp add: list_all_iff)
  then have "say f (map varg_of as) s = Some (fold putc t s)"
    using t(1) by (simp add: printf_def printf_render)
  then show ?thesis using print_lines [OF t(2) assms(3)] by blast
qed

section \<open>What the boot loader left\<close>

definition safe :: "u32 \<Rightarrow> nat \<Rightarrow> bool" where
  "safe a n \<longleftrightarrow> (\<forall>i < n. \<not> in_rows (a + of_nat i))"

lemma safe_part: "safe a n \<Longrightarrow> k + j \<le> n \<Longrightarrow> safe (a + of_nat k) j"
proof -
  assume a: "safe a n" and n: "k + j \<le> n"
  have "\<not> in_rows (a + of_nat k + of_nat i)" if i: "i < j" for i
  proof -
    have "k + i < n" using n i by linarith
    then have "\<not> in_rows (a + of_nat (k + i))" using a unfolding safe_def by blast
    then show ?thesis by (simp add: add.assoc)
  qed
  then show ?thesis unfolding safe_def by blast
qed

lemma safe_load:
  assumes "tidy s s'" and "safe a n" and "k + 4 \<le> n"
  shows "load32 (mem s') (a + of_nat k) = load32 (mem s) (a + of_nat k)"
proof (rule load32_cong)
  fix b :: nat assume "b < 4"
  then have "k + b < n" using assms(3) by simp
  then have "\<not> in_rows (a + of_nat (k + b))" using assms(2) unfolding safe_def by blast
  then show "mem s' (a + of_nat k + of_nat b) = mem s (a + of_nat k + of_nat b)"
    using assms(1) by (simp add: tidy_def add.assoc)
qed

text \<open>The structure of the boot loader is the same after printing.\<close>

lemma mbi_same:
  assumes "tidy s s'" and "safe mbi 52"
  shows "mbi_flags (mem s') mbi = mbi_flags (mem s) mbi" "mbi_mods_count (mem s') mbi = mbi_mods_count (mem s) mbi"
    "mbi_mods_addr (mem s') mbi = mbi_mods_addr (mem s) mbi" "mbi_cmdline (mem s') mbi = mbi_cmdline (mem s) mbi"
    "mbi_mmap_addr (mem s') mbi = mbi_mmap_addr (mem s) mbi" "mbi_mmap_length (mem s') mbi = mbi_mmap_length (mem s) mbi"
  using safe_load [OF assms, of 0] safe_load [OF assms, of 16] safe_load [OF assms, of 20] safe_load [OF assms, of 24]
    safe_load [OF assms, of 44] safe_load [OF assms, of 48]
  by (simp_all add: mbi_flags_def mbi_mods_count_def mbi_mods_addr_def mbi_cmdline_def mbi_mmap_addr_def mbi_mmap_length_def)

text \<open>A step that prints succeeds and is tidy; so is a sequence of them.\<close>

definition prints :: "('a console_scheme \<Rightarrow> 'a console_scheme option) \<Rightarrow> 'a console_scheme \<Rightarrow> bool" where
  "prints f s \<longleftrightarrow> (\<exists>s'. f s = Some s' \<and> tidy s s')"

lemma prints_bind:
  assumes "prints f s" and "\<And>s'. tidy s s' \<Longrightarrow> prints g s'"
  shows "prints (\<lambda>s. Option.bind (f s) g) s"
  using assms tidy_trans by (fastforce simp: prints_def)

lemma prints_say:
  assumes "fits True f (map numeric as)" and "list_all line_arg as" and "at_line s"
  shows "prints (say f (map varg_of as)) s"
  using print_tidy [OF assms] by (simp add: prints_def)

lemma tidy_line: "tidy s s' \<Longrightarrow> at_line s'"
  by (simp add: tidy_def)

lemma print_word:
  assumes "at_line s" and "0x0A \<notin> set xs" and "xs \<noteq> []"
  shows "on_screen (fold putc xs s)" and "tidy s (fold putc xs s)"
proof -
  have l: "lines_ok True ys" if "0x0A \<notin> set ys" for ys using lines_ok_text [of ys True "[]"] that by simp
  show "tidy s (fold putc xs s)" by (rule print_lines [OF l [OF assms(2)] assms(1)]) simp
  obtain c cs where c: "xs = c # cs" using assms(3) by (cases xs) auto
  have "on_screen (putc c s)" using putc_line(1) [OF assms(1)] assms(2) c by simp
  then show "on_screen (fold putc xs s)" using fold_putc_tty [of "putc c s" cs] assms(2) c by simp
qed

lemma say_byte: "say (chars ''0x%x '') [Word w] s = Some (fold putc (chars ''0x'' @ hex_text w @ chars '' '') s)"
  using printf_render(1) [of "[Num w]" "chars ''0x%x ''" 0 s] by (simp add: printf_def chars_def)

lemma print_bytes_prints:
  assumes "at_line s"
  shows "\<exists>s'. print_bytes start s = Some s' \<and> tidy s s' \<and> on_screen s'"
proof -
  define f where "f = (\<lambda>i so. Option.bind so (\<lambda>s :: 'a console_scheme.
    say (chars ''0x%x '') [Word (scast (mem s (start + of_nat i)))] s))"
  have fs: "f i (Some s) = Some (fold putc (chars ''0x'' @ hex_text (scast (mem s (start + of_nat i))) @ chars '' '') s)" for i s
    by (simp add: f_def say_byte)
  have run: "\<exists>s'. fold f ns (Some s) = Some s' \<and> tidy s s' \<and> (ns \<noteq> [] \<or> on_screen s \<longrightarrow> on_screen s')" if "at_line s" for ns s
    using that
  proof (induction ns arbitrary: s)
    case Nil
    then show ?case by (simp add: tidy_refl)
  next
    case (Cons i ns)
    define t where "t = fold putc (chars ''0x'' @ hex_text (scast (mem s (start + of_nat i))) @ chars '' '') s"
    have "0x0A \<notin> set (chars ''0x'' @ hex_text (scast (mem s (start + of_nat i))) @ chars '' '')"
      "chars ''0x'' @ hex_text (scast (mem s (start + of_nat i))) @ chars '' '' \<noteq> []"
      using texts_no_newline(1) by (simp_all add: chars_def)
    note t = print_word [OF Cons.prems this, folded t_def]
    obtain s' where "fold f ns (Some t) = Some s'" "tidy t s'" "on_screen s'"
      using Cons.IH [OF tidy_line [OF t(2)]] t(1) by blast
    then show ?case using tidy_trans [OF t(2)] unfolding fold_simps fs t_def [symmetric] by blast
  qed
  have "print_bytes start s = fold f [0..<16] (Some s)" by (simp only: print_bytes_def f_def)
  moreover have "[0 :: nat..<16] \<noteq> []" by simp
  ultimately show ?thesis using run [OF assms, of "[0..<16]"] by auto
qed

lemma module_formats:
  "fits True (chars ''Module %d loaded at address: 0x%#x'' @ [0x0A]) [True, True]"
  "fits True (chars ''Module %d ends at address: 0x%#x'' @ [0x0A]) [True, True]"
  "fits True (chars ''First few bytes of module:'' @ [0x0A]) []"
  by (simp_all add: chars_def)

lemma say_words:
  assumes "fits True f (replicate (length ws) True)" and "at_line s"
  shows "prints (say f (map Word ws)) s"
proof -
  have "map varg_of (map Num ws) = map Word ws" "map numeric (map Num ws) = replicate (length ws) True"
    "list_all line_arg (map Num ws)"
    by (simp_all add: comp_def map_replicate_const list_all_iff)
  then show ?thesis using prints_say [of f "map Num ws" s] assms by metis
qed

lemma print_module_prints:
  fixes s :: "'a console_scheme"
  assumes "at_line s"
  shows "prints (print_module n md) s"
proof -
  have w2: "prints (say f [Word a, Word b]) t" if "fits True f [True, True]" "at_line t" for f a b and t :: "'a console_scheme"
    using say_words [of f "[a, b]" t] that by simp
  have w0: "prints (say f []) t" if "fits True f []" "at_line t" for f and t :: "'a console_scheme"
    using say_words [of f "[]" t] that by simp
  obtain s1 where s1: "say (chars ''Module %d loaded at address: 0x%#x'' @ [0x0A]) [Word n, Word (load32 (mem s) md)] s = Some s1" "tidy s s1"
    using w2 [OF module_formats(1) assms] unfolding prints_def by blast
  obtain s2 where s2: "say (chars ''Module %d ends at address: 0x%#x'' @ [0x0A]) [Word n, Word (load32 (mem s1) (md + 4))] s1 = Some s2" "tidy s1 s2"
    using w2 [OF module_formats(2) tidy_line [OF s1(2)]] unfolding prints_def by blast
  obtain s3 where s3: "say (chars ''First few bytes of module:'' @ [0x0A]) [] s2 = Some s3" "tidy s2 s3"
    using w0 [OF module_formats(3) tidy_line [OF s2(2)]] unfolding prints_def by blast
  obtain s4 where s4: "print_bytes (load32 (mem s3) md) s3 = Some s4" "tidy s3 s4" "on_screen s4"
    using print_bytes_prints [OF tidy_line [OF s3(2)]] by blast
  have s5: "say [0x0A] [] s4 = Some (putc 0x0A s4)" using printf_plain [of "[0x0A]" "[]" s4] by simp
  have "print_module n md s = Some (putc 0x0A s4)"
    unfolding print_module_def s1(1) Option.bind.simps s2(1) s3(1) s4(1) s5 ..
  moreover have "tidy s (putc 0x0A s4)"
    by (rule tidy_trans [OF s1(2) tidy_trans [OF s2(2) tidy_trans [OF s3(2) tidy_trans [OF s4(2) putc_newline [OF s4(3)]]]]])
  ultimately show ?thesis unfolding prints_def by blast
qed

lemma print_modules_prints:
  "safe (mbi + 20) 4 \<Longrightarrow> at_line s \<Longrightarrow> prints (print_modules mbi n md) s"
proof (induction "unat (mbi_mods_count (mem s) mbi) - unat n" arbitrary: n md s)
  case 0
  then have "\<not> n < mbi_mods_count (mem s) mbi" by (simp add: word_less_nat_alt)
  then show ?case unfolding prints_def by (subst print_modules.simps) (simp add: tidy_refl 0)
next
  case (Suc k)
  then have lt: "n < mbi_mods_count (mem s) mbi" by (simp add: word_less_nat_alt)
  obtain s1 where s1: "print_module n md s = Some s1" "tidy s s1"
    using print_module_prints [OF Suc.prems(2)] unfolding prints_def by blast
  have c: "mbi_mods_count (mem s1) mbi = mbi_mods_count (mem s) mbi"
    using safe_load [OF s1(2) Suc.prems(1), of 0] by (simp add: mbi_mods_count_def)
  have "k = unat (mbi_mods_count (mem s1) mbi) - unat (n + 1)"
    using Suc.hyps(2) unat_Suc_below [OF lt] c by simp
  from Suc.hyps(1) [OF this Suc.prems(1) tidy_line [OF s1(2)], of "md + 16"]
  obtain s2 where "print_modules mbi (n + 1) (md + 16) s1 = Some s2" "tidy s1 s2" unfolding prints_def by blast
  then show ?case
    unfolding prints_def using lt s1 tidy_trans [OF s1(2)] by (subst print_modules.simps) simp
qed

text \<open>The boot loader's structure is out of the way of the cursor, names a module, and its memory map
  can be walked.\<close>

definition mmap_next :: "mem \<Rightarrow> u32 \<Rightarrow> u32" where
  "mmap_next m a = a + load32 m a + 4"

definition loader_ok :: "mem \<Rightarrow> u32 \<Rightarrow> u8 list \<Rightarrow> nat \<Rightarrow> bool" where
  "loader_ok m mbi cmd n \<longleftrightarrow>
     (let flags = mbi_flags m mbi; first = mbi_mmap_addr m mbi; past = first + mbi_mmap_length m mbi
      in safe mbi 52 \<and> bit flags 3 \<and> \<not> (bit flags 4 \<and> bit flags 5) \<and>
         (bit flags 2 \<longrightarrow> c_str (ptr_mem m (mbi_cmdline m mbi)) cmd \<and> 0x0A \<notin> set cmd \<and>
            safe (mbi_cmdline m mbi) (Suc (length cmd))) \<and>
         safe (mbi_mods_addr m mbi) 8 \<and>
         (bit flags 6 \<longrightarrow> (\<forall>i < n. (mmap_next m ^^ i) first < past \<and> safe ((mmap_next m ^^ i) first) 4) \<and>
            \<not> (mmap_next m ^^ n) first < past))"

lemma check_flag: "b < 32 \<Longrightarrow> CHECK_FLAG flags b = bit flags b"
proof -
  assume b: "b < 32"
  have "flags AND push_bit b 1 = (if bit flags b then push_bit b 1 else 0)"
    by (rule bit_word_eqI) (auto simp: bit_simps)
  moreover have "(push_bit b 1 :: u32) \<noteq> 0"
  proof
    assume "(push_bit b 1 :: u32) = 0"
    then have "bit (push_bit b 1 :: u32) b = bit (0 :: u32) b" by (simp only:)
    then show False using b by (simp add: bit_simps)
  qed
  ultimately show ?thesis by (simp add: CHECK_FLAG_def)
qed

text \<open>The stages of the report.\<close>

lemma stage:
  assumes "fits True f (replicate (length ws) True)" and "at_line s"
  shows "\<exists>s'. (if b then say f (map Word ws) s else Some s) = Some s' \<and> tidy s s'"
  using say_words [OF assms] tidy_refl [OF assms(2)] by (cases b) (simp_all add: prints_def)

lemma stages:
  "fits True f [True] \<Longrightarrow> at_line s \<Longrightarrow> \<exists>s'. (if b then say f [Word v] s else Some s) = Some s' \<and> tidy s s'"
  "fits True f [True, True] \<Longrightarrow> at_line s \<Longrightarrow> \<exists>s'. (if b then say f [Word v, Word w] s else Some s) = Some s' \<and> tidy s s'"
  "fits True f [True, True, True, True] \<Longrightarrow> at_line s \<Longrightarrow>
    \<exists>s'. (if b then say f [Word v, Word w, Word x, Word y] s else Some s) = Some s' \<and> tidy s s'"
  "fits True f [True, True, True, True, True, True] \<Longrightarrow> at_line s \<Longrightarrow>
    \<exists>s'. say f [Word v, Word w, Word x, Word y, Word z, Word u] s = Some s' \<and> tidy s s'"
  using stage [of f "[v]" s b] stage [of f "[v, w]" s b] stage [of f "[v, w, x, y]" s b] stage [of f "[v, w, x, y, z, u]" s True]
  by (cases b; simp add: tidy_refl)+

lemma cmdline_stage:
  assumes "b \<longrightarrow> c_str p xs \<and> 0x0A \<notin> set xs" and "at_line s"
  shows "\<exists>s'. (if b then say (chars ''cmdline = %s'' @ [0x0A]) [Str p] s else Some s) = Some s' \<and> tidy s s'"
proof (cases b)
  case True
  let ?t = "chars ''cmdline = '' @ xs @ [0x0A]"
  have p: "puts p t = Some (length xs, fold putc xs t)" for t :: "'a console_scheme"
    using True assms(1) by (simp add: puts_c_str)
  have "say (chars ''cmdline = %s'' @ [0x0A]) [Str p] s = Some (fold putc ?t s)"
    by (simp add: printf_def chars_def p)
  moreover have "lines_ok True ?t" using assms(1) True lines_ok_text [of xs False "[0x0A]"] by (simp add: chars_def)
  ultimately show ?thesis using print_lines [OF _ assms(2)] True by (auto simp del: fold_append)
next
  case False
  then show ?thesis using tidy_refl [OF assms(2)] by simp
qed

lemma report_formats:
  "fits True (chars ''flags = 0x%#x'' @ [0x0A]) [True]"
  "fits True (chars ''mem_lower = %uKB, mem_upper = %uKB'' @ [0x0A]) [True, True]"
  "fits True (chars ''boot_device = 0x%#x'' @ [0x0A]) [True]"
  "fits True (chars ''elf_sec: num = %u, size = 0x%#x, addr = 0x%#x, shndx = 0x%#x'' @ [0x0A]) [True, True, True, True]"
  "fits True (chars ''mmap_addr = 0x%#x, mmap_length = 0x%x'' @ [0x0A]) [True, True]"
  "fits True (chars '' size = 0x%x,     base_addr = 0x%#x%#x'' @ [0x0A] @
     chars ''     type = 0x%x,  length    = 0x%#x%#x'' @ [0x0A]) [True, True, True, True, True, True]"
  by (simp_all add: chars_def)

lemma c_str_safe:
  assumes "tidy s s'" and "c_str (ptr_mem (mem s) a) xs" and "safe a (Suc (length xs))"
  shows "c_str (ptr_mem (mem s') a) xs"
proof -
  have "mem s' (a + of_nat i) = mem s (a + of_nat i)" if "i \<le> length xs" for i
    using assms(1,3) that by (simp add: tidy_def safe_def)
  then show ?thesis using assms(2) by (simp add: c_str_def ptr_mem_def)
qed

lemma boot_more:
  assumes "console.more s = console.more (t :: boot)"
  shows "console.more (s\<lparr>start_fs := a, end_fs := b\<rparr>) = console.more (t\<lparr>start_fs := a, end_fs := b\<rparr>)"
  using assms by (cases s; cases t; simp)

lemma print_info_prints:
  fixes s :: boot
  assumes "loader_ok (mem s) mbi cmd n" and line: "at_line s"
  defines "md \<equiv> mbi_mods_addr (mem s) mbi"
  shows "\<exists>s'. print_info mbi s = Some s' \<and>
    tidy (s\<lparr>start_fs := load32 (mem s) md, end_fs := load32 (mem s) (md + 4)\<rparr>) s'"
proof -
  have safe: "safe mbi 52" "safe md 8" and f3: "bit (mbi_flags (mem s) mbi) 3"
    and cmd: "bit (mbi_flags (mem s) mbi) 2 \<longrightarrow> c_str (ptr_mem (mem s) (mbi_cmdline (mem s) mbi)) cmd \<and>
      0x0A \<notin> set cmd \<and> safe (mbi_cmdline (mem s) mbi) (Suc (length cmd))"
    using assms(1) by (simp_all add: loader_ok_def Let_def md_def)
  have fl: "CHECK_FLAG (mbi_flags (mem t) mbi) b = bit (mbi_flags (mem s) mbi) b" if "tidy s t" "b < 32" for t :: boot and b
    using mbi_same(1) [OF that(1) safe(1)] check_flag [OF that(2)] by simp
  obtain s1 where s1: "say (chars ''flags = 0x%#x'' @ [0x0A]) [Word (mbi_flags (mem s) mbi)] s = Some s1" and t1: "tidy s s1"
    using stages(1) [OF report_formats(1) line, of True] unfolding if_True by blast
  obtain s2 where s2: "(if bit (mbi_flags (mem s) mbi) 0
      then say (chars ''mem_lower = %uKB, mem_upper = %uKB'' @ [0x0A])
        [Word (mbi_mem_lower (mem s1) mbi), Word (mbi_mem_upper (mem s1) mbi)] s1 else Some s1) = Some s2" and "tidy s1 s2"
    using stages(2) [OF report_formats(2) tidy_line [OF t1]] by blast
  then have t2: "tidy s s2" using tidy_trans [OF t1] by blast
  obtain s3 where s3: "(if bit (mbi_flags (mem s) mbi) 1
      then say (chars ''boot_device = 0x%#x'' @ [0x0A]) [Word (mbi_boot_device (mem s2) mbi)] s2 else Some s2) = Some s3" and "tidy s2 s3"
    using stages(1) [OF report_formats(3) tidy_line [OF t2]] by blast
  then have t3: "tidy s s3" using tidy_trans [OF t2] by blast
  have cmd3: "bit (mbi_flags (mem s) mbi) 2 \<longrightarrow> c_str (ptr_mem (mem s3) (mbi_cmdline (mem s3) mbi)) cmd \<and> 0x0A \<notin> set cmd"
    using cmd c_str_safe [OF t3] mbi_same(4) [OF t3 safe(1)] by simp
  obtain s4 where s4: "(if bit (mbi_flags (mem s) mbi) 2
      then say (chars ''cmdline = %s'' @ [0x0A]) [Str (ptr_mem (mem s3) (mbi_cmdline (mem s3) mbi))] s3 else Some s3) = Some s4"
    and "tidy s3 s4"
    using cmdline_stage [OF cmd3 tidy_line [OF t3]] by blast
  then have t4: "tidy s s4" using tidy_trans [OF t3] by blast
  have md4: "mbi_mods_addr (mem s4) mbi = md" "load32 (mem s4) md = load32 (mem s) md" "load32 (mem s4) (md + 4) = load32 (mem s) (md + 4)"
    using mbi_same(3) [OF t4 safe(1)] safe_load [OF t4 safe(2), of 0] safe_load [OF t4 safe(2), of 4] by (simp_all add: md_def)
  let ?u = "\<lambda>t :: boot. t\<lparr>start_fs := load32 (mem s) md, end_fs := load32 (mem s) (md + 4)\<rparr>"
  have "safe (mbi + 20) 4" using safe_part [OF safe(1), of 20 4] by simp
  moreover have "at_line (?u s4)" using tidy_line [OF t4] by (simp add: at_line_def)
  ultimately obtain s5 where s5: "print_modules mbi 0 md (?u s4) = Some s5" "tidy (?u s4) s5"
    using print_modules_prints unfolding prints_def by blast
  have "tidy (?u s) (?u s4)" using t4 boot_more [of s4 s] by (simp add: tidy_def at_line_def)
  then have "tidy (?u s) s5" using s5(2) tidy_trans by blast
  moreover have "print_info mbi s = Some s5"
  proof -
    have "CHECK_FLAG (mbi_flags (mem s1) mbi) 0 = bit (mbi_flags (mem s) mbi) 0"
      "CHECK_FLAG (mbi_flags (mem s2) mbi) 1 = bit (mbi_flags (mem s) mbi) 1"
      "CHECK_FLAG (mbi_flags (mem s3) mbi) 2 = bit (mbi_flags (mem s) mbi) 2"
      "CHECK_FLAG (mbi_flags (mem s4) mbi) 3 = True"
      using fl [OF t1] fl [OF t2] fl [OF t3] fl [OF t4] f3 by simp_all
    then show ?thesis
      unfolding print_info_def Let_def s1 Option.bind.simps by (simp only: s2 s3 s4 md4 s5(1) Option.bind.simps if_True)
  qed
  ultimately show ?thesis by blast
qed

lemma print_elf_prints: "at_line s \<Longrightarrow> prints (print_elf mbi) s"
  using stages(3) [OF report_formats(4), of s] unfolding prints_def print_elf_def by blast

lemma print_map_prints:
  fixes s0 :: "'a console_scheme"
  assumes "safe mbi 52"
  defines "past \<equiv> mbi_mmap_addr (mem s0) mbi + mbi_mmap_length (mem s0) mbi"
  shows "tidy s0 s \<Longrightarrow> \<forall>i < n. (mmap_next (mem s0) ^^ i) a < past \<and> safe ((mmap_next (mem s0) ^^ i) a) 4 \<Longrightarrow>
    \<not> (mmap_next (mem s0) ^^ n) a < past \<Longrightarrow> prints (print_map mbi a) s"
proof (induction n arbitrary: a s)
  case 0
  have "mbi_mmap_addr (mem s) mbi + mbi_mmap_length (mem s) mbi = past"
    using mbi_same(5,6) [OF 0(1) assms(1)] by (simp add: past_def)
  then show ?case
    unfolding prints_def using 0 by (subst print_map.simps) (simp add: tidy_refl tidy_line [OF 0(1)])
next
  case (Suc n)
  have past: "mbi_mmap_addr (mem s) mbi + mbi_mmap_length (mem s) mbi = past"
    using mbi_same(5,6) [OF Suc.prems(1) assms(1)] by (simp add: past_def)
  have a: "a < past" "safe a 4" using Suc.prems(2) by auto
  obtain s1 where s1: "say (chars '' size = 0x%x,     base_addr = 0x%#x%#x'' @ [0x0A] @
               chars ''     type = 0x%x,  length    = 0x%#x%#x'' @ [0x0A])
             [Word (load32 (mem s) a), Word (load32 (mem s) (a + 8)), Word (load32 (mem s) (a + 4)),
              Word (load32 (mem s) (a + 20)), Word (load32 (mem s) (a + 16)), Word (load32 (mem s) (a + 12))] s = Some s1"
    and "tidy s s1"
    using stages(4) [OF report_formats(6) tidy_line [OF Suc.prems(1)]] by blast
  then have t1: "tidy s0 s1" using tidy_trans [OF Suc.prems(1)] by blast
  have "load32 (mem s1) a = load32 (mem s0) a" using safe_load [OF t1 a(2), of 0] by simp
  then have nx: "a + load32 (mem s1) a + 4 = mmap_next (mem s0) a" by (simp add: mmap_next_def)
  have "\<forall>i < n. (mmap_next (mem s0) ^^ i) (mmap_next (mem s0) a) < past \<and>
      safe ((mmap_next (mem s0) ^^ i) (mmap_next (mem s0) a)) 4"
    using Suc.prems(2) by (auto simp: funpow_swap1 dest: spec [of _ "Suc _"])
  moreover have "\<not> (mmap_next (mem s0) ^^ n) (mmap_next (mem s0) a) < past"
    using Suc.prems(3) by (simp add: funpow_swap1)
  ultimately have "prints (print_map mbi (mmap_next (mem s0) a)) s1" by (rule Suc.IH [OF t1])
  then obtain s2 where s2: "print_map mbi (mmap_next (mem s0) a) s1 = Some s2" "tidy s1 s2" unfolding prints_def by blast
  have "print_map mbi a s = Some s2"
    by (subst print_map.simps) (simp only: past a(1) if_True s1 Option.bind.simps nx s2(1))
  then show ?case using tidy_trans [OF \<open>tidy s s1\<close> s2(2)] unfolding prints_def by blast
qed

lemma print_mmap_prints:
  assumes "safe mbi 52" and "tidy s0 s"
  defines "a \<equiv> mbi_mmap_addr (mem s0) mbi"
  defines "past \<equiv> a + mbi_mmap_length (mem s0) mbi"
  assumes "bit (mbi_flags (mem s0) mbi) 6 \<longrightarrow>
    (\<forall>i < n. (mmap_next (mem s0) ^^ i) a < past \<and> safe ((mmap_next (mem s0) ^^ i) a) 4) \<and>
    \<not> (mmap_next (mem s0) ^^ n) a < past"
  shows "prints (print_mmap mbi) s"
proof (cases "bit (mbi_flags (mem s0) mbi) 6")
  case True
  have fl: "CHECK_FLAG (mbi_flags (mem s) mbi) 6"
    using True mbi_same(1) [OF assms(2,1)] check_flag [of 6] by simp
  obtain s1 where s1: "say (chars ''mmap_addr = 0x%#x, mmap_length = 0x%x'' @ [0x0A])
      [Word (mbi_mmap_addr (mem s) mbi), Word (mbi_mmap_length (mem s) mbi)] s = Some s1" "tidy s s1"
    using stages(2) [OF report_formats(5) tidy_line [OF assms(2)], of True] unfolding if_True by blast
  have t1: "tidy s0 s1" by (rule tidy_trans [OF assms(2) s1(2)])
  have "mbi_mmap_addr (mem s1) mbi = a" using mbi_same(5) [OF t1 assms(1)] by (simp add: a_def)
  moreover have "prints (print_map mbi a) s1"
    using print_map_prints [OF assms(1) t1, of n a] assms(5) True by (simp add: a_def past_def)
  ultimately obtain s2 where "print_mmap mbi s = Some s2" "tidy s1 s2"
    unfolding prints_def print_mmap_def using fl s1(1) by (simp only: if_True Option.bind.simps) blast
  then show ?thesis using tidy_trans [OF s1(2)] unfolding prints_def by blast
next
  case False
  then have "\<not> CHECK_FLAG (mbi_flags (mem s) mbi) 6"
    using mbi_same(1) [OF assms(2,1)] check_flag [of 6] by simp
  then show ?thesis using tidy_refl [OF tidy_line [OF assms(2)]] by (simp add: prints_def print_mmap_def)
qed

section \<open>Starting the devices\<close>

lemma enable_irq_frame [simp]:
  "mem (enable_irq n s) = mem s" "cursor_x (enable_irq n s) = cursor_x s" "cursor_y (enable_irq n s) = cursor_y s"
  "pic.more (enable_irq n s) = pic.more s"
  by (simp_all add: enable_irq.simps [of n] enable_irq.simps [of 2] SLAVE_IRQ_NUM_def Let_def)
    (simp_all add: outb_def)

text \<open>From a controller with every line masked, the two lines that \<open>entry\<close> enables get
  through, and the one that connects the slave.\<close>

lemma enabled_lines:
  assumes "master_mask s = 0xFF" and "slave_mask s = 0xFF"
  shows "delivered n (enable_irq 8 (enable_irq 1 s)) \<longleftrightarrow> n = 1 \<or> n = 2 \<or> n = 8"
proof -
  have m: "master_mask (enable_irq 8 (enable_irq 1 s)) = 0xF9" "slave_mask (enable_irq 8 (enable_irq 1 s)) = 0xFE"
    using enable_irq_master [of 1 s] enable_irq_slave [of 8 "enable_irq 1 s"] assms by simp_all
  have b: "\<forall>i \<in> set [0..<8]. bit (0xF9 :: u8) i = (i \<noteq> 1 \<and> i \<noteq> 2)" "\<forall>i \<in> set [0..<8]. bit (0xFE :: u8) i = (i \<noteq> 0)"
    by code_simp+
  then have b: "i < 8 \<Longrightarrow> bit (0xF9 :: u8) i = (i \<noteq> 1 \<and> i \<noteq> 2)" "i < 8 \<Longrightarrow> bit (0xFE :: u8) i = (i \<noteq> 0)" for i
    by simp_all
  show ?thesis
    unfolding delivered_def m using b(1) [of n] b(1) [of 2] b(2) [of "n - 8"] by auto
qed

lemma delivered_clear: "delivered n (clear s) = delivered n s"
  by (simp add: delivered_def clear_mem)

text \<open>The kernel's data that the start leaves alone.\<close>

definition same_data :: "'a kern_scheme \<Rightarrow> 'a kern_scheme \<Rightarrow> bool" where
  "same_data s t \<longleftrightarrow> start_fs t = start_fs s \<and> terms t = terms s \<and> pcbs t = pcbs s \<and> processes t = processes s \<and>
     current_terminal t = current_terminal s \<and> input_buffer t = input_buffer s \<and> temp_buffer t = temp_buffer s \<and>
     same_keys s t"

lemma same_data_trans: "same_data s t \<Longrightarrow> same_data t u \<Longrightarrow> same_data s u"
  by (auto simp: same_data_def intro: same_keys_trans)

lemma same_data_more:
  "paging.more t = paging.more s \<Longrightarrow> same_data s t" for s t :: "'a kern_scheme"
  using kern_more_paging [of t s] same_keys_paging [of t s] by (simp add: same_data_def)

lemma boot_more_pic:
  assumes "console.more s = console.more (t :: boot)"
  shows "master_mask s = master_mask t" "slave_mask s = slave_mask t" "v_m_page_table s = v_m_page_table t"
    "idts s = idts t" "paging.more s = paging.more t"
  using assms by (cases s; cases t; simp)+

lemma boot_more_irq:
  assumes "pic.more s = pic.more (t :: boot)"
  shows "v_m_page_table s = v_m_page_table t" "idts s = idts t" "paging.more s = paging.more t"
  using assms by (cases s; cases t; simp)+

lemma i8259_init_ready:
  fixes s :: boot
  assumes "at_line s"
  shows "\<exists>s'. i8259_init s = Some s' \<and> at_line s' \<and> (\<forall>a. \<not> in_rows a \<longrightarrow> mem s' a = mem s a) \<and>
    master_mask s' = 0xFF \<and> slave_mask s' = 0xFF \<and> v_m_page_table s' = v_m_page_table s \<and> idts s' = idts s \<and>
    paging.more s' = paging.more s"
proof -
  define s5 where "s5 = (outb 0x01 (SLAVE_8259_PORT + 1) (outb 0x01 (MASTER_8259_PORT + 1)
    (outb 0x02 (SLAVE_8259_PORT + 1) (outb 0x04 (MASTER_8259_PORT + 1)
    (outb 0x28 (SLAVE_8259_PORT + 1) (outb 0x20 (MASTER_8259_PORT + 1)
    (outb 0x11 SLAVE_8259_PORT (outb 0x11 MASTER_8259_PORT s))))))))\<lparr>master_mask := 0xFF, slave_mask := 0xFF\<rparr>"
  have s5: "at_line s5" "mem s5 = mem s" "master_mask s5 = 0xFF" "slave_mask s5 = 0xFF"
    "v_m_page_table s5 = v_m_page_table s" "idts s5 = idts s" "paging.more s5 = paging.more s"
    using assms by (simp_all add: s5_def at_line_def outb_def)
  have f: "fits True (chars ''8259 INITIALIZED'' @ [0x0A]) []" by (simp add: chars_def)
  obtain s6 where s6: "say (chars ''8259 INITIALIZED'' @ [0x0A]) [] s5 = Some s6" "tidy s5 s6"
    using prints_say [of _ "[]" s5] f s5(1) unfolding prints_def by fastforce
  have "i8259_init s = Some s6" using s6(1) by (simp add: i8259_init_def Let_def s5_def)
  then show ?thesis
    using s6(2) s5 boot_more_pic [of s6 s5] by (intro exI [of _ s6]) (simp add: tidy_def)
qed

lemma start_devices_ready:
  fixes s :: boot
  assumes line: "at_line s" and L: "layout_ok (layout.truncate K)" and z: "\<forall>i. v_m_page_table s i = 0"
  shows "\<exists>s'. start_devices K d1 d2 s = Some s' \<and> paging_view (layout.truncate K) s' None False \<and> intr s' \<and>
    on_screen s' \<and> (\<forall>n. delivered n s' \<longleftrightarrow> n = 1 \<or> n = 2 \<or> n = 8) \<and> (\<forall>a. \<not> in_rows a \<longrightarrow> mem s' a = mem s a) \<and>
    idts s' = initialize_idt (idt_desc_addr K) (handler_addr K) (idts s) \<and> same_data s s' \<and>
    cursor_x s' = 0 \<and> cursor_y s' = 0"
proof -
  define s1 where "s1 = set_tss K d2 (set_ldt K d1 s)"
  define s2 where "s2 = s1\<lparr>idts := initialize_idt (idt_desc_addr K) (handler_addr K) (idts s1)\<rparr>"
  have s2: "at_line s2" "mem s2 = mem s" "v_m_page_table s2 = v_m_page_table s"
    "idts s2 = initialize_idt (idt_desc_addr K) (handler_addr K) (idts s)" "same_data s s2"
    using line by (simp_all add: s2_def s1_def set_tss_def set_ldt_def at_line_def same_data_def same_keys_def Let_def)
  obtain s3 where i: "i8259_init s2 = Some s3" and s3: "\<forall>a. \<not> in_rows a \<longrightarrow> mem s3 a = mem s2 a"
    "master_mask s3 = 0xFF" "slave_mask s3 = 0xFF" "v_m_page_table s3 = v_m_page_table s2" "idts s3 = idts s2"
    "paging.more s3 = paging.more s2"
    using i8259_init_ready [OF s2(1)] by blast
  define s4 where "s4 = clear (enable_irq 8 (enable_irq 1 s3))"
  have irq: "pic.more (enable_irq 8 (enable_irq 1 s3)) = pic.more s3" by simp
  note m4 = boot_more_irq [OF irq]
  have s4: "\<forall>a. \<not> in_rows a \<longrightarrow> mem s4 a = mem s a" "\<forall>n. delivered n s4 \<longleftrightarrow> n = 1 \<or> n = 2 \<or> n = 8"
    "v_m_page_table s4 = v_m_page_table s" "idts s4 = idts s2" "paging.more s4 = paging.more s2"
    using s2 s3 m4 enabled_lines [OF s3(2,3)] in_rows_screen filled_outside [of 2000]
    by (simp_all add: s4_def delivered_clear) (simp_all add: clear_mem)
  define s5 where "s5 = enable_paging (layout.truncate K) s4"
  have v: "paging_view (layout.truncate K) s5 None False"
    unfolding s5_def by (rule enable_paging_view [OF L]) (simp add: s4(3) z)
  have s5: "mem s5 = mem s4" "master_mask s5 = master_mask s4" "slave_mask s5 = slave_mask s4" "paging.more s5 = paging.more s4"
    by (simp_all add: s5_def)
  have id: "idts s5 = idts s4" using s5(4) by (cases s5; cases s4; simp)
  define s' where "s' = initialize_terminal (sti s5)"
  have "start_devices K d1 d2 s = Some s'"
    using i by (simp add: start_devices_def Let_def s'_def s5_def s4_def flip: s1_def) (simp add: s2_def)
  moreover have "paging_view (layout.truncate K) s' None False"
    using v by (simp add: s'_def initialize_terminal_def clear_mem move_cursor_to_def outb_def sti_def paging_view_def)
  moreover have "mem s' a = mem s a" if "\<not> in_rows a" for a
    using that s4(1) in_rows_screen [OF that] filled_outside [of 2000]
    by (simp add: s'_def initialize_terminal_def clear_mem s5(1))
  moreover have "intr s'" "on_screen s'" "delivered n s' \<longleftrightarrow> delivered n s4" "idts s' = idts s5" "same_data s5 s'"
      "cursor_x s' = 0" "cursor_y s' = 0" for n
    by (simp_all add: s'_def initialize_terminal_def clear_mem move_cursor_to_def outb_def sti_def on_screen_def
        delivered_def s5(2,3) same_data_def same_keys_def)
  moreover have "same_data s s5"
    using same_data_more [of s5 s2] s5(4) s4(5) same_data_trans [OF s2(5)] by simp
  ultimately show ?thesis
    using s4(2,4) s2(4) id same_data_trans [of s s5 s'] by (intro exI [of _ s'] conjI) simp_all
qed

section \<open>The first program\<close>

text \<open>Whether a command starts a program depends on the file system image only.\<close>

lemma startable_image:
  fixes s t :: "'a kern_scheme"
  assumes eq: "image_eq (start_fs s) extent (mem s) (mem t)" and fs: "start_fs t = start_fs s" "processes t = processes s"
    and dir: "64 + 64 * unat (mem s (start_fs s)) \<le> extent" and xs: "length (cmd_name xs) \<le> 32"
    and st: "startable L fr extent xs inode p s"
  shows "startable L fr extent xs inode p t"
proof -
  let ?fs = "start_fs s" and ?n = "unat (mem s (start_fs s))"
  have wf: "wf_file (mem s) ?fs extent inode" using st by (simp add: startable_def loadable_def Let_def)
  then have e: "extent \<le> 4294967296" "0 < extent" using dir by (simp_all add: wf_file_def)
  have at: "mem t (?fs + of_nat k) = mem s (?fs + of_nat k)" if "k < extent" for k
    using eq in_region_offset [OF that e(1)] by (simp add: image_eq_def)
  have n: "mem t ?fs = mem s ?fs" using at [of 0] e(2) by simp
  have entry: "mem t (dir_addr ?fs j + of_nat i) = mem s (dir_addr ?fs j + of_nat i)" if "j < ?n" "i < 64" for i j
  proof -
    have "64 + 64 * j + i < extent" using that dir by simp
    from at [OF this] show ?thesis by (simp add: dir_addr_def add.assoc)
  qed
  have d: "dentry_bytes (mem t) (dir_addr ?fs j) = dentry_bytes (mem s) (dir_addr ?fs j)"
    and w: "starts_with (mem t) ?fs (cmd_name xs) j = starts_with (mem s) ?fs (cmd_name xs) j" if "j < ?n" for j
    using dentry_same [where m = "mem s" and m' = "mem t" and a = "dir_addr ?fs j"] entry [OF that] xs
    by (simp_all add: starts_with_def)
  define js where "js = filter (starts_with (mem s) ?fs (cmd_name xs)) [0..<?n]"
  have js: "filter (starts_with (mem t) ?fs (cmd_name xs)) [0..<?n] = js"
    unfolding js_def using w by (intro filter_cong) auto
  have "found (cmd_name xs) t = found (cmd_name xs) s"
  proof (cases js)
    case Nil
    then show ?thesis unfolding found_def fs(1) n js by (simp add: js_def)
  next
    case (Cons j ks)
    then have "j \<in> set js" by simp
    then have "j < ?n" by (simp add: js_def)
    then show ?thesis unfolding found_def fs(1) n js js_def [symmetric] Cons by (simp add: d)
  qed
  then show ?thesis
    using st image_eq_file [OF wf eq] by (simp add: startable_def loadable_def fs Let_def)
qed

text \<open>Zeroed globals.\<close>

definition fresh :: "'a kern_scheme \<Rightarrow> bool" where
  "fresh s \<longleftrightarrow> fds_ok s \<and> on_screen s \<and> processes s = 0 \<and> (\<forall>c < 3. been_here (terms s ! c) \<noteq> 1) \<and>
     (\<forall>p. term_start (pcbs s p) \<noteq> 1) \<and> (\<forall>i. v_m_page_table s i = 0)"

lemma first_terminals_ready:
  assumes "kern_shape s" and "processes s = 0" and "\<forall>c < 3. been_here (terms s ! c) \<noteq> 1"
    and "\<forall>p. term_start (pcbs s p) \<noteq> 1"
  shows "stacks (first_terminals s) (\<lambda>_. [])" and "kern_shape (first_terminals s)"
proof -
  obtain a b c where t: "terms s = [a, b, c]"
    using assms(1) by (auto simp: kern_shape_def length_Suc_conv numeral_3_eq_3)
  then have bh: "been_here a \<noteq> 1" "been_here b \<noteq> 1" "been_here c \<noteq> 1"
    using assms(3) by (auto simp: numeral_3_eq_3 dest: spec [of _ 0] spec [of _ 1] spec [of _ 2])
  show "stacks (first_terminals s) (\<lambda>_. [])"
    using assms(2,4) bh by (auto simp: stacks_def first_terminals_def t less_Suc_eq numeral_3_eq_3)
  show "kern_shape (first_terminals s)"
    using assms(1) by (simp add: kern_shape_def first_terminals_def t)
qed

section \<open>entry\<close>

lemma boot_more_data:
  assumes "console.more s = console.more (t :: boot)"
  shows "same_data t s" "v_m_page_table s = v_m_page_table t" "idts s = idts t"
  using boot_more_pic [OF assms] by (auto intro: same_data_more)

text \<open>The state in which \<open>entry\<close> executes the shell.\<close>

definition booted_at :: "linkage \<Rightarrow> u32 \<Rightarrow> boot \<Rightarrow> boot \<Rightarrow> bool" where
  "booted_at K fsa s s' \<longleftrightarrow>
     paging_view (layout.truncate K) s' None False \<and> fds_ok s' \<and> stacks s' (\<lambda>_. []) \<and> screens_apart s' \<and>
     intr s' \<and> on_screen s' \<and> (\<forall>n. delivered n s' \<longleftrightarrow> n = 1 \<or> n = 2 \<or> n = 8) \<and>
     idts s' = initialize_idt (idt_desc_addr K) (handler_addr K) (idts s) \<and>
     start_fs s' = fsa \<and> processes s' = 0 \<and> current_terminal s' = 0 \<and> pcbs s' = pcbs s \<and>
     terms s' = terms (first_terminals s) \<and> same_keys s s' \<and> cursor_x s' = 0 \<and> cursor_y s' = 0 \<and>
     (\<forall>a. \<not> in_rows a \<longrightarrow> mem s' a = mem s a)"

lemma entry_boots:
  fixes s :: boot
  assumes f: "fresh s" and ld: "loader_ok (mem (clear s)) addr cmd n" and L: "layout_ok (layout.truncate K)"
  defines "fsa \<equiv> load32 (mem (clear s)) (mbi_mods_addr (mem (clear s)) addr)"
  shows "\<exists>s1. entry K dev fr d1 d2 MULTIBOOT_BOOTLOADER_MAGIC addr s =
      execute (klayout.truncate K) dev fr (Some (c_lit ''shell'')) s1 \<and> booted_at K fsa s s1"
proof -
  define s0 where "s0 = clear s"
  define md where "md = mbi_mods_addr (mem s0) addr"
  define su where "su = s0\<lparr>start_fs := load32 (mem s0) md, end_fs := load32 (mem s0) (md + 4)\<rparr>"
  have fs0: "fds_ok s" "kern_shape s" "on_screen s" "processes s = 0" "\<forall>c < 3. been_here (terms s ! c) \<noteq> 1"
    "\<forall>p. term_start (pcbs s p) \<noteq> 1" "\<forall>i. v_m_page_table s i = 0"
    using f by (simp_all add: fresh_def fds_ok_def)
  have c: "terms s0 = terms s" "pcbs s0 = pcbs s" "processes s0 = processes s" "current_terminal s0 = current_terminal s"
    "input_buffer s0 = input_buffer s" "temp_buffer s0 = temp_buffer s" "v_m_page_table s0 = v_m_page_table s"
    "idts s0 = idts s" "at_line s0" "\<forall>a. \<not> in_rows a \<longrightarrow> mem s0 a = mem s a"
    using on_screen_line [OF fs0(3)] in_rows_screen filled_outside [of 2000] by (simp_all add: s0_def clear_mem at_line_def)
  obtain s1 where i: "print_info addr s0 = Some s1" and su: "tidy su s1"
    using print_info_prints [of s0 addr cmd n] ld c(9) by (auto simp: su_def md_def s0_def)
  have t1: "tidy su s1" "safe addr 52" by (rule su) (use ld in \<open>simp add: loader_ok_def Let_def\<close>)
  have fl: "mbi_flags (mem s1) addr = mbi_flags (mem su) addr" by (rule mbi_same(1) [OF t1])
  have m: "mem su = mem s0" by (simp add: su_def)
  have no: "\<not> (CHECK_FLAG (mbi_flags (mem s1) addr) 4 \<and> CHECK_FLAG (mbi_flags (mem s1) addr) 5)"
    unfolding fl m using ld check_flag [of 4] check_flag [of 5] by (simp add: loader_ok_def Let_def s0_def)
  obtain s2 where s2: "print_elf addr s1 = Some s2" "tidy s1 s2"
    using print_elf_prints [OF tidy_line [OF su]] unfolding prints_def by blast
  have t2: "tidy su s2" by (rule tidy_trans [OF su s2(2)])
  have "prints (print_mmap addr) s2"
    by (rule print_mmap_prints [OF t1(2) t2, where n = n]) (use ld in \<open>simp add: loader_ok_def Let_def s0_def m\<close>)
  then obtain s3 where s3: "print_mmap addr s2 = Some s3" "tidy s2 s3" unfolding prints_def by blast
  have t3: "tidy su s3" by (rule tidy_trans [OF t2 s3(2)])
  have m3: "console.more s3 = console.more su" using t3 by (simp add: tidy_def)
  note d3 = boot_more_data [OF m3]
  have z: "\<forall>i. v_m_page_table s3 i = 0" unfolding d3(2) by (simp add: su_def c(7) fs0(7))
  obtain s4 where s4: "start_devices K d1 d2 s3 = Some s4" "paging_view (layout.truncate K) s4 None False" "intr s4"
    "on_screen s4" "\<forall>n. delivered n s4 \<longleftrightarrow> n = 1 \<or> n = 2 \<or> n = 8" "\<forall>a. \<not> in_rows a \<longrightarrow> mem s4 a = mem s3 a"
    "idts s4 = initialize_idt (idt_desc_addr K) (handler_addr K) (idts s3)" "same_data s3 s4" "cursor_x s4 = 0" "cursor_y s4 = 0"
    using start_devices_ready [OF tidy_line [OF t3] L z] by blast
  have e4: "terms s4 = terms s" "pcbs s4 = pcbs s" "processes s4 = 0" "start_fs s4 = fsa"
    "input_buffer s4 = input_buffer s" "temp_buffer s4 = temp_buffer s" "current_terminal s4 = current_terminal s"
    using s4(8) d3(1) c fs0(4) by (simp_all add: same_data_def su_def fsa_def md_def s0_def)
  have k4: "kern_shape s4" using fs0(2) e4 by (simp add: kern_shape_def)
  let ?s5 = "first_terminals s4"
  have "entry K dev fr d1 d2 MULTIBOOT_BOOTLOADER_MAGIC addr s =
      execute (klayout.truncate K) dev fr (Some (c_lit ''shell'')) ?s5"
    unfolding entry_def Let_def s0_def [symmetric] i Option.bind.simps
    by (simp only: no if_False s2(1) s3(1) s4(1) Option.bind.simps simp_thms)
  moreover have "booted_at K fsa s ?s5"
  proof -
    have ft: "stacks ?s5 (\<lambda>_. [])" "kern_shape ?s5"
      using first_terminals_ready [OF k4] fs0 e4 by simp_all
    have "fds_ok ?s5" using ft(2) fs0(1) e4(2) by (simp add: fds_ok_def first_terminals_def)
    moreover have "screens_apart ?s5"
    proof -
      have "length (terms s4) = 3" using k4 by (simp add: kern_shape_def)
      then obtain a b d where "terms s4 = [a, b, d]" by (auto simp: length_Suc_conv numeral_3_eq_3)
      then show ?thesis
        by (intro screens_apart_at) (auto simp: first_terminals_def less_Suc_eq numeral_3_eq_3 FAKE_VID_ONE_def
            FAKE_VID_TWO_def FAKE_VID_THREE_def)
    qed
    moreover have "paging_view (layout.truncate K) ?s5 None False"
      using s4(2) by (simp add: first_terminals_def paging_view_def)
    moreover have "\<forall>a. \<not> in_rows a \<longrightarrow> mem ?s5 a = mem s a"
      using s4(6) t3 c(10) m by (simp add: first_terminals_def tidy_def)
    moreover have "idts ?s5 = initialize_idt (idt_desc_addr K) (handler_addr K) (idts s)"
      using s4(7) d3(3) c(8) by (simp add: first_terminals_def su_def)
    moreover have "\<forall>n. delivered n ?s5 \<longleftrightarrow> n = 1 \<or> n = 2 \<or> n = 8"
    proof -
      have "delivered n ?s5 = delivered n s4" for n by (simp add: first_terminals_def delivered_def)
      then show ?thesis using s4(5) by simp
    qed
    moreover have "same_keys s ?s5"
    proof -
      have "same_keys s su" by (simp add: same_keys_def su_def s0_def clear_mem)
      moreover have "same_keys s4 ?s5" by (simp add: same_keys_def first_terminals_def)
      moreover have "same_keys su s3" "same_keys s3 s4" using d3(1) s4(8) by (simp_all add: same_data_def)
      ultimately show ?thesis using same_keys_trans by blast
    qed
    moreover have "cursor_x ?s5 = 0" "cursor_y ?s5 = 0" using s4(9,10) by (simp_all add: first_terminals_def)
    ultimately show ?thesis
      using ft s4(3,4) e4 by (simp add: booted_at_def) (simp add: first_terminals_def on_screen_def e4(1))
  qed
  ultimately show ?thesis by blast
qed

text \<open>So the first program runs: process 0, alone, in the first terminal.\<close>

lemma image_safe:
  assumes "safe a n" and "\<forall>x. \<not> in_rows x \<longrightarrow> m' x = m x"
  shows "image_eq a n m m'"
  unfolding image_eq_def
proof (intro allI impI)
  fix x assume "in_region a n x"
  then have "unat (x - a) < n" by (simp add: in_region_def)
  then have "\<not> in_rows (a + of_nat (unat (x - a)))" using assms(1) unfolding safe_def by blast
  then show "m' x = m x" using assms(2) by simp
qed

lemma boot_runs_shell:
  fixes s :: boot
  assumes f: "fresh s" and ld: "loader_ok (mem (clear s)) addr cmd n" and L: "layout_ok (layout.truncate K)"
    and fsa: "fsa = load32 (mem (clear s)) (mbi_mods_addr (mem (clear s)) addr)"
    and img: "safe fsa extent" "64 + 64 * unat (mem s fsa) \<le> extent"
    and st: "startable (klayout.truncate K) fr extent (chars ''shell'') inode 0 (s\<lparr>start_fs := fsa\<rparr>)"
  defines "prog \<equiv> contents (mem s) fsa inode"
  shows "\<exists>s1 s'. entry K dev fr d1 d2 MULTIBOOT_BOOTLOADER_MAGIC addr s =
      Some (Enter_user (le_word (take 4 (drop 24 prog))) s') \<and>
    booted_at K fsa s s1 \<and> started (klayout.truncate K) fr (chars ''shell'') [] prog 0 False s1 s' \<and>
    stacks s' ((\<lambda>_. [])(0 := [0]))"
proof -
  obtain s1 where e: "entry K dev fr d1 d2 MULTIBOOT_BOOTLOADER_MAGIC addr s =
      execute (klayout.truncate K) dev fr (Some (c_lit ''shell'')) s1" and b: "booted_at K fsa s s1"
    using entry_boots [OF f ld L, of dev fr d1 d2] fsa by blast
  have m: "start_fs s1 = fsa" "processes s1 = 0" "current_terminal s1 = 0" "fds_ok s1" "stacks s1 (\<lambda>_. [])"
    "paging_view (layout.truncate K) s1 None False" "\<forall>x. \<not> in_rows x \<longrightarrow> mem s1 x = mem s x"
    using b by (simp_all add: booted_at_def)
  have k: "kern_shape s1" using m(4) by (simp add: fds_ok_def)
  have t: "layout.truncate (klayout.truncate K) = layout.truncate K" by (simp add: layout.truncate_def klayout.truncate_def)
  have eq: "image_eq fsa extent (mem s) (mem s1)" by (rule image_safe [OF img(1) m(7)])
  have pr: "processes s = 0" using f by (simp add: fresh_def)
  have st1: "startable (klayout.truncate K) fr extent (chars ''shell'') inode 0 s1"
  proof (rule startable_image [OF _ _ _ _ _ st])
    show "length (cmd_name (chars ''shell'')) \<le> 32" unfolding shell_command(3) by simp
  qed (use eq m img(2) pr in simp_all)
  have wf: "wf_file (mem s) fsa extent inode" using st by (simp add: startable_def loadable_def Let_def)
  have c: "contents (mem s1) (start_fs s1) inode = prog" using image_eq_file(3) [OF wf eq] m(1) by (simp add: prog_def)
  obtain s' where "execute (klayout.truncate K) dev fr (Some (c_lit ''shell'')) s1 =
      Some (Enter_user (le_word (take 4 (drop 24 prog))) s')"
    "started (klayout.truncate K) fr (chars ''shell'') [] prog 0 False s1 s'" "stacks s' ((\<lambda>_. [])(0 := [0]))"
    using execute_pushes [OF m(5) shell_command(1,2) k, of "klayout.truncate K" None False fr extent inode 0 dev]
      L m(3,6) st1 unfolding t c shell_command(3,4) by auto
  then show ?thesis using e b by auto
qed

end
