(* ===== verification/Boot_Props.thy ===== *)
theory Boot_Props
  imports Sample Boot_Spec
begin

text \<open>
  Properties of the start of the kernel: \<open>entry\<close> on a machine the boot loader has prepared ends in
  the shell, with devices, descriptors and paging set up; and what it refuses.
\<close>

section \<open>A machine as the boot loader leaves it\<close>

text \<open>The structure of the boot loader at \<open>0x10000\<close> names one module, the image of \<open>kernel0\<close>.\<close>

definition loader_cells :: "(u32 \<times> u8) list" where
  "loader_cells = [(0x10000, 8), (0x10014, 1), (0x10019, 1), (0x1001A, 1), (0x10102, 0x50), (0x10105, 0x30), (0x10106, 0x50)]"

definition loader_mem :: mem where
  "loader_mem a = (case map_of loader_cells a of Some v \<Rightarrow> v | None \<Rightarrow> image_mem a)"

definition zero_desc :: seg_desc where
  "zero_desc = \<lparr>seg_lim_15_00 = 0, base_15_00 = 0, base_23_16 = 0, seg_type = 0, seg_sys = False, seg_dpl = 0,
     seg_present = False, seg_lim_19_16 = 0, avail = False, seg_reserved = False, opsize = False,
     granularity = False, base_31_24 = 0\<rparr>"

definition boot0 :: boot where
  "boot0 = kern.extend (kernel0\<lparr>mem := loader_mem\<rparr>) (boot.fields idt0 zero_desc zero_desc 0 0 0 0 0)"

definition link0 :: linkage where
  "link0 = klayout.extend lay (linkage.fields 0x450000 32 0x460000 104 0x470000 (\<lambda>_. 0x400000))"

lemma boot0_fields [simp]: "mem boot0 = loader_mem" "start_fs boot0 = img0" "processes boot0 = 0"
  "terms boot0 = replicate 3 zero_term" "pcbs boot0 p = zero_pcb" "v_m_page_table boot0 i = 0" "on_screen boot0"
  by (simp_all add: boot0_def kern.defs on_screen_def) (simp_all add: kernel0_def)

lemma boot0_fresh: "fresh boot0"
proof -
  have "kern_shape boot0 = kern_shape kernel0"
    by (simp add: kern_shape_def boot0_def kern.defs)
  moreover have "pcbs boot0 = pcbs kernel0" by (simp add: boot0_def kern.defs)
  ultimately have "fds_ok boot0" using sample_fds(1) by (simp add: fds_ok_def)
  then show ?thesis by (simp add: fresh_def) (simp add: zero_term_def zero_pcb_def)
qed

lemma safe_at: "a + n \<le> 0xB8000 \<or> 0xB9040 \<le> a \<Longrightarrow> a + n \<le> 4294967296 \<Longrightarrow> safe (of_nat a) n"
  unfolding safe_def
proof (intro allI impI)
  fix i :: nat assume a: "a + n \<le> 0xB8000 \<or> 0xB9040 \<le> a" "a + n \<le> 4294967296" and i: "i < n"
  then have "unat (of_nat (a + i) :: u32) = a + i" by (intro unat_of_nat32) simp
  then have "\<not> in_region VIDEO 4160 (of_nat (a + i))"
    using a i by (subst in_region_nowrap) (auto simp: VIDEO_def)
  then show "\<not> in_rows (of_nat a + of_nat i)" by (simp add: in_rows_def)
qed

lemma safe_mem: "safe a n \<Longrightarrow> i < n \<Longrightarrow> mem (clear s) (a + of_nat i) = mem s (a + of_nat i)"
  using in_rows_screen filled_outside [of 2000] unfolding safe_def by (auto simp: clear_mem)

lemma safe_word: "safe a n \<Longrightarrow> k + 4 \<le> n \<Longrightarrow> load32 (mem (clear s)) (a + of_nat k) = load32 (mem s) (a + of_nat k)"
proof (rule load32_cong)
  fix b :: nat assume "safe a n" "k + 4 \<le> n" "b < 4"
  moreover from this have "k + b < n" by linarith
  ultimately have "mem (clear s) (a + of_nat (k + b)) = mem s (a + of_nat (k + b))" by (intro safe_mem)
  then show "mem (clear s) (a + of_nat k + of_nat b) = mem s (a + of_nat k + of_nat b)" by (simp add: add.assoc)
qed

lemma loader_safe: "safe 0x10000 52" "safe 0x10100 8" "safe img0 12288"
  using safe_at [where a = "0x10000" and n = 52] safe_at [where a = "0x10100" and n = 8] safe_at [where a = "0x500000" and n = 12288] by (simp_all add: img0_def)

lemma loader_words: "load32 loader_mem 0x10000 = 8" "load32 loader_mem 0x10014 = 1"
  "load32 loader_mem 0x10018 = 0x10100" "load32 loader_mem 0x10100 = img0"
  by (simp_all add: load32_def loader_mem_def loader_cells_def image_mem_def image_cells_def img0_def)

lemma boot0_loader: "loader_ok (mem (clear boot0)) 0x10000 [] 0"
    "load32 (mem (clear boot0)) (mbi_mods_addr (mem (clear boot0)) 0x10000) = img0"
proof -
  have w: "mbi_flags (mem (clear boot0)) 0x10000 = 8" "mbi_mods_addr (mem (clear boot0)) 0x10000 = 0x10100"
    using safe_word [OF loader_safe(1), of 0 boot0] safe_word [OF loader_safe(1), of 24 boot0] loader_words
    by (simp_all add: mbi_flags_def mbi_mods_addr_def)
  then show "load32 (mem (clear boot0)) (mbi_mods_addr (mem (clear boot0)) 0x10000) = img0"
    using safe_word [OF loader_safe(2), of 0 boot0] loader_words by simp
  have "\<not> bit (8 :: u32) 2" "bit (8 :: u32) 3" "\<not> bit (8 :: u32) 4" "\<not> bit (8 :: u32) 6"
    by (simp_all add: bit_numeral_word_iff)
  then show "loader_ok (mem (clear boot0)) 0x10000 [] 0"
    using w loader_safe by (simp add: loader_ok_def)
qed

lemma loader_image: "image_eq img0 12288 image_mem loader_mem"
proof -
  have "loader_mem x = image_mem x" if "in_region img0 12288 x" for x
  proof -
    have "0x500000 \<le> unat x" using that by (simp add: in_region_nowrap img0_def)
    then have "x \<notin> fst ` set loader_cells" by (auto simp: loader_cells_def)
    then have "map_of loader_cells x = None" by (simp add: map_of_eq_None_iff)
    then show ?thesis by (simp add: loader_mem_def)
  qed
  then show ?thesis by (simp add: image_eq_def)
qed

lemma boot0_startable: "startable lay frame0 12288 (chars ''shell'') 0 0 boot0"
proof (rule startable_image [where s = "boot0\<lparr>mem := image_mem\<rparr>"])
  show "startable lay frame0 12288 (chars ''shell'') 0 0 (boot0\<lparr>mem := image_mem\<rparr>)"
    by (rule sample_startable_at) simp_all
  show "image_eq (start_fs (boot0\<lparr>mem := image_mem\<rparr>)) 12288 (mem (boot0\<lparr>mem := image_mem\<rparr>)) (mem boot0)"
    using loader_image by (simp add: image_eq_def)
  show "length (cmd_name (chars ''shell'')) \<le> 32" unfolding shell_command(3) by simp
qed simp_all

section \<open>The start\<close>



section \<open>Refusals\<close>

text \<open>Anything else than the multiboot magic number, or a structure that has both bits 4 and 5
  set, makes \<open>entry\<close> return, and the processor halt, before a device or a program is started: only
  the screen and the cursor are changed.\<close>

theorem boot_refuses:
  assumes "on_screen s"
    and "magic = MULTIBOOT_BOOTLOADER_MAGIC \<longrightarrow> safe addr 52 \<and> mbi_flags (mem (clear s)) addr = 0x30"
  shows "\<exists>s'. entry K dev fr d1 d2 magic addr s = Some (Return 0 s') \<and> console.more s' = console.more s \<and>
    (\<forall>a. \<not> in_rows a \<longrightarrow> mem s' a = mem s a)"
proof -
  have at: "at_line (clear s)" "console.more (clear s) = console.more s"
    using on_screen_line [OF assms(1)] by (simp_all add: clear_mem at_line_def)
  have out: "console.more t = console.more s \<and> (\<forall>a. \<not> in_rows a \<longrightarrow> mem t a = mem s a)" if "tidy (clear s) t" for t
    using that at(2) in_rows_screen filled_outside [of 2000] by (simp add: tidy_def clear_mem)
  show ?thesis
  proof (cases "magic = MULTIBOOT_BOOTLOADER_MAGIC")
    case False
    have "fits True (chars ''Invalid magic number: 0x%#x'' @ [0x0A]) [True]" by (simp add: chars_def)
    from stages(1) [OF this at(1), of True] obtain t
      where "say (chars ''Invalid magic number: 0x%#x'' @ [0x0A]) [Word magic] (clear s) = Some t" "tidy (clear s) t"
      unfolding if_True by blast
    moreover from this(1) have "entry K dev fr d1 d2 magic addr s = Some (Return 0 t)"
      unfolding entry_def Let_def by (simp only: False not_False_eq_True if_True option.map)
    ultimately show ?thesis using out [of t] by blast
  next
    case True
    then have f: "safe addr 52" "mbi_flags (mem (clear s)) addr = 0x30" using assms(2) by simp_all
    obtain t where t: "say (chars ''flags = 0x%#x'' @ [0x0A]) [Word 0x30] (clear s) = Some t" "tidy (clear s) t"
      using stages(1) [OF report_formats(1) at(1), of True] unfolding if_True by blast
    have ft: "mbi_flags (mem t) addr = 0x30" using mbi_same(1) [OF t(2) f(1)] f(2) by simp
    have bits: "\<not> bit (0x30 :: u32) 0" "\<not> bit (0x30 :: u32) 1" "\<not> bit (0x30 :: u32) 2" "\<not> bit (0x30 :: u32) 3"
      "bit (0x30 :: u32) 4" "bit (0x30 :: u32) 5" by (simp_all add: bit_numeral_word_iff)
    have pi: "print_info addr (clear s) = Some t"
    proof -
      have "\<not> CHECK_FLAG 0x30 0" "\<not> CHECK_FLAG 0x30 1" "\<not> CHECK_FLAG 0x30 2" "\<not> CHECK_FLAG 0x30 3"
        using bits by (simp_all add: check_flag)
      then show ?thesis
        unfolding print_info_def Let_def f(2) t(1) Option.bind.simps by (simp only: ft if_False Option.bind.simps)
    qed
    have "fits True (chars ''Both bits 4 and 5 are set.'' @ [0x0A]) []" by (simp add: chars_def)
    from say_words [where ws = "[]", simplified, OF this tidy_line [OF t(2)]] obtain u
      where u: "say (chars ''Both bits 4 and 5 are set.'' @ [0x0A]) [] t = Some u" "tidy t u"
      by (auto simp: prints_def)
    have "entry K dev fr d1 d2 magic addr s = Some (Return 0 u)"
      unfolding entry_def Let_def pi True Option.bind.simps using ft bits u(1) by (simp add: check_flag)
    then show ?thesis using out [OF tidy_trans [OF t(2) u(2)]] by blast
  qed
qed

theorem boot_refuses_witness:
  "\<exists>s'. entry link0 dev0 frame0 zero_desc zero_desc 0 0x10000 boot0 = Some (Return 0 s') \<and> processes s' = 0"
proof -
  obtain s' where "entry link0 dev0 frame0 zero_desc zero_desc 0 0x10000 boot0 = Some (Return 0 s')"
    "console.more s' = console.more boot0"
    using boot_refuses [OF boot0_fields(7), of 0 "0x10000" link0 dev0 frame0 zero_desc zero_desc]
    by (auto simp: MULTIBOOT_BOOTLOADER_MAGIC_def)
  then show ?thesis using boot_more_data(1) [of s' boot0] by (auto simp: same_data_def)
qed

end
