(* ===== verification/Kernel_Props.thy ===== *)
theory Kernel_Props
  imports Kernel_Run Boot_Props
begin

text \<open>
  Properties of the kernel as a whole, in every state it can get into from a start by the boot
  loader: what programs can reach, what stays well-formed, and that files are read as they were
  loaded, however programs and interrupts come one after another.
\<close>

section \<open>A life of the kernel\<close>

text \<open>The globals of processes and terminals are zero.\<close>

definition zeroed :: "'a kern_scheme \<Rightarrow> bool" where
  "zeroed s \<longleftrightarrow>
     (\<forall>p. process_num (pcbs s p) = 0 \<and> (\<forall>fd < 8. in_use (fd_array (pcbs s p) ! fd) = 0)) \<and>
     (\<forall>t \<in> set (terms s). running_pcb t = None \<and> term_cursor_x t = 0 \<and> term_cursor_y t = 0)"

text \<open>The boot loader has put the kernel and a sound image with a shell into memory.\<close>

definition good_boot :: "linkage \<Rightarrow> frame \<Rightarrow> u32 \<Rightarrow> u32 \<Rightarrow> nat \<Rightarrow> boot \<Rightarrow> bool" where
  "good_boot K fr addr fsa ext s \<longleftrightarrow>
     fresh s \<and> zeroed s \<and> (\<exists>cmd n. loader_ok (mem (clear s)) addr cmd n) \<and>
     fsa = load32 (mem (clear s)) (mbi_mods_addr (mem (clear s)) addr) \<and>
     home_ok (klayout.truncate K) fsa ext \<and> image_ok (mem s) fsa ext \<and> on_stack fr \<and>
     (\<exists>inode. startable (klayout.truncate K) fr ext (chars ''shell'') inode 0 (s\<lparr>start_fs := fsa\<rparr>))"

text \<open>\<open>m\<close> comes about from a start on \<open>s\<close>.\<close>

definition live :: "linkage \<Rightarrow> u32 \<Rightarrow> u32 \<Rightarrow> nat \<Rightarrow> boot \<Rightarrow> boot machine \<Rightarrow> bool" where
  "live K lit fsa ext s m \<longleftrightarrow>
     (\<exists>fr addr dev d1 d2 eip s0. good_boot K fr addr fsa ext s \<and>
        entry K dev fr d1 d2 MULTIBOOT_BOOTLOADER_MAGIC addr s = Some (Enter_user eip s0) \<and>
        reachable (klayout.truncate K) lit (iret (switch_to_user 0 eip) s0) m)"

lemma booted_calm:
  assumes g: "good_boot K fr addr fsa ext s" and b: "booted_at K fsa s s1"
  shows "calm (klayout.truncate K) (mem s) fsa ext s1"
proof -
  have z: "zeroed s" and k: "kern_shape s" using g by (simp_all add: good_boot_def fresh_def fds_ok_def)
  have m: "fds_ok s1" "on_screen s1" "start_fs s1 = fsa" "processes s1 = 0" "pcbs s1 = pcbs s"
    "terms s1 = terms (first_terminals s)" "\<forall>a. \<not> in_rows a \<longrightarrow> mem s1 a = mem s a"
    using b by (simp_all add: booted_at_def)
  have "length (terms s) = 3" using k by (simp add: kern_shape_def)
  then obtain a b c where t: "terms s = [a, b, c]" by (auto simp: length_Suc_conv numeral_3_eq_3)
  have t1: "terms s1 = [a\<lparr>vid_mem := 0xB9000\<rparr>, b\<lparr>vid_mem := 0xBA000\<rparr>, c\<lparr>vid_mem := 0xBB000\<rparr>]"
    by (simp add: m(6) first_terminals_def t FAKE_VID_ONE_def FAKE_VID_TWO_def FAKE_VID_THREE_def)
  have zt: "running_pcb u = None" "term_cursor_x u = 0" "term_cursor_y u = 0" if "u \<in> {a, b, c}" for u
  proof -
    have "u \<in> set (terms s)" using that by (simp add: t)
    then show "running_pcb u = None" "term_cursor_x u = 0" "term_cursor_y u = 0" using z by (simp_all add: zeroed_def)
  qed
  have three: "P 0 \<and> P 1 \<and> P 2 \<longleftrightarrow> (\<forall>i < 3. P i)" for P :: "nat \<Rightarrow> bool"
    by (simp add: numeral_3_eq_3 numeral_2_eq_2 All_less_Suc) blast
  show ?thesis
    unfolding calm_def
  proof (intro conjI)
    show "cursors s1" using m(2) zt [of a] zt [of b] zt [of c] by (simp add: cursors_def t1 on_video_def on_screen_def)
    show "files_ok (mem s) fsa ext s1" using z by (simp add: files_ok_def file_ok_def m(5) zeroed_def)
    show "\<forall>x. \<not> scratch (klayout.truncate K) x \<longrightarrow> mem s1 x = mem s x"
    proof (intro allI impI)
      fix x assume "\<not> scratch (klayout.truncate K) x"
      then have "\<not> in_rows x" by (auto simp: scratch_def in_video_def in_rows_def in_region_def)
      then show "mem s1 x = mem s x" using m(7) by simp
    qed
    show "\<forall>i < 3. vid_mem (terms s1 ! i) = of_nat (0xB9000 + 0x1000 * i)"
      unfolding three [symmetric] by (simp add: t1)
    show "\<forall>i < 3. been_here (terms s1 ! i) \<noteq> 1 \<longrightarrow> running_pcb (terms s1 ! i) = None"
      unfolding three [symmetric] using zt [of a] zt [of b] zt [of c] by (simp add: t1)
    show "\<forall>p. unat (process_num (pcbs s1 p)) < 6" using z by (simp add: m(5) zeroed_def)
    show "\<forall>i. bit (processes s1) i \<longrightarrow> i < 6" by (simp add: m(4))
  qed (use m in simp_all)
qed

lemma home_safe: "home_ok L fsa ext \<Longrightarrow> safe fsa ext"
  unfolding safe_def
proof (intro allI impI)
  fix i assume h: "home_ok L fsa ext" and i: "i < ext"
  have "in_region fsa ext (fsa + of_nat i)" using i h by (intro in_region_offset) (simp_all add: home_ok_def)
  then have "\<not> scratch L (fsa + of_nat i)" by (rule image_apart [OF h])
  then show "\<not> in_rows (fsa + of_nat i)" by (auto simp: scratch_def in_video_def in_rows_def in_region_def)
qed

lemma live_minv:
  assumes "live K lit fsa ext s m"
  shows "minv (klayout.truncate K) (mem s) fsa ext m" and "home_ok (klayout.truncate K) fsa ext"
    and "image_ok (mem s) fsa ext"
proof -
  let ?L = "klayout.truncate K"
  obtain fr addr dev d1 d2 eip s0 where g: "good_boot K fr addr fsa ext s"
    and e: "entry K dev fr d1 d2 MULTIBOOT_BOOTLOADER_MAGIC addr s = Some (Enter_user eip s0)"
    and r: "reachable ?L lit (iret (switch_to_user 0 eip) s0) m"
    using assms by (auto simp: live_def)
  obtain cmd n inode where ld: "loader_ok (mem (clear s)) addr cmd n"
    and st: "startable ?L fr ext (chars ''shell'') inode 0 (s\<lparr>start_fs := fsa\<rparr>)"
    using g unfolding good_boot_def by blast
  show h: "home_ok ?L fsa ext" and io: "image_ok (mem s) fsa ext" using g unfolding good_boot_def by blast+
  have fr: "fresh s" and fs: "fsa = load32 (mem (clear s)) (mbi_mods_addr (mem (clear s)) addr)" and stk: "on_stack fr"
    using g unfolding good_boot_def by blast+
  have L: "layout_ok (layout.truncate K)" "layout.truncate ?L = layout.truncate K"
    using h by (simp_all add: home_ok_def layout.truncate_def klayout.truncate_def)
  have sf: "safe fsa ext" by (rule home_safe [OF h])
  have dir: "64 + 64 * unat (mem s fsa) \<le> ext" using io by (simp add: image_ok_def)
  let ?prog = "contents (mem s) fsa inode"
  obtain s1 s' where s': "entry K dev fr d1 d2 MULTIBOOT_BOOTLOADER_MAGIC addr s =
      Some (Enter_user (le_word (take 4 (drop 24 ?prog))) s')" and b: "booted_at K fsa s s1"
    and run: "started ?L fr (chars ''shell'') [] ?prog 0 False s1 s'"
    using boot_runs_shell [OF fr ld L(1) fs sf dir st, of dev d1 d2] by blast
  have "length ?prog \<le> 0x3B8000" using st by (simp add: startable_def loadable_def Let_def)
  then have "kinv ?L (mem s) fsa ext s'" using started_kinv [OF booted_calm [OF g b] h stk _ _ run] by simp
  then have "kinv ?L (mem s) fsa ext (iret (switch_to_user 0 eip) s0)" using e s' by simp
  from reachable_minv [OF r h io this] show "minv ?L (mem s) fsa ext m" .
qed

section \<open>A sample life\<close>

lemma sample_image_ok: "image_ok image_mem img0 12288"
proof -
  have i: "inode_num (dentry_bytes image_mem (dir_addr img0 0)) = 0" "inode_num (dentry_bytes image_mem (dir_addr img0 1)) = 0"
    by (simp_all add: dentry_bytes_def load32_def dir_addr_def image_mem_def image_cells_def img0_def)
  have "unat (image_mem img0) = 2" by simp
  moreover have "inode_num (dentry_bytes image_mem (dir_addr img0 j)) = 0" if "j < 2" for j
  proof -
    have "j = 0 \<or> j = 1" using that by linarith
    then show ?thesis using i by blast
  qed
  ultimately show ?thesis using sample_wf sample_file(2) by (simp add: image_ok_def Let_def)
qed

lemma image_ok_same:
  assumes io: "image_ok m fsa ext" and eq: "image_eq fsa ext m m'" and w: "unat fsa + ext \<le> 4294967296"
  shows "image_ok m' fsa ext"
  unfolding image_ok_def Let_def
proof (intro conjI allI impI)
  note n = image_count [OF eq io w]
  show "64 + 64 * unat (m' fsa) \<le> ext" using io n by (simp add: image_ok_def)
  fix j assume j: "j < unat (m' fsa)"
  then have j': "j < unat (m fsa)" by (simp add: n)
  note d = image_dentry [OF eq io w j']
  let ?i = "inode_num (dentry_bytes m (dir_addr fsa j))"
  have f: "wf_file m fsa ext ?i" "file_len m fsa ?i = 0 \<or> 4 \<le> file_len m fsa ?i"
    "take 4 (contents m fsa ?i) = EXEC_BITS \<longrightarrow> 28 \<le> file_len m fsa ?i \<and> file_len m fsa ?i \<le> 0x3B8000"
    using io j' by (simp_all add: image_ok_def Let_def)
  note same = image_eq_file [OF f(1) eq]
  show "wf_file m' fsa ext (inode_num (dentry_bytes m' (dir_addr fsa j)))"
    "file_len m' fsa (inode_num (dentry_bytes m' (dir_addr fsa j))) = 0 \<or>
      4 \<le> file_len m' fsa (inode_num (dentry_bytes m' (dir_addr fsa j)))"
    using f(2) same by (simp_all add: d)
  assume "take 4 (contents m' fsa (inode_num (dentry_bytes m' (dir_addr fsa j)))) = EXEC_BITS"
  then show "28 \<le> file_len m' fsa (inode_num (dentry_bytes m' (dir_addr fsa j)))"
    "file_len m' fsa (inode_num (dentry_bytes m' (dir_addr fsa j))) \<le> 0x3B8000"
    using f(3) same by (simp_all add: d)
qed

lemma sample_home: "home_ok lay img0 12288"
proof -
  have "disjoint_region img0 12288 0x440000 4" by (auto simp: disjoint_region_def in_region_nowrap img0_def)
  then show ?thesis using sample_layout by (simp add: home_ok_def) (simp add: img0_def lay_def)
qed

lemma sample_links: "klayout.truncate link0 = lay" "layout.truncate link0 = lay'"
  by (simp_all add: link0_def klayout.truncate_def layout.truncate_def klayout.defs lay_def)

lemma boot0_same: "boot0\<lparr>start_fs := img0\<rparr> = boot0"
  by (rule kern.equality) (simp_all add: boot0_def kern.defs kernel0_def)

lemma sample_good: "good_boot link0 frame0 0x10000 img0 12288 boot0"
proof -
  have "zeroed boot0"
    by (simp add: zeroed_def) (simp add: zero_pcb_def zero_fd_def zero_term_def)
  moreover have "image_ok loader_mem img0 12288"
    by (rule image_ok_same [OF sample_image_ok loader_image]) (simp add: img0_def)
  moreover have "on_stack frame0" by (simp add: on_stack_def frame0_def)
  ultimately show ?thesis
    using boot0_fresh boot0_loader(1) boot0_loader(2) [symmetric] sample_home boot0_startable
    unfolding good_boot_def sample_links boot0_same boot0_fields by (intro conjI exI) assumption+
qed

text \<open>The shell has just been started.\<close>

lemma sample_start:
  "\<exists>t. (\<forall>m. reachable lay 0 t m \<longrightarrow> live link0 0 img0 12288 boot0 m) \<and> paging_view lay' t (Some 0) False \<and>
    kern_shape t \<and> cur_pcb t = Some 0 \<and> start_fs t = img0 \<and>
    (\<forall>r. \<forall>fd \<ge> 2. fd < 8 \<longrightarrow> in_use (fd_array (pcbs t r) ! fd) = 0) \<and> in_use (fd_array (pcbs t 0) ! 1) = 1 \<and>
    stacks t ((\<lambda>_. [])(0 := [0])) \<and> on_screen t \<and> processes t = 1 \<and>
    in_use (fd_array (pcbs t 0) ! 0) = 1 \<and> same_keys boot0 t \<and> cursor_x t = 0 \<and> cursor_y t = 0"
proof -
  have "mem boot0 img0 = 2" by (simp add: loader_mem_def loader_cells_def img0_def image_mem_def image_cells_def)
  then obtain s1 s' where s': "entry link0 dev0 frame0 zero_desc zero_desc MULTIBOOT_BOOTLOADER_MAGIC 0x10000 boot0 =
      Some (Enter_user (le_word (take 4 (drop 24 (contents loader_mem img0 0)))) s')"
    and run: "started lay frame0 (chars ''shell'') [] (contents loader_mem img0 0) 0 False s1 s'"
    and b: "booted_at link0 img0 boot0 s1" and stk: "stacks s' ((\<lambda>_. [])(0 := [0]))"
    using boot_runs_shell [OF boot0_fresh boot0_loader(1), of link0 img0 12288 frame0 0 dev0 zero_desc zero_desc]
      boot0_loader(2) loader_safe(3) boot0_startable sample_layout
    by (auto simp: sample_links boot0_same)
  define e where "e = le_word (take 4 (drop 24 (contents loader_mem img0 0)))"
  define t where "t = iret (switch_to_user 0 e) s'"
  have "live link0 0 img0 12288 boot0 m" if "reachable lay 0 t m" for m
    unfolding live_def sample_links using sample_good s' that by (fastforce simp: t_def e_def)
  moreover have "paging_view lay' t (Some 0) False"
    using run by (simp add: started_def Let_def t_def iret_def paging_view_def)
  moreover have "kern_shape s'" using run unfolding started_def Let_def by blast
  then have "kern_shape t" by (simp add: t_def iret_def kern_shape_def)
  moreover have s1: "current_terminal s1 = 0" "kern_shape s1" "start_fs s1 = img0" "pcbs s1 = pcbs boot0"
    using b by (simp_all add: booted_at_def fds_ok_def)
  then have "0 < length (terms s1)" by (simp add: kern_shape_def)
  then have "cur_pcb t = Some 0" "start_fs t = img0"
    using run s1(1,3) by (simp_all add: started_def Let_def t_def iret_def cur_pcb_def cur_term_def aget_in del: kern_shape_def)
  moreover have "in_use (fd_array (pcbs t r) ! fd) = 0" if "2 \<le> fd" "fd < 8" for r fd
  proof -
    have "fd_array (pcbs t r) ! fd = fd_array (pcbs s1 r) ! fd"
      using run that(1) by (auto simp: started_def Let_def t_def iret_def)
    then show ?thesis using that(2) by (simp add: s1(4) zero_pcb_def zero_fd_def)
  qed
  moreover have "same_keys boot0 s1" "same_keys s1 s'" "same_keys s' t" "cursor_x s1 = 0" "cursor_y s1 = 0"
    using b run by (simp_all add: booted_at_def started_def Let_def t_def iret_def same_keys_def)
  then have "same_keys boot0 t" "cursor_x t = 0" "cursor_y t = 0"
    using run same_keys_trans by (blast, simp_all add: started_def Let_def t_def iret_def)
  moreover have "in_use (fd_array (pcbs t 0) ! 0) = 1" using run by (auto simp: started_def Let_def t_def iret_def)
  moreover have "in_use (fd_array (pcbs t 0) ! 1) = 1" using run by (auto simp: started_def Let_def t_def iret_def)
  moreover have "stacks t ((\<lambda>_. [])(0 := [0]))"
  proof -
    have c: "chain t r ps = chain s' r ps" for r ps by (rule chain_cong) (simp_all add: t_def iret_def)
    have "stacks t stk = stacks s' stk" for stk unfolding stacks_def c by (simp add: t_def iret_def)
    then show ?thesis using stk by simp
  qed
  moreover have "on_screen s1" "processes s1 = 0" using b by (simp_all add: booted_at_def)
  then have "on_screen t" "processes t = 1" using run by (simp_all add: started_def Let_def t_def iret_def on_screen_def)
  ultimately show ?thesis by blast
qed

text \<open>A program may write any block it can reach.\<close>

lemma translate_mem [simp]: "translate M (s\<lparr>mem := m\<rparr>) usr va = translate M s usr va"
proof -
  have e: "cr0 (s\<lparr>mem := m\<rparr>) = cr0 s" "cr3 (s\<lparr>mem := m\<rparr>) = cr3 s" "cr4 (s\<lparr>mem := m\<rparr>) = cr4 s"
    "table_at M (s\<lparr>mem := m\<rparr>) = table_at M s" by (simp_all add: table_at_def fun_eq_iff)
  show ?thesis unfolding translate_def e ..
qed

lemma reachable_stores:
  assumes r: "reachable L lit s0 (t, A)" and a: "A (current_terminal t) = Running"
    and tr: "\<And>i. i < length bs \<Longrightarrow> translate (layout.truncate L) t True (va + of_nat i) = Some (pa + of_nat i)"
    and n: "length bs < 4294967296"
  shows "reachable L lit s0 (t\<lparr>mem := write_bytes pa bs (mem t)\<rparr>, A)"
  using tr n
proof (induction bs rule: rev_induct)
  case Nil
  have "write_bytes pa [] m = m" for m :: mem by (simp add: write_bytes_def in_region_def)
  then show ?case using r by simp
next
  case (snoc b bs)
  let ?t = "t\<lparr>mem := write_bytes pa bs (mem t)\<rparr>"
  have "reachable L lit s0 (?t, A)" using snoc by simp
  moreover have "kstep L lit (?t, A) (?t\<lparr>mem := (mem ?t)(pa + of_nat (length bs) := b)\<rparr>, A)"
    using a snoc.prems(1) [of "length bs"] by (intro kstep.store) simp_all
  ultimately have "reachable L lit s0 (?t\<lparr>mem := (mem ?t)(pa + of_nat (length bs) := b)\<rparr>, A)" by (rule reachable.step)
  moreover have "?t\<lparr>mem := (mem ?t)(pa + of_nat (length bs) := b)\<rparr> = t\<lparr>mem := write_bytes pa (bs @ [b]) (mem t)\<rparr>"
    using write_bytes_snoc [of bs pa b "mem t"] snoc.prems(2) by (simp del: fun_upd_apply)
  ultimately show ?case by (simp only:)
qed

lemma image_first:
  assumes eq: "image_eq img0 12288 image_mem m"
  shows "filter (starts_with m img0 (chars ''shell'')) [0..<unat (m img0)] = [0]"
    and "dentry_bytes m (dir_addr img0 0) = dentry_bytes image_mem (dir_addr img0 0)"
proof -
  have w: "unat img0 + 12288 \<le> 4294967296" by (simp add: img0_def)
  have n: "m img0 = 2" using image_count [OF eq sample_image_ok w] by simp
  show "dentry_bytes m (dir_addr img0 0) = dentry_bytes image_mem (dir_addr img0 0)"
    by (rule image_dentry [OF eq sample_image_ok w]) simp
  have "starts_with m img0 (chars ''shell'') j = starts_with image_mem img0 (chars ''shell'') j" if "j < 2" for j
  proof -
    have "in_region img0 12288 (img0 + of_nat (64 + 64 * j + i))" if "i < 64" for i
      using that \<open>j < 2\<close> by (intro in_region_offset) simp_all
    then have "m (dir_addr img0 j + of_nat i) = image_mem (dir_addr img0 j + of_nat i)" if "i < 64" for i
      using eq that by (simp add: image_eq_def dir_addr_def add.assoc)
    then have "bytes_at m (dir_addr img0 j) (length (chars ''shell'')) = bytes_at image_mem (dir_addr img0 j) (length (chars ''shell''))"
      by (intro dentry_same(2)) (simp_all add: chars_def)
    then show ?thesis by (simp only: starts_with_def)
  qed
  then have "filter (starts_with m img0 (chars ''shell'')) [0..<2] = filter (starts_with image_mem img0 (chars ''shell'')) [0..<2]"
    by (intro filter_cong) simp_all
  then show "filter (starts_with m img0 (chars ''shell'')) [0..<unat (m img0)] = [0]"
    using n sample_shell(2) by simp
qed

text \<open>It stores the name of its own file at the start of its page and opens it.\<close>

lemma sample_live:
  "\<exists>t. live link0 0 img0 12288 boot0 (t, \<lambda>_. Running) \<and> mem t (image_base 0) = 0x73 \<and> cur_pcb t = Some 0 \<and>
    paging_view lay' t (Some 0) False \<and> fd_array (pcbs t 0) ! 2 = open_entry File_fops 0"
proof -
  obtain t where t: "\<And>m. reachable lay 0 t m \<Longrightarrow> live link0 0 img0 12288 boot0 m" "paging_view lay' t (Some 0) False"
    "kern_shape t" "cur_pcb t = Some 0" "start_fs t = img0" "\<forall>r. \<forall>fd \<ge> 2. fd < 8 \<longrightarrow> in_use (fd_array (pcbs t r) ! fd) = 0"
    using sample_start by blast
  let ?bs = "chars ''shell'' @ [0]"
  define t1 where "t1 = t\<lparr>mem := write_bytes (image_base 0) ?bs (mem t)\<rparr>"
  have tr: "translate lay' u usr (P_I_ENTRY_POINT + of_nat i) = Some (image_base 0 + of_nat i)"
    if "paging_view lay' u (Some 0) False" "i < 100" for u :: boot and i usr
    using image_contiguous [OF that(1) sample_layout, of P_I_ENTRY_POINT 100 i usr] that(2)
    by (simp add: P_I_ENTRY_POINT_def image_base_def)
  have lb: "length ?bs = 6" by (simp add: chars_def)
  have r1: "reachable lay 0 t (t1, \<lambda>_. Running)"
    unfolding t1_def by (rule reachable_stores [OF reachable.start, where va = P_I_ENTRY_POINT]) (use tr [OF t(2)] lb in simp_all)
  define r where "r = \<lparr>eax = 5, ebx = P_I_ENTRY_POINT, ecx = 0, edx = 0\<rparr>"
  define c where "c = cli t1"
  have c1: "kern_shape c" "cur_pcb c = Some 0" "start_fs c = img0" "mem c = mem t1" "pcbs c = pcbs t" "processes c = processes t"
    using t(3-5) by (simp_all add: c_def t1_def cli_def kern_shape_def cur_pcb_def cur_term_def)
  have cs: "c_str (user_str lay' c P_I_ENTRY_POINT) (chars ''shell'')"
  proof -
    have "paging_view lay' c (Some 0) False" using t(2) by (simp add: c_def t1_def cli_def paging_view_def)
    then have "user_str lay' c P_I_ENTRY_POINT i = Some (?bs ! i)" if "i < 6" for i
      using tr [of c i False] that lb by (simp add: user_str_def) (simp add: c1(4) t1_def write_bytes_inside)
    moreover have "length (chars ''shell'') = 5" "0 \<notin> set (chars ''shell'')" by (simp_all add: chars_def)
    ultimately show ?thesis by (simp add: c_str_def nth_append)
  qed
  have k1: "kinv lay (mem boot0) img0 12288 t1" using live_minv(1) [OF t(1) [OF r1]] by (simp add: minv_def sample_links)
  then have "loose lay (mem boot0) img0 12288 t1" by (simp only: kinv_loose)
  from loose_image [OF this sample_home] have eq: "image_eq img0 12288 image_mem (mem c)"
    using loader_image by (simp add: c1(4) image_eq_def)
  have "free_fds c 0 2 = [2, 3, 4, 5, 6, 7]" using t(6) by (simp add: free_fds_def c1(5) upt_rec)
  moreover have ns: "chars ''shell'' \<noteq> []" "take 5 (chars ''shell'') \<noteq> chars ''stdin''" "take 6 (chars ''shell'') \<noteq> chars ''stdout''"
    by (simp_all add: chars_def)
  moreover have "driver_of_type (file_type (dentry_bytes image_mem (dir_addr img0 0))) = Some File_fops"
    using sample_shell(3) by (simp add: driver_of_type_def)
  ultimately have op: "sys_open dev0 (user_str lay' c P_I_ENTRY_POINT) c = Some (2, put_fd 0 2 (open_entry File_fops 0) c)"
    using sys_open_file [OF c1(1,2) cs ns, of dev0] image_first [OF eq] open_from_first [OF c1(1,2)] sample_shell(4)
    by (simp add: c1(3) driver_open_def)
  let ?u = "put_fd 0 2 (open_entry File_fops 0) c"
  have call: "syscall_handler lay dev0 frame0 0 [] r t1 = Some (Return 2 (sti ?u))"
    using op by (simp add: syscall_handler_def syscalls_def Let_def r_def MIN_SYSTEM_CALLS_def MAX_SYSTEM_CALLS_def flip: c_def)
  have "kstep lay 0 (t1, \<lambda>_. Running) (back_to_user (Return 2 (sti ?u)), \<lambda>_. Running)"
    by (rule kstep.call [OF _ _ _ _ call]) (simp_all add: r_def polite_def prints_inside_def on_stack_def frame0_def)
  from reachable.step [OF r1 this] have "live link0 0 img0 12288 boot0 (sti ?u, \<lambda>_. Running)" using t(1) by simp
  moreover have "mem (sti ?u) (image_base 0) = 0x73"
    using write_bytes_inside [of 0 ?bs "image_base 0" "mem t"] by (simp add: put_fd_def set_pcb_def c1(4) t1_def chars_def)
  moreover have "cur_pcb (sti ?u) = Some 0" "fd_array (pcbs (sti ?u) 0) ! 2 = open_entry File_fops 0"
    using c1(2) put_fd_at [OF c1(1), of 2 0 "open_entry File_fops 0" 2] cur_pcb_put [of 0 2 "open_entry File_fops 0" c]
    by (simp_all add: sti_def cur_pcb_def cur_term_def)
  moreover have "paging_view lay' (sti ?u) (Some 0) False"
    using t(2) by (simp add: sti_def put_fd_def set_pcb_def c_def t1_def cli_def paging_view_def)
  ultimately show ?thesis by blast
qed

text \<open>What a read of a file leaves in its buffer.\<close>

lemma after_read_bytes:
  assumes "take (unat n) (rest_of p fd s) = got"
  shows "bytes_at (mem (after_read p fd buf n s)) buf (length got) = got"
proof (rule nth_equalityI)
  fix i assume "i < length (bytes_at (mem (after_read p fd buf n s)) buf (length got))"
  then have i: "i < length got" by simp
  have "length got \<le> unat n" using assms by auto
  then have "i < unat n" using i by simp
  then have "i < 4294967296" using unat_u32_less [of n] by simp
  then show "bytes_at (mem (after_read p fd buf n s)) buf (length got) ! i = got ! i"
    using i by (simp add: nth_bytes_at after_read_def Let_def assms write_bytes_inside nth_append)
qed simp

section \<open>What holds in every state\<close>

text \<open>C1. Whatever programs do that keep to their own blocks, and whenever the clock and the keyboard
  interrupt them: nothing outside the screens, the global \<open>entry_point\<close>, the kernel stacks and the
  memory of programs ever changes, and a program reaches no memory but the 4 MB of the process of
  the terminal in front and the screen.\<close>

theorem programs_stay_confined:
  assumes "live K lit fsa ext s (t, A)"
  shows "(\<forall>x. \<not> scratch (klayout.truncate K) x \<longrightarrow> mem t x = mem s x) \<and>
    (\<exists>q < 6. (\<forall>p. cur_pcb t = Some p \<longrightarrow> process_num (pcbs t p) = of_nat q) \<and>
      (\<forall>va pa. translate (layout.truncate K) t True va = Some pa \<longrightarrow>
         in_region (of_nat (0x800000 + 0x400000 * q)) 0x400000 pa \<or> in_region VIDEO 4096 pa))"
proof -
  have L: "layout.truncate (klayout.truncate K) = layout.truncate K" by (simp add: layout.truncate_def klayout.truncate_def)
  have k: "kinv (klayout.truncate K) (mem s) fsa ext t" using live_minv(1) [OF assms] by (simp add: minv_def)
  obtain q v where q: "q < 6" "paging_view (layout.truncate K) t (Some q) v"
    using kinvD(3) [OF k] by (auto simp: settled_def L)
  have M: "layout_ok (layout.truncate K)" using live_minv(2) [OF assms] by (simp add: home_ok_def L)
  have "process_num (pcbs t p) = of_nat q" if "cur_pcb t = Some p" for p
  proof -
    have "front_mapped (klayout.truncate K) t" using k by (simp add: kinv_loose)
    from frontD [OF this that _ q(1), of v] have u: "unat (process_num (pcbs t p)) = q" using q(2) by (simp add: L)
    have "process_num (pcbs t p) = of_nat (unat (process_num (pcbs t p)))" by simp
    then show ?thesis by (simp only: u)
  qed
  moreover have "in_region (of_nat (0x800000 + 0x400000 * q)) 0x400000 pa \<or> in_region VIDEO 4096 pa"
    if "translate (layout.truncate K) t True va = Some pa" for va pa
    using user_reach(4,5) [OF q(2) M q(1) that] by (cases "unat va < 0x8400000") simp_all
  ultimately show ?thesis using kinvD(7) [OF k] q(1) by blast
qed

theorem programs_stay_confined_witness:
  "\<exists>t. live link0 0 img0 12288 boot0 (t, \<lambda>_. Running) \<and> mem t (image_base 0) = 0x73 \<and> mem t img0 = 2"
proof -
  obtain t where t: "live link0 0 img0 12288 boot0 (t, \<lambda>_. Running)" "mem t (image_base 0) = 0x73"
    using sample_live by blast
  have "in_region img0 12288 img0" by (simp add: in_region_def)
  from image_apart [OF sample_home this] have "mem t img0 = mem boot0 img0"
    using programs_stay_confined [OF t(1)] by (simp add: sample_links)
  moreover have "mem boot0 img0 = 2" by (simp add: loader_mem_def loader_cells_def img0_def image_mem_def image_cells_def)
  ultimately show ?thesis using t by auto
qed



text \<open>C6. A read of an open file delivers what the boot loader put into memory for it, whatever has
  happened since the start, into any block the program may write to.\<close>

theorem files_stay_as_loaded:
  assumes "live K lit fsa ext s (t, A)" and "cur_pcb t = Some p" and "2 \<le> unat fd" and "unat fd < 8"
    and "d = fd_array (pcbs t p) ! unat fd" and "in_use d = 1" and "fops d = Some File_fops"
    and "file_len (mem s) fsa (info d) \<noteq> 0"
    and "span (layout.truncate K) t True va (unat n) = Some buf" and "buf \<noteq> 0"
  defines "got \<equiv> take (unat n) (drop (unat (file_pos d)) (contents (mem s) fsa (info d)))"
  shows "\<exists>t'. sys_read hs fd buf n t = Some (of_nat (length got), t') \<and> bytes_at (mem t') buf (length got) = got"
proof -
  let ?L = "klayout.truncate K"
  have L: "layout.truncate ?L = layout.truncate K" by (simp add: layout.truncate_def klayout.truncate_def)
  have k: "kinv ?L (mem s) fsa ext t" using live_minv(1) [OF assms(1)] by (simp add: minv_def)
  have h: "home_ok ?L fsa ext" by (rule live_minv(2) [OF assms(1)])
  have f: "wf_file (mem s) fsa ext (info d)" "unat (file_pos d) \<le> file_len (mem s) fsa (info d)"
    using kinvD(5) [OF k] assms(4-7) by (simp_all add: files_ok_def file_ok_def)
  have "loose ?L (mem s) fsa ext t" using k by (simp add: kinv_loose)
  note same = image_eq_file [OF f(1) loose_image [OF this h]]
  note fs = kinvD(6) [OF k]
  have b: "block_ok ?L buf (unat n)" by (rule span_block [OF k h]) (use assms(9) L in simp)
  then have n: "unat n < 2147483648" by (simp add: block_ok_def)
  have dis: "disjoint_region (start_fs t) ext buf (unat n)" using block_apart [OF h b] by (simp add: fs)
  have at: "file_at p (unat fd) ext t"
    using kinvD(2) [OF k] assms(2-8) f same by (simp add: file_at_def Let_def fs)
  have got: "take (unat n) (rest_of p (unat fd) t) = got"
    using same(3) by (simp add: got_def rest_of_def fs assms(5) [symmetric])
  have rd: "sys_read hs fd buf n t = Some (of_nat (length got), after_read p (unat fd) buf n t)"
    using sys_read_file [OF at assms(10)] file_read_after [OF at assms(10) dis n] by (simp add: got)
  have "bytes_at (mem (after_read p (unat fd) buf n t)) buf (length got) = got" by (rule after_read_bytes [OF got])
  then show ?thesis using rd by blast
qed

text \<open>The file of the shell read into the page after its name was stored over its start.\<close>

theorem files_stay_as_loaded_witness:
  "\<exists>t t'. live link0 0 img0 12288 boot0 (t, \<lambda>_. Running) \<and> mem t (image_base 0) = 0x73 \<and>
    sys_read [] 2 (image_base 0) 4 t = Some (4, t') \<and> bytes_at (mem t') (image_base 0) 4 = [0x7F, 0x45, 0x4C, 0x46]"
proof -
  obtain t where t: "live link0 0 img0 12288 boot0 (t, \<lambda>_. Running)" "mem t (image_base 0) = 0x73" "cur_pcb t = Some 0"
    "paging_view lay' t (Some 0) False" "fd_array (pcbs t 0) ! 2 = open_entry File_fops 0"
    using sample_live by blast
  have tr: "translate lay' t True (P_I_ENTRY_POINT + of_nat i) = Some (image_base 0 + of_nat i)" if "i < 100" for i
    using image_contiguous [OF t(4) sample_layout, of P_I_ENTRY_POINT 100 i True] that
    by (simp add: P_I_ENTRY_POINT_def image_base_def)
  have t0: "translate lay' t True P_I_ENTRY_POINT = Some (image_base 0)" using tr [of 0] by simp
  have sp: "span lay' t True P_I_ENTRY_POINT 4 = Some (image_base 0)"
    using tr t0 by (simp add: span_def list_all_iff)
  have c: "contents loader_mem img0 0 = contents image_mem img0 0" "file_len loader_mem img0 0 = 40"
    using image_eq_file(2,3) [OF sample_wf loader_image] by simp_all
  have got: "take (unat (4 :: u32)) (drop 0 (contents (mem boot0) img0 0)) = [0x7F, 0x45, 0x4C, 0x46]"
    using sample_contents(1) by (simp add: c(1))
  have "image_base 0 \<noteq> 0" by (simp add: image_base_def)
  then obtain t' where "sys_read [] 2 (image_base 0) 4 t = Some (4, t')"
    "bytes_at (mem t') (image_base 0) 4 = [0x7F, 0x45, 0x4C, 0x46]"
    using files_stay_as_loaded [OF t(1,3), of 2 "fd_array (pcbs t 0) ! 2" P_I_ENTRY_POINT 4 "image_base 0" "[]"] sp c(2)
      got by (auto simp: sample_links t(5) open_entry_def)
  then show ?thesis using t(1,2) by blast
qed

section \<open>Pointers\<close>

text \<open>C38. The kernel follows the pointers of a call without a look at them: a read of a file into memory
  of the kernel, which the program itself cannot reach, succeeds and writes the file there.\<close>

theorem read_follows_any_pointer:
  assumes "paging_view (layout.truncate L) s (Some q) v" and "layout_ok (layout.truncate L)"
    and "file_at p (unat fd) ext s" and "0x400000 \<le> unat va" and "unat va + unat n \<le> 0x800000"
    and "disjoint_region (start_fs s) ext va (unat n)"
  defines "got \<equiv> take (unat n) (rest_of p (unat fd) s)"
  shows "translate (layout.truncate L) s True va = None \<and>
    (\<exists>s'. syscall_handler L dev fr lit hs \<lparr>eax = 3, ebx = fd, ecx = va, edx = n\<rparr> s = Some (Return (of_nat (length got)) s') \<and>
      bytes_at (mem s') va (length got) = got)"
proof -
  let ?M = "layout.truncate L" and ?c = "cli s"
  let ?r = "\<lparr>eax = 3, ebx = fd, ecx = va, edx = n\<rparr>"
  have "map_option unat (translate ?M s True va) = None"
    unfolding translate_reach [OF assms(1,2)] using assms(4,5) by (auto simp: reach_def)
  then have no: "translate ?M s True va = None" by simp
  have vc: "paging_view ?M ?c (Some q) v" using assms(1) by (simp add: cli_def paging_view_def)
  have at: "file_at p (unat fd) ext ?c"
    using assms(3) by (simp add: file_at_def Let_def cli_def kern_shape_def cur_pcb_def cur_term_def)
  have tr: "translate ?M ?c False (va + of_nat i) = Some (va + of_nat i)" if "i < unat n" for i
  proof -
    have "unat (va + of_nat i) = unat va + i"
      using assms(5) that unat_of_nat32 [of i] by (simp add: unat_plus_if_size word_size)
    then have "map_option unat (translate ?M ?c False (va + of_nat i)) = Some (unat (va + of_nat i))"
      unfolding translate_reach [OF vc assms(2)] using assms(4,5) that by (simp add: reach_def)
    then show ?thesis by (auto dest: unsigned_word_eqI)
  qed
  have sp: "span ?M ?c False va j = Some va" if "j \<le> unat n" for j
  proof (cases "j = 0")
    case False
    then have "translate ?M ?c False va = Some va" using tr [of 0] that by simp
    then show ?thesis using tr that False by (simp add: span_def list_all_iff)
  qed (simp add: span_def)
  have va: "va \<noteq> 0" using assms(4) by auto
  have n: "unat n < 2147483648" using assms(5) by simp
  have fdr: "fd_extent (read_extent fd n ?c) ?c fd va \<le> unat n"
  proof -
    have f: "unat fd < 8" "kern_shape ?c" "cur_pcb ?c = Some p" "in_use (fd_array (pcbs ?c p) ! unat fd) = 1"
      "fops (fd_array (pcbs ?c p) ! unat fd) = Some File_fops" using at by (simp_all add: file_at_def Let_def)
    have "\<not> fd > 7" using f(1) by (simp add: word_less_nat_alt)
    then have "fd_driver ?c fd = Some File_fops" using f cur_fd_shape [OF f(2,3,1)] by (simp add: fd_driver_def)
    then show ?thesis by (simp add: fd_extent_def read_extent_def)
  qed
  have got: "take (unat n) (rest_of p (unat fd) ?c) = got" by (simp add: got_def rest_of_def cli_def)
  have dis: "disjoint_region (start_fs ?c) ext va (unat n)" using assms(6) by (simp add: cli_def)
  have rd: "sys_read hs fd va n ?c = Some (of_nat (length got), after_read p (unat fd) va n ?c)"
    using sys_read_file [OF at va] file_read_after [OF at va dis n] by (simp add: got)
  have "syscall_handler L dev fr lit hs ?r s = Some (Return (of_nat (length got)) (sti (after_read p (unat fd) va n ?c)))"
    using sp [OF fdr] rd by (simp add: syscall_handler_def syscalls_def Let_def MIN_SYSTEM_CALLS_def MAX_SYSTEM_CALLS_def)
  moreover have "bytes_at (mem (sti (after_read p (unat fd) va n ?c))) va (length got) = got"
    using after_read_bytes [OF got] by simp
  ultimately show ?thesis using no by blast
qed

theorem read_follows_any_pointer_witness:
  "\<exists>t s'. live link0 0 img0 12288 boot0 (t, \<lambda>_. Running) \<and> translate lay' t True 0x600000 = None \<and>
    syscall_handler lay dev0 frame0 0 [] \<lparr>eax = 3, ebx = 2, ecx = 0x600000, edx = 4\<rparr> t = Some (Return 4 s') \<and>
    bytes_at (mem s') 0x600000 4 = [0x7F, 0x45, 0x4C, 0x46]"
proof -
  obtain t where t: "live link0 0 img0 12288 boot0 (t, \<lambda>_. Running)" "cur_pcb t = Some 0"
    "paging_view lay' t (Some 0) False" "fd_array (pcbs t 0) ! 2 = open_entry File_fops 0"
    using sample_live by blast
  have k: "kinv lay (mem boot0) img0 12288 t" using live_minv(1) [OF t(1)] by (simp add: minv_def sample_links)
  then have "loose lay (mem boot0) img0 12288 t" by (simp only: kinv_loose)
  from loose_image [OF this sample_home] have eq: "image_eq img0 12288 image_mem (mem t)"
    using loader_image by (simp add: image_eq_def)
  note same = image_eq_file [OF sample_wf eq]
  note fs = kinvD(6) [OF k]
  have at: "file_at 0 (unat (2 :: u32)) 12288 t"
    using kinvD(2) [OF k] t(2,4) same by (simp add: file_at_def Let_def fs open_entry_def)
  have dis: "disjoint_region (start_fs t) 12288 0x600000 (unat (4 :: u32))"
    unfolding fs by (auto simp: disjoint_region_def in_region_nowrap img0_def)
  have got: "take (unat (4 :: u32)) (rest_of 0 (unat (2 :: u32)) t) = [0x7F, 0x45, 0x4C, 0x46]"
    using sample_contents(1) same(3) by (simp add: rest_of_def t(4) open_entry_def fs)
  have va: "0x400000 \<le> unat (0x600000 :: u32)" "unat (0x600000 :: u32) + unat (4 :: u32) \<le> 0x800000" by simp_all
  have l: "length [0x7F, 0x45, 0x4C, 0x46 :: u8] = 4" by simp
  from read_follows_any_pointer [OF t(3) sample_layout at va dis, of dev0 frame0 0 "[]", unfolded got l]
  show ?thesis using t(1) by auto
qed

end
