(* ===== verification/Lib_Props.thy ===== *)
theory Lib_Props
  imports Sample
begin

text \<open>
  Properties of the C library and of the console: each states what a routine does in terms of its
  arguments, and is applied to a concrete input.
\<close>

section \<open>The C library\<close>

text \<open>\<open>memset\<close>, with its byte loop up to alignment, \<open>rep stosl\<close> and byte loop after it, fills
  exactly the \<open>n\<close> bytes from \<open>s\<close> on with the low byte of \<open>c\<close>.\<close>

theorem memset_fills:
  "memset m s c n = write_bytes s (replicate (unat n) (ucast c)) m"
  by (rule memset_fill)

text \<open>\<open>memcpy\<close> makes the destination block what the source block was and changes nothing else,
  unless the destination starts strictly inside the source.\<close>

theorem memcpy_block:
  assumes "upward_ok d s (unat n)"
  shows "bytes_at (memcpy m d s n) d (unat n) = bytes_at m s (unat n) \<and>
    (\<forall>x. \<not> in_region d (unat n) x \<longrightarrow> memcpy m d s n x = m x)"
  using cpy.copy_block [OF assms] cpy.copy_outside [OF assms] by blast

theorem memcpy_block_witness:
  "bytes_at (memcpy (\<lambda>a. ucast a) 0x1002 0x2001 7) 0x1002 7 = [1, 2, 3, 4, 5, 6, 7]"
proof -
  have "upward_ok 0x1002 0x2001 (unat (7 :: u32))" by (simp add: upward_ok_def)
  from memcpy_block [OF this, of "\<lambda>a. ucast a"] show ?thesis
    by (simp add: bytes_at_def upt_rec)
qed

text \<open>C35. \<open>memmove\<close> does so whether or not the blocks overlap.\<close>

theorem memmove_block:
  assumes "no_wrap d s (unat n)"
  shows "bytes_at (fst (memmove m d s n)) d (unat n) = bytes_at m s (unat n) \<and>
    (\<forall>x. \<not> in_region d (unat n) x \<longrightarrow> fst (memmove m d s n) x = m x)"
  using mov.copy_block [OF assms] mov.copy_outside [OF assms] by blast

theorem memmove_block_witness:
  "bytes_at (fst (memmove (\<lambda>a. ucast a) 0x1002 0x1001 4)) 0x1002 4 = [1, 2, 3, 4]"
proof -
  have "no_wrap 0x1002 0x1001 (unat (4 :: u32))" by (simp add: no_wrap_def)
  from memmove_block [OF this, of "\<lambda>a. ucast a"] show ?thesis
    by (simp add: bytes_at_def upt_rec)
qed

text \<open>C34. \<open>itoa\<close> into an array that holds the numeral leaves a terminated string that reads back as
  the number, in every radix from 2 to 36.\<close>

theorem itoa_reads_back:
  assumes "2 \<le> radix" and "radix \<le> 36" and "33 \<le> length d"
  shows "\<exists>d' cs. itoa (get_from 0) (put_from 0) v d radix = Some d' \<and> length d' = length d \<and>
    c_str (get_from 0 d') cs \<and> parse_num (unat radix) cs = unat v"
proof -
  have r: "2 \<le> unat radix" "unat radix \<le> 36" using assms by (simp_all add: word_le_nat_alt)
  have "unat v < unat radix ^ 32"
  proof -
    have "(2 :: nat) ^ 32 \<le> unat radix ^ 32" using r(1) by (rule power_mono) simp
    then show ?thesis using unat_u32_less [of v] by simp
  qed
  then have "length (num_str (unat radix) (unat v)) < length d"
    using length_num_str [OF r(1), of "unat v" 32] assms(3) by simp
  from arr0.itoa_c_str [OF assms(1,2) this] show ?thesis using parse_num_str [OF r] by blast
qed

theorem itoa_reads_back_witness:
  "\<exists>d' cs. itoa (get_from 0) (put_from 0) 0xBEEF (replicate 33 0) 16 = Some d' \<and> length d' = 33 \<and>
    c_str (get_from 0 d') cs \<and> parse_num 16 cs = 0xBEEF"
  using itoa_reads_back [of 16 "replicate 33 0" "0xBEEF"] by simp

text \<open>\<open>strncmp\<close> over the length of its second, terminated operand is zero exactly when the first
  starts with it, and reads nothing past that length.\<close>

theorem strncmp_is_prefix_test:
  assumes "c_str s2 ys" and "length xs = length ys" and "\<forall>k < length ys. s1 k = Some (xs ! k)"
  shows "\<exists>d. strncmp s1 s2 (length ys) = Some d \<and> (d = 0 \<longleftrightarrow> xs = ys)"
  using strncmp_prefix [OF assms(1,2)] assms(3) by blast

theorem strncmp_is_prefix_test_witness:
  "\<exists>d. strncmp (aget (chars ''frame0'')) (c_lit ''frame'') 5 = Some d \<and> d = 0"
proof -
  have "c_str (c_lit ''frame'') (chars ''frame'')"
    unfolding c_lit_def by (rule c_str_aget) (simp add: chars_def)
  moreover have "\<forall>k < length (chars ''frame''). aget (chars ''frame0'') k = Some (chars ''frame'' ! k)"
    by (simp add: aget_def chars_def numeral_eq_Suc less_Suc_eq all_conj_distrib)
  ultimately have "\<exists>d. strncmp (aget (chars ''frame0'')) (c_lit ''frame'') (length (chars ''frame'')) = Some d \<and> d = 0"
    using strncmp_is_prefix_test [of "c_lit ''frame''" "chars ''frame''" "chars ''frame''" "aget (chars ''frame0'')"]
    by blast
  moreover have "length (chars ''frame'') = 5" by simp
  ultimately show ?thesis by (simp only:)
qed

text \<open>\<open>strncpy\<close> writes the first \<open>n\<close> bytes of the string padded with zeros, and keeps the rest of
  the destination.\<close>

theorem strncpy_pads:
  assumes "c_str src xs" and "n \<le> length d"
  shows "strncpy (put_from 0) d src n = Some (take n (xs @ replicate n 0) @ drop n d)"
  by (rule strncpy_list [OF assms])

theorem strncpy_pads_witness:
  "strncpy (put_from 0) (replicate 4 7) (c_lit ''A'') 3 = Some [0x41, 0, 0, 7]"
proof -
  have "c_str (c_lit ''A'') (chars ''A'')" unfolding c_lit_def by (rule c_str_aget) (simp add: chars_def)
  from strncpy_pads [OF this, of 3 "replicate 4 7"] show ?thesis by (simp add: chars_def numeral_eq_Suc)
qed

text \<open>C19. \<open>printf\<close> prints the text of its format and arguments, for every format, whenever the
  arguments match, and fails when they do not: the walk of the code over format, argument
  stack and conversion buffers is the rendering of the text.\<close>

theorem printf_prints_text:
  assumes "list_all parg_ok as"
  shows "printf f (map varg_of as) s = map_option (\<lambda>t. (length f, fold putc t s)) (render f as)"
  using printf_render(1) [OF assms, of f 0 s] by (simp add: printf_def)

theorem printf_prints_text_witness:
  "printf (chars ''%d %#x%%'') [Word (- 5), Word 0xAB] kernel0 =
    Some (8, fold putc (chars ''-5 000000AB%'') kernel0)"
proof -
  have "signed_text (- 5) = chars ''-5''" "hex8_text 0xAB = chars ''000000AB''"
    by code_simp+
  then have "render (chars ''%d %#x%%'') [Num (- 5), Num 0xAB] = Some (chars ''-5 000000AB%'')"
    by (simp add: chars_def)
  then show ?thesis
    using printf_prints_text [of "[Num (- 5), Num 0xAB]" "chars ''%d %#x%%''" kernel0] by simp
qed

section \<open>The screen\<close>

text \<open>C18. A printed character followed by the scroll its callers do acts on the screen as on a grid of
  25 rows of 80 characters with a cursor: it goes where the cursor is, the cursor wraps, and a
  new line on the last row moves all rows up and leaves a blank one.\<close>

theorem screen_is_a_grid:
  assumes "on_screen s"
  shows "tty_of (fold emit cs s) = fold tty_putc cs (tty_of s) \<and> on_screen (fold emit cs s)"
  using scr.run_view [OF assms] scr.run_inv [OF assms] by blast

theorem screen_is_a_grid_witness:
  "grid (tty_of (fold emit [0x41, 0x0A, 0x42] kernel0)) 1 0 = 0x42"
  using screen_is_a_grid [OF sample_on_screen(1), of "[0x41, 0x0A, 0x42]"]
  by (simp add: tty_putc_def tty_newline_def) (simp add: tty_of_def kernel0_def)

text \<open>\<open>clear\<close> blanks every cell of the grid and touches nothing outside the 4000 bytes of the
  screen, nor the cursor.\<close>

theorem clear_blanks:
  "screen (mem (clear s)) = (\<lambda>r c. if r < 25 \<and> c < 80 then 0x20 else 0) \<and>
    (\<exists>m. clear s = s\<lparr>mem := m\<rparr> \<and> (\<forall>x. \<not> in_screen x \<longrightarrow> m x = mem s x))"
proof (intro conjI exI [of _ "filled (\<lambda>_. 0x20) 2000 (mem s)"])
  show "screen (mem (clear s)) = (\<lambda>r c. if r < 25 \<and> c < 80 then 0x20 else 0)"
    by (auto simp: clear_mem screen_def filled_at fun_eq_iff)
qed (simp_all add: clear_mem filled_outside)

theorem clear_blanks_witness:
  "screen (mem (clear kernel0)) 24 79 = 0x20 \<and> mem (clear kernel0) (img0 + 64) = mem kernel0 (img0 + 64)"
proof -
  obtain m where "clear kernel0 = kernel0\<lparr>mem := m\<rparr>" "\<forall>x. \<not> in_screen x \<longrightarrow> m x = mem kernel0 x"
    using clear_blanks [of kernel0] by blast
  moreover have "\<not> in_screen (img0 + 64)" by (simp add: in_screen_def in_region_def VIDEO_def img0_def)
  ultimately show ?thesis using clear_blanks [of kernel0] by simp
qed

text \<open>C32. Writing to the terminal prints the printable bytes of the buffer, in order, on the grid,
  empties the input line, records the cursor with the current terminal, and leaves all memory but
  the screen alone.\<close>

theorem terminal_write_prints:
  assumes "kern_shape s" and "on_screen s" and "\<forall>i < unat n. \<not> in_screen (buf + of_nat i)"
  shows "\<exists>s'. terminal_write 1 buf n s = Some (0, s') \<and>
    tty_of s' = fold tty_putc (filter printable (bytes_at (mem s) buf (unat n))) (tty_of s) \<and>
    on_screen s' \<and> kern_shape s' \<and> length_typed s' = 0 \<and>
    (\<exists>t. cur_term s' = Some t \<and> term_cursor_x t = cursor_x s' \<and> term_cursor_y t = cursor_y s') \<and>
    (\<forall>x. \<not> in_screen x \<longrightarrow> mem s' x = mem s x)"
proof -
  define t where "t = flush (fold emit (filter printable (bytes_at (mem s) buf (unat n))) s)"
  note w = terminal_write_eq [OF assms, folded t_def]
  have c: "current_terminal t = current_terminal s" "terms t = terms s"
    using kern_more_console [OF fold_emit_more] by (simp_all add: t_def)
  have l: "unat (current_terminal s) < length (terms s)" using assms(1) by (simp add: kern_shape_def)
  have k: "kern_shape (t\<lparr>terms := (terms t)[unat (current_terminal s) := (\<lambda>u. u\<lparr>term_cursor_x := cursor_x t,
      term_cursor_y := cursor_y t\<rparr>) (terms t ! unat (current_terminal s))]\<rparr>)"
    by (rule shape_new_term [OF w(4)]) simp
  show ?thesis
    using w k c l by (auto simp: tty_of_def on_screen_def cur_term_def aget_in t_def)
qed

theorem terminal_write_prints_witness:
  "\<exists>s'. terminal_write 1 (img0 + 64) 5 kernel0 = Some (0, s') \<and> on_screen s'"
proof -
  have "\<not> in_screen (img0 + 64 + of_nat i)" if "i < 5" for i
  proof -
    have "i = 0 \<or> i = 1 \<or> i = 2 \<or> i = 3 \<or> i = 4" using that by linarith
    then show ?thesis by (auto simp: in_screen_def in_region_def img0_def VIDEO_def)
  qed
  then have "\<forall>i < unat (5 :: u32). \<not> in_screen (img0 + 64 + of_nat i)" by simp
  from terminal_write_prints [OF sample_shape(1) sample_on_screen(1) this] show ?thesis by blast
qed

end
