(* ===== verification/Device_Props.thy ===== *)
theory Device_Props
  imports Sample
begin

text \<open>
  Properties of the interrupt controller, the clock and the interrupt table.
\<close>

section \<open>Devices\<close>

text \<open>\<open>enable_irq\<close> of a masked line of the master lets exactly that line through in addition.\<close>

theorem enable_irq_unmasks:
  assumes "n < 8" and "bit (master_mask s) n"
  shows "delivered n (enable_irq (of_nat n) s) \<and>
    (\<forall>k < 8. k \<noteq> n \<longrightarrow> delivered k (enable_irq (of_nat n) s) = delivered k s)"
  using enable_masked_master [OF assms] by blast

theorem enable_irq_unmasks_witness: "delivered 1 (enable_irq 1 kernel0)"
proof -
  have "bit (master_mask kernel0) 1" by (simp add: kernel0_def bit_numeral_word_iff)
  from enable_irq_unmasks [OF _ this] show ?thesis by simp
qed

text \<open>C37. Enabling is a toggle of the mask, not a clear: a second line of the slave masks the cascade
  line again, and with it every line of the slave. (The kernel enables one slave line only.)\<close>

theorem second_slave_line_masks_slave:
  assumes "8 \<le> a" "a < 16" "8 \<le> b" "b < 16" and "bit (master_mask s) 2" and "8 \<le> n"
  shows "\<not> delivered n (enable_irq (of_nat b) (enable_irq (of_nat a) s))"
  using second_slave_line_masks_all [OF assms] .

theorem second_slave_line_masks_slave_witness:
  "\<not> delivered 8 (enable_irq 12 (enable_irq 8 kernel0))"
proof -
  have "bit (master_mask kernel0) 2" by (simp add: kernel0_def bit_numeral_word_iff)
  from second_slave_line_masks_slave [where a = 8 and b = 12 and n = 8, OF _ _ _ _ this] show ?thesis by simp
qed

text \<open>Writing a frequency to the clock sets register A to the rate that divides the clock to that
  frequency, for each of the ten powers of two it supports, and to 2 Hz for anything else; the
  high half of the register and register B stay as they were, and interrupts are on again.\<close>

theorem rtc_write_sets_rate:
  "\<exists>r. chip_reg 0x8A (ports (snd (rtc_write dev fd hz nbytes s))) = Some r \<and>
    rate_hz r = (if hz \<in> {2, 4, 8, 16, 32, 64, 128, 256, 512, 1024} then unat hz else 2) \<and>
    r AND 0xF0 = dev (ports s @ [Out 0x70 0x8A]) 0x71 AND 0xF0 \<and>
    chip_reg 0x8B (ports (snd (rtc_write dev fd hz nbytes s))) = chip_reg 0x8B (ports s) \<and>
    intr (snd (rtc_write dev fd hz nbytes s))"
  using rtc_write_regs [of dev fd hz nbytes s] rtc_rate_supported [of hz] rtc_rate_other [of hz]
    new_rate_hz [of "dev (ports s @ [Out 0x70 0x8A]) 0x71" hz] new_rate_high
  by (auto simp: rtc_write_ports)

text \<open>A blocking read of the clock returns at the first clock interrupt, whatever other interrupts
  come before it, and does not return as long as none comes.\<close>

theorem rtc_read_returns_at_interrupt:
  assumes "\<forall>h \<in> set hs. keeps_flag h"
  shows "\<exists>s'. rtc_read (hs @ rtc_test dev # hs') fd buf n s = Some (0, s', hs') \<and>
      rtc_interrupt_happened s' = 1 \<and> rtc_read hs fd buf n s = None"
  using rtc_read_first [OF assms] rtc_read_never [OF assms] by (simp add: rtc_test_effect)

theorem rtc_read_returns_at_interrupt_witness:
  "\<exists>s'. rtc_read ([\<lambda>s. s\<lparr>cursor_x := 7\<rparr>] @ rtc_test (\<lambda>_ _. 0) # []) 2 0 0 kernel0 = Some (0, s', [])"
proof -
  have "\<forall>h \<in> set [\<lambda>s :: kern. s\<lparr>cursor_x := 7\<rparr>]. keeps_flag h" by (simp add: keeps_flag_def)
  from rtc_read_returns_at_interrupt [OF this] show ?thesis by blast
qed



text \<open>Every exception vector the processor defines up to 18 has a handler that prints its message on
  a line of its own (a page fault the address before it), and leaves interrupts enabled.\<close>

theorem exceptions_print:
  assumes "v < 19"
  shows "\<exists>h msg. map_of named_vectors v = Some h \<and> exception_message h = Some msg \<and>
    run_exception a h s = Some (sti (fold putc (exception_text a h msg) (cli s)))"
  using exception_message_total [OF assms] run_exception_prints by blast

theorem exceptions_print_witness:
  "run_exception 0x1000 Page_fault kernel0 =
    Some (sti (fold putc (chars ''CR2: 1000'' @ [0x0A] @ chars ''Page fault.'' @ [0x0A]) (cli kernel0)))"
proof -
  obtain h msg where h: "map_of named_vectors 14 = Some h" "exception_message h = Some msg"
    "run_exception 0x1000 h kernel0 = Some (sti (fold putc (exception_text 0x1000 h msg) (cli kernel0)))"
    using exceptions_print [where v = 14 and a = "0x1000" and s = kernel0] by auto
  have "map_of named_vectors 14 = Some Page_fault" by (simp add: named_vectors_def)
  then have "h = Page_fault" "msg = ''Page fault.''" using h(1,2) by simp_all
  moreover have "hex_text 0x1000 = chars ''1000''"
    by (simp add: hex_text_def num_str_def lsd.simps itoa_lookup_def chars_def nth_append)
  ultimately show ?thesis using h(3) by (simp add: exception_text_def) (simp add: chars_def)
qed

end
