(* ===== verification/Memory_Props.thy ===== *)
theory Memory_Props
  imports Sample
begin

text \<open>
  Properties of paging: what the processor's translation of addresses is after each operation.
\<close>

section \<open>Memory\<close>

text \<open>After \<open>enable_paging\<close> the processor's address translation gives the kernel its own 4 MB and
  the four pages of video memory at their own addresses, and nothing else; a program reaches
  nothing.\<close>

theorem enable_paging_maps_kernel:
  assumes "layout_ok L" and "\<forall>i. v_m_page_table s i = 0"
  shows "map_option unat (translate L (enable_paging L s) user va) =
    (if \<not> user \<and> (0xB8000 \<le> unat va \<and> unat va < 0xBC000 \<or> 0x400000 \<le> unat va \<and> unat va < 0x800000)
     then Some (unat va) else None)"
  using translate_reach [OF enable_paging_view [OF assms] assms(1)] by (simp add: reach_def)

theorem enable_paging_maps_kernel_witness:
  "map_option unat (translate (layout.truncate lay) (enable_paging (layout.truncate lay) kernel0) False 0x412345)
    = Some 0x412345"
proof -
  have "\<forall>i. v_m_page_table kernel0 i = 0" by (simp add: kernel0_def)
  from enable_paging_maps_kernel [OF sample_layout this] show ?thesis by simp
qed

text \<open>Loading process \<open>p\<close> into a set of page tables built by the kernel maps the 4 MB from 128 MB on
  to the \<open>p\<close>-th 4 MB above 8 MB, for programs and the kernel, and changes no other translation.\<close>

theorem load_new_process_maps_image:
  assumes "paging_view L s img video" and "layout_ok L" and "p < 8"
  shows "\<exists>s'. load_new_process L (of_nat p) s = Some s' \<and>
    (\<forall>user va. map_option unat (translate L s' user va) =
      (if 0x8000000 \<le> unat va \<and> unat va < 0x8400000
       then Some (0x800000 + 0x400000 * p + (unat va - 0x8000000))
       else map_option unat (translate L s user va)))"
proof -
  obtain s' where s': "load_new_process L (of_nat p) s = Some s'" using load_new_process_eq [OF assms(3)] by blast
  note v' = load_new_process_view [OF assms s']
  show ?thesis
    using s' translate_reach [OF v' assms(2)] translate_reach [OF assms(1,2)] by (auto simp: reach_def)
qed

theorem load_new_process_maps_image_witness:
  "\<exists>s'. load_new_process lay' 2 booted = Some s' \<and>
    map_option unat (translate lay' s' True 0x8048000) = Some 0x1048000"
proof -
  obtain s' where s': "load_new_process lay' (of_nat 2) booted = Some s'"
    "\<forall>user va. map_option unat (translate lay' s' user va) =
      (if 0x8000000 \<le> unat va \<and> unat va < 0x8400000
       then Some (0x800000 + 0x400000 * 2 + (unat va - 0x8000000))
       else map_option unat (translate lay' booted user va))"
    using load_new_process_maps_image [OF sample_booted sample_layout, of 2] by auto
  have "map_option unat (translate lay' s' True 0x8048000) = Some 0x1048000"
    using s'(2) [rule_format, of True "0x8048000"] by simp
  then show ?thesis using s'(1) by auto
qed

text \<open>C2. Programs are isolated: when the kernel loads two different processes, whatever was loaded before,
  an address both can reach in user mode lies in the page of the screen.\<close>

theorem programs_are_isolated:
  assumes "layout_ok L" and "paging_view L s0 i v" and "paging_view L t0 j w" and "p < 8" and "q < 8" and "p \<noteq> q"
    and "load_new_process L (of_nat p) s0 = Some s" and "load_new_process L (of_nat q) t0 = Some t"
    and "translate L s True a = Some x" and "translate L t True b = Some x"
  shows "0xB8000 \<le> unat x \<and> unat x < 0xB9000"
proof -
  note v = load_new_process_view [OF assms(2,1,4,7)] load_new_process_view [OF assms(3,1,5,8)]
  have "reach (Some p) v True (unat a) = Some (unat x)" "reach (Some q) w True (unat b) = Some (unat x)"
    using translate_reach [OF v(1) assms(1), of True a] translate_reach [OF v(2) assms(1), of True b] assms(9,10)
    by simp_all
  then show ?thesis using reach_disjoint assms(6) by blast
qed

theorem programs_are_isolated_witness:
  "\<exists>s t x. load_new_process lay' 0 (load_video_mem lay' 0 booted) = Some s \<and>
    load_new_process lay' 1 (load_video_mem lay' 0 booted) = Some t \<and>
    translate lay' s True 0x8400010 = Some x \<and> translate lay' t True 0x8400010 = Some x \<and>
    0xB8000 \<le> unat x \<and> unat x < 0xB9000"
proof -
  let ?b = "load_video_mem lay' 0 booted"
  have v: "paging_view lay' ?b None True" by (rule load_video_mem_view [OF sample_booted sample_layout])
  obtain s t where l: "load_new_process lay' (of_nat 0) ?b = Some s" "load_new_process lay' (of_nat 1) ?b = Some t"
    using load_new_process_eq [of 0 lay' ?b] load_new_process_eq [of 1 lay' ?b] by fastforce
  have t: "translate lay' u True 0x8400010 = Some 0xB8010" if "paging_view lay' u (Some p) True" for p u
  proof -
    have "map_option unat (translate lay' u True 0x8400010) = Some 0xB8010"
      using translate_reach [OF that sample_layout, of True "0x8400010"] by (simp add: reach_def)
    then obtain x where x: "translate lay' u True 0x8400010 = Some x" "unat x = 0xB8010" by auto
    have "x = of_nat (unat x)" by simp
    then show ?thesis using x by (simp only: x(2)) simp
  qed
  have st: "translate lay' s True 0x8400010 = Some 0xB8010" "translate lay' t True 0x8400010 = Some 0xB8010"
    using t load_new_process_view [OF v sample_layout _ l(1)] load_new_process_view [OF v sample_layout _ l(2)]
    by simp_all
  show ?thesis
    using programs_are_isolated [OF sample_layout v v _ _ _ l st] l st by (intro exI [of _ s] exI [of _ t]) auto
qed

text \<open>C33. \<open>vidmap\<close> refuses an address outside the program's page; otherwise it makes the page at 132 MB the
  screen for the program, keeps all its other translations, and stores the page's address where
  the program asked.\<close>

theorem vidmap_maps_screen:
  assumes "paging_view L s (Some p) v" and "layout_ok L"
  shows "(0x8000000 \<le> unat a \<and> unat a + 4 \<le> 0x8400000 \<longrightarrow>
     (\<exists>s'. vidmap L a s = Some (0x8400000, s') \<and>
       (\<forall>user va. map_option unat (translate L s' user va) =
         (if 0x8400000 \<le> unat va \<and> unat va < 0x8401000 then Some (0xB8000 + (unat va - 0x8400000))
          else map_option unat (translate L s user va))) \<and>
       load32 (mem s') (of_nat (0x800000 + 0x400000 * p + (unat a - 0x8000000))) = 0x8400000)) \<and>
    (unat a < 0x8000000 \<or> 0x8400000 \<le> unat a \<longrightarrow> vidmap L a s = Some (- 1, s))"
proof (intro conjI impI)
  assume a: "0x8000000 \<le> unat a \<and> unat a + 4 \<le> 0x8400000"
  let ?s' = "(load_video_mem L 0 s)\<lparr>mem := store32 (of_nat (0x800000 + 0x400000 * p + (unat a - 0x8000000)))
      0x8400000 (mem (load_video_mem L 0 s))\<rparr>"
  note val = vidmap_valid [OF assms conjunct1 [OF a] conjunct2 [OF a]]
  have v: "paging_view L ?s' (Some p) True" using val(2) by (simp add: paging_view_def)
  show "\<exists>s'. vidmap L a s = Some (0x8400000, s') \<and>
       (\<forall>user va. map_option unat (translate L s' user va) =
         (if 0x8400000 \<le> unat va \<and> unat va < 0x8401000 then Some (0xB8000 + (unat va - 0x8400000))
          else map_option unat (translate L s user va))) \<and>
       load32 (mem s') (of_nat (0x800000 + 0x400000 * p + (unat a - 0x8000000))) = 0x8400000"
    using val(1) translate_reach [OF v assms(2)] translate_reach [OF assms]
    by (intro exI [of _ ?s'] conjI allI) (auto simp: reach_def mem_simps)
qed (rule vidmap_refuses)

theorem vidmap_maps_screen_witness:
  "(\<exists>s'. vidmap lay' 0x8048000 (with_image 1) = Some (0x8400000, s') \<and> load32 (mem s') 0xC48000 = 0x8400000) \<and>
    vidmap lay' 0x400000 (with_image 1) = Some (- 1, with_image 1)"
  using vidmap_maps_screen [OF sample_image sample_layout, of 1 "0x8048000"]
    vidmap_maps_screen [OF sample_image sample_layout, of 1 "0x400000"] by auto

end
