(* ===== verification/File_Props.thy ===== *)
theory File_Props
  imports Sample
begin

text \<open>
  Properties of the file system on an image in memory.
\<close>

section \<open>The file system\<close>

text \<open>C20. \<open>read_data\<close> on a file of a well-formed image puts the bytes of the file from the offset on into
  the buffer, as many as were asked for and are there, across block boundaries, returns their
  number, and changes nothing else.\<close>

theorem read_data_delivers:
  assumes "wf_file m fs extent inode" and "unat off \<le> file_len m fs inode" and "file_len m fs inode \<noteq> 0"
    and "unat len + unat off < 4294967296"
    and "disjoint_region fs extent buf (min (unat len) (file_len m fs inode - unat off))"
  shows "read_data m fs inode off buf len =
    (of_nat (min (unat len) (file_len m fs inode - unat off)),
     write_bytes buf (take (unat len) (drop (unat off) (contents m fs inode))) m)"
  using read_data_reads [OF assms(1-4) refl assms(5)] by (simp add: min_def)

theorem read_data_delivers_witness:
  "snd (read_data image_mem img0 0 24 0x440000 100) =
    write_bytes 0x440000 (take 100 (drop 24 (contents image_mem img0 0))) image_mem"
proof -
  have "disjoint_region img0 12288 0x440000 (min (unat (100 :: u32)) (file_len image_mem img0 0 - unat (24 :: u32)))"
    by (auto simp: disjoint_region_def in_region_nowrap img0_def)
  then show ?thesis using read_data_delivers [OF sample_wf, of 24 100 "0x440000"] by simp
qed

text \<open>Looking up a name returns the first directory entry whose name starts with it, and fails when
  there is none. So a file is found under its name unless an earlier name extends it.\<close>

theorem lookup_is_first_prefix:
  assumes "c_str f xs" and "xs \<noteq> []" and "length xs \<le> 32"
  shows "read_dentry_by_name m fs (Some f) =
    (case filter (\<lambda>n. \<exists>ys. entry_name m fs n = xs @ ys) [0..<unat (m fs)] of
       [] \<Rightarrow> Some (- 1, None) | k # _ \<Rightarrow> Some (0, Some (dentry_bytes m (dir_addr fs k))))"
proof -
  have "starts_with m fs xs = (\<lambda>n. \<exists>ys. entry_name m fs n = xs @ ys)"
    using starts_with_name [OF _ assms(3)] assms(1) by (auto simp: c_str_def)
  then show ?thesis using read_dentry_by_name_first [OF assms(1,2)] by simp
qed

theorem lookup_is_first_prefix_witness:
  "read_dentry_by_name image_mem img0 (Some (c_lit ''shel'')) = Some (0, Some (dentry_bytes image_mem (dir_addr img0 0)))"
proof -
  have c: "c_str (c_lit ''shel'') (chars ''shel'')" by (rule c_str_lit) (simp add: chars_def)
  have "entry_name image_mem img0 0 = chars ''shell''" "entry_name image_mem img0 1 = chars ''rtc''"
    by (simp_all add: entry_name_def bytes_at_def dir_addr_def upt_rec image_mem_def image_cells_def img0_def chars_def)
  then have "filter (\<lambda>n. \<exists>ys. entry_name image_mem img0 n = chars ''shel'' @ ys) [0..<2] = [0]"
    by (simp add: chars_def upt_rec numeral_2_eq_2)
  then show ?thesis using lookup_is_first_prefix [OF c, of image_mem img0] by (simp add: chars_def)
qed

text \<open>Looking up an index gives the same entry as its 64 bytes say, as long as the type and the inode
  number fit into a byte, which is all the code reads of them.\<close>

theorem lookup_by_index:
  assumes "unat i < unat (load32 m fs)" and "load32 m (dir_addr fs (unat i) + 32) < 256"
    and "load32 m (dir_addr fs (unat i) + 36) < 256"
  shows "read_dentry_by_index m fs i = (0, Some (dentry_bytes m (dir_addr fs (unat i))))"
  using assms(1) copy_dentry_agrees [OF assms(2,3)] by (simp add: read_dentry_by_index_eq)

theorem lookup_by_index_witness:
  "read_dentry_by_index image_mem img0 0 = (0, Some (dentry_bytes image_mem (dir_addr img0 0)))"
proof -
  have "load32 image_mem (dir_addr img0 0 + 32) < 256" "load32 image_mem (dir_addr img0 0 + 36) < 256"
    by (simp_all add: load32_def dir_addr_def image_mem_def image_cells_def img0_def)
  then show ?thesis using lookup_by_index [of 0 image_mem img0] by simp
qed

text \<open>Reading a directory delivers the name of the next entry, filled with zeros to 33 bytes whatever
  size was asked for, and after the last entry delivers nothing and starts over.\<close>

theorem dir_read_lists:
  shows "dir_read fd buf n s =
    (if unat (directoryIndex s) < unat (load32 (mem s) (start_fs s))
     then let nm = entry_name (mem s) (start_fs s) (unat (directoryIndex s))
          in Some (of_nat (length nm), s\<lparr>directoryIndex := directoryIndex s + 1,
               mem := write_bytes buf (nm @ replicate (33 - length nm) 0) (mem s)\<rparr>)
     else Some (0, s\<lparr>directoryIndex := 0\<rparr>))"
  using dir_read_entry [of s fd buf n] dir_read_end [of s fd buf n] by auto

end
