(* ===== verification/Fd_Props.thy ===== *)
theory Fd_Props
  imports Sample
begin

text \<open>
  Properties of file descriptors: the invariant of their tables, which descriptor \<open>open\<close> gives
  and \<open>close\<close> frees, what refuses, and that reading a file through its descriptor delivers it.
\<close>

text \<open>Every descriptor in use has a driver, the terminal's exactly if it is 0 or 1, and \<open>open\<close>,
  \<open>close\<close>, \<open>read\<close> and \<open>write\<close> keep it so, whatever interrupt handlers that keep it run
  during a read.\<close>

theorem calls_keep_descriptors:
  assumes "fds_ok s" and "\<forall>h \<in> set hs. \<forall>t. fds_ok t \<longrightarrow> fds_ok (h t)"
    and "sys_open dev name s = Some (r, s') \<or> sys_close fd s = Some (r, s') \<or>
      sys_read hs fd buf n s = Some (r, s') \<or> sys_write dev fd buf n s = Some (r, s')"
  shows "fds_ok s'"
  using assms(3) sys_open_ok [OF assms(1)] sys_close_ok [OF assms(1)] sys_read_ok [OF assms(1,2)]
    sys_write_ok [OF assms(1)] by blast

theorem calls_keep_descriptors_witness:
  "\<exists>s'. sys_close 2 kernel2 = Some (0, s') \<and> fds_ok s'"
proof -
  obtain s' where "sys_close 2 kernel2 = Some (0, s')"
    using sys_close_eq [OF sample_fds(3) sample_current(2), of 2] by auto
  moreover from this have "fds_ok s'"
    by (intro calls_keep_descriptors [where s = kernel2 and hs = "[]" and fd = 2 and r = 0, OF sample_fds(3)]) simp_all
  ultimately show ?thesis by blast
qed

text \<open>C21. \<open>open\<close> of a file's name gives the lowest free descriptor from 2 on, with the driver of
  the file's type, at position 0, for the first directory entry that starts with the name; it
  fails when there is no such entry, no such type or no free descriptor.\<close>

theorem open_gives_first_free:
  assumes "kern_shape s" and "cur_pcb s = Some p" and "c_str f xs" and "xs \<noteq> []"
    and "take 5 xs \<noteq> chars ''stdin''" and "take 6 xs \<noteq> chars ''stdout''"
  shows "sys_open dev f s =
    (case filter (starts_with (mem s) (start_fs s) xs) [0..<unat (mem s (start_fs s))] of
       [] \<Rightarrow> Some (- 1, s)
     | k # _ \<Rightarrow> let e = dentry_bytes (mem s) (dir_addr (start_fs s) k) in
         (case driver_of_type (file_type e) of None \<Rightarrow> Some (- 1, s)
          | Some drv \<Rightarrow> (case free_fds s p 2 of [] \<Rightarrow> Some (- 1, s)
             | fd # _ \<Rightarrow> Some (of_nat fd, snd (driver_open dev drv
                 (put_fd p fd \<lparr>fops = Some drv, in_use = 1, file_pos = 0, info = inode_num e\<rparr> s))))))"
  using sys_open_file [OF assms] open_from_first [OF assms(1,2)]
  by (simp add: Let_def open_entry_def cong: list.case_cong option.case_cong)

theorem open_gives_first_free_witness:
  "\<exists>s'. sys_open dev0 (c_lit ''shell'') kernel2 = Some (3, s') \<and> in_use (fd_array (pcbs s' 0) ! 3) = 1"
proof -
  have c: "c_str (c_lit ''shell'') (chars ''shell'')" by (rule c_str_lit) (simp add: chars_def)
  have "starts_with image_mem img0 (chars ''shell'') 0" "\<not> starts_with image_mem img0 (chars ''shell'') 1"
    by (simp_all add: starts_with_def bytes_at_def dir_addr_def upt_rec image_mem_def image_cells_def img0_def chars_def)
  then have f: "filter (starts_with image_mem img0 (chars ''shell'')) [0..<unat (2 :: u8)] = [0]"
    by (simp add: upt_rec)
  have t: "file_type (dentry_bytes image_mem (dir_addr img0 0)) = 2"
    by (simp add: dentry_bytes_def load32_def dir_addr_def image_mem_def image_cells_def img0_def)
  have "free_fds kernel2 0 2 = [3, 4, 5, 6, 7]" by (simp add: free_fds_def upt_rec zero_fd_def)
  then show ?thesis
    using open_gives_first_free [OF sample_shape(3) sample_current(2) c, of dev0] f t
      put_fd_at [OF sample_shape(3), of 3 0]
    by (simp add: chars_def driver_of_type_def driver_open_def Let_def)
qed

text \<open>\<open>close\<close> frees a file's descriptor, after which every call on it fails and changes
  nothing; the next \<open>open\<close> that finds no lower one free gets it back. Closing it again, or 0, or
  1, or a number above 7, fails.\<close>

theorem close_frees:
  assumes "fds_ok s" and "cur_pcb s = Some p" and "2 \<le> unat fd" and "unat fd < 8"
    and "in_use (fd_array (pcbs s p) ! unat fd) = 1"
  shows "\<exists>s'. sys_close fd s = Some (0, s') \<and>
    sys_read hs fd buf n s' = Some (- 1, s') \<and> sys_write dev fd buf n s' = Some (- 1, s') \<and>
    sys_close fd s' = Some (- 1, s') \<and>
    set (free_fds s' p 2) = insert (unat fd) (set (free_fds s p 2))"
proof -
  define d where "d = fd_array (pcbs s p) ! unat fd"
  define s' where "s' = put_fd p (unat fd) (d\<lparr>in_use := 0\<rparr>) s"
  have k: "kern_shape s" using assms(1) by (simp add: fds_ok_def)
  have c: "sys_close fd s = Some (0, s')"
    using sys_close_eq [OF assms(1-4)] assms(5) by (simp add: s'_def d_def)
  have k': "kern_shape s'" "cur_pcb s' = Some p"
    using put_fd_shape [OF k] assms(2) by (simp_all add: s'_def)
  have at: "fd_array (pcbs s' p) ! g = (if g = unat fd then d\<lparr>in_use := 0\<rparr> else fd_array (pcbs s p) ! g)" for g
    unfolding s'_def by (rule put_fd_at [OF k assms(4)])
  have "in_use (fd_array (pcbs s' p) ! unat fd) = 0" by (simp add: at)
  note un = unused_fd_refuses [OF k' assms(4) this]
  obtain j where j: "j = unat fd" "2 \<le> j" "j < 8" using assms(3,4) by blast
  have "set (free_fds s' p 2) = insert j (set (free_fds s p 2))"
  proof (rule set_eqI)
    fix g
    show "g \<in> set (free_fds s' p 2) \<longleftrightarrow> g \<in> insert j (set (free_fds s p 2))"
      using j(2,3) unfolding free_fds_def at j(1) [symmetric] set_filter set_upt by (cases "g = j") simp_all
  qed
  then show ?thesis unfolding j(1) using c un(1) [of hs buf n] un(2) [of dev buf n] un(3) by (intro exI [of _ s'] conjI)
qed

theorem close_frees_witness:
  "\<exists>s'. sys_close 2 kernel2 = Some (0, s') \<and> sys_read [] 2 0x600000 16 s' = Some (- 1, s')"
  using close_frees [OF sample_fds(3) sample_current(2), of 2 "[]" "0x600000" 16 dev0] by auto

text \<open>Calls on a descriptor that is out of range or not in use return -1 and change nothing.\<close>

theorem bad_descriptor_refused:
  assumes "kern_shape s" and "cur_pcb s = Some p"
    and "8 \<le> unat fd \<or> in_use (fd_array (pcbs s p) ! unat fd) = 0"
  shows "sys_read hs fd buf n s = Some (- 1, s) \<and> sys_write dev fd buf n s = Some (- 1, s) \<and>
    sys_close fd s = Some (- 1, s)"
proof (cases "8 \<le> unat fd")
  case True
  then show ?thesis using bad_fd_refuses by blast
next
  case False
  then show ?thesis using unused_fd_refuses [OF assms(1,2), of fd] assms(3) by simp
qed

theorem bad_descriptor_refused_witness:
  "sys_write dev0 0xFFFFFFFF 0x600000 4 kernel2 = Some (- 1, kernel2) \<and> sys_read [] 5 0x600000 4 kernel2 = Some (- 1, kernel2)"
  using bad_descriptor_refused [OF sample_shape(3) sample_current(2), of "0xFFFFFFFF"]
    bad_descriptor_refused [OF sample_shape(3) sample_current(2), of 5] by (simp add: zero_fd_def)

text \<open>C7. Successive reads of an open file deliver its bytes in order, from the descriptor's
  position on, in pieces of any sizes, until the file ends; what is delivered depends on nothing
  else.\<close>

theorem reads_deliver_file:
  assumes "file_at p (unat fd) extent s"
    and "\<forall>(buf, n) \<in> set rs. buf \<noteq> 0 \<and> disjoint_region (start_fs s) extent buf (unat n) \<and> unat n < 2147483648"
  shows "\<exists>s'. read_seq hs fd rs s =
    Some (take (\<Sum>r \<leftarrow> rs. unat (snd r)) (rest_of p (unat fd) s), s')"
  by (rule read_seq_contents [OF assms])

theorem reads_deliver_file_witness:
  "\<exists>s'. read_seq [] 2 [(0x440000, 30), (0x440000, 100)] kernel2 = Some (contents image_mem img0 0, s')"
proof -
  have "file_at 0 (unat (2 :: u32)) 12288 kernel2" by (simp add: file_at_def Let_def)
  moreover have "disjoint_region img0 12288 0x440000 100" "disjoint_region img0 12288 0x440000 30"
    by (auto simp: disjoint_region_def in_region_nowrap img0_def)
  ultimately show ?thesis
    using reads_deliver_file [where s = kernel2 and fd = 2 and hs = "[]" and rs = "[(0x440000, 30), (0x440000, 100)]"]
    by (simp add: rest_of_def)
qed

end
