(* ===== verification/Echo.thy ===== *)
theory Echo
  imports Line_Edit Kernel_Run
begin

text \<open>
  What typing shows. The screen after a key is a function of the screen, the line being edited and
  the key; and the parts of the kernel that have nothing to do with the keyboard stay as they are.
\<close>

section \<open>The screen of the editor\<close>

definition tty_put :: "nat \<Rightarrow> nat \<Rightarrow> u8 \<Rightarrow> tty \<Rightarrow> tty" where
  "tty_put r c v t = (if r < 25 \<and> c < 80
     then t\<lparr>grid := (\<lambda>r' c'. if r' = r \<and> c' = c then v else grid t r' c')\<rparr> else t)"

definition tty_scroll :: "tty \<Rightarrow> tty" where
  "tty_scroll t = (if row t \<ge> 25
     then t\<lparr>grid := (\<lambda>r c. if r < 24 then grid t (Suc r) c else if r = 24 \<and> c < 80 then 0x20 else 0),
       row := row t - 1, col := 0\<rparr> else t)"

definition tty_wrap :: "tty \<Rightarrow> tty" where
  "tty_wrap t = (if col t > 79 then t\<lparr>col := 0, row := Suc (row t)\<rparr> else t)"

definition tty_back :: "tty \<Rightarrow> tty" where
  "tty_back t = (if col t = 0 then t\<lparr>col := 79, row := row t - 1\<rparr> else t\<lparr>col := col t - 1\<rparr>)"

definition tty_key :: "u8 \<Rightarrow> editor \<Rightarrow> tty \<Rightarrow> tty" where
  "tty_key k e t =
     (if k \<in> {CAPS_LOCK, L_SHIFT, R_SHIFT} then t
      else if k = ENTER then t\<lparr>col := 0, row := Suc (row t)\<rparr>
      else if k = BACKSPACE then
        (if line e = [] then t else tty_put (row (tty_back t)) (col (tty_back t)) 0x20 (tty_back t))
      else if length (line e) < 128 then
        (tty_put (row t) (col t) (key_value (shift e \<or> caps e) k) t)\<lparr>col := Suc (col t)\<rparr>
      else t)"

definition tty_press :: "u8 \<Rightarrow> editor \<Rightarrow> tty \<Rightarrow> tty" where
  "tty_press k e t = tty_scroll (tty_key k e (tty_wrap t))"

fun typed :: "u8 list \<Rightarrow> editor \<Rightarrow> tty \<Rightarrow> tty" where
  "typed [] e t = t"
| "typed (k # ks) e t = typed ks (ed_press k e) (tty_press k e t)"

lemma tty_put_fields [simp]: "row (tty_put r c v t) = row t" "col (tty_put r c v t) = col t"
  by (simp_all add: tty_put_def)

lemma put_cell_grid:
  assumes "0 \<le> x" "x < 80" "0 \<le> y" "y \<le> 25"
  shows "tty_of (put_cell y x c s) = tty_put (nat y) (nat x) c (tty_of s)"
proof -
  obtain r k where rk: "y = int r" "x = int k" "r \<le> 25" "k < 80"
    using assms by (auto dest!: zero_le_imp_eq_int)
  have other: "scr_at (80 * r' + c') \<noteq> scr_at (80 * r + k) + 1" if "r' < 25" "c' < 80" for r' c'
    using scr_at_parity that rk by simp
  have a: "cell_addr y x = scr_at (80 * r + k)" "nat y = r" "nat x = k" by (simp_all add: rk cell_addr_nat)
  show ?thesis
  proof (cases "r < 25")
    case True
    then have same: "scr_at (80 * r' + c') = scr_at (80 * r + k) \<longleftrightarrow> r' = r \<and> c' = k" if "r' < 25" "c' < 80" for r' c'
      using scr_at_inject [of r' c' r k] that rk by simp
    show ?thesis unfolding a using True rk(4)
      by (auto simp: tty_of_def screen_def put_cell_def a same other fun_eq_iff tty_put_def)
  next
    case False
    have same: "scr_at (80 * r' + c') \<noteq> scr_at (80 * r + k)" if "r' < 25" "c' < 80" for r' c'
    proof
      assume "scr_at (80 * r' + c') = scr_at (80 * r + k)"
      then have "unat (scr_at (80 * r' + c') - VIDEO) = unat (scr_at (80 * r + k) - VIDEO)" by simp
      then have "80 * r' + c' = 80 * r + k" using rk that by simp
      then show False using False rk(3) that by linarith
    qed
    show ?thesis unfolding a using False
      by (auto simp: tty_of_def screen_def put_cell_def a same other fun_eq_iff tty_put_def)
  qed
qed

lemma scroll_grid:
  assumes "0 \<le> cursor_y s" "0 \<le> cursor_x s"
  shows "tty_of (scroll_if_needed (move_cursor_to x y s)) = tty_scroll (tty_of s)"
  using assms
  by (auto simp: tty_of_def tty_scroll_def scroll_if_needed_cursor scrolled_def filled_at
      screen_def fun_eq_iff add_ac nat_diff_distrib)

lemma wrap_grid: "0 \<le> cursor_x s \<Longrightarrow> 0 \<le> cursor_y s \<Longrightarrow> tty_of (wrapped s) = tty_wrap (tty_of s)"
  by (auto simp: tty_of_def wrapped_def tty_wrap_def nat_add_distrib)

lemma type_char_grid:
  assumes ok: "kb_ok s" and k: "unat k < 100" "k \<noteq> BACKSPACE" and t: "type_char k (wrapped s) = Some t"
  shows "tty_of t = (if length (line (editor_of s)) < 128
    then (tty_put (row (tty_of (wrapped s))) (col (tty_of (wrapped s)))
      (key_value (shift (editor_of s) \<or> caps (editor_of s)) k) (tty_of (wrapped s)))\<lparr>col := Suc (col (tty_of (wrapped s)))\<rparr>
    else tty_of (wrapped s))"
proof -
  let ?s = "wrapped s"
  note w = wrapped_ok [OF ok]
  have len: "0 \<le> length_typed s" "length_typed s \<le> 128" "length (input_buffer s) = 128"
    using ok by (auto simp: kb_ok_def kern_shape_def)
  have line: "length (line (editor_of s)) = nat (length_typed s)" using len by (simp add: editor_of_def)
  show ?thesis
  proof (cases "length_typed s < 128")
    case False
    then show ?thesis using t line by (simp add: type_char_def w)
  next
    case True
    define v where "v = key_value (shift_flag ?s = 1 \<or> caps_flag ?s = 1) k"
    have v': "v = key_value (shift (editor_of s) \<or> caps (editor_of s)) k"
      by (simp add: v_def editor_of_def kern_more_console [OF w(10)])
    let ?u = "?s\<lparr>input_buffer := (input_buffer s)[nat (length_typed s) := v]\<rparr>"
    define u where "u = put_cell (cursor_y ?s) (cursor_x ?s) v ?u"
    have "type_char k ?s = Some (u\<lparr>length_typed := length_typed u + 1, cursor_x := cursor_x u + 1\<rparr>)"
      using True len k by (auto simp: type_char_def w v_def u_def key_value_def Let_def key_tables aget_in aput_in)
    then have e: "t = u\<lparr>length_typed := length_typed u + 1, cursor_x := cursor_x u + 1\<rparr>" using t by simp
    have "tty_of u = tty_put (row (tty_of ?s)) (col (tty_of ?s)) v (tty_of ?s)"
      using put_cell_grid [of "cursor_x ?s" "cursor_y ?s" v ?u] w by (simp add: u_def tty_of_def)
    moreover have "tty_of t = (tty_of u)\<lparr>col := Suc (col (tty_of u))\<rparr>"
      using w(4) by (simp add: e tty_of_def u_def nat_add_distrib)
    ultimately show ?thesis using True len line by (simp add: v')
  qed
qed

lemma key_action_grid:
  assumes ok: "kb_ok s" and k: "unat k < 100" and t: "key_action k (wrapped s) = Some t"
  shows "tty_of t = tty_key k (editor_of s) (tty_wrap (tty_of s))"
proof -
  note w = wrapped_ok [OF ok]
  let ?s = "wrapped s"
  have g: "tty_wrap (tty_of s) = tty_of ?s" using ok by (simp add: kb_ok_def wrap_grid)
  consider "k = CAPS_LOCK \<or> k = L_SHIFT \<or> k = R_SHIFT" | "k = ENTER" | "k = BACKSPACE"
    | "k \<notin> {CAPS_LOCK, L_SHIFT, R_SHIFT, ENTER, BACKSPACE}" by auto
  then show ?thesis
  proof cases
    case 1
    then have "tty_of t = tty_of ?s" using t by (elim disjE) (auto simp: key_action_keys tty_of_def)
    moreover have "tty_key k (editor_of s) (tty_of ?s) = tty_of ?s" using 1 by (simp add: tty_key_def)
    ultimately show ?thesis by (simp only: g)
  next
    case 2
    have "tty_of (press_enter ?s) = (tty_of ?s)\<lparr>col := 0, row := Suc (row (tty_of ?s))\<rparr>"
      using w(6) by (simp add: press_enter_def flush_def tty_of_def nat_add_distrib)
    then show ?thesis using 2 t by (simp add: key_action_keys tty_key_def g)
  next
    case 3
    have l: "line (editor_of s) = [] \<longleftrightarrow> \<not> length_typed s > 0"
      using w(13,14) ok by (auto simp: editor_of_def kb_ok_def kern_shape_def)
    have "tty_of (press_backspace ?s) = tty_put (row (tty_back (tty_of ?s))) (col (tty_back (tty_of ?s))) 0x20 (tty_back (tty_of ?s))"
      if pos: "length_typed s > 0"
    proof -
      define x' where "x' = (if cursor_x ?s = 0 then 79 else cursor_x ?s - 1)"
      define y' where "y' = (if cursor_x ?s = 0 then cursor_y ?s - 1 else cursor_y ?s)"
      define u where "u = ?s\<lparr>cursor_x := x', cursor_y := y', length_typed := length_typed s - 1\<rparr>"
      have "\<not> (cursor_x ?s = 0 \<and> cursor_y ?s = 0)" using w pos by auto
      then have bs: "press_backspace ?s = put_cell y' x' 0x20 u"
        using w by (auto simp: press_backspace_def x'_def y'_def u_def Let_def)
      have xy: "0 \<le> x'" "x' < 80" "0 \<le> y'" "y' \<le> 25"
        using w(4-7,9) pos by (auto simp: x'_def y'_def)
      have "tty_of u = tty_back (tty_of ?s)"
        using w(4-7) by (auto simp: u_def tty_of_def tty_back_def x'_def y'_def nat_diff_distrib)
      moreover have "row (tty_of u) = nat y'" "col (tty_of u) = nat x'" by (simp_all add: u_def tty_of_def)
      ultimately show ?thesis unfolding bs put_cell_grid [OF xy] by simp
    qed
    then show ?thesis using 3 t l by (cases "length_typed s > 0") (simp_all add: key_action_keys tty_key_def g w)
  next
    case 4
    then have "type_char k ?s = Some t" using t by (simp add: key_action_keys(6))
    from type_char_grid [OF ok k _ this] show ?thesis using 4 by (simp add: tty_key_def g)
  qed
qed

section \<open>The screen after typing\<close>

lemma tty_of_eoi [simp]: "tty_of (send_eoi n s) = tty_of s" "tty_of (outb v p s) = tty_of s"
  by (simp_all add: tty_of_def send_eoi_def outb_def)

lemma key_irq_grid:
  fixes s :: "'a kern_scheme"
  assumes ok: "kb_ok s" "ctrl_pressed s = 0" and k: "unat k < 100" "k \<noteq> CTRL"
  shows "tty_of (key_irq L fr k s) = tty_press k (editor_of s) (tty_of s)"
proof -
  define s1 where "s1 = snd (inb (\<lambda>_ _. k) KEYBOARD_DATA_PORT (cli s))"
  note e = key_irq_eq [OF ok k, folded s1_def]
  have t1: "tty_of s1 = tty_of s" by (simp add: s1_def inb_def cli_def tty_of_def)
  obtain t where t: "key_action k (wrapped s1) = Some t" "kb_mid t"
    "key_irq L fr k s = sti (send_eoi 1 (scroll_if_needed (move_cursor_to (cursor_x t) (cursor_y t) t)))"
    using e(1) by blast
  have "0 \<le> cursor_y t" "0 \<le> cursor_x t" using t(2) by (simp_all add: kb_mid_def)
  moreover have "tty_of (sti u) = tty_of u" for u :: "'a kern_scheme" by (simp add: tty_of_def sti_def)
  ultimately show ?thesis
    using key_action_grid [OF e(2) k(1) t(1)] scroll_grid [of t] unfolding t(3)
    by (simp add: tty_press_def t1 e(3))
qed

lemma key_irqs_grid:
  assumes "\<forall>k \<in> set ks. unat k < 100 \<and> k \<noteq> CTRL"
  shows "kb_ok s \<Longrightarrow> ctrl_pressed s = 0 \<Longrightarrow>
    tty_of (fold (key_irq L fr) ks s) = typed ks (editor_of s) (tty_of s)"
  using assms
proof (induction ks arbitrary: s)
  case (Cons k ks)
  then have k: "unat k < 100" "k \<noteq> CTRL" by simp_all
  note e = key_irq_edits [OF Cons.prems(1,2) k, where L = L and fr = fr]
  show ?case using Cons.IH [OF e(1,2)] Cons.prems(3) e(3) key_irq_grid [OF Cons.prems(1,2) k, of L fr] by simp
qed simp

text \<open>A row is 80 cells; the character typed with the cursor behind the last one of the last row is
  written below the screen, and what scrolls up is an empty row.\<close>

lemma last_key_lost:
  assumes "row t = 24" and "col t = 80" and "length (line e) < 128"
    and "k \<notin> {CAPS_LOCK, L_SHIFT, R_SHIFT, ENTER, BACKSPACE}"
  shows "tty_press k e t = \<lparr>grid = (\<lambda>r c. if r < 24 then grid t (Suc r) c else if r = 24 \<and> c < 80 then 0x20 else 0),
    row = 24, col = 0\<rparr>"
  using assms by (simp add: tty_press_def tty_wrap_def tty_key_def tty_put_def tty_scroll_def fun_eq_iff)

end
