(* ===== verification/Terminal_Props.thy ===== *)
theory Terminal_Props
  imports Sample Echo
begin

text \<open>
  Properties of the keyboard and of reading the terminal: key presses edit a line, the line
  reaches the program that reads, and what happens when it does not fit or none is entered.
\<close>


lemma key_examples: "keyboard_char ! 0x23 = 0x68" "keyboard_char ! 0x17 = 0x69"
  by (code_simp, code_simp)

lemma press_examples:
  "ed_press 0x2A e = e\<lparr>shift := True\<rparr>"
  "length (line e) < 128 \<Longrightarrow> ed_press 0x23 e = e\<lparr>line := line e @ [if shift e \<or> caps e then 0x48 else 0x68]\<rparr>"
  "length (line e) < 128 \<Longrightarrow> ed_press 0x17 e = e\<lparr>line := line e @ [if shift e \<or> caps e then 0x49 else 0x69]\<rparr>"
  "ed_press 0x0E e = e\<lparr>line := butlast (line e)\<rparr>"
  by (simp_all add: ed_press_def key_codes key_value_def key_examples)


text \<open>C15. What is typed appears: after any keys (scancodes the table covers, without control) the screen
  is the one the editor's keys make of it, one after the other, each character in the cell of the
  cursor, a backspace blanking the cell before it, across the ends of rows and with the screen
  scrolled when the last row is left. A character typed with the cursor behind the last cell of the
  screen is the exception: it is written below the screen, and only an empty row appears.\<close>

theorem typing_echoes:
  assumes "kb_ok s" and "ctrl_pressed s = 0" and "\<forall>k \<in> set ks. unat k < 100 \<and> k \<noteq> CTRL"
  shows "tty_of (fold (key_irq L fr) ks s) = typed ks (editor_of s) (tty_of s) \<and>
    (row t = 24 \<and> col t = 80 \<and> length (line e) < 128 \<and> k \<notin> {CAPS_LOCK, L_SHIFT, R_SHIFT, ENTER, BACKSPACE} \<longrightarrow>
      tty_press k e t = \<lparr>grid = (\<lambda>r c. if r < 24 then grid t (Suc r) c else if r = 24 \<and> c < 80 then 0x20 else 0),
        row = 24, col = 0\<rparr>)"
  using key_irqs_grid [OF assms(3,1,2)] last_key_lost by blast

theorem typing_echoes_witness:
  "let t = tty_of (fold (key_irq lay frame0) [0x23, 0x17, 0x17, 0x0E] kernel0)
   in grid t 0 0 = 0x68 \<and> grid t 0 1 = 0x69 \<and> grid t 0 2 = 0x20 \<and> row t = 0 \<and> col t = 2"
proof -
  have k: "\<forall>k \<in> set [0x23, 0x17, 0x17, 0x0E :: u8]. unat k < 100 \<and> k \<noteq> CTRL" by (simp add: key_codes)
  have c: "row (tty_of kernel0) = 0" "col (tty_of kernel0) = 0" by (simp_all add: tty_of_def kernel0_def)
  have e: "line (editor_of kernel0) = []" "shift (editor_of kernel0) = False" "caps (editor_of kernel0) = False"
    by (simp_all add: editor_of_def kernel0_def)
  show ?thesis
    using typing_echoes [OF sample_kb(1,2) k, of lay frame0] c e
    by (simp add: press_examples tty_press_def tty_wrap_def tty_scroll_def tty_key_def tty_put_def tty_back_def
        key_codes key_value_def key_examples)
qed

text \<open>C16. A program that reads the terminal gets the line the user types: it waits through every key
  before Enter, then receives the line as edited with a newline, its length, and zeros in the rest
  of its buffer.\<close>

theorem typed_line_is_read:
  assumes "kb_ok s" and "ctrl_pressed s = 0" and "can_read s \<noteq> 1"
    and "\<forall>k \<in> set ks. unat k < 100 \<and> k \<noteq> CTRL \<and> k \<noteq> ENTER"
    and "xs = line (fold ed_press ks (editor_of s))" and "length xs < 128" and "0 \<notin> set xs"
    and "Suc (length xs) < unat n" and "\<forall>i < unat n. \<not> in_rows (buf + of_nat i)"
  shows "\<exists>s'. terminal_read (map (key_irq L fr) (ks @ [ENTER]) @ hs) 0 buf n s = Some (of_nat (Suc (length xs)), s') \<and>
    bytes_at (mem s') buf (unat n) = xs @ 0x0A # replicate (unat n - Suc (length xs)) 0"
  using typed_line_read [OF assms] by blast

theorem typed_line_is_read_witness:
  "\<exists>s'. terminal_read (map (key_irq lay frame0) ([0x23, 0x17] @ [ENTER]) @ []) 0 0x600000 5 kernel0 = Some (3, s') \<and>
    bytes_at (mem s') 0x600000 5 = [0x68, 0x69, 0x0A, 0, 0]"
proof -
  have k: "\<forall>k \<in> set [0x23, 0x17 :: u8]. unat k < 100 \<and> k \<noteq> CTRL \<and> k \<noteq> ENTER" by (simp add: key_codes)
  have l: "[0x68, 0x69] = line (fold ed_press [0x23, 0x17] (editor_of kernel0))" by (simp add: press_examples)
  have "\<not> in_rows (0x600000 + of_nat i)" if "i < 5" for i
  proof -
    have "i = 0 \<or> i = 1 \<or> i = 2 \<or> i = 3 \<or> i = 4" using that by linarith
    then show ?thesis by (auto simp: in_rows_def in_region_def VIDEO_def)
  qed
  then have "\<forall>i < unat (5 :: u32). \<not> in_rows (0x600000 + of_nat i)" by simp
  moreover have "replicate 2 (0 :: u8) = [0, 0]" by (simp add: numeral_2_eq_2)
  ultimately show ?thesis
    using typed_line_is_read [OF sample_kb(1,2) _ k l, where buf = "0x600000" and n = 5 and L = lay and fr = frame0 and hs = "[]"]
    by simp
qed

text \<open>C39. A line longer than the buffer is copied whole, past the buffer's end, and the length returned
  is greater than the size asked for: the code compares the size with the characters typed since
  Enter.\<close>

theorem long_line_overruns:
  assumes "waited hs buf n s s3" and "line_ready xs s3" and "length_typed s3 = 0" and "1 < unat n"
    and "unat n \<le> length xs" and "0 \<notin> set xs" and "mem s3 (buf + of_nat (Suc (length xs))) = 0"
  shows "\<exists>s'. terminal_read hs 0 buf n s = Some (of_nat (Suc (length xs)), s') \<and>
    bytes_at (mem s') buf (Suc (length xs)) = xs @ [0x0A] \<and> unat n < unat (of_nat (Suc (length xs)) :: u32)"
proof -
  let ?m = "write_bytes buf (xs @ [0x0A]) (mem s3)"
  have len: "length xs < 128" using assms(2) by (simp add: line_ready_def)
  have b: "bytes_at ?m buf (length (xs @ [0x0A])) = xs @ [0x0A]"
    using len by (intro bytes_at_write_bytes) simp_all
  have out: "\<not> in_region buf (Suc (length xs)) (buf + of_nat (Suc (length xs)))"
    using len unat_of_nat32 [of "Suc (length xs)"] by (simp only: in_region_def) simp
  have "?m (buf + of_nat (length (xs @ [0x0A]))) = 0"
    using out assms(7) by (simp add: write_bytes_def)
  moreover have "0 \<notin> set (xs @ [0x0A])" using assms(6) by simp
  ultimately have "c_str (ptr_mem ?m buf) (xs @ [0x0A])" by (intro c_str_ptr_mem [OF _ b]) simp_all
  from strlen_c_str [OF this] have l: "strlen (ptr_mem ?m buf) = Some (Suc (length xs))" by simp
  have t: "0 \<le> length_typed s3" "length_typed s3 + 1 < int (unat n)" using assms(3,4) by linarith+
  have "unat (of_nat (Suc (length xs)) :: u32) = Suc (length xs)" using len by (intro unat_of_nat32) simp
  then show ?thesis
    using terminal_read_copies [OF assms(1,2) t] l b assms(5) by (simp add: line_taken_def flush_def)
qed

theorem long_line_overruns_witness:
  "\<exists>(s :: kern) s'. terminal_read [] 0 0x600000 3 s = Some (6, s') \<and> bytes_at (mem s') 0x600000 6 = chars ''hello'' @ [0x0A]"
proof -
  define s where "s = kernel0\<lparr>can_read := 1, old_length_typed := 5, temp_buffer := pad 128 (chars ''hello'')\<rparr>"
  define s3 where "s3 = (sti s)\<lparr>mem := memset (mem s) 0x600000 0 3\<rparr>"
  have s3: "can_read s3 = 1" "old_length_typed s3 = 5" "temp_buffer s3 = pad 128 (chars ''hello'')" "length_typed s3 = 0"
    by (simp_all add: s3_def s_def sti_def kernel0_def)
  have k: "kern_shape s3"
    using sample_shape(1) by (simp add: s3_def s_def sti_def kern_shape_def) (simp add: pad_def chars_def)
  have w: "waited [] 0x600000 3 s s3" using s3(1) by (simp add: waited_def flip: s3_def)
  have r: "line_ready (chars ''hello'') s3" using s3 k by (simp add: line_ready_def pad_def chars_def)
  have hello: "length (chars ''hello'') = 5" "0 \<notin> set (chars ''hello'')" by (simp_all add: chars_def)
  have m: "mem s3 (0x600000 + of_nat (Suc (length (chars ''hello'')))) = 0"
    by (simp add: s3_def s_def memset_fill write_bytes_def in_region_def chars_def)
      (simp add: kernel0_def image_mem_def image_cells_def img0_def)
  have n: "1 < unat (3 :: u32)" "unat (3 :: u32) \<le> length (chars ''hello'')" by (simp_all add: hello)
  obtain s' where s': "terminal_read [] 0 0x600000 3 s = Some (of_nat (Suc (length (chars ''hello''))), s')"
    "bytes_at (mem s') 0x600000 (Suc (length (chars ''hello''))) = chars ''hello'' @ [0x0A]"
    using long_line_overruns [OF w r s3(4) n hello(2) m] by blast
  have "of_nat (Suc (length (chars ''hello''))) = (6 :: u32)" "Suc (length (chars ''hello'')) = 6" by (simp_all add: hello)
  then show ?thesis using s' by (intro exI [of _ s] exI [of _ s'] conjI) (simp_all only:)
qed



end
