(* ===== verification/Process_Props.thy ===== *)
theory Process_Props
  imports Sample
begin

text \<open>
  Properties of processes and terminals: the stacks of programs that \<open>execute\<close> and \<open>halt\<close> keep,
  what a program starts with, what refuses a command, the arguments a program gets, and leaving a
  terminal and returning to it.
\<close>

section \<open>Starting a program\<close>

text \<open>C4. A command that names an executable starts it: it is pushed on its terminal's stack of
  processes, enters at the address in its header, finds its file at \<open>0x8048000\<close>, its name and
  arguments in its control block and its standard input and output open.\<close>

theorem execute_starts_program:
  assumes "stacks s stk" and "c_str cmd xs" and "length xs < 32" and "kern_shape s"
    and "layout_ok (layout.truncate L)" and "paging_view (layout.truncate L) s img video"
    and "startable L fr extent xs inode p s"
  defines "prog \<equiv> contents (mem s) (start_fs s) inode"
  shows "\<exists>s'. execute L dev fr (Some cmd) s = Some (Enter_user (le_word (take 4 (drop 24 prog))) s') \<and>
    stacks s' (stk(unat (current_terminal s) := p # stk (unat (current_terminal s)))) \<and>
    (\<forall>i < length prog. map_option (mem s') (translate (layout.truncate L) s' True (0x8048000 + of_nat i)) = Some (prog ! i)) \<and>
    pname (pcbs s' p) = pad 32 (cmd_name xs) \<and> args (pcbs s' p) = pad 95 (cmd_args xs) \<and>
    (\<forall>fd < 2. in_use (fd_array (pcbs s' p) ! fd) = 1) \<and> tss_esp0 s' = kernel_stack_top p"
proof -
  obtain s' where s': "execute L dev fr (Some cmd) s = Some (Enter_user (le_word (take 4 (drop 24 prog))) s')"
    "started L fr (cmd_name xs) (cmd_args xs) prog p video s s'"
    "stacks s' (stk(unat (current_terminal s) := p # stk (unat (current_terminal s))))"
    using execute_pushes [OF assms(1-7), of dev, folded prog_def] by blast
  have len: "length prog \<le> 0x3B8000"
    using assms(7) by (simp add: startable_def loadable_def Let_def prog_def)
  have bytes: "map_option (mem s') (translate (layout.truncate L) s' True (0x8048000 + of_nat i)) = Some (prog ! i)"
    if i: "i < length prog" for i
  proof -
    have v: "paging_view (layout.truncate L) s' (Some p) video" and b: "bytes_at (mem s') (image_base p) (length prog) = prog"
      using s'(2) by (simp_all add: started_def Let_def)
    have "translate (layout.truncate L) s' True (0x8048000 + of_nat i) = Some (image_base p + of_nat i)"
      using image_contiguous [OF v assms(5), of "0x8048000" "length prog" i True] i len by (simp add: image_base_def)
    then show ?thesis using nth_bytes_at [OF i, of "mem s'" "image_base p"] b by simp
  qed
  obtain fds where "pcbs s' p = (new_pcb fr p (cmd_name xs) (cmd_args xs) (terms s ! unat (current_terminal s)) (pcbs s p))\<lparr>fd_array := fds\<rparr>"
    "in_use (fds ! 0) = 1" "in_use (fds ! 1) = 1" "tss_esp0 s' = kernel_stack_top p"
    using s'(2) by (auto simp: started_def Let_def)
  then have "pname (pcbs s' p) = pad 32 (cmd_name xs) \<and> args (pcbs s' p) = pad 95 (cmd_args xs) \<and>
    (\<forall>fd < 2. in_use (fd_array (pcbs s' p) ! fd) = 1) \<and> tss_esp0 s' = kernel_stack_top p"
    by (auto simp: new_pcb_def less_2_cases_iff)
  then show ?thesis using s'(1,3) bytes by blast
qed

theorem execute_starts_program_witness:
  "\<exists>s'. execute lay dev0 frame0 (Some (c_lit ''shell'')) running1 = Some (Enter_user 0x08048100 s') \<and>
    stacks s' ((\<lambda>c. if c = 0 then [0] else [])(0 := [1, 0])) \<and> args (pcbs s' 1) = replicate 95 0"
proof -
  have "le_word [0, 0x81, 0x04, 0x08] = 0x08048100" by (simp add: le_word_def)
  then show ?thesis
    using execute_starts_program [OF sample_stacks shell_command(1,2) sample_running(7) sample_layout
        sample_running_view(1) sample_startable(1), of dev0] sample_contents(2)
    by (auto simp: shell_command(4) pad_def)
qed



text \<open>C29. A command of less than 32 characters is split into its first word and what follows the
  blanks after it; a longer one writes outside the buffers of \<open>execute\<close>.\<close>

theorem command_is_split:
  assumes "c_str command xs"
  shows "parse_command command = (if length xs < 32 then
      Some (pad 32 (takeWhile (\<lambda>c. c \<noteq> 0x20) (dropWhile (\<lambda>c. c = 0x20) xs)),
        pad 95 (dropWhile (\<lambda>c. c = 0x20) (dropWhile (\<lambda>c. c \<noteq> 0x20) (dropWhile (\<lambda>c. c = 0x20) xs))))
    else None)"
  using parse_command_splits [OF assms] parse_command_overflow [OF assms] by (simp add: cmd_name_def cmd_args_def)

theorem command_is_split_witness:
  "parse_command (c_lit '' cat  a b'') = Some (pad 32 (chars ''cat''), pad 95 (chars ''a b''))"
proof -
  have "c_str (c_lit '' cat  a b'') (chars '' cat  a b'')" by (rule c_str_lit) (simp add: chars_def)
  from command_is_split [OF this] show ?thesis by (simp add: chars_def)
qed

section \<open>Ending a program\<close>

text \<open>C17. Halting a program that was executed from another pops it: the kernel goes on with the stack
  the parent called \<open>execute\<close> on, the parent's page is mapped again, the slot is free, the files are
  closed, and name and arguments are cleared; nothing in memory changes.\<close>

theorem halt_returns_to_parent:
  assumes "stacks s stk" and "fds_ok s" and "stk (unat (current_terminal s)) = p # q # qs"
    and "layout_ok (layout.truncate L)" and "paging_view (layout.truncate L) s img video"
  shows "\<exists>s'. halt L dev fr status s = Some (Resume (parent_sp (pcbs s p)) (parent_bp (pcbs s p)) s') \<and>
    stacks s' (stk(unat (current_terminal s) := q # qs)) \<and>
    paging_view (layout.truncate L) s' (Some q) video \<and> tss_esp0 s' = kernel_stack_top q \<and> mem s' = mem s \<and>
    (\<forall>i. bit (processes s') i \<longleftrightarrow> bit (processes s) i \<and> i \<noteq> p) \<and>
    (\<forall>fd. 2 \<le> fd \<and> fd < 8 \<longrightarrow> in_use (fd_array (pcbs s' p) ! fd) = 0) \<and>
    args (pcbs s' p) = replicate 95 0 \<and> pname (pcbs s' p) = replicate 32 0 \<and>
    (\<forall>r. r \<noteq> p \<longrightarrow> pcbs s' r = pcbs s r)"
proof -
  obtain s' where s': "halt L dev fr status s = Some (Resume (parent_sp (pcbs s p)) (parent_bp (pcbs s p)) s')"
    "ended L p q video s s'" "stacks s' (stk(unat (current_terminal s) := q # qs))"
    using halt_pops [OF assms, of dev fr status] by blast
  have "unat (current_terminal s) < 3" using assms(2) by (simp add: fds_ok_def kern_shape_def)
  then have "p < 6" using stacks_small [OF assms(1)] assms(3) by fastforce
  moreover have "i < 6" if "bit (processes s) i" for i
    using that stacksD(2) [OF assms(1)] stacks_small [OF assms(1)] by blast
  ultimately have "bit (processes s') i \<longleftrightarrow> bit (processes s) i \<and> i \<noteq> p" for i
    using s'(2) clear_bitmask(2) by (auto simp: ended_def Let_def)
  then show ?thesis using s' by (intro exI [of _ s'] conjI) (auto simp: ended_def Let_def)
qed

lemma started_again:
  "\<exists>s1. execute lay dev0 frame0 (Some (c_lit ''shell'')) running1 = Some (Enter_user 0x08048100 s1) \<and>
    stacks s1 ((\<lambda>c. if c = 0 then [0] else [])(0 := [1, 0])) \<and> fds_ok s1 \<and> current_terminal s1 = 0 \<and>
    paging_view lay' s1 (Some 1) False \<and> parent_sp (pcbs s1 1) = esp frame0"
proof -
  have "le_word [0, 0x81, 0x04, 0x08] = 0x08048100" by (simp add: le_word_def)
  then obtain s1 where "execute lay dev0 frame0 (Some (c_lit ''shell'')) running1 = Some (Enter_user 0x08048100 s1)"
    "started lay frame0 (chars ''shell'') [] (contents image_mem img0 0) 1 False running1 s1"
    "stacks s1 ((\<lambda>c. if c = 0 then [0] else [])(0 := [1, 0]))"
    using execute_pushes [OF sample_stacks shell_command(1,2) sample_running(7) sample_layout
        sample_running_view(1) sample_startable(1), of dev0] sample_contents(2) by (auto simp: shell_command)
  then show ?thesis by (auto simp: started_def Let_def new_pcb_def zero_term_def)
qed

theorem halt_returns_to_parent_witness:
  "\<exists>(s :: kern) s'. stacks s ((\<lambda>c. if c = 0 then [0] else [])(0 := [1, 0])) \<and>
    halt lay dev0 frame0 0 s = Some (Resume (esp frame0) (parent_bp (pcbs s 1)) s') \<and> \<not> bit (processes s') 1"
proof -
  obtain s1 where s1: "stacks s1 ((\<lambda>c. if c = 0 then [0] else [])(0 := [1, 0]))" "fds_ok s1" "current_terminal s1 = 0"
    "paging_view lay' s1 (Some 1) False" "parent_sp (pcbs s1 1) = esp frame0" "(s1 :: kern) = s1"
    using started_again by blast
  obtain s' where "halt lay dev0 frame0 0 s1 = Some (Resume (esp frame0) (parent_bp (pcbs s1 1)) s')"
    "\<not> bit (processes s') 1"
    using halt_returns_to_parent [OF s1(1,2) _ sample_layout s1(4), of 1 0 "[]" dev0 frame0 0] s1(3,5) by auto
  then show ?thesis using s1(1) by blast
qed



text \<open>C27. A terminal never loses its shell: halting the program at the bottom of a stack, which is
  process 0 or one marked as a terminal's first, starts \<open>shell\<close> in the lowest free slot instead of
  returning. The mark belongs to the slot and is never cleared, so a program that is executed in
  the former slot of another terminal's shell restarts a shell too.\<close>

theorem halt_restarts_shell:
  assumes "fds_ok s" and "cur_pcb s = Some p" and "process_num (pcbs s p) = of_nat p" and "p < 6"
    and "p = 0 \<or> term_start (pcbs s p) = 1"
    and "layout_ok (layout.truncate L)" and "paging_view (layout.truncate L) s img video"
    and "startable L fr extent (chars ''shell'') inode r (s\<lparr>processes := processes s AND process_clear_bitmasks ! p\<rparr>)"
  shows "\<exists>entry s'. halt L dev fr status s = Some (Enter_user entry s') \<and>
    cur_pcb s' = Some r \<and> pname (pcbs s' r) = pad 32 (chars ''shell'') \<and>
    (\<forall>i < 6. bit (processes s') i \<longleftrightarrow> bit (processes s) i \<and> i \<noteq> p \<or> i = r)"
proof -
  have base: "base_process p s" using assms(5) by (simp add: base_process_def)
  obtain e s2 s' where s': "halt L dev fr status s = Some (Enter_user e s')"
    "started L fr (chars ''shell'') [] (contents (mem s) (start_fs s) inode) r video s2 s'"
    "processes s2 = processes s AND process_clear_bitmasks ! p" "terms s2 = terms s"
    "current_terminal s2 = current_terminal s" "term_start (pcbs s2 p) = term_start (pcbs s p)"
    using halt_restarts [OF assms(1-4) base assms(6-8), of dev status] by blast
  have c: "unat (current_terminal s) < length (terms s)" using assms(1) by (simp add: fds_ok_def kern_shape_def)
  have "r < 6" using assms(8) by (auto simp: startable_def free_slots_def dest!: arg_cong [where f = set])
  then have "bit (processes s') i \<longleftrightarrow> bit (processes s) i \<and> i \<noteq> p \<or> i = r" if "i < 6" for i
    using s'(2) that clear_bitmask(2) [OF assms(4)] by (auto simp: started_def Let_def s'(3) bit_simps)
  moreover have "cur_pcb s' = Some r"
    using s'(2) c by (simp add: started_def Let_def cur_pcb_def cur_term_def s'(4,5) aget_in)
  moreover have "pname (pcbs s' r) = pad 32 (chars ''shell'')"
    using s'(2) by (auto simp: started_def Let_def new_pcb_def)
  ultimately show ?thesis using s'(1) by blast
qed

theorem halt_restarts_shell_witness:
  "\<exists>entry s'. halt lay dev0 frame0 0 running1 = Some (Enter_user entry s') \<and> cur_pcb s' = Some 0"
proof -
  have "cur_pcb running1 = Some 0" by (simp add: cur_pcb_def cur_term_def aget_def)
  moreover have "startable lay frame0 12288 (chars ''shell'') 0 0
      (running1\<lparr>processes := processes running1 AND process_clear_bitmasks ! 0\<rparr>)"
    using sample_startable(2) by (simp add: process_clear_bitmasks_def)
  ultimately show ?thesis
    using halt_restarts_shell [OF sample_running(8) _ _ _ _ sample_layout sample_running_view(1), of 0 frame0 12288 0 0 dev0 0]
    by (auto simp: zero_pcb_def)
qed

section \<open>The arguments of a program\<close>

text \<open>C30. \<open>getargs\<close> gives a program the arguments it was started with, and fails without arguments,
  for a null buffer and a size below one. The size does not matter otherwise: 95 bytes are
  written, the arguments padded with zeros.\<close>

theorem getargs_gives_arguments:
  assumes "cur_pcb s = Some p" and "args (pcbs s p) = pad 95 xs" and "0 \<notin> set xs" and "length xs < 95"
    and "c_str (ptr_mem (mem s) buf) ys" and "length ys < 4294967296" and "upward_ok buf lit (length ys)"
  shows "if buf = 0 \<or> xs = [] \<or> sint n \<le> 0 then getargs lit buf n s = Some (- 1, s)
    else \<exists>s'. getargs lit buf n s = Some (0, s') \<and> bytes_at (mem s') buf 95 = xs @ replicate (95 - length xs) 0 \<and>
      (\<forall>x. \<not> in_region buf (max 95 (length ys)) x \<longrightarrow> mem s' x = mem s x)"
proof (cases "buf = 0 \<or> xs = [] \<or> sint n \<le> 0")
  case True
  have "args (pcbs s p) ! 0 = 0 \<longleftrightarrow> xs = []" "length (args (pcbs s p)) = 95"
    using assms(2-4) by (cases xs; simp add: pad_def)+
  then show ?thesis using True getargs_refuses [OF assms(1), of buf n lit] by auto
next
  case False
  let ?m = "write_bytes buf (bytes_at (mem s) lit (length ys)) (mem s)"
  have l: "length (pad 95 xs) = 95" using assms(4) by (simp add: pad_def)
  have b: "bytes_at (write_bytes buf (pad 95 xs) ?m) buf 95 = pad 95 xs"
    using bytes_at_write_bytes [of "pad 95 xs" 95 buf ?m] l by simp
  have f: "write_bytes buf (pad 95 xs) ?m x = mem s x" if "\<not> in_region buf (max 95 (length ys)) x" for x
    using that l by (auto simp: write_bytes_def in_region_def)
  show ?thesis
    using False b f getargs_copies [OF assms(1-4) _ _ _ assms(5-7), of n] by (auto simp: pad_def [of 95 xs])
qed

theorem getargs_gives_arguments_witness:
  "\<exists>(s :: kern) s'. getargs 0x450000 0x600000 3 s = Some (0, s') \<and>
    bytes_at (mem s') 0x600000 95 = chars ''a b'' @ replicate 92 0"
proof -
  define s where "s = kernel1\<lparr>pcbs := (\<lambda>p. zero_pcb\<lparr>args := pad 95 (chars ''a b'')\<rparr>)\<rparr>"
  have p: "cur_pcb s = Some 0" by (simp add: s_def cur_pcb_def cur_term_def kernel1_def kernel0_def aget_def)
  have a: "args (pcbs s 0) = pad 95 (chars ''a b'')" by (simp add: s_def)
  have c: "c_str (ptr_mem (mem s) 0x600000) []"
    by (simp add: c_str_def ptr_mem_def s_def image_mem_def image_cells_def img0_def)
  have u: "upward_ok 0x600000 0x450000 (length ([] :: u8 list))" by (simp add: upward_ok_def in_region_def)
  have n: "sint (3 :: u32) = 3" by simp
  have "chars ''a b'' \<noteq> []" "0 \<notin> set (chars ''a b'')" by (simp_all add: chars_def)
  then have "\<exists>s'. getargs 0x450000 0x600000 3 s = Some (0, s') \<and>
      bytes_at (mem s') 0x600000 95 = chars ''a b'' @ replicate 92 0"
    using getargs_gives_arguments [OF p a _ _ c _ u, of 3] n by auto
  then show ?thesis by blast
qed

section \<open>Switching terminals\<close>


lemma sample_apart: "screens_apart running2"
  by (rule screens_apart_at) (auto simp: running2_def less_Suc_eq numeral_3_eq_3)


text \<open>C31. A terminal is switched only if a count of processes allows it. The counter is not
  initialised and adds six if process 0 runs, instead of counting: with a zero in its place and
  process 0 running every request is refused, and with another value every request is granted,
  however many processes there are.\<close>

theorem switch_is_guarded:
  assumes "ctrl_pressed s = 1" and "(scancode, trm) \<in> {(RELEASE_1, 0), (RELEASE_2, 1), (RELEASE_3, 2)}"
    and "trm \<noteq> current_terminal s" and "bit (processes s) 0"
  shows "key_release L dev fr fr2 j1 j2 scancode s =
    (if j1 = 0 \<or> j2 = - 1 then Some (Return 0 (s\<lparr>term_count := term_count s + 1\<rparr>))
     else map_option (\<lambda>out. case out of Return v s1 \<Rightarrow> Return 0 (s1\<lparr>ctrl_pressed := 0\<rparr>) | _ \<Rightarrow> out)
       (switch_to_other_term L dev fr fr2 trm (s\<lparr>term_count := term_count s + 1\<rparr>)))"
proof -
  let ?s = "s\<lparr>term_count := term_count s + 1\<rparr>"
  have n: "calc_processes j ?s = j + 6" for j using assms(4) by (simp add: calc_processes_eq)
  have e: "j1 + 6 = 6 \<longleftrightarrow> j1 = 0" "j2 + 6 = 5 \<longleftrightarrow> j2 = - 1" by (simp_all add: eq_diff_eq [symmetric])
  have r: "switch_request L dev fr fr2 j1 j2 trm s = (if j1 = 0 \<or> j2 = - 1 then Some (Inl ?s)
      else map_option Inr (switch_to_other_term L dev fr fr2 trm ?s))"
    using assms(3) by (simp add: switch_request_def Let_def n e)
  have k: "key_release L dev fr fr2 j1 j2 scancode s = map_option (\<lambda>r. case r of
          Inl s1 \<Rightarrow> Return 0 s1
        | Inr (Return v s1) \<Rightarrow> Return 0 (s1\<lparr>ctrl_pressed := 0\<rparr>)
        | Inr out \<Rightarrow> out) (switch_request L dev fr fr2 j1 j2 trm s)"
    using assms(1,2) by (elim insertE) (simp_all add: key_release_def key_codes)
  have c: "(\<lambda>r. case r of Inl s1 \<Rightarrow> Return 0 s1 | Inr (Return v s1) \<Rightarrow> Return 0 (s1\<lparr>ctrl_pressed := 0\<rparr>) | Inr out \<Rightarrow> out) \<circ> Inr
    = (\<lambda>out. case out of Return v s1 \<Rightarrow> Return 0 (s1\<lparr>ctrl_pressed := 0\<rparr>) | _ \<Rightarrow> (out :: 'a kern_scheme outcome))"
    by (auto simp: fun_eq_iff split: outcome.split)
  show ?thesis unfolding k r by (cases "j1 = 0 \<or> j2 = - 1") (simp_all only: if_True if_False option.map sum.case option.map_comp c)
qed

theorem switch_is_guarded_witness:
  "key_release lay dev0 frame0 frame0 0 7 RELEASE_2 (kernel1\<lparr>ctrl_pressed := 1\<rparr>) =
    Some (Return 0 (kernel1\<lparr>ctrl_pressed := 1, term_count := 1\<rparr>))"
proof -
  have "term_count (kernel1\<lparr>ctrl_pressed := 1\<rparr>) = 0" "current_terminal (kernel1\<lparr>ctrl_pressed := 1\<rparr>) = 0"
    "bit (processes (kernel1\<lparr>ctrl_pressed := 1\<rparr>)) 0" by (simp_all add: kernel1_def kernel0_def)
  then show ?thesis
    using switch_is_guarded [of "kernel1\<lparr>ctrl_pressed := 1\<rparr>" RELEASE_2 1 lay dev0 frame0 frame0 0 7] by simp
qed

end
