(* ===== verification/Ports.thy ===== *)
theory Ports
  imports Machine
begin

text \<open>
  The macros of \<^verbatim>\<open>student-distrib/lib.h\<close> that the kernel defines and does not use: port accesses
  of two and four bytes, and saving and restoring the flags around a critical section.
\<close>

text \<open>A wide access reaches consecutive ports, the low byte first.\<close>

definition inw :: "device \<Rightarrow> u16 \<Rightarrow> 'a hw_scheme \<Rightarrow> u32 \<times> 'a hw_scheme" where
  "inw dev port s =
     (let (b0, s1) = inb dev port s; (b1, s2) = inb dev (port + 1) s1
      in (b0 OR push_bit 8 b1, s2))"

definition inl :: "device \<Rightarrow> u16 \<Rightarrow> 'a hw_scheme \<Rightarrow> u32 \<times> 'a hw_scheme" where
  "inl dev port s =
     (let (w0, s1) = inw dev port s; (w1, s2) = inw dev (port + 2) s1
      in (w0 OR push_bit 16 w1, s2))"

definition outw :: "u32 \<Rightarrow> u16 \<Rightarrow> 'a hw_scheme \<Rightarrow> 'a hw_scheme" where
  "outw data port s = outb (drop_bit 8 data) (port + 1) (outb data port s)"

definition outl :: "u32 \<Rightarrow> u16 \<Rightarrow> 'a hw_scheme \<Rightarrow> 'a hw_scheme" where
  "outl data port s = outw (drop_bit 16 data) (port + 2) (outw data port s)"

text \<open>The interrupt flag is bit 9 of the flags register; \<open>rest\<close> is the other bits.\<close>

definition cli_and_save :: "u32 \<Rightarrow> 'a hw_scheme \<Rightarrow> u32 \<times> 'a hw_scheme" where
  "cli_and_save rest s = ((rest AND NOT 0x200) OR (if intr s then 0x200 else 0), cli s)"

definition restore_flags :: "u32 \<Rightarrow> 'a hw_scheme \<Rightarrow> 'a hw_scheme" where
  "restore_flags flags s = s\<lparr>intr := bit flags 9\<rparr>"

section \<open>What they do\<close>

text \<open>A critical section puts the interrupt flag back as it was, nested or not.\<close>

lemma critical_section:
  assumes "cli_and_save rest s = (flags, t)" and "ports t' = ports t" and "hw.more t' = hw.more t"
  shows "\<not> intr t" and "restore_flags flags t' = s\<lparr>mem := mem t'\<rparr>"
proof -
  have t: "flags = (rest AND NOT 0x200) OR (if intr s then 0x200 else 0)" "t = cli s"
    using assms(1) by (simp_all add: cli_and_save_def)
  show "\<not> intr t" by (simp add: t)
  have "bit flags 9 = intr s" by (simp add: t(1) bit_simps bit_numeral_word_iff)
  then show "restore_flags flags t' = s\<lparr>mem := mem t'\<rparr>"
    using assms(2,3) by (simp add: restore_flags_def t(2))
qed

lemma outw_ports: "ports (outw w p s) = ports s @ [Out p (ucast w), Out (p + 1) (ucast (drop_bit 8 w))]"
  by (simp add: outw_def)

text \<open>What a device echoes comes back.\<close>

lemma inw_outw:
  assumes "\<And>h. dev h p = ucast w" and "\<And>h. dev h (p + 1) = ucast (drop_bit 8 w)"
  shows "fst (inw dev p (outw w p s)) = take_bit 16 w"
proof (rule bit_word_eqI)
  fix n assume "n < LENGTH(32)"
  then show "bit (fst (inw dev p (outw w p s))) n = bit (take_bit 16 w) n"
    by (auto simp: inw_def inb_def Let_def assms bit_simps)
qed

end
