(* ===== verification/Unit_Tests.thy ===== *)
theory Unit_Tests
  imports Descriptors Idt
begin

text \<open>
  The tests of \<^verbatim>\<open>student-distrib/unit_tests.c\<close> that are run by hand (\<open>rtc_test\<close>, the handler of
  the clock, is in \<open>Rtc\<close>), and the functions of \<^verbatim>\<open>syscalls.c\<close> meant for closed descriptors, which
  nothing refers to.
\<close>

section \<open>Tests\<close>

text \<open>The division by zero ends in the handler of vector 0, which prints and loops: the result is the
  state it loops in.\<close>

definition test_idt :: "u32 \<Rightarrow> 'a console_scheme \<Rightarrow> 'a console_scheme option" where
  "test_idt cr2 s =
     Option.bind (printf (chars ''%s'' @ [0x0A]) [string_arg ''We are firing a divide by 0 exception.''] s) (\<lambda>(n, s1).
       Option.bind (map_of named_vectors 0) (\<lambda>h. run_exception cr2 h s1))"

definition paging_message :: string where
  "paging_message = ''We will test for paging's enablement. \<newline> We will attempt to access space beyond the scope of the page tables. \<newline> If an exception is fired, things are working as expected.\<newline>''"

text \<open>The index 4095 is past the directory's 1024 entries.\<close>

definition test_paging_handler :: "layout \<Rightarrow> 'a paging_scheme \<Rightarrow> 'a paging_scheme option" where
  "test_paging_handler L s =
     (let max_directory_idx = 1023; table_size_one_over_idx = 4095
      in Option.bind (printf (chars ''%s'') [string_arg paging_message] s) (\<lambda>(n, s1).
           let temp_vector = (0 AND 0x00000000) OR 0x00000001;
               temp_address = pt_addr L + of_nat table_size_one_over_idx;
               temp_vector = temp_vector OR temp_address
           in init_new_vector max_directory_idx table_size_one_over_idx temp_vector s1))"

text \<open>\<open>buf\<close> is the local buffer, \<open>str\<close> the address of the literal.\<close>

partial_function (option) test_terminal_driver :: "device \<Rightarrow> u32 \<Rightarrow> u32 \<Rightarrow> 'a kern_scheme \<Rightarrow> 'b option" where
  "test_terminal_driver dev buf str s =
     Option.bind (sys_write dev 1 str 35 (s\<lparr>mem := memset (mem s) buf 0 128\<rparr>)) (\<lambda>(r, s').
       test_terminal_driver dev buf str s')"

section \<open>Closed descriptors\<close>

definition closed_open :: "cptr \<Rightarrow> u32" where "closed_open name = - 1"
definition closed_close :: "u32 \<Rightarrow> u32" where "closed_close fd = - 1"
definition closed_read :: "u32 \<Rightarrow> u32 \<Rightarrow> u32 \<Rightarrow> u32" where "closed_read fd buf nbytes = - 1"
definition closed_write :: "u32 \<Rightarrow> u32 \<Rightarrow> u32 \<Rightarrow> u32" where "closed_write fd buf nbytes = - 1"

section \<open>What the tests show\<close>

lemma test_idt_prints:
  "test_idt cr2 s = Some (sti (fold putc (chars ''Divide by zero exception.'' @ [0x0A])
     (cli (fold putc (chars ''We are firing a divide by 0 exception.'' @ [0x0A]) s))))"
proof -
  have m: "printf (chars ''%s'' @ [0x0A]) [string_arg ''We are firing a divide by 0 exception.''] s =
      Some (3, fold putc (chars ''We are firing a divide by 0 exception.'' @ [0x0A]) s)"
    by (rule printf_line) (simp add: chars_def)
  have h: "map_of named_vectors 0 = Some Divide_by_zero" by (simp add: named_vectors_def)
  show ?thesis using run_exception_prints [OF exception_message.simps(1)] by (simp add: test_idt_def m h exception_text_def)
qed

text \<open>The paging test does not come to an access the page tables could refuse: the index it uses is
  outside the array.\<close>

lemma test_paging_outside: "test_paging_handler L s = None"
  by (auto simp: test_paging_handler_def Let_def init_new_vector_def bind_eq_None_conv)

end
