(* ===== verification/Scheduler.thy ===== *)
theory Scheduler
  imports Keyboard
begin

text \<open>
  The timer of \<^verbatim>\<open>student-distrib/scheduler.c\<close>: programming the interval timer, its interrupt
  handler, and the switch to the task of another terminal. The kernel never calls \<open>init_PIT\<close>, and
  no vector of the table leads to \<open>inter_PIT\<close>; the functions are modelled as they are written, with
  the two debugging loops that never end.
\<close>

section \<open>The code\<close>

text \<open>The globals of the file; \<open>counter\<close> is the static variable of \<open>inter_PIT\<close>.\<close>

record sched = kern +
  currently_running :: u32
  counter :: int

definition init_PIT :: "'a pic_scheme \<Rightarrow> 'a pic_scheme" where
  "init_PIT s =
     (let divisor = (1193180 :: u32) div 20
      in enable_irq 0
           (outb (drop_bit 8 divisor) 0x40
             (outb (divisor AND 0xFF) 0x40
               (outb 0x36 0x43 s))))"

text \<open>\<open>while (1) printf(...);\<close>\<close>

partial_function (option) print_forever :: "u8 list \<Rightarrow> 'a console_scheme \<Rightarrow> 'b option" where
  "print_forever format s = Option.bind (printf format [] s) (\<lambda>(n, s'). print_forever format s')"

text \<open>\<open>fr\<close> is the stack and base pointer the function finds; it goes on on the stack of the other
  task.\<close>

definition switch_active_task :: "layout \<Rightarrow> frame \<Rightarrow> u32 \<Rightarrow> 'a sched_scheme \<Rightarrow> 'a sched_scheme outcome option" where
  "switch_active_task L fr trm s =
     (let s1 = s\<lparr>esp_store := esp fr, ebp_store := ebp fr\<rparr>
      in Option.bind (aget (terms s1) (unat (currently_running s1))) (\<lambda>t.
         Option.bind (aput (unat (currently_running s1))
             (t\<lparr>current_esp := esp_store s1, current_ebp := ebp_store s1, esp0 := tss_esp0 s1\<rparr>) (terms s1)) (\<lambda>ts.
           let s2 = s1\<lparr>terms := ts, currently_running := trm\<rparr>
           in Option.bind (aget (terms s2) (unat (currently_running s2))) (\<lambda>t2.
              let s3 = s2\<lparr>esp_store := current_esp t2, ebp_store := current_ebp t2\<rparr>
              in Option.bind (running_pcb t2) (\<lambda>p.
                 Option.bind (load_new_process L (process_num (pcbs s3 p)) s3) (\<lambda>s4.
                   Some (Resume (esp_store s4) (ebp_store s4) (s4\<lparr>tss_esp0 := esp0 t2\<rparr>))))))))"

text \<open>\<open>counter\<close> is never negative, so \<open>%\<close> is \<open>mod\<close>. What follows an endless loop is part of the
  definition; the \<open>counter++\<close> behind a switch belongs to the task that goes on.\<close>

definition inter_PIT :: "layout \<Rightarrow> frame \<Rightarrow> 'a sched_scheme \<Rightarrow> 'a sched_scheme outcome option" where
  "inter_PIT L fr s =
     (let s1 = send_eoi 0 (cli s); c = counter s1; opened = (\<lambda>k. map_option (\<lambda>t. been_here t = 1)
            (aget (terms s1) (nat ((c + k) mod 3))))
      in Option.bind (opened 1) (\<lambda>b1.
         if b1 then
           Option.bind (print_forever (chars ''We are in first if else in inter PIT'' @ [0x0A]) s1) (\<lambda>s2.
             switch_active_task L fr (word_of_int ((c + 1) mod 3)) s2)
         else Option.bind (opened 2) (\<lambda>b2.
           if b2 then
             Option.bind (print_forever (chars ''We are in second if else in inter PIT'' @ [0x0A]) s1) (\<lambda>s2.
               switch_active_task L fr (word_of_int ((c + 2) mod 3)) s2)
           else Option.bind (opened 3) (\<lambda>b3.
             if b3 then Some (Return 0 s1)
             else map_option (\<lambda>(n, s2). Return 0 s2) (printf (chars ''shunu hada'' @ [0x0A]) [] s1)))))"

section \<open>What it does\<close>

lemma print_forever_None: "print_forever format s = (None :: 'b option)"
proof -
  have "print_forever format s = Some (r :: 'b) \<Longrightarrow> False" for r
  proof (rule print_forever.raw_induct [where P = "\<lambda>_ _ _. False"])
    fix f format and s :: "'a console_scheme" and r :: 'b
    assume "\<And>format (s :: 'a console_scheme) (r :: 'b). f format s = Some r \<Longrightarrow> False"
      and "Option.bind (printf format [] s) (\<lambda>(n, s'). f format s') = Some r"
    then show False by (auto simp: bind_eq_Some_conv)
  qed
  then show ?thesis by (cases "print_forever format s :: 'b option") auto
qed

text \<open>The divisor gives 20 interrupts a second.\<close>

lemma init_PIT_ports:
  "\<exists>rest. ports (init_PIT s) = ports s @ [Out 0x43 0x36, Out 0x40 0x0B, Out 0x40 0xE9] @ rest"
proof -
  let ?t = "outb (drop_bit 8 ((1193180 :: u32) div 20)) 0x40 (outb (((1193180 :: u32) div 20) AND 0xFF) 0x40 (outb 0x36 0x43 s))"
  have t: "ports ?t = ports s @ [Out 0x43 0x36, Out 0x40 0x0B, Out 0x40 0xE9]" by simp
  have "\<exists>rest. ports (enable_irq 0 t) = ports t @ rest" for t :: "'a pic_scheme"
    by (subst enable_irq.simps) (simp add: Let_def)
  then obtain rest where "ports (enable_irq 0 ?t) = ports ?t @ rest" by blast
  then show ?thesis unfolding init_PIT_def Let_def t by (intro exI [of _ rest]) simp
qed

lemma timer_message: "printf (chars ''shunu hada'' @ [0x0A]) [] s = Some (11, fold putc (chars ''shunu hada'' @ [0x0A]) s)"
  using printf_plain [of "chars ''shunu hada'' @ [0x0A]" "[]" s] by (simp add: chars_def)

end
