(* ===== verification/Sched_Props.thy ===== *)
theory Sched_Props
  imports Scheduler Sample
begin

text \<open>
  Properties of the timer's functions: switching between the tasks of two terminals works, and the
  interrupt handler never gets to it.
\<close>

lemma task_parts:
  assumes "paging.more s' = paging.more (s :: 'a sched_scheme)"
  shows "terms s' = terms s" "pcbs s' = pcbs s" "currently_running s' = currently_running s" "esp_store s' = esp_store s"
    "ebp_store s' = ebp_store s" "tss_esp0 s' = tss_esp0 s"
  using assms by (cases s; cases s'; simp)+

lemma switch_active_task_eq:
  assumes "unat (currently_running s) < length (terms s)" and "unat trm < length (terms s)" and "trm \<noteq> currently_running s"
    and "running_pcb (terms s ! unat trm) = Some p" and "process_num (pcbs s p) = of_nat p" and "p < 8"
    and "layout_ok L" and "paging_view L s img v"
  shows "\<exists>s'. switch_active_task L fr trm s =
      Some (Resume (current_esp (terms s ! unat trm)) (current_ebp (terms s ! unat trm)) s') \<and>
    terms s' = (terms s)[unat (currently_running s) := (terms s ! unat (currently_running s))
      \<lparr>current_esp := esp fr, current_ebp := ebp fr, esp0 := tss_esp0 s\<rparr>] \<and>
    currently_running s' = trm \<and> tss_esp0 s' = esp0 (terms s ! unat trm) \<and> pcbs s' = pcbs s \<and>
    mem s' = mem s \<and> paging_view L s' (Some p) v"
proof -
  let ?c = "unat (currently_running s)"
  have ne: "unat trm \<noteq> ?c" using assms(3) by (metis word_unat_eq_iff)
  define s3 where "s3 = s\<lparr>terms := (terms s)[?c := (terms s ! ?c)\<lparr>current_esp := esp fr, current_ebp := ebp fr, esp0 := tss_esp0 s\<rparr>],
    currently_running := trm, esp_store := current_esp (terms s ! unat trm), ebp_store := current_ebp (terms s ! unat trm)\<rparr>"
  have v3: "paging_view L s3 img v" using assms(8) by (simp add: s3_def paging_view_def)
  define s4 where "s4 = set_control_registers L 0 (set_pde 0 32 (push_bit 22 (of_nat (p + 2)) OR 0x87) s3)"
  have ld: "load_new_process L (of_nat p) s3 = Some s4" unfolding s4_def by (rule load_new_process_eq [OF assms(6)])
  have v4: "paging_view L s4 (Some p) v" by (rule load_new_process_view [OF v3 assms(7,6) ld])
  have m4: "paging.more s4 = paging.more s3" "mem s4 = mem s3" by (simp_all add: s4_def)
  note f4 = task_parts [OF m4(1)]
  have "switch_active_task L fr trm s = Some (Resume (esp_store s4) (ebp_store s4) (s4\<lparr>tss_esp0 := esp0 (terms s ! unat trm)\<rparr>))"
    using assms(1-6) ne ld by (simp add: switch_active_task_def Let_def aget_in aput_in s3_def)
  then show ?thesis
    using f4 m4(2) v4 by (intro exI [of _ "s4\<lparr>tss_esp0 := esp0 (terms s ! unat trm)\<rparr>"]) (simp add: s3_def paging_view_def)
qed

text \<open>C25. \<open>switch_active_task\<close> itself works: the task that is left goes on, when it is switched back to,
  on its own stack, with its own kernel stack and its own program mapped, and the other one runs on its
  own in between.\<close>

theorem tasks_alternate:
  assumes "currently_running s = a" and "unat a < length (terms s)" and "unat b < length (terms s)" and "b \<noteq> a"
    and "running_pcb (terms s ! unat a) = Some q" and "process_num (pcbs s q) = of_nat q" and "q < 8"
    and "running_pcb (terms s ! unat b) = Some p" and "process_num (pcbs s p) = of_nat p" and "p < 8"
    and "layout_ok L" and "paging_view L s img v"
  shows "\<exists>s1 s2. switch_active_task L fr b s =
      Some (Resume (current_esp (terms s ! unat b)) (current_ebp (terms s ! unat b)) s1) \<and>
    paging_view L s1 (Some p) v \<and> tss_esp0 s1 = esp0 (terms s ! unat b) \<and>
    switch_active_task L fr2 a s1 = Some (Resume (esp fr) (ebp fr) s2) \<and>
    paging_view L s2 (Some q) v \<and> tss_esp0 s2 = tss_esp0 s \<and> currently_running s2 = a \<and> mem s2 = mem s"
proof -
  have ne: "unat b \<noteq> unat a" "a \<noteq> b" using assms(4) by (metis word_unat_eq_iff)+
  obtain s1 where s1: "switch_active_task L fr b s = Some (Resume (current_esp (terms s ! unat b)) (current_ebp (terms s ! unat b)) s1)"
    "terms s1 = (terms s)[unat a := (terms s ! unat a)\<lparr>current_esp := esp fr, current_ebp := ebp fr, esp0 := tss_esp0 s\<rparr>]"
    "currently_running s1 = b" "tss_esp0 s1 = esp0 (terms s ! unat b)" "pcbs s1 = pcbs s" "mem s1 = mem s"
    "paging_view L s1 (Some p) v"
    using switch_active_task_eq [of s b p L img v fr] assms by auto
  have t: "terms s1 ! unat a = (terms s ! unat a)\<lparr>current_esp := esp fr, current_ebp := ebp fr, esp0 := tss_esp0 s\<rparr>"
    using s1(2) assms(2) by simp
  obtain s2 where "switch_active_task L fr2 a s1 = Some (Resume (esp fr) (ebp fr) s2)" "tss_esp0 s2 = tss_esp0 s"
    "currently_running s2 = a" "mem s2 = mem s" "paging_view L s2 (Some q) v"
    using switch_active_task_eq [of s1 a q L "Some p" v fr2] assms s1 t ne by auto
  then show ?thesis using s1 by blast
qed

text \<open>C26. \<open>inter_PIT\<close> finds its counter zero, and it stays so: once the second or third terminal has been
  opened the handler prints a debugging line for ever and its interrupt never returns; before that
  it only acknowledges the interrupt, or prints a line when no terminal is open. It never switches
  tasks.\<close>

theorem timer_never_switches:
  assumes "kern_shape s" and "counter s = 0"
  shows "inter_PIT L fr s =
    (if been_here (terms s ! 1) = 1 \<or> been_here (terms s ! 2) = 1 then None
     else Some (Return 0 (if been_here (terms s ! 0) = 1 then send_eoi 0 (cli s)
       else fold putc (chars ''shunu hada'' @ [0x0A]) (send_eoi 0 (cli s)))))"
proof -
  define s1 where "s1 = send_eoi 0 (cli s)"
  have s1: "terms s1 = terms s" "counter s1 = 0" using assms(2) by (simp_all add: s1_def cli_def send_eoi_def outb_def)
  have l: "length (terms s) = 3" using assms(1) by (simp add: kern_shape_def)
  have at: "aget (terms s) 0 = Some (terms s ! 0)" "aget (terms s) (Suc 0) = Some (terms s ! Suc 0)" "aget (terms s) 2 = Some (terms s ! 2)"
    using l by (simp_all add: aget_in)
  show ?thesis
    by (simp add: inter_PIT_def Let_def s1 at print_forever_None timer_message flip: s1_def)
qed

definition sched0 :: sched where
  "sched0 = kern.extend kernel1 (sched.fields 0 0)"

theorem tasks_alternate_witness:
  "\<exists>s s1. paging_view lay' (s :: sched) None False \<and>
    switch_active_task lay' frame0 1 s = Some (Resume 0 0 s1) \<and> paging_view lay' s1 (Some 1) False"
proof -
  define s where "s = (kern.extend running2 (sched.fields 0 0) :: sched)"
  have f: "terms s = terms running2" "pcbs s = pcbs running2" "currently_running s = 0"
    "paging_view lay' s i v = paging_view lay' running2 i v" for i v
    by (simp_all add: s_def kern.defs sched.defs paging_view_def)
  have t: "terms running2 = [zero_term\<lparr>been_here := 1, running_pcb := Some 0, vid_mem := 0xB9000\<rparr>,
       zero_term\<lparr>been_here := 1, running_pcb := Some 1, vid_mem := 0xBA000\<rparr>, zero_term\<lparr>vid_mem := 0xBB000\<rparr>]"
    and n: "process_num (pcbs running2 p) = of_nat p" for p
    by (simp_all add: running2_def)
  have v: "paging_view lay' s None False" using sample_running_view(2) by (simp add: f)
  then show ?thesis
    using tasks_alternate [OF f(3) _ _ _ _ _ _ _ _ _ sample_layout v, of 1 0 1 frame0 frame0]
    by (auto simp: f(1,2) t n zero_term_def)
qed

theorem timer_never_switches_witness:
  "inter_PIT lay' frame0 sched0 = Some (Return 0 (send_eoi 0 (cli sched0)))"
proof -
  have t: "terms sched0 = terms kernel1" "counter sched0 = 0" "kern_shape sched0 = kern_shape kernel1"
    by (simp_all add: sched0_def kern.defs sched.defs kern_shape_def)
  have "kern_shape kernel1" by (simp add: sample_shape)
  then show ?thesis using timer_never_switches [of sched0 lay' frame0] by (simp add: t kernel1_def zero_term_def)
qed

end
