(* ===== verification/User_Lib.thy ===== *)
theory User_Lib
  imports Terminal
begin

text \<open>
  What the programs of \<^verbatim>\<open>src/syscalls/\<close> stand on: the system calls as operations on the state of
  whatever runs the program, and the routines of \<^verbatim>\<open>ece391support.c\<close>. A buffer of a program is the
  list of its bytes; a pointer into it is what remains of the list from there on, so that a call
  gets the bytes up to the end of the object and gives back what it left in them. \<open>None\<close> is an
  access outside an object, or a call that does not return.
\<close>

section \<open>System calls\<close>

record 's os =
  os_execute :: "u8 list \<Rightarrow> 's \<Rightarrow> (u32 \<times> 's) option"
  os_read :: "u32 \<Rightarrow> u8 list \<Rightarrow> u32 \<Rightarrow> 's \<Rightarrow> (u32 \<times> u8 list \<times> 's) option"
  os_write :: "u32 \<Rightarrow> u8 list \<Rightarrow> u32 \<Rightarrow> 's \<Rightarrow> (u32 \<times> 's) option"
  os_open :: "u8 list \<Rightarrow> 's \<Rightarrow> (u32 \<times> 's) option"
  os_close :: "u32 \<Rightarrow> 's \<Rightarrow> (u32 \<times> 's) option"
  os_getargs :: "u8 list \<Rightarrow> u32 \<Rightarrow> 's \<Rightarrow> (u32 \<times> u8 list \<times> 's) option"
  os_vidmap :: "u32 \<Rightarrow> 's \<Rightarrow> (u32 \<times> 's) option"
  os_call :: "u32 \<Rightarrow> 's \<Rightarrow> (u32 \<times> 's) option"

text \<open>A string literal with its terminator.\<close>

definition lit :: "string \<Rightarrow> u8 list" where
  "lit cs = chars cs @ [0]"

section \<open>The support routines\<close>

partial_function (option) ece391_strlen_from :: "cptr \<Rightarrow> nat \<Rightarrow> nat option" where
  "ece391_strlen_from s len = do {
     c \<leftarrow> s len;
     if c \<noteq> 0 then ece391_strlen_from s (Suc len) else Some len }"

definition ece391_strlen :: "cptr \<Rightarrow> nat option" where
  "ece391_strlen s = ece391_strlen_from s 0"

text \<open>\<open>src\<close> reads the source out of the store that is written: the two may be the same array.\<close>

partial_function (option) ece391_strcpy_from ::
    "('d \<Rightarrow> nat \<Rightarrow> u8 option) \<Rightarrow> (nat \<Rightarrow> u8 \<Rightarrow> 'd \<Rightarrow> 'd option) \<Rightarrow> nat \<Rightarrow> 'd \<Rightarrow> 'd option" where
  "ece391_strcpy_from src put i d = do {
     c \<leftarrow> src d i;
     d \<leftarrow> put i c d;
     if c \<noteq> 0 then ece391_strcpy_from src put (Suc i) d else Some d }"

definition ece391_strcpy :: "('d \<Rightarrow> nat \<Rightarrow> u8 option) \<Rightarrow> (nat \<Rightarrow> u8 \<Rightarrow> 'd \<Rightarrow> 'd option) \<Rightarrow> 'd \<Rightarrow> 'd option" where
  "ece391_strcpy src put d = ece391_strcpy_from src put 0 d"

definition ece391_fdputs :: "'s os \<Rightarrow> u32 \<Rightarrow> u8 list \<Rightarrow> 's \<Rightarrow> 's option" where
  "ece391_fdputs os fd s st = do {
     n \<leftarrow> ece391_strlen (aget s);
     (r, st) \<leftarrow> os_write os fd s (of_nat n) st;
     Some st }"

text \<open>The bytes are unsigned here, unlike those of the kernel's \<open>strncmp\<close>.\<close>

partial_function (option) ece391_strcmp_from :: "cptr \<Rightarrow> cptr \<Rightarrow> nat \<Rightarrow> int option" where
  "ece391_strcmp_from s1 s2 i = do {
     a \<leftarrow> s1 i;
     b \<leftarrow> s2 i;
     if a = b then (if a = 0 then Some 0 else ece391_strcmp_from s1 s2 (Suc i))
     else Some (uint a - uint b) }"

definition ece391_strcmp :: "cptr \<Rightarrow> cptr \<Rightarrow> int option" where
  "ece391_strcmp s1 s2 = ece391_strcmp_from s1 s2 0"

partial_function (option) ece391_strncmp_from :: "cptr \<Rightarrow> cptr \<Rightarrow> u32 \<Rightarrow> nat \<Rightarrow> int option" where
  "ece391_strncmp_from s1 s2 n i = do {
     a \<leftarrow> s1 i;
     b \<leftarrow> s2 i;
     if a = b then (if a = 0 \<or> n - 1 = 0 then Some 0 else ece391_strncmp_from s1 s2 (n - 1) (Suc i))
     else Some (uint a - uint b) }"

definition ece391_strncmp :: "cptr \<Rightarrow> cptr \<Rightarrow> u32 \<Rightarrow> int option" where
  "ece391_strncmp s1 s2 n = (if n = 0 then Some 0 else ece391_strncmp_from s1 s2 n 0)"

text \<open>The loops of \<open>itoa\<close> and \<open>strrev\<close> are those of the kernel's library, to the letter.\<close>

definition ece391_strrev :: "('d \<Rightarrow> nat \<Rightarrow> u8 option) \<Rightarrow> (nat \<Rightarrow> u8 \<Rightarrow> 'd \<Rightarrow> 'd option) \<Rightarrow> 'd \<Rightarrow> 'd option" where
  "ece391_strrev get put s = do {
     len \<leftarrow> ece391_strlen (get s);
     if int len - 1 \<le> 0 then Some s else strrev_loop get put 0 (len - 1) s }"

definition ece391_itoa ::
    "('d \<Rightarrow> nat \<Rightarrow> u8 option) \<Rightarrow> (nat \<Rightarrow> u8 \<Rightarrow> 'd \<Rightarrow> 'd option) \<Rightarrow> u32 \<Rightarrow> 'd \<Rightarrow> u32 \<Rightarrow> 'd option" where
  "ece391_itoa get put value buf radix =
     (if value = 0 then do { b \<leftarrow> put 0 0x30 buf; put 1 0 b }
      else do {
        (k, b) \<leftarrow> itoa_digits put value radix 0 buf;
        b \<leftarrow> put k 0 b;
        ece391_strrev get put b })"

section \<open>What they compute\<close>

text \<open>The program's \<open>strlen\<close> and \<open>itoa\<close> are the kernel's.\<close>

lemma ece391_strlen_eq: "ece391_strlen = strlen"
proof -
  have "ece391_strlen_from s k = strlen_from s k" for s k
  proof -
    have "ece391_strlen_from s k = Some n \<Longrightarrow> strlen_from s k = Some n" for n
    proof (rule ece391_strlen_from.raw_induct [where P = "\<lambda>s k n. strlen_from s k = Some n"])
      fix f s k n
      assume IH: "\<And>s k n. f s k = Some n \<Longrightarrow> strlen_from s k = Some n"
        and eq: "do { c \<leftarrow> s k; if c \<noteq> 0 then f s (Suc k) else Some k } = Some n"
      then show "strlen_from s k = Some n"
        by (subst strlen_from.simps) (auto simp: bind_eq_Some_conv split: if_splits)
    qed
    moreover have "strlen_from s k = Some n \<Longrightarrow> ece391_strlen_from s k = Some n" for n
    proof (rule strlen_from.raw_induct [where P = "\<lambda>s k n. ece391_strlen_from s k = Some n"])
      fix f s k n
      assume IH: "\<And>s k n. f s k = Some n \<Longrightarrow> ece391_strlen_from s k = Some n"
        and eq: "Option.bind (s k) (\<lambda>c. if c \<noteq> 0 then f s (Suc k) else Some k) = Some n"
      then show "ece391_strlen_from s k = Some n"
        by (subst ece391_strlen_from.simps) (auto simp: bind_eq_Some_conv split: if_splits)
    qed
    ultimately show ?thesis by (metis not_None_eq)
  qed
  then show ?thesis by (simp add: fun_eq_iff ece391_strlen_def strlen_def)
qed

lemma strrev_loop_short: "strrev_loop get put 0 0 s = Some s"
  by (subst strrev_loop.simps) simp

lemma ece391_strrev_eq: "ece391_strrev = strrev"
  by (auto simp: fun_eq_iff ece391_strrev_def strrev_def ece391_strlen_eq strrev_loop_short split: bind_splits)

lemma ece391_itoa_eq: "ece391_itoa = itoa"
  by (simp add: fun_eq_iff ece391_itoa_def itoa_def ece391_strrev_eq)

lemma lit_c_str: "0 \<notin> set (chars cs) \<Longrightarrow> c_str (aget (lit cs)) (chars cs)"
  unfolding lit_def by (rule c_str_aget)

lemma length_lit [simp]: "length (lit cs) = Suc (length cs)"
  by (simp add: lit_def)


text \<open>\<open>strcmp\<close> tells equal strings, \<open>strncmp\<close> over the length of a string whether the other one starts
  with it.\<close>

lemma byte_diff: "uint a - uint b = 0 \<longleftrightarrow> (a :: u8) = b"
  by (simp add: word_uint_eq_iff)

lemma strcmp_from_c_str:
  assumes "c_str s1 xs" and "c_str s2 ys"
  shows "i \<le> length xs \<Longrightarrow> i \<le> length ys \<Longrightarrow> take i xs = take i ys \<Longrightarrow>
    \<exists>d. ece391_strcmp_from s1 s2 i = Some d \<and> (d = 0 \<longleftrightarrow> xs = ys)"
proof (induction "length xs - i" arbitrary: i)
  case 0
  then have i: "i = length xs" by simp
  then have a: "s1 i = Some 0" using assms(1) by (simp add: c_str_end)
  show ?case
  proof (cases "i = length ys")
    case True
    then have "s2 i = Some 0" using assms(2) by (simp add: c_str_end)
    then show ?thesis using a 0(4) i True by (subst ece391_strcmp_from.simps) simp
  next
    case False
    then have b: "s2 i = Some (ys ! i)" "ys ! i \<noteq> 0" using 0(3) assms(2) by (simp_all add: c_str_nth c_str_nonzero)
    then have "uint (0 :: u8) - uint (ys ! i) \<noteq> 0" unfolding byte_diff by simp
    moreover have "xs \<noteq> ys" using i False by auto
    ultimately show ?thesis using a b by (subst ece391_strcmp_from.simps) simp
  qed
next
  case (Suc k)
  then have i: "i < length xs" by simp
  then have a: "s1 i = Some (xs ! i)" "xs ! i \<noteq> 0" using assms(1) by (simp_all add: c_str_nth c_str_nonzero)
  show ?case
  proof (cases "i = length ys")
    case True
    then have "s2 i = Some 0" using assms(2) by (simp add: c_str_end)
    moreover have "xs \<noteq> ys" using i True by auto
    ultimately show ?thesis using a byte_diff [of "xs ! i" 0] by (subst ece391_strcmp_from.simps) simp
  next
    case False
    then have j: "i < length ys" using Suc.prems by simp
    then have b: "s2 i = Some (ys ! i)" using assms(2) by (simp add: c_str_nth)
    show ?thesis
    proof (cases "xs ! i = ys ! i")
      case True
      then have "take (Suc i) xs = take (Suc i) ys" using Suc.prems(3) i j by (simp add: take_Suc_conv_app_nth)
      then have "\<exists>d. ece391_strcmp_from s1 s2 (Suc i) = Some d \<and> (d = 0 \<longleftrightarrow> xs = ys)"
        using Suc.hyps i j by simp
      moreover have "ece391_strcmp_from s1 s2 i = ece391_strcmp_from s1 s2 (Suc i)"
        using a b True by (subst ece391_strcmp_from.simps) simp
      ultimately show ?thesis by simp
    next
      case False
      then have "xs \<noteq> ys" by auto
      moreover have "uint (xs ! i) - uint (ys ! i) \<noteq> 0" unfolding byte_diff using False by simp
      ultimately show ?thesis using a b False by (subst ece391_strcmp_from.simps) simp
    qed
  qed
qed

lemma ece391_strcmp_c_str:
  assumes "c_str s1 xs" and "c_str s2 ys"
  shows "\<exists>d. ece391_strcmp s1 s2 = Some d \<and> (d = 0 \<longleftrightarrow> xs = ys)"
  using strcmp_from_c_str [OF assms, of 0] by (simp add: ece391_strcmp_def)


lemma strncmp_from_prefix:
  assumes "c_str s1 xs" and "c_str s2 ys" and "length ys < 4294967296"
  shows "i < length ys \<Longrightarrow> i \<le> length xs \<Longrightarrow> take i xs = take i ys \<Longrightarrow>
    \<exists>d. ece391_strncmp_from s1 s2 (of_nat (length ys - i)) i = Some d \<and> (d = 0 \<longleftrightarrow> take (length ys) xs = ys)"
proof (induction "length ys - i" arbitrary: i)
  case (Suc k)
  then have b: "s2 i = Some (ys ! i)" "ys ! i \<noteq> 0" using assms(2) by (simp_all add: c_str_nth c_str_nonzero)
  show ?case
  proof (cases "i = length xs")
    case True
    then have "s1 i = Some 0" using assms(1) by (simp add: c_str_end)
    moreover have "take (length ys) xs \<noteq> ys" using True Suc.prems(1) by (metis length_take min.absorb1 less_imp_le nat_neq_iff min.commute)
    ultimately show ?thesis using b byte_diff [of 0 "ys ! i"] by (subst ece391_strncmp_from.simps) simp
  next
    case False
    then have j: "i < length xs" using Suc.prems by simp
    then have a: "s1 i = Some (xs ! i)" "xs ! i \<noteq> 0" using assms(1) by (simp_all add: c_str_nth c_str_nonzero)
    show ?thesis
    proof (cases "xs ! i = ys ! i")
      case False
      moreover have "take (length ys) xs \<noteq> ys" using False Suc.prems(1) j by (metis nth_take)
      ultimately show ?thesis using a b byte_diff [of "xs ! i" "ys ! i"] by (subst ece391_strncmp_from.simps) simp
    next
      case True
      have t: "take (Suc i) xs = take (Suc i) ys" using Suc.prems j True by (simp add: take_Suc_conv_app_nth)
      have n: "(of_nat (length ys - i) :: u32) - 1 = of_nat (length ys - Suc i)"
        using Suc.prems(1) by (simp add: of_nat_diff)
      show ?thesis
      proof (cases "Suc i = length ys")
        case True
        then have "take (length ys) xs = ys" using t by simp
        then show ?thesis using a b \<open>xs ! i = ys ! i\<close> n True by (subst ece391_strncmp_from.simps) simp
      next
        case False
        then have s: "Suc i < length ys" using Suc.prems(1) by simp
        have "(of_nat (length ys - Suc i) :: u32) \<noteq> 0"
          using s assms(3) of_nat32_inj [of "length ys - Suc i" 0] by simp
        then have "ece391_strncmp_from s1 s2 (of_nat (length ys - i)) i =
            ece391_strncmp_from s1 s2 (of_nat (length ys - Suc i)) (Suc i)"
          using a b \<open>xs ! i = ys ! i\<close> n by (subst ece391_strncmp_from.simps) simp
        moreover have "\<exists>d. ece391_strncmp_from s1 s2 (of_nat (length ys - Suc i)) (Suc i) = Some d \<and>
            (d = 0 \<longleftrightarrow> take (length ys) xs = ys)"
          by (rule Suc.hyps(1)) (use Suc.hyps(2) s j t in simp_all)
        ultimately show ?thesis by (simp only:)
      qed
    qed
  qed
qed simp

lemma ece391_strncmp_prefix:
  assumes "c_str s1 xs" and "c_str s2 ys" and "ys \<noteq> []" and "length ys < 4294967296"
  shows "\<exists>d. ece391_strncmp s1 s2 (of_nat (length ys)) = Some d \<and> (d = 0 \<longleftrightarrow> take (length ys) xs = ys)"
proof -
  have "(of_nat (length ys) :: u32) \<noteq> 0" using assms(3,4) of_nat32_inj [of "length ys" 0] by simp
  then show ?thesis using strncmp_from_prefix [OF assms(1,2,4), of 0] assms(3) by (simp add: ece391_strncmp_def)
qed

text \<open>A count of bytes as the number a call returns.\<close>

lemma count_word:
  assumes "k \<le> 1025"
  shows "unat (of_nat k :: u32) = k" and "(of_nat k :: u32) = 0 \<longleftrightarrow> k = 0" and "(of_nat k :: u32) \<noteq> - 1"
proof -
  show u: "unat (of_nat k :: u32) = k" using assms by simp
  show "(of_nat k :: u32) = 0 \<longleftrightarrow> k = 0" using u by auto
  have "unat (- 1 :: u32) = 4294967295" by (simp add: unsigned_minus_1_eq_mask mask_eq_exp_minus_1)
  then have "unat (of_nat k :: u32) \<noteq> unat (- 1 :: u32)" using u assms by linarith
  then show "(of_nat k :: u32) \<noteq> - 1" by metis
qed

section \<open>The screen a program writes to\<close>

definition says :: "u8 list \<Rightarrow> tty \<Rightarrow> tty" where
  "says cs t = fold tty_putc (filter printable cs) t"

lemma says_simps [simp]: "says [] t = t" "says (xs @ ys) t = says ys (says xs t)"
  by (simp_all add: says_def)

text \<open>What a program relies on when it prints: a write to descriptor 1 shows the bytes on the screen
  \<open>scr\<close> and keeps the invariant \<open>ok\<close>.\<close>

locale user_screen =
  fixes os :: "'s os" and ok :: "'s \<Rightarrow> bool" and scr :: "'s \<Rightarrow> tty"
  assumes write_shows: "ok s \<Longrightarrow> length b \<le> 1025 \<Longrightarrow> b \<noteq> [] \<Longrightarrow> unat n \<le> length b \<Longrightarrow>
    \<exists>s'. os_write os 1 b n s = Some (0, s') \<and> ok s' \<and> scr s' = says (take (unat n) b) (scr s)"
begin

lemma fdputs_shows:
  assumes "ok s" and "0 \<notin> set cs" and "length (cs @ 0 # rest) \<le> 1025"
  shows "\<exists>s'. ece391_fdputs os 1 (cs @ 0 # rest) s = Some s' \<and> ok s' \<and> scr s' = says cs (scr s)"
proof -
  have n: "unat (of_nat (length cs) :: u32) = length cs" using assms(3) by simp
  have "strlen (aget (cs @ 0 # rest)) = Some (length cs)" by (rule strlen_c_str [OF c_str_aget [OF assms(2)]])
  moreover obtain s' where "os_write os 1 (cs @ 0 # rest) (of_nat (length cs)) s = Some (0, s')" "ok s'"
    "scr s' = says cs (scr s)"
    using write_shows [OF assms(1,3) _, of "of_nat (length cs)"] n by auto
  ultimately show ?thesis by (simp add: ece391_fdputs_def ece391_strlen_eq)
qed

lemma fdputs_lit:
  assumes "ok s" and "0 \<notin> set (chars cs)" and "length cs \<le> 1024"
  shows "\<exists>s'. ece391_fdputs os 1 (lit cs) s = Some s' \<and> ok s' \<and> scr s' = says (chars cs) (scr s)"
  using fdputs_shows [OF assms(1,2), of "[]"] assms(3) by (simp add: lit_def)

end

text \<open>What it relies on when it reads an open file: \<open>rest\<close> is what the descriptor has not delivered yet;
  the part of the buffer that is asked for and not delivered is cleared.\<close>

locale user_file = user_screen +
  fixes fd :: u32 and rest :: "'a \<Rightarrow> u8 list"
  assumes write_rest: "ok s \<Longrightarrow> length b \<le> 1025 \<Longrightarrow> b \<noteq> [] \<Longrightarrow> unat n \<le> length b \<Longrightarrow> os_write os 1 b n s = Some (r, s') \<Longrightarrow>
      rest s' = rest s"
    and read_rest: "ok s \<Longrightarrow> length b \<le> 1025 \<Longrightarrow> unat n \<le> length b \<Longrightarrow> n \<noteq> 0 \<Longrightarrow>
      \<exists>s'. os_read os fd b n s = Some (of_nat (length (take (unat n) (rest s))),
          take (unat n) (rest s) @ replicate (unat n - length (rest s)) 0 @ drop (unat n) b, s') \<and>
        ok s' \<and> scr s' = scr s \<and> rest s' = drop (unat n) (rest s)"
begin

lemma fdputs_rest:
  assumes "ok s" and "0 \<notin> set cs" and "length (cs @ 0 # bs) \<le> 1025" and "ece391_fdputs os 1 (cs @ 0 # bs) s = Some s'"
  shows "rest s' = rest s"
proof -
  have "strlen (aget (cs @ 0 # bs)) = Some (length cs)" by (rule strlen_c_str [OF c_str_aget [OF assms(2)]])
  then obtain r where "os_write os 1 (cs @ 0 # bs) (of_nat (length cs)) s = Some (r, s')"
    using assms(4) by (auto simp: ece391_fdputs_def ece391_strlen_eq bind_eq_Some_conv)
  then show ?thesis by (intro write_rest [OF assms(1,3) _ _]) (use assms(3) in simp_all)
qed

end

end
