(* ===== verification/Users.thy ===== *)
theory Users
  imports User_Lib
begin

text \<open>
  The programs of \<^verbatim>\<open>src/syscalls/\<close> over the system calls of \<open>User_Lib\<close>: \<open>cat\<close>, \<open>ls\<close>,
  \<open>hello\<close>, \<open>counter\<close>, \<open>testprint\<close>, the shell and \<open>pingpong\<close>. Each \<open>main\<close> takes its buffer as the
  program finds it, uninitialised, and gives its exit status and the state it leaves. The loops are
  partial functions: \<open>None\<close> if they do not end.
\<close>

section \<open>cat\<close>

partial_function (option) cat_loop :: "'s os \<Rightarrow> u32 \<Rightarrow> u8 list \<Rightarrow> 's \<Rightarrow> (u32 \<times> 's) option" where
  "cat_loop os fd buf s = do {
     (cnt, buf, s) \<leftarrow> os_read os fd buf 1024 s;
     if cnt = 0 then Some (0, s)
     else if cnt = - 1 then do {
       s \<leftarrow> ece391_fdputs os 1 (lit ''file read failed\<newline>'') s;
       Some (3, s) }
     else do {
       (r, s) \<leftarrow> os_write os 1 buf cnt s;
       if r = - 1 then Some (3, s) else cat_loop os fd buf s } }"

definition cat_main :: "'s os \<Rightarrow> u8 list \<Rightarrow> 's \<Rightarrow> (u32 \<times> 's) option" where
  "cat_main os buf s = do {
     (r, buf, s) \<leftarrow> os_getargs os buf 1024 s;
     if r \<noteq> 0 then do {
       s \<leftarrow> ece391_fdputs os 1 (lit ''could not read arguments\<newline>'') s;
       Some (3, s) }
     else do {
       (fd, s) \<leftarrow> os_open os buf s;
       if fd = - 1 then do {
         s \<leftarrow> ece391_fdputs os 1 (lit ''file not found\<newline>'') s;
         Some (2, s) }
       else cat_loop os fd buf s } }"

section \<open>ls\<close>

partial_function (option) ls_loop :: "'s os \<Rightarrow> u32 \<Rightarrow> u8 list \<Rightarrow> 's \<Rightarrow> (u32 \<times> 's) option" where
  "ls_loop os fd buf s = do {
     (cnt, buf, s) \<leftarrow> os_read os fd buf 32 s;
     if cnt = 0 then Some (0, s)
     else if cnt = - 1 then do {
       s \<leftarrow> ece391_fdputs os 1 (lit ''directory entry read failed\<newline>'') s;
       Some (3, s) }
     else do {
       buf \<leftarrow> aput (unat cnt) 0x0A buf;
       (r, s) \<leftarrow> os_write os 1 buf (cnt + 1) s;
       if r = - 1 then Some (3, s) else ls_loop os fd buf s } }"

definition ls_main :: "'s os \<Rightarrow> u8 list \<Rightarrow> 's \<Rightarrow> (u32 \<times> 's) option" where
  "ls_main os buf s = do {
     (fd, s) \<leftarrow> os_open os (lit ''.'') s;
     if fd = - 1 then do {
       s \<leftarrow> ece391_fdputs os 1 (lit ''directory open failed\<newline>'') s;
       Some (2, s) }
     else ls_loop os fd buf s }"

section \<open>hello, testprint and counter\<close>

definition hello_main :: "'s os \<Rightarrow> u8 list \<Rightarrow> 's \<Rightarrow> (u32 \<times> 's) option" where
  "hello_main os buf s = do {
     s \<leftarrow> ece391_fdputs os 1 (lit ''Hi, what's your name? '') s;
     (cnt, buf, s) \<leftarrow> os_read os 0 buf 1023 s;
     if cnt = - 1 then do {
       s \<leftarrow> ece391_fdputs os 1 (lit ''Can't read name from keyboard.\<newline>'') s;
       Some (3, s) }
     else do {
       buf \<leftarrow> aput (unat cnt) 0 buf;
       s \<leftarrow> ece391_fdputs os 1 (lit ''Hello, '') s;
       s \<leftarrow> ece391_fdputs os 1 buf s;
       Some (0, s) } }"

definition testprint_main :: "'s os \<Rightarrow> 's \<Rightarrow> (u32 \<times> 's) option" where
  "testprint_main os s = do {
     s \<leftarrow> ece391_fdputs os 1 (lit ''Hello, if this ran, the program was correct. Yay!\<newline>'') s;
     Some (0, s) }"

partial_function (option) counter_loop :: "'s os \<Rightarrow> u32 \<Rightarrow> u32 \<Rightarrow> u8 list \<Rightarrow> 's \<Rightarrow> 's option" where
  "counter_loop os i mx buf s =
     (if i < mx then do {
        buf \<leftarrow> ece391_itoa (get_from 0) (put_from 0) (i + 1) buf 10;
        s \<leftarrow> ece391_fdputs os 1 buf s;
        s \<leftarrow> ece391_fdputs os 1 (lit ''\<newline>'') s;
        counter_loop os (i + 1) mx buf s }
      else Some s)"

definition counter_main :: "'s os \<Rightarrow> u8 list \<Rightarrow> 's \<Rightarrow> (u32 \<times> 's) option" where
  "counter_main os buf s = do {
     s \<leftarrow> ece391_fdputs os 1 (lit ''Enter the Test Number: (0): 100, (1): 10000, (2): 100000\<newline>'') s;
     (cnt, buf, s) \<leftarrow> os_read os 0 buf 1023 s;
     if cnt = - 1 then do {
       s \<leftarrow> ece391_fdputs os 1 (lit ''Can't read the number from keyboard.\<newline>'') s;
       Some (3, s) }
     else do {
       buf \<leftarrow> aput (unat cnt) 0 buf;
       len \<leftarrow> ece391_strlen (aget buf);
       c \<leftarrow> aget buf 0;
       if len > 1 \<or> len = 1 \<and> (c < 0x30 \<or> c > 0x32) then do {
         s \<leftarrow> ece391_fdputs os 1 (lit ''Wrong Choice!\<newline>'') s;
         Some (0, s) }
       else do {
         s \<leftarrow> counter_loop os 0
           (if c = 0x30 then 100 else if c = 0x31 then 10000 else if c = 0x32 then 100000 else 0) buf s;
         Some (0, s) } } }"

section \<open>The shell\<close>

partial_function (option) shell_loop :: "'s os \<Rightarrow> u8 list \<Rightarrow> 's \<Rightarrow> (u32 \<times> 's) option" where
  "shell_loop os buf s = do {
     s \<leftarrow> ece391_fdputs os 1 (lit ''391OS> '') s;
     (cnt, buf, s) \<leftarrow> os_read os 0 buf 1023 s;
     if cnt = - 1 then do {
       s \<leftarrow> ece391_fdputs os 1 (lit ''read from keyboard failed\<newline>'') s;
       Some (3, s) }
     else do {
       last \<leftarrow> (if sint cnt > 0 then map_option (\<lambda>c. c = 0x0A) (aget buf (unat (cnt - 1))) else Some False);
       let cnt = (if last then cnt - 1 else cnt);
       buf \<leftarrow> aput (unat cnt) 0 buf;
       d \<leftarrow> ece391_strcmp (aget buf) (aget (lit ''exit''));
       c \<leftarrow> aget buf 0;
       if d = 0 then Some (0, s)
       else if c = 0 then shell_loop os buf s
       else do {
         (rval, s) \<leftarrow> os_execute os buf s;
         s \<leftarrow> (if rval = - 1 then ece391_fdputs os 1 (lit ''no such command\<newline>'') s
               else if rval = 256 then ece391_fdputs os 1 (lit ''program terminated by exception\<newline>'') s
               else if rval \<noteq> 0 then ece391_fdputs os 1 (lit ''program terminated abnormally\<newline>'') s
               else Some s);
         shell_loop os buf s } } }"

definition shell_main :: "'s os \<Rightarrow> u8 list \<Rightarrow> 's \<Rightarrow> (u32 \<times> 's) option" where
  "shell_main os buf s = do {
     s \<leftarrow> ece391_fdputs os 1 (lit ''Starting 391 Shell\<newline>'') s;
     shell_loop os buf s }"

section \<open>pingpong\<close>

text \<open>The macros are not bracketed: \<open>LOOPMAX\<close> is \<open>79 + 2 - 2 - 1\<close>.\<close>

definition BUFMAX :: nat where "BUFMAX = 81"
definition STARTLOOP :: nat where "STARTLOOP = 2"
definition LOOPMAX :: nat where "LOOPMAX = 78"

definition pingpong_walls :: "u8 list" where
  "pingpong_walls = (replicate BUFMAX 0x20)[BUFMAX - 1 := 0, BUFMAX - 2 := 0x0A, BUFMAX - 3 := 0x7C, 1 := 0x7C]"

text \<open>One position of the ball: the inner part is cleared, the character drawn and printed, and the
  next tick of the clock awaited.\<close>

definition pingpong_frame :: "'s os \<Rightarrow> u32 \<Rightarrow> u8 \<Rightarrow> nat \<Rightarrow> u8 list \<times> 's \<Rightarrow> (u8 list \<times> 's) option" where
  "pingpong_frame os rtc_fd curchar j = (\<lambda>(buf, s). do {
     let buf = for_loop STARTLOOP LOOPMAX (\<lambda>i buf. buf[i := 0x20]) buf;
     let buf = buf[j := curchar];
     s \<leftarrow> ece391_fdputs os 1 buf s;
     (r, garbage, s) \<leftarrow> os_read os rtc_fd [0, 0, 0, 0] 4 s;
     Some (buf, s) })"

text \<open>The positions of one way out and back.\<close>

definition pingpong_way :: "nat list" where
  "pingpong_way = [STARTLOOP..<LOOPMAX] @ rev [STARTLOOP..<LOOPMAX]"

fun pingpong_frames :: "'s os \<Rightarrow> u32 \<Rightarrow> u8 \<Rightarrow> nat list \<Rightarrow> u8 list \<times> 's \<Rightarrow> (u8 list \<times> 's) option" where
  "pingpong_frames os rtc_fd c [] bs = Some bs"
| "pingpong_frames os rtc_fd c (j # js) bs = do {
     bs \<leftarrow> pingpong_frame os rtc_fd c j bs;
     pingpong_frames os rtc_fd c js bs }"

partial_function (option) pingpong_loop :: "'s os \<Rightarrow> u32 \<Rightarrow> u8 \<Rightarrow> u8 list \<times> 's \<Rightarrow> (u32 \<times> 's) option" where
  "pingpong_loop os rtc_fd curchar bs = do {
     bs \<leftarrow> pingpong_frames os rtc_fd curchar pingpong_way bs;
     pingpong_loop os rtc_fd (if curchar = 0x5A then 0x41 else curchar + 1) bs }"

definition pingpong_main :: "'s os \<Rightarrow> 's \<Rightarrow> (u32 \<times> 's) option" where
  "pingpong_main os s = do {
     (rtc_fd, s) \<leftarrow> os_open os (lit ''rtc'') s;
     (ret_val, s) \<leftarrow> os_write os rtc_fd (map (\<lambda>k. byte_of k 32) [0..<4]) 4 s;
     pingpong_loop os rtc_fd 0x41 (pingpong_walls, s) }"

section \<open>cat and ls print what they read\<close>

text \<open>\<open>cat\<close> ends, and what it has printed is the file.\<close>

context user_file
begin

lemma cat_loop_prints:
  assumes "ok s" and "length buf = 1024"
  shows "\<exists>s'. cat_loop os fd buf s = Some (0, s') \<and> ok s' \<and> scr s' = says (rest s) (scr s)"
  using assms
proof (induction "length (rest s)" arbitrary: s buf rule: less_induct)
  case less
  let ?got = "take 1024 (rest s)"
  let ?buf = "?got @ replicate (1024 - length (rest s)) 0"
  obtain s1 where s1: "os_read os fd buf 1024 s = Some (of_nat (length ?got), ?buf, s1)"
      "ok s1" "scr s1 = scr s" "rest s1 = drop 1024 (rest s)"
    using read_rest [OF less.prems(1), of buf 1024] less.prems(2) by auto
  have l: "length ?buf = 1024" by simp
  show ?case
  proof (cases "rest s = []")
    case True
    then show ?thesis using s1 by (subst cat_loop.simps) simp
  next
    case False
    let ?n = "of_nat (length ?got) :: u32"
    have "length ?got \<le> 1025" by simp
    note c = count_word [OF this]
    have n: "unat ?n = length ?got" by (rule c(1))
    have "?n \<noteq> 0" unfolding c(2) using False by simp
    moreover have "?n \<noteq> - 1" by (rule c(3))
    moreover obtain s2 where s2: "os_write os 1 ?buf ?n s1 = Some (0, s2)" "ok s2"
        "scr s2 = says (take (unat ?n) ?buf) (scr s1)"
      using write_shows [OF s1(2), of ?buf ?n] n l False by auto
    moreover have r: "rest s2 = drop 1024 (rest s)"
      using write_rest [OF s1(2) _ _ _ s2(1)] s1(4) n l False by simp
    moreover have "\<exists>s'. cat_loop os fd ?buf s2 = Some (0, s') \<and> ok s' \<and> scr s' = says (rest s2) (scr s2)"
      using False by (intro less.hyps s2(2) l) (simp add: r)
    moreover have "take (unat ?n) ?buf = ?got" unfolding n by (cases "length (rest s) \<le> 1024") simp_all
    moreover have "says (drop 1024 (rest s)) (says ?got t) = says (rest s) t" for t
      unfolding says_simps(2) [symmetric] by simp
    ultimately show ?thesis using s1 by (subst cat_loop.simps) simp
  qed
qed

end

end
