(* ===== verification/Grep.thy ===== *)
theory Grep
  imports User_Lib
begin

text \<open>
  \<^verbatim>\<open>src/syscalls/ece391grep.c\<close>: prints the lines of all files that contain a string. \<open>data\<close> is the
  buffer of 1025 bytes, \<open>used\<close> (\<open>last\<close> in the code) the number of bytes in use; a line that is not complete is moved to the
  front before the next read.
\<close>

definition BUFSIZE :: nat where "BUFSIZE = 1024"
definition SBUFSIZE :: nat where "SBUFSIZE = 33"

section \<open>One file\<close>

text \<open>The end of the line that starts at \<open>e\<close>.\<close>

partial_function (option) grep_line_end :: "u8 list \<Rightarrow> int \<Rightarrow> nat \<Rightarrow> nat option" where
  "grep_line_end data used e =
     (if int e < used then do { c \<leftarrow> aget data e; if c \<noteq> 0x0A then grep_line_end data used (Suc e) else Some e }
      else Some e)"

text \<open>The search of one line, from \<open>check\<close> on.\<close>

partial_function (option) grep_search ::
    "'s os \<Rightarrow> u8 list \<Rightarrow> u32 \<Rightarrow> u8 list \<Rightarrow> u8 list \<Rightarrow> nat \<Rightarrow> nat \<Rightarrow> nat \<Rightarrow> 's \<Rightarrow> 's option" where
  "grep_search os s s_len fname data line_start line_end check st =
     (if check < line_end then do {
        c0 \<leftarrow> aget s 0;
        c \<leftarrow> aget data check;
        d \<leftarrow> (if c0 = c then ece391_strncmp (\<lambda>i. aget data (check + i)) (aget s) s_len else Some 1);
        if d = 0 then do {
          st \<leftarrow> ece391_fdputs os 1 fname st;
          st \<leftarrow> ece391_fdputs os 1 (lit '':'') st;
          st \<leftarrow> ece391_fdputs os 1 (drop line_start data) st;
          ece391_fdputs os 1 (lit ''\<newline>'') st }
        else grep_search os s s_len fname data line_start line_end (Suc check) st }
      else Some st)"

text \<open>The lines in the buffer, from \<open>line_start\<close> on: what is left in it is its last, incomplete line.\<close>

partial_function (option) grep_lines ::
    "'s os \<Rightarrow> u8 list \<Rightarrow> u32 \<Rightarrow> u8 list \<Rightarrow> u32 \<Rightarrow> u8 list \<Rightarrow> int \<Rightarrow> nat \<Rightarrow> 's \<Rightarrow> (u8 list \<times> int \<times> 's) option" where
  "grep_lines os s s_len fname cnt data used line_start st = do {
     line_end \<leftarrow> grep_line_end data used line_start;
     c \<leftarrow> aget data line_end;
     data \<leftarrow> aput line_end 0 data;
     if c \<noteq> 0x0A \<and> cnt \<noteq> 0 \<and> line_start \<noteq> 0 then do {
       data \<leftarrow> ece391_strcpy (\<lambda>d i. aget d (line_start + i)) aput data;
       Some (data, used - int line_start, st) }
     else do {
       st \<leftarrow> grep_search os s s_len fname data line_start line_end line_start st;
       if int (Suc line_end) \<ge> used then Some (data, 0, st)
       else grep_lines os s s_len fname cnt data used (Suc line_end) st } }"

partial_function (option) grep_loop ::
    "'s os \<Rightarrow> u8 list \<Rightarrow> u32 \<Rightarrow> u8 list \<Rightarrow> u32 \<Rightarrow> u8 list \<Rightarrow> int \<Rightarrow> 's \<Rightarrow> (u32 \<times> 's) option" where
  "grep_loop os s s_len fname fd data used st =
     (if used < 0 \<or> int BUFSIZE < used then None
      else do {
        (cnt, got, st) \<leftarrow> os_read os fd (drop (nat used) data) (of_nat (BUFSIZE - nat used)) st;
        let data = take (nat used) data @ got;
        if cnt = - 1 then do {
          st \<leftarrow> ece391_fdputs os 1 (lit ''file read failed\<newline>'') st;
          Some (- 1, st) }
        else do {
          (data, used, st) \<leftarrow> grep_lines os s s_len fname cnt data (used + sint cnt) 0 st;
          if cnt = 0 then do {
            (r, st) \<leftarrow> os_close os fd st;
            if r = - 1 then do {
              st \<leftarrow> ece391_fdputs os 1 (lit ''file close failed\<newline>'') st;
              Some (- 1, st) }
            else Some (0, st) }
          else grep_loop os s s_len fname fd data used st } })"

definition do_one_file :: "'s os \<Rightarrow> u8 list \<Rightarrow> u8 list \<Rightarrow> u8 list \<Rightarrow> 's \<Rightarrow> (u32 \<times> 's) option" where
  "do_one_file os s fname data st = do {
     s_len \<leftarrow> ece391_strlen (aget s);
     (fd, st) \<leftarrow> os_open os fname st;
     if fd = - 1 then do {
       st \<leftarrow> ece391_fdputs os 1 (lit ''file open failed\<newline>'') st;
       Some (- 1, st) }
     else grep_loop os s (of_nat s_len) fname fd data 0 st }"

section \<open>All files\<close>

text \<open>\<open>datas\<close> are the contents the local array of \<open>do_one_file\<close> has call by call, uninitialised.\<close>

partial_function (option) grep_dir ::
    "'s os \<Rightarrow> u8 list \<Rightarrow> u32 \<Rightarrow> (nat \<Rightarrow> u8 list) \<Rightarrow> u8 list \<Rightarrow> 's \<Rightarrow> (u32 \<times> 's) option" where
  "grep_dir os search fd datas buf st = do {
     (cnt, buf, st) \<leftarrow> os_read os fd buf (of_nat (SBUFSIZE - 1)) st;
     if cnt = 0 then Some (0, st)
     else if cnt = - 1 then do {
       st \<leftarrow> ece391_fdputs os 1 (lit ''directory entry read failed\<newline>'') st;
       Some (3, st) }
     else do {
       c \<leftarrow> aget buf 0;
       if c = 0x2E then grep_dir os search fd datas buf st
       else do {
         buf \<leftarrow> aput (unat cnt) 0 buf;
         (r, st) \<leftarrow> do_one_file os search buf (datas 0) st;
         if r \<noteq> 0 then Some (3, st) else grep_dir os search fd (\<lambda>i. datas (Suc i)) buf st } } }"

definition grep_main :: "'s os \<Rightarrow> u8 list \<Rightarrow> u8 list \<Rightarrow> (nat \<Rightarrow> u8 list) \<Rightarrow> 's \<Rightarrow> (u32 \<times> 's) option" where
  "grep_main os search buf datas st = do {
     (r, search, st) \<leftarrow> os_getargs os search (of_nat BUFSIZE) st;
     if r \<noteq> 0 then do {
       st \<leftarrow> ece391_fdputs os 1 (lit ''could not read argument\<newline>'') st;
       Some (3, st) }
     else do {
       (fd, st) \<leftarrow> os_open os (lit ''.'') st;
       if fd = - 1 then do {
         st \<leftarrow> ece391_fdputs os 1 (lit ''directory open failed\<newline>'') st;
         Some (2, st) }
       else grep_dir os search fd datas buf st } }"

section \<open>The lines of a text\<close>

fun text_lines :: "u8 list \<Rightarrow> u8 list list" where
  "text_lines [] = [[]]"
| "text_lines (c # cs) = (if c = 0x0A then [] # text_lines cs
     else (c # hd (text_lines cs)) # tl (text_lines cs))"

definition contains :: "u8 list \<Rightarrow> u8 list \<Rightarrow> bool" where
  "contains s l \<longleftrightarrow> (\<exists>i < length l. take (length s) (drop i l) = s)"

text \<open>What is printed for a text: each line that contains the string, up to a zero byte in it.\<close>

definition matches :: "u8 list \<Rightarrow> u8 list \<Rightarrow> u8 list list \<Rightarrow> u8 list" where
  "matches nm s ls = concat (map (\<lambda>l. if contains s l then nm @ 0x3A # takeWhile (\<lambda>c. c \<noteq> 0) l @ [0x0A] else []) ls)"

lemma matches_simps [simp]:
  "matches nm s [] = []" "matches nm s (ls @ ms) = matches nm s ls @ matches nm s ms"
  by (simp_all add: matches_def)

lemma matches_Cons: "matches nm s (l # ls) = matches nm s [l] @ matches nm s ls"
  by (simp add: matches_def)

lemma matches_empty [simp]: "matches nm s [[]] = []"
  by (simp add: matches_def contains_def)

lemma text_lines_not_Nil [simp]: "text_lines xs \<noteq> []"
  by (induction xs) simp_all

lemma text_lines_none: "0x0A \<notin> set xs \<Longrightarrow> text_lines xs = [xs]"
  by (induction xs) auto

lemma text_lines_newline: "0x0A \<notin> set l \<Longrightarrow> text_lines (l @ 0x0A # ys) = l # text_lines ys"
  by (induction l) auto

lemma text_lines_append:
  "text_lines (xs @ ys) = butlast (text_lines xs) @ text_lines (last (text_lines xs) @ ys)"
proof (induction xs)
  case (Cons c cs)
  show ?case
  proof (cases "c = 0x0A")
    case True
    then show ?thesis using Cons by simp
  next
    case False
    obtain l ls where l: "text_lines cs = l # ls" by (cases "text_lines cs") simp_all
    show ?thesis
    proof (cases ls)
      case Nil
      then show ?thesis using Cons False l by simp
    next
      case (Cons m ms)
      then show ?thesis using Cons.IH False l by simp
    qed
  qed
qed simp

lemma text_lines_sets: "l \<in> set (text_lines xs) \<Longrightarrow> set l \<subseteq> set xs \<and> 0x0A \<notin> set l"
proof (induction xs arbitrary: l)
  case (Cons c cs)
  obtain m ms where m: "text_lines cs = m # ms" by (cases "text_lines cs") simp_all
  then show ?case using Cons.IH [of m] Cons.IH [of l] Cons.prems by (auto split: if_splits)
qed simp

lemma text_lines_first: "0x0A \<notin> set xs \<Longrightarrow> \<exists>q qs. text_lines (xs @ ys) = (xs @ q) # qs"
proof (induction xs)
  case Nil
  then show ?case by (cases "text_lines ys") simp_all
next
  case (Cons c cs)
  then show ?case by auto
qed

end
