(* ===== verification/Grep_Spec.thy ===== *)
theory Grep_Spec
  imports Grep
begin

text \<open>
  \<open>grep\<close> prints the lines of a file that contain the string: the search of a line, the walk over
  the lines in the buffer, and the loop that refills it.
\<close>

section \<open>The search of a line\<close>

lemma line_end_at:
  "0x0A \<notin> set l \<Longrightarrow> int (length A + length l) = used \<or> int (length A + length l) < used \<and> B = 0x0A # C \<Longrightarrow>
    grep_line_end (A @ l @ B) used (length A) = Some (length A + length l)"
proof (induction l arbitrary: A)
  case Nil
  then show ?case by (subst grep_line_end.simps) (auto simp: aget_def nth_append)
next
  case (Cons c l)
  have "grep_line_end ((A @ [c]) @ l @ B) used (length (A @ [c])) = Some (length (A @ [c]) + length l)"
    by (rule Cons.IH) (use Cons.prems in auto)
  then show ?case using Cons.prems by (subst grep_line_end.simps) (auto simp: aget_def nth_append)
qed

lemma zero_split: "\<exists>r. l @ 0 # B = takeWhile (\<lambda>c. c \<noteq> 0) l @ 0 # (r :: u8 list)"
  by (induction l) auto

lemma c_str_at: "c_str (\<lambda>i. aget (A @ l @ 0 # B) (length A + i)) (takeWhile (\<lambda>c. c \<noteq> 0) l)"
proof -
  let ?t = "takeWhile (\<lambda>c. c \<noteq> 0) l"
  obtain r where r: "l @ 0 # B = ?t @ 0 # r" using zero_split [of l B] by blast
  have "aget (A @ l @ 0 # B) (length A + i) = aget (l @ 0 # B) i" for i by (simp add: aget_def nth_append)
  then show ?thesis using c_str_aget [of ?t r] r by (auto simp: c_str_def dest: set_takeWhileD)
qed

lemma take_takeWhile:
  "0 \<notin> set s \<Longrightarrow> take (length s) (takeWhile (\<lambda>c. c \<noteq> 0) l) = s \<longleftrightarrow> take (length s) l = s"
proof (induction s arbitrary: l)
  case (Cons c s)
  then show ?case by (cases l) auto
qed simp

text \<open>The copy of the last line to the front of the buffer it lies in.\<close>

lemma strcpy_from_down:
  assumes k: "0 < k" and l0: "0 \<notin> set l"
  shows "i \<le> length l \<Longrightarrow> k + length l < length d \<Longrightarrow> \<forall>j \<le> length l. i \<le> j \<longrightarrow> d ! (k + j) = (l @ [0]) ! j \<Longrightarrow>
    \<exists>d'. ece391_strcpy_from (\<lambda>d i. aget d (k + i)) aput i d = Some d' \<and> length d' = length d \<and>
      (\<forall>j < length l. i \<le> j \<longrightarrow> d' ! j = l ! j) \<and> (\<forall>j. j < i \<or> length l < j \<longrightarrow> d' ! j = d ! j)"
proof (induction "length l - i" arbitrary: i d)
  case 0
  then have "aget d (k + i) = Some 0" by (simp add: aget_def nth_append)
  then show ?case using 0 by (subst ece391_strcpy_from.simps) (simp add: aput_def)
next
  case (Suc n)
  then have i: "i < length l" by simp
  then have c: "aget d (k + i) = Some (l ! i)" "l ! i \<noteq> 0" using Suc.prems l0 by (auto simp: aget_def nth_append) (metis nth_mem)
  let ?d = "d[i := l ! i]"
  obtain d' where d': "ece391_strcpy_from (\<lambda>d i. aget d (k + i)) aput (Suc i) ?d = Some d'" "length d' = length ?d"
    "\<forall>j < length l. Suc i \<le> j \<longrightarrow> d' ! j = l ! j" "\<forall>j. j < Suc i \<or> length l < j \<longrightarrow> d' ! j = ?d ! j"
  proof -
    have n: "n = length l - Suc i" "Suc i \<le> length l" "k + length l < length ?d" using Suc.hyps(2) Suc.prems(2) i by simp_all
    have "\<forall>j \<le> length l. Suc i \<le> j \<longrightarrow> ?d ! (k + j) = (l @ [0]) ! j" using Suc.prems(3) k by auto
    from Suc.hyps(1) [OF n this] show thesis using that by blast
  qed
  have "ece391_strcpy_from (\<lambda>d i. aget d (k + i)) aput i d = Some d'"
    using c d'(1) Suc.prems i by (subst ece391_strcpy_from.simps) (simp add: aput_def)
  moreover have "d' ! i = l ! i" using d'(4) i Suc.prems(2) by simp
  moreover have "d' ! j = d ! j" if "j < i \<or> length l < j" for j
  proof -
    have "d' ! j = ?d ! j" using d'(4) that i by (metis less_Suc_eq)
    then show ?thesis using that i by auto
  qed
  ultimately show ?case using d'(2,3) by (intro exI [of _ d']) (auto simp: le_less Suc_le_eq)
qed

lemma strcpy_down:
  assumes "A \<noteq> []" and "0 \<notin> set l"
  shows "\<exists>d. ece391_strcpy (\<lambda>d i. aget d (length A + i)) aput (A @ l @ 0 # B) = Some d \<and> length d = length (A @ l @ 0 # B) \<and>
    take (length l) d = l \<and> (\<forall>j > length l. d ! j = (A @ l @ 0 # B) ! j)"
proof -
  have "0 < length A" using assms(1) by simp
  moreover have "\<forall>j \<le> length l. 0 \<le> j \<longrightarrow> (A @ l @ 0 # B) ! (length A + j) = (l @ [0]) ! j" by (simp add: nth_append)
  ultimately obtain d where d: "ece391_strcpy_from (\<lambda>d i. aget d (length A + i)) aput 0 (A @ l @ 0 # B) = Some d"
    "length d = length (A @ l @ 0 # B)" "\<forall>j < length l. d ! j = l ! j" "\<forall>j. length l < j \<longrightarrow> d ! j = (A @ l @ 0 # B) ! j"
    using strcpy_from_down [OF _ assms(2), of "length A" 0 "A @ l @ 0 # B"] by auto
  have "take (length l) d = l" using d(2,3) by (intro nth_equalityI) simp_all
  then show ?thesis using d(1,2,4) by (simp add: ece391_strcpy_def)
qed

lemma ex_from: "j < (n :: nat) \<Longrightarrow> (\<exists>i \<ge> j. i < n \<and> P i) \<longleftrightarrow> P j \<or> (\<exists>i \<ge> Suc j. i < n \<and> P i)"
  by (metis Suc_leD Suc_leI le_neq_implies_less order_refl)

section \<open>The file\<close>

text \<open>What the program holds while it searches: the string, the name of the file and the state.\<close>

definition searching :: "u8 list \<Rightarrow> u8 list \<Rightarrow> u8 list \<Rightarrow> u8 list \<Rightarrow> bool" where
  "searching sb s fname nm \<longleftrightarrow> c_str (aget sb) s \<and> s \<noteq> [] \<and> length s < 4294967296 \<and>
     0 \<notin> set nm \<and> (\<exists>nr. fname = nm @ 0 # nr) \<and> length fname \<le> 1025"

text \<open>The lines in the buffer: all are searched but for an incomplete last one, which is moved to the
  front, unless it fills the buffer or the file has ended.\<close>

definition kept :: "u32 \<Rightarrow> nat \<Rightarrow> u8 list \<Rightarrow> bool" where
  "kept cnt ls D \<longleftrightarrow> last (text_lines D) \<noteq> [] \<and> cnt \<noteq> 0 \<and> (ls \<noteq> 0 \<or> 0x0A \<in> set D)"

text \<open>A text for the program. A line that fills the buffer, or one with a zero byte in it
  that has to be moved, is not printed as a whole, so both are excluded.\<close>

definition grep_text :: "u8 list \<Rightarrow> bool" where
  "grep_text xs \<longleftrightarrow> (\<forall>l \<in> set (text_lines xs). length l < 1024) \<and> (0 \<in> set xs \<longrightarrow> 0x0A \<notin> set xs)"

text \<open>What is left to do when the file has ended.\<close>

definition grep_end :: "'s os \<Rightarrow> u32 \<Rightarrow> 's \<Rightarrow> (u32 \<times> 's) option" where
  "grep_end os fd st = do {
     (r, st) \<leftarrow> os_close os fd st;
     if r = - 1 then do { st \<leftarrow> ece391_fdputs os 1 (lit ''file close failed\<newline>'') st; Some (- 1, st) }
     else Some (0, st) }"

context user_file
begin

lemma puts_all:
  assumes "ok s" and "0 \<notin> set cs" and "b = cs @ 0 # bs" and "length b \<le> 1025"
  shows "\<exists>s'. ece391_fdputs os 1 b s = Some s' \<and> ok s' \<and> scr s' = says cs (scr s) \<and> rest s' = rest s"
  using fdputs_shows [OF assms(1,2), of bs] fdputs_rest [OF assms(1,2), of bs] assms(3,4) by metis

lemma search_prints:
  assumes sg: "searching sb s fname nm" and d: "length (A @ l @ 0 # B) \<le> 1025" and ok: "ok st"
  shows "j \<le> length l \<Longrightarrow>
    \<exists>st'. grep_search os sb (of_nat (length s)) fname (A @ l @ 0 # B) (length A) (length A + length l) (length A + j) st = Some st' \<and>
      ok st' \<and> rest st' = rest st \<and>
      scr st' = says (if \<exists>i \<ge> j. i < length l \<and> take (length s) (drop i l) = s
        then nm @ 0x3A # takeWhile (\<lambda>c. c \<noteq> 0) l @ [0x0A] else []) (scr st)"
proof (induction "length l - j" arbitrary: j)
  case 0
  then show ?case using ok by (subst grep_search.simps) auto
next
  case (Suc k)
  let ?data = "A @ l @ 0 # B" and ?n = "of_nat (length s) :: u32"
  have j: "j < length l" using Suc by simp
  have s: "c_str (aget sb) s" "s \<noteq> []" "length s < 4294967296" and s0: "0 \<notin> set s"
    using sg by (simp_all add: searching_def c_str_def)
  have c0: "aget sb 0 = Some (s ! 0)" using c_str_nth [OF s(1), of 0] s(2) by simp
  have c: "aget ?data (length A + j) = Some (l ! j)" using j by (simp add: aget_def nth_append)
  have x: "(A @ take j l) @ drop j l @ 0 # B = ?data" by (metis append.assoc append_take_drop_id)
  have y: "length (A @ take j l) = length A + j" using j by simp
  have "c_str (\<lambda>i. aget ?data (length A + j + i)) (takeWhile (\<lambda>c. c \<noteq> 0) (drop j l))"
    by (rule c_str_at [of "A @ take j l" "drop j l" B, unfolded x y])
  from ece391_strncmp_prefix [OF this s] obtain d where
    d': "ece391_strncmp (\<lambda>i. aget ?data (length A + j + i)) (aget sb) ?n = Some d" "d = 0 \<longleftrightarrow> take (length s) (drop j l) = s"
    using take_takeWhile [OF s0] by metis
  have first: "take (length s) (drop j l) = s \<Longrightarrow> s ! 0 = l ! j" using j s(2)
    by (metis add.right_neutral length_greater_0_conv nth_drop nth_take less_imp_le)
  let ?d = "if s ! 0 = l ! j then ece391_strncmp (\<lambda>i. aget ?data (length A + j + i)) (aget sb) ?n else Some 1"
  obtain d2 where d2: "?d = Some d2" "d2 = 0 \<longleftrightarrow> take (length s) (drop j l) = s"
  proof (cases "s ! 0 = l ! j")
    case True
    show thesis by (rule that [OF _ d'(2)]) (simp add: True d'(1))
  next
    case False
    have "(1 :: int) = 0 \<longleftrightarrow> take (length s) (drop j l) = s" using first False by fastforce
    then show thesis by (intro that [of 1]) (simp only: False if_False)
  qed
  have step: "(\<exists>i \<ge> j. i < length l \<and> take (length s) (drop i l) = s) \<longleftrightarrow>
      take (length s) (drop j l) = s \<or> (\<exists>i \<ge> Suc j. i < length l \<and> take (length s) (drop i l) = s)"
    by (rule ex_from [OF j])
  show ?case
  proof (cases "d2 = 0")
    case False
    then have "grep_search os sb ?n fname ?data (length A) (length A + length l) (length A + j) st =
        grep_search os sb ?n fname ?data (length A) (length A + length l) (length A + Suc j) st"
      using c0 c d2(1) j by (subst grep_search.simps) simp
    then show ?thesis using Suc.hyps(1) [of "Suc j"] Suc.hyps(2) j False d2(2) unfolding step by simp
  next
    case True
    let ?t = "takeWhile (\<lambda>c. c \<noteq> 0) l"
    obtain nr where nr: "fname = nm @ 0 # nr" "length fname \<le> 1025" "0 \<notin> set nm" using sg by (auto simp: searching_def)
    obtain r where r: "l @ 0 # B = ?t @ 0 # r" using zero_split [of l B] by blast
    have t0: "0 \<notin> set ?t" by (auto dest: set_takeWhileD)
    obtain s1 where s1: "ece391_fdputs os 1 fname st = Some s1" "ok s1" "scr s1 = says nm (scr st)" "rest s1 = rest st"
      using puts_all [OF ok nr(3,1,2)] by blast
    have m: "0 \<notin> set [0x3A :: u8]" "lit '':'' = [0x3A] @ 0 # []" "length (lit '':'') \<le> 1025" by (simp_all add: lit_def chars_def)
    obtain s2 where s2: "ece391_fdputs os 1 (lit '':'') s1 = Some s2" "ok s2" "scr s2 = says [0x3A] (scr s1)" "rest s2 = rest s1"
      using puts_all [OF s1(2) m] by blast
    have dr: "drop (length A) ?data = ?t @ 0 # r" "length (drop (length A) ?data) \<le> 1025" using r d by simp_all
    obtain s3 where s3: "ece391_fdputs os 1 (drop (length A) ?data) s2 = Some s3" "ok s3" "scr s3 = says ?t (scr s2)" "rest s3 = rest s2"
      using puts_all [OF s2(2) t0 dr] by blast
    have m': "0 \<notin> set [0x0A :: u8]" "lit ''\<newline>'' = [0x0A] @ 0 # []" "length (lit ''\<newline>'') \<le> 1025" by (simp_all add: lit_def chars_def)
    obtain s4 where s4: "ece391_fdputs os 1 (lit ''\<newline>'') s3 = Some s4" "ok s4" "scr s4 = says [0x0A] (scr s3)" "rest s4 = rest s3"
      using puts_all [OF s3(2) m'] by blast
    have "grep_search os sb ?n fname ?data (length A) (length A + length l) (length A + j) st = Some s4"
      using c0 c d2(1) j True s1(1) s2(1) s3(1) s4(1) by (subst grep_search.simps) simp
    moreover have "\<exists>i \<ge> j. i < length l \<and> take (length s) (drop i l) = s" using True d2(2) j by blast
    moreover have "says [0x0A] (says ?t (says [0x3A] (says nm x))) = says (nm @ 0x3A # ?t @ [0x0A]) x" for x
      using says_simps(2) [of "[0x3A]" "?t @ [0x0A]" "says nm x"] by simp
    ultimately show ?thesis using s1(3,4) s2(3,4) s3(3,4) s4(2-4) by simp
  qed
qed

lemma lines_print:
  assumes sg: "searching sb s fname nm"
  shows "length (A @ D @ c # B) = 1025 \<Longrightarrow> c \<noteq> 0x0A \<Longrightarrow> (A @ D @ c # B) ! 1024 \<noteq> 0x0A \<Longrightarrow> D \<noteq> [] \<or> A = [] \<Longrightarrow> ok st \<Longrightarrow>
      kept cnt (length A) D \<longrightarrow> 0 \<notin> set (last (text_lines D)) \<Longrightarrow>
    \<exists>data used st'. grep_lines os sb (of_nat (length s)) fname cnt (A @ D @ c # B) (int (length A + length D)) (length A) st =
        Some (data, int used, st') \<and> length data = 1025 \<and> data ! 1024 \<noteq> 0x0A \<and> ok st' \<and> rest st' = rest st \<and>
      (if kept cnt (length A) D
       then used = length (last (text_lines D)) \<and> take used data = last (text_lines D) \<and>
         scr st' = says (matches nm s (butlast (text_lines D))) (scr st)
       else used = 0 \<and> scr st' = says (matches nm s (text_lines D)) (scr st))"
proof (induction "length D" arbitrary: A D st rule: less_induct)
  case less
  let ?n = "of_nat (length s) :: u32"
  show ?case
  proof (cases "0x0A \<in> set D")
    case True
    then obtain l D' where D: "D = l @ 0x0A # D'" "0x0A \<notin> set l" using split_list_first by metis
    let ?B = "D' @ c # B" and ?A = "A @ l @ [0]"
    have e: "A @ D @ c # B = A @ l @ 0x0A # ?B" by (simp add: D)
    have le: "grep_line_end (A @ l @ 0x0A # ?B) (int (length A + length D)) (length A) = Some (length A + length l)"
      by (rule line_end_at [OF D(2), where C = ?B]) (simp add: D)
    have at: "aget (A @ l @ 0x0A # ?B) (length A + length l) = Some 0x0A"
      "aput (length A + length l) 0 (A @ l @ 0x0A # ?B) = Some (A @ l @ 0 # ?B)"
      by (simp_all add: aget_def aput_def nth_append list_update_append)
    have d: "length (A @ l @ 0 # ?B) \<le> 1025" using less.prems(1) unfolding e by simp
    obtain s1 where s1: "grep_search os sb ?n fname (A @ l @ 0 # ?B) (length A) (length A + length l) (length A) st = Some s1"
      "ok s1" "rest s1 = rest st" "scr s1 = says (matches nm s [l]) (scr st)"
      using search_prints [OF sg d less.prems(5), of 0] by (auto simp: matches_def contains_def)
    have tl: "text_lines D = l # text_lines D'" by (simp add: D text_lines_newline)
    have ml: "matches nm s (l # ls) = matches nm s [l] @ matches nm s ls" if "ls \<noteq> []" for ls by (rule matches_Cons)
    have step: "grep_lines os sb ?n fname cnt (A @ D @ c # B) (int (length A + length D)) (length A) st =
        (if D' = [] then Some (A @ l @ 0 # ?B, 0, s1)
         else grep_lines os sb ?n fname cnt (?A @ D' @ c # B) (int (length ?A + length D')) (length ?A) s1)"
    proof -
      have "int (length A + length D) \<le> int (Suc (length A + length l)) \<longleftrightarrow> D' = []" by (simp add: D)
      moreover have "A @ l @ 0 # ?B = ?A @ D' @ c # B" by simp
      moreover have "length A + length D = length ?A + length D'" "Suc (length A + length l) = length ?A" by (simp_all add: D)
      ultimately show ?thesis
        unfolding e using le at s1(1) by (subst grep_lines.simps) (simp only: Option.bind.simps simp_thms if_False)
    qed
    show ?thesis
    proof (cases "D' = []")
      case True
      have nk: "\<not> kept cnt (length A) D" by (simp add: kept_def D True text_lines_newline)
      have "(A @ l @ 0 # ?B) ! 1024 \<noteq> 0x0A"
        using less.prems(3) unfolding e by (cases "1024 = length A + length l") (auto simp: nth_append nth_Cons split: nat.split if_splits)
      moreover have "length (A @ l @ 0 # ?B) = 1025" using less.prems(1) unfolding e by simp
      ultimately show ?thesis
        using step s1(2-4) True nk by (intro exI [of _ "A @ l @ 0 # ?B"] exI [of _ 0] exI [of _ s1]) (simp add: tl ml)
    next
      case False
      have k: "kept cnt (length ?A) D' = kept cnt (length A) D" by (simp add: kept_def tl) (simp add: D)
      have k0: "kept cnt (length ?A) D' \<longrightarrow> 0 \<notin> set (last (text_lines D'))" using less.prems(6) unfolding k by (simp add: tl)
      have b: "length (?A @ D' @ c # B) = 1025" using less.prems(1) by (simp add: D)
      have x: "(?A @ D' @ c # B) ! 1024 \<noteq> 0x0A"
        using less.prems(3) unfolding e by (cases "1024 = length A + length l") (auto simp: nth_append nth_Cons split: nat.split if_splits)
      obtain data used st' where ih: "grep_lines os sb ?n fname cnt (?A @ D' @ c # B) (int (length ?A + length D')) (length ?A) s1 =
          Some (data, int used, st')" "length data = 1025" "data ! 1024 \<noteq> 0x0A" "ok st'" "rest st' = rest s1"
        "if kept cnt (length A) D
         then used = length (last (text_lines D')) \<and> take used data = last (text_lines D') \<and>
           scr st' = says (matches nm s (butlast (text_lines D'))) (scr s1)
         else used = 0 \<and> scr st' = says (matches nm s (text_lines D')) (scr s1)"
      proof -
        have a: "length D' < length D" "D' \<noteq> [] \<or> ?A = []" using False by (simp_all add: D(1))
        from less.hyps [OF a(1) b less.prems(2) x a(2) s1(2) k0] show thesis using that unfolding k by blast
      qed
      have "butlast (text_lines D) = l # butlast (text_lines D')" "last (text_lines D) = last (text_lines D')" by (simp_all add: tl)
      moreover have "matches nm s (l # butlast (text_lines D')) = matches nm s [l] @ matches nm s (butlast (text_lines D'))"
        by (rule matches_Cons)
      moreover have "matches nm s (text_lines D) = matches nm s [l] @ matches nm s (text_lines D')" unfolding tl by (rule matches_Cons)
      ultimately have "if kept cnt (length A) D
         then used = length (last (text_lines D)) \<and> take used data = last (text_lines D) \<and>
           scr st' = says (matches nm s (butlast (text_lines D))) (scr st)
         else used = 0 \<and> scr st' = says (matches nm s (text_lines D)) (scr st)"
        using ih(6) s1(4) by (cases "kept cnt (length A) D") auto
      moreover have "grep_lines os sb ?n fname cnt (A @ D @ c # B) (int (length A + length D)) (length A) st = Some (data, int used, st')"
        using step False ih(1) by simp
      ultimately show ?thesis using ih(2-5) s1(3) by (intro exI [of _ data] exI [of _ used] exI [of _ st'] conjI) simp_all
    qed
  next
    case False
    note tl = text_lines_none [OF False]
    have le: "grep_line_end (A @ D @ c # B) (int (length A + length D)) (length A) = Some (length A + length D)"
      by (rule line_end_at [OF False]) simp
    have at: "aget (A @ D @ c # B) (length A + length D) = Some c"
      "aput (length A + length D) 0 (A @ D @ c # B) = Some (A @ D @ 0 # B)"
      by (simp_all add: aget_def aput_def nth_append list_update_append)
    have d: "length (A @ D @ 0 # B) = 1025" using less.prems(1) by simp
    have x: "(A @ D @ 0 # B) ! 1024 \<noteq> 0x0A"
      using less.prems(3) by (cases "1024 = length A + length D") (auto simp: nth_append nth_Cons split: nat.split if_splits)
    show ?thesis
    proof (cases "cnt \<noteq> 0 \<and> A \<noteq> []")
      case True
      then have k: "kept cnt (length A) D" using less.prems(4) by (simp add: kept_def tl)
      then have "0 \<notin> set D" using less.prems(6) by (simp add: tl)
      from strcpy_down [OF _ this, of A B] True obtain data where
        data: "ece391_strcpy (\<lambda>d i. aget d (length A + i)) aput (A @ D @ 0 # B) = Some data"
          "length data = length (A @ D @ 0 # B)" "take (length D) data = D" "\<forall>j > length D. data ! j = (A @ D @ 0 # B) ! j"
        by blast
      have "0 < length A" using True by simp
      moreover have "length A + (length D + Suc (length B)) = 1025" using d by simp
      ultimately have "length D < 1024" by linarith
      then have "data ! 1024 \<noteq> 0x0A" using data(4) x by simp
      moreover have "grep_lines os sb ?n fname cnt (A @ D @ c # B) (int (length A + length D)) (length A) st = Some (data, int (length D), st)"
        using le at data(1) less.prems(2) True by (subst grep_lines.simps) simp
      ultimately show ?thesis using data(2,3) d less.prems(5) k by (intro exI [of _ data] exI [of _ "length D"] exI [of _ st]) (simp add: tl)
    next
      case stop: False
      then have k: "\<not> kept cnt (length A) D" using False by (auto simp: kept_def)
      obtain s1 where s1: "grep_search os sb ?n fname (A @ D @ 0 # B) (length A) (length A + length D) (length A) st = Some s1"
        "ok s1" "rest s1 = rest st" "scr s1 = says (matches nm s [D]) (scr st)"
        using search_prints [OF sg _ less.prems(5), of A D B 0] d by (auto simp: matches_def contains_def)
      have "grep_lines os sb ?n fname cnt (A @ D @ c # B) (int (length A + length D)) (length A) st = Some (A @ D @ 0 # B, int 0, s1)"
        using le at s1(1) less.prems(2) stop by (subst grep_lines.simps) auto
      then show ?thesis using d x s1(2-4) k by (intro exI [of _ "A @ D @ 0 # B"] exI [of _ 0] exI [of _ s1]) (simp add: tl)
    qed
  qed
qed

lemma refill:
  assumes d: "length data = 1025" "data ! 1024 \<noteq> 0x0A" "take (length P) data = P" and P: "length P < 1024" and ok: "ok st"
  defines "G \<equiv> take (1024 - length P) (rest st)"
  shows "\<exists>got s1 c B. os_read os fd (drop (length P) data) (of_nat (1024 - length P)) st = Some (of_nat (length G), got, s1) \<and>
    ok s1 \<and> scr s1 = scr st \<and> rest s1 = drop (1024 - length P) (rest st) \<and> P @ got = (P @ G) @ c # B \<and> c \<noteq> 0x0A \<and>
    length ((P @ G) @ c # B) = 1025 \<and> ((P @ G) @ c # B) ! 1024 \<noteq> 0x0A"
proof -
  let ?n = "1024 - length P" and ?z = "1024 - length P - length (rest st)"
  have n: "unat (of_nat ?n :: u32) = ?n" by simp
  have n0: "(of_nat ?n :: u32) \<noteq> 0" using n P by auto
  have b: "length (drop (length P) data) \<le> 1025" "unat (of_nat ?n :: u32) \<le> length (drop (length P) data)" using d(1) n by simp_all
  have x: "drop ?n (drop (length P) data) = [data ! 1024]"
    using P d(1) Cons_nth_drop_Suc [of 1024 data] by simp
  obtain s1 where s1: "os_read os fd (drop (length P) data) (of_nat ?n) st =
      Some (of_nat (length G), G @ replicate ?z 0 @ [data ! 1024], s1)"
    "ok s1" "scr s1 = scr st" "rest s1 = drop ?n (rest st)"
    using read_rest [OF ok b n0] unfolding n x G_def by blast
  obtain c B where c: "replicate ?z 0 @ [data ! 1024] = c # B" "c \<noteq> 0x0A"
  proof (cases ?z)
    case 0
    then show thesis using that [of "data ! 1024" "[]"] d(2) by simp
  next
    case (Suc k)
    then show thesis using that [of 0 "replicate k 0 @ [data ! 1024]"] by simp
  qed
  have e: "P @ G @ replicate ?z 0 @ [data ! 1024] = (P @ G) @ c # B" by (simp only: c(1) append_assoc)
  have l: "length (P @ G @ replicate ?z 0) = 1024" using P by (simp add: G_def)
  have "length ((P @ G) @ c # B) = 1025" unfolding e [symmetric] using l by simp
  moreover have "((P @ G @ replicate ?z 0) @ [data ! 1024]) ! 1024 = data ! 1024" by (simp only: nth_append l) simp
  then have "((P @ G) @ c # B) ! 1024 \<noteq> 0x0A" unfolding e [symmetric] using d(2) by simp
  ultimately show ?thesis using s1 c(2) e by blast
qed

lemma grep_loop_prints:
  assumes sg: "searching sb s fname nm"
  shows "length data = 1025 \<Longrightarrow> data ! 1024 \<noteq> 0x0A \<Longrightarrow> take (length P) data = P \<Longrightarrow> 0x0A \<notin> set P \<Longrightarrow>
      \<forall>l \<in> set (text_lines (P @ rest st)). length l < 1024 \<Longrightarrow>
      0 \<notin> set (P @ rest st) \<or> P = [] \<and> 0x0A \<notin> set (rest st) \<Longrightarrow> ok st \<Longrightarrow>
    \<exists>st'. ok st' \<and> rest st' = [] \<and> scr st' = says (matches nm s (text_lines (P @ rest st))) (scr st) \<and>
      grep_loop os sb (of_nat (length s)) fname fd data (int (length P)) st = grep_end os fd st'"
proof (induction "length (rest st)" arbitrary: P data st rule: less_induct)
  case less
  let ?n = "of_nat (length s) :: u32" and ?R = "rest st" and ?m = "1024 - length P"
  let ?G = "take ?m ?R" and ?R' = "drop ?m ?R"
  let ?D = "P @ ?G" and ?cnt = "of_nat (length ?G) :: u32"
  have eq: "P @ ?R = ?D @ ?R'" by simp
  have short: "length xs < 1024" if "0x0A \<notin> set xs" "P @ ?R = xs @ ys" for xs ys
    using text_lines_first [OF that(1), of ys] less.prems(5) unfolding that(2) by fastforce
  have P: "length P < 1024" by (rule short [OF less.prems(4) refl])
  obtain got s1 c B where r: "os_read os fd (drop (length P) data) (of_nat ?m) st = Some (?cnt, got, s1)"
    "ok s1" "scr s1 = scr st" "rest s1 = ?R'" "P @ got = ?D @ c # B" "c \<noteq> 0x0A" "length (?D @ c # B) = 1025" "(?D @ c # B) ! 1024 \<noteq> 0x0A"
    using refill [OF less.prems(1-3) P less.prems(7)] by blast
  have G: "length ?G \<le> 1025" by simp
  note cw = count_word [OF G]
  have si: "sint ?cnt = int (length ?G)" using G unfolding sint_u32 cw(1) by simp
  have k0: "kept ?cnt (length ([] :: u8 list)) ?D \<longrightarrow> 0 \<notin> set (last (text_lines ?D))"
  proof
    assume "kept ?cnt (length ([] :: u8 list)) ?D"
    then have "0x0A \<in> set ?D" by (simp add: kept_def)
    then have "0 \<notin> set (P @ ?R)" using less.prems(6) by (auto dest: in_set_takeD)
    moreover have "set (last (text_lines ?D)) \<subseteq> set ?D" using text_lines_sets [of "last (text_lines ?D)" ?D] by simp
    ultimately show "0 \<notin> set (last (text_lines ?D))" by (auto dest: in_set_takeD)
  qed
  obtain data' used st' where l: "grep_lines os sb ?n fname ?cnt (?D @ c # B) (int (length ?D)) 0 s1 = Some (data', int used, st')"
    "length data' = 1025" "data' ! 1024 \<noteq> 0x0A" "ok st'" "rest st' = ?R'"
    "if kept ?cnt 0 ?D then used = length (last (text_lines ?D)) \<and> take used data' = last (text_lines ?D) \<and>
       scr st' = says (matches nm s (butlast (text_lines ?D))) (scr st)
     else used = 0 \<and> scr st' = says (matches nm s (text_lines ?D)) (scr st)"
    using lines_print [OF sg, of "[]" ?D c B, OF _ r(6) _ _ r(2) k0] r(7,8) unfolding r(3,4) by auto
  have step: "grep_loop os sb ?n fname fd data (int (length P)) st =
      (if ?R = [] then grep_end os fd st' else grep_loop os sb ?n fname fd data' (int used) st')"
  proof -
    have "int (length P) + int (length ?G) = int (length ?D)" by simp
    moreover have "(?cnt = 0) = (?R = [])" unfolding cw(2) using P by (auto simp: min_def)
    moreover have "nat (int (length P)) = length P" "\<not> (int (length P) < 0 \<or> 1024 < int (length P))" using P by simp_all
    ultimately show ?thesis
      using r(1) cw(3) l(1) less.prems(3) unfolding r(5) [symmetric]
      by (subst grep_loop.simps) (simp only: BUFSIZE_def of_nat_numeral if_False Option.bind.simps prod.case Let_def si grep_end_def if_cancel split: if_split)
  qed
  show ?case
  proof (cases "?R = []")
    case True
    then have "\<not> kept ?cnt 0 ?D" by (simp add: kept_def)
    then show ?thesis using step l(4-6) True by (intro exI [of _ st']) simp
  next
    case False
    then have sm: "length (rest st') < length ?R" using P unfolding l(5) length_drop by (intro diff_less) auto
    show ?thesis
    proof (cases "kept ?cnt 0 ?D")
      case True
      let ?P = "last (text_lines ?D)"
      have u: "used = length ?P" "take (length ?P) data' = ?P" "scr st' = says (matches nm s (butlast (text_lines ?D))) (scr st)"
        using l(6) unfolding if_P [OF True] by auto
      have tl: "text_lines (P @ ?R) = butlast (text_lines ?D) @ text_lines (?P @ ?R')" unfolding eq by (rule text_lines_append)
      have ps: "set ?P \<subseteq> set ?D" "0x0A \<notin> set ?P" using text_lines_sets [of ?P ?D] by simp_all
      have ls: "\<forall>l \<in> set (text_lines (?P @ rest st')). length l < 1024" using less.prems(5) unfolding tl l(5) by simp
      have "0x0A \<in> set ?D" using True by (simp add: kept_def)
      then have "0 \<notin> set (P @ ?R)" using less.prems(6) by (auto dest: in_set_takeD)
      then have z: "0 \<notin> set (?P @ rest st') \<or> ?P = [] \<and> 0x0A \<notin> set (rest st')"
        using ps(1) unfolding l(5) by (auto dest: in_set_takeD in_set_dropD)
      obtain t where t: "ok t" "rest t = []" "scr t = says (matches nm s (text_lines (?P @ rest st'))) (scr st')"
        "grep_loop os sb ?n fname fd data' (int (length ?P)) st' = grep_end os fd t"
        using less.hyps [OF sm l(2,3) u(2) ps(2) ls z l(4)] by blast
      show ?thesis using step False t u(1,3) tl unfolding l(5) by (intro exI [of _ t]) simp
    next
      case nk: False
      have u: "used = 0" "scr st' = says (matches nm s (text_lines ?D)) (scr st)" using l(6) nk by simp_all
      have cnt: "?cnt \<noteq> 0" unfolding cw(2) using False P by simp
      have m: "matches nm s (text_lines (P @ ?R)) = matches nm s (text_lines ?D) @ matches nm s (text_lines ?R') \<and>
          (\<forall>l \<in> set (text_lines ?R'). length l < 1024)"
      proof (cases "last (text_lines ?D) = []")
        case True
        have b: "text_lines ?D = butlast (text_lines ?D) @ [[]]" using append_butlast_last_id [of "text_lines ?D"] True by simp
        have tl: "text_lines (P @ ?R) = butlast (text_lines ?D) @ text_lines ?R'"
          unfolding eq text_lines_append [of ?D ?R'] True by simp
        have "matches nm s (text_lines ?D) = matches nm s (butlast (text_lines ?D))" by (subst b) simp
        then show ?thesis using less.prems(5) unfolding tl by simp
      next
        case no: False
        then have nl: "0x0A \<notin> set ?D" using nk cnt by (simp add: kept_def)
        have "length ?D < 1024" by (rule short [OF nl eq])
        then have "?R' = []" by simp
        then have "P @ ?R = ?D" using eq by simp
        then show ?thesis using \<open>?R' = []\<close> by simp
      qed
      have z: "0 \<notin> set ([] @ rest st') \<or> [] = [] \<and> 0x0A \<notin> set (rest st')"
        using less.prems(6) unfolding l(5) by (auto dest: in_set_dropD)
      obtain t where t: "ok t" "rest t = []" "scr t = says (matches nm s (text_lines ([] @ rest st'))) (scr st')"
        "grep_loop os sb ?n fname fd data' (int (length ([] :: u8 list))) st' = grep_end os fd t"
        using less.hyps [OF sm l(2,3), of "[]", OF _ _ _ z l(4)] m unfolding l(5) by auto
      show ?thesis using step False t u m unfolding l(5) by (intro exI [of _ t]) simp
    qed
  qed
qed

end

end
