(* ===== verification/User_Kernel.thy ===== *)
theory User_Kernel
  imports Users Grep_Spec Kernel_Run Calls_Spec
begin

text \<open>
  The programs on the kernel: each system call of \<open>User_Lib\<close> as what the wrappers of
  \<^verbatim>\<open>ece391syscall.S\<close> and \<open>int 0x80\<close> make of it, with the buffer in the program's memory, and the
  proof that this system behaves as the programs rely on.
\<close>

section \<open>A call of a program\<close>

text \<open>What is fixed while a program runs: the addresses of the kernel, the devices, the stack frame of
  the call, the values registers hold that no argument is passed in, and the address at which the
  program keeps the object a call is about. A C program keeps its objects at different addresses;
  nothing in the kernel depends on which, so the model puts the object of each call at one.\<close>

record uenv =
  env_L :: klayout
  env_dev :: device
  env_fr :: frame
  env_lit :: u32
  env_regs :: regs
  env_va :: u32

text \<open>The state of the kernel, and for each read of the terminal or the clock to come the interrupts that
  arrive while it waits. A read of a file does not wait, nor does one of the terminal on descriptor 1,
  which is refused.\<close>

type_synonym 's ustate = "'s \<times> ('s \<Rightarrow> 's) list list"

definition env_M :: "uenv \<Rightarrow> layout" where
  "env_M E = layout.truncate (env_L E)"

text \<open>The program stores the object.\<close>

definition user_put :: "uenv \<Rightarrow> u8 list \<Rightarrow> 'a kern_scheme \<Rightarrow> (u32 \<times> 'a kern_scheme) option" where
  "user_put E b s = map_option (\<lambda>pa. (pa, s\<lparr>mem := write_bytes pa b (mem s)\<rparr>))
     (span (env_M E) s True (env_va E) (length b))"

definition user_call ::
    "uenv \<Rightarrow> ('a kern_scheme \<Rightarrow> 'a kern_scheme) list \<Rightarrow> regs \<Rightarrow> 'a kern_scheme \<Rightarrow> (u32 \<times> 'a kern_scheme) option" where
  "user_call E hs r s =
     (case syscall_handler (env_L E) (env_dev E) (env_fr E) (env_lit E) hs r s of
        Some (Return v s') \<Rightarrow> Some (v, s') | _ \<Rightarrow> None)"

text \<open>\<open>DO_CALL\<close>: the number and up to three arguments.\<close>

definition DO_CALL :: "u32 \<Rightarrow> u32 \<Rightarrow> u32 \<Rightarrow> u32 \<Rightarrow> regs" where
  "DO_CALL number a b c = \<lparr>eax = number, ebx = a, ecx = b, edx = c\<rparr>"

definition waits :: "'a kern_scheme \<Rightarrow> u32 \<Rightarrow> bool" where
  "waits s fd = (case fd_driver s fd of Some d \<Rightarrow> d = Terminal_fops \<and> fd = 0 \<or> d = Rtc_fops | None \<Rightarrow> False)"

text \<open>A read that would write past the object has no result here.\<close>

definition user_read :: "uenv \<Rightarrow> u32 \<Rightarrow> u8 list \<Rightarrow> u32 \<Rightarrow> 'a kern_scheme ustate \<Rightarrow> (u32 \<times> u8 list \<times> 'a kern_scheme ustate) option" where
  "user_read E fd b n = (\<lambda>(s, hss). do {
     (pa, s) \<leftarrow> user_put E b s;
     if fd_extent (read_extent fd n s) s fd (env_va E) \<le> length b then do {
       let (hs, hss') = (if waits s fd then (case hss of [] \<Rightarrow> ([], []) | hs # hss' \<Rightarrow> (hs, hss')) else ([], hss));
       (v, s) \<leftarrow> user_call E hs (DO_CALL 3 fd (env_va E) n) s;
       Some (v, bytes_at (mem s) pa (length b), (s, hss')) }
     else None })"

definition user_write :: "uenv \<Rightarrow> u32 \<Rightarrow> u8 list \<Rightarrow> u32 \<Rightarrow> 'a kern_scheme ustate \<Rightarrow> (u32 \<times> 'a kern_scheme ustate) option" where
  "user_write E fd b n = (\<lambda>(s, hss). do {
     (pa, s) \<leftarrow> user_put E b s;
     (v, s) \<leftarrow> user_call E [] (DO_CALL 4 fd (env_va E) n) s;
     Some (v, (s, hss)) })"

definition user_open :: "uenv \<Rightarrow> u8 list \<Rightarrow> 'a kern_scheme ustate \<Rightarrow> (u32 \<times> 'a kern_scheme ustate) option" where
  "user_open E b = (\<lambda>(s, hss). do {
     (pa, s) \<leftarrow> user_put E b s;
     (v, s) \<leftarrow> user_call E [] (DO_CALL 5 (env_va E) 0 0) s;
     Some (v, (s, hss)) })"

definition user_close :: "uenv \<Rightarrow> u32 \<Rightarrow> 'a kern_scheme ustate \<Rightarrow> (u32 \<times> 'a kern_scheme ustate) option" where
  "user_close E fd = (\<lambda>(s, hss). do {
     (v, s) \<leftarrow> user_call E [] (DO_CALL 6 fd 0 0) s;
     Some (v, (s, hss)) })"

definition user_getargs :: "uenv \<Rightarrow> u8 list \<Rightarrow> u32 \<Rightarrow> 'a kern_scheme ustate \<Rightarrow> (u32 \<times> u8 list \<times> 'a kern_scheme ustate) option" where
  "user_getargs E b n = (\<lambda>(s, hss). do {
     (pa, s) \<leftarrow> user_put E b s;
     k \<leftarrow> getargs_extent (env_M E) s (env_va E) n;
     if k \<le> length b then do {
       (v, s) \<leftarrow> user_call E [] (DO_CALL 7 (env_va E) n 0) s;
       Some (v, bytes_at (mem s) pa (length b), (s, hss)) }
     else None })"

definition user_vidmap :: "uenv \<Rightarrow> u32 \<Rightarrow> 'a kern_scheme ustate \<Rightarrow> (u32 \<times> 'a kern_scheme ustate) option" where
  "user_vidmap E screen_start = (\<lambda>(s, hss). do {
     (v, s) \<leftarrow> user_call E [] (DO_CALL 8 screen_start 0 0) s;
     Some (v, (s, hss)) })"

text \<open>\<open>call_sys\<close> of \<^verbatim>\<open>ece391syserr.c\<close> sets only the number.\<close>

definition user_call_sys :: "uenv \<Rightarrow> u32 \<Rightarrow> 'a kern_scheme ustate \<Rightarrow> (u32 \<times> 'a kern_scheme ustate) option" where
  "user_call_sys E num = (\<lambda>(s, hss). do {
     (v, s) \<leftarrow> user_call E [] ((env_regs E)\<lparr>eax := num\<rparr>) s;
     Some (v, (s, hss)) })"

text \<open>\<open>execute\<close> comes back when the program it starts halts. \<open>prog\<close> is what that program does from its
  entry point on: its exit status and the state it leaves, in which \<open>_start\<close> calls \<open>halt\<close>.\<close>

definition user_execute ::
    "uenv \<Rightarrow> (u32 \<Rightarrow> 'a kern_scheme ustate \<Rightarrow> (u32 \<times> 'a kern_scheme ustate) option) \<Rightarrow>
      u8 list \<Rightarrow> 'a kern_scheme ustate \<Rightarrow> (u32 \<times> 'a kern_scheme ustate) option" where
  "user_execute E prog b = (\<lambda>(s, hss). do {
     (pa, s) \<leftarrow> user_put E b s;
     out \<leftarrow> syscall_handler (env_L E) (env_dev E) (env_fr E) (env_lit E) [] (DO_CALL 2 (env_va E) 0 0) s;
     (case out of
        Return v s \<Rightarrow> Some (v, (s, hss))
      | Enter_user eip s \<Rightarrow> do {
          (status, (s, hss)) \<leftarrow> prog eip (iret (switch_to_user 0 eip) s, hss);
          out \<leftarrow> syscall_handler (env_L E) (env_dev E) (env_fr E) (env_lit E) [] (DO_CALL 1 status 0 0) s;
          (case out of
             Resume sp bp s \<Rightarrow> let (v, s) = execute_resumed s in Some (v, (sti s, hss))
           | _ \<Rightarrow> None) }
      | Resume sp bp s \<Rightarrow> None) })"

definition kernel_os ::
    "uenv \<Rightarrow> (u32 \<Rightarrow> 'a kern_scheme ustate \<Rightarrow> (u32 \<times> 'a kern_scheme ustate) option) \<Rightarrow> 'a kern_scheme ustate os" where
  "kernel_os E prog = \<lparr>os_execute = user_execute E prog, os_read = user_read E, os_write = user_write E,
     os_open = user_open E, os_close = user_close E, os_getargs = user_getargs E,
     os_vidmap = user_vidmap E, os_call = user_call_sys E\<rparr>"

section \<open>The program's object\<close>

text \<open>A program runs: it is process \<open>p\<close> in the page of slot \<open>q\<close>, its object lies in its 4 MB, it writes to
  the terminal on descriptor 1, and the cursor is on the screen.\<close>

definition user_ok :: "uenv \<Rightarrow> mem \<Rightarrow> u32 \<Rightarrow> nat \<Rightarrow> nat \<Rightarrow> nat \<Rightarrow> 'a kern_scheme \<Rightarrow> bool" where
  "user_ok E m0 fsa ext p q s \<longleftrightarrow>
     home_ok (env_L E) fsa ext \<and> image_ok m0 fsa ext \<and> kinv (env_L E) m0 fsa ext s \<and> cur_pcb s = Some p \<and> q < 6 \<and>
     (\<exists>v. paging_view (env_M E) s (Some q) v) \<and>
     0x8000000 \<le> unat (env_va E) \<and> unat (env_va E) + 1025 \<le> 0x8400000 \<and>
     (let d = fd_array (pcbs s p) ! 1 in in_use d = 1 \<and> fops d = Some Terminal_fops) \<and> on_screen s"

definition home_pa :: "uenv \<Rightarrow> nat \<Rightarrow> u32" where
  "home_pa E q = of_nat (0x800000 + 0x400000 * q + (unat (env_va E) - 0x8000000))"

lemma user_okD:
  assumes "user_ok E m0 fsa ext p q s"
  shows "home_ok (env_L E) fsa ext" "image_ok m0 fsa ext" "kinv (env_L E) m0 fsa ext s" "cur_pcb s = Some p" "q < 6"
    "\<exists>v. paging_view (env_M E) s (Some q) v" "layout_ok (env_M E)"
    "in_use (fd_array (pcbs s p) ! 1) = 1" "fops (fd_array (pcbs s p) ! 1) = Some Terminal_fops" "on_screen s"
    "kern_shape s" "fds_ok s" "start_fs s = fsa"
  using assms kinvD(1,2,6) [of "env_L E" m0 fsa ext s]
  by (simp_all add: user_ok_def Let_def home_ok_def env_M_def)

lemma unat_home:
  assumes "user_ok E m0 fsa ext p q s"
  shows "unat (home_pa E q) = 0x800000 + 0x400000 * q + (unat (env_va E) - 0x8000000)"
    and "unat (home_pa E q) + 1025 \<le> 0x2000000" and "0x800000 \<le> unat (home_pa E q)"
proof -
  have v: "unat (env_va E) + 1025 \<le> 0x8400000" "0x8000000 \<le> unat (env_va E)" "q < 6" using assms by (simp_all add: user_ok_def)
  then show u: "unat (home_pa E q) = 0x800000 + 0x400000 * q + (unat (env_va E) - 0x8000000)"
    unfolding home_pa_def by (intro unat_of_nat32) simp
  show "unat (home_pa E q) + 1025 \<le> 0x2000000" "0x800000 \<le> unat (home_pa E q)" using u v by simp_all
qed

lemma home_at:
  assumes "user_ok E m0 fsa ext p q s" and "i < 1025"
  shows "unat (home_pa E q + of_nat i) = unat (home_pa E q) + i"
proof -
  have "unat (home_pa E q) + i < 4294967296" using unat_home(2) [OF assms(1)] assms(2) by simp
  then show ?thesis using assms(2) by (simp add: unat_plus_if_size word_size)
qed

lemma home_block:
  assumes u: "user_ok E m0 fsa ext p q s"
  shows "block_ok (env_L E) (home_pa E q) 1025" and "i < 1025 \<Longrightarrow> \<not> in_screen (home_pa E q + of_nat i)"
    and "home_pa E q \<noteq> 0" and "env_va E \<noteq> 0"
proof -
  note h = unat_home(2,3) [OF u]
  have "in_region 0x7F4000 0x180C000 (home_pa E q + of_nat i)" if "i < 1025" for i
    using h that home_at [OF u that] by (simp add: in_region_nowrap)
  then show "block_ok (env_L E) (home_pa E q) 1025" by (simp add: block_ok_def scratch_def)
  show "\<not> in_screen (home_pa E q + of_nat i)" if "i < 1025"
    using h home_at [OF u that] by (simp add: in_screen_def in_region_nowrap VIDEO_def)
  show "home_pa E q \<noteq> 0" using h by auto
  show "env_va E \<noteq> 0" using u by (auto simp: user_ok_def)
qed

lemma home_span:
  assumes v: "paging_view (env_M E) s (Some q) v" and u: "user_ok E m0 fsa ext p q s'" and n: "n \<le> 1025"
  shows "span (env_M E) s usr (env_va E) n = Some (if n = 0 then env_va E else home_pa E q)"
proof (cases "n = 0")
  case False
  have va: "0x8000000 \<le> unat (env_va E)" "unat (env_va E) + 1025 \<le> 0x8400000" using u by (simp_all add: user_ok_def)
  have t: "translate (env_M E) s usr (env_va E + of_nat i) = Some (home_pa E q + of_nat i)" if "i < 1025" for i
    using image_contiguous [OF v user_okD(7) [OF u] va that] by (simp add: home_pa_def)
  have t0: "translate (env_M E) s usr (env_va E) = Some (home_pa E q)" using t [of 0] by simp
  have "list_all (\<lambda>i. translate (env_M E) s usr (env_va E + of_nat i) = Some (home_pa E q + of_nat i)) [0..<n]"
    using t n by (simp add: list_all_iff)
  then show ?thesis using t0 False by (simp add: span_def)
qed (simp add: span_def)

text \<open>Whatever leaves the descriptor of the terminal, the pages and the cursor's range alone keeps all
  this.\<close>

lemma user_ok_step:
  assumes u: "user_ok E m0 fsa ext p q s" and "kinv (env_L E) m0 fsa ext t" and "quiet (env_L E) s t"
    and "fd_array (pcbs t p) ! 1 = fd_array (pcbs s p) ! 1" and "on_screen t"
  shows "user_ok E m0 fsa ext p q t"
  using u assms(2,4,5) quiet_current [OF assms(3)] quiet_view [OF assms(3)] by (simp add: user_ok_def)

text \<open>What a call leaves alone: processes, terminals, and all of the control blocks but the descriptors of
  the caller.\<close>

definition same_procs :: "nat \<Rightarrow> 'a kern_scheme \<Rightarrow> 'a kern_scheme \<Rightarrow> bool" where
  "same_procs p s t \<longleftrightarrow> processes t = processes s \<and> current_terminal t = current_terminal s \<and>
     map running_pcb (terms t) = map running_pcb (terms s) \<and> map been_here (terms t) = map been_here (terms s) \<and>
     (\<forall>r. r \<noteq> p \<longrightarrow> pcbs t r = pcbs s r) \<and> (\<exists>a. pcbs t p = (pcbs s p)\<lparr>fd_array := a\<rparr>)"

text \<open>The keyboard between two lines: none is waiting to be read and control is not held.\<close>

definition kb_calm :: "'a kern_scheme \<Rightarrow> bool" where
  "kb_calm s \<longleftrightarrow> 0 \<le> old_length_typed s \<and> old_length_typed s \<le> 128 \<and> ctrl_pressed s = 0 \<and> can_read s \<noteq> 1"

definition keys_kept :: "'a kern_scheme \<Rightarrow> 'a kern_scheme \<Rightarrow> bool" where
  "keys_kept s t \<longleftrightarrow> (kb_calm s \<longrightarrow> kb_calm t) \<and> shift_flag t = shift_flag s \<and> caps_flag t = caps_flag s"

definition alone :: "nat \<Rightarrow> 'a kern_scheme \<Rightarrow> 'a kern_scheme \<Rightarrow> bool" where
  "alone p s t \<longleftrightarrow> same_procs p s t \<and> keys_kept s t"

lemma same_procs_refl [simp]: "same_procs p s s"
  by (auto simp: same_procs_def intro: exI [of _ "fd_array (pcbs s p)"])

lemma same_procs_trans: "same_procs p s t \<Longrightarrow> same_procs p t u \<Longrightarrow> same_procs p s u"
  by (auto simp: same_procs_def)

lemma same_keys_kept: "same_keys s t \<Longrightarrow> keys_kept s t"
  by (simp add: same_keys_def keys_kept_def kb_calm_def)

lemma keys_kept_trans: "keys_kept s t \<Longrightarrow> keys_kept t u \<Longrightarrow> keys_kept s u"
  by (simp add: keys_kept_def)

lemma alone_refl [simp]: "alone p s s"
  by (simp add: alone_def keys_kept_def)

lemma alone_trans: "alone p s t \<Longrightarrow> alone p t u \<Longrightarrow> alone p s u"
  by (auto simp: alone_def intro: same_procs_trans keys_kept_trans)

lemma same_procs_quiet: "quiet L s t \<Longrightarrow> pcbs t = pcbs s \<Longrightarrow> same_procs p s t"
  by (auto simp: same_procs_def quiet_def intro: exI [of _ "fd_array (pcbs s p)"])

lemma alone_quiet:
  "quiet L s t \<Longrightarrow> pcbs t = (pcbs s)(p := (pcbs s p)\<lparr>fd_array := a\<rparr>) \<Longrightarrow> same_keys s t \<Longrightarrow> alone p s t"
  "quiet L s t \<Longrightarrow> pcbs t = pcbs s \<Longrightarrow> same_keys s t \<Longrightarrow> alone p s t"
  by (auto simp: alone_def same_procs_def quiet_def same_keys_kept intro: exI [of _ "fd_array (pcbs s p)"])

lemma same_tty:
  assumes "\<And>x. in_screen x \<Longrightarrow> mem t x = mem s x" and "cursor_x t = cursor_x s" "cursor_y t = cursor_y s"
  shows "tty_of t = tty_of s"
proof -
  have "in_screen (scr_at (80 * r + c))" if "r < 25" "c < 80" for r c
  proof -
    have "80 * r + c < 2000" using that by simp
    then show ?thesis by (simp add: in_screen_def in_region_def)
  qed
  then show ?thesis using assms by (auto simp: tty_of_def screen_def fun_eq_iff)
qed

lemma home_write:
  assumes u: "user_ok E m0 fsa ext p q s" and b: "length b \<le> 1025"
  defines "t \<equiv> s\<lparr>mem := write_bytes (home_pa E q) b (mem s)\<rparr>"
  shows "user_ok E m0 fsa ext p q t" and "tty_of t = tty_of s" and "quiet (env_L E) s t" and "alone p s t"
proof -
  have k: "kinv (env_L E) m0 fsa ext t" unfolding t_def by (rule kinv_write [OF user_okD(3) [OF u] home_block(1) [OF u] b])
  show q: "quiet (env_L E) s t" using block_write [OF home_block(1) [OF u] b] by (simp add: t_def quiet_def)
  show "alone p s t" by (rule alone_quiet(2) [OF q]) (simp_all add: t_def same_keys_def)
  show "user_ok E m0 fsa ext p q t"
    by (rule user_ok_step [OF u k q]) (use user_okD(10) [OF u] in \<open>simp_all add: t_def on_screen_def\<close>)
  have "mem t x = mem s x" if x: "in_screen x" for x
  proof -
    have "\<not> in_region (home_pa E q) (length b) x"
    proof
      assume "in_region (home_pa E q) (length b) x"
      then have "unat (x - home_pa E q) < 1025" using b by (simp add: in_region_def)
      from home_block(2) [OF u this] show False using x by simp
    qed
    then show ?thesis by (simp add: t_def write_bytes_def)
  qed
  then show "tty_of t = tty_of s" by (rule same_tty) (simp_all add: t_def)
qed

lemma user_put_eq:
  assumes u: "user_ok E m0 fsa ext p q s" and b: "length b \<le> 1025" "b \<noteq> []"
  shows "user_put E b s = Some (home_pa E q, s\<lparr>mem := write_bytes (home_pa E q) b (mem s)\<rparr>)"
proof -
  obtain v where v: "paging_view (env_M E) s (Some q) v" using user_okD(6) [OF u] by blast
  show ?thesis using home_span [OF v u b(1), of True] b(2) by (simp add: user_put_def)
qed

lemma flag_data [simp]:
  "pcbs (cli s) = pcbs s" "start_fs (cli s) = start_fs s" "directoryIndex (cli s) = directoryIndex s"
  "pcbs (sti s) = pcbs s" "start_fs (sti s) = start_fs s" "directoryIndex (sti s) = directoryIndex s"
  "on_screen (cli s) = on_screen s" "on_screen (sti s) = on_screen s" "quiet L s (cli s)" "quiet L s (sti s)"
  by (simp_all add: cli_def sti_def on_screen_def quiet_def)

lemma alone_flag [simp]: "alone p s (cli t) = alone p s t" "alone p s (sti t) = alone p s t"
    "alone p (cli s) t = alone p s t" "alone p (sti s) t = alone p s t"
  by (simp_all add: alone_def same_procs_def keys_kept_def kb_calm_def cli_def sti_def)

lemma same_procs_flag [simp]: "same_procs p s (cli t) = same_procs p s t" "same_procs p s (sti t) = same_procs p s t"
  by (simp_all add: same_procs_def cli_def sti_def)

lemma user_ok_flag:
  assumes u: "user_ok E m0 fsa ext p q s"
  shows "user_ok E m0 fsa ext p q (cli s)" and "user_ok E m0 fsa ext p q (sti s)"
  by (rule user_ok_step [OF u]; use user_okD(3,10) [OF u] in simp)+

lemma tty_of_flag [simp]: "tty_of (cli s) = tty_of s" "tty_of (sti s) = tty_of s"
  by (simp_all add: tty_of_def cli_def sti_def)

section \<open>Writing to the terminal\<close>

lemma user_fd_driver:
  assumes u: "user_ok E m0 fsa ext p q s" and fd: "unat fd < 8" and d: "d = fd_array (pcbs s p) ! unat fd"
    and i: "in_use d = 1" "fops d = Some drv"
  shows "fd_driver s fd = Some drv" and "cur_fd s (unat fd) = Some d"
proof -
  show c: "cur_fd s (unat fd) = Some d" using cur_fd_shape [OF user_okD(11,4) [OF u] fd] d by simp
  show "fd_driver s fd = Some drv" using c fd i by (simp add: fd_driver_def word_less_nat_alt)
qed

text \<open>A write to the terminal empties the line typed so far and leaves the keyboard alone otherwise.\<close>

definition flushed :: "'a kern_scheme \<Rightarrow> 'a kern_scheme \<Rightarrow> bool" where
  "flushed s t \<longleftrightarrow> length_typed t = 0 \<and> old_length_typed t = old_length_typed s \<and> ctrl_pressed t = ctrl_pressed s \<and>
     can_read t = can_read s \<and> shift_flag t = shift_flag s \<and> caps_flag t = caps_flag s"

lemma call_write:
  assumes u: "user_ok E m0 fsa ext p q s" and n: "unat n \<le> 1025"
  shows "\<exists>t. user_call E [] (DO_CALL 4 1 (env_va E) n) s = Some (0, t) \<and> user_ok E m0 fsa ext p q t \<and>
    tty_of t = says (bytes_at (mem s) (home_pa E q) (unat n)) (tty_of s) \<and>
    alone p s t \<and> pcbs t = pcbs s \<and> start_fs t = start_fs s \<and> directoryIndex t = directoryIndex s \<and> flushed s t"
proof -
  let ?c = "cli s" and ?va = "env_va E"
  have uc: "user_ok E m0 fsa ext p q ?c" by (rule user_ok_flag(1) [OF u])
  define buf where "buf = (if unat n = 0 then ?va else home_pa E q)"
  have b0: "buf \<noteq> 0" using home_block(3,4) [OF u] by (simp add: buf_def)
  obtain v where v: "paging_view (env_M E) ?c (Some q) v" using user_okD(6) [OF uc] by blast
  note d = user_fd_driver [OF uc, of 1, OF _ refl, simplified, OF user_okD(8,9) [OF uc, simplified]]
  have ext: "fd_extent (write_extent 1 n) ?c 1 ?va = unat n"
    using d(1) home_block(4) [OF u] by (simp add: fd_extent_def write_extent_def)
  have sp: "span (env_M E) ?c False ?va (unat n) = Some buf" using home_span [OF v u n, of False] by (simp add: buf_def)
  have out: "\<forall>i < unat n. \<not> in_screen (buf + of_nat i)" using home_block(2) [OF u] n by (simp add: buf_def)
  have byt: "bytes_at (mem s) buf (unat n) = bytes_at (mem s) (home_pa E q) (unat n)"
    by (simp add: buf_def bytes_at_def)
  define t0 where "t0 = flush (fold emit (filter printable (bytes_at (mem ?c) buf (unat n))) ?c)"
  note w = terminal_write_eq [OF user_okD(11,10) [OF uc] out, folded t0_def]
  define t where "t = t0\<lparr>terms := (terms ?c)[unat (current_terminal ?c) :=
      (terms ?c ! unat (current_terminal ?c))\<lparr>term_cursor_x := cursor_x t0, term_cursor_y := cursor_y t0\<rparr>]\<rparr>"
  have tw: "terminal_write 1 buf n ?c = Some (0, t)" using w(1) by (simp add: t_def)
  have "sys_write (env_dev E) 1 buf n ?c = Some (0, t)"
    using b0 d(2) tw user_okD(8,9) [OF uc] by (simp add: sys_write_def driver_write_def word_less_nat_alt)
  then have call: "user_call E [] (DO_CALL 4 1 ?va n) s = Some (0, sti t)"
    using ext sp
    by (simp add: user_call_def syscall_handler_def syscalls_def DO_CALL_def Let_def env_M_def MIN_SYSTEM_CALLS_def MAX_SYSTEM_CALLS_def)
  have more: "console.more (fold emit (filter printable (bytes_at (mem ?c) buf (unat n))) ?c) = console.more ?c" by simp
  note more' = kern_more_console [OF more] and pages = console_pages [OF more]
  have keep: "pcbs t = pcbs s" "start_fs t = start_fs s" "directoryIndex t = directoryIndex s"
    "current_terminal t = current_terminal s" "processes t = processes s"
    using more' by (simp_all add: t_def t0_def flush_def cli_def)
  have fl: "flushed s (sti t)"
    using more' by (simp add: flushed_def t_def t0_def flush_def cli_def sti_def)
  have pg: "page_directory_set t = page_directory_set s" "page_table t = page_table s" "v_m_page_table t = v_m_page_table s"
    "cr0 t = cr0 s" "cr3 t = cr3 s" "cr4 t = cr4 s"
    using pages by (simp_all add: t_def t0_def flush_def cli_def)
  have ts: "terms t = (terms s)[unat (current_terminal s) := (terms s ! unat (current_terminal s))\<lparr>term_cursor_x := cursor_x t0, term_cursor_y := cursor_y t0\<rparr>]"
    by (simp add: t_def cli_def)
  have m: "\<forall>x. \<not> in_screen x \<longrightarrow> mem t x = mem s x" using w(5) by (simp add: t_def)
  have on: "on_screen t" using w(3) by (simp add: t_def on_screen_def)
  have sv: "in_screen x \<Longrightarrow> in_video x" for x by (auto simp: in_screen_def in_video_def in_region_def)
  have "write_fits buf (unat n) ?c"
    unfolding write_fits_def Let_def
  proof (intro allI impI)
    fix k assume "k \<le> unat n"
    then have "\<forall>i < k. \<not> in_screen (buf + of_nat i)" using out by simp
    from write_loop [OF user_okD(10) [OF uc] this]
    show "80 * cursor_y (for_loop 0 k (\<lambda>i s. write_char (mem s (buf + of_nat i)) s) ?c) +
        cursor_x (for_loop 0 k (\<lambda>i s. write_char (mem s (buf + of_nat i)) s) ?c) < 8192"
      by (auto simp: on_screen_def)
  qed
  then have k: "kinv (env_L E) m0 fsa ext t" by (intro terminal_write_kinv [OF user_okD(3) [OF uc] _ tw]) simp
  have q: "quiet (env_L E) s t"
    using keep pg m sv by (auto simp: quiet_def scratch_def ts map_update_same)
  have "user_ok E m0 fsa ext p q t" by (rule user_ok_step [OF u k q _ on]) (simp add: keep)
  moreover have "tty_of t = says (bytes_at (mem s) (home_pa E q) (unat n)) (tty_of s)"
    using w(2) by (simp add: t_def says_def byt tty_of_def)
  moreover have "alone p s t"
    using same_procs_quiet [OF q keep(1)] fl by (simp add: alone_def keys_kept_def kb_calm_def flushed_def sti_def)
  ultimately show ?thesis using call keep(1-3) fl user_ok_flag(2) [of E m0 fsa ext p q t] by (intro exI [of _ "sti t"]) simp
qed

section \<open>Reading a file\<close>

text \<open>The file behind a descriptor, and what of it has not been read: the bytes the boot loader put there.\<close>

definition user_file_at :: "nat \<Rightarrow> u32 \<Rightarrow> 'a kern_scheme \<Rightarrow> bool" where
  "user_file_at p fd s \<longleftrightarrow> 2 \<le> unat fd \<and> unat fd < 8 \<and>
     (let d = fd_array (pcbs s p) ! unat fd in in_use d = 1 \<and> fops d = Some File_fops)"

definition user_rest :: "mem \<Rightarrow> u32 \<Rightarrow> nat \<Rightarrow> u32 \<Rightarrow> 'a kern_scheme \<Rightarrow> u8 list" where
  "user_rest m0 fsa p fd s =
     (let d = fd_array (pcbs s p) ! unat fd in drop (unat (file_pos d)) (contents m0 fsa (info d)))"

lemma call_read_file:
  fixes s :: "'a kern_scheme"
  assumes u: "user_ok E m0 fsa ext p q s" and f: "user_file_at p fd s" and n: "unat n \<le> 1025" "n \<noteq> 0"
  defines "got \<equiv> take (unat n) (user_rest m0 fsa p fd s)"
  shows "\<exists>t. user_call E hs (DO_CALL 3 fd (env_va E) n) s = Some (of_nat (length got), t) \<and>
    user_ok E m0 fsa ext p q t \<and> tty_of t = tty_of s \<and> alone p s t \<and> user_file_at p fd t \<and>
    user_rest m0 fsa p fd t = drop (unat n) (user_rest m0 fsa p fd s) \<and>
    mem t = write_bytes (home_pa E q) (got @ replicate (unat n - length got) 0) (mem s) \<and>
    fd_extent (read_extent fd n s) s fd (env_va E) = unat n"
proof -
  let ?c = "cli s" and ?va = "env_va E" and ?pa = "home_pa E q"
  have uc: "user_ok E m0 fsa ext p q ?c" by (rule user_ok_flag(1) [OF u])
  note k = user_okD(3) [OF uc] and h = user_okD(1) [OF u]
  obtain v where v: "paging_view (env_M E) ?c (Some q) v" using user_okD(6) [OF uc] by blast
  define d where "d = fd_array (pcbs s p) ! unat fd"
  have fd: "2 \<le> unat fd" "unat fd < 8" and d: "in_use d = 1" "fops d = Some File_fops"
    using f by (simp_all add: user_file_at_def Let_def d_def)
  note dr = user_fd_driver [OF uc fd(2) _ d, unfolded d_def, simplified]
    and drs = user_fd_driver [OF u fd(2) d_def d]
  have "file_ok m0 fsa ext d" using kinvD(5) [OF k] fd(2) by (simp add: files_ok_def d_def)
  then have wf: "wf_file m0 fsa ext (info d)" "unat (file_pos d) \<le> file_len m0 fsa (info d)"
    using d by (simp_all add: file_ok_def)
  have eq: "image_eq fsa ext m0 (mem ?c)" by (rule image_kept [OF h]) (use kinvD(7) [OF k] in blast)
  note same = image_eq_file [OF wf(1) eq]
  have fs: "start_fs s = fsa" by (rule user_okD(13) [OF u])
  have n31: "unat n < 2147483648" using n by simp
  have b: "block_ok (env_L E) ?pa (unat n)" by (rule block_sub [OF home_block(1) [OF u] n(1)])
  have dis: "disjoint_region (start_fs ?c) ext ?pa (unat n)" using block_apart [OF h b] by (simp add: fs)
  have ext: "fd_extent (read_extent fd n ?c) ?c fd ?va = unat n"
    using dr(1) home_block(4) [OF u] by (simp add: fd_extent_def read_extent_def)
  have ext': "fd_extent (read_extent fd n s) s fd ?va = unat n"
    using drs(1) home_block(4) [OF u] by (simp add: fd_extent_def read_extent_def)
  have "unat n \<noteq> 0" using n(2) by (simp add: unat_eq_0)
  then have sp: "span (env_M E) ?c False ?va (unat n) = Some ?pa" using home_span [OF v u n(1), of False] by simp
  define bs where "bs = got @ replicate (unat n - length got) 0"
  have bl: "length bs = unat n" by (simp add: bs_def got_def)
  have rest: "user_rest m0 fsa p fd s = drop (unat (file_pos d)) (contents m0 fsa (info d))"
    by (simp add: user_rest_def Let_def d_def)
  define d' where "d' = d\<lparr>file_pos := file_pos d + of_nat (length got)\<rparr>"
  let ?t = "(put_fd p (unat fd) d' ?c)\<lparr>mem := write_bytes ?pa bs (mem ?c)\<rparr>"
  have rd: "sys_read hs fd ?pa n ?c = Some (of_nat (length got), ?t)" for hs
  proof (cases "file_len m0 fsa (info d) = 0")
    case False
    have at: "file_at p (unat fd) ext ?c"
      using user_okD(4,11) [OF uc] fd d wf(2) same False by (simp add: file_at_def Let_def fs flip: d_def)
    have "rest_of p (unat fd) ?c = user_rest m0 fsa p fd s" using same(3) by (simp add: rest_of_def rest fs flip: d_def)
    then have "after_read p (unat fd) ?pa n ?c = ?t"
      by (simp add: after_read_def Let_def got_def bs_def d'_def flip: d_def)
    then show ?thesis
      using sys_read_file [OF at home_block(3) [OF u]] file_read_after [OF at home_block(3) [OF u] dis n31]
        \<open>rest_of p (unat fd) ?c = user_rest m0 fsa p fd s\<close> by (simp add: got_def)
  next
    case True
    then have "length (contents m0 fsa (info d)) = 0" by simp
    then have "contents m0 fsa (info d) = []" by (simp only: length_0_conv)
    then have g: "got = []" "d' = d" by (simp_all add: got_def rest d'_def)
    let ?m = "write_bytes ?pa bs (mem ?c)"
    have m: "memset (mem ?c) ?pa 0 n = ?m" by (simp add: memset_fill bs_def g)
    have "image_eq fsa ext (mem ?c) ?m" using image_eq_write [of fsa ext ?pa "unat n" bs "mem ?c"] dis bl by (simp add: fs)
    then have "image_eq fsa ext m0 ?m" using eq by (simp add: image_eq_def)
    from image_eq_file(2) [OF wf(1) this] have z: "file_len ?m fsa (info d) = 0" using True by simp
    have p: "put_fd p (unat fd) d' ?c = ?c" using put_fd_same [of p "unat fd" ?c] by (simp add: g(2) flip: d_def)
    have cf: "cur_fd (?c\<lparr>mem := ?m\<rparr>) (unat fd) = Some d"
      using dr(2) by (simp add: cur_fd_def cur_pcb_def cur_term_def flip: d_def)
    have "file_read (unat fd) ?pa n ?c = Some (0, ?c\<lparr>mem := ?m\<rparr>)"
      using home_block(3) [OF u] m cf read_data_empty [OF z, of "file_pos d" ?pa n] by (simp add: file_read_def Let_def fs)
    moreover have "\<not> fd > 7" using fd(2) by (simp add: word_less_nat_alt)
    ultimately show ?thesis
      using home_block(3) [OF u] dr(2) d p g(1) by (simp add: sys_read_def driver_read_def flip: d_def)
  qed
  have call: "user_call E hs (DO_CALL 3 fd ?va n) s = Some (of_nat (length got), sti ?t)"
    using ext sp rd
    by (simp add: user_call_def syscall_handler_def syscalls_def DO_CALL_def Let_def env_M_def MIN_SYSTEM_CALLS_def MAX_SYSTEM_CALLS_def)
  have w: "user_ok E m0 fsa ext p q (?c\<lparr>mem := write_bytes ?pa bs (mem ?c)\<rparr>)" "tty_of (?c\<lparr>mem := write_bytes ?pa bs (mem ?c)\<rparr>) = tty_of ?c"
    using home_write(1,2) [OF uc, of bs] bl n(1) by simp_all
  have at: "fd_array (pcbs (put_fd p (unat fd) d' ?c) p) ! g = (if g = unat fd then d' else fd_array (pcbs s p) ! g)" for g
    using put_fd_at [OF user_okD(11) [OF uc] fd(2), of p d' g] by simp
  have tt: "tty_of ?t = tty_of s" using w(2) by (simp add: tty_of_def put_fd_def set_pcb_def)
  have small: "unat (file_pos d + of_nat (length got)) = unat (file_pos d) + length got"
  proof -
    have "file_len m0 fsa (info d) \<le> 4096 * 1023" using wf(1) by (simp add: wf_file_def)
    moreover have "unat (file_pos d) + length got \<le> file_len m0 fsa (info d)" using wf(2) by (auto simp: got_def rest)
    ultimately show ?thesis by (simp add: unat_plus_if_size word_size)
  qed
  have rest': "user_rest m0 fsa p fd ?t = drop (unat n) (user_rest m0 fsa p fd s)"
  proof -
    have "drop (length got) (user_rest m0 fsa p fd s) = drop (unat n) (user_rest m0 fsa p fd s)"
      by (cases "unat n \<le> length (user_rest m0 fsa p fd s)") (simp_all add: got_def)
    moreover have "user_rest m0 fsa p fd ?t = drop (unat (file_pos d')) (contents m0 fsa (info d'))"
      by (simp add: user_rest_def Let_def at)
    ultimately show ?thesis using small by (simp add: d'_def rest add.commute)
  qed
  have k1: "kinv (env_L E) m0 fsa ext ?t"
  proof (rule sys_read_kinv [OF k h _ _ rd [of "[]"]])
    show "case fd_driver ?c fd of None \<Rightarrow> True | Some d \<Rightarrow> block_ok (env_L E) ?pa (read_extent fd n ?c d)"
      using dr(1) b by (simp add: read_extent_def)
  qed simp
  have q1: "quiet (env_L E) s ?t"
    using block_write [OF home_block(1) [OF u], of bs] bl n(1) by (simp add: quiet_def put_fd_def set_pcb_def cli_def)
  have al: "alone p s ?t" by (rule alone_quiet(1) [OF q1]) (simp_all add: put_fd_def set_pcb_def cli_def same_keys_def)
  have on: "on_screen ?t" using user_okD(10) [OF u] by (simp add: on_screen_def put_fd_def set_pcb_def cli_def)
  have ut: "user_ok E m0 fsa ext p q ?t" by (rule user_ok_step [OF u k1 q1 _ on]) (use fd(1) in \<open>simp add: at\<close>)
  have "in_use d' = 1" "fops d' = Some File_fops" using d by (simp_all add: d'_def)
  then have ft: "user_file_at p fd ?t" using fd by (simp add: user_file_at_def Let_def at)
  have m: "mem (sti ?t) = write_bytes ?pa bs (mem s)" by simp
  have "user_rest m0 fsa p fd (sti ?t) = user_rest m0 fsa p fd ?t" "user_file_at p fd (sti ?t) = user_file_at p fd ?t"
    by (simp_all add: user_rest_def user_file_at_def)
  then show ?thesis
    using call user_ok_flag(2) [OF ut] tt al ft rest' m ext' by (intro exI [of _ "sti ?t"]) (simp add: bs_def)
qed

section \<open>The kernel is what the programs rely on\<close>

lemma user_write_eq:
  fixes s :: "'a kern_scheme"
  assumes u: "user_ok E m0 fsa ext p q s" and b: "length b \<le> 1025" "b \<noteq> []" and n: "unat n \<le> length b"
  shows "\<exists>t. user_write E 1 b n (s, hss) = Some (0, (t, hss)) \<and> user_ok E m0 fsa ext p q t \<and>
    tty_of t = says (take (unat n) b) (tty_of s) \<and> alone p s t \<and>
    pcbs t = pcbs s \<and> start_fs t = start_fs s \<and> directoryIndex t = directoryIndex s \<and> flushed s t"
proof -
  let ?s1 = "s\<lparr>mem := write_bytes (home_pa E q) b (mem s)\<rparr>"
  note h = home_write [OF u b(1)]
  have "bytes_at (mem ?s1) (home_pa E q) (unat n) = take (unat n) b"
    using b(1) n by (intro nth_equalityI) (simp_all add: nth_bytes_at write_bytes_inside)
  moreover have "flushed ?s1 t = flushed s t" for t :: "'a kern_scheme" by (simp add: flushed_def)
  ultimately show ?thesis
    using call_write [OF h(1), of n] n b(1) h(2) alone_trans [OF h(4)] user_put_eq [OF u b] by (fastforce simp: user_write_def)
qed

lemma user_read_file:
  assumes u: "user_ok E m0 fsa ext p q s" and f: "user_file_at p fd s"
    and b: "length b \<le> 1025" "unat n \<le> length b" "n \<noteq> 0"
  defines "got \<equiv> take (unat n) (user_rest m0 fsa p fd s)"
  shows "\<exists>t. user_read E fd b n (s, hss) =
      Some (of_nat (length got), got @ replicate (unat n - length (user_rest m0 fsa p fd s)) 0 @ drop (unat n) b, (t, hss)) \<and>
    user_ok E m0 fsa ext p q t \<and> user_file_at p fd t \<and> tty_of t = tty_of s \<and> alone p s t \<and>
    user_rest m0 fsa p fd t = drop (unat n) (user_rest m0 fsa p fd s)"
proof -
  let ?s1 = "s\<lparr>mem := write_bytes (home_pa E q) b (mem s)\<rparr>" and ?rest = "user_rest m0 fsa p fd s"
  note h = home_write [OF u b(1)]
  have "unat n \<noteq> 0" using b(3) by (simp add: unat_eq_0)
  then have b0: "b \<noteq> []" using b(2) by auto
  have s1: "user_file_at p fd ?s1" "user_rest m0 fsa p fd ?s1 = ?rest"
    using f by (simp_all add: user_file_at_def user_rest_def)
  let ?bs = "got @ replicate (unat n - length got) 0"
  obtain t where t: "user_call E [] (DO_CALL 3 fd (env_va E) n) ?s1 = Some (of_nat (length got), t)"
    "user_ok E m0 fsa ext p q t" "tty_of t = tty_of ?s1" "user_file_at p fd t"
    "user_rest m0 fsa p fd t = drop (unat n) ?rest"
    "mem t = write_bytes (home_pa E q) ?bs (mem ?s1)" "fd_extent (read_extent fd n ?s1) ?s1 fd (env_va E) = unat n"
    "alone p ?s1 t"
    using call_read_file [OF h(1) s1(1) _ b(3), of _] b(1,2) unfolding s1(2) got_def by fastforce
  have w: "\<not> waits ?s1 fd"
    using user_fd_driver(1) [OF h(1) _ refl, of fd File_fops] s1(1) by (simp add: waits_def user_file_at_def Let_def)
  have l: "length ?bs = unat n" by (simp add: got_def)
  have "unat n - length got = unat n - length ?rest" by (cases "unat n \<le> length ?rest") (simp_all add: got_def)
  then have bs: "?bs = got @ replicate (unat n - length ?rest) 0" by simp
  have "bytes_at (mem t) (home_pa E q) (length b) = ?bs @ drop (unat n) b"
  proof (rule nth_equalityI)
    show len: "length (bytes_at (mem t) (home_pa E q) (length b)) = length (?bs @ drop (unat n) b)"
      using l b(2) by (simp del: length_replicate)
    fix i assume "i < length (bytes_at (mem t) (home_pa E q) (length b))"
    then have i: "i < length b" by simp
    have s1i: "mem ?s1 (home_pa E q + of_nat i) = b ! i" using i b(1) by (simp add: write_bytes_inside)
    have "mem t (home_pa E q + of_nat i) = (?bs @ drop (unat n) b) ! i"
    proof (cases "i < unat n")
      case True
      then show ?thesis using l i b(1) unfolding t(6) by (simp add: write_bytes_inside nth_append del: append_assoc)
    next
      case False
      then have "\<not> in_region (home_pa E q) (length ?bs) (home_pa E q + of_nat i)"
        using l i b(1) by (simp add: in_region_def)
      then have "mem t (home_pa E q + of_nat i) = b ! i" unfolding t(6) by (simp only: write_bytes_outside s1i not_False_eq_True)
      then show ?thesis using False l i by (simp add: nth_append del: append_assoc)
    qed
    then show "bytes_at (mem t) (home_pa E q) (length b) ! i = (?bs @ drop (unat n) b) ! i"
      using i by (simp add: nth_bytes_at)
  qed
  then show ?thesis
    using t(1-7) alone_trans [OF h(4) t(8)] h(2) b(2) user_put_eq [OF u b(1) b0] w by (simp add: user_read_def bs)
qed

text \<open>The programs rely on this system from a state \<open>s0\<close> on.\<close>

definition user_runs :: "uenv \<Rightarrow> mem \<Rightarrow> u32 \<Rightarrow> nat \<Rightarrow> nat \<Rightarrow> nat \<Rightarrow> 'a kern_scheme ustate \<Rightarrow> 'a kern_scheme ustate \<Rightarrow> bool" where
  "user_runs E m0 fsa ext p q s0 = (\<lambda>(s, hss). user_ok E m0 fsa ext p q s \<and> alone p (fst s0) s \<and> hss = snd s0)"

lemma user_runs_pair [simp]:
  "user_runs E m0 fsa ext p q s0 (s, hss) \<longleftrightarrow> user_ok E m0 fsa ext p q s \<and> alone p (fst s0) s \<and> hss = snd s0"
  by (simp add: user_runs_def)

interpretation kscreen: user_screen "kernel_os E prog" "user_runs E m0 fsa ext p q s0" "\<lambda>(s, hss). tty_of s"
  for E prog m0 fsa ext p q s0
proof unfold_locales
  fix st :: "'a kern_scheme ustate" and b :: "u8 list" and n :: u32
  assume a: "user_runs E m0 fsa ext p q s0 st" "length b \<le> 1025" "b \<noteq> []" "unat n \<le> length b"
  obtain s hss where st: "st = (s, hss)" by (cases st)
  then have u: "user_ok E m0 fsa ext p q s" "alone p (fst s0) s" "hss = snd s0" using a(1) by simp_all
  show "\<exists>s'. os_write (kernel_os E prog) 1 b n st = Some (0, s') \<and> user_runs E m0 fsa ext p q s0 s' \<and>
      (case s' of (s, hss) \<Rightarrow> tty_of s) = says (take (unat n) b) (case st of (s, hss) \<Rightarrow> tty_of s)"
    using user_write_eq [OF u(1) a(2-4), of hss] alone_trans [OF u(2)] u(3) by (auto simp: kernel_os_def st)
qed

interpretation kfile: user_file "kernel_os E prog"
    "\<lambda>st. user_runs E m0 fsa ext p q s0 st \<and> user_file_at p fd (fst st)"
    "\<lambda>(s, hss). tty_of s" fd "\<lambda>(s, hss). user_rest m0 fsa p fd s"
  for E prog m0 fsa ext p q s0 fd
proof unfold_locales
  fix st :: "'a kern_scheme ustate" and b :: "u8 list" and n :: u32
  assume ok: "user_runs E m0 fsa ext p q s0 st \<and> user_file_at p fd (fst st)"
    and b: "length b \<le> 1025" "unat n \<le> length b"
  obtain s hss where st: "st = (s, hss)" by (cases st)
  have u: "user_ok E m0 fsa ext p q s" "user_file_at p fd s" "alone p (fst s0) s" "hss = snd s0" using ok by (simp_all add: st)
  have same: "user_file_at p fd t = user_file_at p fd s" "user_rest m0 fsa p fd t = user_rest m0 fsa p fd s"
    if "pcbs t = pcbs s" for t :: "'a kern_scheme"
    using that by (simp_all add: user_file_at_def user_rest_def)
  {
    assume b0: "b \<noteq> []"
    obtain t where t: "user_write E 1 b n (s, hss) = Some (0, (t, hss))" "user_ok E m0 fsa ext p q t"
      "tty_of t = says (take (unat n) b) (tty_of s)" "pcbs t = pcbs s" "alone p s t"
      using user_write_eq [OF u(1) b(1) b0 b(2)] by blast
    show "\<exists>s'. os_write (kernel_os E prog) 1 b n st = Some (0, s') \<and>
      (user_runs E m0 fsa ext p q s0 s' \<and> user_file_at p fd (fst s')) \<and>
      (case s' of (s, hss) \<Rightarrow> tty_of s) = says (take (unat n) b) (case st of (s, hss) \<Rightarrow> tty_of s)"
      using t u(2,4) same [OF t(4)] alone_trans [OF u(3) t(5)] by (simp add: kernel_os_def st)
    fix r s'
    assume "os_write (kernel_os E prog) 1 b n st = Some (r, s')"
    then show "(case s' of (s, hss) \<Rightarrow> user_rest m0 fsa p fd s) = (case st of (s, hss) \<Rightarrow> user_rest m0 fsa p fd s)"
      using t same [OF t(4)] by (auto simp: kernel_os_def st)
  next
    assume "n \<noteq> 0"
    from user_read_file [OF u(1,2) b this, of hss]
    show "\<exists>s'. os_read (kernel_os E prog) fd b n st =
        Some (of_nat (length (take (unat n) (case st of (s, hss) \<Rightarrow> user_rest m0 fsa p fd s))),
          take (unat n) (case st of (s, hss) \<Rightarrow> user_rest m0 fsa p fd s) @
          replicate (unat n - length (case st of (s, hss) \<Rightarrow> user_rest m0 fsa p fd s)) 0 @ drop (unat n) b, s') \<and>
        (user_runs E m0 fsa ext p q s0 s' \<and> user_file_at p fd (fst s')) \<and>
        (case s' of (s, hss) \<Rightarrow> tty_of s) = (case st of (s, hss) \<Rightarrow> tty_of s) \<and>
        (case s' of (s, hss) \<Rightarrow> user_rest m0 fsa p fd s) = drop (unat n) (case st of (s, hss) \<Rightarrow> user_rest m0 fsa p fd s)"
      using alone_trans [OF u(3)] u(4) by (auto simp: kernel_os_def st)
  }
qed

section \<open>Arguments and opening\<close>

text \<open>The object as the kernel sees it through the caller's address.\<close>

lemma home_str:
  assumes u: "user_ok E m0 fsa ext p q s" and b: "length b \<le> 1025" "c_str (aget b) ys"
    and m: "bytes_at (mem s) (home_pa E q) (length b) = b"
  shows "c_str (user_str (env_M E) s (env_va E)) ys" and "c_str (ptr_mem (mem s) (home_pa E q)) ys"
proof -
  have l: "length ys < length b" using c_str_end [OF b(2)] by (auto simp: aget_def split: if_splits)
  have at: "mem s (home_pa E q + of_nat i) = b ! i" if "i < length b" for i
    using nth_bytes_at [OF that, of "mem s" "home_pa E q"] m by simp
  obtain v where v: "paging_view (env_M E) s (Some q) v" using user_okD(6) [OF u] by blast
  have va: "0x8000000 \<le> unat (env_va E)" "unat (env_va E) + 1025 \<le> 0x8400000" using u by (simp_all add: user_ok_def)
  have t: "translate (env_M E) s False (env_va E + of_nat i) = Some (home_pa E q + of_nat i)" if "i < 1025" for i
    using image_contiguous [OF v user_okD(7) [OF u] va that] by (simp add: home_pa_def)
  have "user_str (env_M E) s (env_va E) i = aget b i" "ptr_mem (mem s) (home_pa E q) i = aget b i" if "i < length b" for i
    using that t [of i] at b(1) by (simp_all add: user_str_def ptr_mem_def aget_in)
  then show "c_str (user_str (env_M E) s (env_va E)) ys" "c_str (ptr_mem (mem s) (home_pa E q)) ys"
    using b(2) l by (simp_all add: c_str_def)
qed

lemma home_upward:
  assumes u: "user_ok E m0 fsa ext p q s" and l: "unat (env_lit E) + 1025 \<le> 0x800000" and n: "n \<le> 1025"
  shows "upward_ok (home_pa E q) (env_lit E) n"
proof -
  have "unat (home_pa E q - env_lit E) = unat (home_pa E q) - unat (env_lit E)"
    using unat_home(3) [OF u] l by (intro unat_sub) (simp add: word_le_nat_alt)
  moreover have "n \<le> unat (home_pa E q) - unat (env_lit E)" using unat_home(3) [OF u] l n by linarith
  ultimately show ?thesis by (simp add: upward_ok_def)
qed

text \<open>What \<open>getargs\<close> leaves in an uninitialised buffer: the arguments, zeros up to 95 bytes, and behind them
  what was there or bytes of the kernel.\<close>

lemma user_getargs_eq:
  assumes u: "user_ok E m0 fsa ext p q s" and as: "args (pcbs s p) = pad 95 xs" and xs: "0 \<notin> set xs" "length xs < 95" "xs \<noteq> []"
    and b: "95 \<le> length b" "length b \<le> 1025" "c_str (aget b) ys" and n: "0 < sint n"
    and l: "unat (env_lit E) + 1025 \<le> 0x800000"
  shows "\<exists>r t. user_getargs E b n (s, hss) = Some (0, pad 95 xs @ r, (t, hss)) \<and> length r = length b - 95 \<and>
    user_ok E m0 fsa ext p q t \<and> tty_of t = tty_of s \<and> alone p s t \<and> pcbs t = pcbs s \<and> start_fs t = start_fs s \<and>
    directoryIndex t = directoryIndex s"
proof -
  let ?s1 = "s\<lparr>mem := write_bytes (home_pa E q) b (mem s)\<rparr>" and ?pa = "home_pa E q" and ?va = "env_va E"
  note w = home_write [OF u b(2)]
  let ?c = "cli ?s1"
  have uc: "user_ok E m0 fsa ext p q ?c" by (rule user_ok_flag(1) [OF w(1)])
  have b0: "b \<noteq> []" using b(1) by auto
  have at: "bytes_at (mem ?s1) ?pa (length b) = b" using b(2) by (simp add: bytes_at_write_bytes)
  have ly: "length ys < length b" using c_str_end [OF b(3)] by (auto simp: aget_def split: if_splits)
  note str = home_str [OF w(1) b(2,3) at] and strc = home_str [OF uc b(2,3)]
  have cu: "c_str (user_str (env_M E) ?c ?va) ys" "c_str (ptr_mem (mem ?c) ?pa) ys" using strc at by simp_all
  have args: "aget (args (pcbs s p)) 0 \<noteq> Some 0"
    using c_str_nth [OF c_str_pad [OF xs(1,2)], of 0] c_str_nonzero [OF c_str_pad [OF xs(1,2)], of 0] xs(3) by (simp add: as)
  have ext1: "getargs_extent (env_M E) ?s1 ?va n = Some (max 95 (Suc (length ys)))"
    using strlen_c_str [OF str(1)] home_block(4) [OF u] n args user_okD(4) [OF w(1)] by (simp add: getargs_extent_def)
  have extc: "getargs_extent (env_M E) ?c ?va n = Some (max 95 (Suc (length ys)))"
    using strlen_c_str [OF cu(1)] home_block(4) [OF u] n args user_okD(4) [OF uc] by (simp add: getargs_extent_def)
  have k: "max 95 (Suc (length ys)) \<le> length b" using b(1) ly by simp
  obtain v where v: "paging_view (env_M E) ?c (Some q) v" using user_okD(6) [OF uc] by blast
  have sp: "span (env_M E) ?c usr ?va (max 95 (Suc (length ys))) = Some ?pa" for usr
    using home_span [OF v u, of "max 95 (Suc (length ys))" usr] k b(2) by simp
  define m where "m = write_bytes ?pa (pad 95 xs) (write_bytes ?pa (bytes_at (mem ?c) (env_lit E) (length ys)) (mem ?c))"
  have g: "getargs (env_lit E) ?pa n ?c = Some (0, ?c\<lparr>mem := m\<rparr>)"
    unfolding m_def
    by (rule getargs_copies [OF user_okD(4) [OF uc] _ xs home_block(3) [OF u] n cu(2)])
      (use as ly b(2) home_upward [OF u l] in simp_all)
  have call: "user_call E [] (DO_CALL 7 ?va n 0) ?s1 = Some (0, sti (?c\<lparr>mem := m\<rparr>))"
    using extc sp g
    by (simp add: user_call_def syscall_handler_def syscalls_def DO_CALL_def Let_def env_M_def MIN_SYSTEM_CALLS_def MAX_SYSTEM_CALLS_def)
  have lp: "length (pad 95 xs) = 95" using xs(2) by (simp add: pad_def)
  define bs where "bs = pad 95 xs @ drop 95 (bytes_at m ?pa (length b))"
  have "m = write_bytes ?pa bs (mem ?c)"
  proof
    fix x
    show "m x = write_bytes ?pa bs (mem ?c) x"
    proof (cases "in_region ?pa (length b) x")
      case True
      then have i: "unat (x - ?pa) < length b" by (simp add: in_region_def)
      have lb: "length bs = length b" using lp b(1) by (simp add: bs_def)
      have "m (?pa + of_nat (unat (x - ?pa))) = bs ! unat (x - ?pa)"
      proof (cases "unat (x - ?pa) < 95")
        case True
        then show ?thesis using lp write_bytes_inside [of "unat (x - ?pa)" "pad 95 xs" ?pa]
          by (simp add: m_def bs_def nth_append del: of_nat_unat_sub)
      next
        case False
        then show ?thesis using lp i by (simp add: bs_def nth_append nth_bytes_at del: of_nat_unat_sub)
      qed
      then show ?thesis using True lb by (simp add: write_bytes_def)
    next
      case False
      then have o: "length b \<le> unat (x - ?pa)" by (simp add: in_region_def)
      then show ?thesis using lp b(1) ly by (simp add: m_def bs_def write_bytes_def in_region_def)
    qed
  qed
  then have mem: "?c\<lparr>mem := m\<rparr> = ?c\<lparr>mem := write_bytes ?pa bs (mem ?c)\<rparr>" by simp
  have lb: "length bs \<le> 1025" using lp b(1,2) by (simp add: bs_def)
  note w' = home_write [OF uc lb, folded mem]
  have al: "alone p s (?c\<lparr>mem := m\<rparr>)" using alone_trans [OF w(4)] w'(4) by simp
  have "bytes_at m ?pa (length b) = pad 95 xs @ drop 95 (bytes_at m ?pa (length b))"
  proof (rule nth_equalityI)
    show "length (bytes_at m ?pa (length b)) = length (pad 95 xs @ drop 95 (bytes_at m ?pa (length b)))" using lp b(1) by simp
    fix i assume "i < length (bytes_at m ?pa (length b))"
    then have i: "i < length b" by simp
    show "bytes_at m ?pa (length b) ! i = (pad 95 xs @ drop 95 (bytes_at m ?pa (length b))) ! i"
      using lp i write_bytes_inside [of i "pad 95 xs" ?pa] by (simp add: nth_append) (simp add: nth_bytes_at m_def)
  qed
  then show ?thesis
    using user_put_eq [OF u b(2) b0] ext1 k call user_ok_flag(2) [OF w'(1)] w'(2) w(2) b(1) al
    by (intro exI [of _ "drop 95 (bytes_at m ?pa (length b))"] exI [of _ "sti (?c\<lparr>mem := m\<rparr>)"])
      (simp add: user_getargs_def)
qed

text \<open>The entry a name leads to: the first that starts with it.\<close>

definition first_entry :: "mem \<Rightarrow> u32 \<Rightarrow> u8 list \<Rightarrow> dentry option" where
  "first_entry m fsa xs = (case filter (starts_with m fsa xs) [0..<unat (m fsa)] of
     [] \<Rightarrow> None | k # _ \<Rightarrow> Some (dentry_bytes m (dir_addr fsa k)))"

lemma image_entry:
  assumes eq: "image_eq fsa ext m0 m" and io: "image_ok m0 fsa ext" and w: "unat fsa + ext \<le> 4294967296"
    and l: "length xs \<le> 64"
  shows "first_entry m fsa xs = first_entry m0 fsa xs"
proof -
  note n = image_count [OF eq io w]
  have st: "starts_with m fsa xs j = starts_with m0 fsa xs j" if j: "j < unat (m0 fsa)" for j
  proof -
    have "m (dir_addr fsa j + of_nat i) = m0 (dir_addr fsa j + of_nat i)" if i: "i < 64" for i
    proof -
      have "64 + 64 * j + i < ext" "ext \<le> 4294967296" using io j i w by (simp_all add: image_ok_def)
      then have "in_region fsa ext (fsa + of_nat (64 + 64 * j + i))" by (rule in_region_offset)
      then have "m (fsa + of_nat (64 + 64 * j + i)) = m0 (fsa + of_nat (64 + 64 * j + i))"
        using eq unfolding image_eq_def by blast
      moreover have "dir_addr fsa j + of_nat i = fsa + of_nat (64 + 64 * j + i)" by (simp add: dir_addr_def add.assoc)
      ultimately show ?thesis by (simp only:)
    qed
    then have "bytes_at m (dir_addr fsa j) (length xs) = bytes_at m0 (dir_addr fsa j) (length xs)"
      using l by (intro nth_equalityI) (simp_all add: nth_bytes_at)
    then show ?thesis by (simp only: starts_with_def)
  qed
  have f: "filter (starts_with m fsa xs) [0..<unat (m fsa)] = filter (starts_with m0 fsa xs) [0..<unat (m0 fsa)]"
    unfolding n using st by (intro filter_cong) simp_all
  have "dentry_bytes m (dir_addr fsa k) = dentry_bytes m0 (dir_addr fsa k)"
    if "filter (starts_with m0 fsa xs) [0..<unat (m0 fsa)] = k # ks" for k ks
  proof -
    have "k \<in> set (filter (starts_with m0 fsa xs) [0..<unat (m0 fsa)])" using that by simp
    then show ?thesis by (intro image_dentry [OF eq io w]) simp
  qed
  then show ?thesis by (simp add: first_entry_def f split: list.split)
qed

lemma user_open_eq:
  assumes u: "user_ok E m0 fsa ext p q s" and b: "length b \<le> 1025" "c_str (aget b) xs"
    and xs: "xs \<noteq> []" "length xs \<le> 64" "take 5 xs \<noteq> chars ''stdin''" "take 6 xs \<noteq> chars ''stdout''"
  shows "first_entry m0 fsa xs = None \<Longrightarrow>
      \<exists>t. user_open E b (s, hss) = Some (- 1, (t, hss)) \<and> user_ok E m0 fsa ext p q t \<and> tty_of t = tty_of s \<and>
        alone p s t \<and> pcbs t = pcbs s \<and> directoryIndex t = directoryIndex s"
    and "first_entry m0 fsa xs = Some e \<Longrightarrow> driver_of_type (file_type e) = Some drv \<Longrightarrow> drv \<noteq> Rtc_fops \<Longrightarrow>
      free_fds s p 2 = fd # fds \<Longrightarrow>
      \<exists>t. user_open E b (s, hss) = Some (of_nat fd, (t, hss)) \<and> user_ok E m0 fsa ext p q t \<and> tty_of t = tty_of s \<and>
        alone p s t \<and> fd_array (pcbs t p) ! fd = open_entry drv (inode_num e) \<and> directoryIndex t = directoryIndex s \<and>
        (\<forall>g. g \<noteq> fd \<longrightarrow> fd_array (pcbs t p) ! g = fd_array (pcbs s p) ! g)"
    and "first_entry m0 fsa xs = Some e \<Longrightarrow> free_fds s p 2 = [] \<Longrightarrow>
      \<exists>t. user_open E b (s, hss) = Some (- 1, (t, hss)) \<and> user_ok E m0 fsa ext p q t \<and> tty_of t = tty_of s \<and>
        alone p s t \<and> pcbs t = pcbs s \<and> directoryIndex t = directoryIndex s"
proof -
  let ?s1 = "s\<lparr>mem := write_bytes (home_pa E q) b (mem s)\<rparr>" and ?pa = "home_pa E q" and ?va = "env_va E"
  note w = home_write [OF u b(1)]
  let ?c = "cli ?s1"
  have uc: "user_ok E m0 fsa ext p q ?c" by (rule user_ok_flag(1) [OF w(1)])
  note h = user_okD(1) [OF u] and io = user_okD(2) [OF u] and k = user_okD(3) [OF uc] and sh = user_okD(11,4) [OF uc]
  have b0: "b \<noteq> []" using c_str_end [OF b(2)] by (auto simp: aget_def)
  have at: "bytes_at (mem ?c) ?pa (length b) = b" using b(1) by (simp add: bytes_at_write_bytes)
  note str = home_str(1) [OF uc b at]
  have fs: "start_fs ?c = fsa" by (rule user_okD(13) [OF uc])
  have eq: "image_eq fsa ext m0 (mem ?c)" by (rule image_kept [OF h]) (use kinvD(7) [OF k] in blast)
  have wr: "unat fsa + ext \<le> 4294967296" using h by (simp add: home_ok_def)
  note ent = image_entry [OF eq io wr xs(2)]
  have "sys_open (env_dev E) (user_str (env_M E) c ?va) c =
      (case first_entry (mem c) fsa xs of None \<Rightarrow> Some (- 1, c) | Some e \<Rightarrow> open_from (env_dev E) e 2 c)"
    if c: "c = ?c" for c
  proof -
    have "start_fs c = fsa" unfolding c by (rule fs)
    then show ?thesis
      using sys_open_file [OF sh str xs(1,3,4), of "env_dev E"] unfolding c [symmetric] first_entry_def
      by (simp split: list.split)
  qed
  note op = this [OF refl, unfolded ent]
  have call: "sys_open (env_dev E) (user_str (env_M E) ?c ?va) ?c = Some (r, t) \<Longrightarrow>
      user_open E b (s, hss) = Some (r, (sti t, hss))" for r t
    using user_put_eq [OF u b(1) b0]
    by (simp add: user_open_def user_call_def syscall_handler_def syscalls_def DO_CALL_def Let_def env_M_def
        MIN_SYSTEM_CALLS_def MAX_SYSTEM_CALLS_def)
  show "\<exists>t. user_open E b (s, hss) = Some (- 1, (t, hss)) \<and> user_ok E m0 fsa ext p q t \<and> tty_of t = tty_of s \<and>
      alone p s t \<and> pcbs t = pcbs s \<and> directoryIndex t = directoryIndex s" if "first_entry m0 fsa xs = None"
    using call [of "- 1" ?c] op that user_ok_flag(2) [OF uc] w(2,4) by (intro exI [of _ "sti ?c"]) simp
  show "\<exists>t. user_open E b (s, hss) = Some (- 1, (t, hss)) \<and> user_ok E m0 fsa ext p q t \<and> tty_of t = tty_of s \<and>
      alone p s t \<and> pcbs t = pcbs s \<and> directoryIndex t = directoryIndex s"
    if e: "first_entry m0 fsa xs = Some e" "free_fds s p 2 = []"
  proof -
    have "free_fds ?c p 2 = []" using e(2) by (simp add: free_fds_def)
    then have "sys_open (env_dev E) (user_str (env_M E) ?c ?va) ?c = Some (- 1, ?c)"
      using op e(1) open_from_first [OF sh] by (simp split: option.split)
    from call [OF this] show ?thesis using user_ok_flag(2) [OF uc] w(2,4) by (intro exI [of _ "sti ?c"]) simp
  qed
  show "\<exists>t. user_open E b (s, hss) = Some (of_nat fd, (t, hss)) \<and> user_ok E m0 fsa ext p q t \<and> tty_of t = tty_of s \<and>
      alone p s t \<and> fd_array (pcbs t p) ! fd = open_entry drv (inode_num e) \<and> directoryIndex t = directoryIndex s \<and>
      (\<forall>g. g \<noteq> fd \<longrightarrow> fd_array (pcbs t p) ! g = fd_array (pcbs s p) ! g)"
    if e: "first_entry m0 fsa xs = Some e" "driver_of_type (file_type e) = Some drv" "drv \<noteq> Rtc_fops" "free_fds s p 2 = fd # fds"
  proof -
    have "free_fds ?c p 2 = fd # fds" using e(4) by (simp add: free_fds_def)
    moreover have "snd (driver_open (env_dev E) drv t) = t" for t :: "'a kern_scheme"
      using e(3) by (cases drv) (simp_all add: driver_open_def)
    ultimately have o: "sys_open (env_dev E) (user_str (env_M E) ?c ?va) ?c =
        Some (of_nat fd, put_fd p fd (open_entry drv (inode_num e)) ?c)"
      using op e(1,2) open_from_first [OF sh] by simp
    have "fd \<in> set (free_fds s p 2)" using e(4) by simp
    then have "fd \<in> set [2..<8]" unfolding free_fds_def set_filter by (simp only: mem_Collect_eq)
    then have fd: "2 \<le> fd" "fd < 8" by (simp_all only: set_upt atLeastLessThan_iff)
    let ?t = "put_fd p fd (open_entry drv (inode_num e)) ?c"
    have at: "fd_array (pcbs ?t p) ! g = (if g = fd then open_entry drv (inode_num e) else fd_array (pcbs ?c p) ! g)" for g
      by (rule put_fd_at [OF sh(1) fd(2)])
    have k1: "kinv (env_L E) m0 fsa ext ?t" by (rule sys_open_kinv [OF k h io o])
    have q1: "quiet (env_L E) ?c ?t" by (simp add: quiet_def put_fd_def set_pcb_def)
    have ut: "user_ok E m0 fsa ext p q ?t"
      by (rule user_ok_step [OF uc k1 q1]) (use at fd user_okD(10) [OF uc] in \<open>simp_all add: on_screen_def put_fd_def set_pcb_def\<close>)
    have "tty_of ?t = tty_of s" using w(2) by (simp add: tty_of_def put_fd_def set_pcb_def)
    moreover have "directoryIndex ?t = directoryIndex s" by (simp add: put_fd_def set_pcb_def)
    moreover have "alone p ?c ?t" by (rule alone_quiet(1) [OF q1]) (simp_all add: put_fd_def set_pcb_def same_keys_def)
    then have "alone p s ?t" using alone_trans [OF w(4)] by simp
    ultimately show ?thesis using call [OF o] user_ok_flag(2) [OF ut] at by (intro exI [of _ "sti ?t"]) simp
  qed
qed

text \<open>The empty name is refused.\<close>

lemma user_open_empty:
  assumes u: "user_ok E m0 fsa ext p q s"
  shows "\<exists>t. user_open E [0] (s, hss) = Some (- 1, (t, hss)) \<and> user_ok E m0 fsa ext p q t \<and> tty_of t = tty_of s \<and>
    alone p s t \<and> pcbs t = pcbs s"
proof -
  have b: "length [0 :: u8] \<le> 1025" "c_str (aget [0]) []" by (simp_all add: c_str_def aget_def)
  let ?s1 = "s\<lparr>mem := write_bytes (home_pa E q) [0] (mem s)\<rparr>"
  note w = home_write [OF u b(1)]
  let ?c = "cli ?s1"
  have uc: "user_ok E m0 fsa ext p q ?c" by (rule user_ok_flag(1) [OF w(1)])
  have at: "bytes_at (mem ?c) (home_pa E q) (length [0 :: u8]) = [0]"
    using bytes_at_write_bytes [of "[0]" "length [0 :: u8]" "home_pa E q" "mem s"] by simp
  note str = home_str(1) [OF uc b at]
  have "sys_open dev f c = Some (- 1, c)" if "c_str f []" for f dev and c :: "'a kern_scheme"
    using strncmp_lit [OF that, of "''stdin''" 5] strncmp_lit [OF that, of "''stdout''" 6] c_str_end [OF that]
    by (auto simp: sys_open_def read_dentry_by_name_def chars_def)
  from this [OF str, of "env_dev E" ?c] show ?thesis
    using user_put_eq [OF u b(1)] user_ok_flag(2) [OF uc] w(2,4)
    by (simp add: user_open_def user_call_def syscall_handler_def syscalls_def DO_CALL_def Let_def env_M_def
        MIN_SYSTEM_CALLS_def MAX_SYSTEM_CALLS_def)
qed

end
