(* ===== verification/User_Exec.thy ===== *)
theory User_Exec
  imports User_Kernel
begin

text \<open>
  One program starts another: \<open>execute\<close> until the other halts, as a step of the program that called it.
\<close>

section \<open>What a call that ends leaves\<close>

lemma procs_fields:
  assumes "same_procs p s t"
  shows "process_num (pcbs t r) = process_num (pcbs s r)" "term_start (pcbs t r) = term_start (pcbs s r)"
    "parent_pcb (pcbs t r) = parent_pcb (pcbs s r)" "processes t = processes s" "current_terminal t = current_terminal s"
    "r \<noteq> p \<Longrightarrow> pcbs t r = pcbs s r"
  using assms by (cases "r = p"; auto simp: same_procs_def)+

lemma stacks_procs:
  assumes a: "same_procs p s t" and st: "stacks s stk" and k: "kern_shape s"
  shows "stacks t stk"
proof -
  have m: "map running_pcb (terms t) = map running_pcb (terms s)" "map been_here (terms t) = map been_here (terms s)"
    using a by (simp_all add: same_procs_def)
  have "length (terms t) = 3" using k by (metis m(1) length_map kern_shape_def)
  then have f: "running_pcb (terms t ! c) = running_pcb (terms s ! c)" "been_here (terms t ! c) = been_here (terms s ! c)"
    if "c < 3" for c
    using map_same_nth [OF m(1), of c] map_same_nth [OF m(2), of c] that by simp_all
  have ch: "chain t r ps = chain s r ps" for r ps
    by (rule chain_cong) (simp add: procs_fields [OF a])
  have "stacks t stk = stacks s stk" unfolding stacks_def procs_fields [OF a] ch by (simp add: f cong: conj_cong)
  then show ?thesis using st by simp
qed

lemma alone_procs: "alone p s t \<Longrightarrow> same_procs p s t" "alone p s t \<Longrightarrow> keys_kept s t"
  by (simp_all add: alone_def)

lemmas alone_fields = procs_fields [OF alone_procs(1)]
lemmas stacks_alone = stacks_procs [OF alone_procs(1)]

lemma first_entry_file:
  assumes "first_entry m0 fsa xs = Some e" and io: "image_ok m0 fsa ext"
  shows "wf_file m0 fsa ext (inode_num e)"
    and "take 4 (contents m0 fsa (inode_num e)) = EXEC_BITS \<Longrightarrow>
      28 \<le> file_len m0 fsa (inode_num e) \<and> file_len m0 fsa (inode_num e) \<le> 0x3B8000"
proof -
  obtain k ks where k: "filter (starts_with m0 fsa xs) [0..<unat (m0 fsa)] = k # ks" "e = dentry_bytes m0 (dir_addr fsa k)"
    using assms(1) by (auto simp: first_entry_def split: list.splits)
  have "k \<in> set (filter (starts_with m0 fsa xs) [0..<unat (m0 fsa)])" using k(1) by simp
  then have "k < unat (m0 fsa)" by simp
  then show "wf_file m0 fsa ext (inode_num e)" "take 4 (contents m0 fsa (inode_num e)) = EXEC_BITS \<Longrightarrow>
      28 \<le> file_len m0 fsa (inode_num e) \<and> file_len m0 fsa (inode_num e) \<le> 0x3B8000"
    using io by (simp_all add: image_ok_def Let_def k(2))
qed

lemma found_entry: "found nm s = first_entry (mem s) (start_fs s) nm"
  by (simp add: found_def first_entry_def)

text \<open>The process of a stack's top is the one whose page is mapped.\<close>

lemma user_top:
  assumes u: "user_ok E m0 fsa ext p q s" and st: "stacks s stk"
  shows "\<exists>ps. stk (unat (current_terminal s)) = p # ps" and "p = q"
proof -
  let ?c = "unat (current_terminal s)"
  note k = user_okD(11) [OF u] and kv = user_okD(3) [OF u]
  have c: "?c < 3" "?c < length (terms s)" using k by (simp_all add: kern_shape_def)
  have r: "running_pcb (terms s ! ?c) = Some p"
    using user_okD(4) [OF u] cur_term_shape [OF k] by (simp add: cur_pcb_def)
  have "been_here (terms s ! ?c) = 1" using kinvD(3) [OF kv] c(1) r by (auto simp: settled_def)
  then have ne: "stk ?c \<noteq> []" using stacksD(6) [OF st c(1)] by simp
  then obtain x ps where x: "stk ?c = x # ps" by (cases "stk ?c") auto
  have ch: "chain s (Some p) (x # ps)" using stacksD(5) [OF st c(1)] by (simp only: r x)
  have x': "x = p" "p < 6" "process_num (pcbs s p) = of_nat p" using ch by (cases ps; simp)+
  then show "\<exists>ps. stk ?c = p # ps" using x by blast
  obtain v where v: "paging_view (env_M E) s (Some q) v" using user_okD(6) [OF u] by blast
  have "front_mapped (env_L E) s" using kv by (simp add: kinv_loose)
  from frontD [OF this user_okD(4) [OF u] _ user_okD(5) [OF u]] v
  have "unat (process_num (pcbs s p)) = q" by (simp add: env_M_def)
  moreover have "unat (of_nat p :: u32) = p" using x'(2) by simp
  ultimately show "p = q" using x'(3) by simp
qed

section \<open>execute until halt\<close>

text \<open>The state a program starts in.\<close>

lemma user_started:
  assumes u: "user_ok E m0 fsa ext p q s" and xs: "c_str cmd xs" "length xs < 32" and st: "stacks s stk"
    and exe: "cmd_name xs \<noteq> []" "first_entry m0 fsa (cmd_name xs) = Some de"
      "take 4 (contents m0 fsa (inode_num de)) = EXEC_BITS"
    and slot: "free_slots 0 (processes s) = i # is" and fr: "on_stack fr"
    and E': "env_L E' = env_L E" "0x8000000 \<le> unat (env_va E')" "unat (env_va E') + 1025 \<le> 0x8400000"
  shows "\<exists>eip t. execute (env_L E) dev fr (Some cmd) s = Some (Enter_user eip t) \<and>
    user_ok E' m0 fsa ext i i t \<and> args (pcbs t i) = pad 95 (cmd_args xs) \<and> tty_of t = tty_of s \<and>
    free_fds t i 2 = free_fds s i 2 \<and> (\<forall>r. r \<noteq> i \<longrightarrow> pcbs t r = pcbs s r) \<and> current_terminal t = current_terminal s \<and>
    stacks t (stk(unat (current_terminal s) := i # stk (unat (current_terminal s)))) \<and> processes t = processes s OR push_bit i 1 \<and>
    keys_kept s t"
proof -
  note h = user_okD(1) [OF u] and io = user_okD(2) [OF u] and k = user_okD(3) [OF u] and sh = user_okD(11) [OF u]
  have lo: "loose (env_L E) m0 fsa ext s" using k by (simp add: kinv_loose)
  have wr: "unat fsa + ext \<le> 4294967296" using h by (simp add: home_ok_def)
  have l: "length (cmd_name xs) \<le> 64" using cmd_lengths [of xs] xs(2) by simp
  have fnd: "found (cmd_name xs) s = Some de"
    using image_entry [OF loose_image [OF lo h] io wr l] exe(2) by (simp add: found_entry user_okD(13) [OF u])
  note ff = first_entry_file [OF exe(2) io]
  have "i \<in> set (free_slots 0 (processes s))" by (simp add: slot)
  then have i: "i < 6" "\<not> bit (processes s) i" by (auto simp: free_slots_def)
  note ld = entry_loadable [OF lo h i(1) ff(1)] and len = ff(2) [OF exe(3)]
  have go: "startable (env_L E) fr ext xs (inode_num de) i s"
    using exe(1,3) fnd slot ld len block_apart [OF h stack_block [OF fr]]
    by (simp add: startable_def user_okD(13) [OF u])
  obtain v where v: "paging_view (env_M E) s (Some q) v" using user_okD(6) [OF u] by blast
  let ?prog = "contents m0 fsa (inode_num de)"
  obtain t where t: "execute (env_L E) dev fr (Some cmd) s = Some (Enter_user (le_word (take 4 (drop 24 ?prog))) t)"
    "started (env_L E) fr (cmd_name xs) (cmd_args xs) ?prog i v s t"
    "stacks t (stk(unat (current_terminal s) := i # stk (unat (current_terminal s))))"
    using execute_pushes [OF st xs sh user_okD(7) [OF u, unfolded env_M_def] v [unfolded env_M_def] go, of dev] ld len
    by auto
  have kt: "kinv (env_L E) m0 fsa ext t" by (rule started_kinv [OF loose_calm [OF lo] h fr i(1) _ t(2)]) (use len in simp)
  note st' = t(2) [unfolded started_def Let_def]
  obtain fds where p: "pcbs t = (pcbs s)(i := (new_pcb fr i (cmd_name xs) (cmd_args xs) (terms s ! unat (current_terminal s))
      (pcbs s i))\<lparr>fd_array := fds\<rparr>)" "in_use (fds ! 1) = 1" "\<forall>fd \<ge> 2. fds ! fd = fd_array (pcbs s i) ! fd"
    using st' by blast
  have at: "fd_array (pcbs t i) = fds" by (simp add: p(1))
  have "fd_ok 1 (fd_array (pcbs t i) ! 1)" using kinvD(1) [OF kt] by (simp add: fds_ok_def)
  then have out: "in_use (fds ! 1) = 1" "fops (fds ! 1) = Some Terminal_fops" using p(2) by (auto simp: fd_ok_def at)
  have c: "unat (current_terminal s) < length (terms s)" using sh by (simp add: kern_shape_def)
  have cur: "cur_pcb t = Some i" using st' c by (simp add: cur_pcb_def cur_term_def aget_in)
  have vt: "paging_view (env_M E) t (Some i) v" using st' by (simp add: env_M_def)
  have on: "on_screen t" using user_okD(10) [OF u] st' by (simp add: on_screen_def)
  have "user_ok E' m0 fsa ext i i t"
    using h io kt i cur vt out on E' by (auto simp: user_ok_def env_M_def at)
  moreover have "args (pcbs t i) = pad 95 (cmd_args xs)" by (simp add: p(1) new_pcb_def)
  moreover have "tty_of t = tty_of s"
  proof (rule same_tty)
    fix x assume x: "in_screen x"
    have e: "unat (exec_buf fr) + 4 \<le> 0x800000" "0x7F4000 \<le> unat (exec_buf fr)" using fr by (simp_all add: on_stack_def)
    have g: "0xBC000 \<le> unat (entry_point (env_L E))" "unat (entry_point (env_L E)) + 4 \<le> 0x7F4000"
      using h by (simp_all add: home_ok_def)
    have b: "unat (image_base i) = 0x848000 + 0x400000 * i" by (rule unat_image_base [OF i(1)])
    have "unat x < 0xB9000" using x by (simp add: in_screen_def in_region_nowrap VIDEO_def)
    then have "\<not> in_region (exec_buf fr) 4 x" "\<not> in_region (entry_point (env_L E)) 4 x"
      "\<not> in_region (image_base i) (length ?prog) x"
      using e g b i(1) len by (simp_all add: in_region_nowrap)
    then show "mem t x = mem s x" using st' by blast
  qed (use st' in simp_all)
  moreover have "free_fds t i 2 = free_fds s i 2"
    unfolding free_fds_def at by (rule filter_cong) (auto simp: p(3) [rule_format])
  moreover have "\<forall>r. r \<noteq> i \<longrightarrow> pcbs t r = pcbs s r" by (simp add: p(1))
  moreover have "keys_kept s t" by (rule same_keys_kept) (use st' in blast)
  ultimately show ?thesis using t(1,3) st' by blast
qed

text \<open>What \<open>execute\<close> is to the program that calls it: \<open>f\<close> is what the other does to the screen.\<close>

lemma user_execute_runs:
  assumes u: "user_ok E m0 fsa ext p q s" and b: "length b \<le> 1025" "c_str (aget b) xs" "length xs < 32"
    and st: "stacks s stk"
    and exe: "cmd_name xs \<noteq> []" "first_entry m0 fsa (cmd_name xs) = Some de"
      "take 4 (contents m0 fsa (inode_num de)) = EXEC_BITS"
    and slot: "free_slots 0 (processes s) = i # is" and fr: "on_stack (env_fr E)"
    and E': "env_L E' = env_L E" "0x8000000 \<le> unat (env_va E')" "unat (env_va E') + 1025 \<le> 0x8400000"
    and prog: "\<And>eip t. user_ok E' m0 fsa ext i i t \<Longrightarrow> args (pcbs t i) = pad 95 (cmd_args xs) \<Longrightarrow>
      free_fds t i 2 = free_fds s i 2 \<Longrightarrow>
      \<exists>v t'. prog eip (t, hss) = Some (v, (t', hss')) \<and> user_ok E' m0 fsa ext i i t' \<and> alone i t t' \<and> tty_of t' = f (tty_of t)"
  shows "\<exists>t. user_execute E prog b (s, hss) = Some (0, (t, hss')) \<and> user_ok E m0 fsa ext p q t \<and> stacks t stk \<and>
    tty_of t = f (tty_of s) \<and> processes t = processes s \<and> current_terminal t = current_terminal s \<and>
    (\<forall>r. r \<noteq> i \<longrightarrow> pcbs t r = pcbs s r) \<and> free_fds t i 2 = [2..<8] \<and> pcbs t p = pcbs s p \<and> keys_kept s t"
proof -
  let ?s1 = "s\<lparr>mem := write_bytes (home_pa E q) b (mem s)\<rparr>"
  note w = home_write [OF u b(1)]
  let ?c = "cli ?s1"
  have uc: "user_ok E m0 fsa ext p q ?c" by (rule user_ok_flag(1) [OF w(1)])
  have ac: "alone p s ?c" using w(4) by simp
  have b0: "b \<noteq> []" using c_str_end [OF b(2)] by (auto simp: aget_def)
  have at: "bytes_at (mem ?c) (home_pa E q) (length b) = b" using b(1) by (simp add: bytes_at_write_bytes)
  note str = home_str(1) [OF uc b(1,2) at]
  have sc: "stacks ?c stk" by (rule stacks_alone [OF ac st user_okD(11) [OF u]])
  have fs: "free_slots 0 (processes ?c) = i # is" using slot by (simp add: cli_def)
  obtain eip t where t: "execute (env_L E) (env_dev E) (env_fr E) (Some (user_str (env_M E) ?c (env_va E))) ?c = Some (Enter_user eip t)"
    "user_ok E' m0 fsa ext i i t" "args (pcbs t i) = pad 95 (cmd_args xs)" "tty_of t = tty_of ?c"
    "free_fds t i 2 = free_fds ?c i 2" "\<forall>r. r \<noteq> i \<longrightarrow> pcbs t r = pcbs ?c r" "current_terminal t = current_terminal ?c"
    "stacks t (stk(unat (current_terminal ?c) := i # stk (unat (current_terminal ?c))))"
    "processes t = processes ?c OR push_bit i 1" "keys_kept ?c t"
    using user_started [OF uc str b(3) sc exe fs fr E', of "env_dev E"] by blast
  have call: "syscall_handler (env_L E) (env_dev E) (env_fr E) (env_lit E) [] (DO_CALL 2 (env_va E) 0 0) ?s1 = Some (Enter_user eip t)"
    using t(1) home_block(4) [OF u]
    by (simp add: syscall_handler_def syscalls_def DO_CALL_def Let_def env_M_def MIN_SYSTEM_CALLS_def MAX_SYSTEM_CALLS_def)
  define t0 where "t0 = iret (switch_to_user 0 eip) t"
  have flag: "t0 = cli t \<or> t0 = sti t" 
    by (cases "bit (iret_eflags (switch_to_user 0 eip)) IF_bit") (simp_all add: t0_def iret_def cli_def sti_def)
  have t0: "user_ok E' m0 fsa ext i i t0" "alone i t t0" "tty_of t0 = tty_of t" "pcbs t0 = pcbs t"
    using flag user_ok_flag [OF t(2)] by (elim disjE; simp)+
  have f0: "free_fds t0 i 2 = free_fds s i 2" using t(5) t0(4) by (simp add: free_fds_def cli_def)
  have a0: "args (pcbs t0 i) = pad 95 (cmd_args xs)" using t(3) t0(4) by simp
  obtain v t1 where t1: "prog eip (t0, hss) = Some (v, (t1, hss'))" "user_ok E' m0 fsa ext i i t1"
    "alone i t0 t1" "tty_of t1 = f (tty_of t0)"
    using prog [OF t0(1) a0 f0, of eip] by blast
  let ?d = "cli t1"
  have ud: "user_ok E' m0 fsa ext i i ?d" by (rule user_ok_flag(1) [OF t1(2)])
  have ad: "alone i t ?d" using alone_trans [OF t0(2) t1(3)] by simp
  note ct = alone_fields(5) [OF ad] alone_fields(5) [OF ac] t(7)
  let ?k = "unat (current_terminal s)" and ?stk = "stk(unat (current_terminal s) := i # stk (unat (current_terminal s)))"
  have sd: "stacks ?d ?stk"
    using stacks_alone [OF ad t(8) user_okD(11) [OF t(2)]] ct by simp
  obtain ps where ps: "stk ?k = p # ps" and pq: "p = q" using user_top [OF u st] by blast
  have k3: "?k < 3" using user_okD(11) [OF u] by (simp add: kern_shape_def)
  have "i \<in> set (free_slots 0 (processes s))" by (simp add: slot)
  then have i: "i < 6" "\<not> bit (processes s) i" by (auto simp: free_slots_def)
  have pi: "p \<noteq> i" using stacksD(2) [OF st, of p] k3 ps i(2) by force
  obtain vd where vd: "paging_view (env_M E) ?d (Some i) vd"
    using user_okD(6) [OF ud] E'(1) by (auto simp: env_M_def)
  have top: "?stk (unat (current_terminal ?d)) = i # p # ps" using ct ps by simp
  obtain t3 where t3: "halt (env_L E) (env_dev E) (env_fr E) (ucast v) ?d = Some (Resume (parent_sp (pcbs ?d i)) (parent_bp (pcbs ?d i)) t3)"
    "ended (env_L E) i p vd ?d t3" "stacks t3 (?stk(unat (current_terminal ?d) := p # ps))"
    using halt_pops [OF sd kinvD(1) [OF user_okD(3) [OF ud]] top user_okD(7) [OF u, unfolded env_M_def] vd [unfolded env_M_def],
        of "env_dev E" "env_fr E" "ucast v"] by blast
  have s3: "stacks t3 stk" using t3(3) ct ps by (simp add: fun_upd_idem)
  have kd: "kinv (env_L E) m0 fsa ext ?d" using user_okD(3) [OF ud] E'(1) by simp
  have k3: "kinv (env_L E) m0 fsa ext t3"
    using halt_kinv [OF kd user_okD(1) [OF u] user_okD(2) [OF u] fr t3(1)] by simp
  note e3 = t3(2) [unfolded ended_def Let_def]
  have pd: "pcbs ?d r = pcbs s r" if "r \<noteq> i" for r
    using alone_fields(6) [OF ad that] t(6) that by (simp add: cli_def)
  have p3: "pcbs t3 r = pcbs s r" if "r \<noteq> i" for r using e3 pd [OF that] that by auto
  have c: "unat (current_terminal ?d) < length (terms ?d)" using user_okD(11) [OF ud] by (simp add: kern_shape_def)
  have cur: "cur_pcb t3 = Some p" using e3 c by (simp add: cur_pcb_def cur_term_def aget_in)
  have tt: "tty_of t3 = tty_of ?d" by (rule same_tty) (use e3 in simp_all)
  have on: "on_screen t3" using user_okD(10) [OF ud] e3 by (simp add: on_screen_def)
  have v3: "paging_view (env_M E) t3 (Some q) vd" using e3 by (simp add: env_M_def pq)
  have u3: "user_ok E m0 fsa ext p q t3"
    using u k3 cur v3 on p3 [OF pi] by (auto simp: user_ok_def Let_def)
  have pr: "processes t3 = processes s"
    by (rule bit_word_eqI) (simp add: stacksD(2) [OF s3] stacksD(2) [OF st])
  have fr3: "free_fds t3 i 2 = [2..<8]"
  proof -
    have "in_use (fd_array (pcbs t3 i) ! g) = 0" if "g \<in> set [2..<8]" for g using e3 that by auto
    then show ?thesis unfolding free_fds_def by (intro filter_True) simp
  qed
  have halted: "syscall_handler (env_L E) (env_dev E) (env_fr E) (env_lit E) [] (DO_CALL 1 v 0 0) t1 =
      Some (Resume (parent_sp (pcbs ?d i)) (parent_bp (pcbs ?d i)) t3)"
    using t3(1) by (simp add: syscall_handler_def syscalls_def DO_CALL_def Let_def MIN_SYSTEM_CALLS_def MAX_SYSTEM_CALLS_def)
  have run: "user_execute E prog b (s, hss) = Some (0, (sti (sti t3), hss'))"
    using user_put_eq [OF u b(1) b0] call t1(1) halted by (simp add: user_execute_def execute_resumed_def t0_def)
  have fin: "tty_of t3 = f (tty_of s)" using tt t1(4) t0(3) t(4) w(2) by simp
  have ct3: "current_terminal t3 = current_terminal s" using e3 ct by simp
  have ff: "user_ok E m0 fsa ext p q (sti (sti t3))" by (intro user_ok_flag(2) u3)
  have ss: "stacks (sti (sti t3)) stk" by (rule stacks_alone [OF _ s3 kinvD(2) [OF k3]]) simp
  have "keys_kept ?d t3" by (rule same_keys_kept) (use e3 in blast)
  then have "keys_kept s t3"
    using keys_kept_trans [OF alone_procs(2) [OF ac] keys_kept_trans [OF t(10) keys_kept_trans [OF alone_procs(2) [OF ad]]]] by simp
  then have kk: "keys_kept s (sti (sti t3))" by (simp add: keys_kept_def kb_calm_def sti_def)
  have "processes (sti (sti t3)) = processes t3" "current_terminal (sti (sti t3)) = current_terminal t3"
    "free_fds (sti (sti t3)) i 2 = free_fds t3 i 2" by (simp_all add: sti_def free_fds_def)
  then show ?thesis using run ff ss fin pr ct3 p3 fr3 kk pi by (intro exI [of _ "sti (sti t3)"]) simp
qed

end
