(* ===== verification/User_Line.thy ===== *)
theory User_Line
  imports Echo User_Exec
begin

text \<open>
  Reading a line of the terminal, as a program sees it: what is typed comes back in the buffer, its
  echo is on the screen, and nothing else has changed.
\<close>

section \<open>What the keyboard leaves alone\<close>

definition still :: "'a kern_scheme \<Rightarrow> 'a kern_scheme \<Rightarrow> bool" where
  "still s t \<longleftrightarrow>
     page_directory_set t = page_directory_set s \<and> page_table t = page_table s \<and> v_m_page_table t = v_m_page_table s \<and>
     cr0 t = cr0 s \<and> cr3 t = cr3 s \<and> cr4 t = cr4 s \<and> start_fs t = start_fs s \<and> directoryIndex t = directoryIndex s \<and>
     processes t = processes s \<and> current_terminal t = current_terminal s \<and> pcbs t = pcbs s \<and> terms t = terms s"

lemma still_refl [simp]: "still s s"
  by (simp add: still_def)

lemma still_trans: "still s t \<Longrightarrow> still t u \<Longrightarrow> still s u"
  by (simp add: still_def)

lemma still_console:
  assumes m: "console.more t = console.more (s :: 'a kern_scheme)"
  shows "still s t"
  using kern_more_console [OF m] console_pages [OF m] by (simp add: still_def)

lemma still_simps [simp]:
  "still s (t\<lparr>length_typed := i\<rparr>) = still s t" "still s (t\<lparr>input_buffer := b\<rparr>) = still s t"
  "still s (t\<lparr>temp_buffer := b\<rparr>) = still s t" "still s (t\<lparr>old_length_typed := i\<rparr>) = still s t"
  "still s (t\<lparr>can_read := c\<rparr>) = still s t" "still s (t\<lparr>shift_flag := i\<rparr>) = still s t"
  "still s (t\<lparr>caps_flag := i\<rparr>) = still s t" "still s (t\<lparr>cursor_x := x\<rparr>) = still s t"
  "still s (t\<lparr>cursor_y := x\<rparr>) = still s t" "still s (t\<lparr>mem := m\<rparr>) = still s t"
  "still s (sti t) = still s t" "still s (cli t) = still s t" "still s (outb v p t) = still s t" "still s (flush t) = still s t"
  "still s (put_cell y x c8 t) = still s t"
  by (simp_all add: still_def sti_def cli_def outb_def flush_def put_cell_def poke_def)

lemma key_action_still:
  assumes t: "key_action k s = Some t"
  shows "still s t"
proof -
  have w: "still s (wrapped s)" by (simp add: wrapped_def)
  have ty: "still s t" if "type_char k s = Some t"
    using that by (auto simp: type_char_def Let_def split: if_splits Option.bind_splits)
  have bs: "still s (press_backspace s)" by (simp add: press_backspace_def Let_def)
  have en: "still s (press_enter s)" by (simp add: press_enter_def Let_def)
  show ?thesis using t ty bs en by (auto simp: key_action_def split: if_splits)
qed

lemma key_irq_still:
  assumes ok: "kb_ok s" "ctrl_pressed s = 0" and k: "unat k < 100" "k \<noteq> CTRL"
  shows "still s (key_irq L fr k s)" and "kinv M m0 fsa ext s \<Longrightarrow> kinv M m0 fsa ext (key_irq L fr k s)"
proof -
  define s1 where "s1 = snd (inb (\<lambda>_ _. k) KEYBOARD_DATA_PORT (cli s))"
  note e = key_irq_eq [OF ok k, folded s1_def]
  have s1: "still s s1" by (simp add: s1_def inb_def still_def cli_def)
  obtain t where t: "key_action k (wrapped s1) = Some t" "kb_mid t"
    "key_irq L fr k s = sti (send_eoi 1 (scroll_if_needed (move_cursor_to (cursor_x t) (cursor_y t) t)))"
    using e(1) by blast
  let ?u = "scroll_if_needed (move_cursor_to (cursor_x t) (cursor_y t) t)"
  have "still s1 (wrapped s1)" by (simp add: wrapped_def)
  then have "still s1 t" using key_action_still [OF t(1)] still_trans by blast
  moreover have "still t ?u" by (rule still_console [OF finish_key(3) [OF t(2)]])
  ultimately have "still s ?u" using s1 still_trans by blast
  then show "still s (key_irq L fr k s)" unfolding t(3) by (simp add: send_eoi_def)
  assume "kinv M m0 fsa ext s"
  then have "kinv M m0 fsa ext s1" by (simp add: s1_def inb_def)
  moreover have "key_press k s1 = Some ?u"
    using k(2) t(1) by (simp add: key_press_def Let_def wrapped_def key_action_def)
  ultimately have "kinv M m0 fsa ext ?u" by (rule key_press_kinv)
  then show "kinv M m0 fsa ext (key_irq L fr k s)" unfolding t(3) by simp
qed

lemma key_irqs_still:
  assumes "\<forall>k \<in> set ks. unat k < 100 \<and> k \<noteq> CTRL"
  shows "kb_ok s \<Longrightarrow> ctrl_pressed s = 0 \<Longrightarrow>
    still s (fold (key_irq L fr) ks s) \<and> (kinv M m0 fsa ext s \<longrightarrow> kinv M m0 fsa ext (fold (key_irq L fr) ks s))"
  using assms
proof (induction ks arbitrary: s)
  case (Cons k ks)
  then have k: "unat k < 100" "k \<noteq> CTRL" by simp_all
  note e = key_irq_edits [OF Cons.prems(1,2) k, where L = L and fr = fr]
  note i = key_irq_still [OF Cons.prems(1,2) k, where L = L and fr = fr]
  have ks: "\<forall>k \<in> set ks. unat k < 100 \<and> k \<noteq> CTRL" using Cons.prems(3) by simp
  show ?case using Cons.IH [OF e(1,2) ks] still_trans [OF i(1)] i(2) by simp
qed simp

lemma still_quiet: "still s t \<Longrightarrow> \<forall>x. \<not> scratch L x \<longrightarrow> mem t x = mem s x \<Longrightarrow> quiet L s t"
  by (simp add: still_def quiet_def)

section \<open>A line\<close>

text \<open>The keyboard is at rest: no line has been entered and control is not held.\<close>

definition kb_rest :: "'a kern_scheme \<Rightarrow> bool" where
  "kb_rest s \<longleftrightarrow> kb_ok s \<and> ctrl_pressed s = 0 \<and> can_read s \<noteq> 1"

text \<open>The user types a line and enters it.\<close>

definition types :: "u8 list \<Rightarrow> 'a kern_scheme \<Rightarrow> u8 list \<Rightarrow> bool" where
  "types ks s xs \<longleftrightarrow> (\<forall>k \<in> set ks. unat k < 100 \<and> k \<noteq> CTRL \<and> k \<noteq> ENTER) \<and>
     xs = line (fold ed_press ks (editor_of s)) \<and> length xs < 127 \<and> 0 \<notin> set xs \<and>
     row (typed (ks @ [ENTER]) (editor_of s) (tty_of s)) < 25"

definition key_irqs :: "uenv \<Rightarrow> u8 list \<Rightarrow> ('a kern_scheme \<Rightarrow> 'a kern_scheme) list" where
  "key_irqs E ks = map (key_irq (env_L E) (env_fr E)) (ks @ [ENTER])"

lemma typed_append: "typed (ks @ [k]) e t = tty_press k (fold ed_press ks e) (typed ks e t)"
  by (induction ks arbitrary: e t) simp_all

lemma enter_col: "col (tty_press ENTER e t) = 0"
  by (simp add: tty_press_def tty_key_def tty_scroll_def)

lemma kinv_line_taken:
  assumes k: "kinv L m0 fsa ext s" and b: "block_ok L buf n" and xs: "Suc (length xs) \<le> n"
  shows "kinv L m0 fsa ext (line_taken xs buf s)"
proof -
  have l: "length ((temp_buffer s)[length xs := 0x0A]) = 128" using kinvD(2) [OF k] by (simp add: kern_shape_def)
  have "kinv L m0 fsa ext (s\<lparr>mem := write_bytes buf (xs @ [0x0A]) (mem s)\<rparr>)" by (rule kinv_write [OF k b]) (use xs in simp)
  from kinv_buffers(2) [OF this l]
  have "kinv L m0 fsa ext ((s\<lparr>mem := write_bytes buf (xs @ [0x0A]) (mem s)\<rparr>)\<lparr>temp_buffer := (temp_buffer s)[length xs := 0x0A]\<rparr>)" .
  moreover have "(s\<lparr>mem := write_bytes buf (xs @ [0x0A]) (mem s)\<rparr>)\<lparr>temp_buffer := (temp_buffer s)[length xs := 0x0A]\<rparr> =
      s\<lparr>temp_buffer := (temp_buffer s)[length xs := 0x0A], mem := write_bytes buf (xs @ [0x0A]) (mem s)\<rparr>" by simp
  ultimately show ?thesis unfolding line_taken_def by (intro kinv_flush) (simp only: kinv_frame)
qed

lemma home_rows:
  assumes u: "user_ok E m0 fsa ext p q s" and i: "i < 1025"
  shows "\<not> in_rows (home_pa E q + of_nat i)"
  using unat_home(3) [OF u] home_at [OF u i] by (simp add: in_rows_def in_region_nowrap VIDEO_def)

lemma call_read_line:
  fixes s :: "'a kern_scheme"
  assumes u: "user_ok E m0 fsa ext p q s" and inp: "in_use (fd_array (pcbs s p) ! 0) = 1" "fops (fd_array (pcbs s p) ! 0) = Some Terminal_fops"
    and kb: "kb_rest s" and ty: "types ks s xs" and n: "128 \<le> max (unat n) 128" "max (unat n) 128 \<le> 1025" "Suc (length xs) < unat n"
  shows "\<exists>t. user_call E (key_irqs E ks @ hs) (DO_CALL 3 0 (env_va E) n) s = Some (of_nat (Suc (length xs)), t) \<and>
    user_ok E m0 fsa ext p q t \<and> same_procs p s t \<and> pcbs t = pcbs s \<and> kb_calm t \<and>
    editor_of t = (fold ed_press ks (editor_of s))\<lparr>line := [], entered := None\<rparr> \<and>
    tty_of t = typed (ks @ [ENTER]) (editor_of s) (tty_of s) \<and>
    bytes_at (mem t) (home_pa E q) (unat n) = xs @ 0x0A # replicate (unat n - Suc (length xs)) 0 \<and>
    (\<forall>i < 1025. unat n \<le> i \<longrightarrow> mem t (home_pa E q + of_nat i) = mem s (home_pa E q + of_nat i)) \<and>
    fd_extent (read_extent 0 n s) s 0 (env_va E) = max (unat n) 128"
proof -
  let ?c = "cli s" and ?va = "env_va E" and ?pa = "home_pa E q"
  have uc: "user_ok E m0 fsa ext p q ?c" by (rule user_ok_flag(1) [OF u])
  note k = user_okD(3) [OF uc] and h = user_okD(1) [OF u]
  have ks: "\<forall>k \<in> set ks. unat k < 100 \<and> k \<noteq> CTRL \<and> k \<noteq> ENTER" "xs = line (fold ed_press ks (editor_of s))"
    "length xs < 128" "0 \<notin> set xs" and row: "row (typed (ks @ [ENTER]) (editor_of s) (tty_of s)) < 25"
    using ty unfolding types_def by auto
  have ks': "\<forall>k \<in> set (ks @ [ENTER]). unat k < 100 \<and> k \<noteq> CTRL" using ks(1) by (auto simp: key_codes)
  obtain v where v: "paging_view (env_M E) ?c (Some q) v" using user_okD(6) [OF uc] by blast
  note dr = user_fd_driver [OF uc, of 0, OF _ refl, simplified, OF inp [simplified]]
    and drs = user_fd_driver [OF u, of 0, OF _ refl, simplified, OF inp]
  have ext: "fd_extent (read_extent 0 n ?c) ?c 0 ?va = max (unat n) 128" "fd_extent (read_extent 0 n s) s 0 ?va = max (unat n) 128"
    using dr(1) drs(1) home_block(4) [OF u] by (simp_all add: fd_extent_def read_extent_def)
  have sp: "span (env_M E) ?c False ?va (max (unat n) 128) = Some ?pa" using home_span [OF v u n(2), of False] by simp
  have kbc: "kb_ok ?c" "ctrl_pressed ?c = 0" "can_read ?c \<noteq> 1" "editor_of ?c = editor_of s"
    using kb by (simp_all add: kb_rest_def kb_ok_def kern_shape_def editor_of_def cli_def)
  define s0 where "s0 = (sti ?c)\<lparr>mem := memset (mem ?c) ?pa 0 n\<rparr>"
  have s0: "kb_ok s0" "ctrl_pressed s0 = 0" "editor_of s0 = editor_of s" "still s s0"
    using kbc(1-3) kbc(4) by (simp_all add: s0_def sti_def kb_ok_def kern_shape_def editor_of_def cli_def still_def)
  define s2 where "s2 = fold (key_irq (env_L E) (env_fr E)) (ks @ [ENTER]) s0"
  note e2 = key_irqs_edit [OF ks' s0(1,2), where L = "env_L E" and fr = "env_fr E", folded s2_def]
    and g2 = key_irqs_grid [OF ks' s0(1,2), of "env_L E" "env_fr E", folded s2_def]
    and k2 = key_irqs_still [OF ks' s0(1,2), of "env_L E" "env_fr E", folded s2_def]
  let ?t = "line_taken xs ?pa s2"
  have rows: "\<forall>i < unat n. \<not> in_rows (?pa + of_nat i)" using home_rows [OF u] n(2) by simp
  have ks2: "xs = line (fold ed_press ks (editor_of ?c))" using ks(2) kbc(4) by simp
  note rd = typed_line_read [OF kbc(1-3) ks(1) ks2 ks(3,4) n(3) rows, where L = "env_L E" and fr = "env_fr E",
      folded s0_def s2_def]
  have "sys_read (key_irqs E ks @ hs) 0 ?pa n ?c = Some (of_nat (Suc (length xs)), ?t)"
    using rd(1) home_block(3) [OF u] dr(2) inp by (simp add: sys_read_def driver_read_def key_irqs_def word_less_nat_alt)
  then have call: "user_call E (key_irqs E ks @ hs) (DO_CALL 3 0 ?va n) s = Some (of_nat (Suc (length xs)), sti ?t)"
    using ext(1) sp
    by (simp add: user_call_def syscall_handler_def syscalls_def DO_CALL_def Let_def env_M_def MIN_SYSTEM_CALLS_def MAX_SYSTEM_CALLS_def)
  have b: "block_ok (env_L E) ?pa (unat n)" by (rule block_sub [OF home_block(1) [OF u]]) (use n(2) in simp)
  have z: "memset (mem s) ?pa 0 n = write_bytes ?pa (replicate (unat n) 0) (mem s)" by (simp add: memset_fill)
  have mc: "mem ?c = mem s" by simp
  have k0: "kinv (env_L E) m0 fsa ext s0"
    unfolding s0_def mc z using kinv_write [OF user_okD(3) [OF user_ok_flag(2) [OF uc]] b, of "replicate (unat n) 0"] by simp
  have kt: "kinv (env_L E) m0 fsa ext ?t" by (rule kinv_line_taken [OF _ b]) (use k2 k0 n(3) in simp_all)
  have st: "still s ?t" using still_trans [OF s0(4), of s2] k2 by (simp add: line_taken_def)
  have q1: "quiet (env_L E) s ?t"
    by (rule still_quiet [OF st]) (use kinvD(7) [OF kt] kinvD(7) [OF user_okD(3) [OF u]] in simp)
  have pc: "pcbs ?t = pcbs s" using st by (simp add: still_def)
  have al: "same_procs p s ?t" by (rule same_procs_quiet [OF q1 pc])
  have t0: "tty_of s0 = tty_of s"
  proof (rule same_tty)
    fix x assume x: "in_screen x"
    have "\<not> in_region ?pa (unat n) x"
    proof
      assume "in_region ?pa (unat n) x"
      then have "unat (x - ?pa) < 1025" using n(2) by (simp add: in_region_def)
      from home_block(2) [OF u this] show False using x by simp
    qed
    then show "mem s0 x = mem s x" by (simp add: s0_def z write_bytes_def)
  qed (simp_all add: s0_def sti_def cli_def)
  have t2: "tty_of ?t = tty_of s2"
  proof (rule same_tty)
    fix x assume x: "in_screen x"
    have "\<not> in_region ?pa (length (xs @ [0x0A])) x"
    proof
      assume "in_region ?pa (length (xs @ [0x0A])) x"
      then have "unat (x - ?pa) < 1025" using n by (simp add: in_region_def)
      from home_block(2) [OF u this] show False using x by simp
    qed
    then show "mem ?t x = mem s2 x" by (simp add: line_taken_def flush_def write_bytes_def)
  qed (simp_all add: line_taken_def flush_def)
  have tt: "tty_of ?t = typed (ks @ [ENTER]) (editor_of s) (tty_of s)" using t2 g2 t0 s0(3) by simp
  have e2': "editor_of s2 = fold ed_press (ks @ [ENTER]) (editor_of s)" "kb_ok s2" "ctrl_pressed s2 = 0"
    using e2 s0(3) by simp_all
  have flag: "kb_calm (sti w) = kb_calm w" "editor_of (sti w) = editor_of w" for w :: "'a kern_scheme"
    by (simp_all add: kb_calm_def editor_of_def sti_def)
  have calm: "kb_calm ?t" using e2'(2,3) by (simp add: kb_calm_def kb_ok_def line_taken_def flush_def)
  have "editor_of ?t = (editor_of s2)\<lparr>line := [], entered := None\<rparr>"
    by (simp add: editor_of_def line_taken_def flush_def)
  then have ed: "editor_of ?t = (fold ed_press ks (editor_of s))\<lparr>line := [], entered := None\<rparr>"
    unfolding e2'(1) by (simp add: ed_press_def key_codes)
  have on: "on_screen ?t"
  proof -
    have c: "row (tty_of ?t) < 25" "col (tty_of ?t) = 0" using row unfolding tt by (simp_all add: typed_append enter_col)
    have "kb_ok s2" using e2 by blast
    then have "0 \<le> cursor_x ?t" "0 \<le> cursor_y ?t" by (simp_all add: kb_ok_def line_taken_def flush_def)
    then show ?thesis using c by (simp add: on_screen_def tty_of_def)
  qed
  have ut: "user_ok E m0 fsa ext p q ?t" by (rule user_ok_step [OF u kt q1 _ on]) (simp add: pc)
  have "mem ?t (?pa + of_nat i) = mem s (?pa + of_nat i)" if i: "i < 1025" "unat n \<le> i" for i
  proof -
    have o: "\<not> in_region ?pa j (?pa + of_nat i)" if "j \<le> unat n" for j using i that by (simp add: in_region_def)
    have "mem ?t (?pa + of_nat i) = mem s2 (?pa + of_nat i)"
      using o [of "length (xs @ [0x0A])"] n(3) by (simp add: line_taken_def flush_def write_bytes_outside)
    also have "\<dots> = mem s0 (?pa + of_nat i)" using e2 home_rows [OF u i(1)] by blast
    also have "\<dots> = mem s (?pa + of_nat i)"
      using o [of "unat n"] by (simp add: s0_def z write_bytes_outside)
    finally show ?thesis .
  qed
  then show ?thesis
    using call user_ok_flag(2) [OF ut] al pc tt rd(2) ext(2) calm ed by (intro exI [of _ "sti ?t"]) (simp add: flag)
qed

end
