(* ===== verification/User_Props.thy ===== *)
theory User_Props
  imports User_Line Kernel_Props
begin

text \<open>
  Properties of the programs on the kernel: what is on the screen when a program is done, as a function
  of what was typed and of the files the boot loader put into memory.
\<close>

section \<open>Programs in a live kernel\<close>

lemma live_user_ok:
  assumes l: "live K a fsa ext s (t, A)" and E: "env_L E = klayout.truncate K"
    and p: "cur_pcb t = Some p" and on: "on_screen t" and out: "fd_array (pcbs t p) ! 1 = open_entry Terminal_fops 0"
    and va: "0x8000000 \<le> unat (env_va E)" "unat (env_va E) + 1025 \<le> 0x8400000"
  shows "\<exists>q. user_ok E (mem s) fsa ext p q t"
proof -
  have k: "kinv (env_L E) (mem s) fsa ext t" using live_minv(1) [OF l] by (simp add: E minv_def)
  obtain q v where "q < 6" "paging_view (env_M E) t (Some q) v"
    using kinvD(3) [OF k] by (auto simp: settled_def env_M_def)
  then show ?thesis
    using live_minv(2,3) [OF l] k assms(2-7) by (auto simp: user_ok_def open_entry_def)
qed

lemma c_str_exists: "0 \<in> set b \<Longrightarrow> \<exists>ys. c_str (aget b) ys"
proof -
  assume "0 \<in> set b"
  then obtain ys zs where "b = ys @ 0 # zs" "0 \<notin> set ys" by (meson split_list_first)
  then show ?thesis using c_str_aget by blast
qed

lemma cat_prints:
  assumes u: "user_ok E m0 fsa ext p q s" and as: "args (pcbs s p) = pad 95 xs" "0 \<notin> set xs"
    and xs: "xs \<noteq> []" "length xs \<le> 64" "take 5 xs \<noteq> chars ''stdin''" "take 6 xs \<noteq> chars ''stdout''"
    and b: "length b = 1024" "0 \<in> set b" and l: "unat (env_lit E) + 1025 \<le> 0x800000"
  shows "first_entry m0 fsa xs = None \<Longrightarrow> \<exists>t. cat_main (kernel_os E prog) b (s, hss) = Some (2, (t, hss)) \<and>
      user_ok E m0 fsa ext p q t \<and> alone p s t \<and> tty_of t = says (chars ''file not found\<newline>'') (tty_of s)"
    and "first_entry m0 fsa xs = Some e \<Longrightarrow> file_type e = 2 \<Longrightarrow> free_fds s p 2 \<noteq> [] \<Longrightarrow>
      \<exists>t. cat_main (kernel_os E prog) b (s, hss) = Some (0, (t, hss)) \<and>
        user_ok E m0 fsa ext p q t \<and> alone p s t \<and> tty_of t = says (contents m0 fsa (inode_num e)) (tty_of s)"
proof -
  obtain ys where ys: "c_str (aget b) ys" using c_str_exists [OF b(2)] by blast
  have "95 \<le> length b" "length b \<le> 1025" "0 < sint (1024 :: u32)" "length xs < 95" using b(1) xs(2) by simp_all
  from user_getargs_eq [OF u as(1,2) this(4) xs(1) this(1,2) ys this(3) l, of hss]
  obtain r t1 where t1: "user_getargs E b 1024 (s, hss) = Some (0, pad 95 xs @ r, (t1, hss))" "length r = length b - 95"
    "user_ok E m0 fsa ext p q t1" "tty_of t1 = tty_of s" "pcbs t1 = pcbs s" "alone p s t1" by blast
  have pl: "length (pad 95 xs) = 95" using xs(2) by (simp add: pad_def)
  have bl: "length (pad 95 xs @ r) = 1024" using pl t1(2) b(1) by simp
  have cs: "c_str (aget (pad 95 xs @ r)) xs"
  proof -
    have "pad 95 xs @ r = xs @ 0 # (replicate (94 - length xs) 0 @ r)"
      using xs(2) by (simp add: pad_def flip: replicate_Suc append_assoc)
    then show ?thesis using c_str_aget [OF as(2)] by simp
  qed
  have lb: "length (pad 95 xs @ r) \<le> 1025" using bl by simp
  note op = user_open_eq [OF t1(3) lb cs xs, where hss = hss]
  show "\<exists>t. cat_main (kernel_os E prog) b (s, hss) = Some (2, (t, hss)) \<and> user_ok E m0 fsa ext p q t \<and>
      alone p s t \<and> tty_of t = says (chars ''file not found\<newline>'') (tty_of s)" if none: "first_entry m0 fsa xs = None"
  proof -
    obtain t2 where t2: "user_open E (pad 95 xs @ r) (t1, hss) = Some (- 1, (t2, hss))" "user_ok E m0 fsa ext p q t2"
      "tty_of t2 = tty_of t1" "alone p t1 t2" using op(1) [OF none] by blast
    let ?msg = "''file not found\<newline>''"
    have "0 \<notin> set (chars ?msg)" "length ?msg \<le> 1024" by (simp_all add: chars_def)
    from kscreen.fdputs_lit [of E m0 fsa ext p q "(t2, hss)" "(t2, hss)", OF _ this, of prog]
    have "\<exists>t. ece391_fdputs (kernel_os E prog) 1 (lit ?msg) (t2, hss) = Some (t, hss) \<and> user_ok E m0 fsa ext p q t \<and>
        alone p t2 t \<and> tty_of t = says (chars ?msg) (tty_of t2)"
      using t2(2) by auto
    moreover have "alone p s t2" by (rule alone_trans [OF t1(6) t2(4)])
    ultimately show ?thesis using t1 t2 alone_trans by (fastforce simp: cat_main_def kernel_os_def)
  qed
  show "\<exists>t. cat_main (kernel_os E prog) b (s, hss) = Some (0, (t, hss)) \<and> user_ok E m0 fsa ext p q t \<and>
      alone p s t \<and> tty_of t = says (contents m0 fsa (inode_num e)) (tty_of s)"
    if e: "first_entry m0 fsa xs = Some e" "file_type e = 2" "free_fds s p 2 \<noteq> []"
  proof -
    obtain fd fds where f: "free_fds t1 p 2 = fd # fds" using e(3) t1(5) by (cases "free_fds s p 2") (auto simp: free_fds_def)
    then have "fd \<in> set (free_fds t1 p 2)" by simp
    then have "fd \<in> set [2..<8]" unfolding free_fds_def set_filter by (simp only: mem_Collect_eq)
    then have fd: "2 \<le> fd" "fd < 8" by (simp_all only: set_upt atLeastLessThan_iff)
    have d: "driver_of_type (file_type e) = Some File_fops" using e(2) by (simp add: driver_of_type_def)
    obtain t2 where t2: "user_open E (pad 95 xs @ r) (t1, hss) = Some (of_nat fd, (t2, hss))" "user_ok E m0 fsa ext p q t2"
      "tty_of t2 = tty_of t1" "alone p t1 t2" "fd_array (pcbs t2 p) ! fd = open_entry File_fops (inode_num e)"
      using op(2) [OF e(1) d _ f] by blast
    have w: "unat (of_nat fd :: u32) = fd" "(of_nat fd :: u32) \<noteq> - 1" using fd count_word [of fd] by simp_all
    have at: "user_file_at p (of_nat fd) t2" "user_rest m0 fsa p (of_nat fd) t2 = contents m0 fsa (inode_num e)"
      using fd t2(5) by (simp_all add: user_file_at_def user_rest_def w(1) open_entry_def)
    from kfile.cat_loop_prints [of E m0 fsa ext p q "(t2, hss)" "(t2, hss)" "of_nat fd" "pad 95 xs @ r", OF _ bl, of prog]
    have "\<exists>t. cat_loop (kernel_os E prog) (of_nat fd) (pad 95 xs @ r) (t2, hss) = Some (0, (t, hss)) \<and>
        user_ok E m0 fsa ext p q t \<and> alone p t2 t \<and> tty_of t = says (contents m0 fsa (inode_num e)) (tty_of t2)"
      using t2(2) at by auto
    moreover have "alone p s t2" by (rule alone_trans [OF t1(6) t2(4)])
    ultimately show ?thesis using t1 t2 w(2) alone_trans by (fastforce simp: cat_main_def kernel_os_def)
  qed
qed

text \<open>Executing \<open>cat\<close>, as a step of the program that does it.\<close>

lemma user_cat_runs:
  assumes "user_ok E m0 fsa ext p q s" and "stacks s stk"
    and "length b \<le> 1025" and "c_str (aget b) xs" and "length xs < 32"
    and "cmd_name xs \<noteq> []" and "first_entry m0 fsa (cmd_name xs) = Some cat"
    and "take 4 (contents m0 fsa (inode_num cat)) = EXEC_BITS"
    and "free_slots 0 (processes s) = i # slots" and "free_fds s i 2 \<noteq> []" and "on_stack (env_fr E)"
    and "env_L E' = env_L E" and "0x8000000 \<le> unat (env_va E')" and "unat (env_va E') + 1025 \<le> 0x8400000"
    and "unat (env_lit E') + 1025 \<le> 0x800000" and "length buf = 1024" and "0 \<in> set buf"
    and "cmd_args xs \<noteq> []" and "take 5 (cmd_args xs) \<noteq> chars ''stdin''" and "take 6 (cmd_args xs) \<noteq> chars ''stdout''"
    and "case first_entry m0 fsa (cmd_args xs) of None \<Rightarrow> True | Some e \<Rightarrow> file_type e = 2"
  defines "output \<equiv> (case first_entry m0 fsa (cmd_args xs) of
      None \<Rightarrow> chars ''file not found\<newline>'' | Some e \<Rightarrow> contents m0 fsa (inode_num e))"
  shows "\<exists>t. user_execute E (\<lambda>eip. cat_main (kernel_os E' prog) buf) b (s, hss) = Some (0, (t, hss)) \<and>
    tty_of t = says output (tty_of s) \<and> user_ok E m0 fsa ext p q t \<and> stacks t stk \<and> processes t = processes s \<and>
    current_terminal t = current_terminal s \<and> free_fds t i 2 = [2..<8] \<and> pcbs t p = pcbs s p \<and> keys_kept s t"
proof -
  have z: "0 \<notin> set (cmd_args xs)" using cmd_no_zero [of xs] assms(4) by (simp add: c_str_def)
  have l: "length (cmd_args xs) \<le> 64" using cmd_lengths [of xs] assms(5) by simp
  have "\<exists>v t'. cat_main (kernel_os E' prog) buf (t, hss) = Some (v, (t', hss)) \<and> user_ok E' m0 fsa ext i i t' \<and>
      alone i t t' \<and> tty_of t' = says output (tty_of t)"
    if "user_ok E' m0 fsa ext i i t" "args (pcbs t i) = pad 95 (cmd_args xs)" "free_fds t i 2 = free_fds s i 2" for t
  proof -
    note run = cat_prints [OF that(1,2) z assms(18) l assms(19,20,16,17,15), where prog = prog and hss = hss]
    show ?thesis
    proof (cases "first_entry m0 fsa (cmd_args xs)")
      case None
      then show ?thesis using run(1) by (fastforce simp: output_def)
    next
      case (Some e)
      then show ?thesis using run(2) [OF Some] assms(10,21) that(3) by (fastforce simp: output_def)
    qed
  qed
  from user_execute_runs [OF assms(1,3,4,5,2,6-9,11-14) this] show ?thesis by blast
qed


section \<open>A sample program\<close>

definition env0 :: uenv where
  "env0 = \<lparr>env_L = lay, env_dev = dev0, env_fr = frame0, env_lit = 0, env_regs = \<lparr>eax = 0, ebx = 0, ecx = 0, edx = 0\<rparr>,
     env_va = 0x8050000\<rparr>"

lemma sample_user:
  "\<exists>t. live link0 0 img0 12288 boot0 (t, \<lambda>_. Running) \<and> user_ok env0 loader_mem img0 12288 0 0 t \<and>
    stacks t ((\<lambda>_. [])(0 := [0])) \<and> free_slots 0 (processes t) = [1, 2, 3, 4, 5] \<and> free_fds t 1 2 = [2, 3, 4, 5, 6, 7] \<and>
    in_use (fd_array (pcbs t 0) ! 0) = 1 \<and> fops (fd_array (pcbs t 0) ! 0) = Some Terminal_fops \<and>
    kb_calm t \<and> (editor_of t)\<lparr>line := []\<rparr> = \<lparr>line = [], shift = False, caps = False, entered = None\<rparr> \<and>
    row (tty_of t) = 0 \<and> col (tty_of t) = 0 \<and> (\<forall>fd \<ge> 2. fd < 8 \<longrightarrow> in_use (fd_array (pcbs t 0) ! fd) = 0)"
proof -
  obtain t where t: "\<And>m. reachable lay 0 t m \<Longrightarrow> live link0 0 img0 12288 boot0 m" "paging_view lay' t (Some 0) False"
    "cur_pcb t = Some 0" "\<forall>r. \<forall>fd \<ge> 2. fd < 8 \<longrightarrow> in_use (fd_array (pcbs t r) ! fd) = 0" "in_use (fd_array (pcbs t 0) ! 1) = 1"
    "stacks t ((\<lambda>_. [])(0 := [0]))" "on_screen t" "processes t = 1"
    "in_use (fd_array (pcbs t 0) ! 0) = 1" "same_keys boot0 t" "cursor_x t = 0" "cursor_y t = 0"
    using sample_start by blast
  have l: "live link0 0 img0 12288 boot0 (t, \<lambda>_. Running)" by (rule t(1) [OF reachable.start])
  have k: "kinv lay loader_mem img0 12288 t" using live_minv(1) [OF l] by (simp add: minv_def sample_links)
  have "fd_ok 1 (fd_array (pcbs t 0) ! 1)" using kinvD(1) [OF k] by (simp add: fds_ok_def)
  then have out: "fops (fd_array (pcbs t 0) ! 1) = Some Terminal_fops" using t(5) by (auto simp: fd_ok_def)
  have "fd_ok 0 (fd_array (pcbs t 0) ! 0)" using kinvD(1) [OF k] by (simp add: fds_ok_def)
  then have inp: "fops (fd_array (pcbs t 0) ! 0) = Some Terminal_fops" using t(9) by (auto simp: fd_ok_def)
  have keys: "kb_calm t" "(editor_of t)\<lparr>line := []\<rparr> = \<lparr>line = [], shift = False, caps = False, entered = None\<rparr>"
    using t(10) by (simp_all add: same_keys_def kb_calm_def editor_of_def boot0_def kern.defs kernel0_def)
  have "image_ok loader_mem img0 12288" using live_minv(3) [OF l] by simp
  then have "user_ok env0 loader_mem img0 12288 0 0 t"
    using sample_home k t out by (auto simp: user_ok_def env_M_def env0_def)
  moreover have "free_slots 0 (processes t) = [1, 2, 3, 4, 5]"
    by (simp add: t(8) free_slots_def upt_rec bit_numeral_word_iff)
  moreover have "free_fds t 1 2 = [2, 3, 4, 5, 6, 7]" using t(4) by (simp add: free_fds_def upt_rec)
  moreover have "row (tty_of t) = 0" "col (tty_of t) = 0" using t(11,12) by (simp_all add: tty_of_def)
  ultimately show ?thesis using l t(4,6,9) inp keys by blast
qed

lemma sample_entry:
  "first_entry loader_mem img0 (chars ''shell'') = Some (dentry_bytes image_mem (dir_addr img0 0))"
  using image_first [OF loader_image] by (simp add: first_entry_def)

section \<open>cat\<close>



end
