(* ===== verification/User_Shell.thy ===== *)
theory User_Shell
  imports User_Line
begin

text \<open>
  One turn of the shell: the prompt, a line typed by the user, and what the shell makes of it.
\<close>

section \<open>Reading the line\<close>

lemma user_read_line:
  fixes s :: "'a kern_scheme"
  assumes u: "user_ok E m0 fsa ext p q s" and inp: "in_use (fd_array (pcbs s p) ! 0) = 1" "fops (fd_array (pcbs s p) ! 0) = Some Terminal_fops"
    and kb: "kb_rest s" and ty: "types ks s xs"
    and b: "length b \<le> 1025" "unat n \<le> length b" "128 \<le> length b" and n: "Suc (length xs) < unat n"
  shows "\<exists>t. user_read E 0 b n (s, (key_irqs E ks @ hs) # hss) =
      Some (of_nat (Suc (length xs)), xs @ 0x0A # replicate (unat n - Suc (length xs)) 0 @ drop (unat n) b, (t, hss)) \<and>
    user_ok E m0 fsa ext p q t \<and> same_procs p s t \<and> pcbs t = pcbs s \<and> kb_calm t \<and>
    editor_of t = (fold ed_press ks (editor_of s))\<lparr>line := [], entered := None\<rparr> \<and>
    tty_of t = typed (ks @ [ENTER]) (editor_of s) (tty_of s)"
proof -
  let ?s1 = "s\<lparr>mem := write_bytes (home_pa E q) b (mem s)\<rparr>"
  note h = home_write [OF u b(1)]
  have b0: "b \<noteq> []" using b(3) by auto
  have e: "editor_of ?s1 = editor_of s" "kb_rest ?s1 = kb_rest s"
    by (simp_all add: editor_of_def kb_rest_def kb_ok_def kern_shape_def)
  have ty1: "types ks ?s1 xs" using ty unfolding types_def e(1) h(2) .
  have m: "128 \<le> max (unat n) 128" "max (unat n) 128 \<le> 1025" using b(1,2) by simp_all
  have i1: "in_use (fd_array (pcbs ?s1 p) ! 0) = 1" "fops (fd_array (pcbs ?s1 p) ! 0) = Some Terminal_fops" using inp by simp_all
  obtain t where t: "user_call E (key_irqs E ks @ hs) (DO_CALL 3 0 (env_va E) n) ?s1 = Some (of_nat (Suc (length xs)), t)"
    "user_ok E m0 fsa ext p q t" "same_procs p ?s1 t" "pcbs t = pcbs ?s1"
    "tty_of t = typed (ks @ [ENTER]) (editor_of ?s1) (tty_of ?s1)"
    "bytes_at (mem t) (home_pa E q) (unat n) = xs @ 0x0A # replicate (unat n - Suc (length xs)) 0"
    "\<forall>i < 1025. unat n \<le> i \<longrightarrow> mem t (home_pa E q + of_nat i) = mem ?s1 (home_pa E q + of_nat i)"
    "fd_extent (read_extent 0 n ?s1) ?s1 0 (env_va E) = max (unat n) 128"
    "kb_calm t" "editor_of t = (fold ed_press ks (editor_of ?s1))\<lparr>line := [], entered := None\<rparr>"
    using call_read_line [OF h(1) i1 _ ty1 m n] kb e(2) by blast
  have "bytes_at (mem t) (home_pa E q) (length b) = xs @ 0x0A # replicate (unat n - Suc (length xs)) 0 @ drop (unat n) b"
  proof (rule nth_equalityI)
    show "length (bytes_at (mem t) (home_pa E q) (length b)) =
        length (xs @ 0x0A # replicate (unat n - Suc (length xs)) 0 @ drop (unat n) b)" using b(2) n by simp
    fix i assume "i < length (bytes_at (mem t) (home_pa E q) (length b))"
    then have i: "i < length b" by simp
    let ?bs = "xs @ 0x0A # replicate (unat n - Suc (length xs)) 0"
    have l: "length ?bs = unat n" using n by simp
    have "mem t (home_pa E q + of_nat i) = (?bs @ drop (unat n) b) ! i"
    proof (cases "i < unat n")
      case True
      have "bytes_at (mem t) (home_pa E q) (unat n) ! i = ?bs ! i" by (simp only: t(6))
      then show ?thesis unfolding nth_bytes_at [OF True] nth_append l using True by (simp only: if_True)
    next
      case False
      then have "mem t (home_pa E q + of_nat i) = b ! i" using t(7) i b(1) by (simp add: write_bytes_inside)
      moreover have "(?bs @ drop (unat n) b) ! i = drop (unat n) b ! (i - unat n)"
        unfolding nth_append l using False by (simp only: if_False)
      ultimately show ?thesis using False i by simp
    qed
    then show "bytes_at (mem t) (home_pa E q) (length b) ! i = (xs @ 0x0A # replicate (unat n - Suc (length xs)) 0 @ drop (unat n) b) ! i"
      using i by (simp add: nth_bytes_at)
  qed
  moreover have "waits ?s1 0"
    using user_fd_driver(1) [OF h(1) _ refl, of 0 Terminal_fops] i1 by (simp add: waits_def)
  ultimately show ?thesis
    using t(1-5,8-10) same_procs_trans [OF _ t(3)] h(2,4) e(1) b(2,3) user_put_eq [OF u b(1) b0] by (simp add: user_read_def alone_def)
qed

section \<open>A turn of the shell\<close>

abbreviation prompt :: "u8 list" where
  "prompt \<equiv> chars ''391OS> ''"

text \<open>The command of a line: what the loop does with one that is neither empty nor \<open>exit\<close>.\<close>

definition shell_command :: "'s os \<Rightarrow> u8 list \<Rightarrow> 's \<Rightarrow> 's option" where
  "shell_command os b s = do {
     (rval, s) \<leftarrow> os_execute os b s;
     if rval = - 1 then ece391_fdputs os 1 (lit ''no such command\<newline>'') s
     else if rval = 256 then ece391_fdputs os 1 (lit ''program terminated by exception\<newline>'') s
     else if rval \<noteq> 0 then ece391_fdputs os 1 (lit ''program terminated abnormally\<newline>'') s
     else Some s }"

text \<open>The screen when the user has typed at the prompt, and the line that was typed.\<close>

definition prompted :: "u8 list \<Rightarrow> 'a kern_scheme \<Rightarrow> tty" where
  "prompted ks s = typed ks ((editor_of s)\<lparr>line := []\<rparr>) (says prompt (tty_of s))"

definition answers :: "u8 list \<Rightarrow> 'a kern_scheme \<Rightarrow> u8 list \<Rightarrow> bool" where
  "answers ks s xs \<longleftrightarrow> (\<forall>k \<in> set ks. unat k < 100 \<and> k \<noteq> CTRL \<and> k \<noteq> ENTER) \<and>
     xs = line (fold ed_press ks ((editor_of s)\<lparr>line := []\<rparr>)) \<and> length xs < 127 \<and> 0 \<notin> set xs \<and>
     row (prompted (ks @ [ENTER]) s) < 25"

lemma flushed_keys:
  assumes f: "flushed s t" and c: "kb_calm s" and u: "user_ok E m0 fsa ext p q t"
  shows "kb_rest t" and "editor_of t = (editor_of s)\<lparr>line := []\<rparr>"
proof -
  have on: "0 \<le> cursor_x t" "cursor_x t < 80" "0 \<le> cursor_y t" "cursor_y t < 25"
    using user_okD(10) [OF u] by (simp_all add: on_screen_def)
  then show "kb_rest t"
    using f c user_okD(11) [OF u] by (simp add: kb_rest_def kb_ok_def kb_calm_def flushed_def)
  show "editor_of t = (editor_of s)\<lparr>line := []\<rparr>" using f c by (simp add: editor_of_def flushed_def kb_calm_def)
qed

lemma shell_turn:
  fixes s :: "'a kern_scheme"
  assumes u: "user_ok E m0 fsa ext p q s" and inp: "fd_array (pcbs s p) ! 0 = d" "in_use d = 1" "fops d = Some Terminal_fops"
    and kb: "kb_calm s" and ty: "answers ks s xs" and b: "length buf = 1024"
  assumes os_def: "os = kernel_os E prog"
  shows "\<exists>t buf'. user_ok E m0 fsa ext p q t \<and> same_procs p s t \<and> pcbs t = pcbs s \<and> tty_of t = prompted (ks @ [ENTER]) s \<and>
    kb_calm t \<and> editor_of t = (fold ed_press ks ((editor_of s)\<lparr>line := []\<rparr>))\<lparr>line := [], entered := None\<rparr> \<and>
    length buf' = 1024 \<and> c_str (aget buf') xs \<and>
    shell_loop os buf (s, (key_irqs E ks @ hs) # hss) =
      (if xs = chars ''exit'' then Some (0, (t, hss))
       else if xs = [] then shell_loop os buf' (t, hss)
       else Option.bind (shell_command os buf' (t, hss)) (shell_loop os buf'))"
proof -
  have pr: "length prompt = 7" "0 \<notin> set prompt" by (simp_all add: chars_def)
  have lp: "length (lit ''391OS> '') \<le> 1025" "lit ''391OS> '' \<noteq> []" "unat (7 :: u32) \<le> length (lit ''391OS> '')"
    by (simp_all add: lit_def chars_def)
  obtain s1 where s1: "user_write E 1 (lit ''391OS> '') 7 (s, (key_irqs E ks @ hs) # hss) = Some (0, (s1, (key_irqs E ks @ hs) # hss))"
    "user_ok E m0 fsa ext p q s1" "tty_of s1 = says (take (unat (7 :: u32)) (lit ''391OS> '')) (tty_of s)"
    "alone p s s1" "pcbs s1 = pcbs s" "flushed s s1"
    using user_write_eq [OF u lp] by blast
  have "strlen (aget (lit ''391OS> '')) = Some 7"
    using strlen_c_str [OF lit_c_str [OF pr(2)]] pr(1) by simp
  then have put: "ece391_fdputs os 1 (lit ''391OS> '') (s, (key_irqs E ks @ hs) # hss) = Some (s1, (key_irqs E ks @ hs) # hss)"
    using s1(1) by (simp add: ece391_fdputs_def ece391_strlen_eq os_def kernel_os_def)
  have t1: "tty_of s1 = says prompt (tty_of s)" using s1(3) pr(1) by (simp add: lit_def)
  note k1 = flushed_keys [OF s1(6) kb s1(2)]
  have ty1: "types ks s1 xs" "length xs < 127" "0 \<notin> set xs" using ty unfolding types_def answers_def prompted_def t1 k1(2) by blast+
  have n: "unat (1023 :: u32) = 1023" by simp
  have x: "Suc (length xs) < unat (1023 :: u32)" using ty1(2) by simp
  let ?w = "of_nat (Suc (length xs)) :: u32"
  define b1 where "b1 = xs @ 0x0A # replicate (1023 - Suc (length xs)) 0 @ drop 1023 buf"
  obtain t where t: "user_read E 0 buf 1023 (s1, (key_irqs E ks @ hs) # hss) = Some (?w, b1, (t, hss))"
    "user_ok E m0 fsa ext p q t" "same_procs p s1 t" "pcbs t = pcbs s1"
    "kb_calm t" "editor_of t = (fold ed_press ks (editor_of s1))\<lparr>line := [], entered := None\<rparr>" "tty_of t = typed (ks @ [ENTER]) (editor_of s1) (tty_of s1)"
    using user_read_line [OF s1(2) _ _ k1(1) ty1(1) _ _ _ x, of buf hs hss] inp b s1(5) unfolding b1_def by auto
  have l: "length xs < 1025" "Suc (length xs) \<le> 1025" using ty1(2) by simp_all
  note cw = count_word [OF l(2)]
  have w: "?w \<noteq> - 1" "?w - 1 = of_nat (length xs)" "unat (of_nat (length xs) :: u32) = length xs"
    using cw(3) ty1(2) by simp_all
  have "sint ?w = int (Suc (length xs))" using l(2) unfolding sint_u32 cw(1) by simp
  then have pos: "sint ?w > 0" by simp
  define b2 where "b2 = b1[length xs := 0]"
  have lb: "length b1 = 1024" using b ty1(2) by (simp add: b1_def)
  have b2: "b2 = xs @ 0 # replicate (1023 - Suc (length xs)) 0 @ drop 1023 buf" "length b2 = 1024"
    using lb by (simp_all add: b2_def b1_def list_update_append)
  have c: "c_str (aget b2) xs" unfolding b2(1) by (rule c_str_aget [OF ty1(3)])
  have nl: "aget b1 (length xs) = Some 0x0A" by (simp add: b1_def aget_def nth_append)
  have st: "aput (length xs) 0 b1 = Some b2" using lb ty1(2) by (simp add: aput_in b2_def)
  obtain d where d: "ece391_strcmp (aget b2) (aget (lit ''exit'')) = Some d" "d = 0 \<longleftrightarrow> xs = chars ''exit''"
    using ece391_strcmp_c_str [OF c lit_c_str [of "''exit''"]] by (auto simp: chars_def)
  obtain c0 where c0: "aget b2 0 = Some c0" "c0 = 0 \<longleftrightarrow> xs = []"
  proof (cases xs)
    case Nil
    then show thesis using that c_str_end [OF c] by simp
  next
    case (Cons y ys)
    then show thesis using that [of y] c_str_nth [OF c, of 0] ty1(3) by auto
  qed
  have al: "same_procs p s t" by (rule same_procs_trans [OF _ t(3)]) (use s1(4) in \<open>simp add: alone_def\<close>)
  have "tty_of t = prompted (ks @ [ENTER]) s" by (simp only: t(7) prompted_def t1 k1(2))
  moreover have rd: "os_read os 0 buf 1023 (s1, (key_irqs E ks @ hs) # hss) = Some (?w, b1, (t, hss))"
    using t(1) by (simp add: os_def kernel_os_def)
  have "shell_loop os buf (s, (key_irqs E ks @ hs) # hss) =
      (if xs = chars ''exit'' then Some (0, (t, hss))
       else if xs = [] then shell_loop os b2 (t, hss)
       else Option.bind (shell_command os b2 (t, hss)) (shell_loop os b2))"
    by (subst shell_loop.simps)
      (use put rd w pos nl st d c0 in \<open>simp add: Let_def shell_command_def Option.bind_assoc split_def\<close>)
  ultimately show ?thesis using t(2) al t(4-6) s1(5) b2(2) c k1(2) by auto
qed

section \<open>A session\<close>

lemma user_execute_unknown:
  assumes u: "user_ok E m0 fsa ext p q s" and b: "length b \<le> 1025" "c_str (aget b) xs" "length xs < 32"
    and no: "cmd_name xs = [] \<or> first_entry m0 fsa (cmd_name xs) = None"
  shows "\<exists>t. user_execute E prog b (s, hss) = Some (- 1, (t, hss)) \<and> user_ok E m0 fsa ext p q t \<and> alone p s t \<and>
    pcbs t = pcbs s \<and> tty_of t = tty_of s"
proof -
  let ?s1 = "s\<lparr>mem := write_bytes (home_pa E q) b (mem s)\<rparr>"
  note w = home_write [OF u b(1)]
  let ?c = "cli ?s1"
  have uc: "user_ok E m0 fsa ext p q ?c" by (rule user_ok_flag(1) [OF w(1)])
  have b0: "b \<noteq> []" using c_str_end [OF b(2)] by (auto simp: aget_def)
  have at: "bytes_at (mem ?c) (home_pa E q) (length b) = b" using b(1) by (simp add: bytes_at_write_bytes)
  note str = home_str(1) [OF uc b(1,2) at]
  have lo: "loose (env_L E) m0 fsa ext ?c" using user_okD(3) [OF uc] by (simp add: kinv_loose)
  have wr: "unat fsa + ext \<le> 4294967296" using user_okD(1) [OF u] by (simp add: home_ok_def)
  have l: "length (cmd_name xs) \<le> 64" using cmd_lengths [of xs] b(3) by simp
  have fnd: "cmd_name xs = [] \<or> found (cmd_name xs) ?c = None"
    using image_entry [OF loose_image [OF lo user_okD(1) [OF u]] user_okD(2) [OF u] wr l] no
    by (simp only: found_entry user_okD(13) [OF uc])
  note ex = execute_not_found [OF str b(3) fnd, where L = "env_L E" and dev = "env_dev E" and fr = "env_fr E"]
  have "syscall_handler (env_L E) (env_dev E) (env_fr E) (env_lit E) [] (DO_CALL 2 (env_va E) 0 0) ?s1 =
      Some (Return (- 1) (sti (cli ?c)))"
    using ex home_block(4) [OF u]
    by (simp add: syscall_handler_def syscalls_def DO_CALL_def Let_def env_M_def MIN_SYSTEM_CALLS_def MAX_SYSTEM_CALLS_def)
  moreover have "pcbs (sti (cli ?c)) = pcbs s" by simp
  ultimately show ?thesis
    using user_put_eq [OF u b(1) b0] user_ok_flag(2) [OF user_ok_flag(1) [OF uc]] w(2,4)
    by (intro exI [of _ "sti (cli ?c)"]) (simp add: user_execute_def)
qed

text \<open>What the user sees: for every line the prompt, its echo, and what the command \<open>out\<close> answers; the last
  line is \<open>exit\<close>.\<close>

fun session :: "(u8 list \<Rightarrow> u8 list option) \<Rightarrow> u8 list list \<Rightarrow> editor \<Rightarrow> tty \<Rightarrow> tty option" where
  "session out [] e t = None"
| "session out (ks # kss) e t =
     (let e1 = fold ed_press ks (e\<lparr>line := []\<rparr>); t1 = typed (ks @ [ENTER]) (e\<lparr>line := []\<rparr>) (says prompt t); xs = line e1
      in if (\<forall>k \<in> set ks. unat k < 100 \<and> k \<noteq> CTRL \<and> k \<noteq> ENTER) \<and> length xs < 127 \<and> 0 \<notin> set xs \<and> row t1 < 25
         then if xs = chars ''exit'' then (if kss = [] then Some t1 else None)
           else if xs = [] then session out kss (e1\<lparr>line := [], entered := None\<rparr>) t1
           else (case out xs of None \<Rightarrow> None
             | Some bs \<Rightarrow> session out kss (e1\<lparr>line := [], entered := None\<rparr>) (says bs t1))
         else None)"

lemma keys_kept_editor:
  assumes "keys_kept s t" and "kb_calm s"
  shows "kb_calm t" and "(editor_of t)\<lparr>line := []\<rparr> = (editor_of s)\<lparr>line := []\<rparr>"
  using assms by (simp_all add: keys_kept_def kb_calm_def editor_of_def)

text \<open>What the shell relies on: \<open>ready\<close> states are those a shell can run in, reading a line keeps them, and a
  command that is answered by \<open>out\<close> keeps them and prints the answer.\<close>

locale shell_host =
  fixes E :: uenv and prog :: "u32 \<Rightarrow> 'a kern_scheme ustate \<Rightarrow> (u32 \<times> 'a kern_scheme ustate) option"
    and m0 :: mem and fsa :: u32 and ext p q :: nat
    and ready :: "'a kern_scheme \<Rightarrow> bool" and out :: "u8 list \<Rightarrow> u8 list option"
  assumes ready_user: "ready s \<Longrightarrow> user_ok E m0 fsa ext p q s"
    and ready_stdin: "ready s \<Longrightarrow> in_use (fd_array (pcbs s p) ! 0) = 1 \<and> fops (fd_array (pcbs s p) ! 0) = Some Terminal_fops"
    and ready_step: "ready s \<Longrightarrow> user_ok E m0 fsa ext p q t \<Longrightarrow> same_procs p s t \<Longrightarrow> pcbs t = pcbs s \<Longrightarrow> ready t"
    and answer: "ready s \<Longrightarrow> length b = 1024 \<Longrightarrow> c_str (aget b) xs \<Longrightarrow> xs \<noteq> [] \<Longrightarrow> out xs = Some bs \<Longrightarrow>
      \<exists>t. shell_command (kernel_os E prog) b (s, hss) = Some (t, hss) \<and> ready t \<and> keys_kept s t \<and> tty_of t = says bs (tty_of s)"
begin

lemma session_runs:
  assumes "session out kss e (tty_of s) = Some T" and "ready s" and "kb_calm s"
    and "(editor_of s)\<lparr>line := []\<rparr> = e\<lparr>line := []\<rparr>" and "length buf = 1024"
  shows "\<exists>t. shell_loop (kernel_os E prog) buf (s, map (key_irqs E) kss) = Some (0, (t, [])) \<and> ready t \<and> tty_of t = T"
  using assms
proof (induction kss arbitrary: e s buf)
  case (Cons ks kss)
  define e0 where "e0 = e\<lparr>line := []\<rparr>"
  define e1 where "e1 = fold ed_press ks e0"
  define t1 where "t1 = typed (ks @ [ENTER]) e0 (says prompt (tty_of s))"
  define xs where "xs = line e1"
  have e0: "(editor_of s)\<lparr>line := []\<rparr> = e0" using Cons.prems(4) by (simp add: e0_def)
  have S: "(if (\<forall>k \<in> set ks. unat k < 100 \<and> k \<noteq> CTRL \<and> k \<noteq> ENTER) \<and> length xs < 127 \<and> 0 \<notin> set xs \<and> row t1 < 25
      then if xs = chars ''exit'' then (if kss = [] then Some t1 else None)
        else if xs = [] then session out kss (e1\<lparr>line := [], entered := None\<rparr>) t1
        else (case out xs of None \<Rightarrow> None | Some bs \<Rightarrow> session out kss (e1\<lparr>line := [], entered := None\<rparr>) (says bs t1))
      else None) = Some T"
    using Cons.prems(1) by (simp only: session.simps Let_def e0_def e1_def t1_def xs_def)
  then have good: "(\<forall>k \<in> set ks. unat k < 100 \<and> k \<noteq> CTRL \<and> k \<noteq> ENTER) \<and> length xs < 127 \<and> 0 \<notin> set xs \<and> row t1 < 25"
    by (auto split: if_splits)
  have pr: "prompted (ks @ [ENTER]) s = t1" by (simp only: prompted_def t1_def e0)
  have an: "answers ks s xs" using good unfolding answers_def pr e0 by (simp add: xs_def e1_def)
  note d = ready_stdin [OF Cons.prems(2), THEN conjunct1] ready_stdin [OF Cons.prems(2), THEN conjunct2]
  obtain t buf' where t: "user_ok E m0 fsa ext p q t" "same_procs p s t" "pcbs t = pcbs s" "tty_of t = t1"
    "kb_calm t" "editor_of t = e1\<lparr>line := [], entered := None\<rparr>" "length buf' = 1024" "c_str (aget buf') xs"
    "shell_loop (kernel_os E prog) buf (s, key_irqs E ks # map (key_irqs E) kss) =
      (if xs = chars ''exit'' then Some (0, (t, map (key_irqs E) kss))
       else if xs = [] then shell_loop (kernel_os E prog) buf' (t, map (key_irqs E) kss)
       else Option.bind (shell_command (kernel_os E prog) buf' (t, map (key_irqs E) kss)) (shell_loop (kernel_os E prog) buf'))"
    using shell_turn [OF ready_user [OF Cons.prems(2)] refl d Cons.prems(3) an Cons.prems(5) refl, of prog "[]" "map (key_irqs E) kss"]
    unfolding pr e0 e1_def [symmetric] append_Nil2 by blast
  have rt: "ready t" by (rule ready_step [OF Cons.prems(2) t(1-3)])
  have et: "(editor_of t)\<lparr>line := []\<rparr> = (e1\<lparr>line := [], entered := None\<rparr>)\<lparr>line := []\<rparr>" by (simp only: t(6))
  show ?case
  proof (cases "xs = chars ''exit''")
    case True
    then have "kss = []" "T = t1" using S good by (auto split: if_splits)
    then show ?thesis using True t(4,9) rt by simp
  next
    case no: False
    show ?thesis
    proof (cases "xs = []")
      case True
      then have "session out kss (e1\<lparr>line := [], entered := None\<rparr>) (tty_of t) = Some T" using S good no by (simp add: t(4))
      from Cons.IH [OF this rt t(5) et t(7)] show ?thesis using True no t(9) by simp
    next
      case False
      then obtain bs where bs: "out xs = Some bs" "session out kss (e1\<lparr>line := [], entered := None\<rparr>) (says bs t1) = Some T"
        using S good no by (auto split: option.splits)
      obtain u where u: "shell_command (kernel_os E prog) buf' (t, map (key_irqs E) kss) = Some (u, map (key_irqs E) kss)"
        "ready u" "keys_kept t u" "tty_of u = says bs t1"
        using answer [OF rt t(7,8) False bs(1)] t(4) by metis
      note ku = keys_kept_editor [OF u(3) t(5)]
      have "(editor_of u)\<lparr>line := []\<rparr> = (e1\<lparr>line := [], entered := None\<rparr>)\<lparr>line := []\<rparr>" using ku(2) et by simp
      from Cons.IH [OF _ u(2) ku(1) this t(7)] bs(2) u(4) show ?thesis using False no t(9) u(1) by simp
    qed
  qed
qed simp

end

end
