(* ===== verification/Shell_Props.thy ===== *)
theory Shell_Props
  imports User_Props User_Shell
begin

text \<open>
  A whole session: the shell of a terminal from its first line to \<open>exit\<close>, with \<open>cat\<close> as the program
  its commands start.
\<close>

section \<open>The answers\<close>

text \<open>What the shell answers to a line, when the file of inode \<open>cat\<close> is the program: the lines it has an
  answer for here are those that name no file, and those that name the program and a file to print.\<close>

definition reply :: "mem \<Rightarrow> u32 \<Rightarrow> u32 \<Rightarrow> u8 list \<Rightarrow> u8 list option" where
  "reply m0 fsa cat xs =
     (if length xs \<ge> 32 then None
      else if cmd_name xs = [] then Some (chars ''no such command\<newline>'')
      else (case first_entry m0 fsa (cmd_name xs) of
          None \<Rightarrow> Some (chars ''no such command\<newline>'')
        | Some c \<Rightarrow>
            if inode_num c = cat \<and> cmd_args xs \<noteq> [] \<and> take 5 (cmd_args xs) \<noteq> chars ''stdin'' \<and>
              take 6 (cmd_args xs) \<noteq> chars ''stdout''
            then (case first_entry m0 fsa (cmd_args xs) of
                None \<Rightarrow> Some (chars ''file not found\<newline>'')
              | Some e \<Rightarrow> if file_type e = 2 then Some (contents m0 fsa (inode_num e)) else None)
            else None))"

text \<open>A state the shell of process \<open>p\<close> can run in: its standard input is the terminal, \<open>cat\<close> is an
  executable, and there is a free slot with a free descriptor for it.\<close>

definition shell_ready :: "uenv \<Rightarrow> uenv \<Rightarrow> mem \<Rightarrow> u32 \<Rightarrow> nat \<Rightarrow> u32 \<Rightarrow> u8 list \<Rightarrow> (nat \<Rightarrow> nat list) \<Rightarrow> nat \<Rightarrow> nat list \<Rightarrow>
    nat \<Rightarrow> nat \<Rightarrow> 'a kern_scheme \<Rightarrow> bool" where
  "shell_ready E E' m0 fsa ext cat cbuf stk i slots p q s \<longleftrightarrow>
     user_ok E m0 fsa ext p q s \<and> stacks s stk \<and>
     in_use (fd_array (pcbs s p) ! 0) = 1 \<and> fops (fd_array (pcbs s p) ! 0) = Some Terminal_fops \<and>
     take 4 (contents m0 fsa cat) = EXEC_BITS \<and> free_slots 0 (processes s) = i # slots \<and> free_fds s i 2 \<noteq> [] \<and>
     on_stack (env_fr E) \<and> env_L E' = env_L E \<and> 0x8000000 \<le> unat (env_va E') \<and> unat (env_va E') + 1025 \<le> 0x8400000 \<and>
     unat (env_lit E') + 1025 \<le> 0x800000 \<and> length cbuf = 1024 \<and> 0 \<in> set cbuf"

lemma shell_ready_step:
  assumes "shell_ready E E' m0 fsa ext cat cbuf stk i slots p q s" and "user_ok E m0 fsa ext p q t" and "same_procs p s t"
    and "pcbs t = pcbs s"
  shows "shell_ready E E' m0 fsa ext cat cbuf stk i slots p q t"
proof -
  have "stacks t stk"
    using stacks_procs [OF assms(3)] assms(1) user_okD(11) [of E m0 fsa ext p q s] by (simp add: shell_ready_def)
  then show ?thesis
    using assms(1,2,4) procs_fields(4) [OF assms(3)] by (simp add: shell_ready_def free_fds_def)
qed

text \<open>The message for a command that is not one.\<close>

lemma no_command:
  assumes u: "user_ok E m0 fsa ext p q s" and ex: "user_execute E prog b (s0, hss) = Some (- 1, (s, hss))"
  shows "\<exists>t. shell_command (kernel_os E prog) b (s0, hss) = Some (t, hss) \<and> user_ok E m0 fsa ext p q t \<and> alone p s t \<and>
    pcbs t = pcbs s \<and> tty_of t = says (chars ''no such command\<newline>'') (tty_of s)"
proof -
  let ?l = "lit ''no such command\<newline>''"
  have z: "0 \<notin> set (chars ''no such command\<newline>'')" "length (chars ''no such command\<newline>'') = 16" by (simp_all add: chars_def)
  have w: "length ?l \<le> 1025" "?l \<noteq> []" "unat (16 :: u32) \<le> length ?l" by (simp_all add: lit_def chars_def)
  obtain t where t: "user_write E 1 ?l 16 (s, hss) = Some (0, (t, hss))" "user_ok E m0 fsa ext p q t"
    "tty_of t = says (take (unat (16 :: u32)) ?l) (tty_of s)" "alone p s t" "pcbs t = pcbs s"
    using user_write_eq [OF u w] by blast
  have "strlen (aget ?l) = Some 16" using strlen_c_str [OF lit_c_str [OF z(1)]] z(2) by simp
  then have "ece391_fdputs (kernel_os E prog) 1 ?l (s, hss) = Some (t, hss)"
    using t(1) by (simp add: ece391_fdputs_def ece391_strlen_eq kernel_os_def)
  moreover have "os_execute (kernel_os E prog) = user_execute E prog" by (simp add: kernel_os_def)
  ultimately show ?thesis using t z(2) ex by (intro exI [of _ t]) (simp add: shell_command_def lit_def)
qed

interpretation cat_shell: shell_host E "\<lambda>eip. cat_main (kernel_os E' prog) cbuf" m0 fsa ext p q
    "shell_ready E E' m0 fsa ext cat cbuf stk i slots p q" "reply m0 fsa cat"
  for E E' prog cbuf m0 fsa ext p q cat stk i slots
proof unfold_locales
  fix s :: "'a kern_scheme"
  assume ready: "shell_ready E E' m0 fsa ext cat cbuf stk i slots p q s"
  then show "user_ok E m0 fsa ext p q s"
    "in_use (fd_array (pcbs s p) ! 0) = 1 \<and> fops (fd_array (pcbs s p) ! 0) = Some Terminal_fops"
    by (simp_all add: shell_ready_def)
  {
    fix t :: "'a kern_scheme"
    assume "user_ok E m0 fsa ext p q t" "same_procs p s t" "pcbs t = pcbs s"
    then show "shell_ready E E' m0 fsa ext cat cbuf stk i slots p q t" by (rule shell_ready_step [OF ready])
  next
    fix b xs bs and hss :: "('a kern_scheme \<Rightarrow> 'a kern_scheme) list list"
    assume b: "length b = 1024" "c_str (aget b) xs" and xs: "xs \<noteq> []" and out: "reply m0 fsa cat xs = Some bs"
    have l: "length xs < 32" "length b \<le> 1025" using out b(1) by (auto simp: reply_def split: if_splits)
    note rd = ready [unfolded shell_ready_def]
    have u: "user_ok E m0 fsa ext p q s" using rd by blast
    show "\<exists>t. shell_command (kernel_os E (\<lambda>eip. cat_main (kernel_os E' prog) cbuf)) b (s, hss) = Some (t, hss) \<and>
        shell_ready E E' m0 fsa ext cat cbuf stk i slots p q t \<and> keys_kept s t \<and> tty_of t = says bs (tty_of s)"
    proof (cases "cmd_name xs = [] \<or> first_entry m0 fsa (cmd_name xs) = None")
      case True
      then have bs: "bs = chars ''no such command\<newline>''" using out by (auto simp: reply_def split: if_splits)
      obtain t where t: "user_execute E (\<lambda>eip. cat_main (kernel_os E' prog) cbuf) b (s, hss) = Some (- 1, (t, hss))"
        "user_ok E m0 fsa ext p q t" "alone p s t" "pcbs t = pcbs s" "tty_of t = tty_of s"
        using user_execute_unknown [OF u l(2) b(2) l(1) True] by blast
      obtain w where w: "shell_command (kernel_os E (\<lambda>eip. cat_main (kernel_os E' prog) cbuf)) b (s, hss) = Some (w, hss)"
        "user_ok E m0 fsa ext p q w" "alone p t w" "pcbs w = pcbs t" "tty_of w = says (chars ''no such command\<newline>'') (tty_of t)"
        using no_command [OF t(2,1)] by blast
      note a = alone_procs [OF alone_trans [OF t(3) w(3)]]
      have "shell_ready E E' m0 fsa ext cat cbuf stk i slots p q w"
        by (rule shell_ready_step [OF ready w(2) a(1)]) (simp add: w(4) t(4))
      then show ?thesis using w(1,5) t(5) a(2) bs by auto
    next
      case False
      then obtain c where c: "cmd_name xs \<noteq> []" "first_entry m0 fsa (cmd_name xs) = Some c" by auto
      then have arg: "inode_num c = cat" "cmd_args xs \<noteq> []" "take 5 (cmd_args xs) \<noteq> chars ''stdin''"
          "take 6 (cmd_args xs) \<noteq> chars ''stdout''"
          "case first_entry m0 fsa (cmd_args xs) of None \<Rightarrow> True | Some e \<Rightarrow> file_type e = 2"
        and bs: "bs = (case first_entry m0 fsa (cmd_args xs) of
          None \<Rightarrow> chars ''file not found\<newline>'' | Some e \<Rightarrow> contents m0 fsa (inode_num e))"
        using out l(1) by (auto simp: reply_def split: if_splits option.splits)
      have run: "\<exists>t. user_execute E (\<lambda>eip. cat_main (kernel_os E' prog) cbuf) b (s, hss) = Some (0, (t, hss)) \<and>
          tty_of t = says bs (tty_of s) \<and> user_ok E m0 fsa ext p q t \<and> stacks t stk \<and> processes t = processes s \<and>
          current_terminal t = current_terminal s \<and> free_fds t i 2 = [2..<8] \<and> pcbs t p = pcbs s p \<and> keys_kept s t"
        unfolding bs by (rule user_cat_runs [OF u _ l(2) b(2) l(1) c]) (use rd arg in simp_all)
      then obtain t where t: "user_execute E (\<lambda>eip. cat_main (kernel_os E' prog) cbuf) b (s, hss) = Some (0, (t, hss))"
        "tty_of t = says bs (tty_of s)" "user_ok E m0 fsa ext p q t" "stacks t stk" "processes t = processes s"
        "free_fds t i 2 = [2..<8]" "pcbs t p = pcbs s p" "keys_kept s t" by blast
      have "shell_ready E E' m0 fsa ext cat cbuf stk i slots p q t"
        using rd t(3-7) by (simp add: shell_ready_def)
      moreover have "shell_command (kernel_os E (\<lambda>eip. cat_main (kernel_os E' prog) cbuf)) b (s, hss) = Some (t, hss)"
        using t(1) by (simp add: shell_command_def) (simp add: kernel_os_def)
      ultimately show ?thesis using t(2,8) by blast
    qed
  }
qed

section \<open>A session\<close>


text \<open>Where the cursor is after text that fits into its row, and after keys that do.\<close>

lemma says_cursor:
  "\<forall>c \<in> set cs. c \<ge> 32 \<Longrightarrow> col t + length cs < 80 \<Longrightarrow> row (says cs t) = row t \<and> col (says cs t) = col t + length cs"
proof (induction cs arbitrary: t)
  case (Cons c cs)
  let ?t = "t\<lparr>grid := (\<lambda>r' c'. if r' = row t \<and> c' = col t then c else grid t r' c'), col := Suc (col t)\<rparr>"
  have c: "c \<ge> 32" using Cons.prems by simp
  then have "c \<noteq> 0x0A" by auto
  then have "says (c # cs) t = says cs ?t" using c Cons.prems(2) by (simp add: says_def printable_def tty_putc_def Let_def)
  then show ?case using Cons.IH [of ?t] Cons.prems by simp
qed simp

lemma says_line_cursor:
  assumes "\<forall>c \<in> set cs. c \<ge> 32" and "col t + length cs < 80" and "row t < 24"
  shows "row (says (cs @ [0x0A]) t) = Suc (row t) \<and> col (says (cs @ [0x0A]) t) = 0"
proof -
  have "says [0x0A] u = tty_newline u" for u by (simp add: says_def printable_def tty_putc_def)
  then show ?thesis using says_cursor [OF assms(1,2)] assms(3) by (simp add: tty_newline_def)
qed

lemma typed_cursor:
  assumes "\<forall>k \<in> set ks. k \<notin> {CAPS_LOCK, L_SHIFT, R_SHIFT, ENTER, BACKSPACE}"
  shows "col t + length ks < 80 \<Longrightarrow> length (line e) + length ks \<le> 128 \<Longrightarrow> row t < 25 \<Longrightarrow>
    row (typed ks e t) = row t \<and> col (typed ks e t) = col t + length ks"
  using assms
proof (induction ks arbitrary: e t)
  case (Cons k ks)
  let ?t = "(tty_put (row t) (col t) (key_value (shift e \<or> caps e) k) t)\<lparr>col := Suc (col t)\<rparr>"
  have "tty_press k e t = ?t" using Cons.prems by (simp add: tty_press_def tty_wrap_def tty_key_def tty_scroll_def)
  moreover have "length (line (ed_press k e)) = Suc (length (line e))" using Cons.prems by (simp add: ed_press_def)
  ultimately show ?case using Cons.IH [of ?t "ed_press k e"] Cons.prems by simp
qed simp

lemma entered_cursor:
  assumes "\<forall>k \<in> set ks. k \<notin> {CAPS_LOCK, L_SHIFT, R_SHIFT, ENTER, BACKSPACE}"
    and "col t + length ks < 80" and "length (line e) + length ks \<le> 128" and "row t < 24"
  shows "row (typed (ks @ [ENTER]) e t) = Suc (row t) \<and> col (typed (ks @ [ENTER]) e t) = 0"
proof -
  have "row t < 25" using assms(4) by simp
  from typed_cursor [OF assms(1-3) this] show ?thesis
    using assms(2,4) by (simp add: typed_append tty_press_def tty_wrap_def tty_key_def tty_scroll_def key_codes)
qed

lemma plain_keys:
  assumes "\<forall>k \<in> set ks. k \<notin> {CAPS_LOCK, L_SHIFT, R_SHIFT, ENTER, BACKSPACE}"
  shows "\<not> shift e \<Longrightarrow> \<not> caps e \<Longrightarrow> length (line e) + length ks \<le> 128 \<Longrightarrow>
    fold ed_press ks e = e\<lparr>line := line e @ map (\<lambda>k. keyboard_char ! unat k) ks\<rparr>"
  using assms
proof (induction ks arbitrary: e)
  case (Cons k ks)
  have "ed_press k e = e\<lparr>line := line e @ [keyboard_char ! unat k]\<rparr>"
    using Cons.prems by (simp add: ed_press_def key_value_def Let_def)
  then show ?case using Cons.IH [of "ed_press k e"] Cons.prems by simp
qed simp

text \<open>One line of a session typed with such keys.\<close>

lemma session_line:
  assumes ks: "\<forall>k \<in> set ks. k \<notin> {CAPS_LOCK, L_SHIFT, R_SHIFT, ENTER, BACKSPACE} \<and> unat k < 100 \<and> k \<noteq> CTRL"
    and xs: "map (\<lambda>k. keyboard_char ! unat k) ks = xs" "0 \<notin> set xs" "length xs + 7 + col t < 80" and t: "row t < 24"
    and e: "e\<lparr>line := []\<rparr> = \<lparr>line = [], shift = False, caps = False, entered = None\<rparr>"
  defines "e0 \<equiv> \<lparr>line = [], shift = False, caps = False, entered = None\<rparr>"
    and "t1 \<equiv> typed (ks @ [ENTER]) \<lparr>line = [], shift = False, caps = False, entered = None\<rparr> (says prompt t)"
  shows "session out (ks # kss) e t =
      (if xs = chars ''exit'' then (if kss = [] then Some t1 else None)
       else if xs = [] then session out kss e0 t1
       else (case out xs of None \<Rightarrow> None | Some bs \<Rightarrow> session out kss e0 (says bs t1)))"
    and "row t1 = Suc (row t) \<and> col t1 = 0"
proof -
  have ks': "\<forall>k \<in> set ks. k \<notin> {CAPS_LOCK, L_SHIFT, R_SHIFT, ENTER, BACKSPACE}" using ks by blast
  have l: "length ks = length xs" using xs(1) by auto
  have p: "\<forall>c \<in> set prompt. c \<ge> 32" "length prompt = 7" by (simp_all add: chars_def)
  have "col t + length prompt < 80" using xs(3) p(2) by simp
  from says_cursor [OF p(1) this] have c: "row (says prompt t) = row t" "col (says prompt t) = col t + 7" using p(2) by simp_all
  show r: "row t1 = Suc (row t) \<and> col t1 = 0"
    unfolding t1_def using entered_cursor [OF ks', of "says prompt t" "\<lparr>line = [], shift = False, caps = False, entered = None\<rparr>"] c l xs(3) t by simp
  have f: "fold ed_press ks (e\<lparr>line := []\<rparr>) = e0\<lparr>line := xs\<rparr>"
    unfolding e using plain_keys [OF ks', of e0] l xs(1,3) by (simp add: e0_def)
  have g: "\<forall>k \<in> set ks. unat k < 100 \<and> k \<noteq> CTRL \<and> k \<noteq> ENTER" using ks by auto
  have "length xs < 127" using xs(3) by simp
  then show "session out (ks # kss) e t =
      (if xs = chars ''exit'' then (if kss = [] then Some t1 else None)
       else if xs = [] then session out kss e0 t1
       else (case out xs of None \<Rightarrow> None | Some bs \<Rightarrow> session out kss e0 (says bs t1)))"
    using g xs(2) r t by (simp add: Let_def f e0_def cong: option.case_cong) (simp add: e t1_def cong: option.case_cong)
qed

lemma sample_prints: "says (contents loader_mem img0 0) t = says [0x7F, 0x45, 0x4C, 0x46, 0x81] t"
proof -
  have n: "contents image_mem img0 0 ! p = image_mem (img0 + 8192 + of_nat p)" if "p < 40" for p
    using that by (simp add: contents_def sample_data)
  then have "contents image_mem img0 0 = map (\<lambda>p. image_mem (img0 + 8192 + of_nat p)) [0..<40]"
    by (intro nth_equalityI) simp_all
  then have "filter printable (contents image_mem img0 0) = [0x7F, 0x45, 0x4C, 0x46, 0x81]"
    by (simp add: upt_rec image_mem_def image_cells_def img0_def printable_def)
  moreover have "contents loader_mem img0 0 = contents image_mem img0 0" using image_eq_file(3) [OF sample_wf loader_image] by simp
  ultimately show ?thesis by (simp add: says_def printable_def)
qed


end
