(* ===== verification/Syserr.thy ===== *)
theory Syserr
  imports User_Lib
begin

text \<open>
  \<^verbatim>\<open>src/syscalls/ece391syserr.c\<close>: the course's test program for calls that have to be refused. Each
  test prints PASS or FAIL and returns 0 or 2. \<open>buf\<close> is a test's uninitialised buffer.
\<close>

definition NEG_FD :: u32 where "NEG_FD = - 1073741823"
definition BIG_FD :: u32 where "BIG_FD = 1073741823"
definition BIG_NUM :: u32 where "BIG_NUM = 1073741823"
definition NEG_NUM :: u32 where "NEG_NUM = - 1073741823"

text \<open>\<open>if (-1 != r) { fail = 2; print }\<close>, and the verdict a test ends with.\<close>

definition unless_refused :: "'s os \<Rightarrow> string \<Rightarrow> u32 \<Rightarrow> u32 \<Rightarrow> 's \<Rightarrow> (u32 \<times> 's) option" where
  "unless_refused os msg r fail s =
     (if r \<noteq> - 1 then do { s \<leftarrow> ece391_fdputs os 1 (lit msg) s; Some (2, s) } else Some (fail, s))"

definition verdict :: "'s os \<Rightarrow> string \<Rightarrow> string \<Rightarrow> u32 \<Rightarrow> 's \<Rightarrow> (u32 \<times> 's) option" where
  "verdict os failed passed fail s = do {
     s \<leftarrow> ece391_fdputs os 1 (lit (if fail \<noteq> 0 then failed else passed)) s;
     Some (fail, s) }"

definition err_neg_fd :: "'s os \<Rightarrow> u8 list \<Rightarrow> 's \<Rightarrow> (u32 \<times> 's) option" where
  "err_neg_fd os buf s = do {
     (r, buf, s) \<leftarrow> os_read os NEG_FD buf 31 s;
     (fail, s) \<leftarrow> unless_refused os ''read fail\<newline>'' r 0 s;
     (r, s) \<leftarrow> os_write os NEG_FD buf 31 s;
     (fail, s) \<leftarrow> unless_refused os ''write fail\<newline>'' r fail s;
     (r, s) \<leftarrow> os_close os NEG_FD s;
     (fail, s) \<leftarrow> unless_refused os ''close fail\<newline>'' r fail s;
     verdict os ''err_neg_fd: FAIL\<newline>'' ''err_neg_fd: PASS\<newline>'' fail s }"

definition err_big_fd :: "'s os \<Rightarrow> u8 list \<Rightarrow> 's \<Rightarrow> (u32 \<times> 's) option" where
  "err_big_fd os buf s = do {
     (r, buf, s) \<leftarrow> os_read os BIG_FD buf 31 s;
     (fail, s) \<leftarrow> unless_refused os ''read fail\<newline>'' r 0 s;
     (r, s) \<leftarrow> os_write os BIG_FD buf 31 s;
     (fail, s) \<leftarrow> unless_refused os ''write fail\<newline>'' r fail s;
     (r, s) \<leftarrow> os_close os BIG_FD s;
     (fail, s) \<leftarrow> unless_refused os ''close fail\<newline>'' r fail s;
     verdict os ''err_big_fd: FAIL\<newline>'' ''err_big_fd: PASS\<newline>'' fail s }"

text \<open>The loop that opens counts the calls that are refused.\<close>

fun open_lots :: "'s os \<Rightarrow> nat \<Rightarrow> u32 \<Rightarrow> 's \<Rightarrow> (u32 \<times> 's) option" where
  "open_lots os 0 cnt s = Some (cnt, s)"
| "open_lots os (Suc k) cnt s = do {
     (r, s) \<leftarrow> os_open os (lit ''.'') s;
     open_lots os k (if r = - 1 then cnt + 1 else cnt) s }"

fun close_all :: "'s os \<Rightarrow> u32 list \<Rightarrow> 's \<Rightarrow> 's option" where
  "close_all os [] s = Some s"
| "close_all os (fd # fds) s = do { (r, s) \<leftarrow> os_close os fd s; close_all os fds s }"

definition err_open_lots :: "'s os \<Rightarrow> 's \<Rightarrow> (u32 \<times> 's) option" where
  "err_open_lots os s = do {
     (cnt, s) \<leftarrow> open_lots os 7 0 s;
     s \<leftarrow> close_all os (map of_nat [2..<8]) s;
     if cnt = 1 then do { s \<leftarrow> ece391_fdputs os 1 (lit ''err_open_lots: PASS\<newline>'') s; Some (0, s) }
     else do { s \<leftarrow> ece391_fdputs os 1 (lit ''err_open_lots: FAIL\<newline>'') s; Some (2, s) } }"

definition err_open :: "'s os \<Rightarrow> 's \<Rightarrow> (u32 \<times> 's) option" where
  "err_open os s = do {
     (r, s) \<leftarrow> os_open os (lit ''helloo'') s;
     (fail, s) \<leftarrow> unless_refused os (CHR 0x27 # ''helloo'' @ CHR 0x27 # '' fail\<newline>'') r 0 s;
     (r, s) \<leftarrow> os_open os (lit ''shel'') s;
     (fail, s) \<leftarrow> unless_refused os (CHR 0x27 # ''shel'' @ CHR 0x27 # '' fail\<newline>'') r fail s;
     (r, s) \<leftarrow> os_open os (lit '''') s;
     (fail, s) \<leftarrow> unless_refused os ''empty string fail\<newline>'' r fail s;
     verdict os ''err_open: FAIL\<newline>'' ''err_open: PASS\<newline>'' fail s }"

fun try_close :: "'s os \<Rightarrow> u32 list \<Rightarrow> u32 \<Rightarrow> 's \<Rightarrow> (u32 \<times> 's) option" where
  "try_close os [] fail s = Some (fail, s)"
| "try_close os (fd # fds) fail s = do {
     (r, s) \<leftarrow> os_close os fd s;
     (fail, s) \<leftarrow> unless_refused os ''close unopened or invalid fd fail\<newline>'' r fail s;
     try_close os fds fail s }"

fun try_read :: "'s os \<Rightarrow> u32 list \<Rightarrow> u8 list \<Rightarrow> u32 \<Rightarrow> 's \<Rightarrow> (u32 \<times> u8 list \<times> 's) option" where
  "try_read os [] buf fail s = Some (fail, buf, s)"
| "try_read os (fd # fds) buf fail s = do {
     (r, buf, s) \<leftarrow> os_read os fd buf 31 s;
     (fail, s) \<leftarrow> unless_refused os ''read from unopened fd fail\<newline>'' r fail s;
     try_read os fds buf fail s }"

fun try_write :: "'s os \<Rightarrow> u32 list \<Rightarrow> u8 list \<Rightarrow> u32 \<Rightarrow> 's \<Rightarrow> (u32 \<times> 's) option" where
  "try_write os [] buf fail s = Some (fail, s)"
| "try_write os (fd # fds) buf fail s = do {
     (r, s) \<leftarrow> os_write os fd buf 31 s;
     (fail, s) \<leftarrow> unless_refused os ''write to unopened fd fail\<newline>'' r fail s;
     try_write os fds buf fail s }"

definition err_unopened :: "'s os \<Rightarrow> u8 list \<Rightarrow> 's \<Rightarrow> (u32 \<times> 's) option" where
  "err_unopened os buf s = do {
     (fail, s) \<leftarrow> try_close os (map of_nat [0..<8]) 0 s;
     (fail, buf, s) \<leftarrow> try_read os (map of_nat [2..<8]) buf fail s;
     (fail, s) \<leftarrow> try_write os (map of_nat [2..<8]) buf fail s;
     verdict os ''err_unopened: FAIL\<newline>'' ''err_unopened: PASS\<newline>'' fail s }"

definition err_vidmap :: "'s os \<Rightarrow> 's \<Rightarrow> (u32 \<times> 's) option" where
  "err_vidmap os s = do {
     (r, s) \<leftarrow> os_vidmap os 0x0 s;
     (fail, s) \<leftarrow> unless_refused os ''Null pointer fail\<newline>'' r 0 s;
     (r, s) \<leftarrow> os_vidmap os 0x400000 s;
     (fail, s) \<leftarrow> unless_refused os ''Kernel pointer fail fail\<newline>'' r fail s;
     verdict os ''err_vidmap: FAIL\<newline>'' ''err_vidmap: PASS\<newline>'' fail s }"

definition err_stdin_out :: "'s os \<Rightarrow> u8 list \<Rightarrow> 's \<Rightarrow> (u32 \<times> 's) option" where
  "err_stdin_out os buf s = do {
     (r, s) \<leftarrow> os_write os 0 buf 31 s;
     (fail, s) \<leftarrow> unless_refused os ''write to stdin fail\<newline>'' r 0 s;
     (r, buf, s) \<leftarrow> os_read os 1 buf 31 s;
     (fail, s) \<leftarrow> unless_refused os ''read from stdout fail\<newline>'' r fail s;
     verdict os ''err_stdin_out: FAIL\<newline>'' ''err_stdin_out: PASS\<newline>'' fail s }"

definition err_syscall_num :: "'s os \<Rightarrow> 's \<Rightarrow> (u32 \<times> 's) option" where
  "err_syscall_num os s = do {
     (r, s) \<leftarrow> os_call os BIG_NUM s;
     (fail, s) \<leftarrow> unless_refused os ''syscall 0 fail\<newline>'' r 0 s;
     (r, s) \<leftarrow> os_call os NEG_NUM s;
     (fail, s) \<leftarrow> unless_refused os ''big num syscall fail\<newline>'' r fail s;
     (r, s) \<leftarrow> os_call os 0 s;
     (fail, s) \<leftarrow> unless_refused os ''neg num syscall fail\<newline>'' r fail s;
     verdict os ''err_syscall_num: FAIL\<newline>'' ''err_syscall_num: PASS\<newline>'' fail s }"

text \<open>All tests, case 0 of the switch. \<open>bufs\<close> gives each test that has a buffer the contents it finds
  there.\<close>

definition all_tests :: "'s os \<Rightarrow> (nat \<Rightarrow> u8 list) \<Rightarrow> 's \<Rightarrow> (u32 \<times> 's) option" where
  "all_tests os bufs s = do {
     (f1, s) \<leftarrow> err_neg_fd os (bufs 1) s;
     (f2, s) \<leftarrow> err_big_fd os (bufs 2) s;
     (f3, s) \<leftarrow> err_open_lots os s;
     (f4, s) \<leftarrow> err_open os s;
     (f5, s) \<leftarrow> err_unopened os (bufs 5) s;
     (f6, s) \<leftarrow> err_vidmap os s;
     (f7, s) \<leftarrow> err_stdin_out os (bufs 7) s;
     (f8, s) \<leftarrow> err_syscall_num os s;
     let fail = f1 + f2 + f3 + f4 + f5 + f6 + f7 + f8;
     s \<leftarrow> ece391_fdputs os 1
       (lit (if fail \<noteq> 0 then ''\<newline>Overall Tests: FAIL\<newline>'' else ''\<newline>Overall Tests: PASS\<newline>'')) s;
     Some (fail, s) }"

definition syserr_main :: "'s os \<Rightarrow> (nat \<Rightarrow> u8 list) \<Rightarrow> 's \<Rightarrow> (u32 \<times> 's) option" where
  "syserr_main os bufs s = do {
     s \<leftarrow> ece391_fdputs os 1 (lit ''Choose from tests 1-8. 0 to run all: '') s;
     (cnt, buf, s) \<leftarrow> os_read os 0 (bufs 0) 127 s;
     if cnt = - 1 then do { s \<leftarrow> ece391_fdputs os 1 (lit (''Can'' @ CHR 0x27 # ''t read test #\<newline>'')) s; Some (2, s) }
     else do {
       c \<leftarrow> aget buf 0;
       let select = uint c - 0x30;
       if select = 0 then all_tests os bufs s
       else if select = 1 then err_neg_fd os (bufs 1) s
       else if select = 2 then err_big_fd os (bufs 2) s
       else if select = 3 then err_open_lots os s
       else if select = 4 then err_open os s
       else if select = 5 then err_unopened os (bufs 5) s
       else if select = 6 then err_vidmap os s
       else if select = 7 then err_stdin_out os (bufs 7) s
       else if select = 8 then err_syscall_num os s
       else do {
         s \<leftarrow> ece391_fdputs os 1 (lit ''Invalid test number. Choose from tests 1-8 or 0'') s;
         Some (0, s) } } }"

section \<open>What the tests show of a system\<close>

text \<open>The transcript of a run of all tests, by whether the system finds the directory and whether it finds
  \<open>shell\<close> under the name \<open>shel\<close>, and what the run returns.\<close>

definition report :: "bool \<Rightarrow> bool \<Rightarrow> string" where
  "report dir partial =
     ''err_neg_fd: PASS\<newline>err_big_fd: PASS\<newline>'' @
     (if dir then ''err_open_lots: PASS\<newline>'' else ''err_open_lots: FAIL\<newline>'') @
     (if partial then CHR 0x27 # ''shel'' @ CHR 0x27 # '' fail\<newline>err_open: FAIL\<newline>close unopened or invalid fd fail\<newline>err_unopened: FAIL\<newline>''
      else ''err_open: PASS\<newline>err_unopened: PASS\<newline>'') @
     ''err_vidmap: PASS\<newline>err_stdin_out: PASS\<newline>err_syscall_num: PASS\<newline>'' @
     (if partial \<or> \<not> dir then ''\<newline>Overall Tests: FAIL\<newline>'' else ''\<newline>Overall Tests: PASS\<newline>'')"

definition failures :: "bool \<Rightarrow> bool \<Rightarrow> u32" where
  "failures dir partial = (if dir then 0 else 2) + (if partial then 4 else 0)"

text \<open>A system in which the descriptors from 2 on that are in use are the set \<open>U\<close>: it refuses reads, writes
  and closes of the others, of the standard descriptors the wrong way round, of addresses outside
  the program and of numbers that are no call; an \<open>open\<close> of a name it finds takes the first free one.\<close>

locale user_errors =
  fixes os :: "'s os" and ok :: "nat set \<Rightarrow> 's \<Rightarrow> bool" and scr :: "'s \<Rightarrow> tty" and found :: "string \<Rightarrow> bool"
  assumes writes: "user_screen os (ok U) scr"
    and used: "ok U s \<Longrightarrow> U \<subseteq> {2..<8}"
    and bad_read: "ok U s \<Longrightarrow> length b = 32 \<Longrightarrow> fd \<noteq> 0 \<Longrightarrow> unat fd \<notin> U \<Longrightarrow>
      \<exists>b' s'. os_read os fd b 31 s = Some (- 1, b', s') \<and> length b' = 32 \<and> ok U s' \<and> scr s' = scr s"
    and bad_write: "ok U s \<Longrightarrow> length b = 32 \<Longrightarrow> fd \<noteq> 1 \<Longrightarrow> unat fd \<notin> U \<Longrightarrow>
      \<exists>s'. os_write os fd b 31 s = Some (- 1, s') \<and> ok U s' \<and> scr s' = scr s"
    and close: "ok U s \<Longrightarrow>
      \<exists>s'. os_close os fd s = Some (if unat fd \<in> U then 0 else - 1, s') \<and> ok (U - {unat fd}) s' \<and> scr s' = scr s"
    and bad_vidmap: "ok U s \<Longrightarrow> unat va < 0x8000000 \<Longrightarrow> \<exists>s'. os_vidmap os va s = Some (- 1, s') \<and> ok U s' \<and> scr s' = scr s"
    and bad_call: "ok U s \<Longrightarrow> sint num < 1 \<or> 10 < sint num \<Longrightarrow> \<exists>s'. os_call os num s = Some (- 1, s') \<and> ok U s' \<and> scr s' = scr s"
    and open_name: "ok U s \<Longrightarrow> nm \<in> {''.'', ''helloo'', ''shel'', []} \<Longrightarrow> \<exists>r s'. os_open os (lit nm) s = Some (r, s') \<and> scr s' = scr s \<and>
      (if found nm then (case filter (\<lambda>k. k \<notin> U) [2..<8] of
           [] \<Rightarrow> r = - 1 \<and> ok U s' | k # _ \<Rightarrow> r = of_nat k \<and> ok (insert k U) s')
       else r = - 1 \<and> ok U s')"
begin

lemma prints:
  assumes "ok U s" and "0 \<notin> set (chars cs)" and "length cs \<le> 1024"
  shows "\<exists>s'. ece391_fdputs os 1 (lit cs) s = Some s' \<and> ok U s' \<and> scr s' = says (chars cs) (scr s)"
  by (rule user_screen.fdputs_lit [OF writes assms])

lemma refused: "unless_refused os msg (- 1) fail s = Some (fail, s)"
  by (simp add: unless_refused_def)

lemma verdicts:
  assumes "ok U s" and "0 \<notin> set (chars (if fail \<noteq> 0 then a else b))" and "length (if fail \<noteq> 0 then a else b) \<le> 1024"
  shows "\<exists>s'. verdict os a b fail s = Some (fail, s') \<and> ok U s' \<and> scr s' = says (chars (if fail \<noteq> 0 then a else b)) (scr s)"
  using prints [OF assms] by (auto simp: verdict_def)

lemma no_fd: "ok U s \<Longrightarrow> unat (NEG_FD) \<notin> U \<and> unat BIG_FD \<notin> U \<and> NEG_FD \<noteq> 0 \<and> NEG_FD \<noteq> 1 \<and> BIG_FD \<noteq> 0 \<and> BIG_FD \<noteq> 1"
  using used [of U s] by (auto simp: NEG_FD_def BIG_FD_def)

lemma neg_fd_passes:
  assumes "ok U s" and "length b = 32"
  shows "\<exists>s'. err_neg_fd os b s = Some (0, s') \<and> ok U s' \<and> scr s' = says (chars ''err_neg_fd: PASS\<newline>'') (scr s)"
proof -
  note n = no_fd [OF assms(1)]
  obtain b1 s1 where s1: "os_read os NEG_FD b 31 s = Some (- 1, b1, s1)" "length b1 = 32" "ok U s1" "scr s1 = scr s"
    using bad_read [OF assms, of NEG_FD] n by blast
  obtain s2 where s2: "os_write os NEG_FD b1 31 s1 = Some (- 1, s2)" "ok U s2" "scr s2 = scr s1"
    using bad_write [OF s1(3,2), of NEG_FD] n by blast
  obtain s3 where s3: "os_close os NEG_FD s2 = Some (- 1, s3)" "ok U s3" "scr s3 = scr s2"
    using close [OF s2(2), of NEG_FD] n by auto
  show ?thesis
    using verdicts [OF s3(2), of 0 "''err_neg_fd: FAIL\<newline>''" "''err_neg_fd: PASS\<newline>''"] s1 s2 s3
    by (simp add: err_neg_fd_def refused chars_def)
qed

lemma big_fd_passes:
  assumes "ok U s" and "length b = 32"
  shows "\<exists>s'. err_big_fd os b s = Some (0, s') \<and> ok U s' \<and> scr s' = says (chars ''err_big_fd: PASS\<newline>'') (scr s)"
proof -
  note n = no_fd [OF assms(1)]
  obtain b1 s1 where s1: "os_read os BIG_FD b 31 s = Some (- 1, b1, s1)" "length b1 = 32" "ok U s1" "scr s1 = scr s"
    using bad_read [OF assms, of BIG_FD] n by blast
  obtain s2 where s2: "os_write os BIG_FD b1 31 s1 = Some (- 1, s2)" "ok U s2" "scr s2 = scr s1"
    using bad_write [OF s1(3,2), of BIG_FD] n by blast
  obtain s3 where s3: "os_close os BIG_FD s2 = Some (- 1, s3)" "ok U s3" "scr s3 = scr s2"
    using close [OF s2(2), of BIG_FD] n by auto
  show ?thesis
    using verdicts [OF s3(2), of 0 "''err_big_fd: FAIL\<newline>''" "''err_big_fd: PASS\<newline>''"] s1 s2 s3
    by (simp add: err_big_fd_def refused chars_def)
qed

lemma vidmap_passes:
  assumes "ok U s"
  shows "\<exists>s'. err_vidmap os s = Some (0, s') \<and> ok U s' \<and> scr s' = says (chars ''err_vidmap: PASS\<newline>'') (scr s)"
proof -
  obtain s1 where s1: "os_vidmap os 0 s = Some (- 1, s1)" "ok U s1" "scr s1 = scr s" using bad_vidmap [OF assms, of 0] by auto
  obtain s2 where s2: "os_vidmap os 0x400000 s1 = Some (- 1, s2)" "ok U s2" "scr s2 = scr s1"
    using bad_vidmap [OF s1(2), of "0x400000"] by auto
  show ?thesis
    using verdicts [OF s2(2), of 0 "''err_vidmap: FAIL\<newline>''" "''err_vidmap: PASS\<newline>''"] s1 s2
    by (simp add: err_vidmap_def refused chars_def)
qed

lemma stdin_out_passes:
  assumes "ok U s" and "length b = 32"
  shows "\<exists>s'. err_stdin_out os b s = Some (0, s') \<and> ok U s' \<and> scr s' = says (chars ''err_stdin_out: PASS\<newline>'') (scr s)"
proof -
  have n: "unat (0 :: u32) \<notin> U" "unat (1 :: u32) \<notin> U" using used [OF assms(1)] by auto
  obtain s1 where s1: "os_write os 0 b 31 s = Some (- 1, s1)" "ok U s1" "scr s1 = scr s"
    using bad_write [OF assms _ n(1)] by auto
  obtain b2 s2 where s2: "os_read os 1 b 31 s1 = Some (- 1, b2, s2)" "ok U s2" "scr s2 = scr s1"
    using bad_read [OF s1(2) assms(2) _ n(2)] by auto
  show ?thesis
    using verdicts [OF s2(2), of 0 "''err_stdin_out: FAIL\<newline>''" "''err_stdin_out: PASS\<newline>''"] s1 s2
    by (simp add: err_stdin_out_def refused chars_def)
qed

lemma syscall_num_passes:
  assumes "ok U s"
  shows "\<exists>s'. err_syscall_num os s = Some (0, s') \<and> ok U s' \<and> scr s' = says (chars ''err_syscall_num: PASS\<newline>'') (scr s)"
proof -
  have n: "10 < sint BIG_NUM" "sint NEG_NUM < 1" "sint (0 :: u32) < 1" by (simp_all add: BIG_NUM_def NEG_NUM_def)
  obtain s1 where s1: "os_call os BIG_NUM s = Some (- 1, s1)" "ok U s1" "scr s1 = scr s" using bad_call [OF assms] n(1) by blast
  obtain s2 where s2: "os_call os NEG_NUM s1 = Some (- 1, s2)" "ok U s2" "scr s2 = scr s1" using bad_call [OF s1(2)] n(2) by blast
  obtain s3 where s3: "os_call os 0 s2 = Some (- 1, s3)" "ok U s3" "scr s3 = scr s2" using bad_call [OF s2(2)] n(3) by blast
  show ?thesis
    using verdicts [OF s3(2), of 0 "''err_syscall_num: FAIL\<newline>''" "''err_syscall_num: PASS\<newline>''"] s1 s2 s3
    by (simp add: err_syscall_num_def refused chars_def)
qed

lemma opens:
  assumes dir: "found ''.''"
  shows "ok U s \<Longrightarrow> \<exists>s'. open_lots os k cnt s = Some (cnt + of_nat (k - length (filter (\<lambda>k. k \<notin> U) [2..<8])), s') \<and>
    ok (U \<union> set (take k (filter (\<lambda>k. k \<notin> U) [2..<8]))) s' \<and> scr s' = scr s"
proof (induction k arbitrary: U cnt s)
  case (Suc k)
  obtain r s1 where s1: "os_open os (lit ''.'') s = Some (r, s1)" "scr s1 = scr s"
    "case filter (\<lambda>k. k \<notin> U) [2..<8] of [] \<Rightarrow> r = - 1 \<and> ok U s1 | k # _ \<Rightarrow> r = of_nat k \<and> ok (insert k U) s1"
    using open_name [OF Suc.prems, of "''.''"] dir by auto
  show ?case
  proof (cases "filter (\<lambda>k. k \<notin> U) [2..<8]")
    case Nil
    then show ?thesis using Suc.IH [of U s1 "cnt + 1"] s1 by (simp add: add.assoc)
  next
    case (Cons fd fds)
    then have i: "r = of_nat fd" "ok (insert fd U) s1" using s1(3) by simp_all
    have "fd \<in> set (filter (\<lambda>k. k \<notin> U) [2..<8])" by (simp only: Cons list.set_intros)
    then have fd: "fd < 8" by (simp del: upt_rec_numeral)
    then have r: "r \<noteq> - 1" using count_word(3) [of fd] i(1) by simp
    have "distinct (filter (\<lambda>k. k \<notin> U) [2..<8])" by simp
    then have d: "fd \<notin> set fds" unfolding Cons by simp
    have "filter (\<lambda>k. k \<notin> insert fd U) [2..<8] = filter (\<lambda>k. k \<noteq> fd) (filter (\<lambda>k. k \<notin> U) [2..<8])"
      by (simp add: conj_commute)
    also have "\<dots> = fds" unfolding Cons using d by (auto simp: filter_id_conv)
    finally have f: "filter (\<lambda>k. k \<notin> insert fd U) [2..<8] = fds" .
    show ?thesis using Suc.IH [OF i(2), of cnt] s1(1,2) r unfolding f Cons by simp
  qed
qed simp

lemma closes:
  "ok U s \<Longrightarrow> \<forall>k \<in> set fds. k < 8 \<Longrightarrow> \<exists>s'. close_all os (map of_nat fds) s = Some s' \<and> ok (U - set fds) s' \<and> scr s' = scr s"
proof (induction fds arbitrary: U s)
  case (Cons fd fds)
  then have "unat (of_nat fd :: u32) = fd" by simp
  then obtain r s1 where s1: "os_close os (of_nat fd) s = Some (r, s1)" "ok (U - {fd}) s1" "scr s1 = scr s"
    using close [OF Cons.prems(1), of "of_nat fd"] by metis
  have "U - insert fd (set fds) = U - {fd} - set fds" by blast
  then show ?case using Cons.IH [OF s1(2)] Cons.prems(2) s1 by simp
qed simp

lemma opens_none:
  assumes no: "\<not> found ''.''"
  shows "ok U s \<Longrightarrow> \<exists>s'. open_lots os k cnt s = Some (cnt + of_nat k, s') \<and> ok U s' \<and> scr s' = scr s"
proof (induction k arbitrary: cnt s)
  case (Suc k)
  obtain s1 where s1: "os_open os (lit ''.'') s = Some (- 1, s1)" "ok U s1" "scr s1 = scr s"
    using open_name [OF Suc.prems, of "''.''"] no by auto
  then show ?case using Suc.IH [OF s1(2), of "cnt + 1"] by (simp add: add.assoc)
qed simp

lemma open_lots_tells:
  assumes "ok {} s"
  shows "\<exists>s'. err_open_lots os s = Some (if found ''.'' then 0 else 2, s') \<and> ok {} s' \<and>
    scr s' = says (chars (if found ''.'' then ''err_open_lots: PASS\<newline>'' else ''err_open_lots: FAIL\<newline>'')) (scr s)"
proof (cases "found ''.''")
  case False
  obtain s1 where s1: "open_lots os 7 0 s = Some (7, s1)" "ok {} s1" "scr s1 = scr s"
    using opens_none [OF False assms, of 7 0] by auto
  obtain s2 where s2: "close_all os (map of_nat [2..<8]) s1 = Some s2" "ok {} s2" "scr s2 = scr s1"
    using closes [OF s1(2), of "[2..<8]"] by auto
  show ?thesis
    using prints [OF s2(2), of "''err_open_lots: FAIL\<newline>''"] s1 s2 False
    by (auto simp: err_open_lots_def chars_def simp del: upt_rec_numeral)
next
  case dir: True
  have e: "filter (\<lambda>k. k \<notin> {}) [2..<8] = [2..<8]" by simp
  obtain s1 where s1: "open_lots os 7 0 s = Some (1, s1)" "ok (set (take 7 [2..<8])) s1" "scr s1 = scr s"
    using opens [OF dir assms, of 7 0] unfolding e by auto
  obtain s2 where s2: "close_all os (map of_nat [2..<8]) s1 = Some s2" "ok {} s2" "scr s2 = scr s1"
    using closes [OF s1(2), of "[2..<8]"] by auto
  show ?thesis
    using prints [OF s2(2), of "''err_open_lots: PASS\<newline>''"] s1 s2 dir
    by (auto simp: err_open_lots_def chars_def simp del: upt_rec_numeral)
qed

lemma closing:
  "ok U s \<Longrightarrow> \<forall>k \<in> set fds. k < 8 \<Longrightarrow> distinct fds \<Longrightarrow>
    \<exists>s'. try_close os (map of_nat fds) fail s = Some (if \<exists>k \<in> set fds. k \<in> U then 2 else fail, s') \<and> ok (U - set fds) s' \<and>
      scr s' = says (concat (map (\<lambda>k. if k \<in> U then chars ''close unopened or invalid fd fail\<newline>'' else []) fds)) (scr s)"
proof (induction fds arbitrary: U s fail)
  case (Cons fd fds)
  let ?m = "''close unopened or invalid fd fail\<newline>''"
  have msg: "0 \<notin> set (chars ?m)" by (simp add: chars_def)
  have u: "unat (of_nat fd :: u32) = fd" using Cons.prems by simp
  obtain s1 where s1: "os_close os (of_nat fd) s = Some (if fd \<in> U then 0 else - 1, s1)" "ok (U - {fd}) s1" "scr s1 = scr s"
    using close [OF Cons.prems(1), of "of_nat fd"] u by auto
  have m: "\<exists>s2. unless_refused os ?m (if fd \<in> U then 0 else - 1) fail s1 = Some (if fd \<in> U then 2 else fail, s2) \<and>
      ok (U - {fd}) s2 \<and> scr s2 = says (if fd \<in> U then chars ?m else []) (scr s1)"
    using prints [OF s1(2), of ?m] s1(2) by (cases "fd \<in> U") (auto simp: unless_refused_def msg)
  then obtain s2 where s2: "unless_refused os ?m (if fd \<in> U then 0 else - 1) fail s1 = Some (if fd \<in> U then 2 else fail, s2)"
    "ok (U - {fd}) s2" "scr s2 = says (if fd \<in> U then chars ?m else []) (scr s1)" by blast
  have f: "\<forall>k \<in> set fds. k < 8" "distinct fds" "fd \<notin> set fds" using Cons.prems by simp_all
  let ?f = "if fd \<in> U then 2 else fail" and ?ms = "\<lambda>U. concat (map (\<lambda>k. if k \<in> U then chars ?m else []) fds)"
  have mp: "?ms (U - {fd}) = ?ms U" using f(3) by (intro arg_cong [of _ _ concat] map_cong) auto
  have un: "U - set (fd # fds) = U - {fd} - set fds" by auto
  have ex: "(\<exists>k \<in> set fds. k \<in> U - {fd}) = (\<exists>k \<in> set fds. k \<in> U)" using f(3) by auto
  obtain s3 where s3: "try_close os (map of_nat fds) ?f s2 = Some (if \<exists>k \<in> set fds. k \<in> U then 2 else ?f, s3)"
    "ok (U - {fd} - set fds) s3" "scr s3 = says (?ms U) (scr s2)"
    using Cons.IH [OF s2(2) f(1,2), of ?f] unfolding mp ex by blast
  have "try_close os (map of_nat (fd # fds)) fail s = try_close os (map of_nat fds) ?f s2"
    using s1(1) s2(1) by (simp only: list.map try_close.simps Option.bind.simps prod.case)
  moreover have "(if \<exists>k \<in> set fds. k \<in> U then 2 else ?f) = (if \<exists>k \<in> set (fd # fds). k \<in> U then 2 else fail)" by auto
  moreover have "scr s3 = says (concat (map (\<lambda>k. if k \<in> U then chars ?m else []) (fd # fds))) (scr s)"
    by (simp only: s3(3) s2(3) s1(3) list.map concat.simps says_simps)
  ultimately show ?case using s3(1,2) unfolding un by (intro exI [of _ s3]) (simp only: simp_thms)
qed simp

lemma reading:
  "ok U s \<Longrightarrow> \<forall>k \<in> set fds. 2 \<le> k \<and> k < 8 \<and> k \<notin> U \<Longrightarrow> length b = 32 \<Longrightarrow>
    \<exists>b' s'. try_read os (map of_nat fds) b fail s = Some (fail, b', s') \<and> length b' = 32 \<and> ok U s' \<and> scr s' = scr s"
proof (induction fds arbitrary: s b)
  case (Cons fd fds)
  then have u: "unat (of_nat fd :: u32) = fd" "(of_nat fd :: u32) \<noteq> 0" "fd \<notin> U"
    using count_word(1,2) [of fd] by simp_all
  obtain b1 s1 where s1: "os_read os (of_nat fd) b 31 s = Some (- 1, b1, s1)" "length b1 = 32" "ok U s1" "scr s1 = scr s"
    using bad_read [OF Cons.prems(1,3) u(2)] u(1,3) by metis
  show ?case using Cons.IH [OF s1(3) _ s1(2)] Cons.prems(2) s1 by (simp add: refused)
qed simp

lemma writing:
  "ok U s \<Longrightarrow> \<forall>k \<in> set fds. 2 \<le> k \<and> k < 8 \<and> k \<notin> U \<Longrightarrow> length b = 32 \<Longrightarrow>
    \<exists>s'. try_write os (map of_nat fds) b fail s = Some (fail, s') \<and> ok U s' \<and> scr s' = scr s"
proof (induction fds arbitrary: s)
  case (Cons fd fds)
  then have u: "unat (of_nat fd :: u32) = fd" "fd \<notin> U" "fd \<noteq> 1" by simp_all
  then have "(of_nat fd :: u32) \<noteq> 1" by (metis unat_1)
  then obtain s1 where s1: "os_write os (of_nat fd) b 31 s = Some (- 1, s1)" "ok U s1" "scr s1 = scr s"
    using bad_write [OF Cons.prems(1,3)] u(1,2) by metis
  show ?case using Cons.IH [OF s1(2) _ Cons.prems(3)] Cons.prems(2) s1 by (simp add: refused)
qed simp

text \<open>The test of unopened descriptors passes if there are none, and fails, with a line for each, if
  there are.\<close>

lemma unopened_tells:
  assumes "ok U s" and "length b = 32"
  defines "lines \<equiv> concat (map (\<lambda>k. if k \<in> U then chars ''close unopened or invalid fd fail\<newline>'' else []) [0..<8])"
  shows "\<exists>s'. err_unopened os b s = Some (if U = {} then 0 else 2, s') \<and> ok {} s' \<and>
    scr s' = says (lines @ chars (if U = {} then ''err_unopened: PASS\<newline>'' else ''err_unopened: FAIL\<newline>'')) (scr s)"
proof -
  have U: "U - set [0..<8] = {}" "(\<exists>k \<in> set [0..<8]. k \<in> U) = (U \<noteq> {})" using used [OF assms(1)] by auto
  let ?f = "if U \<noteq> {} then 2 else 0 :: u32"
  obtain s1 where s1: "try_close os (map of_nat [0..<8]) 0 s = Some (?f, s1)" "ok {} s1" "scr s1 = says lines (scr s)"
    using closing [OF assms(1), of "[0..<8]" 0] unfolding U lines_def by auto
  obtain b2 s2 where s2: "try_read os (map of_nat [2..<8]) b ?f s1 = Some (?f, b2, s2)" "length b2 = 32" "ok {} s2" "scr s2 = scr s1"
    using reading [OF s1(2), of "[2..<8]" b ?f] assms(2) by auto
  obtain s3 where s3: "try_write os (map of_nat [2..<8]) b2 ?f s2 = Some (?f, s3)" "ok {} s3" "scr s3 = scr s2"
    using writing [OF s2(3), of "[2..<8]" b2 ?f] s2(2) by auto
  have "\<exists>s'. verdict os ''err_unopened: FAIL\<newline>'' ''err_unopened: PASS\<newline>'' ?f s3 = Some (?f, s') \<and> ok {} s' \<and>
      scr s' = says (chars (if ?f \<noteq> 0 then ''err_unopened: FAIL\<newline>'' else ''err_unopened: PASS\<newline>'')) (scr s3)"
    by (rule verdicts [OF s3(2)]) (simp_all add: chars_def)
  then obtain s4 where s4: "verdict os ''err_unopened: FAIL\<newline>'' ''err_unopened: PASS\<newline>'' ?f s3 = Some (?f, s4)" "ok {} s4"
      "scr s4 = says (chars (if ?f \<noteq> 0 then ''err_unopened: FAIL\<newline>'' else ''err_unopened: PASS\<newline>'')) (scr s3)" by blast
  show ?thesis using s1 s2 s3 s4 by (cases "U = {}") (auto simp: err_unopened_def simp del: upt_rec_numeral)
qed

text \<open>The test of names fails on a system that finds a file by the start of its name, and leaves the file
  open.\<close>

lemma open_tells:
  assumes ok: "ok {} s" and no: "\<not> found ''helloo''" "\<not> found []"
  shows "\<exists>s'. err_open os s = Some (if found ''shel'' then 2 else 0, s') \<and> ok (if found ''shel'' then {2} else {}) s' \<and>
    scr s' = says (chars (if found ''shel'' then CHR 0x27 # ''shel'' @ CHR 0x27 # '' fail\<newline>err_open: FAIL\<newline>''
      else ''err_open: PASS\<newline>'')) (scr s)"
proof -
  obtain s1 where s1: "os_open os (lit ''helloo'') s = Some (- 1, s1)" "ok {} s1" "scr s1 = scr s"
    using open_name [OF ok, of "''helloo''"] no(1) by auto
  show ?thesis
  proof (cases "found ''shel''")
    case False
    then obtain s2 where s2: "os_open os (lit ''shel'') s1 = Some (- 1, s2)" "ok {} s2" "scr s2 = scr s1"
      using open_name [OF s1(2), of "''shel''"] by auto
    obtain s3 where s3: "os_open os (lit []) s2 = Some (- 1, s3)" "ok {} s3" "scr s3 = scr s2"
      using open_name [OF s2(2), of "[]"] no(2) by auto
    show ?thesis
      using verdicts [OF s3(2), of 0 "''err_open: FAIL\<newline>''" "''err_open: PASS\<newline>''"] s1 s2 s3 False
      by (simp add: err_open_def refused chars_def)
  next
    case True
    let ?m = "CHR 0x27 # ''shel'' @ CHR 0x27 # '' fail\<newline>''"
    have m: "0 \<notin> set (chars ?m)" by (simp add: chars_def)
    obtain s2 where s2: "os_open os (lit ''shel'') s1 = Some (2, s2)" "ok {2} s2" "scr s2 = scr s1"
      using open_name [OF s1(2), of "''shel''"] True by auto
    obtain s3 where s3: "ece391_fdputs os 1 (lit ?m) s2 = Some s3" "ok {2} s3" "scr s3 = says (chars ?m) (scr s2)"
      using prints [OF s2(2) m] by auto
    obtain s4 where s4: "os_open os (lit []) s3 = Some (- 1, s4)" "ok {2} s4" "scr s4 = scr s3"
      using open_name [OF s3(2), of "[]"] no(2) by auto
    have v: "\<exists>s'. verdict os ''err_open: FAIL\<newline>'' ''err_open: PASS\<newline>'' 2 s4 = Some (2, s') \<and> ok {2} s' \<and>
        scr s' = says (chars ''err_open: FAIL\<newline>'') (scr s4)"
      using verdicts [OF s4(2), of 2 "''err_open: FAIL\<newline>''" "''err_open: PASS\<newline>''"] by (simp add: chars_def)
    have "unless_refused os ?m 2 0 s2 = Some (2, s3)" using s3(1) by (simp add: unless_refused_def)
    moreover have "chars (CHR 0x27 # ''shel'' @ CHR 0x27 # '' fail\<newline>err_open: FAIL\<newline>'') = chars ?m @ chars ''err_open: FAIL\<newline>''"
      by (simp add: chars_def)
    ultimately show ?thesis
      using v True s1 s2 s3(2,3) s4 by (auto simp: err_open_def refused)
  qed
qed

text \<open>The whole run, and what it prints.\<close>

lemma all_tests_tell:
  assumes ok: "ok {} s" and no: "\<not> found ''helloo''" "\<not> found []" and b: "\<forall>i \<in> {1, 2, 5, 7}. length (bufs i) = 32"
  shows "\<exists>s'. all_tests os bufs s = Some (failures (found ''.'') (found ''shel''), s') \<and> ok {} s' \<and>
    scr s' = says (chars (report (found ''.'') (found ''shel''))) (scr s)"
proof -
  let ?p = "found ''shel''" and ?d = "found ''.''"
  let ?r = "if ?d then ''err_open_lots: PASS\<newline>'' else ''err_open_lots: FAIL\<newline>''"
  obtain s1 where s1: "err_neg_fd os (bufs 1) s = Some (0, s1)" "ok {} s1" "scr s1 = says (chars ''err_neg_fd: PASS\<newline>'') (scr s)"
    using neg_fd_passes [OF ok, of "bufs 1"] b by blast
  obtain s2 where s2: "err_big_fd os (bufs 2) s1 = Some (0, s2)" "ok {} s2" "scr s2 = says (chars ''err_big_fd: PASS\<newline>'') (scr s1)"
    using big_fd_passes [OF s1(2), of "bufs 2"] b by blast
  obtain s3 where s3: "err_open_lots os s2 = Some (if ?d then 0 else 2, s3)" "ok {} s3" "scr s3 = says (chars ?r) (scr s2)"
    using open_lots_tells [OF s2(2)] by blast
  let ?U = "if ?p then {2} else {} :: nat set" and ?f = "if ?p then 2 else 0 :: u32"
  let ?o = "if ?p then CHR 0x27 # ''shel'' @ CHR 0x27 # '' fail\<newline>err_open: FAIL\<newline>'' else ''err_open: PASS\<newline>''"
  obtain s4 where s4: "err_open os s3 = Some (?f, s4)" "ok ?U s4" "scr s4 = says (chars ?o) (scr s3)"
    using open_tells [OF s3(2) no] by blast
  let ?l = "concat (map (\<lambda>k. if k \<in> ?U then chars ''close unopened or invalid fd fail\<newline>'' else []) [0..<8])"
  have l: "?l = (if ?p then chars ''close unopened or invalid fd fail\<newline>'' else [])" by (simp add: upt_rec)
  have e: "(?U = {}) = (\<not> ?p)" by simp
  obtain s5 where s5: "err_unopened os (bufs 5) s4 = Some (?f, s5)" "ok {} s5"
    "scr s5 = says (?l @ chars (if ?p then ''err_unopened: FAIL\<newline>'' else ''err_unopened: PASS\<newline>'')) (scr s4)"
    using unopened_tells [OF s4(2), of "bufs 5"] b unfolding e by (cases ?p) auto
  obtain s6 where s6: "err_vidmap os s5 = Some (0, s6)" "ok {} s6" "scr s6 = says (chars ''err_vidmap: PASS\<newline>'') (scr s5)"
    using vidmap_passes [OF s5(2)] by blast
  obtain s7 where s7: "err_stdin_out os (bufs 7) s6 = Some (0, s7)" "ok {} s7" "scr s7 = says (chars ''err_stdin_out: PASS\<newline>'') (scr s6)"
    using stdin_out_passes [OF s6(2), of "bufs 7"] b by blast
  obtain s8 where s8: "err_syscall_num os s7 = Some (0, s8)" "ok {} s8" "scr s8 = says (chars ''err_syscall_num: PASS\<newline>'') (scr s7)"
    using syscall_num_passes [OF s7(2)] by blast
  let ?v = "if ?p \<or> \<not> ?d then ''\<newline>Overall Tests: FAIL\<newline>'' else ''\<newline>Overall Tests: PASS\<newline>''"
  have "0 \<notin> set (chars ?v)" "length ?v \<le> 1024" by (simp_all add: chars_def)
  then obtain s9 where s9: "ece391_fdputs os 1 (lit ?v) s8 = Some s9" "ok {} s9" "scr s9 = says (chars ?v) (scr s8)"
    using prints [OF s8(2)] by blast
  have "all_tests os bufs s = Some (failures ?d ?p, s9)"
    using s1(1) s2(1) s3(1) s4(1) s5(1) s6(1) s7(1) s8(1) s9(1)
    by (cases ?p; cases ?d) (simp_all add: all_tests_def failures_def)
  moreover have "scr s9 = says (chars (report ?d ?p)) (scr s)"
    unfolding s9(3) s8(3) s7(3) s6(3) s5(3) l s4(3) s3(3) s2(3) s1(3) says_simps(2) [symmetric]
    by (rule arg_cong [where f = "\<lambda>cs. says cs (scr s)"]) (simp add: report_def chars_def)
  ultimately show ?thesis using s9(2) by blast
qed

end

end
