(* ===== verification/Syserr_Props.thy ===== *)
theory Syserr_Props
  imports Syserr Shell_Props
begin

text \<open>
  The course's test program on this kernel: which of its tests pass, and what it prints.
\<close>

section \<open>Calls that are refused\<close>

text \<open>The descriptors from 2 on that are in use.\<close>

definition fds_used :: "nat \<Rightarrow> nat set \<Rightarrow> 'a kern_scheme \<Rightarrow> bool" where
  "fds_used p U s \<longleftrightarrow> U \<subseteq> {2..<8} \<and> (\<forall>k. 2 \<le> k \<longrightarrow> k < 8 \<longrightarrow> (in_use (fd_array (pcbs s p) ! k) = 0 \<longleftrightarrow> k \<notin> U))"

lemma fds_used_free: "fds_used p U s \<Longrightarrow> free_fds s p 2 = filter (\<lambda>k. k \<notin> U) [2..<8]"
  unfolding free_fds_def by (intro filter_cong) (auto simp: fds_used_def simp del: upt_rec_numeral)

lemma fds_used_same: "pcbs t = pcbs s \<Longrightarrow> fds_used p U t = fds_used p U s"
  by (simp add: fds_used_def)

lemma fds_used_simps [simp]:
  "fds_used p U (cli s) = fds_used p U s" "fds_used p U (sti s) = fds_used p U s"
  "fds_used p U (s\<lparr>mem := m\<rparr>) = fds_used p U s"
  by (simp_all add: fds_used_def)

lemma fds_refuse:
  fixes s :: "'a kern_scheme"
  assumes u: "user_ok E m0 fsa ext p q s" and f: "fds_used p U s" and fd: "unat fd \<notin> U"
  shows "fd \<noteq> 0 \<Longrightarrow> sys_read hs fd buf n s = Some (- 1, s) \<and> fd_extent (read_extent fd n s) s fd buf = 0 \<and> \<not> waits s fd"
    and "fd \<noteq> 1 \<Longrightarrow> sys_write dev fd buf n s = Some (- 1, s) \<and> fd_extent (write_extent fd n) s fd buf = 0"
proof -
  note k = user_okD(11,4) [OF u]
  have none: "sys_read hs fd buf n s = Some (- 1, s) \<and> sys_write dev fd buf n s = Some (- 1, s) \<and> fd_driver s fd = None"
    if "8 \<le> unat fd \<or> in_use (fd_array (pcbs s p) ! unat fd) = 0"
  proof (cases "8 \<le> unat fd")
    case True
    then have "fd > 7" by (simp add: word_less_nat_alt)
    then show ?thesis
      using bad_fd_refuses(1) [OF True, of hs buf n s] bad_fd_refuses(2) [OF True, of dev buf n s] by (simp add: fd_driver_def)
  next
    case False
    then have l: "unat fd < 8" and i: "in_use (fd_array (pcbs s p) ! unat fd) = 0" using that by simp_all
    show ?thesis using unused_fd_refuses [OF k l i] cur_fd_shape [OF k l] i by (simp add: fd_driver_def)
  qed
  have ext: "fd_extent x s fd buf = 0" if "fd_driver s fd = None" for x using that by (simp add: fd_extent_def)
  have high: "8 \<le> unat fd \<or> in_use (fd_array (pcbs s p) ! unat fd) = 0" if "2 \<le> unat fd"
    using f fd that by (auto simp: fds_used_def)
  show "sys_read hs fd buf n s = Some (- 1, s) \<and> fd_extent (read_extent fd n s) s fd buf = 0 \<and> \<not> waits s fd" if "fd \<noteq> 0"
  proof (cases "fd = 1")
    case True
    note d = user_fd_driver [OF u, of 1, OF _ refl, simplified, OF user_okD(8,9) [OF u, simplified]]
    show ?thesis
      using d user_okD(8,9) [OF u] unfolding True
      by (simp add: sys_read_def driver_read_def terminal_read_def fd_extent_def read_extent_def waits_def word_less_nat_alt)
  next
    case False
    then have "2 \<le> unat fd" using that word_unat_eq_iff [of fd 0] word_unat_eq_iff [of fd 1] by simp
    from none [OF high [OF this]] show ?thesis using ext by (simp add: waits_def)
  qed
  show "sys_write dev fd buf n s = Some (- 1, s) \<and> fd_extent (write_extent fd n) s fd buf = 0" if "fd \<noteq> 1"
  proof (cases "fd = 0")
    case True
    show ?thesis
    proof (cases "in_use (fd_array (pcbs s p) ! 0) = 0")
      case free: True
      then show ?thesis using none ext by (simp add: True)
    next
      case False
      have "fd_ok 0 (fd_array (pcbs s p) ! 0)" using kinvD(1) [OF user_okD(3) [OF u]] by (simp add: fds_ok_def)
      then have i: "in_use (fd_array (pcbs s p) ! 0) = 1" "fops (fd_array (pcbs s p) ! 0) = Some Terminal_fops"
        using False by (auto simp: fd_ok_def)
      note d = user_fd_driver [OF u, of 0, OF _ refl, simplified, OF i]
      show ?thesis
        using d i unfolding True
        by (simp add: sys_write_def driver_write_def terminal_write_def fd_extent_def write_extent_def)
    qed
  next
    case False
    then have "2 \<le> unat fd" using that word_unat_eq_iff [of fd 0] word_unat_eq_iff [of fd 1] by simp
    from none [OF high [OF this]] show ?thesis using ext by simp
  qed
qed

lemma user_refused:
  assumes u: "user_ok E m0 fsa ext p q s"
    and sh: "syscall_handler (env_L E) (env_dev E) (env_fr E) (env_lit E) hs r s = Some (Return v (sti (cli s)))"
  shows "user_call E hs r s = Some (v, sti (cli s))" and "user_ok E m0 fsa ext p q (sti (cli s))" and "alone p s (sti (cli s))"
    and "pcbs (sti (cli s)) = pcbs s" and "tty_of (sti (cli s)) = tty_of s"
  using sh user_ok_flag(2) [OF user_ok_flag(1) [OF u]] by (simp_all add: user_call_def)

lemma bad_read_call:
  assumes u: "user_ok E m0 fsa ext p q s" and f: "fds_used p U s" and fd: "fd \<noteq> 0" "unat fd \<notin> U" and b: "length b = 32"
  shows "\<exists>b' t. user_read E fd b 31 (s, hss) = Some (- 1, b', (t, hss)) \<and> length b' = 32 \<and> user_ok E m0 fsa ext p q t \<and>
    alone p s t \<and> pcbs t = pcbs s \<and> tty_of t = tty_of s"
proof -
  have l: "length b \<le> 1025" "b \<noteq> []" using b by auto
  let ?s1 = "s\<lparr>mem := write_bytes (home_pa E q) b (mem s)\<rparr>"
  note w = home_write [OF u l(1)]
  have uc: "user_ok E m0 fsa ext p q (cli ?s1)" by (rule user_ok_flag(1) [OF w(1)])
  have fs: "fds_used p U ?s1" "fds_used p U (cli ?s1)" using f by simp_all
  note r1 = fds_refuse(1) [OF w(1) fs(1) fd(2,1), of "[]" "env_va E" 31] and rc = fds_refuse(1) [OF uc fs(2) fd(2,1), of "[]" "env_va E" 31]
  have sh: "syscall_handler (env_L E) (env_dev E) (env_fr E) (env_lit E) [] (DO_CALL 3 fd (env_va E) 31) ?s1 = Some (Return (- 1) (sti (cli ?s1)))"
    using rc by (simp add: syscall_handler_def syscalls_def DO_CALL_def Let_def span_def MIN_SYSTEM_CALLS_def MAX_SYSTEM_CALLS_def)
  note c = user_refused [OF w(1) sh]
  show ?thesis
    using c r1 w(2) b alone_trans [OF w(4) c(3)] user_put_eq [OF u l] by (auto simp: user_read_def)
qed

lemma bad_write_call:
  assumes u: "user_ok E m0 fsa ext p q s" and f: "fds_used p U s" and fd: "fd \<noteq> 1" "unat fd \<notin> U" and b: "length b = 32"
  shows "\<exists>t. user_write E fd b 31 (s, hss) = Some (- 1, (t, hss)) \<and> user_ok E m0 fsa ext p q t \<and>
    alone p s t \<and> pcbs t = pcbs s \<and> tty_of t = tty_of s"
proof -
  have l: "length b \<le> 1025" "b \<noteq> []" using b by auto
  let ?s1 = "s\<lparr>mem := write_bytes (home_pa E q) b (mem s)\<rparr>"
  note w = home_write [OF u l(1)]
  have uc: "user_ok E m0 fsa ext p q (cli ?s1)" by (rule user_ok_flag(1) [OF w(1)])
  have fs: "fds_used p U (cli ?s1)" using f by simp
  note rc = fds_refuse(2) [OF uc fs fd(2,1), of "env_dev E" "env_va E" 31]
  have sh: "syscall_handler (env_L E) (env_dev E) (env_fr E) (env_lit E) [] (DO_CALL 4 fd (env_va E) 31) ?s1 = Some (Return (- 1) (sti (cli ?s1)))"
    using rc by (simp add: syscall_handler_def syscalls_def DO_CALL_def Let_def span_def MIN_SYSTEM_CALLS_def MAX_SYSTEM_CALLS_def)
  note c = user_refused [OF w(1) sh]
  show ?thesis
    using c w(2) alone_trans [OF w(4) c(3)] user_put_eq [OF u l] by (auto simp: user_write_def)
qed

lemma bad_vidmap_call:
  assumes u: "user_ok E m0 fsa ext p q s" and va: "unat va < 0x8000000"
  shows "\<exists>t. user_vidmap E va (s, hss) = Some (- 1, (t, hss)) \<and> user_ok E m0 fsa ext p q t \<and>
    alone p s t \<and> pcbs t = pcbs s \<and> tty_of t = tty_of s"
proof -
  have sh: "syscall_handler (env_L E) (env_dev E) (env_fr E) (env_lit E) [] (DO_CALL 8 va 0 0) s = Some (Return (- 1) (sti (cli s)))"
    using vidmap_refuses [OF disjI1 [OF va], of "layout.truncate (env_L E)" "cli s"]
    by (simp add: syscall_handler_def syscalls_def DO_CALL_def Let_def MIN_SYSTEM_CALLS_def MAX_SYSTEM_CALLS_def)
  from user_refused [OF u sh] show ?thesis by (simp add: user_vidmap_def)
qed

lemma bad_number_call:
  assumes u: "user_ok E m0 fsa ext p q s" and n: "sint num < 1 \<or> 10 < sint num"
  shows "\<exists>t. user_call_sys E num (s, hss) = Some (- 1, (t, hss)) \<and> user_ok E m0 fsa ext p q t \<and>
    alone p s t \<and> pcbs t = pcbs s \<and> tty_of t = tty_of s"
proof -
  have sh: "syscall_handler (env_L E) (env_dev E) (env_fr E) (env_lit E) [] ((env_regs E)\<lparr>eax := num\<rparr>) s = Some (Return (- 1) (sti (cli s)))"
    by (rule unknown_call) (use n in simp)
  from user_refused [OF u sh] show ?thesis by (simp add: user_call_sys_def)
qed

lemma close_call:
  assumes u: "user_ok E m0 fsa ext p q s" and f: "fds_used p U s"
  shows "\<exists>t. user_close E fd (s, hss) = Some (if unat fd \<in> U then 0 else - 1, (t, hss)) \<and> user_ok E m0 fsa ext p q t \<and>
    alone p s t \<and> fds_used p (U - {unat fd}) t \<and> tty_of t = tty_of s"
proof (cases "unat fd \<in> U")
  case False
  have "sys_close fd (cli s) = Some (- 1, cli s)"
  proof (cases "fd \<le> 1 \<or> fd > 7")
    case True
    then show ?thesis by (rule sys_close_bad)
  next
    case no: False
    then have l: "2 \<le> unat fd" "unat fd < 8" by (simp_all add: word_le_nat_alt word_less_nat_alt)
    note uc = user_ok_flag(1) [OF u]
    have "in_use (fd_array (pcbs (cli s) p) ! unat fd) = 0" using f False l by (simp add: fds_used_def)
    from unused_fd_refuses(3) [OF user_okD(11,4) [OF uc] l(2) this] show ?thesis .
  qed
  then have sh: "syscall_handler (env_L E) (env_dev E) (env_fr E) (env_lit E) [] (DO_CALL 6 fd 0 0) s = Some (Return (- 1) (sti (cli s)))"
    by (simp add: syscall_handler_def syscalls_def DO_CALL_def Let_def MIN_SYSTEM_CALLS_def MAX_SYSTEM_CALLS_def)
  from user_refused [OF u sh] f False show ?thesis by (simp add: user_close_def)
next
  case True
  then have l: "2 \<le> unat fd" "unat fd < 8" using f by (auto simp: fds_used_def)
  let ?c = "cli s"
  have uc: "user_ok E m0 fsa ext p q ?c" by (rule user_ok_flag(1) [OF u])
  note k = user_okD(3) [OF uc]
  define d where "d = fd_array (pcbs ?c p) ! unat fd"
  have i: "in_use d \<noteq> 0" using f True l by (auto simp: fds_used_def d_def)
  let ?t = "put_fd p (unat fd) (d\<lparr>in_use := 0\<rparr>) ?c"
  have cl: "sys_close fd ?c = Some (0, ?t)"
    using sys_close_eq [OF kinvD(1) [OF k] user_okD(4) [OF uc] l] i by (simp add: d_def)
  have call: "user_call E [] (DO_CALL 6 fd 0 0) s = Some (0, sti ?t)"
    using cl by (simp add: user_call_def syscall_handler_def syscalls_def DO_CALL_def Let_def MIN_SYSTEM_CALLS_def MAX_SYSTEM_CALLS_def)
  have at: "fd_array (pcbs ?t p) ! g = (if g = unat fd then d\<lparr>in_use := 0\<rparr> else fd_array (pcbs s p) ! g)" for g
    using put_fd_at [OF user_okD(11) [OF uc] l(2), of p _ g] by simp
  have k1: "kinv (env_L E) m0 fsa ext ?t" by (rule sys_close_kinv [OF k cl])
  have q1: "quiet (env_L E) s ?t" by (simp add: quiet_def put_fd_def set_pcb_def cli_def)
  have on: "on_screen ?t" using user_okD(10) [OF u] by (simp add: on_screen_def put_fd_def set_pcb_def cli_def)
  have ut: "user_ok E m0 fsa ext p q ?t" by (rule user_ok_step [OF u k1 q1 _ on]) (use l in \<open>simp add: at\<close>)
  have al: "alone p s ?t" by (rule alone_quiet(1) [OF q1]) (simp_all add: put_fd_def set_pcb_def cli_def same_keys_def)
  have "fds_used p (U - {unat fd}) ?t" using f by (auto simp: fds_used_def at)
  then have "fds_used p (U - {unat fd}) (sti ?t)" by simp
  moreover have "tty_of (sti ?t) = tty_of s" by (simp add: tty_of_def put_fd_def set_pcb_def cli_def sti_def)
  ultimately show ?thesis
    using call user_ok_flag(2) [OF ut] al True by (intro exI [of _ "sti ?t"]) (simp add: user_close_def)
qed

section \<open>The kernel under the test program\<close>

text \<open>The names the program opens: what each leads to, if anything, is a directory or a file.\<close>

definition test_entry :: "mem \<Rightarrow> u32 \<Rightarrow> string \<Rightarrow> bool" where
  "test_entry m0 fsa nm \<longleftrightarrow> nm \<noteq> [] \<and> first_entry m0 fsa (chars nm) \<noteq> None"

definition test_entries :: "mem \<Rightarrow> u32 \<Rightarrow> bool" where
  "test_entries m0 fsa \<longleftrightarrow> list_all (\<lambda>nm. case first_entry m0 fsa (chars nm) of
     None \<Rightarrow> True | Some e \<Rightarrow> file_type e = 1 \<or> file_type e = 2) [''.'', ''helloo'', ''shel'']"

lemma open_call:
  assumes u: "user_ok E m0 fsa ext p q s" and f: "fds_used p U s" and te: "test_entries m0 fsa"
    and nm: "nm \<in> {''.'', ''helloo'', ''shel'', []}"
  shows "\<exists>r t. user_open E (lit nm) (s, hss) = Some (r, (t, hss)) \<and> user_ok E m0 fsa ext p q t \<and> tty_of t = tty_of s \<and>
    alone p s t \<and>
    (if test_entry m0 fsa nm then (case filter (\<lambda>k. k \<notin> U) [2..<8] of
         [] \<Rightarrow> r = - 1 \<and> fds_used p U t | k # _ \<Rightarrow> r = of_nat k \<and> fds_used p (insert k U) t)
     else r = - 1 \<and> fds_used p U t)"
proof (cases "nm = []")
  case True
  obtain t where t: "user_open E [0] (s, hss) = Some (- 1, (t, hss))" "user_ok E m0 fsa ext p q t" "tty_of t = tty_of s"
    "alone p s t" "pcbs t = pcbs s"
    using user_open_empty [OF u] by blast
  have e: "\<not> test_entry m0 fsa nm" "lit nm = [0]" using True by (simp_all add: test_entry_def lit_def chars_def)
  show ?thesis using t f fds_used_same [OF t(5)] unfolding e(2) by (simp add: e(1))
next
  case False
  have c: "0 \<notin> set (chars nm)" "chars nm \<noteq> []" "length (chars nm) \<le> 64" "take 5 (chars nm) \<noteq> chars ''stdin''"
    "take 6 (chars nm) \<noteq> chars ''stdout''" "length (lit nm) \<le> 1025"
    using nm False by (auto simp: chars_def lit_def)
  note op = user_open_eq [OF u c(6) lit_c_str [OF c(1)] c(2-5), where hss = hss]
  have fr: "free_fds s p 2 = filter (\<lambda>k. k \<notin> U) [2..<8]" by (rule fds_used_free [OF f])
  show ?thesis
  proof (cases "first_entry m0 fsa (chars nm)")
    case None
    obtain t where t: "user_open E (lit nm) (s, hss) = Some (- 1, (t, hss))" "user_ok E m0 fsa ext p q t" "tty_of t = tty_of s"
      "alone p s t" "pcbs t = pcbs s"
      using op(1) [OF None] by blast
    then show ?thesis using f fds_used_same [OF t(5)] None by (simp add: test_entry_def)
  next
    case (Some e)
    then have te': "test_entry m0 fsa nm" using False by (simp add: test_entry_def)
    show ?thesis
    proof (cases "filter (\<lambda>k. k \<notin> U) [2..<8]")
      case Nil
      obtain t where t: "user_open E (lit nm) (s, hss) = Some (- 1, (t, hss))" "user_ok E m0 fsa ext p q t" "tty_of t = tty_of s"
        "alone p s t" "pcbs t = pcbs s"
        using op(3) [OF Some fr [unfolded Nil]] by blast
      then show ?thesis using f fds_used_same [OF t(5)] te' unfolding Nil by simp
    next
      case (Cons k ks)
      have ty: "file_type e = 1 \<or> file_type e = 2" using te nm False Some by (auto simp: test_entries_def)
      obtain drv where drv: "driver_of_type (file_type e) = Some drv" "drv \<noteq> Rtc_fops"
        using ty by (auto simp: driver_of_type_def)
      obtain t where t: "user_open E (lit nm) (s, hss) = Some (of_nat k, (t, hss))" "user_ok E m0 fsa ext p q t" "tty_of t = tty_of s"
        "alone p s t" "fd_array (pcbs t p) ! k = open_entry drv (inode_num e)"
        "\<forall>g. g \<noteq> k \<longrightarrow> fd_array (pcbs t p) ! g = fd_array (pcbs s p) ! g"
        using op(2) [OF Some drv fr [unfolded Cons]] by blast
      have "k \<in> set (filter (\<lambda>k. k \<notin> U) [2..<8])" unfolding Cons by simp
      then have k: "2 \<le> k" "k < 8" by (simp_all del: upt_rec_numeral)
      have "fds_used p (insert k U) t"
        unfolding fds_used_def
      proof (intro conjI allI impI)
        show "insert k U \<subseteq> {2..<8}" using f k by (simp add: fds_used_def)
        fix g :: nat assume g: "2 \<le> g" "g < 8"
        show "in_use (fd_array (pcbs t p) ! g) = 0 \<longleftrightarrow> g \<notin> insert k U"
          using f t(5,6) g by (cases "g = k") (simp_all add: fds_used_def open_entry_def)
      qed
      then show ?thesis using t(1-4) te' unfolding Cons by simp
    qed
  qed
qed

interpretation kerr: user_errors "kernel_os E prog"
    "\<lambda>U st. user_runs E m0 fsa ext p q s0 st \<and> fds_used p U (fst st) \<and> test_entries m0 fsa"
    "\<lambda>(s, hss). tty_of s" "test_entry m0 fsa"
  for E prog m0 fsa ext p q s0
proof (unfold_locales, goal_cases)
  case (1 U st b n)
  then obtain s where st: "st = (s, snd s0)" "user_ok E m0 fsa ext p q s" "alone p (fst s0) s" "fds_used p U s" "test_entries m0 fsa"
    by (cases st) auto
  obtain t where t: "user_write E 1 b n (s, snd s0) = Some (0, (t, snd s0))" "user_ok E m0 fsa ext p q t"
    "tty_of t = says (take (unat n) b) (tty_of s)" "alone p s t" "pcbs t = pcbs s"
    using user_write_eq [OF st(2) 1(2-4)] by blast
  show ?case
    using t(1-3) alone_trans [OF st(3) t(4)] fds_used_same [OF t(5)] st(4,5) by (simp add: st(1) kernel_os_def)
next
  case (2 U st)
  then show ?case by (auto simp: fds_used_def)
next
  case (3 U st b fd)
  then obtain s where st: "st = (s, snd s0)" "user_ok E m0 fsa ext p q s" "alone p (fst s0) s" "fds_used p U s" "test_entries m0 fsa"
    by (cases st) auto
  from bad_read_call [OF st(2,4) 3(3,4,2), of "snd s0"] show ?case
    using st(4,5) fds_used_same alone_trans [OF st(3)] by (fastforce simp: st(1) kernel_os_def)
next
  case (4 U st b fd)
  then obtain s where st: "st = (s, snd s0)" "user_ok E m0 fsa ext p q s" "alone p (fst s0) s" "fds_used p U s" "test_entries m0 fsa"
    by (cases st) auto
  from bad_write_call [OF st(2,4) 4(3,4,2), of "snd s0"] show ?case
    using st(4,5) fds_used_same alone_trans [OF st(3)] by (fastforce simp: st(1) kernel_os_def)
next
  case (5 U st fd)
  then obtain s where st: "st = (s, snd s0)" "user_ok E m0 fsa ext p q s" "alone p (fst s0) s" "fds_used p U s" "test_entries m0 fsa"
    by (cases st) auto
  from close_call [OF st(2,4), of fd "snd s0"] show ?case
    using st(5) alone_trans [OF st(3)] by (fastforce simp: st(1) kernel_os_def)
next
  case (6 U st va)
  then obtain s where st: "st = (s, snd s0)" "user_ok E m0 fsa ext p q s" "alone p (fst s0) s" "fds_used p U s" "test_entries m0 fsa"
    by (cases st) auto
  from bad_vidmap_call [OF st(2) 6(2), of "snd s0"] show ?case
    using st(4,5) fds_used_same alone_trans [OF st(3)] by (fastforce simp: st(1) kernel_os_def)
next
  case (7 U st num)
  then obtain s where st: "st = (s, snd s0)" "user_ok E m0 fsa ext p q s" "alone p (fst s0) s" "fds_used p U s" "test_entries m0 fsa"
    by (cases st) auto
  from bad_number_call [OF st(2) 7(2), of "snd s0"] show ?case
    using st(4,5) fds_used_same alone_trans [OF st(3)] by (fastforce simp: st(1) kernel_os_def)
next
  case (8 U st nm)
  then obtain s where st: "st = (s, snd s0)" "user_ok E m0 fsa ext p q s" "alone p (fst s0) s" "fds_used p U s" "test_entries m0 fsa"
    by (cases st) auto
  obtain r t where t: "user_open E (lit nm) (s, snd s0) = Some (r, (t, snd s0))" "user_ok E m0 fsa ext p q t" "tty_of t = tty_of s"
    "alone p s t"
    "if test_entry m0 fsa nm then (case filter (\<lambda>k. k \<notin> U) [2..<8] of
         [] \<Rightarrow> r = - 1 \<and> fds_used p U t | k # _ \<Rightarrow> r = of_nat k \<and> fds_used p (insert k U) t)
     else r = - 1 \<and> fds_used p U t"
    using open_call [OF st(2,4,5) 8(2), of "snd s0"] by blast
  have "user_runs E m0 fsa ext p q s0 (t, snd s0)" using t(2) alone_trans [OF st(3) t(4)] by simp
  then show ?case
    using t(1,3,5) st(5) by (auto simp: st(1) kernel_os_def split: list.split)
qed

section \<open>A run\<close>

abbreviation question :: "u8 list" where
  "question \<equiv> chars ''Choose from tests 1-8. 0 to run all: ''"

text \<open>The user answers the question with a line that starts with the character \<open>c\<close>.\<close>

definition picks :: "u8 list \<Rightarrow> 'a kern_scheme \<Rightarrow> u8 \<Rightarrow> bool" where
  "picks ks s c \<longleftrightarrow> (let e = (editor_of s)\<lparr>line := []\<rparr>; xs = line (fold ed_press ks e) in
     (\<forall>k \<in> set ks. unat k < 100 \<and> k \<noteq> CTRL \<and> k \<noteq> ENTER) \<and> length xs < 126 \<and> 0 \<notin> set xs \<and> xs \<noteq> [] \<and> hd xs = c \<and>
     row (typed (ks @ [ENTER]) e (says question (tty_of s))) < 25)"

lemma syserr_asks:
  fixes s :: "'a kern_scheme"
  assumes u: "user_ok E m0 fsa ext p q s" and inp: "in_use (fd_array (pcbs s p) ! 0) = 1" "fops (fd_array (pcbs s p) ! 0) = Some Terminal_fops"
    and kb: "kb_calm s" and ty: "picks ks s c" and b: "length (bufs 0) = 128"
    and f: "fds_used p {} s"
  assumes os_def: "os = kernel_os E prog"
  shows "\<exists>t b cnt s1. user_ok E m0 fsa ext p q t \<and> pcbs t = pcbs s \<and> fds_used p {} t \<and>
    tty_of t = typed (ks @ [ENTER]) ((editor_of s)\<lparr>line := []\<rparr>) (says question (tty_of s)) \<and>
    ece391_fdputs os 1 (lit ''Choose from tests 1-8. 0 to run all: '') (s, key_irqs E ks # hss) = Some s1 \<and>
    os_read os 0 (bufs 0) 127 s1 = Some (cnt, b, (t, hss)) \<and> cnt \<noteq> - 1 \<and> aget b 0 = Some c"
proof -
  let ?q = "''Choose from tests 1-8. 0 to run all: ''" and ?hss = "key_irqs E ks # hss"
  have pr: "length question = 37" "0 \<notin> set question" by (simp_all add: chars_def)
  have lp: "length (lit ?q) \<le> 1025" "lit ?q \<noteq> []" "unat (37 :: u32) \<le> length (lit ?q)" by (simp_all add: lit_def chars_def)
  obtain s1 where s1: "user_write E 1 (lit ?q) 37 (s, ?hss) = Some (0, (s1, ?hss))" "user_ok E m0 fsa ext p q s1"
    "tty_of s1 = says (take (unat (37 :: u32)) (lit ?q)) (tty_of s)" "alone p s s1" "pcbs s1 = pcbs s" "flushed s s1"
    using user_write_eq [OF u lp] by blast
  have "strlen (aget (lit ?q)) = Some 37" using strlen_c_str [OF lit_c_str [OF pr(2)]] pr(1) by simp
  then have put: "ece391_fdputs os 1 (lit ?q) (s, ?hss) = Some (s1, ?hss)"
    using s1(1) by (simp add: ece391_fdputs_def ece391_strlen_eq os_def kernel_os_def)
  have t1: "tty_of s1 = says question (tty_of s)" using s1(3) pr(1) by (simp add: lit_def)
  note k1 = flushed_keys [OF s1(6) kb s1(2)]
  define xs where "xs = line (fold ed_press ks (editor_of s1))"
  have x: "length xs < 126" "xs \<noteq> []" "hd xs = c" and ty1: "types ks s1 xs"
    using ty unfolding picks_def Let_def types_def xs_def t1 k1(2) by auto
  have n: "Suc (length xs) < unat (127 :: u32)" using x(1) by simp
  obtain t where t: "user_read E 0 (bufs 0) 127 (s1, ?hss) =
      Some (of_nat (Suc (length xs)), xs @ 0x0A # replicate (unat (127 :: u32) - Suc (length xs)) 0 @ drop (unat (127 :: u32)) (bufs 0), (t, hss))"
    "user_ok E m0 fsa ext p q t" "pcbs t = pcbs s1" "tty_of t = typed (ks @ [ENTER]) (editor_of s1) (tty_of s1)"
    using user_read_line [OF s1(2) _ _ k1(1) ty1 _ _ _ n, of "bufs 0" "[]" hss] inp b s1(5) by auto
  have "Suc (length xs) \<le> 1025" using x(1) by simp
  note cw = count_word [OF this]
  have "of_nat (Suc (length xs)) \<noteq> (- 1 :: u32)" using cw(3) by simp
  moreover have "aget (xs @ 0x0A # r) 0 = Some c" for r using x(2,3) by (cases xs) (simp_all add: aget_def)
  moreover have "fds_used p {} t" using f fds_used_same [of t s] t(3) s1(5) by simp
  moreover have "os_read os 0 (bufs 0) 127 (s1, ?hss) = user_read E 0 (bufs 0) 127 (s1, ?hss)" by (simp add: os_def kernel_os_def)
  ultimately show ?thesis
    using put t(2,3) s1(5) unfolding t(4) k1(2) t1 t(1)
    by (intro exI [of _ t] exI [of _ "xs @ 0x0A # replicate (unat (127 :: u32) - Suc (length xs)) 0 @ drop (unat (127 :: u32)) (bufs 0)"]
        exI [of _ "of_nat (Suc (length xs))"] exI [of _ "(s1, ?hss)"]) (simp only: t(4) k1(2) t1 t(1) simp_thms)
qed

text \<open>C11. The course's test program runs on this kernel to its end when the user chooses all tests, and
  tells what is wrong with the kernel: it finds nothing to complain of in calls with bad descriptors,
  addresses and numbers, but \<open>open\<close> finds the shell under the name \<open>shel\<close>, which also leaves a descriptor
  open for the next test to find, and the test that opens many files fails without a directory \<open>.\<close>.\<close>

theorem syserr_tells:
  assumes "user_ok E m0 fsa ext p q s" and "in_use (fd_array (pcbs s p) ! 0) = 1" and "fops (fd_array (pcbs s p) ! 0) = Some Terminal_fops"
    and "kb_calm s" and "fds_used p {} s" and "test_entries m0 fsa" and "\<not> test_entry m0 fsa ''helloo''"
    and "picks ks s 0x30" and "length (bufs 0) = 128" and "\<forall>i \<in> {1, 2, 5, 7}. length (bufs i) = 32"
  shows "\<exists>t. syserr_main (kernel_os E prog) bufs (s, key_irqs E ks # hss) =
      Some (failures (test_entry m0 fsa ''.'') (test_entry m0 fsa ''shel''), (t, hss)) \<and>
    user_ok E m0 fsa ext p q t \<and> fds_used p {} t \<and>
    tty_of t = says (chars (report (test_entry m0 fsa ''.'') (test_entry m0 fsa ''shel'')))
      (typed (ks @ [ENTER]) ((editor_of s)\<lparr>line := []\<rparr>) (says question (tty_of s)))"
proof -
  let ?os = "kernel_os E prog"
  obtain t1 b cnt s1 where t1: "user_ok E m0 fsa ext p q t1" "fds_used p {} t1"
    "tty_of t1 = typed (ks @ [ENTER]) ((editor_of s)\<lparr>line := []\<rparr>) (says question (tty_of s))"
    "ece391_fdputs ?os 1 (lit ''Choose from tests 1-8. 0 to run all: '') (s, key_irqs E ks # hss) = Some s1"
    "os_read ?os 0 (bufs 0) 127 s1 = Some (cnt, b, (t1, hss))" "cnt \<noteq> - 1" "aget b 0 = Some 0x30"
    using syserr_asks [where bufs = bufs and prog = prog and hss = hss, OF assms(1-4,8,9,5) refl] by blast
  have no: "\<not> test_entry m0 fsa []" by (simp add: test_entry_def)
  have "user_runs E m0 fsa ext p q (t1, hss) (t1, hss) \<and> fds_used p {} (fst (t1, hss)) \<and> test_entries m0 fsa"
    using t1(1,2) assms(6) by simp
  from kerr.all_tests_tell [OF this assms(7) no assms(10), of prog] show ?thesis
    using t1 by (fastforce simp: syserr_main_def)
qed

lemma sample_first:
  assumes "0 < length xs" "length xs \<le> 64"
  shows "first_entry loader_mem img0 xs =
    (if bytes_at image_mem (dir_addr img0 0) (length xs) = xs then Some (dentry_bytes image_mem (dir_addr img0 0))
     else if bytes_at image_mem (dir_addr img0 1) (length xs) = xs then Some (dentry_bytes image_mem (dir_addr img0 1)) else None)"
proof -
  have w: "unat img0 + 12288 \<le> 4294967296" by (simp add: img0_def)
  have n: "image_mem img0 = 2" by (simp add: image_mem_def image_cells_def)
  have u: "[0..<unat (image_mem img0)] = [0, 1]" by (simp add: n upt_rec)
  have "first_entry image_mem img0 xs =
    (if bytes_at image_mem (dir_addr img0 0) (length xs) = xs then Some (dentry_bytes image_mem (dir_addr img0 0))
     else if bytes_at image_mem (dir_addr img0 1) (length xs) = xs then Some (dentry_bytes image_mem (dir_addr img0 1)) else None)"
    unfolding first_entry_def u by (simp add: starts_with_def)
  then show ?thesis by (simp only: image_entry [OF loader_image sample_image_ok w assms(2)])
qed

theorem syserr_tells_witness:
  "\<exists>t t'. live link0 0 img0 12288 boot0 (t, \<lambda>_. Running) \<and>
    syserr_main (kernel_os env0 (\<lambda>_ _. None)) (\<lambda>i. replicate (if i = 0 then 128 else 32) 0) (t, [key_irqs env0 [0x0B]]) = Some (6, (t', [])) \<and>
    tty_of t' = says (chars (report False True))
      (typed [0x0B, ENTER] ((editor_of t)\<lparr>line := []\<rparr>) (says question (tty_of t)))"
proof -
  let ?e0 = "\<lparr>line = [], shift = False, caps = False, entered = None\<rparr>"
  obtain t where t: "live link0 0 img0 12288 boot0 (t, \<lambda>_. Running)" "user_ok env0 loader_mem img0 12288 0 0 t"
    "in_use (fd_array (pcbs t 0) ! 0) = 1" "fops (fd_array (pcbs t 0) ! 0) = Some Terminal_fops"
    "kb_calm t" "(editor_of t)\<lparr>line := []\<rparr> = ?e0" "row (tty_of t) = 0" "col (tty_of t) = 0"
    "\<forall>fd \<ge> 2. fd < 8 \<longrightarrow> in_use (fd_array (pcbs t 0) ! fd) = 0"
    using sample_user by blast
  have f: "fds_used 0 {} t" using t(9) by (simp add: fds_used_def)
  have e: "first_entry loader_mem img0 (chars ''.'') = None" "first_entry loader_mem img0 (chars ''helloo'') = None"
    "first_entry loader_mem img0 (chars ''shel'') = Some (dentry_bytes image_mem (dir_addr img0 0))"
  proof -
    let ?at = "\<lambda>k n. bytes_at image_mem (dir_addr img0 k) n"
    have at: "?at 0 1 \<noteq> chars ''.''" "?at 1 1 \<noteq> chars ''.''" "?at 0 6 \<noteq> chars ''helloo''" "?at 1 6 \<noteq> chars ''helloo''"
      "?at 0 4 = chars ''shel''"
      by (simp_all add: chars_def bytes_at_def upt_rec image_mem_def image_cells_def img0_def dir_addr_def)
    have l: "length (chars ''.'') = 1" "length (chars ''helloo'') = 6" "length (chars ''shel'') = 4" by (simp_all add: chars_def)
    show "first_entry loader_mem img0 (chars ''.'') = None" "first_entry loader_mem img0 (chars ''helloo'') = None"
      "first_entry loader_mem img0 (chars ''shel'') = Some (dentry_bytes image_mem (dir_addr img0 0))"
      using sample_first [of "chars ''.''"] sample_first [of "chars ''helloo''"] sample_first [of "chars ''shel''"] at unfolding l
      by simp_all
  qed
  have te: "test_entries loader_mem img0" "\<not> test_entry loader_mem img0 ''helloo''" "\<not> test_entry loader_mem img0 ''.''"
    "test_entry loader_mem img0 ''shel''"
    using e sample_shell(3) by (simp_all add: test_entries_def test_entry_def)
  have q: "\<forall>c \<in> set question. c \<ge> 32" "length question = 37" by (simp_all add: chars_def)
  have c: "row (says question (tty_of t)) = 0" "col (says question (tty_of t)) = 37"
    using says_cursor [OF q(1), of "tty_of t"] q(2) t(7,8) by simp_all
  have k: "keyboard_char ! unat (0x0B :: u8) = 0x30" by code_simp
  have ks: "\<forall>k \<in> set [0x0B :: u8]. k \<notin> {CAPS_LOCK, L_SHIFT, R_SHIFT, ENTER, BACKSPACE}" by (simp add: key_codes)
  have l: "line (fold ed_press [0x0B] ?e0) = [0x30]" using plain_keys [OF ks, of ?e0] k by simp
  have "row (typed ([0x0B] @ [ENTER]) ?e0 (says question (tty_of t))) = 1"
    using entered_cursor [OF ks, of "says question (tty_of t)" ?e0] c by simp
  then have "picks [0x0B] t 0x30" using l by (simp add: picks_def t(6) key_codes)
  from syserr_tells [OF t(2-5) f te(1,2) this, where bufs = "\<lambda>i. replicate (if i = 0 then 128 else 32) 0" and hss = "[]" and prog = "\<lambda>_ _. None"]
  show ?thesis using t(1) te(3,4) by (fastforce simp: failures_def)
qed

end
