(* ===== verification/Grep_Props.thy ===== *)
theory Grep_Props
  imports Syserr_Props
begin

text \<open>
  \<open>grep\<close> on the kernel: a file is opened, its matching lines printed, and closed again.
\<close>

lemma close_file_call:
  assumes u: "user_ok E m0 fsa ext p q s" and f: "user_file_at p fd s"
  shows "\<exists>t. user_close E fd (s, hss) = Some (0, (t, hss)) \<and> user_ok E m0 fsa ext p q t \<and> alone p s t \<and> tty_of t = tty_of s"
proof -
  let ?U = "{k \<in> {2..<8}. in_use (fd_array (pcbs s p) ! k) \<noteq> 0}"
  have "fds_used p ?U s" by (auto simp: fds_used_def)
  moreover have "unat fd \<in> ?U" using f by (simp add: user_file_at_def Let_def)
  ultimately show ?thesis using close_call [OF u, of ?U fd hss] by auto
qed

text \<open>C10. \<open>grep\<close> prints of a file exactly the lines that contain the string, in order, each with the name of
  the file in front of it, and closes the file: the lines are found across the reads of 1024 bytes the
  file is delivered in, an incomplete one being moved to the front of the buffer. A name that no file
  starts with gives a message and -1.\<close>

theorem grep_prints_matches:
  assumes u: "user_ok E m0 fsa ext p q s" and fr: "free_fds s p 2 \<noteq> []"
    and nm: "fname = nm @ 0 # nr" "0 \<notin> set nm" "nm \<noteq> []" "length nm \<le> 64" "length fname \<le> 1025"
      "take 5 nm \<noteq> chars ''stdin''" "take 6 nm \<noteq> chars ''stdout''"
    and xs: "c_str (aget sb) xs" "xs \<noteq> []" "length xs < 4294967296"
    and d: "length data = 1025" "data ! 1024 \<noteq> 0x0A"
    and fi: "case first_entry m0 fsa nm of None \<Rightarrow> True | Some e \<Rightarrow> file_type e = 2 \<and> grep_text (contents m0 fsa (inode_num e))"
  shows "\<exists>r out t. (r, out) = (case first_entry m0 fsa nm of
        None \<Rightarrow> (- 1, chars ''file open failed\<newline>'')
      | Some e \<Rightarrow> (0, matches nm xs (text_lines (contents m0 fsa (inode_num e))))) \<and>
    do_one_file (kernel_os E prog) sb fname data (s, hss) = Some (r, (t, hss)) \<and>
    tty_of t = says out (tty_of s) \<and> user_ok E m0 fsa ext p q t \<and> alone p s t"
proof -
  have cs: "c_str (aget fname) nm" unfolding nm(1) by (rule c_str_aget [OF nm(2)])
  note op = user_open_eq [OF u nm(5) cs nm(3,4,6,7), where hss = hss]
  have sl: "ece391_strlen (aget sb) = Some (length xs)" unfolding ece391_strlen_eq by (rule strlen_c_str [OF xs(1)])
  show ?thesis
  proof (cases "first_entry m0 fsa nm")
    case None
    obtain t2 where t2: "user_open E fname (s, hss) = Some (- 1, (t2, hss))" "user_ok E m0 fsa ext p q t2"
      "tty_of t2 = tty_of s" "alone p s t2" using op(1) [OF None] by blast
    let ?msg = "''file open failed\<newline>''"
    have "0 \<notin> set (chars ?msg)" "length ?msg \<le> 1024" by (simp_all add: chars_def)
    from kscreen.fdputs_lit [of E m0 fsa ext p q "(t2, hss)" "(t2, hss)", OF _ this, of prog]
    obtain t where t: "ece391_fdputs (kernel_os E prog) 1 (lit ?msg) (t2, hss) = Some (t, hss)" "user_ok E m0 fsa ext p q t"
        "alone p t2 t" "tty_of t = says (chars ?msg) (tty_of t2)"
      using t2(2) by auto
    have "do_one_file (kernel_os E prog) sb fname data (s, hss) = Some (- 1, (t, hss))"
      using t2(1) t(1) sl by (simp add: do_one_file_def kernel_os_def)
    then show ?thesis using t t2(3) alone_trans [OF t2(4) t(3)] None by (intro exI [of _ "- 1"] exI [of _ "chars ?msg"] exI [of _ t]) simp
  next
    case (Some e)
    have e: "driver_of_type (file_type e) = Some File_fops" "grep_text (contents m0 fsa (inode_num e))"
      using fi Some by (simp_all add: driver_of_type_def)
    obtain k fds where f: "free_fds s p 2 = k # fds" using fr by (cases "free_fds s p 2") auto
    have "k \<in> set (free_fds s p 2)" using f by simp
    then have "k \<in> set [2..<8]" unfolding free_fds_def set_filter by (simp only: mem_Collect_eq)
    then have fd: "2 \<le> k" "k < 8" by (simp_all only: set_upt atLeastLessThan_iff)
    obtain t2 where t2: "user_open E fname (s, hss) = Some (of_nat k, (t2, hss))" "user_ok E m0 fsa ext p q t2"
      "tty_of t2 = tty_of s" "alone p s t2" "fd_array (pcbs t2 p) ! k = open_entry File_fops (inode_num e)"
      using op(2) [OF Some e(1) _ f] by blast
    let ?fd = "of_nat k :: u32" and ?os = "kernel_os E prog" and ?C = "contents m0 fsa (inode_num e)"
    have w: "unat ?fd = k" "?fd \<noteq> - 1" using fd count_word [of k] by simp_all
    have at: "user_file_at p ?fd t2" "user_rest m0 fsa p ?fd t2 = ?C"
      using fd t2(5) by (simp_all add: user_file_at_def user_rest_def w(1) open_entry_def)
    have sg: "searching sb xs fname nm" using xs nm by (auto simp: searching_def)
    obtain t3 where t3: "user_ok E m0 fsa ext p q t3" "alone p t2 t3" "user_file_at p ?fd t3"
      "tty_of t3 = says (matches nm xs (text_lines ?C)) (tty_of t2)"
      "grep_loop ?os sb (of_nat (length xs)) fname ?fd data 0 (t2, hss) = grep_end ?os ?fd (t3, hss)"
      using kfile.grep_loop_prints [OF sg d, of "[]" m0 fsa p ?fd "(t2, hss)" E ext q "(t2, hss)" prog] t2(2) at e(2)
      by (auto simp: grep_text_def)
    obtain t where t: "user_close E ?fd (t3, hss) = Some (0, (t, hss))" "user_ok E m0 fsa ext p q t" "alone p t3 t" "tty_of t = tty_of t3"
      using close_file_call [OF t3(1,3)] by blast
    have "grep_end ?os ?fd (t3, hss) = Some (0, (t, hss))" using t(1) by (simp add: grep_end_def kernel_os_def)
    moreover have "os_open ?os fname (s, hss) = Some (?fd, (t2, hss))" using t2(1) by (simp add: kernel_os_def)
    ultimately have "do_one_file ?os sb fname data (s, hss) = Some (0, (t, hss))"
      using sl w(2) t3(5) by (simp add: do_one_file_def)
    moreover have "alone p s t" using alone_trans [OF t2(4) alone_trans [OF t3(2) t(3)]] .
    ultimately show ?thesis
      using t(2,4) t3(4) t2(3) Some by (intro exI [of _ 0] exI [of _ "matches nm xs (text_lines ?C)"] exI [of _ t]) simp
  qed
qed

lemma sample_bytes:
  "\<exists>R. contents loader_mem img0 0 = [0x7F, 0x45, 0x4C, 0x46] @ 0 # R \<and> length R = 35 \<and> 0x0A \<notin> set R"
proof -
  let ?f = "\<lambda>p. image_mem (img0 + 8192 + of_nat p)"
  have n: "contents image_mem img0 0 ! p = ?f p" if "p < 40" for p
    using that by (simp add: contents_def sample_data)
  have "contents image_mem img0 0 = map ?f [0..<40]" by (intro nth_equalityI) (simp_all add: n)
  moreover have "[0..<40] = [0, 1, 2, 3, 4] @ [5..<40 :: nat]" using upt_add_eq_append [of 0 5 35] by (simp add: upt_rec)
  moreover have "map ?f [0, 1, 2, 3, 4] = [0x7F, 0x45, 0x4C, 0x46, 0]" by (simp add: image_mem_def image_cells_def img0_def)
  moreover have "contents loader_mem img0 0 = contents image_mem img0 0" using image_eq_file(3) [OF sample_wf loader_image] by simp
  ultimately have "contents loader_mem img0 0 = [0x7F, 0x45, 0x4C, 0x46] @ 0 # map ?f [5..<40]" by simp
  moreover have "0x0A \<notin> set (map ?f [5..<40])" by (simp add: upt_rec image_mem_def image_cells_def img0_def)
  ultimately show ?thesis by (intro exI [of _ "map ?f [5..<40]"]) simp
qed

theorem grep_prints_matches_witness:
  "\<exists>t t'. live link0 0 img0 12288 boot0 (t, \<lambda>_. Running) \<and>
    do_one_file (kernel_os env0 (\<lambda>_ _. None)) (lit ''ELF'') (lit ''shell'') (replicate 1025 0) (t, []) = Some (0, (t', [])) \<and>
    tty_of t' = says (chars ''shell:'' @ 0x7F # chars ''ELF\<newline>'') (tty_of t)"
proof -
  obtain t where t: "live link0 0 img0 12288 boot0 (t, \<lambda>_. Running)" "user_ok env0 loader_mem img0 12288 0 0 t"
    "\<forall>fd \<ge> 2. fd < 8 \<longrightarrow> in_use (fd_array (pcbs t 0) ! fd) = 0"
    using sample_user by blast
  have f: "free_fds t 0 2 \<noteq> []" using t(3) by (simp add: free_fds_def upt_rec)
  obtain R where R: "contents loader_mem img0 0 = [0x7F, 0x45, 0x4C, 0x46] @ 0 # R" "length R = 35" "0x0A \<notin> set R"
    using sample_bytes by blast
  let ?C = "contents loader_mem img0 0" and ?e = "dentry_bytes image_mem (dir_addr img0 0)"
  have nl: "0x0A \<notin> set ?C" "length ?C = 40" unfolding R(1) using R(2,3) by simp_all
  have tl: "text_lines ?C = [?C]" by (rule text_lines_none [OF nl(1)])
  have at: "take 3 (drop 1 ?C) = chars ''ELF''" unfolding R(1) by (simp add: chars_def)
  have k: "length (chars ''ELF'') = 3" by (simp add: chars_def)
  have "contains (chars ''ELF'') ?C" unfolding contains_def k using nl(2) at by (intro exI [of _ 1]) simp
  then have m: "matches (chars ''shell'') (chars ''ELF'') (text_lines ?C) = chars ''shell:'' @ 0x7F # chars ''ELF\<newline>''"
    unfolding tl by (simp add: matches_def) (simp add: R(1) chars_def)
  have e: "first_entry loader_mem img0 (chars ''shell'') = Some ?e" "file_type ?e = 2" "inode_num ?e = 0"
    using sample_entry sample_shell(3,4) by simp_all
  have g: "grep_text ?C" using nl by (simp add: grep_text_def tl)
  have x: "lit ''shell'' = chars ''shell'' @ 0 # []" "0 \<notin> set (chars ''shell'')" "chars ''shell'' \<noteq> []" "length (chars ''shell'') \<le> 64"
    "length (lit ''shell'') \<le> 1025" "take 5 (chars ''shell'') \<noteq> chars ''stdin''" "take 6 (chars ''shell'') \<noteq> chars ''stdout''"
    by (simp_all add: lit_def chars_def)
  have y: "c_str (aget (lit ''ELF'')) (chars ''ELF'')" "chars ''ELF'' \<noteq> []" "length (chars ''ELF'') < 4294967296"
    by (rule lit_c_str) (simp_all add: chars_def)
  have d: "length (replicate 1025 (0 :: u8)) = 1025" "replicate 1025 (0 :: u8) ! 1024 \<noteq> 0x0A" by simp_all
  have fi: "case first_entry loader_mem img0 (chars ''shell'') of None \<Rightarrow> True
      | Some e \<Rightarrow> file_type e = 2 \<and> grep_text (contents loader_mem img0 (inode_num e))"
    using e g by simp
  show ?thesis
    using grep_prints_matches [OF t(2) f x y d fi, where prog = "\<lambda>_ _. None" and hss = "[]"] t(1) e m by auto
qed

end
