(* ===== verification/Fish.thy ===== *)
theory Fish
  imports User_Lib
begin

text \<open>
  \<^verbatim>\<open>src/fish/\<close>: the animation of \<^verbatim>\<open>fish.c\<close> and the list of blinking characters it keeps with the
  routines of \<^verbatim>\<open>blink.S\<close>. The nodes of the list are the elements of a static array, a pointer is an
  index into it, and stores to the screen go to the page \<open>vidmap\<close> has given the program.
\<close>

section \<open>The list of blinking characters\<close>

record blink =
  location :: u16
  on_char :: u8
  off_char :: u8
  on_length :: u16
  off_length :: u16
  countdown :: u16
  status :: u16
  blink_next :: "nat option"

definition zero_blink :: blink where
  "zero_blink = \<lparr>location = 0, on_char = 0, off_char = 0, on_length = 0, off_length = 0, countdown = 0,
     status = 0, blink_next = None\<rparr>"

text \<open>\<open>vmem\<close> is the video memory by the offset from \<open>vmem_base_addr\<close>.\<close>

record blinks =
  blink_array :: "nat \<Rightarrow> blink"
  mp1_list_head :: "nat option"
  vmem :: "u32 \<Rightarrow> u8"

definition BLINKS :: nat where "BLINKS = 80 * 25"

definition put_blink :: "nat \<Rightarrow> blink \<Rightarrow> blinks \<Rightarrow> blinks" where
  "put_blink i n b = b\<lparr>blink_array := (blink_array b)(i := n)\<rparr>"

definition mp1_poke :: "u8 \<Rightarrow> u32 \<Rightarrow> blinks \<Rightarrow> blinks" where
  "mp1_poke c off b = b\<lparr>vmem := (vmem b)(off := c)\<rparr>"

definition cell_of :: "blink \<Rightarrow> u32" where
  "cell_of n = push_bit 1 (ucast (location n))"

definition mp1_malloc :: "blinks \<Rightarrow> nat option" where
  "mp1_malloc b = find (\<lambda>i. location (blink_array b i) = 0) [0..<BLINKS]"

definition mp1_free :: "nat \<Rightarrow> blinks \<Rightarrow> blinks" where
  "mp1_free i b = put_blink i zero_blink b"

text \<open>One node in the loop of \<open>mp1_rtc_tasklet\<close>: the countdown is compared as a signed number.\<close>

definition tasklet_node :: "nat \<Rightarrow> blinks \<Rightarrow> blinks" where
  "tasklet_node i b =
     (let n = blink_array b i; cd = countdown n - 1 in
      if sint cd > 0 then put_blink i (n\<lparr>countdown := cd\<rparr>) b
      else if status n AND 0x1 = 0
        then put_blink i (n\<lparr>countdown := on_length n, status := status n XOR 0x1\<rparr>) (mp1_poke (on_char n) (cell_of n) b)
        else put_blink i (n\<lparr>countdown := off_length n, status := status n XOR 0x1\<rparr>) (mp1_poke (off_char n) (cell_of n) b))"

partial_function (option) tasklet_loop :: "nat option \<Rightarrow> blinks \<Rightarrow> blinks option" where
  "tasklet_loop p b =
     (case p of
        None \<Rightarrow> Some b
      | Some i \<Rightarrow> tasklet_loop (blink_next (blink_array (tasklet_node i b) i)) (tasklet_node i b))"

definition mp1_rtc_tasklet :: "blinks \<Rightarrow> blinks option" where
  "mp1_rtc_tasklet b = tasklet_loop (mp1_list_head b) b"

partial_function (option) find_from :: "(nat \<Rightarrow> blink) \<Rightarrow> u16 \<Rightarrow> nat option \<Rightarrow> nat option option" where
  "find_from h ax p =
     (case p of
        None \<Rightarrow> Some None
      | Some i \<Rightarrow> if ax = location (h i) then Some (Some i) else find_from h ax (blink_next (h i)))"

definition mp1_find_helper :: "u32 \<Rightarrow> blinks \<Rightarrow> nat option option" where
  "mp1_find_helper arg b = find_from (blink_array b) (ucast arg) (mp1_list_head b)"

definition mp1_ioctl_add :: "blink \<Rightarrow> blinks \<Rightarrow> u32 \<times> blinks" where
  "mp1_ioctl_add user b =
     (if location user \<ge> 80 * 25 then (- 1, b)
      else let n = user\<lparr>status := 0x1, countdown := on_length user\<rparr> in
        case mp1_malloc b of
          None \<Rightarrow> (- 1, b)
        | Some i \<Rightarrow> (0, mp1_poke (on_char n) (cell_of n)
            ((put_blink i (n\<lparr>blink_next := mp1_list_head b\<rparr>) b)\<lparr>mp1_list_head := Some i\<rparr>)))"

text \<open>The search for the pointer to \<open>i\<close>: \<open>prev\<close> is the node it is kept in, or the head of the list.\<close>

partial_function (option) unlink_from :: "nat option \<Rightarrow> nat \<Rightarrow> blinks \<Rightarrow> blinks option" where
  "unlink_from prev i b =
     (let q = (case prev of None \<Rightarrow> mp1_list_head b | Some j \<Rightarrow> blink_next (blink_array b j)) in
      if q = Some i then Some (let nx = blink_next (blink_array b i) in
        case prev of None \<Rightarrow> b\<lparr>mp1_list_head := nx\<rparr> | Some j \<Rightarrow> put_blink j ((blink_array b j)\<lparr>blink_next := nx\<rparr>) b)
      else case q of None \<Rightarrow> None | Some k \<Rightarrow> unlink_from (Some k) i b)"

definition mp1_ioctl_remove :: "u32 \<Rightarrow> blinks \<Rightarrow> (u32 \<times> blinks) option" where
  "mp1_ioctl_remove arg b = do {
     p \<leftarrow> mp1_find_helper arg b;
     (case p of
        None \<Rightarrow> Some (- 1, b)
      | Some i \<Rightarrow> do { b \<leftarrow> unlink_from None i b; Some (0, mp1_free i b) }) }"

text \<open>The character \<open>cmovl\<close> picks: after \<open>testb $0x1\<close> the sign flag is the highest bit of what the mask has
  left, and the overflow flag is clear.\<close>

definition sync_char :: "blink \<Rightarrow> u8" where
  "sync_char n = (if bit ((ucast (status n) :: u8) AND 0x1) 7 then on_char n else off_char n)"

definition mp1_ioctl_sync :: "u32 \<Rightarrow> blinks \<Rightarrow> (u32 \<times> blinks) option" where
  "mp1_ioctl_sync arg b = do {
     p \<leftarrow> mp1_find_helper (drop_bit 16 arg) b;
     (case p of
        None \<Rightarrow> Some (- 1, b)
      | Some i \<Rightarrow> do {
          q \<leftarrow> mp1_find_helper (arg AND 0xFFFF) b;
          (case q of
             None \<Rightarrow> Some (- 1, b)
           | Some j \<Rightarrow>
               let m = blink_array b i;
                 n = (blink_array b j)\<lparr>on_length := on_length m, off_length := off_length m, countdown := countdown m, status := status m\<rparr>
               in Some (0, mp1_poke (sync_char n) (cell_of n) (put_blink j n b))) }) }"

definition mp1_ioctl_find :: "u16 \<Rightarrow> blinks \<Rightarrow> (u32 \<times> blink option) option" where
  "mp1_ioctl_find loc b = do {
     p \<leftarrow> mp1_find_helper (ucast loc) b;
     (case p of None \<Rightarrow> Some (- 1, None) | Some i \<Rightarrow> Some (0, Some (blink_array b i))) }"

section \<open>The animation\<close>

definition WAIT :: nat where "WAIT = 200"

text \<open>A character of a frame, until the end of the line has been seen.\<close>

definition frame_char :: "'s os \<Rightarrow> u32 \<Rightarrow> u8 \<Rightarrow> bool \<Rightarrow> 's \<Rightarrow> (u8 \<times> bool \<times> 's) option" where
  "frame_char os fd c eof s =
     (if c \<noteq> 0x0A then do {
        (num_bytes, b, s) \<leftarrow> os_read os fd [c] 1 s;
        c \<leftarrow> aget b 0;
        Some (if num_bytes = 0 then (0x0A, True, s) else (c, eof, s)) }
      else Some (c, eof, s))"

text \<open>One line of both frames: the characters and ends of file it leaves.\<close>

partial_function (option) frame_row ::
    "'s os \<Rightarrow> u32 \<Rightarrow> u32 \<Rightarrow> int \<Rightarrow> int \<Rightarrow> blink \<Rightarrow> (u8 \<times> bool) \<times> (u8 \<times> bool) \<Rightarrow> blinks \<times> 's \<Rightarrow>
      (((u8 \<times> bool) \<times> (u8 \<times> bool)) \<times> blinks \<times> 's) option" where
  "frame_row os fd0 fd1 ln cl user cs bs = do {
     let ((c0, eof0), (c1, eof1)) = cs; (b, s) = bs in do {
     (c0, eof0, s) \<leftarrow> frame_char os fd0 c0 eof0 s;
     (c1, eof1, s) \<leftarrow> frame_char os fd1 c1 eof1 s;
     if c0 = 0x0A \<and> c1 = 0x0A then Some (((c0, eof0), (c1, eof1)), b, s)
     else do {
       let b = (if c0 \<noteq> 0x20 \<and> c0 \<noteq> 0x0A \<or> c1 \<noteq> 0x20 \<and> c1 \<noteq> 0x0A
         then snd (mp1_ioctl_add (user\<lparr>on_char := if c0 = 0x0A then 0x20 else c0, off_char := if c1 = 0x0A then 0x20 else c1,
           location := word_of_int (ln * 80 + cl + 40)\<rparr>) b)
         else b) in
       frame_row os fd0 fd1 ln (cl + 1) user ((c0, eof0), (c1, eof1)) (b, s) } } }"

partial_function (option) frame_rows ::
    "'s os \<Rightarrow> u32 \<Rightarrow> u32 \<Rightarrow> int \<Rightarrow> blink \<Rightarrow> (u8 \<times> bool) \<times> (u8 \<times> bool) \<Rightarrow> blinks \<times> 's \<Rightarrow> (blinks \<times> 's) option" where
  "frame_rows os fd0 fd1 ln user cs bs =
     (if snd (fst cs) \<and> snd (snd cs) then Some bs
      else do {
        (((c0, eof0), (c1, eof1)), b, s) \<leftarrow> frame_row os fd0 fd1 ln 0 user cs bs;
        (c0, s) \<leftarrow> (if eof0 then map_option (\<lambda>(r, s). (0x0A, s)) (os_close os fd0 s) else Some (0x30, s));
        (c1, s) \<leftarrow> (if eof1 then map_option (\<lambda>(r, s). (0x0A, s)) (os_close os fd1 s) else Some (0x30, s));
        frame_rows os fd0 fd1 (ln + 1) user ((c0, eof0), (c1, eof1)) (b, s) })"

text \<open>The first component of the result tells whether the program has halted with -1. \<open>user\<close> is the local
  structure, uninitialised.\<close>

definition add_frames :: "'s os \<Rightarrow> u8 list \<Rightarrow> u8 list \<Rightarrow> blink \<Rightarrow> blinks \<times> 's \<Rightarrow> (bool \<times> blinks \<times> 's) option" where
  "add_frames os f0 f1 user = (\<lambda>(b, s). do {
     (fd0, s) \<leftarrow> os_open os f0 s;
     if sint fd0 < 0 then Some (True, b, s)
     else do {
       (fd1, s) \<leftarrow> os_open os f1 s;
       if sint fd1 < 0 then Some (True, b, s)
       else do {
         bs \<leftarrow> frame_rows os fd0 fd1 0 (user\<lparr>on_length := 15, off_length := 15\<rparr>) ((0x30, False), (0x30, False)) (b, s);
         Some (False, bs) } } })"

text \<open>A number of ticks of the clock, each of which makes the characters blink.\<close>

fun fish_ticks :: "'s os \<Rightarrow> u32 \<Rightarrow> nat \<Rightarrow> blinks \<times> 's \<Rightarrow> (blinks \<times> 's) option" where
  "fish_ticks os rtc_fd 0 bs = Some bs"
| "fish_ticks os rtc_fd (Suc k) (b, s) = do {
     (r, garbage, s) \<leftarrow> os_read os rtc_fd [0, 0, 0, 0] 4 s;
     b \<leftarrow> mp1_rtc_tasklet b;
     fish_ticks os rtc_fd k (b, s) }"

text \<open>\<open>base\<close> is the address \<open>vidmap\<close> stores, \<open>pos\<close> the address of the pointer it stores it to.\<close>

definition mp1_set_video_mode :: "'s os \<Rightarrow> u32 \<Rightarrow> u32 \<Rightarrow> 's \<Rightarrow> (u32 \<times> 's) option" where
  "mp1_set_video_mode os pos base s = do {
     (r, s) \<leftarrow> os_vidmap os pos s;
     Some (if r = - 1 then 0 else base, s) }"

definition fish_main :: "'s os \<Rightarrow> u32 \<Rightarrow> u32 \<Rightarrow> blink \<Rightarrow> blink \<Rightarrow> (u32 \<Rightarrow> u8) \<Rightarrow> 's \<Rightarrow> (u32 \<times> blinks \<times> 's) option" where
  "fish_main os pos base user1 user2 shown0 s = do {
     let b = \<lparr>blink_array = \<lambda>i. zero_blink, mp1_list_head = None, vmem = shown0\<rparr> in do {
     (v, s) \<leftarrow> mp1_set_video_mode os pos base s;
     if v = 0 then Some (- 1, b, s)
     else do {
       (rtc_fd, s) \<leftarrow> os_open os (lit ''rtc'') s;
       (halted, b, s) \<leftarrow> add_frames os (lit ''frame0.txt'') (lit ''frame1.txt'') user1 (b, s);
       if halted then Some (- 1, b, s)
       else do {
         (ret_val, s) \<leftarrow> os_write os rtc_fd (map (\<lambda>k. byte_of k 32) [0..<4]) 4 s;
         (b, s) \<leftarrow> fish_ticks os rtc_fd WAIT (b, s);
         let b = snd (mp1_ioctl_add (user2\<lparr>on_char := 0x49, off_char := 0x4D, on_length := 7, off_length := 6,
           location := 6 * 80 + 60\<rparr>) b) in do {
         (b, s) \<leftarrow> fish_ticks os rtc_fd WAIT (b, s);
         (r, b) \<leftarrow> mp1_ioctl_sync (push_bit 16 40 OR (6 * 80 + 60)) b;
         (b, s) \<leftarrow> fish_ticks os rtc_fd WAIT (b, s);
         (r, b) \<leftarrow> mp1_ioctl_remove (of_nat WAIT) b;
         (b, s) \<leftarrow> fish_ticks os rtc_fd (80 * 25) (b, s);
         (r, s) \<leftarrow> os_close os rtc_fd s;
         Some (0, b, s) } } } } }"

end
