(* ===== verification/Fish_Spec.thy ===== *)
theory Fish_Spec
  imports Fish
begin

text \<open>
  The list of \<open>fish\<close> in memory is a list of blinking characters: adding, removing, finding and the tick of
  the clock are functions on lists, as long as no character is at location 0.
\<close>

section \<open>Lists in the array\<close>

fun blist :: "(nat \<Rightarrow> blink) \<Rightarrow> nat option \<Rightarrow> nat list \<Rightarrow> bool" where
  "blist h p [] = (p = None)"
| "blist h p (i # is) = (p = Some i \<and> blist h (blink_next (h i)) is)"

definition plain :: "blink \<Rightarrow> blink" where
  "plain n = n\<lparr>blink_next := None\<rparr>"

definition nodes :: "blinks \<Rightarrow> nat list \<Rightarrow> blink list" where
  "nodes b is = map (\<lambda>i. plain (blink_array b i)) is"

text \<open>The list is in order: its nodes are elements of the array, none at location 0, and the other elements
  are free.\<close>

definition fish_ok :: "blinks \<Rightarrow> nat list \<Rightarrow> bool" where
  "fish_ok b is \<longleftrightarrow> blist (blink_array b) (mp1_list_head b) is \<and> distinct is \<and>
     (\<forall>i < BLINKS. i \<in> set is \<longleftrightarrow> location (blink_array b i) \<noteq> 0) \<and> set is \<subseteq> {..<BLINKS}"

lemma blist_cong: "(\<And>i. i \<in> set is \<Longrightarrow> blink_next (h i) = blink_next (g i)) \<Longrightarrow> blist h p is = blist g p is"
  by (induction "is" arbitrary: p) auto

lemma blist_upd: "i \<notin> set is \<Longrightarrow> blist (h(i := n)) p is = blist h p is"
  by (rule blist_cong) auto

lemma blist_unlink:
  "blist h p (js @ i # is) \<Longrightarrow> distinct (js @ i # is) \<Longrightarrow> js \<noteq> [] \<Longrightarrow>
    blist (h(last js := (h (last js))\<lparr>blink_next := blink_next (h i)\<rparr>)) p (js @ is)"
proof (induction js arbitrary: p)
  case (Cons j js)
  show ?case
  proof (cases js)
    case Nil
    let ?h = "h(j := (h j)\<lparr>blink_next := blink_next (h i)\<rparr>)"
    have "blist h (blink_next (h i)) is" "j \<notin> set is" "p = Some j" using Cons.prems Nil by simp_all
    moreover from this have "blink_next (?h j) = blink_next (h i)" by simp
    ultimately have "blist ?h (blink_next (?h j)) is" by (simp only: blist_upd not_False_eq_True)
    then show ?thesis unfolding Nil using Cons.prems by (simp only: last.simps if_True append.simps blist.simps simp_thms)
  next
    case (Cons k ks)
    then have "last js \<noteq> j" using \<open>distinct ((j # js) @ i # is)\<close> by (metis append_Cons distinct.simps(2) in_set_conv_decomp last_in_set list.distinct(1) Un_iff set_append)
    then show ?thesis using Cons.IH [of "blink_next (h j)"] \<open>js = k # ks\<close> Cons.prems by simp
  qed
qed simp

lemma plain_simps [simp]:
  "location (plain n) = location n" "on_char (plain n) = on_char n" "off_char (plain n) = off_char n"
  "on_length (plain n) = on_length n" "off_length (plain n) = off_length n" "countdown (plain n) = countdown n"
  "status (plain n) = status n" "plain (n\<lparr>blink_next := p\<rparr>) = plain n" "cell_of (plain n) = cell_of n"
  by (simp_all add: plain_def cell_of_def)

lemma put_blink_simps [simp]:
  "blink_array (put_blink i n b) = (blink_array b)(i := n)" "mp1_list_head (put_blink i n b) = mp1_list_head b"
  "vmem (put_blink i n b) = vmem b" "blink_array (mp1_poke c off b) = blink_array b"
  "mp1_list_head (mp1_poke c off b) = mp1_list_head b" "vmem (mp1_poke c off b) = (vmem b)(off := c)"
  by (simp_all add: put_blink_def mp1_poke_def)

section \<open>Finding\<close>

lemma find_from_list:
  "blist h p is \<Longrightarrow> find_from h x p = Some (find (\<lambda>i. location (h i) = x) is)"
  by (induction "is" arbitrary: p) (subst find_from.simps; auto)+

lemma find_helper_list:
  "blist (blink_array b) (mp1_list_head b) is \<Longrightarrow>
    mp1_find_helper arg b = Some (find (\<lambda>i. location (blink_array b i) = ucast arg) is)"
  by (simp add: mp1_find_helper_def find_from_list)

section \<open>The tick\<close>

text \<open>What a tick makes of a character, and what it writes.\<close>

definition tick :: "blink \<Rightarrow> blink" where
  "tick n =
     (if sint (countdown n - 1) > 0 then n\<lparr>countdown := countdown n - 1\<rparr>
      else n\<lparr>countdown := if status n AND 1 = 0 then on_length n else off_length n, status := status n XOR 1\<rparr>)"

definition tick_shows :: "blink \<Rightarrow> (u32 \<Rightarrow> u8) \<Rightarrow> u32 \<Rightarrow> u8" where
  "tick_shows n v = (if sint (countdown n - 1) > 0 then v
     else v(cell_of n := if status n AND 1 = 0 then on_char n else off_char n))"

lemma tasklet_node_eq:
  "tasklet_node i b = b\<lparr>blink_array := (blink_array b)(i := tick (blink_array b i)), vmem := tick_shows (blink_array b i) (vmem b)\<rparr>"
  by (simp add: tasklet_node_def tick_def tick_shows_def Let_def put_blink_def mp1_poke_def)

lemma tick_keeps [simp]: "blink_next (tick n) = blink_next n" "location (tick n) = location n"
  by (simp_all add: tick_def)

lemma plain_tick: "plain (tick n) = tick (plain n)"
  by (simp add: plain_def tick_def)

lemma tick_shows_plain [simp]: "tick_shows (plain n) = tick_shows n"
  by (rule ext) (simp add: tick_shows_def)

lemma tasklet_loop_list:
  "blist (blink_array b) p is \<Longrightarrow> distinct is \<Longrightarrow> \<exists>c. tasklet_loop p b = Some c \<and>
    blink_array c = (\<lambda>i. if i \<in> set is then tick (blink_array b i) else blink_array b i) \<and>
    mp1_list_head c = mp1_list_head b \<and> vmem c = fold tick_shows (nodes b is) (vmem b)"
proof (induction "is" arbitrary: p b)
  case Nil
  then show ?case by (subst tasklet_loop.simps) (simp add: nodes_def)
next
  case (Cons i "is")
  let ?b = "tasklet_node i b"
  have p: "p = Some i" "blist (blink_array b) (blink_next (blink_array b i)) is" "i \<notin> set is" "distinct is"
    using Cons.prems by simp_all
  have nx: "blink_next (blink_array ?b i) = blink_next (blink_array b i)" by (simp add: tasklet_node_eq)
  have "blist (blink_array ?b) (blink_next (blink_array b i)) is"
    using p(2,3) by (simp add: tasklet_node_eq blist_upd)
  then obtain c where c: "tasklet_loop (blink_next (blink_array b i)) ?b = Some c"
    "blink_array c = (\<lambda>j. if j \<in> set is then tick (blink_array ?b j) else blink_array ?b j)"
    "mp1_list_head c = mp1_list_head ?b" "vmem c = fold tick_shows (nodes ?b is) (vmem ?b)"
    using Cons.IH p(4) by blast
  have n: "nodes ?b is = nodes b is" using p(3) by (simp add: nodes_def tasklet_node_eq)
  have "tasklet_loop p b = Some c" using c(1) nx by (subst tasklet_loop.simps) (simp add: p(1))
  moreover have "blink_array c = (\<lambda>j. if j \<in> set (i # is) then tick (blink_array b j) else blink_array b j)"
    using p(3) by (auto simp: c(2) tasklet_node_eq)
  moreover have "vmem c = fold tick_shows (nodes b (i # is)) (vmem b)"
    unfolding c(4) n by (simp add: nodes_def tasklet_node_eq)
  ultimately show ?case using c(3) by (simp add: tasklet_node_eq)
qed

section \<open>Adding and removing\<close>

definition lit_up :: "blink \<Rightarrow> blink" where
  "lit_up u = plain (u\<lparr>status := 1, countdown := on_length u\<rparr>)"

lemma malloc_free:
  assumes "fish_ok b is"
  shows "length is < BLINKS \<Longrightarrow> \<exists>i. mp1_malloc b = Some i \<and> i < BLINKS \<and> i \<notin> set is"
    and "length is = BLINKS \<Longrightarrow> mp1_malloc b = None" and "length is \<le> BLINKS"
proof -
  have d: "distinct is" "set is \<subseteq> {..<BLINKS}" and u: "\<And>i. i < BLINKS \<Longrightarrow> i \<in> set is \<longleftrightarrow> location (blink_array b i) \<noteq> 0"
    using assms by (simp_all add: fish_ok_def)
  have c: "card (set is) = length is" using d(1) by (rule distinct_card)
  show "length is \<le> BLINKS" using card_mono [OF _ d(2)] c by simp
  show "\<exists>i. mp1_malloc b = Some i \<and> i < BLINKS \<and> i \<notin> set is" if "length is < BLINKS"
  proof (cases "mp1_malloc b")
    case None
    then have "\<forall>i < BLINKS. i \<in> set is" using u by (auto simp: mp1_malloc_def find_None_iff)
    then have "{..<BLINKS} \<subseteq> set is" by blast
    then show ?thesis using that c card_mono [of "set is" "{..<BLINKS}"] by simp
  next
    case (Some i)
    then have "i < BLINKS" "location (blink_array b i) = 0" by (auto simp: mp1_malloc_def find_Some_iff)
    then show ?thesis using u Some by blast
  qed
  show "mp1_malloc b = None" if "length is = BLINKS"
  proof -
    have "set is = {..<BLINKS}" using d(2) c that by (intro card_subset_eq) simp_all
    then show ?thesis using u by (auto simp: mp1_malloc_def find_None_iff)
  qed
qed

lemma add_list:
  assumes ok: "fish_ok b is" and u: "location u \<noteq> 0"
  shows "location u < 2000 \<and> length is < BLINKS \<Longrightarrow> \<exists>i c. mp1_ioctl_add u b = (0, c) \<and> fish_ok c (i # is) \<and>
      nodes c (i # is) = lit_up u # nodes b is \<and> vmem c = (vmem b)(cell_of u := on_char u)"
    and "\<not> (location u < 2000 \<and> length is < BLINKS) \<Longrightarrow> mp1_ioctl_add u b = (- 1, b)"
proof -
  let ?n = "u\<lparr>status := 0x1, countdown := on_length u\<rparr>"
  have o: "blist (blink_array b) (mp1_list_head b) is" "distinct is" "set is \<subseteq> {..<BLINKS}"
    "\<And>i. i < BLINKS \<Longrightarrow> i \<in> set is \<longleftrightarrow> location (blink_array b i) \<noteq> 0"
    using ok by (simp_all add: fish_ok_def)
  show "\<exists>i c. mp1_ioctl_add u b = (0, c) \<and> fish_ok c (i # is) \<and>
      nodes c (i # is) = lit_up u # nodes b is \<and> vmem c = (vmem b)(cell_of u := on_char u)"
    if h: "location u < 2000 \<and> length is < BLINKS"
  proof -
    obtain i where i: "mp1_malloc b = Some i" "i < BLINKS" "i \<notin> set is" using malloc_free(1) [OF ok] h by blast
    let ?c = "mp1_poke (on_char ?n) (cell_of ?n)
      ((put_blink i (?n\<lparr>blink_next := mp1_list_head b\<rparr>) b)\<lparr>mp1_list_head := Some i\<rparr>)"
    have "mp1_ioctl_add u b = (0, ?c)" using h i(1) by (simp add: mp1_ioctl_add_def Let_def not_le)
    moreover have "blist (blink_array ?c) (mp1_list_head b) is"
      using o(1) i(3) by (simp add: blist_upd)
    then have "fish_ok ?c (i # is)" using o i u by (auto simp: fish_ok_def)
    moreover have "nodes ?c (i # is) = lit_up u # nodes b is" using i(3) by (simp add: nodes_def lit_up_def)
    moreover have "cell_of ?n = cell_of u" by (simp add: cell_of_def)
    then have "vmem ?c = (vmem b)(cell_of u := on_char u)" by simp
    ultimately show ?thesis by blast
  qed
  show "mp1_ioctl_add u b = (- 1, b)" if "\<not> (location u < 2000 \<and> length is < BLINKS)"
    using that malloc_free(2,3) [OF ok] by (auto simp: mp1_ioctl_add_def Let_def not_less)
qed

text \<open>The node in front of one on the list.\<close>

lemma unlink_list:
  "blist (blink_array b) (case prev of None \<Rightarrow> mp1_list_head b | Some j \<Rightarrow> blink_next (blink_array b j)) (js @ i # is) \<Longrightarrow>
    i \<notin> set js \<Longrightarrow>
    unlink_from prev i b = Some (case (if js = [] then prev else Some (last js)) of
        None \<Rightarrow> b\<lparr>mp1_list_head := blink_next (blink_array b i)\<rparr>
      | Some j \<Rightarrow> put_blink j ((blink_array b j)\<lparr>blink_next := blink_next (blink_array b i)\<rparr>) b)"
proof (induction js arbitrary: prev)
  case Nil
  then show ?case by (subst unlink_from.simps) (auto split: option.split)
next
  case (Cons k js)
  then have q: "(case prev of None \<Rightarrow> mp1_list_head b | Some j \<Rightarrow> blink_next (blink_array b j)) = Some k" by simp
  then have "unlink_from prev i b = unlink_from (Some k) i b"
    using Cons.prems(2) by (subst unlink_from.simps) (simp add: q)
  then show ?case using Cons.IH [of "Some k"] Cons.prems q by (cases js) simp_all
qed

text \<open>The first character at a location: without it, and changed.\<close>

fun drop_at :: "u16 \<Rightarrow> blink list \<Rightarrow> blink list" where
  "drop_at x [] = []"
| "drop_at x (n # ns) = (if location n = x then ns else n # drop_at x ns)"

fun change_at :: "u16 \<Rightarrow> (blink \<Rightarrow> blink) \<Rightarrow> blink list \<Rightarrow> blink list" where
  "change_at x f [] = []"
| "change_at x f (n # ns) = (if location n = x then f n # ns else n # change_at x f ns)"

lemma at_first:
  "\<forall>n \<in> set ms. location n \<noteq> x \<Longrightarrow> location n = x \<Longrightarrow> drop_at x (ms @ n # ns) = ms @ ns \<and> change_at x f (ms @ n # ns) = ms @ f n # ns"
  by (induction ms) auto

lemma find_split:
  assumes "find (\<lambda>i. location (h i) = x) is = Some i"
  shows "\<exists>js ks. is = js @ i # ks \<and> (\<forall>j \<in> set js. location (h j) \<noteq> x) \<and> location (h i) = x"
  using assms
proof (induction "is")
  case (Cons k "is")
  show ?case
  proof (cases "location (h k) = x")
    case True
    then show ?thesis using Cons.prems by (intro exI [of _ "[]"] exI [of _ "is"]) auto
  next
    case False
    then obtain js ks where "is = js @ i # ks" "\<forall>j \<in> set js. location (h j) \<noteq> x" "location (h i) = x"
      using Cons by auto
    then show ?thesis using False by (intro exI [of _ "k # js"] exI [of _ ks]) simp
  qed
qed simp

lemma remove_list:
  assumes ok: "fish_ok b is"
  shows "case find (\<lambda>i. location (blink_array b i) = ucast arg) is of
      None \<Rightarrow> mp1_ioctl_remove arg b = Some (- 1, b)
    | Some i \<Rightarrow> \<exists>c js. mp1_ioctl_remove arg b = Some (0, c) \<and> fish_ok c js \<and> nodes c js = drop_at (ucast arg) (nodes b is) \<and> vmem c = vmem b"
proof -
  let ?h = "blink_array b"
  have o: "blist ?h (mp1_list_head b) is" "distinct is" "set is \<subseteq> {..<BLINKS}"
    "\<And>i. i < BLINKS \<Longrightarrow> i \<in> set is \<longleftrightarrow> location (?h i) \<noteq> 0"
    using ok by (simp_all add: fish_ok_def)
  show ?thesis
  proof (cases "find (\<lambda>i. location (?h i) = ucast arg) is")
    case None
    then show ?thesis using find_helper_list [OF o(1)] by (simp add: mp1_ioctl_remove_def)
  next
    case (Some i)
    obtain js ks where s: "is = js @ i # ks" "\<forall>j \<in> set js. location (?h j) \<noteq> ucast arg" "location (?h i) = ucast arg"
      using find_split [OF Some] by blast
    have i: "i \<notin> set js" "i \<notin> set ks" "i < BLINKS" using o(2,3) s(1) by auto
    define c where "c = (case (if js = [] then None else Some (last js)) of
        None \<Rightarrow> b\<lparr>mp1_list_head := blink_next (?h i)\<rparr>
      | Some j \<Rightarrow> put_blink j ((?h j)\<lparr>blink_next := blink_next (?h i)\<rparr>) b)"
    have un: "unlink_from None i b = Some c" unfolding c_def by (rule unlink_list) (use o(1) s(1) i(1) in simp_all)
    have l: "blist (blink_array c) (mp1_list_head c) (js @ ks)"
    proof (cases "js = []")
      case True
      then show ?thesis using o(1) s(1) by (simp add: c_def)
    next
      case False
      then show ?thesis using blist_unlink [of ?h "mp1_list_head b" js i ks] o(1,2) s(1) by (simp add: c_def)
    qed
    have pl: "plain (blink_array c j) = plain (?h j)" for j by (simp add: c_def)
    then have loc: "location (blink_array c j) = location (?h j)" for j by (metis plain_simps(1) pl)
    let ?c = "mp1_free i c"
    have h: "blink_array ?c = (blink_array c)(i := zero_blink)" "mp1_list_head ?c = mp1_list_head c" "vmem ?c = vmem b"
      by (simp_all add: mp1_free_def c_def)
    have "location zero_blink = 0" by (simp add: zero_blink_def)
    then have "fish_ok ?c (js @ ks)" using l o i s(1) loc by (auto simp: fish_ok_def h blist_upd)
    moreover have "nodes ?c (js @ ks) = drop_at (ucast arg) (nodes b is)"
    proof -
      have "nodes ?c (js @ ks) = nodes b js @ nodes b ks" using i(1,2) pl by (auto simp: nodes_def h)
      moreover have "nodes b is = nodes b js @ plain (?h i) # nodes b ks" by (simp add: nodes_def s(1))
      moreover have "\<forall>n \<in> set (nodes b js). location n \<noteq> ucast arg" using s(2) by (simp add: nodes_def)
      ultimately show ?thesis using at_first [of "nodes b js" "ucast arg" "plain (?h i)" "nodes b ks"] s(3) by simp
    qed
    moreover have "mp1_ioctl_remove arg b = Some (0, ?c)"
      using find_helper_list [OF o(1)] Some un by (simp add: mp1_ioctl_remove_def)
    ultimately show ?thesis using Some h(3) by auto
  qed
qed

text \<open>After \<open>sync\<close> a character blinks in step with another one; what is shown is always its second
  character, whatever its state.\<close>

definition in_step :: "blink \<Rightarrow> blink \<Rightarrow> blink" where
  "in_step m n = n\<lparr>on_length := on_length m, off_length := off_length m, countdown := countdown m, status := status m\<rparr>"

lemma sync_char_off: "sync_char n = off_char n"
  by (simp add: sync_char_def bit_simps)

lemma sync_list:
  assumes ok: "fish_ok b is"
    and i: "find (\<lambda>i. location (blink_array b i) = ucast (drop_bit 16 arg)) is = Some i"
    and j: "find (\<lambda>i. location (blink_array b i) = ucast (arg AND 0xFFFF)) is = Some j"
  shows "\<exists>c. mp1_ioctl_sync arg b = Some (0, c) \<and> fish_ok c is \<and>
    nodes c is = change_at (ucast (arg AND 0xFFFF)) (in_step (plain (blink_array b i))) (nodes b is) \<and>
    vmem c = (vmem b)(cell_of (blink_array b j) := off_char (blink_array b j))"
proof -
  let ?h = "blink_array b"
  have o: "blist ?h (mp1_list_head b) is" "distinct is" "set is \<subseteq> {..<BLINKS}"
    "\<And>i. i < BLINKS \<Longrightarrow> i \<in> set is \<longleftrightarrow> location (?h i) \<noteq> 0"
    using ok by (simp_all add: fish_ok_def)
  obtain js ks where s: "is = js @ j # ks" "\<forall>k \<in> set js. location (?h k) \<noteq> ucast (arg AND 0xFFFF)" "location (?h j) = ucast (arg AND 0xFFFF)"
    using find_split [OF j] by blast
  let ?n = "in_step (?h i) (?h j)"
  let ?c = "mp1_poke (sync_char ?n) (cell_of ?n) (put_blink j ?n b)"
  have n: "blink_next ?n = blink_next (?h j)" "location ?n = location (?h j)" "off_char ?n = off_char (?h j)" "cell_of ?n = cell_of (?h j)"
    by (simp_all add: in_step_def cell_of_def)
  have "mp1_ioctl_sync arg b = Some (0, ?c)"
    using find_helper_list [OF o(1)] i j by (simp add: mp1_ioctl_sync_def Let_def in_step_def)
  moreover have "blist (blink_array ?c) (mp1_list_head b) is"
    using o(1) n(1) blist_cong [of "is" "?h(j := ?n)" ?h] by simp
  then have "fish_ok ?c is" using o n(2) by (simp add: fish_ok_def)
  moreover have "nodes ?c is = change_at (ucast (arg AND 0xFFFF)) (in_step (plain (?h i))) (nodes b is)"
  proof -
    have "j \<notin> set js" "j \<notin> set ks" using o(2) s(1) by auto
    then have "nodes ?c is = nodes b js @ plain ?n # nodes b ks" by (auto simp: nodes_def s(1))
    moreover have "plain ?n = in_step (plain (?h i)) (plain (?h j))" by (simp add: in_step_def plain_def)
    moreover have "nodes b is = nodes b js @ plain (?h j) # nodes b ks" by (simp add: nodes_def s(1))
    moreover have "\<forall>n \<in> set (nodes b js). location n \<noteq> ucast (arg AND 0xFFFF)" using s(2) by (simp add: nodes_def)
    ultimately show ?thesis
      using at_first [of "nodes b js" "ucast (arg AND 0xFFFF)" "plain (?h j)" "nodes b ks" "in_step (plain (?h i))"] s(3) by simp
  qed
  moreover have "vmem ?c = (vmem b)(cell_of (?h j) := off_char (?h j))" using n(3,4) by (simp add: sync_char_off)
  ultimately show ?thesis by blast
qed

end
