(* ===== verification/Fish_Props.thy ===== *)
theory Fish_Props
  imports Fish_Spec
begin

text \<open>
  Properties of the list of blinking characters of \<open>fish\<close>.
\<close>

lemma find_nodes: "find (\<lambda>n. location n = x) (nodes b is) = map_option (\<lambda>i. plain (blink_array b i)) (find (\<lambda>i. location (blink_array b i) = x) is)"
  by (induction "is") (simp_all add: nodes_def)

lemma drop_at_none: "find (\<lambda>n. location n = x) ns = None \<Longrightarrow> drop_at x ns = ns \<and> change_at x f ns = ns"
  by (induction ns) (auto split: if_splits)

lemma find_None_nodes: "find (\<lambda>i. location (blink_array b i) = x) is = None \<longleftrightarrow> find (\<lambda>n. location n = x) (nodes b is) = None"
  by (simp add: find_nodes)

lemma tasklet_list:
  assumes "fish_ok b is"
  shows "\<exists>c. mp1_rtc_tasklet b = Some c \<and> fish_ok c is \<and> nodes c is = map tick (nodes b is) \<and>
    vmem c = fold tick_shows (nodes b is) (vmem b)"
proof -
  have o: "blist (blink_array b) (mp1_list_head b) is" "distinct is" "set is \<subseteq> {..<BLINKS}"
    "\<And>i. i < BLINKS \<Longrightarrow> i \<in> set is \<longleftrightarrow> location (blink_array b i) \<noteq> 0"
    using assms by (simp_all add: fish_ok_def)
  obtain c where c: "mp1_rtc_tasklet b = Some c"
    "blink_array c = (\<lambda>i. if i \<in> set is then tick (blink_array b i) else blink_array b i)"
    "mp1_list_head c = mp1_list_head b" "vmem c = fold tick_shows (nodes b is) (vmem b)"
    using tasklet_loop_list [OF o(1,2)] unfolding mp1_rtc_tasklet_def by blast
  have "blist (blink_array c) (mp1_list_head b) is" using o(1) blist_cong [of "is" "blink_array c" "blink_array b"] by (simp add: c(2))
  then have "fish_ok c is" using o(2-4) by (auto simp: fish_ok_def c(2,3))
  moreover have "nodes c is = map tick (nodes b is)" by (simp add: nodes_def c(2) plain_tick)
  ultimately show ?thesis using c(1,4) by blast
qed

text \<open>C23. The blinking characters of \<open>fish\<close>, linked through an array in assembly, are a list of characters: a
  tick of the clock counts each down and shows and toggles those that are due, adding puts a character
  in front, removing and finding take the first one at a location, and synchronising makes one blink
  in step with another.\<close>

theorem fish_list_refines:
  assumes ok: "fish_ok b is"
  shows "(\<exists>c. mp1_rtc_tasklet b = Some c \<and> fish_ok c is \<and> nodes c is = map tick (nodes b is) \<and>
      vmem c = fold tick_shows (nodes b is) (vmem b)) \<and>
    (location u \<noteq> 0 \<longrightarrow> (\<exists>r c js. mp1_ioctl_add u b = (r, c) \<and> fish_ok c js \<and>
      (if location u < 2000 \<and> length is < BLINKS
       then r = 0 \<and> nodes c js = lit_up u # nodes b is \<and> vmem c = (vmem b)(cell_of u := on_char u)
       else r = - 1 \<and> c = b \<and> js = is))) \<and>
    (\<exists>r c js. mp1_ioctl_remove arg b = Some (r, c) \<and> fish_ok c js \<and> nodes c js = drop_at (ucast arg) (nodes b is) \<and>
      vmem c = vmem b \<and> r = (if find (\<lambda>n. location n = ucast arg) (nodes b is) = None then - 1 else 0)) \<and>
    (\<exists>r n. mp1_ioctl_find x b = Some (r, n) \<and> map_option plain n = find (\<lambda>n. location n = x) (nodes b is) \<and>
      r = (if n = None then - 1 else 0)) \<and>
    (case (find (\<lambda>n. location n = ucast (drop_bit 16 arg)) (nodes b is), find (\<lambda>n. location n = ucast (arg AND 0xFFFF)) (nodes b is)) of
       (Some m, Some n) \<Rightarrow> \<exists>c. mp1_ioctl_sync arg b = Some (0, c) \<and> fish_ok c is \<and>
         nodes c is = change_at (ucast (arg AND 0xFFFF)) (in_step m) (nodes b is) \<and> vmem c = (vmem b)(cell_of n := off_char n)
     | _ \<Rightarrow> mp1_ioctl_sync arg b = Some (- 1, b))"
proof (intro conjI impI)
  have bl: "blist (blink_array b) (mp1_list_head b) is" using ok by (simp add: fish_ok_def)
  show "\<exists>c. mp1_rtc_tasklet b = Some c \<and> fish_ok c is \<and> nodes c is = map tick (nodes b is) \<and>
      vmem c = fold tick_shows (nodes b is) (vmem b)" by (rule tasklet_list [OF ok])
  show "\<exists>r c js. mp1_ioctl_add u b = (r, c) \<and> fish_ok c js \<and>
      (if location u < 2000 \<and> length is < BLINKS
       then r = 0 \<and> nodes c js = lit_up u # nodes b is \<and> vmem c = (vmem b)(cell_of u := on_char u)
       else r = - 1 \<and> c = b \<and> js = is)" if "location u \<noteq> 0"
    using add_list [OF ok that] ok by (cases "location u < 2000 \<and> length is < BLINKS") auto
  show "\<exists>r c js. mp1_ioctl_remove arg b = Some (r, c) \<and> fish_ok c js \<and> nodes c js = drop_at (ucast arg) (nodes b is) \<and>
      vmem c = vmem b \<and> r = (if find (\<lambda>n. location n = ucast arg) (nodes b is) = None then - 1 else 0)"
    using remove_list [OF ok, of arg] ok drop_at_none [of "ucast arg" "nodes b is"]
    by (cases "find (\<lambda>i. location (blink_array b i) = ucast arg) is") (auto simp: find_nodes)
  have ux: "ucast (ucast x :: u32) = x" by (rule ucast_down_ucast_id) (simp add: is_down)
  show "\<exists>r n. mp1_ioctl_find x b = Some (r, n) \<and> map_option plain n = find (\<lambda>n. location n = x) (nodes b is) \<and>
      r = (if n = None then - 1 else 0)"
    using find_helper_list [OF bl, of "ucast x"]
    by (cases "find (\<lambda>i. location (blink_array b i) = x) is") (auto simp: mp1_ioctl_find_def find_nodes ux)
  show "case (find (\<lambda>n. location n = ucast (drop_bit 16 arg)) (nodes b is), find (\<lambda>n. location n = ucast (arg AND 0xFFFF)) (nodes b is)) of
       (Some m, Some n) \<Rightarrow> \<exists>c. mp1_ioctl_sync arg b = Some (0, c) \<and> fish_ok c is \<and>
         nodes c is = change_at (ucast (arg AND 0xFFFF)) (in_step m) (nodes b is) \<and> vmem c = (vmem b)(cell_of n := off_char n)
     | _ \<Rightarrow> mp1_ioctl_sync arg b = Some (- 1, b)"
  proof (cases "find (\<lambda>i. location (blink_array b i) = ucast (drop_bit 16 arg)) is")
    case None
    then show ?thesis using find_helper_list [OF bl] by (simp add: find_nodes mp1_ioctl_sync_def)
  next
    case i: (Some i)
    show ?thesis
    proof (cases "find (\<lambda>i. location (blink_array b i) = ucast (arg AND 0xFFFF)) is")
      case None
      then show ?thesis using find_helper_list [OF bl] i by (simp add: find_nodes mp1_ioctl_sync_def)
    next
      case (Some j)
      then show ?thesis using sync_list [OF ok i Some] i by (simp add: find_nodes)
    qed
  qed
qed

text \<open>Two characters, \<open>A\<close> at 60 on its last count and \<open>B\<close> at 540.\<close>

definition blinks0 :: blinks where
  "blinks0 = \<lparr>blink_array = (\<lambda>_. zero_blink)
       (0 := \<lparr>location = 60, on_char = 0x41, off_char = 0x61, on_length = 7, off_length = 6, countdown = 1, status = 1, blink_next = None\<rparr>,
        1 := \<lparr>location = 540, on_char = 0x42, off_char = 0x62, on_length = 9, off_length = 9, countdown = 5, status = 1, blink_next = Some 0\<rparr>),
     mp1_list_head = Some 1, vmem = \<lambda>_. 0\<rparr>"

lemma blinks0_ok: "fish_ok blinks0 [1, 0]"
  by (auto simp: fish_ok_def blinks0_def zero_blink_def BLINKS_def)

theorem fish_list_refines_witness:
  "\<exists>c d e. mp1_rtc_tasklet blinks0 = Some c \<and> map countdown (nodes c [1, 0]) = [4, 6] \<and> vmem c 120 = 0x61 \<and>
    mp1_ioctl_remove 60 blinks0 = Some (0, d) \<and> mp1_ioctl_remove 61 blinks0 = Some (- 1, e)"
proof -
  let ?n = "nodes blinks0 [1, 0]"
  have n: "?n = [\<lparr>location = 540, on_char = 0x42, off_char = 0x62, on_length = 9, off_length = 9, countdown = 5, status = 1, blink_next = None\<rparr>,
      \<lparr>location = 60, on_char = 0x41, off_char = 0x61, on_length = 7, off_length = 6, countdown = 1, status = 1, blink_next = None\<rparr>]"
    by (simp add: nodes_def blinks0_def plain_def)
  obtain c where c: "mp1_rtc_tasklet blinks0 = Some c" "nodes c [1, 0] = map tick ?n" "vmem c = fold tick_shows ?n (vmem blinks0)"
    using fish_list_refines [OF blinks0_ok] by blast
  have "map countdown (nodes c [1, 0]) = [4, 6]" unfolding c(2) n by (simp add: tick_def)
  moreover have "vmem c 120 = 0x61" unfolding c(3) n by (simp add: tick_shows_def cell_of_def)
  moreover obtain r d where "mp1_ioctl_remove 60 blinks0 = Some (r, d)" "r = (if find (\<lambda>n. location n = ucast (60 :: u32)) ?n = None then - 1 else 0)"
    using fish_list_refines [OF blinks0_ok, of _ 60] by blast
  then have "mp1_ioctl_remove 60 blinks0 = Some (0, d)" unfolding n by simp
  moreover obtain r e where "mp1_ioctl_remove 61 blinks0 = Some (r, e)" "r = (if find (\<lambda>n. location n = ucast (61 :: u32)) ?n = None then - 1 else 0)"
    using fish_list_refines [OF blinks0_ok, of _ 61] by blast
  then have "mp1_ioctl_remove 61 blinks0 = Some (- 1, e)" unfolding n by simp
  ultimately show ?thesis using c(1) by (intro exI [of _ c] exI [of _ d] exI [of _ e] conjI)
qed

lemma tasklet_cycle: "blink_next (blink_array b i) = Some i \<Longrightarrow> tasklet_loop (Some i) b = None"
proof -
  assume cyc: "blink_next (blink_array b i) = Some i"
  have "tasklet_loop p b = Some c \<Longrightarrow> \<not> (\<exists>i. p = Some i \<and> blink_next (blink_array b i) = Some i)" for p b c
  proof (rule tasklet_loop.raw_induct [where P = "\<lambda>p b c. \<not> (\<exists>i. p = Some i \<and> blink_next (blink_array b i) = Some i)"])
    fix f p b c
    assume IH: "\<And>p b c. f p b = Some c \<Longrightarrow> \<not> (\<exists>i. p = Some i \<and> blink_next (blink_array b i) = Some i)"
      and eq: "(case p of None \<Rightarrow> Some b
        | Some i \<Rightarrow> f (blink_next (blink_array (tasklet_node i b) i)) (tasklet_node i b)) = Some c"
    show "\<not> (\<exists>i. p = Some i \<and> blink_next (blink_array b i) = Some i)"
    proof
      assume "\<exists>i. p = Some i \<and> blink_next (blink_array b i) = Some i"
      then obtain i where i: "p = Some i" "blink_next (blink_array b i) = Some i" by blast
      have nx: "blink_next (blink_array (tasklet_node i b) i) = Some i" using i(2) by (simp add: tasklet_node_eq)
      have "f (Some i) (tasklet_node i b) = Some c" using eq by (simp add: i(1) nx)
      from IH [OF this] nx show False by blast
    qed
  qed
  then show ?thesis using cyc by (cases "tasklet_loop (Some i) b") blast+
qed

text \<open>C24. The allocator takes a node at location 0, the upper left corner, for a free one: the character
  added next is put into the same node, which then follows itself, and the next tick never ends.\<close>

theorem blink_in_corner_loops:
  assumes ok: "fish_ok b is" and sp: "length is < BLINKS" and u: "location u = 0" and v: "location v < 2000"
  shows "\<exists>c d. mp1_ioctl_add u b = (0, c) \<and> mp1_ioctl_add v c = (0, d) \<and> mp1_rtc_tasklet d = None"
proof -
  obtain i where i: "mp1_malloc b = Some i" using malloc_free(1) [OF ok sp] by blast
  then have z: "location (blink_array b i) = 0" by (auto simp: mp1_malloc_def find_Some_iff)
  define c where "c = snd (mp1_ioctl_add u b)"
  have c: "mp1_ioctl_add u b = (0, c)" "location (blink_array c j) = location (blink_array b j)" "mp1_list_head c = Some i" for j
    using i u z by (simp_all add: c_def mp1_ioctl_add_def Let_def)
  have m: "mp1_malloc c = Some i" using i by (simp add: mp1_malloc_def c(2))
  have nv: "(location v \<ge> 2000) = False" using v by (simp add: not_le)
  define d where "d = snd (mp1_ioctl_add v c)"
  have d: "mp1_ioctl_add v c = (0, d)" "mp1_list_head d = Some i" "blink_next (blink_array d i) = Some i"
    using m nv c(3) by (simp_all add: d_def mp1_ioctl_add_def Let_def)
  have "mp1_rtc_tasklet d = None" unfolding mp1_rtc_tasklet_def d(2) by (rule tasklet_cycle [OF d(3)])
  then show ?thesis using c(1) d(1) by blast
qed

theorem blink_in_corner_loops_witness:
  "\<exists>c d. mp1_ioctl_add zero_blink blinks0 = (0, c) \<and> mp1_ioctl_add (zero_blink\<lparr>location := 5\<rparr>) c = (0, d) \<and> mp1_rtc_tasklet d = None"
  by (rule blink_in_corner_loops [OF blinks0_ok]) (simp_all add: BLINKS_def zero_blink_def)

end
