(* ===== verification/Emulate.thy ===== *)
theory Emulate
  imports User_Lib
begin

text \<open>
  \<^verbatim>\<open>src/syscalls/ece391emulate.c\<close>: the system calls of the kernel made out of those of Linux, so that the
  programs can be tried there. The calls of the host are parameters, with their own state.
\<close>

section \<open>The host\<close>

datatype wait_status = Exited u8 | Signaled u8

text \<open>The calls through \<open>int 0x80\<close> give the value Linux returns, an error number below zero for a failure.
  A directory stream is a number, or none for a null pointer; \<open>h_run\<close> forks, executes a path with
  arguments and waits.\<close>

record 'h host =
  h_read :: "u32 \<Rightarrow> u8 list \<Rightarrow> u32 \<Rightarrow> 'h \<Rightarrow> (u32 \<times> u8 list \<times> 'h) option"
  h_write :: "u32 \<Rightarrow> u8 list \<Rightarrow> u32 \<Rightarrow> 'h \<Rightarrow> (u32 \<times> 'h) option"
  h_close :: "u32 \<Rightarrow> 'h \<Rightarrow> (u32 \<times> 'h) option"
  h_open :: "u8 list \<Rightarrow> 'h \<Rightarrow> (u32 \<times> 'h) option"
  libc_open :: "u8 list \<Rightarrow> 'h \<Rightarrow> u32 \<times> 'h"
  libc_close :: "u32 \<Rightarrow> 'h \<Rightarrow> 'h"
  h_opendir :: "u8 list \<Rightarrow> 'h \<Rightarrow> nat option \<times> 'h"
  h_readdir :: "nat \<Rightarrow> 'h \<Rightarrow> u8 list option \<times> 'h"
  h_closedir :: "nat \<Rightarrow> 'h \<Rightarrow> 'h"
  h_mmap :: "u32 \<Rightarrow> 'h \<Rightarrow> u32 option \<times> 'h"
  h_perror :: "u8 list \<Rightarrow> 'h \<Rightarrow> 'h"
  h_run :: "u8 list \<Rightarrow> u8 list list \<Rightarrow> 'h \<Rightarrow> (wait_status \<times> 'h) option"
  h_call :: "u32 \<Rightarrow> 'h \<Rightarrow> (u32 \<times> 'h) option"

record 'h emu =
  dir :: "nat option"
  dir_fd :: u32
  mem_fd :: u32
  linux :: 'h

definition emu_start :: "'h \<Rightarrow> 'h emu" where
  "emu_start h = \<lparr>dir = None, dir_fd = - 1, mem_fd = - 1, linux = h\<rparr>"

text \<open>The end of \<open>DO_CALL\<close>: an error number becomes -1.\<close>

definition rval_of :: "u32 \<Rightarrow> u32" where
  "rval_of r = (if r > 0xFFFFC000 then - 1 else r)"

text \<open>The directory is open on this descriptor.\<close>

definition is_dir :: "u32 \<Rightarrow> 'h emu \<Rightarrow> bool" where
  "is_dir fd s \<longleftrightarrow> dir s \<noteq> None \<and> dir_fd s = fd"

section \<open>Files and the directory\<close>

definition emu_open :: "'h host \<Rightarrow> u8 list \<Rightarrow> 'h emu \<Rightarrow> (u32 \<times> 'h emu) option" where
  "emu_open H name s = do {
     d \<leftarrow> ece391_strcmp (aget name) (aget (lit ''.''));
     if d = 0 then 
       (let (p, h) = h_opendir H (lit ''.'') (linux s); (fd, h) = libc_open H (lit ''/dev/null'') h
        in Some (fd, s\<lparr>dir := p, dir_fd := fd, linux := h\<rparr>))
     else do {
       (r, h) \<leftarrow> h_open H name (linux s);
       Some (rval_of r, s\<lparr>linux := h\<rparr>) } }"

text \<open>The loops of \<open>ece391_read\<close> that copy a name and fill up with zeros; \<open>nbytes\<close> is signed.\<close>

partial_function (option) pad_name :: "int \<Rightarrow> nat \<Rightarrow> u8 list \<Rightarrow> (int \<times> u8 list) option" where
  "pad_name nbytes cnt buf =
     (if nbytes > int cnt \<and> 32 > cnt then do { buf \<leftarrow> aput cnt 0 buf; pad_name nbytes (Suc cnt) buf }
      else Some (int cnt, buf))"

partial_function (option) copy_name :: "u8 list \<Rightarrow> int \<Rightarrow> nat \<Rightarrow> u8 list \<Rightarrow> (int \<times> u8 list) option" where
  "copy_name from nbytes cnt buf = do {
     c \<leftarrow> aget from cnt;
     if c \<noteq> 0 then do {
       buf \<leftarrow> aput cnt c buf;
       if int (Suc cnt) = nbytes then Some (nbytes, buf)
       else if Suc cnt = 32 then Some (32, buf)
       else copy_name from nbytes (Suc cnt) buf }
     else pad_name nbytes cnt buf }"

definition emu_read :: "'h host \<Rightarrow> u32 \<Rightarrow> u8 list \<Rightarrow> u32 \<Rightarrow> 'h emu \<Rightarrow> (u32 \<times> u8 list \<times> 'h emu) option" where
  "emu_read H fd buf nbytes s =
     (case dir s of
        None \<Rightarrow> do { (r, buf, h) \<leftarrow> h_read H fd buf nbytes (linux s); Some (rval_of r, buf, s\<lparr>linux := h\<rparr>) }
      | Some p \<Rightarrow>
          if dir_fd s \<noteq> fd then do { (r, buf, h) \<leftarrow> h_read H fd buf nbytes (linux s); Some (rval_of r, buf, s\<lparr>linux := h\<rparr>) }
          else (let (de, h) = h_readdir H p (linux s); s = s\<lparr>linux := h\<rparr> in
            case de of
              None \<Rightarrow> Some (0, buf, s)
            | Some d_name \<Rightarrow> do { (n, buf) \<leftarrow> copy_name d_name (sint nbytes) 0 buf; Some (word_of_int n, buf, s) }))"

definition emu_write :: "'h host \<Rightarrow> u32 \<Rightarrow> u8 list \<Rightarrow> u32 \<Rightarrow> 'h emu \<Rightarrow> (u32 \<times> 'h emu) option" where
  "emu_write H fd buf nbytes s =
     (if \<not> is_dir fd s then do { (r, h) \<leftarrow> h_write H fd buf nbytes (linux s); Some (rval_of r, s\<lparr>linux := h\<rparr>) }
      else Some (- 1, s))"

definition emu_close :: "'h host \<Rightarrow> u32 \<Rightarrow> 'h emu \<Rightarrow> (u32 \<times> 'h emu) option" where
  "emu_close H fd s =
     (case dir s of
        None \<Rightarrow> do { (r, h) \<leftarrow> h_close H fd (linux s); Some (rval_of r, s\<lparr>linux := h\<rparr>) }
      | Some p \<Rightarrow>
          if dir_fd s \<noteq> fd then do { (r, h) \<leftarrow> h_close H fd (linux s); Some (rval_of r, s\<lparr>linux := h\<rparr>) }
          else Some (0, s\<lparr>dir := None, dir_fd := - 1, linux := libc_close H (dir_fd s) (h_closedir H p (linux s))\<rparr>))"

text \<open>The screen is at \<open>0xB8000\<close> in the image of the low memory. The address goes to \<open>screen_start\<close>, the first
  component of the result.\<close>

definition emu_vidmap :: "'h host \<Rightarrow> 'h emu \<Rightarrow> u32 option \<times> u32 \<times> 'h emu" where
  "emu_vidmap H s =
     (let s = (if mem_fd s = - 1 then (let (fd, h) = libc_open H (lit ''/dev/mem'') (linux s) in s\<lparr>mem_fd := fd, linux := h\<rparr>) else s);
          (mem_image, h) = h_mmap H (mem_fd s) (linux s) in
      case mem_image of
        None \<Rightarrow> (None, - 1, s\<lparr>linux := h_perror H (lit ''mmap low memory'') h\<rparr>)
      | Some a \<Rightarrow> (Some (a + 0xB8000), 0, s\<lparr>linux := h\<rparr>))"

section \<open>Arguments\<close>

text \<open>The loop of \<open>ece391_getargs\<close> over the arguments from the first on: \<open>buf\<close> has moved to \<open>pos\<close>, and \<open>None\<close> in
  the result means that -1 has been returned.\<close>

fun join_args :: "u8 list list \<Rightarrow> nat \<Rightarrow> int \<Rightarrow> u8 list \<Rightarrow> ((nat \<times> int) option \<times> u8 list) option" where
  "join_args [] pos nbytes buf = Some (Some (pos, nbytes), buf)"
| "join_args (a # as) pos nbytes buf = do {
     len \<leftarrow> ece391_strlen (aget a);
     if int len > nbytes then Some (None, buf)
     else do {
       buf \<leftarrow> ece391_strcpy (\<lambda>d i. aget a i) (\<lambda>i c d. aput (pos + i) c d) buf;
       let (pos, nbytes) = (pos + len, nbytes - int len) in
       if as = [] then Some (Some (pos, nbytes), buf)
       else if nbytes < 1 then Some (None, buf)
       else do { buf \<leftarrow> aput pos 0x20 buf; join_args as (Suc pos) (nbytes - 1) buf } } }"

text \<open>\<open>argv\<close> is what the host put on the stack; the name of the program is skipped.\<close>

definition emu_getargs :: "u8 list list \<Rightarrow> u8 list \<Rightarrow> u32 \<Rightarrow> (u32 \<times> u8 list) option" where
  "emu_getargs argv buf nbytes = do {
     (p, buf) \<leftarrow> join_args (tl argv) 0 (sint nbytes) buf;
     (case p of
        None \<Rightarrow> Some (- 1, buf)
      | Some (pos, nbytes) \<Rightarrow>
          if nbytes < 1 then Some (- 1, buf) else do { buf \<leftarrow> aput pos 0 buf; Some (0, buf) }) }"

section \<open>Programs\<close>

partial_function (option) skip_word :: "u8 list \<Rightarrow> nat \<Rightarrow> nat option" where
  "skip_word buf scan = do {
     c \<leftarrow> aget buf scan;
     if c \<noteq> 0 \<and> c \<noteq> 0x20 \<and> c \<noteq> 0x0A then skip_word buf (Suc scan) else Some scan }"

partial_function (option) skip_blanks :: "u8 list \<Rightarrow> nat \<Rightarrow> nat option" where
  "skip_blanks buf scan = do { c \<leftarrow> aget buf scan; if c = 0x20 then skip_blanks buf (Suc scan) else Some scan }"

text \<open>The arguments, as the positions in the buffer at which they start.\<close>

partial_function (option) parse_args :: "u8 list \<Rightarrow> nat \<Rightarrow> nat list \<Rightarrow> (u8 list \<times> nat list) option" where
  "parse_args buf scan starts = do {
     scan \<leftarrow> skip_blanks buf scan;
     c \<leftarrow> aget buf scan;
     if c = 0 \<or> c = 0x0A then do { buf \<leftarrow> aput scan 0 buf; Some (buf, starts) }
     else do {
       e \<leftarrow> skip_word buf scan;
       c \<leftarrow> aget buf e;
       if c \<noteq> 0 then do { buf \<leftarrow> aput e 0 buf; parse_args buf (Suc e) (starts @ [scan]) }
       else parse_args buf e (starts @ [scan]) } }"

definition emu_execute :: "'h host \<Rightarrow> u8 list \<Rightarrow> u8 list \<Rightarrow> 'h emu \<Rightarrow> (u32 \<times> 'h emu) option" where
  "emu_execute H buf command s = do {
     n \<leftarrow> ece391_strlen (aget command);
     if 1023 < n then Some (- 1, s)
     else do {
       buf \<leftarrow> aput 0 0x2E buf;
       buf \<leftarrow> aput 1 0x2F buf;
       buf \<leftarrow> ece391_strcpy (\<lambda>d i. aget command i) (\<lambda>i c d. aput (2 + i) c d) buf;
       scan \<leftarrow> skip_word buf 2;
       c \<leftarrow> aget buf scan;
       (buf, starts) \<leftarrow> (if c \<noteq> 0 then do { buf \<leftarrow> aput scan 0 buf; parse_args buf (Suc scan) [0] } else Some (buf, [0]));
       (status, h) \<leftarrow> h_run H buf (map (\<lambda>i. drop i buf) starts) (linux s);
       Some (case status of Exited c \<Rightarrow> ucast c | Signaled c \<Rightarrow> if c = 9 then - 1 else 256, s\<lparr>linux := h\<rparr>) } }"

definition emu_os :: "'h host \<Rightarrow> u8 list list \<Rightarrow> u8 list \<Rightarrow> 'h emu os" where
  "emu_os H argv buf = \<lparr>os_execute = emu_execute H buf, os_read = emu_read H, os_write = emu_write H,
     os_open = emu_open H, os_close = emu_close H,
     os_getargs = \<lambda>b n s. map_option (\<lambda>(r, b). (r, b, s)) (emu_getargs argv b n),
     os_vidmap = \<lambda>a s. Some (snd (emu_vidmap H s)),
     os_call = \<lambda>n s. map_option (\<lambda>(r, h). (r, s\<lparr>linux := h\<rparr>)) (h_call H n (linux s))\<rparr>"

section \<open>What the emulation promises\<close>

lemma pad_name_fills:
  "k \<le> m \<Longrightarrow> m = min (nat n) 32 \<Longrightarrow> length buf \<ge> m \<Longrightarrow>
    pad_name n k buf = Some (int m, take k buf @ replicate (m - k) 0 @ drop m buf)"
proof (induction "m - k" arbitrary: k buf)
  case 0
  then show ?case by (subst pad_name.simps) auto
next
  case (Suc j)
  then have k: "k < m" "n > int k" "32 > k" by auto
  have "pad_name n (Suc k) (buf[k := 0]) = Some (int m, take (Suc k) (buf[k := 0]) @ replicate (m - Suc k) 0 @ drop m (buf[k := 0]))"
  proof (rule Suc.hyps(1) [OF _ _ Suc.prems(2)])
    show "j = m - Suc k" using Suc.hyps(2) by linarith
    show "Suc k \<le> m" using k(1) by simp
    show "m \<le> length (buf[k := 0])" using Suc.prems(3) by simp
  qed
  moreover have "take (Suc k) (buf[k := 0]) @ replicate (m - Suc k) 0 = take k buf @ replicate (m - k) 0"
  proof -
    have "m - k = Suc (m - Suc k)" using k(1) by simp
    then have "replicate (m - k) 0 = (0 :: u8) # replicate (m - Suc k) 0" by (simp only: replicate_Suc)
    then show ?thesis using k(1) Suc.prems(3) by (simp add: take_Suc_conv_app_nth)
  qed
  moreover have "drop m (buf[k := 0]) = drop m buf" using k(1) by simp
  moreover have "pad_name n k buf = pad_name n (Suc k) (buf[k := 0])"
    using k Suc.prems(3) by (subst pad_name.simps) (simp add: aput_in)
  ultimately show ?case by (metis append_assoc)
qed

text \<open>A read of the directory gives the name of an entry, filled up with zeros to 32 bytes, or as much of it
  as was asked for.\<close>

lemma copy_name_copies:
  assumes xs: "0 \<notin> set xs" and n: "0 < n"
  defines "m \<equiv> min (nat n) 32"
  shows "k \<le> length xs \<Longrightarrow> k < m \<Longrightarrow> length buf \<ge> m \<Longrightarrow> take k buf = take k xs \<Longrightarrow>
    copy_name (xs @ 0 # r) n k buf = Some (int m, take m (xs @ replicate m 0) @ drop m buf)"
proof (induction "length xs - k" arbitrary: k buf)
  case 0
  then have k: "k = length xs" "take k buf = xs" by auto
  have "pad_name n k buf = Some (int m, take k buf @ replicate (m - k) 0 @ drop m buf)"
    by (rule pad_name_fills) (use 0 in \<open>simp_all add: m_def\<close>)
  moreover have "take m (xs @ replicate m 0) = xs @ replicate (m - k) 0" using k(1) 0(3) by simp
  ultimately show ?case using k by (subst copy_name.simps) (simp add: aget_def)
next
  case (Suc j)
  then have k: "k < length xs" "k < length buf" by simp_all
  have c: "aget (xs @ 0 # r) k = Some (xs ! k)" "xs ! k \<noteq> 0" using k(1) xs by (simp_all add: aget_def nth_append) (metis nth_mem)
  let ?b = "buf[k := xs ! k]"
  have t: "take (Suc k) ?b = take (Suc k) xs" using k Suc.prems(4) by (simp add: take_Suc_conv_app_nth)
  show ?case
  proof (cases "Suc k = m")
    case True
    then have "take m ?b = take m (xs @ replicate m 0)" using t k(1) by simp
    then have b: "?b = take m (xs @ replicate m 0) @ drop m buf"
      using append_take_drop_id [of m ?b] True by simp
    have "int (Suc k) = n \<or> Suc k = 32" using True n by (auto simp: m_def min_def split: if_splits)
    moreover have "int (Suc k) = n \<Longrightarrow> n = int m" using True by simp
    ultimately show ?thesis using c k(2) b True by (subst copy_name.simps) (auto simp: aput_in)
  next
    case False
    then have s: "Suc k < m" using Suc.prems(2) by simp
    then have "int (Suc k) \<noteq> n" "Suc k \<noteq> 32" by (auto simp: m_def)
    moreover have "copy_name (xs @ 0 # r) n (Suc k) ?b = Some (int m, take m (xs @ replicate m 0) @ drop m ?b)"
      by (rule Suc.hyps(1)) (use Suc.hyps(2) Suc.prems(3) k s t in simp_all)
    ultimately show ?thesis using c k s by (subst copy_name.simps) (simp add: aput_in)
  qed
qed

text \<open>The arguments with a blank between them.\<close>

fun joined :: "u8 list list \<Rightarrow> u8 list" where
  "joined [] = []"
| "joined [a] = a"
| "joined (a # as) = a @ 0x20 # joined as"

lemma strcpy_from_to:
  assumes a: "c_str (aget a) xs"
  shows "i \<le> length xs \<Longrightarrow> pos + length xs < length buf \<Longrightarrow>
    ece391_strcpy_from (\<lambda>d i. aget a i) (\<lambda>i c d. aput (pos + i) c d) i buf =
      Some (take (pos + i) buf @ drop i xs @ 0 # drop (Suc (pos + length xs)) buf)"
proof (induction "length xs - i" arbitrary: i buf)
  case 0
  then show ?case
    using c_str_end [OF a] by (subst ece391_strcpy_from.simps) (simp add: aput_in upd_conv_take_nth_drop)
next
  case (Suc k)
  then have i: "i < length xs" by simp
  have "ece391_strcpy_from (\<lambda>d i. aget a i) (\<lambda>i c d. aput (pos + i) c d) (Suc i) (buf[pos + i := xs ! i]) =
      Some (take (pos + Suc i) (buf[pos + i := xs ! i]) @ drop (Suc i) xs @ 0 # drop (Suc (pos + length xs)) (buf[pos + i := xs ! i]))"
    by (rule Suc.hyps(1)) (use Suc.hyps(2) Suc.prems i in simp_all)
  moreover have "take (pos + Suc i) (buf[pos + i := xs ! i]) @ drop (Suc i) xs = take (pos + i) buf @ drop i xs"
    using i Suc.prems(2) by (simp add: take_Suc_conv_app_nth Cons_nth_drop_Suc)
  moreover have "ece391_strcpy_from (\<lambda>d i. aget a i) (\<lambda>i c d. aput (pos + i) c d) i buf =
      ece391_strcpy_from (\<lambda>d i. aget a i) (\<lambda>i c d. aput (pos + i) c d) (Suc i) (buf[pos + i := xs ! i])"
    using c_str_nth [OF a i] c_str_nonzero [OF a i] i Suc.prems(2) by (subst ece391_strcpy_from.simps) (simp add: aput_in)
  ultimately show ?case using i by (simp flip: append_assoc)
qed

lemma join_args_joins:
  assumes "list_all2 (\<lambda>a x. c_str (aget a) x) as xs" and "0 \<le> n" and "int pos + n < int (length buf)"
  shows "\<exists>buf'. join_args as pos n buf = Some (if int (length (joined xs)) \<le> n
      then Some (pos + length (joined xs), n - int (length (joined xs))) else None, buf') \<and> length buf' = length buf \<and>
    (int (length (joined xs)) \<le> n \<longrightarrow> take (pos + length (joined xs)) buf' = take pos buf @ joined xs)"
  using assms
proof (induction xs arbitrary: as pos n buf rule: joined.induct)
  case 1
  then show ?case by simp
next
  case (2 x)
  then obtain a where a: "as = [a]" "c_str (aget a) x" by (auto simp: list_all2_Cons2)
  have l: "ece391_strlen (aget a) = Some (length x)" unfolding ece391_strlen_eq by (rule strlen_c_str [OF a(2)])
  show ?case
  proof (cases "int (length x) \<le> n")
    case True
    then have "pos + length x < length buf" using 2(3) by linarith
    from strcpy_from_to [OF a(2) _ this, of 0] show ?thesis using True l \<open>pos + length x < length buf\<close>
      by (simp add: a(1) ece391_strcpy_def)
  next
    case False
    then show ?thesis using l by (simp add: a(1))
  qed
next
  case (3 x y ys)
  then obtain a b bs where a: "as = a # b # bs" "c_str (aget a) x" "list_all2 (\<lambda>a x. c_str (aget a) x) (b # bs) (y # ys)"
    by (auto simp: list_all2_Cons2)
  have l: "ece391_strlen (aget a) = Some (length x)" unfolding ece391_strlen_eq by (rule strlen_c_str [OF a(2)])
  show ?case
  proof (cases "int (length x) < n")
    case False
    show ?thesis
    proof (cases "int (length x) = n")
      case True
      then have "pos + length x < length buf" using 3(4) by linarith
      from strcpy_from_to [OF a(2) _ this, of 0] show ?thesis using True l \<open>pos + length x < length buf\<close>
        by (auto simp: a(1) ece391_strcpy_def)
    next
      case no: False
      then show ?thesis using l False by (auto simp: a(1))
    qed
  next
    case True
    then have p: "pos + length x < length buf" using 3(4) by linarith
    let ?buf = "take pos buf @ x @ 0x20 # drop (Suc (pos + length x)) buf"
    have st: "ece391_strcpy (\<lambda>d i. aget a i) (\<lambda>i c d. aput (pos + i) c d) buf =
        Some (take pos buf @ x @ 0 # drop (Suc (pos + length x)) buf)"
      using strcpy_from_to [OF a(2) _ p, of 0] by (simp add: ece391_strcpy_def)
    have bl: "aput (pos + length x) 0x20 (take pos buf @ x @ 0 # drop (Suc (pos + length x)) buf) = Some ?buf"
      using p by (simp add: aput_def list_update_append)
    have lb: "length ?buf = length buf" using p by simp
    have n: "0 \<le> n - int (length x) - 1" "int (Suc (pos + length x)) + (n - int (length x) - 1) < int (length ?buf)"
      using True 3(4) unfolding lb by simp_all
    obtain buf' where b: "join_args (b # bs) (Suc (pos + length x)) (n - int (length x) - 1) ?buf =
        Some (if int (length (joined (y # ys))) \<le> n - int (length x) - 1
          then Some (Suc (pos + length x) + length (joined (y # ys)), n - int (length x) - 1 - int (length (joined (y # ys)))) else None, buf')"
      "length buf' = length buf"
      "int (length (joined (y # ys))) \<le> n - int (length x) - 1 \<longrightarrow>
        take (Suc (pos + length x) + length (joined (y # ys))) buf' = take (Suc (pos + length x)) ?buf @ joined (y # ys)"
      using 3(1) [OF a(3) n] unfolding lb by blast
    have t: "take (Suc (pos + length x)) ?buf = take pos buf @ x @ [0x20]" using p by simp
    have step: "join_args as pos n buf = join_args (b # bs) (Suc (pos + length x)) (n - int (length x) - 1) ?buf"
      using True l st bl unfolding a(1) by (subst join_args.simps) simp
    show ?thesis unfolding step b(1) using b(2,3) t by (intro exI [of _ buf']) (auto simp: algebra_simps)
  qed
qed

text \<open>\<open>getargs\<close> of the emulation joins the arguments and fails when they and the terminator do not fit, unlike
  that of the kernel. It needs a byte more than \<open>nbytes\<close> for an argument that just does not fit.\<close>

lemma emu_getargs_joins:
  assumes "list_all2 (\<lambda>a x. c_str (aget a) x) (tl argv) xs" and "0 \<le> sint n" and "sint n < int (length buf)"
  shows "\<exists>buf'. emu_getargs argv buf n = Some (if int (length (joined xs)) < sint n then 0 else - 1, buf') \<and>
    (int (length (joined xs)) < sint n \<longrightarrow> take (Suc (length (joined xs))) buf' = joined xs @ [0])"
proof -
  obtain b where b: "join_args (tl argv) 0 (sint n) buf = Some (if int (length (joined xs)) \<le> sint n
      then Some (length (joined xs), sint n - int (length (joined xs))) else None, b)" "length b = length buf"
    "int (length (joined xs)) \<le> sint n \<longrightarrow> take (length (joined xs)) b = joined xs"
    using join_args_joins [OF assms(1,2), of 0 buf] assms(3) by auto
  show ?thesis
  proof (cases "int (length (joined xs)) < sint n")
    case True
    then have "length (joined xs) < length b" using b(2) assms(3) by simp
    then show ?thesis using True b by (simp add: emu_getargs_def aput_in take_Suc_conv_app_nth)
  next
    case False
    then show ?thesis using b by (simp add: emu_getargs_def)
  qed
qed

end
