(* ===== verification/Wrappers.thy ===== *)
theory Wrappers
  imports Boot Dispatch Calls_Spec
begin

unbundle bit_operations_syntax

text \<open>
  The assembly around the C functions, instruction by instruction: the wrappers of the interrupt handlers
  in \<^verbatim>\<open>student-distrib/interrupt_handlers.S\<close>, the stack of \<^verbatim>\<open>syscall_handler.S\<close> and
  \<^verbatim>\<open>switch_to_user.S\<close>, the start in \<^verbatim>\<open>boot.S\<close> and the segments of \<^verbatim>\<open>x86_desc.S\<close>. What the
  compiler makes of a C function is a parameter here, of which the calling convention is assumed.
\<close>

section \<open>The processor\<close>

record cpu = regs +
  si :: u32
  di :: u32
  bp :: u32
  sp :: u32
  ip :: u32
  eflags :: u32
  cs :: u16
  ss :: u16
  ds :: u16
  es :: u16
  fs :: u16
  gs :: u16
  gdtr :: u32
  ram :: mem

definition push :: "u32 \<Rightarrow> cpu \<Rightarrow> cpu" where
  "push w c = c\<lparr>sp := sp c - 4, ram := store32 (sp c - 4) w (ram c)\<rparr>"

definition peek :: "nat \<Rightarrow> cpu \<Rightarrow> u32" where
  "peek k c = load32 (ram c) (sp c + 4 * of_nat k)"

definition leave :: "nat \<Rightarrow> cpu \<Rightarrow> cpu" where
  "leave k c = c\<lparr>sp := sp c + 4 * of_nat k\<rparr>"

definition pushal :: "cpu \<Rightarrow> cpu" where
  "pushal c = push (di c) (push (si c) (push (bp c) (push (sp c) (push (ebx c) (push (edx c) (push (ecx c) (push (eax c) c)))))))"

definition popal :: "cpu \<Rightarrow> cpu" where
  "popal c = leave 8 (c\<lparr>di := peek 0 c, si := peek 1 c, bp := peek 2 c, ebx := peek 4 c, edx := peek 5 c,
     ecx := peek 6 c, eax := peek 7 c\<rparr>)"

definition pushfl :: "cpu \<Rightarrow> cpu" where
  "pushfl c = push (eflags c) c"

definition popfl :: "cpu \<Rightarrow> cpu" where
  "popfl c = leave 1 (c\<lparr>eflags := peek 0 c\<rparr>)"

text \<open>The privilege level is in the lowest two bits of \<open>cs\<close>. An interrupt from a program goes to the stack the
  task state segment names; an interrupt gate clears the interrupt flag, every gate the trap and nested
  task flags.\<close>

definition ring :: "u16 \<Rightarrow> u16" where
  "ring sel = sel AND 3"

definition kernel_stack :: "u32 \<Rightarrow> cpu \<Rightarrow> u32" where
  "kernel_stack kesp c = (if ring (cs c) \<noteq> 0 then kesp else sp c)"

definition interrupt :: "u32 \<Rightarrow> u16 \<Rightarrow> bool \<Rightarrow> u32 \<Rightarrow> cpu \<Rightarrow> cpu" where
  "interrupt kesp kss trap target c =
     (let d = (if ring (cs c) \<noteq> 0 then push (sp c) (push (ucast (ss c)) (c\<lparr>sp := kesp, ss := kss\<rparr>)) else c);
          d = push (ip c) (push (ucast (cs c)) (push (eflags c) d))
      in d\<lparr>ip := target, cs := KERNEL_CS, eflags := eflags c AND NOT (if trap then 0x14100 else 0x14300)\<rparr>)"

text \<open>A return to an outer level takes the stack pointer of the program off the stack as well.\<close>

definition iret_code :: "cpu \<Rightarrow> cpu" where
  "iret_code c =
     (let d = c\<lparr>ip := peek 0 c, cs := ucast (peek 1 c), eflags := peek 2 c\<rparr>
      in if ring (cs d) > ring (cs c) then d\<lparr>sp := peek 3 c, ss := ucast (peek 4 c)\<rparr> else leave 3 d)"

text \<open>A call of compiled code, which ends with its \<open>ret\<close>; \<open>ra\<close> is the address it returns to.\<close>

definition call_code :: "(cpu \<Rightarrow> cpu option) \<Rightarrow> u32 \<Rightarrow> cpu \<Rightarrow> cpu option" where
  "call_code f ra c = f (push ra c)"

text \<open>The calling convention: the callee keeps \<open>ebx\<close>, \<open>esi\<close>, \<open>edi\<close>, \<open>ebp\<close> and the segments, and it keeps the \<open>n\<close> bytes of
  its caller at the top of the stack. For a system call these include the arguments, which the convention
  would let it change.\<close>

definition keeps_caller :: "nat \<Rightarrow> (cpu \<Rightarrow> cpu option) \<Rightarrow> bool" where
  "keeps_caller n f \<longleftrightarrow> (\<forall>c d. f c = Some d \<longrightarrow> sp d = sp c + 4 \<and> ebx d = ebx c \<and> si d = si c \<and> di d = di c \<and> bp d = bp c \<and>
     cs d = cs c \<and> ss d = ss c \<and> ds d = ds c \<and> es d = es c \<and> fs d = fs c \<and> gs d = gs c \<and> gdtr d = gdtr c \<and>
     (\<forall>x. in_region (sp c + 4) n x \<longrightarrow> ram d x = ram c x))"

section \<open>The code\<close>

text \<open>\<open>keyboard_handler\<close>, \<open>test_interrupts_handler\<close> and \<open>rtc_test_handler\<close> differ in the function they call.\<close>

definition wrapper :: "(cpu \<Rightarrow> cpu option) \<Rightarrow> u32 \<Rightarrow> cpu \<Rightarrow> cpu option" where
  "wrapper f ra c = map_option (\<lambda>d. iret_code (popal (popfl d))) (call_code f ra (pushfl (pushal c)))"

text \<open>\<open>table n\<close> is the compiled system call \<open>n\<close>. After the call \<open>xorl\<close> sets the zero flag, so that the jump to \<open>FIN\<close>
  is always taken.\<close>

definition syscall_handler_code :: "(nat \<Rightarrow> cpu \<Rightarrow> cpu option) \<Rightarrow> u32 \<Rightarrow> cpu \<Rightarrow> cpu option" where
  "syscall_handler_code table ra c =
     (let c = c\<lparr>eflags := eflags c AND NOT 0x200\<rparr> in
      if sint (eax c) < MIN_SYSTEM_CALLS \<or> sint (eax c) > MAX_SYSTEM_CALLS then Some (iret_code (c\<lparr>eax := - 1\<rparr>))
      else map_option (\<lambda>d. let d = d\<lparr>ebx := 0\<rparr> in iret_code (leave 3 (d\<lparr>ebx := peek 0 d, ecx := peek 1 d, edx := peek 2 d\<rparr>)))
        (call_code (table (unat (eax c))) ra (push (ebx c) (push (ecx c) (push (edx c) c)))))"

definition switch_to_user_code :: "cpu \<Rightarrow> cpu" where
  "switch_to_user_code c =
     (let c = c\<lparr>eax := (eax c AND 0xFFFF0000) OR USER_DS, ds := ucast USER_DS, es := ucast USER_DS, fs := ucast USER_DS,
        gs := ucast USER_DS, ebx := peek 1 c\<rparr>;
        c = pushfl (push stack_segment (push USER_DS c));
        c = c\<lparr>eax := peek 0 c OR FLAG_SETTINGS\<rparr>;
        c = c\<lparr>ram := store32 (sp c) (eax c) (ram c)\<rparr>
      in iret_code (push (ebx c) (push USER_CS c)))"

text \<open>The start, up to the first instruction of \<open>entry\<close>: the boot loader has left \<open>magic\<close> in \<open>eax\<close> and the address of
  its structures in \<open>ebx\<close>.\<close>

definition start_code :: "u32 \<Rightarrow> (cpu \<Rightarrow> cpu option) \<Rightarrow> u32 \<Rightarrow> u32 \<Rightarrow> cpu \<Rightarrow> cpu option" where
  "start_code gdt_desc init ra ra' c =
     (let c = c\<lparr>eflags := eflags c AND NOT 0x200, gdtr := gdt_desc\<rparr> in
      map_option (\<lambda>d.
        let d = leave 6 (d\<lparr>di := peek 0 d, si := peek 1 d, edx := peek 2 d, ecx := peek 3 d, ebx := peek 4 d, eax := peek 5 d\<rparr>);
            d = d\<lparr>cs := KERNEL_CS, sp := 0x800000, ecx := (ecx d AND 0xFFFF0000) OR ucast KERNEL_DS, ss := KERNEL_DS,
              ds := KERNEL_DS, es := KERNEL_DS, fs := KERNEL_DS, gs := KERNEL_DS\<rparr>
        in push ra' (push (eax d) (push (ebx d) d)))
        (call_code init ra (push (di c) (push (si c) (push (edx c) (push (ecx c) (push (ebx c) (push (eax c) c))))))))"

text \<open>The segment descriptors, and how the processor reads one. The last two are filled by \<open>entry\<close>.\<close>

definition gdt :: "64 word list" where
  "gdt = [0, 0, 0x00CF9A000000FFFF, 0x00CF92000000FFFF, 0x00CFFA000000FFFF, 0x00CFF2000000FFFF, 0, 0]"

definition seg_of :: "64 word \<Rightarrow> seg_desc" where
  "seg_of w = \<lparr>seg_lim_15_00 = ucast w, base_15_00 = ucast (drop_bit 16 w), base_23_16 = ucast (drop_bit 32 w),
     seg_type = unat (drop_bit 40 w AND 0xF), seg_sys = bit w 44, seg_dpl = unat (drop_bit 45 w AND 3), seg_present = bit w 47,
     seg_lim_19_16 = ucast (drop_bit 48 w AND 0xF), avail = bit w 52, seg_reserved = bit w 53, opsize = bit w 54,
     granularity = bit w 55, base_31_24 = ucast (drop_bit 56 w)\<rparr>"

definition selected :: "u16 \<Rightarrow> seg_desc" where
  "selected sel = seg_of (gdt ! unat (drop_bit 3 sel))"

section \<open>Words on the stack\<close>

fun stacked :: "mem \<Rightarrow> u32 \<Rightarrow> u32 list \<Rightarrow> bool" where
  "stacked m a [] = True"
| "stacked m a (w # ws) = (load32 m a = w \<and> stacked m (a + 4) ws)"

lemma unat_add_of_nat_le: "unat (u + of_nat k :: u32) \<le> unat u + k"
proof -
  have "unat (u + of_nat k) \<le> unat u + unat (of_nat k :: u32)" by (simp add: unat_word_ariths)
  moreover have "unat (of_nat k :: u32) \<le> k" by (simp add: unat_of_nat)
  ultimately show ?thesis by linarith
qed

lemma in_region_add:
  assumes "in_region (a + of_nat k) n x"
  shows "in_region a (k + n) x"
proof -
  have "x - a = (x - (a + of_nat k)) + of_nat k" by simp
  then have "unat (x - a) \<le> unat (x - (a + of_nat k)) + k" by (metis unat_add_of_nat_le)
  then show ?thesis using assms by (simp add: in_region_def)
qed

lemma stacked_cong:
  "stacked m a ws \<Longrightarrow> (\<And>x. in_region a (4 * length ws) x \<Longrightarrow> m' x = m x) \<Longrightarrow> length ws < 1000 \<Longrightarrow> stacked m' a ws"
proof (induction ws arbitrary: a)
  case (Cons w ws)
  have h: "in_region a (4 * length (w # ws)) (a + k)" if "unat k < 4" for k
    using that by (simp add: in_region_def)
  have "m' a = m a" "m' (a + 1) = m (a + 1)" "m' (a + 2) = m (a + 2)" "m' (a + 3) = m (a + 3)"
    using h [of 0] h [of 1] h [of 2] h [of 3] Cons.prems(2) by simp_all
  moreover have "stacked m' (a + 4) ws"
  proof (rule Cons.IH)
    fix x
    assume "in_region (a + 4) (4 * length ws) x"
    then have "in_region a (4 * length (w # ws)) x"
      using in_region_add [of a 4 "4 * length ws" x] Cons.prems(3) by simp
    then show "m' x = m x" by (rule Cons.prems(2))
  qed (use Cons.prems in simp_all)
  ultimately show ?case using Cons.prems(1) by (simp add: load32_def)
qed simp

lemma store32_outside: "\<not> in_region a 4 x \<Longrightarrow> store32 a w m x = m x"
  by (auto simp: store32_def in_region_def)

lemma stacked_push:
  assumes "stacked m a ws" and "length ws < 1000"
  shows "stacked (store32 (a - 4) w m) (a - 4) (w # ws)"
proof -
  have "stacked (store32 (a - 4) w m) a ws"
  proof (rule stacked_cong [OF assms(1) _ assms(2)])
    fix x
    assume x: "in_region a (4 * length ws) x"
    have "x - (a - 4) = (x - a) + 4" by simp
    moreover have "unat (x - a) + 4 < 4294967296" using x assms(2) by (simp add: in_region_def)
    then have "unat (x - a + 4) = unat (x - a) + 4" by (subst unat_word_ariths(1)) simp
    ultimately have "unat (x - (a - 4)) = unat (x - a) + 4" by (simp only:)
    then show "store32 (a - 4) w m x = m x" by (intro store32_outside) (simp add: in_region_def)
  qed
  then show ?thesis by (simp add: load32_store32)
qed

lemma stacked_nth: "stacked m a ws \<Longrightarrow> i < length ws \<Longrightarrow> load32 m (a + 4 * of_nat i) = ws ! i"
proof (induction ws arbitrary: a i)
  case (Cons w ws)
  show ?case
  proof (cases i)
    case (Suc k)
    have "a + 4 * of_nat i = (a + 4) + 4 * of_nat k" by (simp add: Suc algebra_simps)
    then show ?thesis using Cons.IH [of "a + 4" k] Cons.prems Suc by (simp only:) simp
  qed (use Cons.prems in simp)
qed simp

lemma peek_stacked: "stacked (ram c) (sp c) ws \<Longrightarrow> i < length ws \<Longrightarrow> peek i c = ws ! i"
  by (simp add: peek_def stacked_nth)

lemma push_simps [simp]:
  "sp (push w c) = sp c - 4" "eax (push w c) = eax c" "ebx (push w c) = ebx c" "ecx (push w c) = ecx c" "edx (push w c) = edx c"
  "si (push w c) = si c" "di (push w c) = di c" "bp (push w c) = bp c" "ip (push w c) = ip c" "eflags (push w c) = eflags c"
  "cs (push w c) = cs c" "ss (push w c) = ss c" "ds (push w c) = ds c" "es (push w c) = es c" "fs (push w c) = fs c"
  "gs (push w c) = gs c" "gdtr (push w c) = gdtr c" "ram (push w c) = store32 (sp c - 4) w (ram c)"
  by (simp_all add: push_def)

definition on_top :: "cpu \<Rightarrow> u32 list \<Rightarrow> bool" where
  "on_top c ws \<longleftrightarrow> stacked (ram c) (sp c) ws \<and> length ws < 1000"

lemma on_top_Nil: "on_top c []"
  by (simp add: on_top_def)

lemma on_top_push: "on_top c ws \<Longrightarrow> Suc (length ws) < 1000 \<Longrightarrow> on_top (push w c) (w # ws)"
  unfolding on_top_def push_simps by (intro conjI stacked_push) simp_all

lemma on_top_upd [simp]:
  "on_top (c\<lparr>ip := a, cs := b\<rparr>) ws = on_top c ws" "on_top (c\<lparr>ip := a, cs := b, eflags := e\<rparr>) ws = on_top c ws" "on_top (c\<lparr>eflags := e\<rparr>) ws = on_top c ws"
  by (simp_all add: on_top_def)

text \<open>\<open>c\<close> has grown a stack of \<open>n\<close> bytes from \<open>a\<close> downwards, over the memory \<open>m\<close>.\<close>

definition grown :: "u32 \<Rightarrow> nat \<Rightarrow> mem \<Rightarrow> cpu \<Rightarrow> bool" where
  "grown a n m c \<longleftrightarrow> sp c = a - of_nat n \<and> (\<forall>x. \<not> in_region (a - of_nat n) n x \<longrightarrow> ram c x = m x)"

lemma grown_0: "grown (sp c) 0 (ram c) c"
  by (simp add: grown_def)

lemma grown_push:
  assumes "grown a n m c" and k: "k = n + 4"
  shows "grown a k m (push w c)"
proof -
  have sp: "sp c = a - of_nat n" "\<And>x. \<not> in_region (a - of_nat n) n x \<Longrightarrow> ram c x = m x" using assms(1) by (simp_all add: grown_def)
  have a: "a - of_nat n - 4 = a - of_nat k" by (simp add: k)
  have "store32 (a - of_nat k) w (ram c) x = m x" if x: "\<not> in_region (a - of_nat k) k x" for x
  proof -
    have "\<not> in_region (a - of_nat k) 4 x" using x by (simp add: in_region_def k)
    then have "store32 (a - of_nat k) w (ram c) x = ram c x" by (rule store32_outside)
    moreover have "\<not> in_region (a - of_nat n) n x"
      using in_region_add [of "a - of_nat k" 4 n x] x by (auto simp: k add.commute)
    ultimately show ?thesis using sp(2) by simp
  qed
  then show ?thesis by (simp add: grown_def sp(1) a)
qed

lemma grown_upd [simp]:
  "grown a n m (c\<lparr>ip := x, cs := y\<rparr>) = grown a n m c" "grown a n m (c\<lparr>ip := x, cs := y, eflags := z\<rparr>) = grown a n m c" "grown a n m (c\<lparr>eflags := z\<rparr>) = grown a n m c"
  by (simp_all add: grown_def)

section \<open>What interrupts and calls leave as it was\<close>

lemma ucast_sel [simp]: "ucast (ucast (sel :: u16) :: u32) = sel"
  by (rule ucast_down_ucast_id) (simp add: is_down)

lemma ring_le: "ring KERNEL_CS = 0"
  by (simp add: ring_def KERNEL_CS_def)

text \<open>What the processor finds at an \<open>iret\<close> that undoes an interrupt.\<close>

definition frame_of :: "cpu \<Rightarrow> u32 list" where
  "frame_of c = [ip c, ucast (cs c), eflags c] @ (if ring (cs c) \<noteq> 0 then [sp c, ucast (ss c)] else [])"

lemma interrupt_frame:
  fixes kesp kss trap h and c :: cpu
  defines "d \<equiv> interrupt kesp kss trap h c"
  shows "on_top d (frame_of c)"
    and "sp d = kernel_stack kesp c - 4 * of_nat (length (frame_of c))"
  by (auto simp: d_def interrupt_def frame_of_def kernel_stack_def Let_def intro!: on_top_push on_top_Nil)

lemma interrupt_regs [simp]:
  fixes kesp kss trap h and c :: cpu
  defines "d \<equiv> interrupt kesp kss trap h c"
  shows "eax d = eax c" "ebx d = ebx c" "ecx d = ecx c" "edx d = edx c" "si d = si c" "di d = di c" "bp d = bp c"
    "cs d = KERNEL_CS" "ds d = ds c" "es d = es c" "fs d = fs c" "gs d = gs c" "gdtr d = gdtr c" "ip d = h"
    "ss d = (if ring (cs c) \<noteq> 0 then kss else ss c)"
  by (simp_all add: d_def interrupt_def Let_def)

lemma iret_undoes:
  assumes "stacked (ram d) (sp d) (frame_of c)" and "cs d = KERNEL_CS"
    and "sp d = kernel_stack kesp c - 4 * of_nat (length (frame_of c))"
    and "ring (cs c) = 0 \<Longrightarrow> ss d = ss c"
  shows "iret_code d = d\<lparr>ip := ip c, cs := cs c, eflags := eflags c, sp := sp c, ss := ss c\<rparr>"
proof (cases "ring (cs c) = 0")
  case True
  then show ?thesis using assms by (simp add: iret_code_def frame_of_def kernel_stack_def peek_def leave_def Let_def ring_le)
next
  case False
  then have "ring (cs c) > 0" by (simp add: word_gt_0)
  then show ?thesis using False assms(1,2)
    by (simp add: iret_code_def frame_of_def peek_def Let_def ring_le add.assoc)
qed

lemma popal_popfl:
  assumes "stacked (ram d) (sp d) (fl # rdi # rsi # rbp # rsp # rbx # rdx # rcx # rax # ws)"
  shows "popal (popfl d) = d\<lparr>eflags := fl, di := rdi, si := rsi, bp := rbp, ebx := rbx, edx := rdx, ecx := rcx, eax := rax, sp := sp d + 36\<rparr>"
    and "stacked (ram d) (sp d + 36) ws"
  using assms by (simp_all add: popal_def popfl_def peek_def leave_def add.assoc)

lemma entry_grown:
  "\<exists>n \<le> 60. grown (kernel_stack kesp c) n (ram c) (push ra (pushfl (pushal (interrupt kesp kss trap h c))))"
proof -
  have i: "\<exists>n \<le> 20. grown (kernel_stack kesp c) n (ram c) (interrupt kesp kss trap h c)"
  proof (cases "ring (cs c) = 0")
    case True
    have "grown (sp c) 12 (ram c) (push (ip c) (push (ucast (cs c)) (push (eflags c) c)))"
      by ((rule grown_push)+, rule grown_0, (rule refl)+, simp)
    then show ?thesis using True by (intro exI [of _ 12]) (simp add: interrupt_def kernel_stack_def Let_def)
  next
    case False
    have "grown kesp 0 (ram c) (c\<lparr>sp := kesp, ss := kss\<rparr>)" by (simp add: grown_def)
    then have "grown kesp 20 (ram c) (push (ip c) (push (ucast (cs c)) (push (eflags c) (push (sp c) (push (ucast (ss c))
        (c\<lparr>sp := kesp, ss := kss\<rparr>))))))"
      by - ((rule grown_push)+, assumption, (rule refl)+, simp)
    then show ?thesis using False by (intro exI [of _ 20]) (simp add: interrupt_def kernel_stack_def Let_def)
  qed
  then obtain n where n: "n \<le> 20" "grown (kernel_stack kesp c) n (ram c) (interrupt kesp kss trap h c)" by blast
  have "grown (kernel_stack kesp c) (n + 40) (ram c) (push ra (pushfl (pushal (interrupt kesp kss trap h c))))"
    unfolding pushfl_def pushal_def by ((rule grown_push)+, rule n(2), (rule refl)+, simp)
  then show ?thesis using n(1) by (intro exI [of _ "n + 40"]) simp
qed

lemma wrapper_restores:
  assumes f: "keeps_caller 56 f"
  shows "wrapper f ra (interrupt kesp kss trap h c) =
    map_option (\<lambda>e. c\<lparr>ram := ram e\<rparr>) (f (push ra (pushfl (pushal (interrupt kesp kss trap h c)))))"
proof (cases "f (push ra (pushfl (pushal (interrupt kesp kss trap h c))))")
  case None
  then show ?thesis by (simp add: wrapper_def call_code_def)
next
  case (Some e)
  let ?i = "interrupt kesp kss trap h c"
  let ?p = "pushfl (pushal ?i)"
  let ?ws = "eflags ?i # di c # si c # bp c # sp ?i # ebx c # edx c # ecx c # eax c # frame_of c"
  have l: "length (frame_of c) \<le> 5" by (simp add: frame_of_def)
  have st: "on_top ?p ?ws"
    unfolding pushfl_def pushal_def using interrupt_frame(1) [of kesp kss trap h c] l
    by (auto intro!: on_top_push)
  have k: "sp e = sp ?p" "cs e = KERNEL_CS" "ss e = ss ?i" "ds e = ds c" "es e = es c" "fs e = fs c" "gs e = gs c"
    "gdtr e = gdtr c" "\<And>x. in_region (sp ?p) 56 x \<Longrightarrow> ram e x = ram (push ra ?p) x"
    using f Some unfolding keeps_caller_def by (auto simp: pushfl_def pushal_def)
  have "stacked (ram e) (sp e) ?ws"
  proof (rule stacked_cong [where m = "ram (push ra ?p)"])
    have "on_top (push ra ?p) (ra # ?ws)" by (rule on_top_push [OF st]) (use l in simp)
    then show "stacked (ram (push ra ?p)) (sp e) ?ws" by (simp add: on_top_def k(1))
    show "ram e x = ram (push ra ?p) x" if "in_region (sp e) (4 * length ?ws) x" for x
      using k(9) [of x] that l by (simp add: k(1) in_region_def)
  qed (use l in simp)
  note p = popal_popfl [OF this]
  let ?d = "popal (popfl e)"
  have s: "sp ?d = kernel_stack kesp c - 4 * of_nat (length (frame_of c))"
    using interrupt_frame(2) [of kesp kss trap h c] by (simp add: p(1) k(1) pushfl_def pushal_def)
  have "iret_code ?d = ?d\<lparr>ip := ip c, cs := cs c, eflags := eflags c, sp := sp c, ss := ss c\<rparr>"
    by (rule iret_undoes) (use p(2) s k(2,3) in \<open>simp_all add: p(1)\<close>)
  also have "\<dots> = c\<lparr>ram := ram e\<rparr>"
    by (rule cpu.equality) (simp_all add: p(1) k)
  finally show ?thesis using Some by (simp add: wrapper_def call_code_def)
qed

lemma grown_apart:
  assumes "grown a n m c" and "n \<le> k" and "\<not> in_region (a - of_nat k) k x"
  shows "ram c x = m x"
proof -
  obtain j where k: "k = j + n" using assms(2) by (metis add.commute le_iff_add)
  have a: "a - of_nat k + of_nat j = a - of_nat n" by (simp add: k)
  have "\<not> in_region (a - of_nat n) n x"
    using in_region_add [of "a - of_nat k" j n x] assms(3) unfolding a [unfolded k] k by blast
  then show ?thesis using assms(1) by (simp add: grown_def)
qed

text \<open>C22. An interrupt is transparent to what it interrupts, a program or the kernel: when the handler's C
  function comes back, the wrapper goes on at the interrupted instruction with every register and
  flag as it was, and until then no more than 60 bytes below the stack pointer have been used.\<close>

theorem interrupts_are_transparent:
  assumes "keeps_caller 56 f"
  shows "let d = push ra (pushfl (pushal (interrupt kesp kss trap h c))) in
    wrapper f ra (interrupt kesp kss trap h c) = map_option (\<lambda>e. c\<lparr>ram := ram e\<rparr>) (f d) \<and>
    (\<forall>x. in_region (kernel_stack kesp c - 60) 60 x \<or> ram d x = ram c x)"
proof -
  obtain n where n: "n \<le> 60" "grown (kernel_stack kesp c) n (ram c) (push ra (pushfl (pushal (interrupt kesp kss trap h c))))"
    using entry_grown by blast
  show ?thesis
    unfolding Let_def using wrapper_restores [OF assms] grown_apart [OF n(2,1)] by (simp only: of_nat_numeral) blast
qed

text \<open>A handler that uses the registers the convention leaves it and writes a character to the screen.\<close>

definition handler0 :: "cpu \<Rightarrow> cpu option" where
  "handler0 c = (if in_region (sp c + 4) 56 0xB8000 then None
     else Some (c\<lparr>eax := 1, ecx := 2, edx := 3, eflags := 0x46, sp := sp c + 4, ram := (ram c)(0xB8000 := 0x41)\<rparr>))"

definition cpu0 :: cpu where
  "cpu0 = \<lparr>eax = 10, ebx = 11, ecx = 12, edx = 13, si = 14, di = 15, bp = 16, sp = 0x83FFF00, ip = 0x8048100, eflags = 0x4202,
     cs = 0x23, ss = 0x2B, ds = 0x2B, es = 0x2B, fs = 0x2B, gs = 0x2B, gdtr = 0, ram = \<lambda>_. 0\<rparr>"

lemma handler0_keeps: "keeps_caller 56 handler0"
  by (auto simp: keeps_caller_def handler0_def split: if_splits)

theorem interrupts_are_transparent_witness:
  "\<exists>c. wrapper handler0 0x400100 (interrupt 0x7FFF00 0x18 False 0x400000 cpu0) = Some c \<and>
     c = cpu0\<lparr>ram := ram c\<rparr> \<and> ram c 0xB8000 = 0x41"
proof -
  let ?d = "push 0x400100 (pushfl (pushal (interrupt 0x7FFF00 0x18 False 0x400000 cpu0)))"
  have "sp ?d = 0x7FFEC4"
    by (simp add: pushfl_def pushal_def interrupt_def cpu0_def ring_def)
  then have d: "handler0 ?d = Some (?d\<lparr>eax := 1, ecx := 2, edx := 3, eflags := 0x46, sp := sp ?d + 4, ram := (ram ?d)(0xB8000 := 0x41)\<rparr>)"
    by (simp add: handler0_def in_region_def)
  have "wrapper handler0 0x400100 (interrupt 0x7FFF00 0x18 False 0x400000 cpu0) = map_option (\<lambda>e. cpu0\<lparr>ram := ram e\<rparr>) (handler0 ?d)"
    using interrupts_are_transparent [OF handler0_keeps] unfolding Let_def by blast
  then show ?thesis unfolding d by simp
qed

text \<open>A program finds after a system call every register but \<open>eax\<close> as it was, and interrupts on or off as
  before; the C function of the call has \<open>ebx\<close>, \<open>ecx\<close> and \<open>edx\<close> as its arguments, and a number outside the
  table calls nothing and gives -1.\<close>

theorem calls_keep_registers:
  assumes f: "\<And>n. keeps_caller 32 (table n)"
  shows "let i = interrupt kesp kss trap h c;
      d = push ra (push (ebx c) (push (ecx c) (push (edx c) (i\<lparr>eflags := eflags i AND NOT 0x200\<rparr>)))) in
    syscall_handler_code table ra i =
      (if sint (eax c) < 1 \<or> 10 < sint (eax c) then Some (c\<lparr>eax := - 1, ram := ram i\<rparr>)
       else map_option (\<lambda>e. c\<lparr>eax := eax e, ram := ram e\<rparr>) (table (unat (eax c)) d)) \<and>
    map (\<lambda>k. peek k d) [1, 2, 3] = [ebx c, ecx c, edx c]"
proof -
  let ?i = "interrupt kesp kss trap h c"
  let ?c = "?i\<lparr>eflags := eflags ?i AND NOT 0x200\<rparr>"
  let ?p = "push (ebx c) (push (ecx c) (push (edx c) ?c))"
  let ?ws = "ebx c # ecx c # edx c # frame_of c"
  have l: "length (frame_of c) \<le> 5" by (simp add: frame_of_def)
  have fr: "on_top ?c (frame_of c)" using interrupt_frame(1) [of kesp kss trap h c] by simp
  have st: "on_top (push ra ?p) (ra # ?ws)" using fr l by (auto intro!: on_top_push)
  have args: "map (\<lambda>k. peek k (push ra ?p)) [1, 2, 3] = [ebx c, ecx c, edx c]"
    using st peek_stacked [of "push ra ?p" "ra # ?ws"] by (simp add: on_top_def)
  have bad: "iret_code (?c\<lparr>eax := - 1\<rparr>) = c\<lparr>eax := - 1, ram := ram ?i\<rparr>"
  proof -
    have "iret_code (?c\<lparr>eax := - 1\<rparr>) = ?c\<lparr>eax := - 1\<rparr>\<lparr>ip := ip c, cs := cs c, eflags := eflags c, sp := sp c, ss := ss c\<rparr>"
      by (rule iret_undoes) (use fr interrupt_frame(2) [of kesp kss trap h c] in \<open>simp_all add: on_top_def\<close>)
    also have "\<dots> = c\<lparr>eax := - 1, ram := ram ?i\<rparr>" by (rule cpu.equality) simp_all
    finally show ?thesis .
  qed
  have good: "iret_code (leave 3 (e\<lparr>ebx := peek 0 (e\<lparr>ebx := 0\<rparr>), ecx := peek 1 (e\<lparr>ebx := 0\<rparr>), edx := peek 2 (e\<lparr>ebx := 0\<rparr>)\<rparr>)) = c\<lparr>eax := eax e, ram := ram e\<rparr>"
    if e: "table (unat (eax c)) (push ra ?p) = Some e" for e
  proof -
    have k: "sp e = sp ?p" "cs e = KERNEL_CS" "ss e = ss ?i" "ds e = ds c" "es e = es c" "fs e = fs c" "gs e = gs c"
      "si e = si c" "di e = di c" "bp e = bp c"
      "gdtr e = gdtr c" "\<And>x. in_region (sp ?p) 32 x \<Longrightarrow> ram e x = ram (push ra ?p) x"
      using f [of "unat (eax c)"] e unfolding keeps_caller_def by auto
    have s: "stacked (ram e) (sp e) ?ws"
    proof (rule stacked_cong [where m = "ram (push ra ?p)"])
      show "stacked (ram (push ra ?p)) (sp e) ?ws" using st by (simp add: on_top_def k(1))
      show "ram e x = ram (push ra ?p) x" if "in_region (sp e) (4 * length ?ws) x" for x
        using k(12) [of x] that l by (simp add: k(1) in_region_def)
    qed (use l in simp)
    let ?d = "leave 3 (e\<lparr>ebx := ebx c, ecx := ecx c, edx := edx c\<rparr>)"
    have "iret_code ?d = ?d\<lparr>ip := ip c, cs := cs c, eflags := eflags c, sp := sp c, ss := ss c\<rparr>"
      by (rule iret_undoes) (use s k(2,3) interrupt_frame(2) [of kesp kss trap h c] in \<open>simp_all add: leave_def k(1) add.assoc\<close>)
    also have "\<dots> = c\<lparr>eax := eax e, ram := ram e\<rparr>" by (rule cpu.equality) (simp_all add: k leave_def)
    finally show ?thesis using s by (simp add: peek_def add.assoc)
  qed
  show ?thesis unfolding Let_def syscall_handler_code_def call_code_def
    using args bad good by (cases "table (unat (eax c)) (push ra ?p)") (simp_all add: MIN_SYSTEM_CALLS_def MAX_SYSTEM_CALLS_def)
qed

text \<open>\<open>switch_to_user\<close> builds the frame of \<open>Dispatch\<close> and returns through it.\<close>

theorem switch_enters_program:
  assumes "ring (cs c) = 0"
  shows "let f = switch_to_user (eflags c) (peek 1 c); d = switch_to_user_code c in
    ip d = iret_eip f \<and> cs d = ucast (iret_cs f) \<and> eflags d = iret_eflags f \<and> sp d = iret_esp f \<and> ss d = ucast (iret_ss f) \<and>
    [ds d, es d, fs d, gs d] = replicate 4 (ucast USER_DS) \<and> bit (eflags d) IF_bit \<and> ring (cs d) = 3"
proof -
  let ?fl = "eflags c OR FLAG_SETTINGS"
  let ?c = "c\<lparr>eax := (eax c AND 0xFFFF0000) OR USER_DS, ds := ucast USER_DS, es := ucast USER_DS, fs := ucast USER_DS,
        gs := ucast USER_DS, ebx := peek 1 c\<rparr>"
  define p where "p = pushfl (push stack_segment (push USER_DS ?c))"
  have "on_top p [eflags c, stack_segment, USER_DS]"
    unfolding p_def pushfl_def by (auto intro!: on_top_push on_top_Nil)
  then have fl: "peek 0 p = eflags c" and st: "stacked (ram p) (sp p + 4) [stack_segment, USER_DS]"
    by (simp_all add: on_top_def peek_def)
  have r: "ebx p = peek 1 c" "cs p = cs c" "[ds p, es p, fs p, gs p] = replicate 4 (ucast USER_DS)"
    by (simp_all add: p_def pushfl_def numeral_eq_Suc)
  let ?q = "p\<lparr>eax := ?fl\<rparr>"
  let ?r = "?q\<lparr>ram := store32 (sp ?q) (eax ?q) (ram ?q)\<rparr>"
  define s where "s = push (ebx ?r) (push USER_CS ?r)"
  from stacked_push [OF st, of ?fl] have "on_top ?r [?fl, stack_segment, USER_DS]" by (simp add: on_top_def)
  then have "on_top s [peek 1 c, USER_CS, ?fl, stack_segment, USER_DS]" by (auto intro!: on_top_push simp: s_def r)
  then have w: "peek 0 s = peek 1 c" "peek 1 s = USER_CS" "peek 2 s = ?fl" "peek 3 s = stack_segment" "peek 4 s = USER_DS"
    by (simp_all add: on_top_def peek_def add.assoc)
  have k: "ring (cs s) = 0" "[ds s, es s, fs s, gs s] = replicate 4 (ucast USER_DS)" using assms r by (simp_all add: s_def)
  have u: "ring (ucast USER_CS) = 3" by (simp add: ring_def USER_CS_def)
  have "switch_to_user_code c = iret_code s" unfolding switch_to_user_code_def Let_def
    by (simp only: fl flip: p_def) (simp add: s_def)
  also have "\<dots> = s\<lparr>ip := peek 1 c, cs := ucast USER_CS, eflags := ?fl, sp := stack_segment, ss := ucast USER_DS\<rparr>"
    using k(1) u unfolding iret_code_def Let_def by (simp only: w cpu.simps) simp
  finally show ?thesis using k(2) u
    by (simp add: switch_to_user_def Let_def FLAG_SETTINGS_def IF_bit_def bit_simps bit_numeral_word_iff)
qed

text \<open>\<open>boot.S\<close> calls \<open>entry\<close> with the magic number and the address the boot loader has left in \<open>eax\<close> and \<open>ebx\<close>, on a stack
  of the kernel's own, in flat segments, with interrupts off.\<close>

theorem boot_hands_over:
  assumes init: "keeps_caller 24 init"
    and ok: "start_code gdt_desc init ra ra' c = Some d"
  shows "stacked (ram d) (sp d) [ra', eax c, ebx c]" and "sp d = 0x7FFFF4" and "cs d = KERNEL_CS" and "gdtr d = gdt_desc"
    and "[ss d, ds d, es d, fs d, gs d] = replicate 5 KERNEL_DS"
proof -
  let ?c = "c\<lparr>eflags := eflags c AND NOT 0x200, gdtr := gdt_desc\<rparr>"
  let ?p = "push (di ?c) (push (si ?c) (push (edx ?c) (push (ecx ?c) (push (ebx ?c) (push (eax ?c) ?c)))))"
  let ?ws = "[di c, si c, edx c, ecx c, ebx c, eax c]"
  have st: "on_top (push ra ?p) (ra # ?ws)" by (auto intro!: on_top_push on_top_Nil)
  obtain e where e: "init (push ra ?p) = Some e" using ok unfolding start_code_def call_code_def Let_def by auto
  have k: "sp e = sp ?p" "gdtr e = gdt_desc" "\<And>x. in_region (sp ?p) 24 x \<Longrightarrow> ram e x = ram (push ra ?p) x"
    using init e unfolding keeps_caller_def by auto
  have s: "stacked (ram e) (sp e) ?ws"
  proof (rule stacked_cong [where m = "ram (push ra ?p)"])
    show "stacked (ram (push ra ?p)) (sp e) ?ws" using st by (simp add: on_top_def k(1))
    show "ram e x = ram (push ra ?p) x" if "in_region (sp e) (4 * length ?ws) x" for x
      using k(3) [of x] that by (simp add: k(1))
  qed simp
  have a: "peek 4 e = ebx c" "peek 5 e = eax c" using peek_stacked [OF s] by fastforce+
  obtain g where g: "d = push ra' (push (eax c) (push (ebx c) g))" "sp g = 0x800000" "cs g = KERNEL_CS" "gdtr g = gdt_desc"
    "[ss g, ds g, es g, fs g, gs g] = replicate 5 KERNEL_DS"
    using ok e a k(2) unfolding start_code_def call_code_def Let_def by (auto simp: leave_def numeral_eq_Suc)
  have "on_top d [ra', eax c, ebx c]" unfolding g(1) by (auto intro!: on_top_push on_top_Nil)
  then show "stacked (ram d) (sp d) [ra', eax c, ebx c]" by (simp add: on_top_def)
  show "sp d = 0x7FFFF4" "cs d = KERNEL_CS" "gdtr d = gdt_desc" "[ss d, ds d, es d, fs d, gs d] = replicate 5 KERNEL_DS"
    using g by (simp_all add: numeral_eq_Suc)
qed

text \<open>The four segments cover the whole address space, those of programs at the outer level; the selectors of
  the task state and the local table name the two descriptors left empty.\<close>

lemma segments_flat:
  "\<forall>(sel, d, t) \<in> {(KERNEL_CS, 0, 10), (KERNEL_DS, 0, 2), (ucast USER_CS, 3, 10), (ucast USER_DS, 3, 2)}.
     selected sel = \<lparr>seg_lim_15_00 = 0xFFFF, base_15_00 = 0, base_23_16 = 0, seg_type = t, seg_sys = True, seg_dpl = d,
       seg_present = True, seg_lim_19_16 = 0xF, avail = False, seg_reserved = False, opsize = True, granularity = True, base_31_24 = 0\<rparr>"
  "selected KERNEL_TSS = seg_of 0" "selected KERNEL_LDT = seg_of 0"
  by (simp_all add: selected_def gdt_def KERNEL_CS_def KERNEL_DS_def USER_CS_def USER_DS_def KERNEL_TSS_def KERNEL_LDT_def)
    (simp_all add: seg_of_def bit_numeral_word_iff)

end
