(* ===== verification/Spec2Isabelle.thy ===== *)
theory Spec2Isabelle
  imports Kernel_Props Lib_Props Device_Props Memory_Props File_Props Fd_Props Terminal_Props Process_Props Boot_Props
    Ports Unit_Tests Sched_Props User_Props Shell_Props Grep_Props Fish_Props Emulate Wrappers
begin

text \<open>
  A verification of the operating system in \<^verbatim>\<open>student-distrib/\<close>, and of the programs in \<^verbatim>\<open>src/syscalls/\<close>
  and \<^verbatim>\<open>src/fish/\<close> that run on it. The kernel runs on one x86 processor: a text console, three
  terminals on one keyboard, a read-only file system in memory, at most six processes, and ten
  system calls. Nothing runs concurrently but the interrupt handlers, and only two interrupts are
  ever let through, the keyboard and the clock.

  \<^bold>\<open>The program.\<close> GRUB starts \<^verbatim>\<open>boot.S\<close>, which loads the segments of \<^verbatim>\<open>x86_desc.S\<close> and calls \<^verbatim>\<open>entry\<close> of
  \<^verbatim>\<open>kernel.c\<close>. \<^verbatim>\<open>entry\<close> reports what the boot loader says, remembers where the first module, the file
  system image, lies, fills the interrupt table (\<^verbatim>\<open>idt.c\<close>), programs the interrupt controller
  (\<^verbatim>\<open>i8259.c\<close>) and the clock (\<^verbatim>\<open>rtc.c\<close>), turns on paging (\<^verbatim>\<open>paging_handler.c\<close>) and executes the program
  \<^verbatim>\<open>shell\<close>. A program enters the kernel by \<^verbatim>\<open>int 0x80\<close> (\<^verbatim>\<open>syscall_handler.S\<close>), which calls one of the
  functions of \<^verbatim>\<open>syscalls.c\<close> by number; these go through the operations table of the descriptor to the
  drivers (\<^verbatim>\<open>terminal_driver.c\<close>, \<^verbatim>\<open>rtc.c\<close>, \<^verbatim>\<open>filesysobjs.c\<close>), or change the process: \<^verbatim>\<open>execute\<close> loads a
  program to its own 4 MB and goes on in it (\<^verbatim>\<open>switch_to_user.S\<close>), \<^verbatim>\<open>halt\<close> goes back to the stack of the
  parent. The keyboard handler (\<^verbatim>\<open>handle_keyboard\<close> of \<^verbatim>\<open>idt.c\<close>, \<^verbatim>\<open>keyboard_driver.c\<close>) edits the line that a
  read of the terminal waits for, prints on the screen, and switches terminals, which for a new
  terminal means to execute a shell. \<^verbatim>\<open>lib.c\<close> is the C library of the kernel.

  \<^bold>\<open>How the model is laid out.\<close> A component is a theory with its record, its operations under the names
  of the C functions, and its basic lemmas; records extend one another in the order of the components
  (\<^verbatim>\<open>hw\<close>, \<^verbatim>\<open>console\<close>, \<^verbatim>\<open>pic\<close>, \<^verbatim>\<open>rtc\<close>, \<^verbatim>\<open>paging\<close>, \<^verbatim>\<open>fs\<close>, \<^verbatim>\<open>kern\<close> of Kstate, and on top \<^verbatim>\<open>boot\<close> and \<^verbatim>\<open>sched\<close>), so that an operation takes the state of everything below it. Machine integers are
  words of their width. An array or a string of C is a partial function or a list behind \<^verbatim>\<open>aget\<close> and
  \<^verbatim>\<open>aput\<close>, so that an access out of bounds makes the result None; None is also the result of an access
  to memory that is not mapped and of a loop that does not end. Calls that do not come back the way they
  were entered (\<^verbatim>\<open>execute\<close>, \<^verbatim>\<open>halt\<close>, a terminal switch) return an \<^verbatim>\<open>outcome\<close>: a value, the entry into a
  program, or a stack to resume. A loop that waits for an interrupt takes the list of the handlers that run
  meanwhile, and is None if the list ends first.

  \<^bold>\<open>The C library and the machine.\<close> Prelude holds the integer types, arrays, memory and the collections of
  facts. Machine and Ports are the ports and flag macros of \<^verbatim>\<open>lib.h\<close>. Lib_String (strlen to itoa, over any
  destination of bytes), Lib_Mem (the memory blocks: the assembly loops register by register, and that each is a
  block copy or fill), Console (putc, scrolling, the hardware cursor; the screen is a grid of 25 rows of 80),
  Printf (the walk over the format, and that it prints a text computed from the arguments). Lib_Props has
  the properties of these.

  \<^bold>\<open>Devices and memory.\<close> Pic, Rtc, Idt, Paging with the properties in Device_Props and Memory_Props: what masks
  and vectors are set, what the address translation of the processor is after each operation, and that
  programs are isolated from one another.

  \<^bold>\<open>Files and descriptors.\<close> Filesys is \<^verbatim>\<open>filesysobjs.c\<close> on an image in memory, Fs_Spec what such an image
  contains and that the code reads it, File_Props the properties. Kstate holds the globals of the kernel.
  Terminal is the terminal driver, Descriptors the operations tables, open, close, read, write, getargs and vidmap,
  Fd_Spec and Fd_Props the invariant of the tables, which descriptor is given, what reads deliver.

  \<^bold>\<open>Processes and terminals.\<close> Process is execute, halt and switch_to_other_term; Process_Spec,
  Calls_Spec, Lifecycle and Switching prove that a command is split and a program started as it should be, that
  vidmap shows the screen, that execute pushes and halt pops a stack of processes, that a terminal comes
  back as it was; Process_Props states it. Keyboard is the keyboard interrupt, Line_Edit its refinement of a line
  editor, Echo what typing shows on the screen, Terminal_Props the properties. Scheduler and Sched_Props are the
  timer, which the kernel never enables; Unit_Tests the tests run by hand. Sample is a concrete kernel for
  the witnesses.

  \<^bold>\<open>The kernel as a whole.\<close> Dispatch is the system call handler and the return to programs, Wrappers all of
  the assembly instruction by instruction. Kernel is a step relation: any store the processor lets a
  program do, any system call with any registers, both interrupts, in any order, with waiting reads as two steps.
  Kernel_Inv states an invariant (tables well-formed, the program in front has its own 4 MB and nothing of the
  kernel's mapped, the kernel writes only to screens, stacks and programs, files as loaded); Kernel_Steps,
  Kernel_Calls, Kernel_Exec, Kernel_Keys and Kernel_Run prove that every step keeps it. Boot, Boot_Spec and Boot_Props
  show that the start establishes it, Kernel_Props concludes for every reachable state. A step that leaves the model
  is excluded by the relation: a call with a buffer outside the program's memory (the kernel does not check;
  Kernel_Props proves that this is a hole) and output below the last row of the screen (a flaw of putc).

  \<^bold>\<open>Programs.\<close> User_Lib is \<^verbatim>\<open>ece391support.c\<close> and the system calls as a record \<^verbatim>\<open>os\<close> of operations on any state;
  Users has cat, ls, hello, testprint, counter, shell and pingpong over it, Grep, Grep_Spec and Syserr the larger ones.
  User_Kernel provides \<^verbatim>\<open>os\<close> by the kernel model, each call through the wrapper of \<^verbatim>\<open>ece391syscall.S\<close> and the
  handler; User_Exec runs execute until the other program halts, User_Line reads a line while keys arrive,
  User_Shell and Shell_Props run a whole session of the shell, User_Props, Syserr_Props and Grep_Props the
  others. Fish, Fish_Spec and Fish_Props are the animation and its linked list in assembly; Emulate is the Linux
  emulation of the calls, with a lemma for what it copies and joins.

  \<^bold>\<open>Interfaces.\<close> Each is a locale, interpreted on the model. char_sink (Console): a step per character with a
  view, for putc; byte_dest (Lib_String): an array written by index, for memory and the buffers of printf;
  block_copy (Lib_Mem): for memcpy, memmove and the copy to a program; drivers (Fd_Spec): what the
  drivers owe to the system calls, interpreted for the invariant of the tables and in Kernel_Steps for that of the
  kernel; user_screen and user_file (User_Lib), user_errors (Syserr), shell_host (User_Shell): what programs rely
  on, interpreted on the kernel in User_Kernel, Syserr_Props and Shell_Props.

  \<^bold>\<open>Bounds.\<close> A command has less than 32 characters, because execute writes past its buffer from there on; a
  line has at most 128, six processes and three terminals exist, program buffers have at most 1025 bytes, and a line
  of grep less than 1024. The few loops over C text that need no bound are partial functions, and every theorem
  about a result states that there is one.

  \<^bold>\<open>Parameters.\<close> The addresses the linker gives (\<^verbatim>\<open>layout\<close>, \<^verbatim>\<open>klayout\<close>, \<^verbatim>\<open>linkage\<close>), the answers of devices (\<^verbatim>\<open>device\<close>),
  the contents of uninitialised memory, the value of the stack pointer when execute is called (\<^verbatim>\<open>frame\<close>), the code of programs
  that are not in \<^verbatim>\<open>src/syscalls/\<close>, the compiled C functions in Wrappers with their calling convention, and Linux
  in Emulate.

  \<^bold>\<open>Not modelled.\<close> \<^verbatim>\<open>ece391sigtest.c\<close> tests signals, which this kernel does not have: its handlers are never called, and it
  stops at its store through a null pointer. \<^verbatim>\<open>debug.h\<close> is compiled out. The object files, images and documents of
  the repository are not source code. Timing, the caches and the processor's protection of segments have no part
  in the model; a page fault of a program is a step that does not happen.
\<close>

section \<open>The kernel as a whole\<close>

end
